(* ===== verification/Capability.thy ===== *)
theory Capability
  imports Prelude
begin

text \<open>
  MCP capabilities and their canonical names
  (\<^verbatim>\<open>packages/core/src/entities/mcp.ts\<close>, \<^verbatim>\<open>packages/contracts/src/common.ts\<close>).

  A capability carries its own approval, pinned to a definition hash; it is
  usable only while it has not been removed and its approval is for the hash it
  has now. Canonical names are \<^verbatim>\<open><alias>__<tool>\<close>.
\<close>

datatype trust_tier = First_party | Verified | Community | Untrusted

datatype capability_kind = Tool | Resource | Resource_template | Prompt

datatype approval_state = Pending | Approved | Revoked

record capability_approval =
  apv_state :: approval_state
  apv_definitionHash :: string
  apv_approvedBy :: "id option"
  apv_approvedAt :: "time option"

record mcp_capability =
  cap_id :: id
  cap_workspaceId :: id
  cap_bindingId :: id
  cap_scopeKey :: string
  cap_kind :: capability_kind
  cap_name :: string
  cap_canonicalName :: string
  cap_title :: "string option"
  cap_description :: "string option"
  cap_inputSchema :: "jsv option"
  cap_outputSchema :: "jsv option"
  cap_annotations :: "(string \<times> jsv) list option"
  cap_definitionHash :: string
  cap_approval :: capability_approval
  cap_firstSeenAt :: time
  cap_lastSeenAt :: time
  cap_removedAt :: "time option"

record discovered_capability =
  dc_kind :: capability_kind
  dc_name :: string
  dc_canonicalName :: string
  dc_title :: "string option"
  dc_description :: "string option"
  dc_inputSchema :: "jsv option"
  dc_outputSchema :: "jsv option"
  dc_annotations :: "(string \<times> jsv) list option"

definition isCapabilityUsable :: "mcp_capability \<Rightarrow> bool" where
  "isCapabilityUsable cap \<longleftrightarrow>
     cap_removedAt cap = None \<and>
     apv_state (cap_approval cap) = Approved \<and>
     apv_definitionHash (cap_approval cap) = cap_definitionHash cap"

datatype block_reason = Removed | Not_approved | Capability_changed

definition capabilityBlockReason :: "mcp_capability \<Rightarrow> block_reason option" where
  "capabilityBlockReason cap =
     (if cap_removedAt cap \<noteq> None then Some Removed
      else if apv_state (cap_approval cap) \<noteq> Approved then Some Not_approved
      else if apv_definitionHash (cap_approval cap) \<noteq> cap_definitionHash cap
        then Some Capability_changed
      else None)"

definition canonicalCapabilityName :: "string \<Rightarrow> string \<Rightarrow> string" where
  "canonicalCapabilityName alias name = alias @ ''__'' @ name"

definition splitCanonicalName :: "string \<Rightarrow> (string \<times> string) option" where
  "splitCanonicalName canonical =
     (case index_of ''__'' canonical of
        None \<Rightarrow> None
      | Some i \<Rightarrow> if i = 0 \<or> i + 2 \<ge> length canonical then None
                 else Some (take i canonical, drop (i + 2) canonical))"

text \<open>
  The request contract's alias pattern \<^verbatim>\<open>^[a-z][a-z0-9_]{1,30}$\<close>, after trimming.
\<close>

definition aliasSchema :: "string \<Rightarrow> bool" where
  "aliasSchema s =
     (case s of [] \<Rightarrow> False
      | c # rest \<Rightarrow> is_lower c \<and> 1 \<le> length rest \<and> length rest \<le> 30 \<and>
          (\<forall>d \<in> set rest. is_lower d \<or> is_digit d \<or> d = CHR ''_''))"

text \<open>An alias whose end can always be found again in a canonical name.\<close>

definition alias_unambiguous :: "string \<Rightarrow> bool" where
  "alias_unambiguous alias \<longleftrightarrow> alias \<noteq> [] \<and> index_of ''__'' (alias @ ''_'') = None"

subsection \<open>Lemmas\<close>

lemma usable_iff_unblocked: "isCapabilityUsable cap \<longleftrightarrow> capabilityBlockReason cap = None"
  by (auto simp: isCapabilityUsable_def capabilityBlockReason_def)

lemma index_of_canonical:
  "index_of ''__'' (a @ ''_'') = None \<Longrightarrow> index_of ''__'' (a @ ''__'' @ n) = Some (length a)"
proof (induction a)
  case (Cons c a)
  then show ?case by (cases a) (auto split: if_splits)
qed simp

lemma split_canonical:
  assumes "alias_unambiguous alias" "name \<noteq> []"
  shows "splitCanonicalName (canonicalCapabilityName alias name) = Some (alias, name)"
  using assms index_of_canonical [of "alias" name]
  by (cases "alias") (auto simp: splitCanonicalName_def canonicalCapabilityName_def alias_unambiguous_def)

lemma splitCanonicalName_Some:
  "splitCanonicalName c = Some (a, n) \<Longrightarrow>
   canonicalCapabilityName a n = c \<and> a \<noteq> [] \<and> n \<noteq> []"
proof -
  assume "splitCanonicalName c = Some (a, n)"
  then obtain i where i: "index_of ''__'' c = Some i" "i \<noteq> 0" "i + 2 < length c"
    "a = take i c" "n = drop (i + 2) c"
    by (auto simp: splitCanonicalName_def split: option.splits if_splits)
  then have "c = take i c @ ''__'' @ drop (i + 2) c"
    using index_of_Some_split [OF i(1)] by simp
  with i show ?thesis by (auto simp: canonicalCapabilityName_def)
qed

end
