(* ===== verification/Permission.thy ===== *)
theory Permission
  imports Capability "HOL-Library.Product_Lexorder"
begin

text \<open>
  The permission engine: \<^verbatim>\<open>packages/core/src/policy/pattern.ts\<close>,
  \<^verbatim>\<open>packages/core/src/policy/permission.ts\<close> and the rule lists of
  \<^verbatim>\<open>apps/web/src/lib/policy-rules.ts\<close>.

  \<open>decidePermission\<close> is the whole decision: the capability gate, the collection of
  live matching rules over all scopes, the absolute deny, the ranking of what is
  left, the workspace default and the annotation floor. The lemmas characterise
  when each effect is returned, independently of the order of the rules.
\<close>

subsection \<open>Globs\<close>

text \<open>
  A glob is compiled to a regular expression of literal characters and \<^verbatim>\<open>.*\<close>; the
  dot has no \<^verbatim>\<open>s\<close> flag, so it does not match a line terminator.
\<close>

datatype re_atom = Lit char | Dot_star

definition line_terminator :: "char \<Rightarrow> bool" where
  "line_terminator c \<longleftrightarrow> code c = 10 \<or> code c = 13"

fun re_test :: "re_atom list \<Rightarrow> string \<Rightarrow> bool" where
  "re_test [] s = (s = [])"
| "re_test (Lit c # r) [] = False"
| "re_test (Lit c # r) (d # s) = (c = d \<and> re_test r s)"
| "re_test (Dot_star # r) [] = re_test r []"
| "re_test (Dot_star # r) (d # s) =
     (re_test r (d # s) \<or> (\<not> line_terminator d \<and> re_test (Dot_star # r) s))"

definition escapeRegex :: "string \<Rightarrow> re_atom list" where
  "escapeRegex s = map Lit s"

definition compile_glob :: "string \<Rightarrow> re_atom list" where
  "compile_glob pattern = join_with [Dot_star] (map escapeRegex (split_on (CHR ''*'') pattern))"

type_synonym re_cache = "(string \<times> re_atom list) list"

definition globToRegExp :: "re_cache \<Rightarrow> string \<Rightarrow> re_atom list \<times> re_cache" where
  "globToRegExp cache pattern =
     (case map_of cache pattern of
        Some re \<Rightarrow> (re, cache)
      | None \<Rightarrow> (let re = compile_glob pattern in
          (re, if length cache < 1000 then (pattern, re) # cache else cache)))"

definition globMatches :: "string \<Rightarrow> string \<Rightarrow> bool" where
  "globMatches pattern value \<longleftrightarrow> pattern = ''*'' \<or> re_test (compile_glob pattern) value"

definition patternSpecificity :: "string \<Rightarrow> nat" where
  "patternSpecificity pattern =
     (if pattern = ''*'' then 0 else if CHR ''*'' \<in> set pattern then 1 else 2)"

subsection \<open>Rules\<close>

datatype perm_effect = Allow | Ask | Deny

datatype scope_type = S_workspace | S_agent | S_member | S_apiKey | S_channel

definition SCOPE_RANK :: "scope_type \<Rightarrow> nat" where
  "SCOPE_RANK s = (case s of S_workspace \<Rightarrow> 0 | S_agent \<Rightarrow> 1 | S_member \<Rightarrow> 2 | S_apiKey \<Rightarrow> 2 | S_channel \<Rightarrow> 2)"

datatype arg_matcher =
    Equals string jsv
  | One_of string "jsv list"
  | Matches string string
  | Exists string
  | Max_number string int

record rule_constraints =
  rc_argMatchers :: "arg_matcher list option"
  rc_maxCallsPerRun :: "int option"
  rc_maxCallsPerHour :: "int option"

record policy_rule =
  rule_id :: id
  rule_bindingId :: "id option"
  rule_pattern :: string
  rule_effect :: perm_effect
  rule_priority :: int
  rule_constraints :: "rule_constraints option"
  rule_expiresAt :: "time option"

record policy_document =
  pd_id :: id
  pd_scopeType :: scope_type
  pd_scopeId :: "id option"
  pd_rules :: "policy_rule list"

record permission_input =
  pi_capability :: mcp_capability
  pi_bindingId :: id
  pi_trustTier :: trust_tier
  pi_args :: jsv
  pi_policies :: "policy_document list"
  pi_now :: time
  pi_defaultEffect :: perm_effect
  pi_callsThisRun :: int

record permission_decision =
  d_effect :: perm_effect
  d_matchedRuleId :: "id option"
  d_reason :: string
  d_tightenedByFloor :: bool

record candidate =
  c_rule :: policy_rule
  c_scope :: scope_type
  c_specificity :: nat

definition specificityOf :: "policy_rule \<Rightarrow> scope_type \<Rightarrow> nat" where
  "specificityOf rule scope =
     (let pattern = patternSpecificity (rule_pattern rule);
          binding = (case rule_bindingId rule of None \<Rightarrow> 0 | Some b \<Rightarrow> if b \<noteq> ''*'' then 1 else 0)
      in pattern * 100 + binding * 10 + SCOPE_RANK scope)"

subsection \<open>Argument constraints\<close>

text \<open>
  Property access by a path segment: an object's own member, an array's index or
  its length. Anything absent is \<^verbatim>\<open>undefined\<close>.
\<close>

fun get_member :: "jsv \<Rightarrow> string \<Rightarrow> jsv" where
  "get_member (JObj es) seg = (case map_of es seg of None \<Rightarrow> JUndefined | Some v \<Rightarrow> v)"
| "get_member (JArr vs) seg =
     (if seg = ''length'' then JNum (int (length vs))
      else case map_of (zip (map show_nat [0..<length vs]) vs) seg of
        None \<Rightarrow> JUndefined | Some v \<Rightarrow> v)"
| "get_member _ seg = JUndefined"

fun is_object :: "jsv \<Rightarrow> bool" where
  "is_object (JObj es) = True"
| "is_object (JArr vs) = True"
| "is_object _ = False"

fun get_path :: "jsv \<Rightarrow> string list \<Rightarrow> jsv" where
  "get_path cur [] = cur"
| "get_path cur (seg # segs) =
     (if \<not> is_object cur then JUndefined else get_path (get_member cur seg) segs)"

definition getPath :: "jsv \<Rightarrow> string \<Rightarrow> jsv" where
  "getPath obj path = get_path obj (split_on (CHR ''.'') path)"

text \<open>
  \<^verbatim>\<open>Object.is\<close> compares objects and arrays by identity; an argument and a value
  stored in a policy are never the same object.
\<close>

definition object_is :: "jsv \<Rightarrow> jsv \<Rightarrow> bool" where
  "object_is a b \<longleftrightarrow> \<not> is_object a \<and> a = b"

definition argMatcherSatisfied :: "arg_matcher \<Rightarrow> jsv \<Rightarrow> bool" where
  "argMatcherSatisfied matcher args =
     (case matcher of
        Exists path \<Rightarrow> getPath args path \<noteq> JUndefined
      | Equals path value \<Rightarrow> object_is (getPath args path) value
      | One_of path values \<Rightarrow> list_ex (\<lambda>v. object_is v (getPath args path)) values
      | Matches path pattern \<Rightarrow>
          (case getPath args path of JStr s \<Rightarrow> globMatches pattern s | _ \<Rightarrow> False)
      | Max_number path value \<Rightarrow>
          (case getPath args path of JNum i \<Rightarrow> i \<le> value | _ \<Rightarrow> False))"

definition constraintsSatisfied :: "policy_rule \<Rightarrow> permission_input \<Rightarrow> bool" where
  "constraintsSatisfied rule inp =
     (case rule_constraints rule of
        None \<Rightarrow> True
      | Some c \<Rightarrow>
          (case rc_maxCallsPerRun c of
             Some m \<Rightarrow> if pi_callsThisRun inp \<ge> m then False
                       else (case rc_argMatchers c of
                               Some ms \<Rightarrow> list_all (\<lambda>m. argMatcherSatisfied m (pi_args inp)) ms
                             | None \<Rightarrow> True)
           | None \<Rightarrow> (case rc_argMatchers c of
                        Some ms \<Rightarrow> list_all (\<lambda>m. argMatcherSatisfied m (pi_args inp)) ms
                      | None \<Rightarrow> True)))"

subsection \<open>Floors and defaults\<close>

definition annotation :: "mcp_capability \<Rightarrow> string \<Rightarrow> jsv" where
  "annotation cap key =
     (case cap_annotations cap of None \<Rightarrow> JUndefined
      | Some ann \<Rightarrow> (case map_of ann key of None \<Rightarrow> JUndefined | Some v \<Rightarrow> v))"

definition applyAnnotationFloor ::
  "perm_effect \<Rightarrow> mcp_capability \<Rightarrow> trust_tier \<Rightarrow> perm_effect \<times> bool" where
  "applyAnnotationFloor effect cap tier =
     (if effect \<noteq> Allow then (effect, False)
      else if tier = First_party then (effect, False)
      else
        (let readOnly = annotation cap ''readOnlyHint'';
             destructive = annotation cap ''destructiveHint'';
             notProvenSafe = (readOnly \<noteq> JBool True)
         in if destructive = JBool True \<or> notProvenSafe then (Ask, True) else (effect, False)))"

definition readsWithoutAsking :: "mcp_capability \<Rightarrow> trust_tier \<Rightarrow> string option" where
  "readsWithoutAsking cap tier =
     (if tier = First_party then Some ''first_party''
      else if tier \<noteq> Verified then None
      else if annotation cap ''readOnlyHint'' = JBool True \<and>
              annotation cap ''destructiveHint'' \<noteq> JBool True then Some ''read_only''
      else None)"

subsection \<open>The decision\<close>

definition rule_live :: "time \<Rightarrow> policy_rule \<Rightarrow> bool" where
  "rule_live now rule =
     (case rule_expiresAt rule of None \<Rightarrow> True | Some e \<Rightarrow> \<not> e \<le> now)"

definition bindingOk :: "policy_rule \<Rightarrow> id \<Rightarrow> bool" where
  "bindingOk rule bindingId =
     (case rule_bindingId rule of None \<Rightarrow> True | Some b \<Rightarrow> b = ''*'' \<or> b = bindingId)"

definition rule_matches :: "permission_input \<Rightarrow> policy_rule \<Rightarrow> bool" where
  "rule_matches inp rule \<longleftrightarrow>
     rule_live (pi_now inp) rule \<and>
     bindingOk rule (pi_bindingId inp) \<and>
     (globMatches (rule_pattern rule) (cap_name (pi_capability inp)) \<or>
      globMatches (rule_pattern rule) (cap_canonicalName (pi_capability inp))) \<and>
     constraintsSatisfied rule inp"

definition doc_candidates :: "permission_input \<Rightarrow> policy_document \<Rightarrow> candidate list" where
  "doc_candidates inp doc =
     map (\<lambda>rule. \<lparr>c_rule = rule, c_scope = pd_scopeType doc,
                  c_specificity = specificityOf rule (pd_scopeType doc)\<rparr>)
       (filter (rule_matches inp) (pd_rules doc))"

definition candidates :: "permission_input \<Rightarrow> candidate list" where
  "candidates inp = concat (map (doc_candidates inp) (pi_policies inp))"

definition better :: "candidate \<Rightarrow> candidate \<Rightarrow> candidate" where
  "better best c =
     (if rule_priority (c_rule c) \<noteq> rule_priority (c_rule best)
        then if rule_priority (c_rule c) > rule_priority (c_rule best) then c else best
      else if c_specificity c \<noteq> c_specificity best
        then if c_specificity c > c_specificity best then c else best
      else if rule_effect (c_rule c) = Ask then c else best)"

fun winner :: "candidate option \<Rightarrow> candidate list \<Rightarrow> candidate option" where
  "winner best [] = best"
| "winner None (c # cs) = winner (Some c) cs"
| "winner (Some b) (c # cs) = winner (Some (better b c)) cs"

fun show_effect :: "perm_effect \<Rightarrow> string" where
  "show_effect Allow = ''allow''"
| "show_effect Ask = ''ask''"
| "show_effect Deny = ''deny''"

definition show_block :: "block_reason \<Rightarrow> string" where
  "show_block b = (case b of Removed \<Rightarrow> ''removed'' | Not_approved \<Rightarrow> ''not_approved''
     | Capability_changed \<Rightarrow> ''capability_changed'')"

text \<open>The effect and reason before the floor: the winning rule, or the workspace default.\<close>

definition base_effect :: "permission_input \<Rightarrow> candidate option \<Rightarrow> perm_effect \<times> string" where
  "base_effect inp win =
     (case win of
        Some c \<Rightarrow> (rule_effect (c_rule c), ''policy:'' @ show_effect (rule_effect (c_rule c)))
      | None \<Rightarrow>
          if pi_defaultEffect inp = Ask then
            (case readsWithoutAsking (pi_capability inp) (pi_trustTier inp) of
               Some read \<Rightarrow> (Allow, ''policy:default+'' @ read)
             | None \<Rightarrow> (Ask, ''policy:default''))
          else (pi_defaultEffect inp, ''policy:default''))"

definition decidePermission :: "permission_input \<Rightarrow> permission_decision" where
  "decidePermission inp =
     (case capabilityBlockReason (pi_capability inp) of
        Some blocked \<Rightarrow> \<lparr>d_effect = Deny, d_matchedRuleId = None,
           d_reason = show_block blocked, d_tightenedByFloor = False\<rparr>
      | None \<Rightarrow>
          (let cs = candidates inp in
           case List.find (\<lambda>c. rule_effect (c_rule c) = Deny) cs of
             Some denial \<Rightarrow> \<lparr>d_effect = Deny, d_matchedRuleId = Some (rule_id (c_rule denial)),
                d_reason = ''policy:deny'', d_tightenedByFloor = False\<rparr>
           | None \<Rightarrow>
               (let win = winner None cs;
                    (base, reason) = base_effect inp win;
                    (effect, tightened) = applyAnnotationFloor base (pi_capability inp) (pi_trustTier inp)
                in \<lparr>d_effect = effect,
                    d_matchedRuleId = map_option (\<lambda>c. rule_id (c_rule c)) win,
                    d_reason = (if tightened then reason @ ''+annotation_floor'' else reason),
                    d_tightenedByFloor = tightened\<rparr>)))"

subsection \<open>Rule lists\<close>

definition ANY_BINDING :: id where
  "ANY_BINDING = ''*''"

definition AUTO_APPROVE_RULE_ID :: id where
  "AUTO_APPROVE_RULE_ID = ''auto_approve_window''"

definition sameTarget :: "policy_rule \<Rightarrow> id \<Rightarrow> string \<Rightarrow> bool" where
  "sameTarget a bindingId pattern \<longleftrightarrow>
     (case rule_bindingId a of None \<Rightarrow> ANY_BINDING | Some b \<Rightarrow> b) = bindingId \<and>
     rule_pattern a = pattern"

definition rememberAllow :: "id \<Rightarrow> policy_rule list \<Rightarrow> id \<Rightarrow> string \<Rightarrow> policy_rule list" where
  "rememberAllow newRuleId rules bindingId capabilityName =
     filter (\<lambda>rule. \<not> sameTarget rule bindingId capabilityName) rules @
     [\<lparr>rule_id = newRuleId, rule_bindingId = Some bindingId, rule_pattern = capabilityName,
       rule_effect = Allow, rule_priority = 50, rule_constraints = None, rule_expiresAt = None\<rparr>]"

definition withoutAutoApproveWindow :: "policy_rule list \<Rightarrow> policy_rule list" where
  "withoutAutoApproveWindow rules = filter (\<lambda>rule. rule_id rule \<noteq> AUTO_APPROVE_RULE_ID) rules"

definition withAutoApproveWindow :: "policy_rule list \<Rightarrow> time \<Rightarrow> policy_rule list" where
  "withAutoApproveWindow rules until =
     withoutAutoApproveWindow rules @
     [\<lparr>rule_id = AUTO_APPROVE_RULE_ID, rule_bindingId = Some ANY_BINDING, rule_pattern = ''*'',
       rule_effect = Allow, rule_priority = 900, rule_constraints = None,
       rule_expiresAt = Some until\<rparr>]"

definition autoApproveUntil :: "policy_rule list \<Rightarrow> time \<Rightarrow> time option" where
  "autoApproveUntil rules now =
     (case List.find (\<lambda>rule. rule_id rule = AUTO_APPROVE_RULE_ID) rules of
        None \<Rightarrow> None
      | Some window \<Rightarrow>
          (case rule_expiresAt window of
             None \<Rightarrow> None
           | Some e \<Rightarrow> if e \<le> now then None else Some e))"

definition liveRules :: "policy_rule list \<Rightarrow> time \<Rightarrow> policy_rule list" where
  "liveRules rules now =
     filter (\<lambda>rule. case rule_expiresAt rule of None \<Rightarrow> True | Some e \<Rightarrow> e > now) rules"

subsection \<open>Effects are ordered by strictness\<close>

instantiation perm_effect :: linorder
begin

definition less_eq_perm_effect :: "perm_effect \<Rightarrow> perm_effect \<Rightarrow> bool" where
  "less_eq_perm_effect a b \<longleftrightarrow> a = Allow \<or> b = Deny \<or> a = b"

definition less_perm_effect :: "perm_effect \<Rightarrow> perm_effect \<Rightarrow> bool" where
  "less_perm_effect a b \<longleftrightarrow> a \<noteq> b \<and> (a = Allow \<or> b = Deny)"

instance
proof
  fix a b c :: perm_effect
  show "a < b \<longleftrightarrow> a \<le> b \<and> \<not> b \<le> a" and "a \<le> b \<or> b \<le> a"
    and "a \<le> b \<Longrightarrow> b \<le> c \<Longrightarrow> a \<le> c" and "a \<le> b \<Longrightarrow> b \<le> a \<Longrightarrow> a = b"
    by (cases a; cases b; cases c; auto simp: less_eq_perm_effect_def less_perm_effect_def)+
qed (simp add: less_eq_perm_effect_def)

end

lemma applyAnnotationFloor_tightens: "effect \<le> fst (applyAnnotationFloor effect cap tier)"
  by (auto simp: applyAnnotationFloor_def less_eq_perm_effect_def)

text \<open>A capability whose \<^verbatim>\<open>allow\<close> the floor lets through.\<close>

definition floor_passes :: "mcp_capability \<Rightarrow> trust_tier \<Rightarrow> bool" where
  "floor_passes cap tier \<longleftrightarrow> tier = First_party \<or>
     annotation cap ''readOnlyHint'' = JBool True \<and> annotation cap ''destructiveHint'' \<noteq> JBool True"

lemma applyAnnotationFloor_eq [effect_simps]:
  "applyAnnotationFloor effect cap tier =
     (if effect = Allow \<and> \<not> floor_passes cap tier then (Ask, True) else (effect, False))"
  by (auto simp: applyAnnotationFloor_def floor_passes_def Let_def)

lemma readsWithoutAsking_floor: "readsWithoutAsking cap tier \<noteq> None \<Longrightarrow> floor_passes cap tier"
  by (auto simp: readsWithoutAsking_def floor_passes_def split: if_splits)

subsection \<open>Ranking\<close>

definition rank :: "candidate \<Rightarrow> int \<times> nat" where
  "rank c = (rule_priority (c_rule c), c_specificity c)"

abbreviation c_effect :: "candidate \<Rightarrow> perm_effect" where
  "c_effect c \<equiv> rule_effect (c_rule c)"

lemma better_rank: "rank b \<le> rank (better b c) \<and> rank c \<le> rank (better b c)"
  by (auto simp: better_def rank_def less_eq_prod_def)

lemma better_cases: "better b c = b \<or> better b c = c"
  by (auto simp: better_def)

lemma better_ask:
  "x = b \<or> x = c \<Longrightarrow> rank x = rank (better b c) \<Longrightarrow> c_effect x = Ask \<Longrightarrow> c_effect (better b c) = Ask"
  by (auto simp: better_def rank_def split: if_splits)

text \<open>What the fold computes: a best candidate, and an asking one if any of the best asks.\<close>

definition is_top :: "candidate set \<Rightarrow> candidate \<Rightarrow> bool" where
  "is_top C w \<longleftrightarrow> w \<in> C \<and> (\<forall>c \<in> C. rank c \<le> rank w) \<and>
     (\<forall>c \<in> C. rank c = rank w \<longrightarrow> c_effect c = Ask \<longrightarrow> c_effect w = Ask)"

lemma is_top_better:
  assumes "is_top C b"
  shows "is_top (insert c C) (better b c)"
  unfolding is_top_def
proof (intro conjI ballI impI)
  have b: "b \<in> C" "\<And>x. x \<in> C \<Longrightarrow> rank x \<le> rank b"
    "\<And>x. x \<in> C \<Longrightarrow> rank x = rank b \<Longrightarrow> c_effect x = Ask \<Longrightarrow> c_effect b = Ask"
    using assms by (auto simp: is_top_def)
  show "better b c \<in> insert c C" using better_cases [of b c] b(1) by auto
  fix x assume x: "x \<in> insert c C"
  show le: "rank x \<le> rank (better b c)"
    using x b(2) better_rank [of b c] by (blast intro: order_trans)
  assume eq: "rank x = rank (better b c)" and ask: "c_effect x = Ask"
  show "c_effect (better b c) = Ask"
  proof (cases "x = c")
    case False
    with x b(2) eq better_rank [of b c] have "x \<in> C" "rank x = rank b"
      by (auto intro!: antisym [of "rank b"] dest!: b(2))
    with b(3) ask have "c_effect b = Ask" by blast
    with better_ask [of b b c] eq \<open>rank x = rank b\<close> show ?thesis by simp
  qed (use better_ask [of x b c] eq ask in blast)
qed

lemma winner_top: "is_top C b \<Longrightarrow> \<exists>w. winner (Some b) cs = Some w \<and> is_top (C \<union> set cs) w"
proof (induction cs arbitrary: b C)
  case (Cons c cs)
  from Cons.IH [OF is_top_better [OF Cons.prems]] show ?case by simp
qed simp

lemma winner_None_top: "cs \<noteq> [] \<Longrightarrow> \<exists>w. winner None cs = Some w \<and> is_top (set cs) w"
  using winner_top [of "{hd cs}" "hd cs" "tl cs"] by (cases cs) (auto simp: is_top_def)

lemma winner_None_iff: "winner None cs = None \<longleftrightarrow> cs = []"
  using winner_None_top [of cs] by (cases cs) auto

lemma is_top_effect:
  "is_top C w \<Longrightarrow> (c_effect w = Ask) =
     (\<exists>c \<in> C. (\<forall>d \<in> C. rank d \<le> rank c) \<and> c_effect c = Ask)"
  by (auto simp: is_top_def dest: antisym)

subsection \<open>The specification of a decision\<close>

text \<open>
  What the engine promises, over the set of matching rules: unusable
  capabilities and denied calls are denied, silence falls back to the default
  (reads excepted when the default is to ask), otherwise the best ranked rules
  decide and one asking among them is enough to ask, and the floor turns an
  unproven \<^verbatim>\<open>allow\<close> into \<^verbatim>\<open>ask\<close>.
\<close>

definition matching :: "permission_input \<Rightarrow> candidate set" where
  "matching inp =
     {\<lparr>c_rule = rule, c_scope = pd_scopeType doc, c_specificity = specificityOf rule (pd_scopeType doc)\<rparr> | rule doc.
        doc \<in> set (pi_policies inp) \<and> rule \<in> set (pd_rules doc) \<and> rule_matches inp rule}"

definition policy_effect :: "permission_input \<Rightarrow> perm_effect" where
  "policy_effect inp =
     (let M = matching inp in
      if M = {} then
        (if pi_defaultEffect inp = Ask \<and>
            readsWithoutAsking (pi_capability inp) (pi_trustTier inp) \<noteq> None
         then Allow else pi_defaultEffect inp)
      else if \<exists>c \<in> M. (\<forall>d \<in> M. rank d \<le> rank c) \<and> c_effect c = Ask then Ask
      else Allow)"

definition decision_spec :: "permission_input \<Rightarrow> perm_effect" where
  "decision_spec inp =
     (if \<not> isCapabilityUsable (pi_capability inp) then Deny
      else if \<exists>c \<in> matching inp. c_effect c = Deny then Deny
      else if policy_effect inp = Allow \<and>
              \<not> floor_passes (pi_capability inp) (pi_trustTier inp) then Ask
      else policy_effect inp)"

lemma set_candidates: "set (candidates inp) = matching inp"
  by (auto simp: candidates_def doc_candidates_def matching_def)

lemma base_effect_policy:
  assumes "\<forall>c \<in> matching inp. c_effect c \<noteq> Deny"
  shows "fst (base_effect inp (winner None (candidates inp))) = policy_effect inp"
proof (cases "candidates inp = []")
  case True
  then have "matching inp = {}" using set_candidates [of inp] by simp
  with True show ?thesis by (auto simp: base_effect_def policy_effect_def split: option.splits)
next
  case False
  then obtain w where w: "winner None (candidates inp) = Some w" "is_top (matching inp) w"
    using winner_None_top [of "candidates inp"] by (auto simp: set_candidates)
  moreover have "matching inp \<noteq> {}" using False set_candidates [of inp] by auto
  moreover have "c_effect w \<noteq> Deny" using w(2) assms by (auto simp: is_top_def)
  moreover note is_top_effect [OF w(2)]
  ultimately show ?thesis
    by (cases "c_effect w") (auto simp: base_effect_def policy_effect_def Let_def)
qed

lemma decidePermission_eq_spec: "d_effect (decidePermission inp) = decision_spec inp"
proof (cases "\<exists>c \<in> matching inp. c_effect c = Deny")
  case True
  then show ?thesis
    by (auto simp: decidePermission_def decision_spec_def usable_iff_unblocked Let_def
        find_None_all set_candidates split: option.splits)
next
  case False
  then have "List.find (\<lambda>c. c_effect c = Deny) (candidates inp) = None"
    by (simp add: find_None_all set_candidates)
  with False base_effect_policy [of inp] show ?thesis
    by (auto simp: decidePermission_def decision_spec_def usable_iff_unblocked Let_def
        effect_simps split: option.splits prod.splits)
qed

lemma policy_effect_cong:
  assumes "matching (inp\<lparr>pi_policies := docs\<rparr>) = matching inp"
  shows "policy_effect (inp\<lparr>pi_policies := docs\<rparr>) = policy_effect inp"
  unfolding policy_effect_def assms by (cases inp) (simp only: permission_input.simps permission_input.update_convs)

lemma decision_spec_cong:
  assumes "matching (inp\<lparr>pi_policies := docs\<rparr>) = matching inp"
  shows "decision_spec (inp\<lparr>pi_policies := docs\<rparr>) = decision_spec inp"
  unfolding decision_spec_def policy_effect_cong [OF assms] assms
  by (cases inp) (simp only: permission_input.simps permission_input.update_convs)

lemma matches_policies [simp]: "rule_matches (inp\<lparr>pi_policies := docs\<rparr>) = rule_matches inp"
  by (rule ext) (simp add: rule_matches_def constraintsSatisfied_def cong: option.case_cong)

subsection \<open>Globs\<close>

lemma re_test_lits: "re_test (map Lit p @ r) s \<longleftrightarrow> (\<exists>t. s = p @ t \<and> re_test r t)"
proof (induction p arbitrary: s)
  case (Cons c p)
  then show ?case by (cases s) auto
qed simp

lemma re_test_star:
  "re_test (Dot_star # r) s \<longleftrightarrow>
     (\<exists>u t. s = u @ t \<and> (\<forall>c \<in> set u. \<not> line_terminator c) \<and> re_test r t)"
proof (induction s)
  case (Cons d s)
  show ?case
  proof
    assume "re_test (Dot_star # r) (d # s)"
    then consider "re_test r (d # s)" | "\<not> line_terminator d" "re_test (Dot_star # r) s" by auto
    then show "\<exists>u t. d # s = u @ t \<and> (\<forall>c \<in> set u. \<not> line_terminator c) \<and> re_test r t"
    proof cases
      case 2
      with Cons obtain u t where "s = u @ t" "\<forall>c \<in> set u. \<not> line_terminator c" "re_test r t" by auto
      with 2(1) show ?thesis by (intro exI [of _ "d # u"] exI [of _ t]) auto
    qed (metis append_Nil empty_iff list.set(1))
  next
    assume "\<exists>u t. d # s = u @ t \<and> (\<forall>c \<in> set u. \<not> line_terminator c) \<and> re_test r t"
    then obtain u t where ut: "d # s = u @ t" "\<forall>c \<in> set u. \<not> line_terminator c" "re_test r t" by blast
    then show "re_test (Dot_star # r) (d # s)" using Cons by (cases u) auto
  qed
qed simp

text \<open>The language of a list of glob segments, without reference to a regular expression.\<close>

fun glob_lang :: "string list \<Rightarrow> string \<Rightarrow> bool" where
  "glob_lang [] s = (s = [])"
| "glob_lang [p] s = (s = p)"
| "glob_lang (p # q # qs) s =
     (\<exists>gap rest. s = p @ gap @ rest \<and> (\<forall>c \<in> set gap. \<not> line_terminator c) \<and> glob_lang (q # qs) rest)"

lemma re_test_segments:
  "re_test (join_with [Dot_star] (map escapeRegex segs)) s \<longleftrightarrow> glob_lang segs s"
proof (induction segs s rule: glob_lang.induct)
  case (2 p s)
  then show ?case using re_test_lits [of p "[]"] by (simp add: escapeRegex_def)
next
  case (3 p q qs s)
  then show ?case
    by (simp add: escapeRegex_def re_test_lits re_test_star del: re_test.simps) blast
qed simp

lemma globMatches_lang:
  "globMatches pattern value \<longleftrightarrow> pattern = ''*'' \<or> glob_lang (split_on (CHR ''*'') pattern) value"
  by (simp add: globMatches_def compile_glob_def re_test_segments)

lemma globMatches_exact: "CHR ''*'' \<notin> set pattern \<Longrightarrow> globMatches pattern value \<longleftrightarrow> value = pattern"
  by (auto simp: globMatches_lang split_on_no_sep)

text \<open>The cache is transparent and bounded.\<close>

definition cache_ok :: "re_cache \<Rightarrow> bool" where
  "cache_ok cache \<longleftrightarrow> length cache \<le> 1000 \<and> (\<forall>(p, re) \<in> set cache. re = compile_glob p)"

lemma globToRegExp_ok:
  "cache_ok cache \<Longrightarrow> fst (globToRegExp cache p) = compile_glob p \<and> cache_ok (snd (globToRegExp cache p))"
  by (auto simp: globToRegExp_def cache_ok_def Let_def split: option.splits dest: map_of_SomeD)

subsection \<open>Rule lists\<close>

lemma liveRules_live: "liveRules rules now = filter (rule_live now) rules"
  by (auto simp: liveRules_def rule_live_def fun_eq_iff not_le split: option.splits intro!: filter_cong)

lemma withAutoApproveWindow_until:
  "autoApproveUntil (withAutoApproveWindow rules until) now = (if until \<le> now then None else Some until)"
proof -
  have "List.find (\<lambda>r. rule_id r = AUTO_APPROVE_RULE_ID) (withAutoApproveWindow rules until) =
    Some (last (withAutoApproveWindow rules until))"
    by (induction rules) (auto simp: withAutoApproveWindow_def withoutAutoApproveWindow_def)
  then show ?thesis by (simp add: autoApproveUntil_def withAutoApproveWindow_def)
qed

definition window_rule :: "time \<Rightarrow> policy_rule" where
  "window_rule until = \<lparr>rule_id = AUTO_APPROVE_RULE_ID, rule_bindingId = Some ANY_BINDING,
     rule_pattern = ''*'', rule_effect = Allow, rule_priority = 900, rule_constraints = None,
     rule_expiresAt = Some until\<rparr>"

definition window_candidate :: "scope_type \<Rightarrow> time \<Rightarrow> candidate" where
  "window_candidate scope until = \<lparr>c_rule = window_rule until, c_scope = scope,
     c_specificity = specificityOf (window_rule until) scope\<rparr>"

lemma window_rule_matches: "rule_matches inp (window_rule until) \<longleftrightarrow> pi_now inp < until"
  by (auto simp: rule_matches_def rule_live_def bindingOk_def window_rule_def ANY_BINDING_def
      globMatches_def constraintsSatisfied_def)

lemma matching_window:
  assumes "pi_policies inp = [doc\<lparr>pd_rules := withAutoApproveWindow rules until\<rparr>]" "pi_now inp < until"
  shows "matching inp = insert (window_candidate (pd_scopeType doc) until)
    (matching (inp\<lparr>pi_policies := [doc\<lparr>pd_rules := withoutAutoApproveWindow rules\<rparr>]\<rparr>))"
proof -
  have "withAutoApproveWindow rules until = withoutAutoApproveWindow rules @ [window_rule until]"
    by (simp add: withAutoApproveWindow_def window_rule_def)
  with assms show ?thesis
    by (auto simp: matching_def window_candidate_def window_rule_matches)
qed

lemma rememberAllow_targets:
  "filter (\<lambda>r. sameTarget r b name) (rememberAllow rid rules b name) =
     [\<lparr>rule_id = rid, rule_bindingId = Some b, rule_pattern = name, rule_effect = Allow,
       rule_priority = 50, rule_constraints = None, rule_expiresAt = None\<rparr>]"
  by (simp add: rememberAllow_def sameTarget_def)

lemma rule_matches_live: "rule_matches inp r \<Longrightarrow> rule_live (pi_now inp) r"
  by (simp add: rule_matches_def)

lemma matching_iff:
  "c \<in> matching inp \<longleftrightarrow>
     (\<exists>scope r. (scope, r) \<in> (\<Union>d \<in> set (pi_policies inp). Pair (pd_scopeType d) ` set (pd_rules d)) \<and>
        rule_matches inp r \<and> c = \<lparr>c_rule = r, c_scope = scope, c_specificity = specificityOf r scope\<rparr>)"
  by (force simp: matching_def)

lemma matching_cong:
  assumes "(\<Union>d \<in> set docs. Pair (pd_scopeType d) ` set (pd_rules d)) =
           (\<Union>d \<in> set (pi_policies inp). Pair (pd_scopeType d) ` set (pd_rules d))"
  shows "matching (inp\<lparr>pi_policies := docs\<rparr>) = matching inp"
  using assms by (intro set_eqI) (simp add: matching_iff)

definition drop_expired :: "time \<Rightarrow> policy_document \<Rightarrow> policy_document" where
  "drop_expired now doc = doc\<lparr>pd_rules := liveRules (pd_rules doc) now\<rparr>"

lemma filter_matches_live: "filter (rule_matches inp) (liveRules rules (pi_now inp)) = filter (rule_matches inp) rules"
  by (auto simp: liveRules_live rule_matches_live intro!: filter_cong)

lemma candidates_drop_expired:
  "candidates (inp\<lparr>pi_policies := map (drop_expired (pi_now inp)) (pi_policies inp)\<rparr>) = candidates inp"
  by (simp add: candidates_def doc_candidates_def [abs_def] drop_expired_def filter_matches_live comp_def)

lemma decidePermission_candidates_cong:
  assumes "candidates (inp\<lparr>pi_policies := docs\<rparr>) = candidates inp"
  shows "decidePermission (inp\<lparr>pi_policies := docs\<rparr>) = decidePermission inp"
proof -
  have "base_effect (inp\<lparr>pi_policies := docs\<rparr>) = base_effect inp"
    unfolding base_effect_def
    by (cases inp) (simp only: permission_input.simps permission_input.update_convs)
  then show ?thesis
    unfolding decidePermission_def assms
    by (cases inp) (simp only: permission_input.simps permission_input.update_convs)
qed

subsection \<open>A sample call\<close>

text \<open>A community tool without hints, approved at its current hash, and three rules about it.\<close>

definition sample_cap :: mcp_capability where
  "sample_cap = \<lparr>cap_id = ''c1'', cap_workspaceId = ''w1'', cap_bindingId = ''b1'', cap_scopeKey = ''s'',
     cap_kind = Tool, cap_name = ''send'', cap_canonicalName = ''mail__send'', cap_title = None,
     cap_description = None, cap_inputSchema = None, cap_outputSchema = None, cap_annotations = None,
     cap_definitionHash = ''h'', cap_approval = \<lparr>apv_state = Approved, apv_definitionHash = ''h'',
       apv_approvedBy = None, apv_approvedAt = None\<rparr>,
     cap_firstSeenAt = 0, cap_lastSeenAt = 0, cap_removedAt = None\<rparr>"

definition sample_rule :: "id \<Rightarrow> string \<Rightarrow> perm_effect \<Rightarrow> int \<Rightarrow> policy_rule" where
  "sample_rule i pattern effect prio = \<lparr>rule_id = i, rule_bindingId = None, rule_pattern = pattern,
     rule_effect = effect, rule_priority = prio, rule_constraints = None, rule_expiresAt = None\<rparr>"

definition sample_doc :: "policy_rule list \<Rightarrow> policy_document" where
  "sample_doc rules = \<lparr>pd_id = ''p'', pd_scopeType = S_workspace, pd_scopeId = None, pd_rules = rules\<rparr>"

definition sample_input :: "policy_rule list \<Rightarrow> permission_input" where
  "sample_input rules = \<lparr>pi_capability = sample_cap, pi_bindingId = ''b1'', pi_trustTier = Community,
     pi_args = JObj [], pi_policies = [sample_doc rules], pi_now = 5, pi_defaultEffect = Ask,
     pi_callsThisRun = 0\<rparr>"

lemmas sample_defs = sample_cap_def sample_rule_def sample_doc_def sample_input_def

subsection \<open>Properties\<close>

text \<open>
  C2. The decision procedure (gate, collection, ranking fold, default, floor) computes exactly
  the effect of the order-free specification \<^const>\<open>decision_spec\<close>, on every input.
\<close>

theorem decidePermission_refines_spec: "d_effect (decidePermission inp) = decision_spec inp"
  by (rule decidePermission_eq_spec)

text \<open>
  C3. Deny is absolute: a matching deny rule in any scope, whatever its priority and whatever
  other rules say, makes the decision a denial, and for a usable capability the decision names a
  matching deny rule as its cause.
\<close>

theorem deny_absolute:
  assumes "doc \<in> set (pi_policies inp)" "rule \<in> set (pd_rules doc)"
    and "rule_matches inp rule" "rule_effect rule = Deny"
  shows "d_effect (decidePermission inp) = Deny \<and>
    (isCapabilityUsable (pi_capability inp) \<longrightarrow>
       d_reason (decidePermission inp) = ''policy:deny'' \<and>
       (\<exists>c \<in> matching inp. c_effect c = Deny \<and>
          d_matchedRuleId (decidePermission inp) = Some (rule_id (c_rule c))))"
proof -
  have ex: "\<exists>c \<in> matching inp. c_effect c = Deny"
    using assms unfolding matching_def by force
  then obtain c where c: "List.find (\<lambda>c. c_effect c = Deny) (candidates inp) = Some c"
    using find_None_all [of "\<lambda>c. c_effect c = Deny" "candidates inp"]
    by (cases "List.find (\<lambda>c. c_effect c = Deny) (candidates inp)") (auto simp: set_candidates)
  then have "c \<in> matching inp" "c_effect c = Deny"
    using find_Some_in [OF c] by (auto simp: set_candidates)
  with ex c show ?thesis
    by (auto simp: decidePermission_eq_spec decision_spec_def)
       (auto simp: decidePermission_def usable_iff_unblocked Let_def)
qed

theorem deny_absolute_witness:
  "d_effect (decidePermission (sample_input
     [sample_rule ''r1'' ''*'' Allow 900, sample_rule ''r2'' ''mail__*'' Deny 1])) = Deny"
  using deny_absolute [of "sample_doc [sample_rule ''r1'' ''*'' Allow 900, sample_rule ''r2'' ''mail__*'' Deny 1]"
      "sample_input [sample_rule ''r1'' ''*'' Allow 900, sample_rule ''r2'' ''mail__*'' Deny 1]"
      "sample_rule ''r2'' ''mail__*'' Deny 1"]
  by (simp add: sample_defs rule_matches_def rule_live_def bindingOk_def globMatches_def
      compile_glob_def escapeRegex_def constraintsSatisfied_def line_terminator_def code_def)

text \<open>
  The effect does not depend on how the rules are arranged: two lists of policy documents
  that hold the same rules under the same scope types, in any order and with any repetition,
  decide every call alike.
\<close>

theorem decision_order_independent:
  assumes "(\<Union>d \<in> set docs. Pair (pd_scopeType d) ` set (pd_rules d)) =
           (\<Union>d \<in> set (pi_policies inp). Pair (pd_scopeType d) ` set (pd_rules d))"
  shows "d_effect (decidePermission (inp\<lparr>pi_policies := docs\<rparr>)) = d_effect (decidePermission inp)"
  using decision_spec_cong [OF matching_cong [OF assms]] by (simp add: decidePermission_eq_spec)

theorem decision_order_independent_witness:
  "d_effect (decidePermission (sample_input [sample_rule ''a'' ''*'' Ask 1, sample_rule ''b'' ''send'' Allow 1])) =
   d_effect (decidePermission (sample_input [sample_rule ''b'' ''send'' Allow 1, sample_rule ''a'' ''*'' Ask 1]))"
  using decision_order_independent
    [of "[sample_doc [sample_rule ''a'' ''*'' Ask 1, sample_rule ''b'' ''send'' Allow 1]]"
        "sample_input [sample_rule ''b'' ''send'' Allow 1, sample_rule ''a'' ''*'' Ask 1]"]
  by (simp add: sample_defs insert_commute)

text \<open>
  C4. A tool that is neither first-party nor declared read-only and non-destructive never runs
  without a person: no rule, remembered approval, auto-approve window or default yields
  \<^verbatim>\<open>allow\<close> for it.
\<close>

theorem unproven_tool_never_allowed:
  assumes "pi_trustTier inp \<noteq> First_party"
    and "annotation (pi_capability inp) ''readOnlyHint'' \<noteq> JBool True \<or>
         annotation (pi_capability inp) ''destructiveHint'' = JBool True"
  shows "d_effect (decidePermission inp) \<noteq> Allow"
  using assms by (auto simp: decidePermission_eq_spec decision_spec_def floor_passes_def)

theorem unproven_tool_never_allowed_witness:
  "d_effect (decidePermission (sample_input [sample_rule ''a'' ''send'' Allow 1000])) \<noteq> Allow"
  using unproven_tool_never_allowed [of "sample_input [sample_rule ''a'' ''send'' Allow 1000]"]
  by (simp add: sample_defs annotation_def)

text \<open>
  A rule past its end is as if it were not there: deleting every expired rule leaves the
  whole decision (effect, matched rule, reason and floor flag) unchanged.
\<close>

theorem expired_rules_inert:
  "decidePermission (inp\<lparr>pi_policies := map (\<lambda>d. d\<lparr>pd_rules := liveRules (pd_rules d) (pi_now inp)\<rparr>)
     (pi_policies inp)\<rparr>) = decidePermission inp"
  using decidePermission_candidates_cong [OF candidates_drop_expired [of inp]]
  by (simp add: drop_expired_def [abs_def])

text \<open>
  What a pattern matches: a pattern other than the lone star matches exactly the strings made of its
  star-separated segments in order with newline-free gaps between them, and looking the compiled
  expression up through any well-formed cache gives the same answer and a cache still within its
  bound of a thousand entries.
\<close>

theorem glob_semantics:
  assumes "cache_ok cache"
  shows "re_test (fst (globToRegExp cache pattern)) value = glob_lang (split_on (CHR ''*'') pattern) value
    \<and> (globMatches pattern value \<longleftrightarrow> pattern = ''*'' \<or> re_test (fst (globToRegExp cache pattern)) value)
    \<and> cache_ok (snd (globToRegExp cache pattern))
    \<and> length (snd (globToRegExp cache pattern)) \<le> 1000"
  using globToRegExp_ok [OF assms, of pattern]
  by (auto simp: globMatches_def compile_glob_def re_test_segments cache_ok_def)

theorem glob_semantics_witness:
  "re_test (fst (globToRegExp [] ''mail__*'')) ''mail__send'' =
     glob_lang (split_on (CHR ''*'') ''mail__*'') ''mail__send'' \<and>
   cache_ok (snd (globToRegExp [] ''mail__*''))"
  using glob_semantics [of "[]" "''mail__*''" "''mail__send''"] by (simp add: cache_ok_def)

text \<open>
  While an auto-approve window is open, a usable tool the floor lets through runs without
  asking unless a matching rule denies it or a matching rule of the window's priority or above
  exists; once the window's end has come the list decides exactly as it did without the window.
\<close>

theorem auto_approve_window:
  assumes "pi_policies inp = [doc\<lparr>pd_rules := withAutoApproveWindow rules until\<rparr>]"
    and "isCapabilityUsable (pi_capability inp)"
    and "floor_passes (pi_capability inp) (pi_trustTier inp)"
    and "\<forall>r \<in> set rules. rule_matches inp r \<longrightarrow> rule_effect r \<noteq> Deny \<and> rule_priority r < 900"
  shows "if pi_now inp < until then d_effect (decidePermission inp) = Allow
    else decidePermission inp =
      decidePermission (inp\<lparr>pi_policies := [doc\<lparr>pd_rules := withoutAutoApproveWindow rules\<rparr>]\<rparr>)"
proof (cases "pi_now inp < until")
  case True
  have M: "matching inp = insert (window_candidate (pd_scopeType doc) until)
      (matching (inp\<lparr>pi_policies := [doc\<lparr>pd_rules := withoutAutoApproveWindow rules\<rparr>]\<rparr>))"
    by (rule matching_window [OF assms(1) True])
  have "\<forall>c \<in> matching (inp\<lparr>pi_policies := [doc\<lparr>pd_rules := withoutAutoApproveWindow rules\<rparr>]\<rparr>).
      c_effect c \<noteq> Deny \<and> rank c < rank (window_candidate (pd_scopeType doc) until)"
    using assms(4)
    by (auto simp: matching_def withoutAutoApproveWindow_def rank_def window_candidate_def
        window_rule_def less_prod_def)
  with M have "policy_effect inp = Allow" "\<not> (\<exists>c \<in> matching inp. c_effect c = Deny)"
    by (auto simp: policy_effect_def Let_def window_candidate_def window_rule_def not_le [symmetric])
  with True assms(2,3) show ?thesis
    by (simp add: decidePermission_eq_spec decision_spec_def)
next
  case False
  then have "candidates (inp\<lparr>pi_policies := [doc\<lparr>pd_rules := withoutAutoApproveWindow rules\<rparr>]\<rparr>) = candidates inp"
    using assms(1) by (auto simp: candidates_def doc_candidates_def [abs_def] withAutoApproveWindow_def
        rule_matches_def rule_live_def)
  from decidePermission_candidates_cong [OF this] False show ?thesis by simp
qed

theorem auto_approve_window_witness:
  "d_effect (decidePermission ((sample_input [])\<lparr>pi_trustTier := First_party,
     pi_policies := [sample_doc (withAutoApproveWindow [sample_rule ''a'' ''send'' Ask 10] 9)]\<rparr>)) = Allow"
  using auto_approve_window [of "(sample_input [])\<lparr>pi_trustTier := First_party,
     pi_policies := [sample_doc (withAutoApproveWindow [sample_rule ''a'' ''send'' Ask 10] 9)]\<rparr>"
     "[sample_rule ''a'' ''send'' Ask 10]" 9 "sample_doc []"]
  by (simp add: sample_defs floor_passes_def isCapabilityUsable_def)

end
