(* ===== verification/Principal.thy ===== *)
theory Principal
  imports Prelude
begin

text \<open>
  Principals and their authority (\<^verbatim>\<open>packages/core/src/entities/principal.ts\<close>, and the
  request-side checks of \<^verbatim>\<open>apps/web/src/lib/principal.ts\<close>).

  A principal is a person, an API key, a chat identity, an agent acting on
  somebody's behalf, or the platform itself. The lemmas show that delegation
  only ever narrows authority, at any depth, and that roles are ordered by what
  they may do.
\<close>

datatype role = Owner | Admin | Member | Viewer

definition ROLE_RANK :: "role \<Rightarrow> nat" where
  "ROLE_RANK r = (case r of Viewer \<Rightarrow> 0 | Member \<Rightarrow> 1 | Admin \<Rightarrow> 2 | Owner \<Rightarrow> 3)"

datatype permission =
    Workspace_read | Workspace_manage | Workspace_delete
  | Members_read | Members_manage
  | Agents_read | Agents_write
  | Mcp_read | Mcp_install | Mcp_approve
  | Policies_read | Policies_write
  | Credentials_read | Credentials_write
  | Providers_read | Providers_write
  | Conversations_read | Conversations_write
  | Runs_read | Runs_create | Runs_cancel
  | Approvals_decide
  | Channels_read | Channels_write
  | Knowledge_read | Knowledge_write
  | Audit_read

definition VIEWER :: "permission list" where
  "VIEWER = [Workspace_read, Members_read, Agents_read, Mcp_read, Policies_read,
     Providers_read, Conversations_read, Runs_read, Channels_read, Knowledge_read]"

definition MEMBER :: "permission list" where
  "MEMBER = VIEWER @ [Conversations_write, Runs_create, Runs_cancel, Approvals_decide,
     Knowledge_write]"

definition ADMIN :: "permission list" where
  "ADMIN = MEMBER @ [Workspace_manage, Members_manage, Agents_write, Mcp_install, Mcp_approve,
     Policies_write, Credentials_read, Credentials_write, Providers_write, Audit_read,
     Channels_write]"

definition OWNER :: "permission list" where
  "OWNER = ADMIN @ [Workspace_delete]"

definition ROLE_PERMISSIONS :: "role \<Rightarrow> permission list" where
  "ROLE_PERMISSIONS r =
     (case r of Viewer \<Rightarrow> VIEWER | Member \<Rightarrow> MEMBER | Admin \<Rightarrow> ADMIN | Owner \<Rightarrow> OWNER)"

datatype channel_trust = Linked | Unlinked

datatype system_reason = Sweeper | Migration

datatype principal =
    User (p_userId: id) (p_workspaceId: id) (p_role: role)
  | Api_key (p_apiKeyId: id) (p_workspaceId: id) (p_scopes: "permission list")
  | Channel_identity (p_identityId: id) (p_workspaceId: id) (p_linkedUser: "id option")
      (p_trust: channel_trust)
  | Agent (p_agentId: id) (p_runId: id) (p_workspaceId: id) (p_onBehalfOf: principal)
  | System (p_reason: system_reason) (p_systemWorkspace: "id option")

definition agentCeiling :: "permission list" where
  "agentCeiling = [Conversations_read, Conversations_write, Runs_read, Runs_create,
     Agents_read, Mcp_read, Providers_read, Policies_read]"

text \<open>The two functions call each other, as in the source.\<close>

fun is_agent :: "principal \<Rightarrow> bool" where
  "is_agent (Agent a r w p) = True"
| "is_agent _ = False"

function directGrants :: "principal \<Rightarrow> permission list"
  and effectiveGrants :: "principal \<Rightarrow> permission list" where
  "directGrants (User u w r) = ROLE_PERMISSIONS r"
| "directGrants (Api_key k w scopes) = scopes"
| "directGrants (Channel_identity i w u trust) =
     (if trust = Linked
      then [Conversations_read, Conversations_write, Runs_create, Runs_read]
      else [Conversations_write, Runs_create])"
| "directGrants (Agent a r w p) = effectiveGrants (Agent a r w p)"
| "directGrants (System reason w) = []"
| "effectiveGrants (Agent a r w p) =
     (let delegated = set (effectiveGrants p) in filter (\<lambda>perm. perm \<in> delegated) agentCeiling)"
| "effectiveGrants (User u w r) = directGrants (User u w r)"
| "effectiveGrants (Api_key k w scopes) = directGrants (Api_key k w scopes)"
| "effectiveGrants (Channel_identity i w u trust) = directGrants (Channel_identity i w u trust)"
| "effectiveGrants (System reason w) = directGrants (System reason w)"
  by pat_completeness auto
termination
  by (relation "measure (case_sum (\<lambda>p. if is_agent p then 2 * size p + 2 else 0)
       (\<lambda>p. if is_agent p then 2 * size p + 1 else 1))") (auto split: principal.splits)

definition hasPermission :: "principal \<Rightarrow> permission \<Rightarrow> bool" where
  "hasPermission p needed = (needed \<in> set (effectiveGrants p))"

fun rootUserId :: "principal \<Rightarrow> id option" where
  "rootUserId (User u w r) = Some u"
| "rootUserId (Channel_identity i w u trust) = u"
| "rootUserId (Agent a r w p) = rootUserId p"
| "rootUserId (Api_key k w scopes) = None"
| "rootUserId (System reason w) = None"

fun workspaceOf :: "principal \<Rightarrow> id option" where
  "workspaceOf (System reason w) = w"
| "workspaceOf p = Some (p_workspaceId p)"

subsection \<open>The request side\<close>

datatype http_error = Unauthenticated | Forbidden permission | Not_found

definition requirePermission :: "principal \<Rightarrow> permission \<Rightarrow> http_error + unit" where
  "requirePermission p needed = (if hasPermission p needed then Inr () else Inl (Forbidden needed))"

fun actorIdOf :: "principal \<Rightarrow> string" where
  "actorIdOf (User u w r) = u"
| "actorIdOf (Api_key k w scopes) = k"
| "actorIdOf (Channel_identity i w u trust) = i"
| "actorIdOf (Agent a r w p) = actorIdOf p"
| "actorIdOf (System reason w) =
     ''system:'' @ (case reason of Sweeper \<Rightarrow> ''sweeper'' | Migration \<Rightarrow> ''migration'')"

text \<open>
  Resolving the caller of a workspace-scoped request. The bearer token of the
  request, the API-key lookup, the signed-in caller and the membership lookup are
  reads of other services and are arguments: \<open>key_of\<close> answers the key a token
  stands for (id, workspace, scopes), \<open>member_of\<close> the role a user holds.
\<close>

definition resolvePrincipal ::
  "(string \<Rightarrow> (id \<times> id \<times> permission list) option) \<Rightarrow> (id \<Rightarrow> id \<Rightarrow> role option) \<Rightarrow>
   string option \<Rightarrow> id option \<Rightarrow> id \<Rightarrow> http_error + principal" where
  "resolvePrincipal key_of member_of bearer caller workspaceId =
     (case bearer of
        Some token \<Rightarrow>
          (case key_of token of
             None \<Rightarrow> Inl Unauthenticated
           | Some (apiKeyId, keyWorkspace, scopes) \<Rightarrow>
               if keyWorkspace \<noteq> workspaceId then Inl Unauthenticated
               else Inr (Api_key apiKeyId workspaceId scopes))
      | None \<Rightarrow>
          (case caller of
             None \<Rightarrow> Inl Unauthenticated
           | Some userId \<Rightarrow>
               (case member_of workspaceId userId of
                  None \<Rightarrow> Inl Not_found
                | Some r \<Rightarrow> Inr (User userId workspaceId r))))"

subsection \<open>Roles are ordered\<close>

instantiation role :: linorder
begin

definition less_eq_role :: "role \<Rightarrow> role \<Rightarrow> bool" where
  "less_eq_role a b \<longleftrightarrow> ROLE_RANK a \<le> ROLE_RANK b"

definition less_role :: "role \<Rightarrow> role \<Rightarrow> bool" where
  "less_role a b \<longleftrightarrow> ROLE_RANK a < ROLE_RANK b"

instance
proof
  fix a b :: role
  show "a \<le> b \<Longrightarrow> b \<le> a \<Longrightarrow> a = b"
    by (cases a; cases b) (auto simp: less_eq_role_def ROLE_RANK_def)
qed (auto simp: less_eq_role_def less_role_def)

end

lemmas role_lists = VIEWER_def MEMBER_def ADMIN_def OWNER_def

lemma role_permissions_mono:
  "a \<le> b \<Longrightarrow> set (ROLE_PERMISSIONS a) \<subseteq> set (ROLE_PERMISSIONS b)"
  by (cases a; cases b)
    (auto simp: less_eq_role_def ROLE_RANK_def ROLE_PERMISSIONS_def MEMBER_def ADMIN_def OWNER_def)

subsection \<open>Delegation\<close>

text \<open>Who an agent ultimately acts for: the first principal of the chain that is not an agent.\<close>

fun root :: "principal \<Rightarrow> principal" where
  "root (Agent a r w p) = root p"
| "root p = p"

fun delegators :: "principal \<Rightarrow> principal list" where
  "delegators (Agent a r w p) = p # delegators p"
| "delegators p = []"

lemma effectiveGrants_agent:
  "set (effectiveGrants (Agent a r w p)) = set agentCeiling \<inter> set (effectiveGrants p)"
  by (auto simp: Let_def)

lemma effectiveGrants_delegators:
  "q \<in> set (delegators p) \<Longrightarrow> set (effectiveGrants p) \<subseteq> set (effectiveGrants q)"
  by (induction p) (auto simp: effectiveGrants_agent simp del: effectiveGrants.simps)

lemma effectiveGrants_root:
  "is_agent p \<Longrightarrow> set (effectiveGrants p) = set agentCeiling \<inter> set (effectiveGrants (root p))"
proof (induction p)
  case (Agent a r w p)
  then show ?case
    by (cases p) (auto simp: effectiveGrants_agent simp del: effectiveGrants.simps(1))
qed simp_all

lemma root_not_agent: "\<not> is_agent (root p)"
  by (induction p) auto

lemma actorIdOf_root: "actorIdOf p = actorIdOf (root p)"
  by (induction p) auto

lemma rootUserId_root: "rootUserId p = rootUserId (root p)"
  by (induction p) auto

subsection \<open>Properties\<close>

text \<open>
  C29. Delegation never widens authority: whatever the depth of the chain, an agent holds exactly
  the permissions of the agent ceiling that the person or key at the root of the chain holds, it
  holds none that any principal in between lacks, and audit attributes its acts to that root.
\<close>

theorem delegation_narrows:
  assumes "is_agent p"
  shows "(hasPermission p perm \<longleftrightarrow> perm \<in> set agentCeiling \<and> hasPermission (root p) perm) \<and>
    (\<forall>q \<in> set (delegators p). hasPermission p perm \<longrightarrow> hasPermission q perm) \<and>
    \<not> is_agent (root p) \<and> actorIdOf p = actorIdOf (root p) \<and> rootUserId p = rootUserId (root p)"
  using effectiveGrants_root [OF assms] effectiveGrants_delegators [of _ p]
    root_not_agent actorIdOf_root rootUserId_root
  by (auto simp: hasPermission_def)

theorem delegation_narrows_witness:
  "hasPermission (Agent ''a2'' ''r2'' ''w'' (Agent ''a'' ''r'' ''w'' (User ''u'' ''w'' Viewer))) Runs_create \<longleftrightarrow>
     Runs_create \<in> set agentCeiling \<and> hasPermission (User ''u'' ''w'' Viewer) Runs_create"
  using delegation_narrows [of "Agent ''a2'' ''r2'' ''w'' (Agent ''a'' ''r'' ''w'' (User ''u'' ''w'' Viewer))" Runs_create]
  by simp

text \<open>
  A resolved request is confined to the workspace it names: the principal is either a member
  of that workspace with the role the membership records, or an API key issued for that very
  workspace with the key's own scopes; a bearer token never falls back to the signed-in caller.
\<close>

theorem resolvePrincipal_confined:
  assumes "resolvePrincipal key_of member_of bearer caller ws = Inr p"
  shows "workspaceOf p = Some ws \<and>
    (case bearer of
       Some token \<Rightarrow> \<exists>k scopes. key_of token = Some (k, ws, scopes) \<and> p = Api_key k ws scopes \<and>
         effectiveGrants p = scopes
     | None \<Rightarrow> \<exists>u r. caller = Some u \<and> member_of ws u = Some r \<and> p = User u ws r \<and>
         effectiveGrants p = ROLE_PERMISSIONS r)"
  using assms by (auto simp: resolvePrincipal_def split: option.splits if_splits)

theorem resolvePrincipal_confined_witness:
  "workspaceOf (User ''u'' ''w'' Admin) = Some ''w''"
  using resolvePrincipal_confined [of "\<lambda>_. None" "\<lambda>w u. Some Admin" None "Some ''u''" "''w''" "User ''u'' ''w'' Admin"]
  by (simp add: resolvePrincipal_def)

end
