(* ===== verification/Json.thy ===== *)
theory Json
  imports Prelude "HOL-Library.Word"
begin

unbundle bit_operations_syntax

text \<open>
  Canonical JSON and its fingerprint (\<^verbatim>\<open>packages/core/src/canonical.ts\<close>).

  \<open>canonicalJson\<close> renders a value with its keys sorted and undefined members
  dropped; \<open>fingerprint\<close> is the 32-bit FNV-1a digest of that text, in eight
  hexadecimal digits. Numbers are whole numbers here, rendered in decimal.
\<close>

subsection \<open>JSON.stringify of primitives\<close>

definition hex_char :: "nat \<Rightarrow> char" where
  "hex_char d = (if d < 10 then char_of (48 + d) else char_of (87 + d))"

definition escape_char :: "char \<Rightarrow> string" where
  "escape_char c =
     (if c = CHR 0x22 then [CHR 0x5C, CHR 0x22]
      else if c = CHR 0x5C then [CHR 0x5C, CHR 0x5C]
      else if code c = 8 then [CHR 0x5C, CHR ''b'']
      else if code c = 9 then [CHR 0x5C, CHR ''t'']
      else if code c = 10 then [CHR 0x5C, CHR ''n'']
      else if code c = 12 then [CHR 0x5C, CHR ''f'']
      else if code c = 13 then [CHR 0x5C, CHR ''r'']
      else if code c < 32 then
        [CHR 0x5C, CHR ''u'', CHR ''0'', CHR ''0'', hex_char (code c div 16), hex_char (code c mod 16)]
      else [c])"

definition quote :: "string \<Rightarrow> string" where
  "quote s = [CHR 0x22] @ concat (map escape_char s) @ [CHR 0x22]"

subsection \<open>canonicalJson\<close>

definition live_entries :: "(string \<times> jsv) list \<Rightarrow> (string \<times> jsv) list" where
  "live_entries es = sort_key fst (filter (\<lambda>(k, v). v \<noteq> JUndefined) es)"

lemma live_entries_size:
  "(k, v) \<in> set (live_entries es) \<Longrightarrow> size v < Suc (size_list (size_prod (\<lambda>_. 0) size) es)"
proof -
  assume "(k, v) \<in> set (live_entries es)"
  then have "(k, v) \<in> set es" by (auto simp: live_entries_def)
  then show ?thesis by (induction es) auto
qed

function canonicalJson :: "jsv \<Rightarrow> string" where
  "canonicalJson JUndefined = ''null''"
| "canonicalJson JNull = ''null''"
| "canonicalJson (JBool b) = (if b then ''true'' else ''false'')"
| "canonicalJson (JNum i) = show_int i"
| "canonicalJson (JStr s) = quote s"
| "canonicalJson (JArr vs) = ''['' @ join_with '','' (map canonicalJson vs) @ '']''"
| "canonicalJson (JObj es) =
     ''{'' @ join_with '',''
       (map (\<lambda>(k, v). quote k @ '':'' @ canonicalJson v) (live_entries es)) @ ''}''"
  by pat_completeness auto
termination
proof (relation "measure size")
  show "(v, JArr vs) \<in> measure size" if "v \<in> set vs" for v vs
    using that by (induction vs) auto
  show "(w, JObj es) \<in> measure size"
    if "e \<in> set (live_entries es)" "(k, w) = e" for w es e k
    using that live_entries_size [of k w es] by auto
qed simp

text \<open>\<^verbatim>\<open>JSON.stringify\<close>, which keeps the key order; \<^verbatim>\<open>undefined\<close> members are left out.\<close>

fun jsonStringify :: "jsv \<Rightarrow> string" where
  "jsonStringify JUndefined = ''null''"
| "jsonStringify JNull = ''null''"
| "jsonStringify (JBool b) = (if b then ''true'' else ''false'')"
| "jsonStringify (JNum i) = show_int i"
| "jsonStringify (JStr s) = quote s"
| "jsonStringify (JArr vs) = ''['' @ join_with '','' (map jsonStringify vs) @ '']''"
| "jsonStringify (JObj es) =
     ''{'' @ join_with '',''
       (concat (map (\<lambda>(k, v). if v = JUndefined then [] else [quote k @ '':'' @ jsonStringify v]) es)) @ ''}''"

subsection \<open>fingerprint\<close>

fun fnv :: "32 word \<Rightarrow> string \<Rightarrow> 32 word" where
  "fnv h [] = h"
| "fnv h (c # s) = fnv ((h XOR of_nat (code c)) * 0x01000193) s"

fun show_hex :: "nat \<Rightarrow> string" where
  "show_hex n = (if n < 16 then [hex_char n] else show_hex (n div 16) @ [hex_char (n mod 16)])"

declare show_hex.simps [simp del]

definition pad_start :: "nat \<Rightarrow> char \<Rightarrow> string \<Rightarrow> string" where
  "pad_start n c s = replicate (n - length s) c @ s"

definition fingerprint :: "jsv \<Rightarrow> string" where
  "fingerprint v = pad_start 8 (CHR ''0'') (show_hex (unat (fnv 0x811c9dc5 (canonicalJson v))))"

subsection \<open>Key order is not semantic\<close>

text \<open>
  Two values that differ only in the order of object keys, at any depth. Objects
  have distinct keys, as every JavaScript object does.
\<close>

inductive reordered :: "jsv \<Rightarrow> jsv \<Rightarrow> bool" where
  reordered_prim: "reordered v v"
| reordered_arr: "list_all2 reordered vs ws \<Longrightarrow> reordered (JArr vs) (JArr ws)"
| reordered_obj: "distinct (map fst es) \<Longrightarrow>
    list_all2 (\<lambda>e f. fst e = fst f \<and> reordered (snd e) (snd f)) es fs \<Longrightarrow>
    mset gs = mset fs \<Longrightarrow> reordered (JObj es) (JObj gs)"

inductive_cases reordered_undefinedE: "reordered v JUndefined"

lemma reordered_undefined: "reordered v w \<Longrightarrow> (v = JUndefined) = (w = JUndefined)"
  by (erule reordered.cases) auto

lemma sort_key_mset_eq:
  assumes "mset xs = mset ys" and "distinct (map f xs)"
  shows "sort_key f xs = sort_key f ys"
proof (rule map_sorted_distinct_set_unique)
  have sets: "set xs = set ys" using assms(1) by (metis set_mset_mset)
  have dys: "distinct (map f ys)"
    using assms by (metis mset_eq_imp_distinct_iff mset_map)
  show "inj_on f (set (sort_key f xs) \<union> set (sort_key f ys))"
    using assms(2) sets by (simp add: distinct_map)
  show "distinct (map f (sort_key f xs))"
    using assms(2) by (simp add: distinct_map)
  show "distinct (map f (sort_key f ys))"
    using dys by (simp add: distinct_map)
  show "set (sort_key f xs) = set (sort_key f ys)"
    using sets by simp
qed simp_all

lemma live_entries_mset:
  assumes "mset es = mset fs" and "distinct (map fst es)"
  shows "live_entries es = live_entries fs"
  unfolding live_entries_def using assms
  by (intro sort_key_mset_eq) (simp_all add: mset_filter distinct_map_filter)

lemma insort_key_list_all2:
  assumes "list_all2 (\<lambda>e f. fst e = fst f \<and> R e f) es fs" "fst e = fst f" "R e f"
  shows "list_all2 (\<lambda>e f. fst e = fst f \<and> R e f) (insort_key fst e es) (insort_key fst f fs)"
  using assms by (induction es fs rule: list_all2_induct) auto

lemma live_entries_list_all2:
  assumes "list_all2 (\<lambda>e f. fst e = fst f \<and> R e f) es fs"
    and "\<And>e f. R e f \<Longrightarrow> (snd e = JUndefined) = (snd f = JUndefined)"
  shows "list_all2 (\<lambda>e f. fst e = fst f \<and> R e f) (live_entries es) (live_entries fs)"
  using assms(1) unfolding live_entries_def
proof (induction es fs rule: list_all2_induct)
  case (Cons e es f fs)
  moreover have "(snd e = JUndefined) = (snd f = JUndefined)" using Cons assms(2) by blast
  ultimately show ?case
    by (auto simp: case_prod_beta intro!: insort_key_list_all2)
qed simp

lemma canonicalJson_reordered:
  "reordered v w \<Longrightarrow> canonicalJson v = canonicalJson w"
proof (induction rule: reordered.induct)
  case (reordered_arr vs ws)
  then have "map canonicalJson vs = map canonicalJson ws"
    by (induction rule: list_all2_induct) auto
  then show ?case by (metis canonicalJson.simps(6))
next
  case (reordered_obj es fs gs)
  let ?R = "\<lambda>e f. reordered (snd e) (snd f) \<and> canonicalJson (snd e) = canonicalJson (snd f)"
  let ?render = "\<lambda>(k, v). quote k @ '':'' @ canonicalJson v"
  have "list_all2 (\<lambda>e f. fst e = fst f \<and> ?R e f) (live_entries es) (live_entries fs)"
    using reordered_obj.IH by (intro live_entries_list_all2)
      (auto elim: list_all2_mono dest: reordered_undefined)
  then have "map ?render (live_entries es) = map ?render (live_entries fs)"
    by (induction rule: list_all2_induct) (auto simp: case_prod_beta)
  moreover have "map fst fs = map fst es"
    using reordered_obj.IH by (induction rule: list_all2_induct) auto
  then have "live_entries fs = live_entries gs"
    using reordered_obj.hyps by (intro live_entries_mset) auto
  ultimately show ?case by simp
qed simp

subsection \<open>Shape of the fingerprint\<close>

lemma length_show_hex: "n < 16 ^ Suc k \<Longrightarrow> length (show_hex n) \<le> Suc k"
proof (induction k arbitrary: n)
  case 0
  then show ?case by (subst show_hex.simps) simp
next
  case (Suc k)
  show ?case
  proof (cases "n < 16")
    case True
    then show ?thesis by (subst show_hex.simps) simp
  next
    case False
    have "n div 16 < 16 ^ Suc k"
      using Suc.prems by (simp add: less_mult_imp_div_less mult.commute)
    with Suc.IH have "length (show_hex (n div 16)) \<le> Suc k" by simp
    with False show ?thesis by (subst show_hex.simps) simp
  qed
qed

lemma length_fingerprint: "length (fingerprint v) = 8"
proof -
  let ?n = "unat (fnv 0x811c9dc5 (canonicalJson v))"
  have "?n < 16 ^ Suc 7"
    by (rule order_less_le_trans [OF unsigned_less]) simp
  then have "length (show_hex ?n) \<le> 8" using length_show_hex [of ?n 7] by simp
  then show ?thesis by (simp add: fingerprint_def pad_start_def)
qed

subsection \<open>Properties\<close>

text \<open>
  Key order is not semantic: values that differ only in the order of object keys, at any depth,
  have the same canonical text and the same eight-digit fingerprint.
\<close>

theorem canonical_order_independent:
  assumes "reordered v w"
  shows "canonicalJson v = canonicalJson w \<and> fingerprint v = fingerprint w \<and> length (fingerprint v) = 8"
  using canonicalJson_reordered [OF assms] by (simp add: fingerprint_def length_fingerprint [unfolded fingerprint_def])

theorem canonical_order_independent_witness:
  "canonicalJson (JObj [(''b'', JNum 1), (''a'', JNull)]) = canonicalJson (JObj [(''a'', JNull), (''b'', JNum 1)])"
proof -
  have "reordered (JObj [(''b'', JNum 1), (''a'', JNull)]) (JObj [(''a'', JNull), (''b'', JNum 1)])"
    by (rule reordered_obj [where fs = "[(''b'', JNum 1), (''a'', JNull)]"]) (auto intro: reordered_prim)
  from canonical_order_independent [OF this] show ?thesis by blast
qed

end
