(* ===== verification/Budget.thy ===== *)
theory Budget
  imports Complex_Main Prelude
begin

text \<open>
  Run budgets and time (\<^verbatim>\<open>packages/core/src/entities/run.ts\<close>, the usage records of
  \<^verbatim>\<open>entities/model.ts\<close>, \<^verbatim>\<open>policy/budget.ts\<close>, \<^verbatim>\<open>policy/timeouts.ts\<close>,
  \<^verbatim>\<open>packages/runtime/src/budget-meter.ts\<close> and \<^verbatim>\<open>deadline.ts\<close>).

  Counts are integers and costs rationals: the model computes costs exactly where the
  program rounds to a double. A number a caller supplies may be NaN or infinite, so
  requests carry \<open>jsnum\<close> values. The meter reads the clock through an argument \<open>now\<close>.
\<close>

subsection \<open>Run statuses\<close>

datatype run_status =
    Queued | Running | Waiting_approval | Waiting_input | Waiting_tool
  | Succeeded | Failed | Cancelled | Expired

definition TERMINAL_STATUSES :: "run_status list" where
  "TERMINAL_STATUSES = [Succeeded, Failed, Cancelled, Expired]"

definition SUSPENDED_STATUSES :: "run_status list" where
  "SUSPENDED_STATUSES = [Waiting_approval, Waiting_input, Waiting_tool]"

definition isTerminal :: "run_status \<Rightarrow> bool" where
  "isTerminal s \<longleftrightarrow> s \<in> set TERMINAL_STATUSES"

definition isSuspended :: "run_status \<Rightarrow> bool" where
  "isSuspended s \<longleftrightarrow> s \<in> set SUSPENDED_STATUSES"

subsection \<open>Budgets and consumption\<close>

record run_budget =
  maxSteps :: int
  maxToolCalls :: int
  maxTotalTokens :: int
  maxWallClockMs :: int
  maxCostUsd :: rat
  maxMrtrRounds :: int
  maxSubagentDepth :: int

definition DEFAULT_BUDGET :: run_budget where
  "DEFAULT_BUDGET = \<lparr>maxSteps = 24, maxToolCalls = 48, maxTotalTokens = 400000,
     maxWallClockMs = 900000, maxCostUsd = 2, maxMrtrRounds = 4, maxSubagentDepth = 2\<rparr>"

record run_consumption =
  con_steps :: int
  con_toolCalls :: int
  con_tokens :: int
  con_wallClockMs :: int
  con_costUsd :: rat

definition emptyConsumption :: run_consumption where
  "emptyConsumption = \<lparr>con_steps = 0, con_toolCalls = 0, con_tokens = 0, con_wallClockMs = 0,
     con_costUsd = 0\<rparr>"

record usage =
  u_inputTokens :: int
  u_outputTokens :: int
  u_cacheReadTokens :: int
  u_cacheWriteTokens :: int

definition emptyUsage :: usage where
  "emptyUsage = \<lparr>u_inputTokens = 0, u_outputTokens = 0, u_cacheReadTokens = 0, u_cacheWriteTokens = 0\<rparr>"

definition addUsage :: "usage \<Rightarrow> usage \<Rightarrow> usage" where
  "addUsage a b = \<lparr>u_inputTokens = u_inputTokens a + u_inputTokens b,
     u_outputTokens = u_outputTokens a + u_outputTokens b,
     u_cacheReadTokens = u_cacheReadTokens a + u_cacheReadTokens b,
     u_cacheWriteTokens = u_cacheWriteTokens a + u_cacheWriteTokens b\<rparr>"

datatype budget_breach = Max_steps | Max_tool_calls | Max_tokens | Max_wall_clock | Max_cost

definition checkBudget :: "run_budget \<Rightarrow> run_consumption \<Rightarrow> budget_breach option" where
  "checkBudget budget consumed =
     (if con_steps consumed \<ge> maxSteps budget then Some Max_steps
      else if con_toolCalls consumed \<ge> maxToolCalls budget then Some Max_tool_calls
      else if con_tokens consumed \<ge> maxTotalTokens budget then Some Max_tokens
      else if con_wallClockMs consumed \<ge> maxWallClockMs budget then Some Max_wall_clock
      else if con_costUsd consumed \<ge> maxCostUsd budget then Some Max_cost
      else None)"

definition budgetRemaining :: "run_budget \<Rightarrow> run_consumption \<Rightarrow> run_consumption" where
  "budgetRemaining budget consumed =
     \<lparr>con_steps = max 0 (maxSteps budget - con_steps consumed),
      con_toolCalls = max 0 (maxToolCalls budget - con_toolCalls consumed),
      con_tokens = max 0 (maxTotalTokens budget - con_tokens consumed),
      con_wallClockMs = max 0 (maxWallClockMs budget - con_wallClockMs consumed),
      con_costUsd = max 0 (maxCostUsd budget - con_costUsd consumed)\<rparr>"

record model_rates =
  inputPerMTok :: rat
  outputPerMTok :: rat
  cacheReadPerMTok :: "rat option"
  cacheWritePerMTok :: "rat option"

definition computeCostUsd :: "usage \<Rightarrow> model_rates \<Rightarrow> rat" where
  "computeCostUsd u rates =
     (let cacheRead = (case cacheReadPerMTok rates of Some r \<Rightarrow> r | None \<Rightarrow> inputPerMTok rates);
          cacheWrite = (case cacheWritePerMTok rates of Some r \<Rightarrow> r | None \<Rightarrow> inputPerMTok rates)
      in (of_int (u_inputTokens u) * inputPerMTok rates +
          of_int (u_outputTokens u) * outputPerMTok rates +
          of_int (u_cacheReadTokens u) * cacheRead +
          of_int (u_cacheWriteTokens u) * cacheWrite) / 1000000)"

text \<open>A number as a request body may hold it.\<close>

datatype 'a jsnum = Fin 'a | NaN | Infinity | Neg_infinity

record budget_request =
  req_maxSteps :: "int jsnum option"
  req_maxToolCalls :: "int jsnum option"
  req_maxTotalTokens :: "int jsnum option"
  req_maxWallClockMs :: "int jsnum option"
  req_maxCostUsd :: "rat jsnum option"
  req_maxMrtrRounds :: "int jsnum option"
  req_maxSubagentDepth :: "int jsnum option"

definition pick :: "'a::linordered_idom jsnum option \<Rightarrow> 'a \<Rightarrow> 'a" where
  "pick value ceil =
     (case value of
        Some (Fin v) \<Rightarrow> if v \<ge> 0 then min v ceil else ceil
      | _ \<Rightarrow> ceil)"

definition clampBudget :: "budget_request option \<Rightarrow> run_budget \<Rightarrow> run_budget" where
  "clampBudget requested ceil =
     \<lparr>maxSteps = pick (Option.bind requested req_maxSteps) (maxSteps ceil),
      maxToolCalls = pick (Option.bind requested req_maxToolCalls) (maxToolCalls ceil),
      maxTotalTokens = pick (Option.bind requested req_maxTotalTokens) (maxTotalTokens ceil),
      maxWallClockMs = pick (Option.bind requested req_maxWallClockMs) (maxWallClockMs ceil),
      maxCostUsd = pick (Option.bind requested req_maxCostUsd) (maxCostUsd ceil),
      maxMrtrRounds = pick (Option.bind requested req_maxMrtrRounds) (maxMrtrRounds ceil),
      maxSubagentDepth = pick (Option.bind requested req_maxSubagentDepth) (maxSubagentDepth ceil)\<rparr>"

subsection \<open>The meter\<close>

record meter =
  m_budget :: run_budget
  m_rates :: "model_rates option"
  m_sliceStartedAt :: time
  m_priorWallClockMs :: int
  m_steps :: int
  m_toolCalls :: int
  m_tokens :: int
  m_costUsd :: rat
  m_mrtrRounds :: int
  m_usage :: usage

definition new_meter :: "run_budget \<Rightarrow> run_consumption \<Rightarrow> model_rates option \<Rightarrow> time \<Rightarrow> meter" where
  "new_meter budget consumed rates now =
     \<lparr>m_budget = budget, m_rates = rates, m_sliceStartedAt = now,
      m_priorWallClockMs = con_wallClockMs consumed, m_steps = con_steps consumed,
      m_toolCalls = con_toolCalls consumed, m_tokens = con_tokens consumed,
      m_costUsd = con_costUsd consumed, m_mrtrRounds = 0, m_usage = emptyUsage\<rparr>"

definition meter_consumed :: "meter \<Rightarrow> time \<Rightarrow> run_consumption" where
  "meter_consumed m now =
     \<lparr>con_steps = m_steps m, con_toolCalls = m_toolCalls m, con_tokens = m_tokens m,
      con_wallClockMs = m_priorWallClockMs m + (now - m_sliceStartedAt m), con_costUsd = m_costUsd m\<rparr>"

datatype verdict = OK | Breach budget_breach

definition meter_check :: "meter \<Rightarrow> time \<Rightarrow> verdict" where
  "meter_check m now =
     (case checkBudget (m_budget m) (meter_consumed m now) of None \<Rightarrow> OK | Some b \<Rightarrow> Breach b)"

definition checkToolPhase :: "meter \<Rightarrow> time \<Rightarrow> int \<Rightarrow> verdict" where
  "checkToolPhase m now callCount =
     (case meter_check m now of
        Breach b \<Rightarrow> Breach b
      | OK \<Rightarrow> if m_toolCalls m + callCount > maxToolCalls (m_budget m) then Breach Max_tool_calls else OK)"

definition recordStep :: "meter \<Rightarrow> meter" where
  "recordStep m = m\<lparr>m_steps := m_steps m + 1\<rparr>"

definition recordToolCalls :: "int \<Rightarrow> meter \<Rightarrow> meter" where
  "recordToolCalls n m = m\<lparr>m_toolCalls := m_toolCalls m + n\<rparr>"

definition recordMrtrRounds :: "int \<Rightarrow> meter \<Rightarrow> meter" where
  "recordMrtrRounds n m = m\<lparr>m_mrtrRounds := m_mrtrRounds m + n\<rparr>"

definition mrtrRoundsExhausted :: "meter \<Rightarrow> bool" where
  "mrtrRoundsExhausted m \<longleftrightarrow> m_mrtrRounds m \<ge> maxMrtrRounds (m_budget m)"

definition recordUsage :: "usage \<Rightarrow> meter \<Rightarrow> meter" where
  "recordUsage u m =
     m\<lparr>m_usage := addUsage (m_usage m) u,
       m_tokens := m_tokens m + (u_inputTokens u + u_outputTokens u),
       m_costUsd := (case m_rates m of None \<Rightarrow> m_costUsd m
                     | Some rates \<Rightarrow> m_costUsd m + computeCostUsd u rates)\<rparr>"

definition maxOutputTokensFor :: "meter \<Rightarrow> time \<Rightarrow> int \<Rightarrow> int" where
  "maxOutputTokensFor m now requested =
     max 0 (min requested (con_tokens (budgetRemaining (m_budget m) (meter_consumed m now))))"

subsection \<open>Deadlines and the timeout chain\<close>

record wall_clock_deadline =
  endsAt :: time

definition new_deadline :: "time \<Rightarrow> int \<Rightarrow> wall_clock_deadline" where
  "new_deadline now totalMs = \<lparr>endsAt = now + totalMs\<rparr>"

definition remainingMs :: "wall_clock_deadline \<Rightarrow> time \<Rightarrow> int" where
  "remainingMs d now = max 0 (endsAt d - now)"

definition deadline_expired :: "wall_clock_deadline \<Rightarrow> time \<Rightarrow> int \<Rightarrow> bool" where
  "deadline_expired d now reserveMs \<longleftrightarrow> remainingMs d now \<le> reserveMs"

definition DEFAULT_RESERVE_MS :: int where "DEFAULT_RESERVE_MS = 45000"
definition DEFAULT_TOOL_TIMEOUT_MS :: int where "DEFAULT_TOOL_TIMEOUT_MS = 30000"
definition MAX_TOOL_TIMEOUT_MS :: int where "MAX_TOOL_TIMEOUT_MS = 30000"

datatype timeout_error = Reserve_exceeds_slice int int | Tool_exceeds_reserve int

definition assertTimeoutBudget :: "int \<Rightarrow> int \<Rightarrow> timeout_error + unit" where
  "assertTimeoutBudget sliceMs reserveMs =
     (if reserveMs \<ge> sliceMs then Inl (Reserve_exceeds_slice reserveMs sliceMs)
      else if MAX_TOOL_TIMEOUT_MS \<ge> reserveMs then Inl (Tool_exceeds_reserve reserveMs)
      else Inr ())"

subsection \<open>Lemmas\<close>

lemma terminal_not_suspended: "isTerminal s \<Longrightarrow> \<not> isSuspended s"
  by (auto simp: isTerminal_def isSuspended_def TERMINAL_STATUSES_def SUSPENDED_STATUSES_def)

lemma pick_le: "pick v c \<le> c"
  by (auto simp: pick_def split: option.splits jsnum.splits)

lemma pick_nonneg: "0 \<le> c \<Longrightarrow> 0 \<le> pick v c"
  by (auto simp: pick_def split: option.splits jsnum.splits)

lemma pick_idem: "pick (Some (Fin (pick v c))) c = pick v c \<or> c < 0"
  using pick_nonneg [of c v] pick_le [of v c] by (auto simp: pick_def min_def not_less)

lemma checkBudget_None:
  "checkBudget b c = None \<longleftrightarrow>
     con_steps c < maxSteps b \<and> con_toolCalls c < maxToolCalls b \<and> con_tokens c < maxTotalTokens b \<and>
     con_wallClockMs c < maxWallClockMs b \<and> con_costUsd c < maxCostUsd b"
  by (auto simp: checkBudget_def not_le)

lemma meter_check_OK: "meter_check m now = OK \<longleftrightarrow> checkBudget (m_budget m) (meter_consumed m now) = None"
  by (auto simp: meter_check_def split: option.splits)

lemma computeCostUsd_add: "computeCostUsd (addUsage u v) r = computeCostUsd u r + computeCostUsd v r"
  by (simp add: computeCostUsd_def addUsage_def Let_def add_divide_distrib algebra_simps)

text \<open>Folding a slice's usage into a meter.\<close>

lemma fold_recordUsage:
  "m_tokens (fold recordUsage us m) =
     m_tokens m + sum_list (map (\<lambda>u. u_inputTokens u + u_outputTokens u) us) \<and>
   m_costUsd (fold recordUsage us m) = m_costUsd m +
     (case m_rates m of None \<Rightarrow> 0 | Some r \<Rightarrow> sum_list (map (\<lambda>u. computeCostUsd u r) us)) \<and>
   m_rates (fold recordUsage us m) = m_rates m"
proof (induction us arbitrary: m)
  case (Cons u us)
  from Cons [of "recordUsage u m"] show ?case
    by (auto simp: recordUsage_def split: option.splits)
qed (simp split: option.splits)

text \<open>Closing a meter and opening the next one on what it reported loses nothing.\<close>

lemma meter_handover:
  "meter_consumed (new_meter b (meter_consumed m t) r t') t'' =
     (meter_consumed m t)\<lparr>con_wallClockMs := m_priorWallClockMs m + (t - m_sliceStartedAt m) + (t'' - t')\<rparr>"
  by (simp add: meter_consumed_def new_meter_def)

subsection \<open>Properties\<close>

text \<open>
  A client cannot raise its budget: whatever is requested (absent, negative, NaN, infinite or
  huge), every field of the clamped budget is at most the ceiling, a well-formed smaller request is
  honoured as it is, and a non-negative ceiling never becomes negative.
\<close>

theorem clampBudget_bounds:
  "(\<forall>f \<in> {maxSteps, maxToolCalls, maxTotalTokens, maxWallClockMs, maxMrtrRounds, maxSubagentDepth}.
      f (clampBudget req ceil) \<le> f ceil \<and> (0 \<le> f ceil \<longrightarrow> 0 \<le> f (clampBudget req ceil))) \<and>
   maxCostUsd (clampBudget req ceil) \<le> maxCostUsd ceil \<and>
   (req = Some r \<and> req_maxSteps r = Some (Fin n) \<and> 0 \<le> n \<and> n \<le> maxSteps ceil \<longrightarrow>
      maxSteps (clampBudget req ceil) = n) \<and>
   clampBudget None ceil = ceil"
  by (auto simp: clampBudget_def pick_le pick_nonneg) (simp_all add: pick_def min_def)

theorem clampBudget_bounds_witness:
  "maxSteps (clampBudget (Some \<lparr>req_maxSteps = Some (Fin 3), req_maxToolCalls = Some Infinity,
     req_maxTotalTokens = Some NaN, req_maxWallClockMs = None, req_maxCostUsd = None,
     req_maxMrtrRounds = Some (Fin 99), req_maxSubagentDepth = None\<rparr>) DEFAULT_BUDGET) = 3"
  using clampBudget_bounds [of "Some \<lparr>req_maxSteps = Some (Fin 3), req_maxToolCalls = Some Infinity,
     req_maxTotalTokens = Some NaN, req_maxWallClockMs = None, req_maxCostUsd = None,
     req_maxMrtrRounds = Some (Fin 99), req_maxSubagentDepth = None\<rparr>" DEFAULT_BUDGET _ 3]
  by (simp add: DEFAULT_BUDGET_def)

text \<open>
  An admitted tool phase cannot overspend: when the meter admits a phase of \<open>n\<close> calls, recording
  them keeps the run's tool calls within the budget, and when it refuses, either the budget was
  already exhausted or the phase itself would have exceeded the tool-call limit.
\<close>

theorem checkToolPhase_sound:
  "(checkToolPhase m now n = OK \<longleftrightarrow>
      checkBudget (m_budget m) (meter_consumed m now) = None \<and>
      m_toolCalls (recordToolCalls n m) \<le> maxToolCalls (m_budget m)) \<and>
   (checkToolPhase m now n = Breach b \<longrightarrow>
      checkBudget (m_budget m) (meter_consumed m now) = Some b \<or>
      (b = Max_tool_calls \<and> maxToolCalls (m_budget m) < m_toolCalls (recordToolCalls n m)))"
  by (auto simp: checkToolPhase_def meter_check_def recordToolCalls_def not_less
      split: option.splits if_splits)

theorem checkToolPhase_sound_witness:
  "\<exists>b. checkToolPhase (new_meter DEFAULT_BUDGET emptyConsumption None 0) 5 49 = Breach b \<and>
     (checkBudget DEFAULT_BUDGET (meter_consumed (new_meter DEFAULT_BUDGET emptyConsumption None 0) 5) = Some b \<or>
      b = Max_tool_calls)"
  using checkToolPhase_sound [of "new_meter DEFAULT_BUDGET emptyConsumption None 0" 5 49 Max_tool_calls]
  by (intro exI [of _ Max_tool_calls])
     (auto simp: checkToolPhase_def meter_check_def checkBudget_def meter_consumed_def new_meter_def
        DEFAULT_BUDGET_def emptyConsumption_def)

text \<open>
  A timeout chain that passes the composition-time check leaves a run room to progress: a slice
  that has just started is not expired, and from the moment the executor finds the slice not
  expired a tool call of the maximal length still ends before the slice does.
\<close>

theorem timeout_chain_sound:
  assumes "assertTimeoutBudget sliceMs reserveMs = Inr ()"
  shows "\<not> deadline_expired (new_deadline t sliceMs) t reserveMs \<and>
    (\<not> deadline_expired (new_deadline t sliceMs) now reserveMs \<longrightarrow>
       now + MAX_TOOL_TIMEOUT_MS < endsAt (new_deadline t sliceMs))"
  using assms
  by (auto simp: assertTimeoutBudget_def deadline_expired_def remainingMs_def new_deadline_def
      MAX_TOOL_TIMEOUT_MS_def split: if_splits)

theorem timeout_chain_sound_witness:
  "\<not> deadline_expired (new_deadline 0 300000) 0 DEFAULT_RESERVE_MS"
  using timeout_chain_sound [of 300000 DEFAULT_RESERVE_MS 0 0]
  by (simp add: assertTimeoutBudget_def DEFAULT_RESERVE_MS_def MAX_TOOL_TIMEOUT_MS_def)

end
