(* ===== verification/Conversation.thy ===== *)
theory Conversation
  imports Json Budget
begin

text \<open>
  The canonical conversation format (\<^verbatim>\<open>packages/core/src/entities/conversation.ts\<close>) and
  the parts of the inference contract (\<^verbatim>\<open>entities/model.ts\<close>) the runtime reads: messages and
  their content blocks, provider artifacts, tool declarations and system directives.
\<close>

datatype message_role = Role_user | Role_assistant | Role_tool | Role_system

datatype content_block =
    Text string
  | Image string string
  | Document string string "string option"
  | Tool_use (tu_id: string) (tu_name: string) (tu_input: jsv)
  | Tool_result (tr_toolUseId: string) (tr_content: "content_block list")
      (tr_structured: "jsv option") (tr_isError: bool)
  | Reasoning "string option" bool
  | Blob_ref string int string

type_synonym provider_key = string
type_synonym provider_artifacts = "(string \<times> jsv) list"

definition providerKey :: "string \<Rightarrow> string \<Rightarrow> provider_key" where
  "providerKey providerType modelId = providerType @ '':'' @ modelId"

definition shouldReplayArtifact :: "string \<Rightarrow> provider_key \<Rightarrow> bool" where
  "shouldReplayArtifact artifactKey current \<longleftrightarrow> artifactKey = current"

definition artifactsForModel :: "provider_artifacts option \<Rightarrow> provider_key \<Rightarrow> jsv option" where
  "artifactsForModel artifacts current = Option.bind artifacts (\<lambda>a. map_of a current)"

record message =
  msg_id :: id
  msg_seq :: int
  msg_role :: message_role
  msg_content :: "content_block list"
  msg_artifacts :: "provider_artifacts option"
  msg_runId :: "id option"
  msg_tokenEstimate :: "int option"
  msg_createdAt :: time
  msg_supersededBy :: "id option"

record canonical_message =
  cm_role :: message_role
  cm_content :: "content_block list"
  cm_artifacts :: "provider_artifacts option"

definition textBlock :: "string \<Rightarrow> content_block" where
  "textBlock text = Text text"

definition toolResultBlock ::
  "string \<Rightarrow> content_block list \<Rightarrow> jsv option \<Rightarrow> bool option \<Rightarrow> content_block" where
  "toolResultBlock toolUseId content structured isError =
     Tool_result toolUseId content structured (case isError of Some b \<Rightarrow> b | None \<Rightarrow> False)"

definition newline :: string where
  "newline = [CHR 0x0A]"

fun message_part :: "content_block \<Rightarrow> string list" where
  "message_part (Text t) = [t]"
| "message_part (Tool_result i content st err) = [join_with newline (concat (map message_part content))]"
| "message_part (Reasoning (Some summary) red) = [summary]"
| "message_part _ = []"

definition messageText :: "content_block list \<Rightarrow> string" where
  "messageText content = join_with newline (concat (map message_part content))"

fun is_tool_use :: "content_block \<Rightarrow> bool" where
  "is_tool_use (Tool_use i n inp) = True"
| "is_tool_use _ = False"

fun is_tool_result :: "content_block \<Rightarrow> bool" where
  "is_tool_result (Tool_result i c st err) = True"
| "is_tool_result _ = False"

definition toolUseBlocks :: "content_block list \<Rightarrow> content_block list" where
  "toolUseBlocks content = filter is_tool_use content"

subsection \<open>Tools, directives and model capabilities\<close>

record tool_declaration =
  td_name :: string
  td_description :: string
  td_inputSchema :: jsv
  td_outputSchema :: "jsv option"
  td_annotations :: "jsv option"

datatype directive_kind = Identity | Policy | Safety | Memory | Retrieval

record system_directive =
  sd_kind :: directive_kind
  sd_text :: string

datatype cache_strategy = Explicit_breakpoints | Automatic | No_cache

record model_capabilities =
  mc_maxInputTokens :: int
  mc_maxOutputTokens :: int
  mc_toolsSupported :: bool
  mc_parallelCalls :: bool
  mc_maxTools :: "nat option"
  mc_namePattern :: string
  mc_maxNameLength :: int
  mc_cacheSupported :: bool
  mc_cacheStrategy :: cache_strategy
  mc_maxBreakpoints :: "int option"

datatype finish_reason = End_turn | Finish_tool_use | Finish_max_tokens | Stop_sequence
  | Content_filter | Refusal | Finish_error

subsection \<open>Token estimates\<close>

text \<open>
  \<^verbatim>\<open>estimateTokens\<close> of \<^verbatim>\<open>context-assembler.ts\<close>: a quarter of the characters, rounded up.
\<close>

fun block_chars :: "content_block \<Rightarrow> nat" where
  "block_chars (Text t) = length t"
| "block_chars (Reasoning s red) = (case s of None \<Rightarrow> 0 | Some t \<Rightarrow> length t)"
| "block_chars (Tool_use i n inp) =
     length (jsonStringify (if inp = JUndefined \<or> inp = JNull then JStr [] else inp))"
| "block_chars (Tool_result i content st err) = sum_list (map block_chars content)"
| "block_chars (Blob_ref key bytes mime) = length key"
| "block_chars _ = 0"

definition estimateTokens :: "content_block list \<Rightarrow> int" where
  "estimateTokens content = (int (sum_list (map block_chars content)) + 3) div 4"

lemma estimateTokens_nonneg: "0 \<le> estimateTokens content"
  by (simp add: estimateTokens_def)

lemma toolUseBlocks_append [simp]: "toolUseBlocks (a @ b) = toolUseBlocks a @ toolUseBlocks b"
  by (simp add: toolUseBlocks_def)

lemma in_toolUseBlocks: "b \<in> set (toolUseBlocks c) \<longleftrightarrow> b \<in> set c \<and> is_tool_use b"
  by (simp add: toolUseBlocks_def)

text \<open>An artifact is replayed for a model only if it is stored under that model's own key.\<close>

lemma artifactsForModel_key:
  "artifactsForModel artifacts current = Some a \<Longrightarrow>
     \<exists>as key. artifacts = Some as \<and> (key, a) \<in> set as \<and> shouldReplayArtifact key current"
  by (auto simp: artifactsForModel_def shouldReplayArtifact_def dest: map_of_SomeD
      split: Option.bind_splits)

end
