(* ===== verification/Run_Queue.thy ===== *)
theory Run_Queue
  imports Conversation Permission Principal
begin

text \<open>
  The run queue: \<^verbatim>\<open>packages/db/src/run-queue.ts\<close> and the writes of
  \<^verbatim>\<open>packages/db/src/repositories/runs.ts\<close> that touch the same documents.

  The collection is a list of documents with distinct ids. One-document updates
  are \<open>update_one\<close>: the filter, the change, and whether a document matched. What the
  database leaves open is an argument: which of several equally ranked runs a claim
  returns (\<open>sort_pick\<close>), the random part of a token and of a back-off, and the clock.
  A step relation puts all writes together in any order; the invariants are proved
  over it.
\<close>

subsection \<open>Documents\<close>

record lease =
  l_owner :: string
  l_until :: time
  l_token :: string

record run_doc =
  rd_id :: id
  rd_workspaceId :: id
  rd_conversationId :: id
  rd_agentId :: id
  rd_agentVersionId :: id
  rd_agentSnapshot :: jsv
  rd_modelBindingId :: id
  rd_providerKey :: "string option"
  rd_trigger :: "string \<times> string option"
  rd_principal :: principal
  rd_status :: run_status
  rd_priority :: int
  rd_scheduledFor :: time
  rd_lease :: "lease option"
  rd_attempts :: nat
  rd_continuation :: "(int \<times> string) option"
  rd_budget :: run_budget
  rd_consumed :: run_consumption
  rd_usage :: usage
  rd_nextStepSeq :: int
  rd_parentRunId :: "id option"
  rd_depth :: int
  rd_idempotencyKey :: "string option"
  rd_error :: "(string \<times> string) option"
  rd_queuedAt :: time
  rd_startedAt :: "time option"
  rd_finishedAt :: "time option"
  rd_heartbeatAt :: "time option"

type_synonym runs = "run_doc list"

text \<open>\<^verbatim>\<open>updateOne\<close>: the collection afterwards and whether a document matched.\<close>

definition update_one :: "(run_doc \<Rightarrow> bool) \<Rightarrow> (run_doc \<Rightarrow> run_doc) \<Rightarrow> runs \<Rightarrow> runs \<times> bool" where
  "update_one P f docs = (update_first P f docs, list_ex P docs)"

definition lease_lapsed :: "time \<Rightarrow> run_doc \<Rightarrow> bool" where
  "lease_lapsed now d = (case rd_lease d of None \<Rightarrow> False | Some l \<Rightarrow> l_until l < now)"

definition holds :: "id \<Rightarrow> string \<Rightarrow> run_doc \<Rightarrow> bool" where
  "holds runId token d \<longleftrightarrow> rd_id d = runId \<and> map_option l_token (rd_lease d) = Some token"

subsection \<open>Creation\<close>

record create_run_input =
  cri_conversationId :: id
  cri_agentId :: id
  cri_agentVersionId :: id
  cri_agentSnapshot :: jsv
  cri_modelBindingId :: id
  cri_trigger :: "string \<times> string option"
  cri_principal :: principal
  cri_budget :: run_budget
  cri_idempotencyKey :: "string option"
  cri_parentRunId :: "id option"
  cri_depth :: "int option"
  cri_priority :: "int option"

definition new_run :: "id \<Rightarrow> id \<Rightarrow> time \<Rightarrow> create_run_input \<Rightarrow> run_doc" where
  "new_run newId ws now inp =
     \<lparr>rd_id = newId, rd_workspaceId = ws, rd_conversationId = cri_conversationId inp,
      rd_agentId = cri_agentId inp, rd_agentVersionId = cri_agentVersionId inp,
      rd_agentSnapshot = cri_agentSnapshot inp, rd_modelBindingId = cri_modelBindingId inp,
      rd_providerKey = None, rd_trigger = cri_trigger inp, rd_principal = cri_principal inp,
      rd_status = Queued, rd_priority = (case cri_priority inp of Some p \<Rightarrow> p | None \<Rightarrow> 0),
      rd_scheduledFor = now, rd_lease = None, rd_attempts = 0, rd_continuation = None,
      rd_budget = cri_budget inp, rd_consumed = emptyConsumption, rd_usage = emptyUsage,
      rd_nextStepSeq = 1, rd_parentRunId = cri_parentRunId inp,
      rd_depth = (case cri_depth inp of Some n \<Rightarrow> n | None \<Rightarrow> 0),
      rd_idempotencyKey = cri_idempotencyKey inp, rd_error = None, rd_queuedAt = now,
      rd_startedAt = None, rd_finishedAt = None, rd_heartbeatAt = None\<rparr>"

datatype create_error = Duplicate_key

definition find_by_key :: "id \<Rightarrow> string \<Rightarrow> runs \<Rightarrow> run_doc option" where
  "find_by_key ws key docs =
     List.find (\<lambda>d. rd_workspaceId d = ws \<and> rd_idempotencyKey d = Some key) docs"

text \<open>
  The index \<^verbatim>\<open>ws_idempotency\<close> of \<^verbatim>\<open>indexes.ts\<close> is unique over the pair of workspace and key. It is
  compound, and a sparse compound index holds every document that has one of its
  fields; a run always has its workspace, so runs without a key are in it, with a
  null key.
\<close>

definition key_taken :: "id \<Rightarrow> string option \<Rightarrow> runs \<Rightarrow> bool" where
  "key_taken ws key docs \<longleftrightarrow> list_ex (\<lambda>d. rd_workspaceId d = ws \<and> rd_idempotencyKey d = key) docs"

text \<open>
  \<^verbatim>\<open>create\<close>. The look-up and the insertion are two commands; \<open>seen\<close> is the collection at
  the time of the look-up, \<open>docs\<close> at the time of the insertion, which is what a race
  makes different.
\<close>

definition create ::
  "id \<Rightarrow> id \<Rightarrow> time \<Rightarrow> create_run_input \<Rightarrow> runs \<Rightarrow> runs \<Rightarrow> (create_error + run_doc) \<times> runs" where
  "create newId ws now inp seen docs =
     (case Option.bind (cri_idempotencyKey inp) (\<lambda>k. find_by_key ws k seen) of
        Some existing \<Rightarrow> (Inr existing, docs)
      | None \<Rightarrow>
          (let doc = new_run newId ws now inp in
           if key_taken ws (cri_idempotencyKey inp) docs then
             (case Option.bind (cri_idempotencyKey inp) (\<lambda>k. find_by_key ws k docs) of
                Some existing \<Rightarrow> (Inr existing, docs)
              | None \<Rightarrow> (Inl Duplicate_key, docs))
           else (Inr doc, docs @ [doc])))"

subsection \<open>Queue writes\<close>

datatype lease_error = Lease_lost id

definition enqueue_change :: "int option \<Rightarrow> time \<Rightarrow> run_doc \<Rightarrow> run_doc" where
  "enqueue_change prio tm d =
     d\<lparr>rd_status := Queued, rd_scheduledFor := tm, rd_lease := None,
       rd_priority := (case prio of Some p \<Rightarrow> p | None \<Rightarrow> rd_priority d)\<rparr>"

definition enqueue :: "id \<Rightarrow> int option \<Rightarrow> time option \<Rightarrow> time \<Rightarrow> runs \<Rightarrow> runs \<times> bool" where
  "enqueue runId prio tm now docs =
     update_one (\<lambda>d. rd_id d = runId \<and>
         rd_status d \<in> {Waiting_approval, Waiting_input, Waiting_tool, Queued})
       (enqueue_change prio (case tm of Some t \<Rightarrow> t | None \<Rightarrow> now)) docs"

definition claimable :: "time \<Rightarrow> id list option \<Rightarrow> run_doc \<Rightarrow> bool" where
  "claimable now wss d \<longleftrightarrow>
     rd_status d = Queued \<and> rd_scheduledFor d \<le> now \<and>
     (rd_lease d = None \<or> lease_lapsed now d) \<and>
     (case wss of None \<Rightarrow> True | Some ws \<Rightarrow> rd_workspaceId d \<in> set ws)"

definition claim_change :: "string \<Rightarrow> time \<Rightarrow> int \<Rightarrow> string \<Rightarrow> run_doc \<Rightarrow> run_doc" where
  "claim_change owner now leaseMs token d =
     d\<lparr>rd_status := Running,
       rd_startedAt := (case rd_startedAt d of Some t \<Rightarrow> Some t | None \<Rightarrow> Some now),
       rd_heartbeatAt := Some now,
       rd_lease := Some \<lparr>l_owner = owner, l_until = now + leaseMs, l_token = token\<rparr>,
       rd_attempts := rd_attempts d + 1\<rparr>"

text \<open>The sort \<^verbatim>\<open>{ priority: -1, scheduledFor: 1 }\<close>: the first document may be any minimal one.\<close>

definition claim_order :: "run_doc \<Rightarrow> run_doc \<Rightarrow> bool" where
  "claim_order a b \<longleftrightarrow> rd_priority a > rd_priority b \<or>
     rd_priority a = rd_priority b \<and> rd_scheduledFor a \<le> rd_scheduledFor b"

definition sort_pick :: "(runs \<Rightarrow> run_doc option) \<Rightarrow> bool" where
  "sort_pick pick_one \<longleftrightarrow>
     (\<forall>cands. (cands = [] \<longrightarrow> pick_one cands = None) \<and>
       (cands \<noteq> [] \<longrightarrow> (\<exists>d \<in> set cands. pick_one cands = Some d \<and> (\<forall>e \<in> set cands. claim_order d e))))"

record claimed_run =
  cl_run :: run_doc
  cl_token :: string
  cl_until :: time

definition claim ::
  "(runs \<Rightarrow> run_doc option) \<Rightarrow> string \<Rightarrow> int \<Rightarrow> id list option \<Rightarrow> string \<Rightarrow> time \<Rightarrow> runs \<Rightarrow>
   claimed_run option \<times> runs" where
  "claim pick_one owner leaseMs wss token now docs =
     (case pick_one (filter (claimable now wss) docs) of
        None \<Rightarrow> (None, docs)
      | Some d \<Rightarrow>
          (Some \<lparr>cl_run = claim_change owner now leaseMs token d, cl_token = token, cl_until = now + leaseMs\<rparr>,
           update_first (\<lambda>e. rd_id e = rd_id d) (claim_change owner now leaseMs token) docs))"

definition heartbeat_change :: "time \<Rightarrow> int \<Rightarrow> run_doc \<Rightarrow> run_doc" where
  "heartbeat_change now leaseMs d =
     d\<lparr>rd_lease := map_option (\<lambda>l. l\<lparr>l_until := now + leaseMs\<rparr>) (rd_lease d), rd_heartbeatAt := Some now\<rparr>"

definition heartbeat :: "id \<Rightarrow> string \<Rightarrow> int \<Rightarrow> time \<Rightarrow> runs \<Rightarrow> (lease_error + time) \<times> runs" where
  "heartbeat runId token leaseMs now docs =
     (let (docs', matched) = update_one (holds runId token) (heartbeat_change now leaseMs) docs
      in (if matched then Inr (now + leaseMs) else Inl (Lease_lost runId), docs'))"

datatype release_intent =
    Requeue time "int option"
  | Suspend run_status
  | Finish run_status "(string \<times> string) option"

fun release_change :: "release_intent \<Rightarrow> time \<Rightarrow> run_doc \<Rightarrow> run_doc" where
  "release_change (Requeue tm fromStep) now d =
     d\<lparr>rd_status := Queued, rd_scheduledFor := tm, rd_lease := None,
       rd_continuation := (case fromStep of Some n \<Rightarrow> Some (n, ''deadline'') | None \<Rightarrow> rd_continuation d)\<rparr>"
| "release_change (Suspend s) now d =
     d\<lparr>rd_status := s, rd_lease := None, rd_heartbeatAt := Some now\<rparr>"
| "release_change (Finish s err) now d =
     d\<lparr>rd_status := s, rd_lease := None, rd_finishedAt := Some now,
       rd_error := (case err of Some e \<Rightarrow> Some e | None \<Rightarrow> rd_error d)\<rparr>"

definition release :: "id \<Rightarrow> string \<Rightarrow> release_intent \<Rightarrow> time \<Rightarrow> runs \<Rightarrow> (lease_error + unit) \<times> runs" where
  "release runId token intent now docs =
     (let (docs', matched) = update_one (holds runId token) (release_change intent now) docs
      in (if matched then Inr () else Inl (Lease_lost runId), docs'))"

text \<open>The types of \<^verbatim>\<open>ReleaseIntentDoc\<close>: a suspension is to a suspended status, a finish to a terminal one.\<close>

fun intent_ok :: "release_intent \<Rightarrow> bool" where
  "intent_ok (Requeue tm n) = True"
| "intent_ok (Suspend s) = isSuspended s"
| "intent_ok (Finish s e) = isTerminal s"

text \<open>
  \<^verbatim>\<open>backoffMs\<close>: \<open>r\<close> stands for \<^verbatim>\<open>Math.random()\<close>, a number in \<open>[0, 1)\<close>.
\<close>

definition backoffMs :: "nat \<Rightarrow> int \<Rightarrow> int \<Rightarrow> rat \<Rightarrow> int" where
  "backoffMs attempts baseMs capMs r =
     (let ceil = min capMs (baseMs * 2 ^ (attempts - 1)) in floor (r * of_int ceil))"

definition stalled :: "time \<Rightarrow> run_doc \<Rightarrow> bool" where
  "stalled now d \<longleftrightarrow> rd_status d = Running \<and> lease_lapsed now d"

definition sweep_change :: "nat \<Rightarrow> time \<Rightarrow> rat \<Rightarrow> nat \<Rightarrow> run_doc \<Rightarrow> run_doc" where
  "sweep_change maxAttempts now r attempts d =
     (if attempts \<ge> maxAttempts then
        d\<lparr>rd_status := Failed, rd_lease := None, rd_finishedAt := Some now,
          rd_error := Some (''lease_exhausted'', ''Run reclaimed '' @ show_nat attempts @
            '' times without completing. Failing with a partial result rather than retrying indefinitely.'')\<rparr>
      else
        d\<lparr>rd_status := Queued, rd_lease := None, rd_scheduledFor := now + backoffMs attempts 1000 60000 r\<rparr>)"

text \<open>One iteration of the sweep, for a document read before (\<open>snap\<close>).\<close>

definition sweep_one :: "nat \<Rightarrow> time \<Rightarrow> rat \<Rightarrow> run_doc \<Rightarrow> runs \<Rightarrow> runs \<times> bool" where
  "sweep_one maxAttempts now r snap docs =
     update_one (\<lambda>d. rd_id d = rd_id snap \<and> stalled now d)
       (sweep_change maxAttempts now r (rd_attempts snap)) docs"

fun sweep_all :: "nat \<Rightarrow> time \<Rightarrow> (run_doc \<Rightarrow> rat) \<Rightarrow> runs \<Rightarrow> runs \<Rightarrow> nat \<times> nat \<Rightarrow> runs \<times> nat \<times> nat" where
  "sweep_all maxAttempts now r [] docs (requeued, failed) = (docs, requeued, failed)"
| "sweep_all maxAttempts now r (snap # snaps) docs (requeued, failed) =
     (let (docs', matched) = sweep_one maxAttempts now (r snap) snap docs
      in sweep_all maxAttempts now r snaps docs'
           (if matched then (if rd_attempts snap \<ge> maxAttempts then (requeued, failed + 1)
                             else (requeued + 1, failed))
            else (requeued, failed)))"

definition lease_until :: "run_doc \<Rightarrow> time" where
  "lease_until d = (case rd_lease d of Some l \<Rightarrow> l_until l | None \<Rightarrow> 0)"

definition sweep :: "nat \<Rightarrow> nat \<Rightarrow> time \<Rightarrow> (run_doc \<Rightarrow> rat) \<Rightarrow> runs \<Rightarrow> runs \<times> nat \<times> nat" where
  "sweep maxAttempts limit now r docs =
     sweep_all maxAttempts now r
       (take limit (sort_key lease_until (filter (stalled now) docs))) docs (0, 0)"

definition findOrphanedQueued :: "int \<Rightarrow> nat \<Rightarrow> time \<Rightarrow> runs \<Rightarrow> id list" where
  "findOrphanedQueued olderThanMs limit now docs =
     map rd_id (take limit (sort_key rd_scheduledFor
       (filter (\<lambda>d. rd_status d = Queued \<and> rd_scheduledFor d \<le> now - olderThanMs) docs)))"

subsection \<open>Repository writes on runs\<close>

record consumption_delta =
  dl_steps :: int
  dl_toolCalls :: int
  dl_tokens :: int
  dl_costUsd :: rat

definition consumption_change :: "consumption_delta \<Rightarrow> usage \<Rightarrow> run_doc \<Rightarrow> run_doc" where
  "consumption_change delta u d =
     d\<lparr>rd_consumed := (rd_consumed d)
         \<lparr>con_steps := con_steps (rd_consumed d) + dl_steps delta,
          con_toolCalls := con_toolCalls (rd_consumed d) + dl_toolCalls delta,
          con_tokens := con_tokens (rd_consumed d) + dl_tokens delta,
          con_costUsd := con_costUsd (rd_consumed d) + dl_costUsd delta\<rparr>,
       rd_usage := addUsage (rd_usage d) u\<rparr>"

definition recordConsumption :: "id \<Rightarrow> id \<Rightarrow> string \<Rightarrow> consumption_delta \<Rightarrow> usage \<Rightarrow> runs \<Rightarrow> runs" where
  "recordConsumption ws runId token delta u docs =
     fst (update_one (\<lambda>d. rd_workspaceId d = ws \<and> holds runId token d) (consumption_change delta u) docs)"

definition cancel_change :: "time \<Rightarrow> run_doc \<Rightarrow> run_doc" where
  "cancel_change now d = d\<lparr>rd_status := Cancelled, rd_finishedAt := Some now\<rparr>"

definition cancel :: "id \<Rightarrow> id \<Rightarrow> time \<Rightarrow> runs \<Rightarrow> runs \<times> bool" where
  "cancel ws runId now docs =
     update_one (\<lambda>d. rd_workspaceId d = ws \<and> rd_id d = runId \<and>
         rd_status d \<notin> {Succeeded, Failed, Cancelled, Expired}) (cancel_change now) docs"

definition bump_seq :: "run_doc \<Rightarrow> run_doc" where
  "bump_seq d = d\<lparr>rd_nextStepSeq := rd_nextStepSeq d + 1\<rparr>"

record tool_invocation_result =
  tir_id :: string
  tir_canonicalName :: string
  tir_content :: "content_block list"
  tir_structured :: "jsv option"
  tir_isError :: bool
  tir_bindingId :: "id option"
  tir_durationMs :: int
  tir_mrtrRounds :: int
  tir_argumentsRedacted :: "jsv option"
  tir_permission :: "(perm_effect \<times> string option \<times> string option) option"

datatype step_type = Model_call | Tool_call | Compaction_step | Input_required | Memory_write | Subagent

datatype step_status = Step_succeeded | Step_failed

record step_body =
  sb_type :: step_type
  sb_status :: step_status
  sb_toolCalls :: "tool_invocation_result list"
  sb_usage :: "usage option"
  sb_error :: "(string \<times> string) option"

record step_doc =
  st_runId :: id
  st_workspaceId :: id
  st_seq :: int
  st_body :: step_body

record event_doc =
  ev_runId :: id
  ev_seq :: int
  ev_type :: string
  ev_payload :: jsv

datatype approval_decision = Approve | Deny_it

record approval_doc =
  ap_id :: id
  ap_workspaceId :: id
  ap_runId :: id
  ap_kind :: string
  ap_payload :: jsv
  ap_requestedAt :: time
  ap_expiresAt :: time
  ap_decision :: "approval_decision option"
  ap_decidedBy :: "string option"
  ap_decidedAt :: "time option"
  ap_response :: "jsv option"
  ap_announced :: "(id \<times> string) option"

record run_db =
  db_runs :: runs
  db_steps :: "step_doc list"
  db_events :: "event_doc list"
  db_approvals :: "approval_doc list"

text \<open>\<^verbatim>\<open>appendStep\<close>: take the next number under the lease, then insert the step with it.\<close>

datatype step_error = Lease_not_held id

definition appendStep ::
  "id \<Rightarrow> id \<Rightarrow> string \<Rightarrow> step_body \<Rightarrow> run_db \<Rightarrow> (step_error + step_doc) \<times> run_db" where
  "appendStep ws runId token body db =
     (case List.find (\<lambda>d. rd_workspaceId d = ws \<and> holds runId token d) (db_runs db) of
        None \<Rightarrow> (Inl (Lease_not_held runId), db)
      | Some before \<Rightarrow>
          (let step = \<lparr>st_runId = runId, st_workspaceId = ws, st_seq = rd_nextStepSeq before, st_body = body\<rparr>
           in (Inr step,
               db\<lparr>db_runs := update_first (\<lambda>d. rd_workspaceId d = ws \<and> holds runId token d) bump_seq (db_runs db),
                  db_steps := db_steps db @ [step]\<rparr>)))"

definition listSteps :: "id \<Rightarrow> id \<Rightarrow> run_db \<Rightarrow> step_doc list" where
  "listSteps ws runId db =
     sort_key st_seq (filter (\<lambda>s. st_workspaceId s = ws \<and> st_runId s = runId) (db_steps db))"

text \<open>Events; the unique index over run and number refuses a second event with the same number.\<close>

datatype event_error = Duplicate_event id int

definition appendEvent :: "id \<Rightarrow> int \<Rightarrow> string \<Rightarrow> jsv \<Rightarrow> run_db \<Rightarrow> (event_error + unit) \<times> run_db" where
  "appendEvent runId seq type payload db =
     (if list_ex (\<lambda>e. ev_runId e = runId \<and> ev_seq e = seq) (db_events db)
      then (Inl (Duplicate_event runId seq), db)
      else (Inr (), db\<lparr>db_events := db_events db @
        [\<lparr>ev_runId = runId, ev_seq = seq, ev_type = type, ev_payload = payload\<rparr>]\<rparr>))"

definition eventsSince :: "id \<Rightarrow> int \<Rightarrow> nat \<Rightarrow> run_db \<Rightarrow> event_doc list" where
  "eventsSince runId afterSeq limit db =
     take limit (sort_key ev_seq (filter (\<lambda>e. ev_runId e = runId \<and> ev_seq e > afterSeq) (db_events db)))"

subsection \<open>Approvals\<close>

record approval_input =
  ai_runId :: id
  ai_kind :: string
  ai_payload :: jsv
  ai_requestedAt :: time
  ai_expiresAt :: time

text \<open>The sources insert an approval with no decision yet; the document gets a fresh id and the workspace.\<close>

definition createApproval :: "id \<Rightarrow> id \<Rightarrow> approval_input \<Rightarrow> run_db \<Rightarrow> approval_doc \<times> run_db" where
  "createApproval newId ws inp db =
     (let doc = \<lparr>ap_id = newId, ap_workspaceId = ws, ap_runId = ai_runId inp, ap_kind = ai_kind inp,
            ap_payload = ai_payload inp, ap_requestedAt = ai_requestedAt inp, ap_expiresAt = ai_expiresAt inp,
            ap_decision = None, ap_decidedBy = None, ap_decidedAt = None, ap_response = None,
            ap_announced = None\<rparr>
      in (doc, db\<lparr>db_approvals := db_approvals db @ [doc]\<rparr>))"

definition findApproval :: "id \<Rightarrow> id \<Rightarrow> run_db \<Rightarrow> approval_doc option" where
  "findApproval ws approvalId db =
     List.find (\<lambda>a. ap_workspaceId a = ws \<and> ap_id a = approvalId) (db_approvals db)"

definition decide_change ::
  "approval_decision \<Rightarrow> string \<Rightarrow> jsv option \<Rightarrow> time \<Rightarrow> approval_doc \<Rightarrow> approval_doc" where
  "decide_change decision by_whom response now a =
     a\<lparr>ap_decision := Some decision, ap_decidedBy := Some by_whom, ap_decidedAt := Some now,
       ap_response := (case response of Some r \<Rightarrow> Some r | None \<Rightarrow> ap_response a)\<rparr>"

definition undecided :: "id \<Rightarrow> id \<Rightarrow> approval_doc \<Rightarrow> bool" where
  "undecided ws i a \<longleftrightarrow> ap_workspaceId a = ws \<and> ap_id a = i \<and> ap_decision a = None"

definition decideApproval ::
  "id \<Rightarrow> id \<Rightarrow> approval_decision \<Rightarrow> string \<Rightarrow> jsv option \<Rightarrow> time \<Rightarrow> run_db \<Rightarrow> run_db \<times> bool" where
  "decideApproval ws approvalId decision by_whom response now db =
     (db\<lparr>db_approvals := update_first (undecided ws approvalId)
         (decide_change decision by_whom response now) (db_approvals db)\<rparr>,
      list_ex (undecided ws approvalId) (db_approvals db))"

definition run_waiting :: "id \<Rightarrow> runs \<Rightarrow> id \<Rightarrow> bool" where
  "run_waiting ws docs runId \<longleftrightarrow> list_ex (\<lambda>d. rd_workspaceId d = ws \<and> rd_id d = runId \<and> isSuspended (rd_status d)) docs"

definition approval_live :: "id \<Rightarrow> runs \<Rightarrow> time \<Rightarrow> approval_doc \<Rightarrow> bool" where
  "approval_live ws docs now a \<longleftrightarrow> \<not> ap_expiresAt a \<le> now \<and> run_waiting ws docs (ap_runId a)"

definition stale_reason :: "time \<Rightarrow> approval_doc \<Rightarrow> string" where
  "stale_reason now a = (if ap_expiresAt a \<le> now then ''system:expired'' else ''system:run_moved_on'')"

definition close_stale :: "id \<Rightarrow> time \<Rightarrow> approval_doc list \<Rightarrow> approval_doc list \<Rightarrow> approval_doc list" where
  "close_stale ws now stale approvals =
     foldl (\<lambda>as a. update_first (undecided ws (ap_id a)) (decide_change Deny_it (stale_reason now a) None now) as)
       approvals stale"

text \<open>The sort is by \<^verbatim>\<open>requestedAt\<close>, newest first.\<close>

definition pendingApprovals :: "id \<Rightarrow> nat \<Rightarrow> time \<Rightarrow> run_db \<Rightarrow> approval_doc list \<times> run_db" where
  "pendingApprovals ws limit now db =
     (let open = take (limit * 2) (sort_key (\<lambda>a. - ap_requestedAt a)
            (filter (\<lambda>a. ap_workspaceId a = ws \<and> ap_decision a = None) (db_approvals db)));
          live = filter (approval_live ws (db_runs db) now) open;
          stale = filter (\<lambda>a. \<not> approval_live ws (db_runs db) now a) open
      in (take limit live, db\<lparr>db_approvals := close_stale ws now stale (db_approvals db)\<rparr>))"

definition pendingApprovalForRun :: "id \<Rightarrow> id \<Rightarrow> run_db \<Rightarrow> approval_doc option" where
  "pendingApprovalForRun ws runId db =
     (case sort_key (\<lambda>a. - ap_requestedAt a)
        (filter (\<lambda>a. ap_workspaceId a = ws \<and> ap_runId a = runId \<and> ap_decision a = None) (db_approvals db))
      of [] \<Rightarrow> None | a # _ \<Rightarrow> Some a)"

definition markAnnounced :: "id \<Rightarrow> id \<Rightarrow> id \<Rightarrow> string \<Rightarrow> run_db \<Rightarrow> run_db \<times> bool" where
  "markAnnounced ws approvalId channelId messageRef db =
     (let P = (\<lambda>a. ap_workspaceId a = ws \<and> ap_id a = approvalId \<and> ap_announced a = None)
      in (db\<lparr>db_approvals := update_first P (\<lambda>a. a\<lparr>ap_announced := Some (channelId, messageRef)\<rparr>) (db_approvals db)\<rparr>,
          list_ex P (db_approvals db)))"

end
