(* ===== verification/Run_Invariants.thy ===== *)
theory Run_Invariants
  imports Run_Queue
begin

text \<open>
  The run queue as a transition system. \<open>db_step\<close> allows every write of the queue and of the
  repository, from any executor, in any order; a claim uses a token that was never
  issued before. The locale \<open>run_write\<close> states what a write other than a claim promises
  (it keeps the identity of the run, brings in no lease token and keeps status and
  lease consistent); it is interpreted on each change of the code, and the
  invariants of the whole system follow.
\<close>

subsection \<open>What a write promises\<close>

text \<open>A lease exists exactly while a run is running, except that a cancelled run may keep one.\<close>

definition lease_ok :: "run_doc \<Rightarrow> bool" where
  "lease_ok d \<longleftrightarrow>
     (rd_status d = Running \<longrightarrow> rd_lease d \<noteq> None) \<and>
     (rd_lease d \<noteq> None \<longrightarrow> rd_status d = Running \<or> rd_status d = Cancelled)"

definition token_of :: "run_doc \<Rightarrow> string option" where
  "token_of d = map_option l_token (rd_lease d)"

lemma holds_token: "holds r t d \<longleftrightarrow> rd_id d = r \<and> token_of d = Some t"
  by (simp add: holds_def token_of_def)

text \<open>A token no run of the collection holds.\<close>

definition dead_in :: "string \<Rightarrow> runs \<Rightarrow> bool" where
  "dead_in t docs \<longleftrightarrow> (\<forall>d \<in> set docs. token_of d \<noteq> Some t)"

locale run_write =
  fixes change :: "run_doc \<Rightarrow> run_doc"
  assumes keeps_id: "rd_id (change d) = rd_id d"
    and keeps_workspace: "rd_workspaceId (change d) = rd_workspaceId d"
    and keeps_key: "rd_idempotencyKey (change d) = rd_idempotencyKey d"
    and no_new_token: "token_of (change d) = None \<or> token_of (change d) = token_of d"
    and keeps_lease_ok: "lease_ok d \<Longrightarrow> lease_ok (change d)"
    and keeps_budget: "rd_budget (change d) = rd_budget d \<and> rd_principal (change d) = rd_principal d"
begin

lemma write_ids: "map rd_id (update_first P change docs) = map rd_id docs"
  by (rule map_update_first) (rule keeps_id)

lemma write_lease_ok: "\<forall>d \<in> set docs. lease_ok d \<Longrightarrow> \<forall>d \<in> set (update_first P change docs). lease_ok d"
  using in_set_update_firstD [of _ P change docs] keeps_lease_ok by blast

lemma write_tokens:
  "d \<in> set (update_first P change docs) \<Longrightarrow> token_of d = Some t \<Longrightarrow>
   \<exists>e \<in> set docs. token_of e = Some t \<and> rd_id e = rd_id d"
  using in_set_update_firstD [of d P change docs] no_new_token keeps_id by (metis option.distinct(1))

lemma write_dead_token: "dead_in t docs \<Longrightarrow> dead_in t (update_first P change docs)"
  unfolding dead_in_def using write_tokens by blast

lemma guarded_write_other:
  "d \<in> set docs \<Longrightarrow> rd_id d \<noteq> r \<Longrightarrow> d \<in> set (update_first (holds r t) change docs)"
  by (induction docs) (auto simp: holds_token)

end

text \<open>A write that also leaves the step counter alone.\<close>

definition seqs :: "runs \<Rightarrow> (id \<times> int) list" where
  "seqs docs = map (\<lambda>d. (rd_id d, rd_nextStepSeq d)) docs"

locale quiet_write = run_write +
  assumes keeps_seq: "rd_nextStepSeq (change d) = rd_nextStepSeq d"
begin

lemma write_seqs: "seqs (update_first P change docs) = seqs docs"
  unfolding seqs_def by (rule map_update_first) (simp add: keeps_id keeps_seq)

end

interpretation enqueue_w: quiet_write "enqueue_change prio tm" for prio tm
  by unfold_locales (auto simp: enqueue_change_def token_of_def lease_ok_def)

interpretation heartbeat_w: quiet_write "heartbeat_change now ms" for now ms
  by unfold_locales (auto simp: heartbeat_change_def token_of_def lease_ok_def option.map_comp comp_def)

interpretation sweep_w: quiet_write "sweep_change m now r a" for m now r a
  by unfold_locales (auto simp: sweep_change_def token_of_def lease_ok_def)

interpretation consume_w: quiet_write "consumption_change delta u" for delta u
  by unfold_locales (auto simp: consumption_change_def token_of_def lease_ok_def)

interpretation cancel_w: quiet_write "cancel_change now" for now
  by unfold_locales (auto simp: cancel_change_def token_of_def lease_ok_def)

interpretation bump_w: run_write bump_seq
  by unfold_locales (auto simp: bump_seq_def token_of_def lease_ok_def)

lemma release_quiet_write: "intent_ok intent \<Longrightarrow> quiet_write (release_change intent now)"
  by (unfold_locales; cases intent)
     (auto simp: token_of_def lease_ok_def isSuspended_def isTerminal_def SUSPENDED_STATUSES_def
       TERMINAL_STATUSES_def)

text \<open>The changes a run without a valid intent or token would never see.\<close>

interpretation requeue_w: quiet_write "release_change (Requeue tm n) now" for tm n now
  by (rule release_quiet_write) simp

subsection \<open>The transition system\<close>

record queue_system =
  qs_db :: run_db
  qs_issued :: "string set"

abbreviation qs_runs :: "queue_system \<Rightarrow> runs" where
  "qs_runs s \<equiv> db_runs (qs_db s)"

definition with_runs :: "runs \<Rightarrow> queue_system \<Rightarrow> queue_system" where
  "with_runs docs s = s\<lparr>qs_db := (qs_db s)\<lparr>db_runs := docs\<rparr>\<rparr>"

definition with_db :: "run_db \<Rightarrow> queue_system \<Rightarrow> queue_system" where
  "with_db db s = s\<lparr>qs_db := db\<rparr>"

definition empty_system :: "queue_system \<Rightarrow> bool" where
  "empty_system s \<longleftrightarrow> qs_db s = \<lparr>db_runs = [], db_steps = [], db_events = [], db_approvals = []\<rparr> \<and> qs_issued s = {}"

inductive db_step :: "queue_system \<Rightarrow> queue_system \<Rightarrow> bool" where
  step_create [step_intros]: "newId \<notin> rd_id ` set (qs_runs s) \<Longrightarrow>
    db_step s (with_runs (snd (create newId ws now inp seen (qs_runs s))) s)"
| step_enqueue [step_intros]: "db_step s (with_runs (fst (enqueue r prio tm now (qs_runs s))) s)"
| step_claim [step_intros]: "sort_pick pick_one \<Longrightarrow> token \<notin> qs_issued s \<Longrightarrow>
    db_step s ((with_runs (snd (claim pick_one owner ms wss token now (qs_runs s))) s)
      \<lparr>qs_issued := insert token (qs_issued s)\<rparr>)"
| step_heartbeat [step_intros]: "db_step s (with_runs (snd (heartbeat r t ms now (qs_runs s))) s)"
| step_release [step_intros]: "intent_ok intent \<Longrightarrow>
    db_step s (with_runs (snd (release r t intent now (qs_runs s))) s)"
| step_sweep [step_intros]: "db_step s (with_runs (fst (sweep_one m now rnd snap (qs_runs s))) s)"
| step_consume [step_intros]: "db_step s (with_runs (recordConsumption ws r t delta u (qs_runs s)) s)"
| step_cancel [step_intros]: "db_step s (with_runs (fst (cancel ws r now (qs_runs s))) s)"
| step_append [step_intros]: "db_step s (with_db (snd (appendStep ws r t body (qs_db s))) s)"
| step_event [step_intros]: "db_step s (with_db (snd (appendEvent r n type payload (qs_db s))) s)"
| step_approval [step_intros]: "db_step s (with_db (snd (createApproval newId ws ainp (qs_db s))) s)"
| step_announce [step_intros]: "db_step s (with_db (fst (markAnnounced ws a channel ref (qs_db s))) s)"
| step_decide [step_intros]: "db_step s (with_db (fst (decideApproval ws a decision by_whom response now (qs_db s))) s)"
| step_pending [step_intros]: "db_step s (with_db (snd (pendingApprovals ws limit now (qs_db s))) s)"

lemma with_runs_simps [simp]:
  "qs_runs (with_runs docs s) = docs" "qs_issued (with_runs docs s) = qs_issued s"
  "db_steps (qs_db (with_runs docs s)) = db_steps (qs_db s)"
  "db_events (qs_db (with_runs docs s)) = db_events (qs_db s)"
  "db_approvals (qs_db (with_runs docs s)) = db_approvals (qs_db s)"
  by (simp_all add: with_runs_def)

lemma with_db_simps [simp]:
  "qs_db (with_db db s) = db" "qs_issued (with_db db s) = qs_issued s"
  by (simp_all add: with_db_def)

lemma step_updates [simp]:
  "fst (enqueue r prio tm now docs) = update_first (\<lambda>d. rd_id d = r \<and>
     rd_status d \<in> {Waiting_approval, Waiting_input, Waiting_tool, Queued})
     (enqueue_change prio (case tm of Some t \<Rightarrow> t | None \<Rightarrow> now)) docs"
  "snd (heartbeat r t ms now docs) = update_first (holds r t) (heartbeat_change now ms) docs"
  "snd (release r t intent now docs) = update_first (holds r t) (release_change intent now) docs"
  "fst (sweep_one m now rnd snap docs) = update_first (\<lambda>d. rd_id d = rd_id snap \<and> stalled now d)
     (sweep_change m now rnd (rd_attempts snap)) docs"
  "recordConsumption ws r t delta u docs =
     update_first (\<lambda>d. rd_workspaceId d = ws \<and> holds r t d) (consumption_change delta u) docs"
  "fst (cancel ws r now docs) = update_first (\<lambda>d. rd_workspaceId d = ws \<and> rd_id d = r \<and>
     rd_status d \<notin> {Succeeded, Failed, Cancelled, Expired}) (cancel_change now) docs"
  by (simp_all add: enqueue_def heartbeat_def release_def sweep_one_def recordConsumption_def cancel_def
      update_one_def)

subsection \<open>The invariant\<close>

definition tokens_unique :: "runs \<Rightarrow> bool" where
  "tokens_unique docs \<longleftrightarrow>
     (\<forall>d \<in> set docs. \<forall>e \<in> set docs. \<forall>t. token_of d = Some t \<longrightarrow> token_of e = Some t \<longrightarrow> rd_id d = rd_id e)"

definition runs_ok :: "string set \<Rightarrow> runs \<Rightarrow> bool" where
  "runs_ok issued docs \<longleftrightarrow> distinct (map rd_id docs) \<and> (\<forall>d \<in> set docs. lease_ok d) \<and>
     (\<forall>d \<in> set docs. \<forall>t. token_of d = Some t \<longrightarrow> t \<in> issued) \<and> tokens_unique docs"

definition steps_ok :: "(id \<times> int) list \<Rightarrow> step_doc list \<Rightarrow> bool" where
  "steps_ok ids steps \<longleftrightarrow> (\<forall>st \<in> set steps. st_runId st \<in> fst ` set ids) \<and>
     (\<forall>(r, n) \<in> set ids. 1 \<le> n \<and> map st_seq (filter (\<lambda>st. st_runId st = r) steps) = [1..n - 1])"

definition events_ok :: "event_doc list \<Rightarrow> bool" where
  "events_ok evs \<longleftrightarrow> distinct (map (\<lambda>e. (ev_runId e, ev_seq e)) evs)"

definition system_ok :: "queue_system \<Rightarrow> bool" where
  "system_ok s \<longleftrightarrow> runs_ok (qs_issued s) (qs_runs s) \<and>
     steps_ok (seqs (qs_runs s)) (db_steps (qs_db s)) \<and> events_ok (db_events (qs_db s))"

lemma runs_okI:
  assumes "distinct (map rd_id docs)" "\<And>d. d \<in> set docs \<Longrightarrow> lease_ok d"
    and "\<And>d t. d \<in> set docs \<Longrightarrow> token_of d = Some t \<Longrightarrow> t \<in> issued"
    and "\<And>d e t. d \<in> set docs \<Longrightarrow> e \<in> set docs \<Longrightarrow> token_of d = Some t \<Longrightarrow> token_of e = Some t \<Longrightarrow>
      rd_id d = rd_id e"
  shows "runs_ok issued docs"
  unfolding runs_ok_def tokens_unique_def using assms by blast

lemma runs_okD:
  assumes "runs_ok issued docs"
  shows "distinct (map rd_id docs)" "d \<in> set docs \<Longrightarrow> lease_ok d"
    and "d \<in> set docs \<Longrightarrow> token_of d = Some t \<Longrightarrow> t \<in> issued"
    and "d \<in> set docs \<Longrightarrow> e \<in> set docs \<Longrightarrow> token_of d = Some t \<Longrightarrow> token_of e = Some t \<Longrightarrow> rd_id d = rd_id e"
  using assms unfolding runs_ok_def tokens_unique_def by blast+

context run_write
begin

lemma write_runs_ok:
  assumes ok: "runs_ok issued docs"
  shows "runs_ok issued (update_first P change docs)"
proof (rule runs_okI)
  show "distinct (map rd_id (update_first P change docs))" using runs_okD(1) [OF ok] by (simp add: write_ids)
  show "lease_ok d" if "d \<in> set (update_first P change docs)" for d
    using write_lease_ok [of docs P] runs_okD(2) [OF ok] that by blast
  show "t \<in> issued" if "d \<in> set (update_first P change docs)" "token_of d = Some t" for d t
    using write_tokens [OF that] runs_okD(3) [OF ok] by blast
  show "rd_id d = rd_id e" if "d \<in> set (update_first P change docs)" "e \<in> set (update_first P change docs)"
    "token_of d = Some t" "token_of e = Some t" for d e t
    using write_tokens [OF that(1,3)] write_tokens [OF that(2,4)] runs_okD(4) [OF ok] by metis
qed

end

context quiet_write
begin

lemma write_system_ok:
  "system_ok s \<Longrightarrow> system_ok (with_runs (update_first P change (qs_runs s)) s)"
  by (simp add: system_ok_def write_runs_ok write_seqs)

end

lemma claim_cases:
  assumes "sort_pick pick_one"
  obtains "claim pick_one owner ms wss token now docs = (None, docs)" "filter (claimable now wss) docs = []"
  | d where "d \<in> set docs" "claimable now wss d"
    "\<And>e. e \<in> set docs \<Longrightarrow> claimable now wss e \<Longrightarrow> claim_order d e"
    "claim pick_one owner ms wss token now docs =
       (Some \<lparr>cl_run = claim_change owner now ms token d, cl_token = token, cl_until = now + ms\<rparr>,
        update_first (\<lambda>e. rd_id e = rd_id d) (claim_change owner now ms token) docs)"
proof (cases "filter (claimable now wss) docs = []")
  case True
  with assms that(1) show thesis by (simp add: sort_pick_def claim_def)
next
  case False
  with assms obtain d where "d \<in> set (filter (claimable now wss) docs)"
    "pick_one (filter (claimable now wss) docs) = Some d"
    "\<forall>e \<in> set (filter (claimable now wss) docs). claim_order d e"
    unfolding sort_pick_def by blast
  with that(2) [of d] show thesis by (simp add: claim_def)
qed

lemma claim_change_simps [simp]:
  "rd_id (claim_change owner now ms t d) = rd_id d"
  "rd_nextStepSeq (claim_change owner now ms t d) = rd_nextStepSeq d"
  "token_of (claim_change owner now ms t d) = Some t"
  "lease_ok (claim_change owner now ms t d)"
  "rd_status (claim_change owner now ms t d) = Running"
  by (simp_all add: claim_change_def token_of_def lease_ok_def)

lemma in_update_first_id:
  "distinct (map rd_id docs) \<Longrightarrow> d \<in> set docs \<Longrightarrow> (\<And>x. rd_id (f x) = rd_id x) \<Longrightarrow>
   e \<in> set (update_first (\<lambda>x. rd_id x = rd_id d) f docs) \<longleftrightarrow>
     e = f d \<or> (e \<in> set docs \<and> rd_id e \<noteq> rd_id d)"
  by (induction docs) (auto simp: image_iff)

lemma claim_runs_ok:
  assumes ok: "runs_ok issued docs" and fresh: "token \<notin> issued" and d: "d \<in> set docs"
  shows "runs_ok (insert token issued)
    (update_first (\<lambda>e. rd_id e = rd_id d) (claim_change owner now ms token) docs)"
proof -
  have ids: "map rd_id (update_first (\<lambda>e. rd_id e = rd_id d) (claim_change owner now ms token) docs) = map rd_id docs"
    by (rule map_update_first) simp
  have dist: "distinct (map rd_id docs)" using ok by (simp add: runs_ok_def)
  note mem = in_update_first_id [OF dist d claim_change_simps(1)]
  show ?thesis
  proof (rule runs_okI)
    show "rd_id a = rd_id b" if "token_of a = Some t" "token_of b = Some t"
      and "a \<in> set (update_first (\<lambda>e. rd_id e = rd_id d) (claim_change owner now ms token) docs)"
      and "b \<in> set (update_first (\<lambda>e. rd_id e = rd_id d) (claim_change owner now ms token) docs)" for a b t
      using that(1,2) that(3,4) [unfolded mem] runs_okD(3,4) [OF ok] fresh
      by (metis claim_change_simps(3) option.inject)
    show "t \<in> insert token issued" if "token_of a = Some t"
      and "a \<in> set (update_first (\<lambda>e. rd_id e = rd_id d) (claim_change owner now ms token) docs)" for a t
      using that(1) that(2) [unfolded mem] runs_okD(3) [OF ok] by auto
    show "lease_ok a"
      if "a \<in> set (update_first (\<lambda>e. rd_id e = rd_id d) (claim_change owner now ms token) docs)" for a
      using that [unfolded mem] runs_okD(2) [OF ok] by auto
  qed (simp add: ids dist)
qed

lemma seqs_claim: "seqs (update_first P (claim_change owner now ms token) docs) = seqs docs"
  unfolding seqs_def by (rule map_update_first) simp

lemma create_cases:
  "snd (create newId ws now inp seen docs) = docs \<or>
   snd (create newId ws now inp seen docs) = docs @ [new_run newId ws now inp]"
  by (simp add: create_def Let_def split: option.split)

lemma new_run_simps [simp]:
  "rd_id (new_run i ws now inp) = i" "rd_nextStepSeq (new_run i ws now inp) = 1"
  "token_of (new_run i ws now inp) = None" "lease_ok (new_run i ws now inp)"
  "rd_status (new_run i ws now inp) = Queued" "rd_workspaceId (new_run i ws now inp) = ws"
  "rd_idempotencyKey (new_run i ws now inp) = cri_idempotencyKey inp"
  by (simp_all add: new_run_def token_of_def lease_ok_def)

lemma create_runs_ok:
  assumes ok: "runs_ok issued docs" and fresh: "newId \<notin> rd_id ` set docs"
  shows "runs_ok issued (docs @ [new_run newId ws now inp])"
proof (rule runs_okI)
  show "rd_id d = rd_id e" if "d \<in> set (docs @ [new_run newId ws now inp])"
    "e \<in> set (docs @ [new_run newId ws now inp])" "token_of d = Some t" "token_of e = Some t" for d e t
    using that runs_okD(4) [OF ok, of d e t] by auto
  show "t \<in> issued" if "d \<in> set (docs @ [new_run newId ws now inp])" "token_of d = Some t" for d t
    using that runs_okD(3) [OF ok, of d t] by auto
qed (use runs_okD(1,2) [OF ok] fresh in auto)

lemma create_steps_ok:
  assumes "steps_ok ids steps" "newId \<notin> fst ` set ids"
  shows "steps_ok (ids @ [(newId, 1)]) steps"
proof -
  have "filter (\<lambda>st. st_runId st = newId) steps = []"
    using assms by (force simp: steps_ok_def filter_empty_conv)
  with assms(1) show ?thesis by (auto simp: steps_ok_def)
qed

lemma create_system_ok:
  assumes "system_ok s" "newId \<notin> rd_id ` set (qs_runs s)"
  shows "system_ok (with_runs (snd (create newId ws now inp seen (qs_runs s))) s)"
  using create_cases [of newId ws now inp seen "qs_runs s"]
proof
  assume "snd (create newId ws now inp seen (qs_runs s)) = qs_runs s"
  with assms show ?thesis by (simp add: system_ok_def)
next
  assume c: "snd (create newId ws now inp seen (qs_runs s)) = qs_runs s @ [new_run newId ws now inp]"
  have "newId \<notin> fst ` set (seqs (qs_runs s))" using assms(2) by (force simp: seqs_def)
  with assms create_runs_ok create_steps_ok show ?thesis
    unfolding c by (simp add: system_ok_def seqs_def)
qed

text \<open>Appending a step takes the next number of the run that holds the token.\<close>

lemma seqs_bump:
  assumes "distinct (map rd_id docs)" "List.find P docs = Some b" "\<And>d. P d \<Longrightarrow> rd_id d = r"
  shows "(x, n) \<in> set (seqs (update_first P bump_seq docs)) \<longleftrightarrow>
    (if x = r then n = rd_nextStepSeq b + 1 else (x, n) \<in> set (seqs docs))"
  using assms
proof (induction docs)
  case (Cons d docs)
  show ?case
  proof (cases "P d")
    case True
    with Cons.prems(1,2) Cons.prems(3) [OF True] show ?thesis
      by (force simp: seqs_def bump_seq_def)
  next
    case False
    moreover from False Cons.prems(2) have find: "List.find P docs = Some b" by simp
    moreover from find have "r \<in> rd_id ` set docs"
      using find_Some_in [OF find] Cons.prems(3) by force
    then have "rd_id d \<noteq> r" using Cons.prems(1) by auto
    ultimately show ?thesis using Cons by (auto simp: seqs_def)
  qed
qed simp

lemma fst_seqs: "fst ` set (seqs docs) = rd_id ` set docs"
  by (force simp: seqs_def)

lemma upto_snoc: "1 \<le> n \<Longrightarrow> [1..n - 1] @ [n] = [1..n]"
  by (simp add: upto_rec2)

lemma bump_steps_ok:
  assumes dist: "distinct (map rd_id docs)" and find: "List.find P docs = Some b"
    and P: "\<And>d. P d \<Longrightarrow> rd_id d = r" and ok: "steps_ok (seqs docs) steps"
  shows "steps_ok (seqs (update_first P bump_seq docs))
    (steps @ [\<lparr>st_runId = r, st_workspaceId = ws, st_seq = rd_nextStepSeq b, st_body = body\<rparr>])"
proof -
  have b: "(r, rd_nextStepSeq b) \<in> set (seqs docs)"
    using find_Some_in [OF find] P by (force simp: seqs_def)
  have ids: "fst ` set (seqs (update_first P bump_seq docs)) = fst ` set (seqs docs)"
    unfolding fst_seqs by (metis bump_w.write_ids list.set_map)
  have old: "1 \<le> n \<and> map st_seq (filter (\<lambda>st. st_runId st = x) steps) = [1..n - 1]"
    if "(x, n) \<in> set (seqs docs)" for x n
    using ok that by (auto simp: steps_ok_def)
  note mem = seqs_bump [OF dist find P]
  show ?thesis
    unfolding steps_ok_def ids
  proof (intro conjI ballI, goal_cases)
    case (1 st)
    then show ?case using ok b by (auto simp: steps_ok_def intro: rev_image_eqI)
  next
    case (2 xn)
    obtain x n where xn: "xn = (x, n)" by (cases xn)
    show ?case
    proof (cases "x = r")
      case True
      with 2 xn mem [of x n] have "n = rd_nextStepSeq b + 1" by simp
      with old [OF b] True xn show ?thesis by (simp add: upto_snoc)
    next
      case False
      with 2 xn mem [of x n] old [of x n] show ?thesis by simp
    qed
  qed
qed

lemma append_system_ok:
  assumes "system_ok s"
  shows "system_ok (with_db (snd (appendStep ws r t body (qs_db s))) s)"
proof (cases "List.find (\<lambda>d. rd_workspaceId d = ws \<and> holds r t d) (qs_runs s)")
  case None
  then have "snd (appendStep ws r t body (qs_db s)) = qs_db s" by (simp add: appendStep_def)
  with assms show ?thesis by (simp add: system_ok_def)
next
  case (Some b)
  have "steps_ok (seqs (update_first (\<lambda>d. rd_workspaceId d = ws \<and> holds r t d) bump_seq (qs_runs s)))
      (db_steps (qs_db s) @ [\<lparr>st_runId = r, st_workspaceId = ws, st_seq = rd_nextStepSeq b, st_body = body\<rparr>])"
    using assms Some by (intro bump_steps_ok) (auto simp: system_ok_def runs_ok_def holds_def)
  with assms Some show ?thesis
    by (simp add: appendStep_def system_ok_def bump_w.write_runs_ok Let_def)
qed

lemma event_system_ok:
  "system_ok s \<Longrightarrow> system_ok (with_db (snd (appendEvent r n type payload (qs_db s))) s)"
  by (auto simp: system_ok_def appendEvent_def events_ok_def list_ex_iff)

lemma approvals_system_ok:
  "system_ok s \<Longrightarrow> system_ok (with_db ((qs_db s)\<lparr>db_approvals := as\<rparr>) s)"
  by (simp add: system_ok_def)

lemma claim_system_ok:
  assumes "system_ok s" "sort_pick pick_one" "token \<notin> qs_issued s"
  shows "system_ok ((with_runs (snd (claim pick_one owner ms wss token now (qs_runs s))) s)
      \<lparr>qs_issued := insert token (qs_issued s)\<rparr>)"
proof (cases rule: claim_cases [OF assms(2), of owner ms wss token now "qs_runs s"])
  case 1
  have "runs_ok (insert token (qs_issued s)) (qs_runs s)"
    using assms(1) by (auto simp: system_ok_def runs_ok_def)
  with 1 assms(1) show ?thesis by (simp add: system_ok_def with_runs_def)
next
  case (2 d)
  with assms claim_runs_ok [of "qs_issued s" "qs_runs s" token d] show ?thesis
    by (simp add: system_ok_def with_runs_def seqs_claim)
qed

lemma release_system_ok:
  assumes "system_ok s" "intent_ok intent"
  shows "system_ok (with_runs (update_first P (release_change intent now) (qs_runs s)) s)"
  using quiet_write.write_system_ok [OF release_quiet_write [OF assms(2)] assms(1)] .

lemma db_step_system_ok: "db_step s t \<Longrightarrow> system_ok s \<Longrightarrow> system_ok t"
  by (induction rule: db_step.induct)
     (simp_all add: create_system_ok claim_system_ok release_system_ok append_system_ok event_system_ok
       enqueue_w.write_system_ok heartbeat_w.write_system_ok sweep_w.write_system_ok
       consume_w.write_system_ok cancel_w.write_system_ok createApproval_def markAnnounced_def decideApproval_def pendingApprovals_def
       Let_def approvals_system_ok)

interpretation queue: invariant_system empty_system db_step system_ok
proof unfold_locales
  show "system_ok s" if "empty_system s" for s
    using that by (simp add: empty_system_def system_ok_def runs_ok_def tokens_unique_def steps_ok_def
        seqs_def events_ok_def)
qed (rule db_step_system_ok)

subsection \<open>Lost leases\<close>

definition dead_token :: "string \<Rightarrow> queue_system \<Rightarrow> bool" where
  "dead_token t s \<longleftrightarrow> t \<in> qs_issued s \<and> dead_in t (qs_runs s)"

lemma claim_dead_token:
  assumes "sort_pick pick_one" "t \<noteq> token" "dead_in t docs"
  shows "dead_in t (snd (claim pick_one owner ms wss token now docs))"
proof (cases rule: claim_cases [OF assms(1), of owner ms wss token now docs])
  case 1
  then show ?thesis using assms(3) by simp
next
  case (2 d)
  then show ?thesis
    using assms(2,3) in_set_update_firstD [of _ "\<lambda>e. rd_id e = rd_id d" "claim_change owner now ms token" docs]
    unfolding dead_in_def by fastforce
qed

lemma dead_in_snoc: "dead_in t docs \<Longrightarrow> token_of d \<noteq> Some t \<Longrightarrow> dead_in t (docs @ [d])"
  by (simp add: dead_in_def)

lemma db_step_dead_token: "db_step s s' \<Longrightarrow> dead_token t s \<Longrightarrow> dead_token t s'"
proof (induction rule: db_step.induct)
  case (step_create newId s ws now inp seen)
  then show ?case
    using create_cases [of newId ws now inp seen "qs_runs s"]
    by (auto simp: dead_token_def dead_in_snoc)
next
  case (step_claim pick_one token s owner ms wss now)
  then have "t \<noteq> token" by (auto simp: dead_token_def)
  with step_claim claim_dead_token [of pick_one t token "qs_runs s"] show ?case
    by (simp add: dead_token_def with_runs_def)
next
  case (step_release intent s r t' now)
  then show ?case
    using run_write.write_dead_token
      [OF quiet_write.axioms(1) [OF release_quiet_write [OF step_release(1)]], of t "qs_runs s"]
    by (simp add: dead_token_def)
next
  case (step_append s ws r t' body)
  then show ?case
    by (auto simp: dead_token_def appendStep_def Let_def bump_w.write_dead_token split: option.splits)
qed (simp_all add: dead_token_def enqueue_w.write_dead_token heartbeat_w.write_dead_token
    sweep_w.write_dead_token consume_w.write_dead_token cancel_w.write_dead_token appendEvent_def
    createApproval_def markAnnounced_def decideApproval_def pendingApprovals_def Let_def)

lemma db_steps_dead_token: "db_step\<^sup>*\<^sup>* s s' \<Longrightarrow> dead_token t s \<Longrightarrow> dead_token t s'"
  by (induction rule: rtranclp_induct) (auto intro: db_step_dead_token)

lemma dead_token_writes:
  assumes "dead_in t (db_runs db)"
  shows "heartbeat r t ms now (db_runs db) = (Inl (Lease_lost r), db_runs db)"
    and "release r t intent now (db_runs db) = (Inl (Lease_lost r), db_runs db)"
    and "recordConsumption ws r t delta u (db_runs db) = db_runs db"
    and "appendStep ws r t body db = (Inl (Lease_not_held r), db)"
proof -
  have none: "\<not> list_ex (holds r t) (db_runs db)" "\<And>d. d \<in> set (db_runs db) \<Longrightarrow> \<not> holds r t d"
    using assms by (auto simp: dead_in_def holds_token list_ex_iff)
  then have id: "update_first (holds r t) f (db_runs db) = db_runs db" for f
    by (intro update_first_id) auto
  show "heartbeat r t ms now (db_runs db) = (Inl (Lease_lost r), db_runs db)"
    using none(1) id by (simp add: heartbeat_def update_one_def)
  show "release r t intent now (db_runs db) = (Inl (Lease_lost r), db_runs db)"
    using none(1) id by (simp add: release_def update_one_def)
  show "recordConsumption ws r t delta u (db_runs db) = db_runs db"
    using none(2) by (simp add: update_first_id)
  have "List.find (\<lambda>d. rd_workspaceId d = ws \<and> holds r t d) (db_runs db) = None"
    using none(2) by (auto simp: find_None_all)
  then show "appendStep ws r t body db = (Inl (Lease_not_held r), db)" by (simp add: appendStep_def)
qed

subsection \<open>Sweeping\<close>

lemma floor_scaled: "0 \<le> r \<Longrightarrow> r < 1 \<Longrightarrow> 0 < c \<Longrightarrow> 0 \<le> floor (r * of_int c) \<and> floor (r * of_int c) < c"
  for r :: rat
  by (simp add: floor_less_iff)

lemma backoff_bounds:
  assumes "0 \<le> r" "r < 1" "0 < baseMs" "0 < capMs"
  shows "0 \<le> backoffMs attempts baseMs capMs r \<and> backoffMs attempts baseMs capMs r < capMs"
  using floor_scaled [OF assms(1,2), of "min capMs (baseMs * 2 ^ (attempts - 1))"] assms(3,4)
  unfolding backoffMs_def Let_def by force

lemma sweep_change_simps [simp]: "rd_id (sweep_change m now r a d) = rd_id d"
  by (simp add: sweep_change_def)

lemma sweep_change_not_stalled: "\<not> stalled now (sweep_change m now r a d)"
  by (simp add: sweep_change_def stalled_def)

text \<open>A sweep maps each document on its own: what it saw as stalled is changed, the rest is kept.\<close>

definition swept :: "nat \<Rightarrow> time \<Rightarrow> (run_doc \<Rightarrow> rat) \<Rightarrow> runs \<Rightarrow> run_doc \<Rightarrow> run_doc" where
  "swept m now r snaps d =
     (if d \<in> set snaps then sweep_change m now (r d) (rd_attempts d) d else d)"

lemma update_first_map:
  "distinct (map rd_id docs) \<Longrightarrow>
   update_first (\<lambda>d. rd_id d = i \<and> Q d) f docs = map (\<lambda>d. if rd_id d = i \<and> Q d then f d else d) docs"
proof (induction docs)
  case (Cons d docs)
  then show ?case by (auto intro!: map_idI [symmetric] simp: image_iff)
qed simp

lemma sweep_all_map:
  assumes "distinct (map rd_id docs)" "distinct (map rd_id snaps)" "set snaps \<subseteq> set docs"
    and "\<forall>d \<in> set snaps. stalled now d"
  shows "sweep_all m now r snaps docs (a, b) =
    (map (swept m now r snaps) docs,
     a + length (filter (\<lambda>d. rd_attempts d < m) snaps), b + length (filter (\<lambda>d. m \<le> rd_attempts d) snaps))"
  using assms
proof (induction snaps arbitrary: docs a b)
  case Nil
  then show ?case by (simp add: swept_def)
next
  case (Cons snap snaps)
  let ?f = "\<lambda>d. if rd_id d = rd_id snap \<and> stalled now d
    then sweep_change m now (r snap) (rd_attempts snap) d else d"
  have one: "sweep_one m now (r snap) snap docs = (map ?f docs, True)"
    using Cons.prems by (auto simp: sweep_one_def update_one_def update_first_map list_ex_iff)
  have same: "d = snap" if "d \<in> set docs" "rd_id d = rd_id snap" for d
    using that Cons.prems(1,3) by (simp add: distinct_map inj_on_def)
  have ids: "map rd_id (map ?f docs) = map rd_id docs" by simp
  have sub: "set snaps \<subseteq> set (map ?f docs)"
  proof
    fix d assume d: "d \<in> set snaps"
    then have "rd_id d \<noteq> rd_id snap" "d \<in> set docs" using Cons.prems(2,3) by (auto simp: image_iff)
    then show "d \<in> set (map ?f docs)" by (auto simp: image_iff intro!: bexI [of _ d])
  qed
  have "map (swept m now r snaps) (map ?f docs) = map (swept m now r (snap # snaps)) docs"
  proof (subst map_map, rule map_cong [OF refl])
    fix d assume d: "d \<in> set docs"
    show "(swept m now r snaps \<circ> ?f) d = swept m now r (snap # snaps) d"
    proof (cases "rd_id d = rd_id snap")
      case True
      then have eq: "d = snap" using same d by blast
      have "sweep_change m now (r snap) (rd_attempts snap) snap \<notin> set snaps"
        using Cons.prems(2) by (auto simp: image_iff)
      with eq Cons.prems(4) show ?thesis by (simp add: swept_def)
    next
      case False
      then show ?thesis by (auto simp: swept_def)
    qed
  qed
  moreover have "distinct (map rd_id (map ?f docs))" using Cons.prems(1) ids by metis
  ultimately show ?case
    using Cons.IH [of "map ?f docs"] Cons.prems sub by (simp add: one)
qed

lemma sweep_map:
  fixes docs :: runs and limit :: nat and now :: time
  assumes "distinct (map rd_id docs)"
  defines "snaps \<equiv> take limit (sort_key lease_until (filter (stalled now) docs))"
  shows "sweep m limit now r docs = (map (swept m now r snaps) docs,
     length (filter (\<lambda>d. rd_attempts d < m) snaps), length (filter (\<lambda>d. m \<le> rd_attempts d) snaps))"
proof -
  have "distinct (map rd_id (sort_key lease_until (filter (stalled now) docs)))"
    using assms(1) by (simp add: distinct_map inj_on_def)
  then have "distinct (map rd_id snaps)" by (simp add: snaps_def take_map [symmetric])
  moreover have "set snaps \<subseteq> set docs" "\<forall>d \<in> set snaps. stalled now d"
    by (auto simp: snaps_def dest: in_set_takeD)
  ultimately show ?thesis
    using sweep_all_map [OF assms(1), of snaps now m r 0 0] by (simp add: sweep_def snaps_def [symmetric])
qed

subsection \<open>Finished runs\<close>

definition settled :: "run_doc \<Rightarrow> bool" where
  "settled d \<longleftrightarrow> rd_status d \<in> {Succeeded, Failed, Expired} \<and> rd_lease d = None"

text \<open>No write touches the status, the error or the finish time of a settled run.\<close>

lemma settled_untouched:
  assumes "d \<in> set docs" "settled d" "\<And>d. P d \<Longrightarrow> \<not> settled d"
  shows "d \<in> set (update_first P f docs)"
  using assms by (induction docs) auto

lemma not_settled:
  "holds r t d \<Longrightarrow> \<not> settled d"
  "rd_status d \<in> {Waiting_approval, Waiting_input, Waiting_tool, Queued} \<Longrightarrow> \<not> settled d"
  "stalled now d \<Longrightarrow> \<not> settled d"
  "rd_status d \<notin> {Succeeded, Failed, Cancelled, Expired} \<Longrightarrow> \<not> settled d"
  "claimable now wss d \<Longrightarrow> \<not> settled d"
  by (auto simp: settled_def holds_def stalled_def claimable_def)

lemma db_step_settled:
  "db_step s s' \<Longrightarrow> system_ok s \<Longrightarrow> settled d \<Longrightarrow> d \<in> set (qs_runs s) \<Longrightarrow> d \<in> set (qs_runs s')"
proof (induction rule: db_step.induct)
  case (step_create newId s ws now inp seen)
  then show ?case
    using create_cases [of newId ws now inp seen "qs_runs s"] by auto
next
  case (step_claim pick_one token s owner ms wss now)
  show ?case
  proof (cases rule: claim_cases [OF step_claim(1), of owner ms wss token now "qs_runs s"])
    case 1
    then show ?thesis using step_claim by (simp add: with_runs_def)
  next
    case (2 c)
    then have "rd_id d \<noteq> rd_id c"
      using step_claim(3-5) not_settled(5)
      by (metis (no_types, lifting) distinct_map inj_onD runs_ok_def system_ok_def)
    moreover have "e \<in> set (update_first (\<lambda>x. rd_id x = rd_id c) f docs)"
      if "e \<in> set docs" "rd_id e \<noteq> rd_id c" for e f docs
      using that by (induction docs) auto
    ultimately show ?thesis using 2 step_claim by (simp add: with_runs_def)
  qed
next
  case (step_append s ws r t body)
  then show ?case
    by (auto simp: appendStep_def Let_def split: option.splits
        intro!: settled_untouched dest: not_settled(1))
qed (auto simp: appendEvent_def createApproval_def markAnnounced_def decideApproval_def pendingApprovals_def Let_def
    settled_def holds_def stalled_def intro!: settled_untouched)

subsection \<open>Creation and approvals\<close>

lemma find_by_key_Some:
  "find_by_key ws k docs = Some d \<Longrightarrow> d \<in> set docs \<and> rd_workspaceId d = ws \<and> rd_idempotencyKey d = Some k"
  unfolding find_by_key_def by (drule find_Some_in) simp

lemma key_taken_find: "key_taken ws (Some k) docs \<longleftrightarrow> find_by_key ws k docs \<noteq> None"
  unfolding key_taken_def find_by_key_def find_None_all list_ex_iff by blast

text \<open>A concrete choice that follows the sort.\<close>

fun best_of :: "runs \<Rightarrow> run_doc option" where
  "best_of [] = None"
| "best_of (d # ds) =
     (case best_of ds of None \<Rightarrow> Some d | Some e \<Rightarrow> if claim_order d e then Some d else Some e)"

lemma best_of_best: "ds \<noteq> [] \<Longrightarrow> \<exists>d \<in> set ds. best_of ds = Some d \<and> (\<forall>e \<in> set ds. claim_order d e)"
proof (induction ds)
  case (Cons d ds)
  show ?case
  proof (cases "ds = []")
    case True
    then show ?thesis by (simp add: claim_order_def)
  next
    case False
    with Cons.IH obtain b where b: "b \<in> set ds" "best_of ds = Some b" "\<forall>e \<in> set ds. claim_order b e" by blast
    show ?thesis
    proof (cases "claim_order d b")
      case True
      with b have "\<forall>e \<in> set ds. claim_order d e" by (fastforce simp: claim_order_def)
      with True b show ?thesis by (simp add: claim_order_def)
    next
      case False
      with b show ?thesis by (auto simp: claim_order_def)
    qed
  qed
qed simp

lemma best_of_sort_pick: "sort_pick best_of"
  unfolding sort_pick_def using best_of_best by auto

definition sample_request :: "string option \<Rightarrow> create_run_input" where
  "sample_request key = \<lparr>cri_conversationId = ''c1'', cri_agentId = ''a1'', cri_agentVersionId = ''v1'',
     cri_agentSnapshot = JNull, cri_modelBindingId = ''m1'', cri_trigger = (''user'', None),
     cri_principal = User ''u1'' ''w1'' Member, cri_budget = DEFAULT_BUDGET, cri_idempotencyKey = key,
     cri_parentRunId = None, cri_depth = None, cri_priority = None\<rparr>"

definition sample_run :: run_doc where
  "sample_run = new_run ''r1'' ''w1'' 0 (sample_request (Some ''k1''))"

definition sample_system :: queue_system where
  "sample_system = \<lparr>qs_db = \<lparr>db_runs = [sample_run], db_steps = [], db_events = [], db_approvals = []\<rparr>,
     qs_issued = {''lse_1''}\<rparr>"

subsection \<open>Properties\<close>



text \<open>
  C20. A stolen lease is harmless: once an issued token is no longer the lease of any run (it was
  released, swept or replaced), then however the system continues, every write an executor makes with
  it, a heartbeat, a release, a spend record or a step, changes nothing and all but the spend record
  report the loss.
\<close>

theorem stolen_lease_harmless:
  assumes "t \<in> qs_issued s" "\<forall>d \<in> set (qs_runs s). \<forall>l. rd_lease d = Some l \<longrightarrow> l_token l \<noteq> t"
    and "db_step\<^sup>*\<^sup>* s s'"
  shows "heartbeat r t ms now (qs_runs s') = (Inl (Lease_lost r), qs_runs s') \<and>
    release r t intent now (qs_runs s') = (Inl (Lease_lost r), qs_runs s') \<and>
    recordConsumption ws r t delta u (qs_runs s') = qs_runs s' \<and>
    appendStep ws r t body (qs_db s') = (Inl (Lease_not_held r), qs_db s')"
proof -
  have "dead_token t s" using assms(1,2) by (auto simp: dead_token_def dead_in_def token_of_def)
  with assms(3) have "dead_in t (qs_runs s')" using db_steps_dead_token dead_token_def by blast
  from dead_token_writes [OF this] show ?thesis by blast
qed

theorem stolen_lease_harmless_witness:
  "heartbeat ''r1'' ''lse_1'' 1000 5 (qs_runs sample_system) = (Inl (Lease_lost ''r1''), qs_runs sample_system)"
  using stolen_lease_harmless [of "''lse_1''" sample_system sample_system "''r1''" 1000 5]
  by (simp add: sample_system_def sample_run_def new_run_def)

text \<open>
  C24. Claiming is exclusive and follows the queue order: a claim hands out a queued, due run that no
  other claimable run precedes, marks it running under the new token and leaves all other runs alone;
  a claim that comes right after it, by whomever and whenever, hands out a different run; and a claim
  comes back empty only if nothing was claimable.
\<close>

theorem claim_exclusive:
  assumes pick: "sort_pick pick_one" and dist: "distinct (map rd_id docs)"
  shows "case claim pick_one owner ms wss token now docs of
      (None, docs') \<Rightarrow> docs' = docs \<and> (\<forall>d \<in> set docs. \<not> claimable now wss d)
    | (Some c, docs') \<Rightarrow> \<exists>d \<in> set docs. claimable now wss d \<and> cl_run c = claim_change owner now ms token d \<and>
        (\<forall>e \<in> set docs. claimable now wss e \<longrightarrow> claim_order d e) \<and>
        set docs' = insert (cl_run c) {e \<in> set docs. rd_id e \<noteq> rd_id d} \<and>
        (\<forall>pick' owner' ms' wss' token' now' c' docs''. sort_pick pick' \<longrightarrow>
           claim pick' owner' ms' wss' token' now' docs' = (Some c', docs'') \<longrightarrow>
           rd_id (cl_run c') \<noteq> rd_id (cl_run c))"
proof (cases rule: claim_cases [OF pick, of owner ms wss token now docs])
  case 1
  then show ?thesis by (auto simp: filter_empty_conv)
next
  case (2 d)
  let ?c = "claim_change owner now ms token d"
  let ?docs = "update_first (\<lambda>e. rd_id e = rd_id d) (claim_change owner now ms token) docs"
  note mem = in_update_first_id [OF dist 2(1), of "claim_change owner now ms token", OF claim_change_simps(1)]
  have "rd_id (cl_run c') \<noteq> rd_id ?c"
    if "sort_pick pick'" "claim pick' owner' ms' wss' token' now' ?docs = (Some c', docs'')"
    for pick' owner' ms' wss' token' now' c' docs''
  proof (cases rule: claim_cases [OF that(1), of owner' ms' wss' token' now' ?docs])
    case 1
    with that(2) show ?thesis by simp
  next
    case (2 e)
    then have "e \<noteq> ?c" by (auto simp: claimable_def)
    with 2(1) mem have "rd_id e \<noteq> rd_id d" by blast
    with 2(4) that(2) show ?thesis by auto
  qed
  with 2 mem show ?thesis by auto
qed

theorem claim_exclusive_witness:
  "\<exists>c docs'. claim best_of ''exec'' 1000 None ''lse_2'' 5 [sample_run] = (Some c, docs') \<and>
     rd_status (cl_run c) = Running"
proof -
  have "claimable 5 None sample_run"
    by (simp add: sample_run_def sample_request_def new_run_def claimable_def)
  with claim_exclusive [where pick_one = best_of and docs = "[sample_run]" and owner = "''exec''" and
      ms = 1000 and wss = None and token = "''lse_2''" and now = 5, OF best_of_sort_pick]
  show ?thesis by (auto split: option.splits prod.splits)
qed

text \<open>
  C33. A sweep that is given enough room leaves no stalled run behind: every run whose lease had lapsed is
  queued again within the next minute, or failed if it had used up its attempts, without a lease in
  either case; every other run is left exactly as it was; and the two counts it reports are right.
\<close>

theorem sweep_complete:
  fixes docs :: runs
  assumes "distinct (map rd_id docs)" "length (filter (stalled now) docs) \<le> limit"
    and "\<forall>d. 0 \<le> rnd d \<and> rnd d < 1" "sweep m limit now rnd docs = (docs', requeued, failed)"
  shows "list_all2 (\<lambda>d d'. rd_id d' = rd_id d \<and>
      (if stalled now d then rd_lease d' = None \<and>
         (if m \<le> rd_attempts d then rd_status d' = Failed
          else rd_status d' = Queued \<and> now \<le> rd_scheduledFor d' \<and> rd_scheduledFor d' < now + 60000)
       else d' = d)) docs docs' \<and>
    requeued + failed = length (filter (stalled now) docs) \<and>
    failed = length (filter (\<lambda>d. stalled now d \<and> m \<le> rd_attempts d) docs)"
proof -
  let ?all = "sort_key lease_until (filter (stalled now) docs)"
  have snaps: "take limit ?all = ?all" using assms(2) by simp
  have out: "docs' = map (swept m now rnd ?all) docs" "requeued = length (filter (\<lambda>d. rd_attempts d < m) ?all)"
    "failed = length (filter (\<lambda>d. m \<le> rd_attempts d) ?all)"
    using assms(4) sweep_map [OF assms(1), of m limit now rnd] by (simp_all add: snaps)
  have count: "length (filter P ?all) = length (filter (\<lambda>d. stalled now d \<and> P d) docs)" for P
    by (metis filter_filter mset_filter mset_sort size_mset)
  have bo: "0 \<le> backoffMs a 1000 60000 (rnd d) \<and> backoffMs a 1000 60000 (rnd d) < 60000" for a d
    using backoff_bounds [of "rnd d" 1000 60000 a] assms(3) by simp
  have "list_all2 (\<lambda>d d'. rd_id d' = rd_id d \<and>
      (if stalled now d then rd_lease d' = None \<and>
         (if m \<le> rd_attempts d then rd_status d' = Failed
          else rd_status d' = Queued \<and> now \<le> rd_scheduledFor d' \<and> rd_scheduledFor d' < now + 60000)
       else d' = d)) docs docs'"
    unfolding out list_all2_map2 using bo
    by (auto simp: list_all2_same swept_def sweep_change_def)
  moreover have "requeued + failed = length ?all"
    using sum_length_filter_compl [of "\<lambda>d. rd_attempts d < m" ?all] by (simp add: out not_less)
  ultimately show ?thesis by (simp add: count out)
qed

theorem sweep_complete_witness:
  "snd (snd (sweep 5 50 7 (\<lambda>_. 0) [sample_run])) =
     length (filter (\<lambda>d. stalled 7 d \<and> 5 \<le> rd_attempts d) [sample_run])"
  using sweep_complete [of "[sample_run]" 7 50 "\<lambda>_. 0" 5 "fst (sweep 5 50 7 (\<lambda>_. 0) [sample_run])"
      "fst (snd (sweep 5 50 7 (\<lambda>_. 0) [sample_run]))" "snd (snd (sweep 5 50 7 (\<lambda>_. 0) [sample_run]))"]
  by (simp add: stalled_def sample_run_def new_run_def)

text \<open>
  A run that succeeded, failed or expired stays as it is: no write of the queue or the repository,
  by anyone, ever changes its document again.
\<close>

theorem finished_runs_final:
  assumes "reach empty_system db_step s" "db_step\<^sup>*\<^sup>* s s'" "d \<in> set (qs_runs s)"
    and "rd_status d \<in> {Succeeded, Failed, Expired}"
  shows "d \<in> set (qs_runs s')"
proof -
  have "lease_ok d" using queue.inv_reach [OF assms(1)] assms(3) by (auto simp: system_ok_def runs_ok_def)
  with assms(4) have settled: "settled d" by (auto simp: settled_def lease_ok_def)
  from assms(2) show ?thesis
  proof (induction rule: rtranclp_induct)
    case (step y z)
    have "system_ok y" using queue.inv_reach queue.reach_steps step(1) assms(1) by blast
    with db_step_settled [OF step(2)] settled step(3) show ?case by blast
  qed (rule assms(3))
qed

definition finished_sample :: run_doc where
  "finished_sample = release_change (Finish Succeeded None) 9 (claim_change ''exec'' 5 1000 ''lse_1'' sample_run)"

lemma create_first: "create ''r1'' ''w1'' 0 (sample_request (Some ''k1'')) [] [] = (Inr sample_run, [sample_run])"
  unfolding sample_run_def
  by (simp add: create_def find_by_key_def key_taken_def Let_def sample_request_def)

lemma finished_sample_reached:
  "reach empty_system db_step (with_runs [finished_sample] sample_system)"
proof -
  let ?empty = "\<lparr>qs_db = \<lparr>db_runs = [], db_steps = [], db_events = [], db_approvals = []\<rparr>, qs_issued = {}\<rparr>"
  have 0: "reach empty_system db_step ?empty" by (rule reach_init) (simp add: empty_system_def)
  have 1: "db_step ?empty (with_runs [sample_run] ?empty)"
    using step_create [of "''r1''" ?empty "''w1''" 0 "sample_request (Some ''k1'')" "[]"]
    by (simp add: create_first)
  have "claimable 5 None sample_run"
    by (simp add: sample_run_def sample_request_def new_run_def claimable_def)
  then have 2: "db_step (with_runs [sample_run] ?empty)
      (with_runs [claim_change ''exec'' 5 1000 ''lse_1'' sample_run] sample_system)"
    using step_claim [OF best_of_sort_pick, of "''lse_1''" "with_runs [sample_run] ?empty" "''exec''" 1000 None 5]
    by (simp add: claim_def with_runs_def sample_system_def)
  have held: "holds ''r1'' ''lse_1'' (claim_change ''exec'' 5 1000 ''lse_1'' sample_run)"
    by (simp add: holds_def claim_change_def sample_run_def new_run_def)
  have 3: "db_step (with_runs [claim_change ''exec'' 5 1000 ''lse_1'' sample_run] sample_system)
      (with_runs [finished_sample] sample_system)"
    using step_release [of "Finish Succeeded None"
        "with_runs [claim_change ''exec'' 5 1000 ''lse_1'' sample_run] sample_system" "''r1''" "''lse_1''" 9]
    by (simp add: held isTerminal_def TERMINAL_STATUSES_def finished_sample_def with_runs_def)
  from reach_step [of empty_system db_step, OF 0 1] reach_step [of empty_system db_step, OF _ 2]
    reach_step [of empty_system db_step, OF _ 3] show ?thesis by blast
qed

theorem finished_runs_final_witness:
  "finished_sample \<in> set (qs_runs (with_runs (fst (cancel ''w1'' ''r1'' 11 [finished_sample])) sample_system))"
proof -
  have "db_step (with_runs [finished_sample] sample_system)
      (with_runs (fst (cancel ''w1'' ''r1'' 11 [finished_sample])) sample_system)"
    using step_cancel [of "with_runs [finished_sample] sample_system" "''w1''" "''r1''" 11]
    by (simp add: with_runs_def)
  moreover have "rd_status finished_sample = Succeeded" by (simp add: finished_sample_def)
  ultimately show ?thesis
    using finished_runs_final [OF finished_sample_reached, of _ finished_sample] by auto
qed

text \<open>
  A cancelled run is not final: cancelling leaves the lease in place, so the executor that still holds
  it can afterwards report success, or queue the run again, and the cancellation is overwritten.
\<close>

theorem cancelled_run_resurrected:
  assumes "holds r t d" "rd_workspaceId d = ws" "rd_status d = Running"
  shows "\<exists>d1 d2 d3. cancel ws r now [d] = ([d1], True) \<and> rd_status d1 = Cancelled \<and>
    release r t (Finish Succeeded None) now' [d1] = (Inr (), [d2]) \<and> rd_status d2 = Succeeded \<and>
    release r t (Requeue tm None) now' [d1] = (Inr (), [d3]) \<and> rd_status d3 = Queued"
  using assms by (auto simp: cancel_def release_def update_one_def cancel_change_def holds_def)

theorem cancelled_run_resurrected_witness:
  "\<exists>d1 d2. cancel ''w1'' ''r1'' 9 [claim_change ''exec'' 5 1000 ''lse_1'' sample_run] = ([d1], True) \<and>
     rd_status d1 = Cancelled \<and>
     release ''r1'' ''lse_1'' (Finish Succeeded None) 10 [d1] = (Inr (), [d2]) \<and> rd_status d2 = Succeeded"
proof -
  have "holds ''r1'' ''lse_1'' (claim_change ''exec'' 5 1000 ''lse_1'' sample_run)"
    "rd_workspaceId (claim_change ''exec'' 5 1000 ''lse_1'' sample_run) = ''w1''"
    by (simp_all add: holds_def sample_run_def claim_change_def new_run_def)
  from cancelled_run_resurrected [OF this, of 9 10 11] show ?thesis by auto
qed

text \<open>
  Creation is idempotent: with an idempotency key, however the look-up and the insertion of two
  submissions interleave, the workspace never holds two runs with that key and a submission whose key
  is taken gets the existing run; without a key, the second submission of a workspace is refused by the
  unique index.
\<close>

theorem create_idempotent:
  "(\<forall>k. cri_idempotencyKey inp = Some k \<longrightarrow> set seen \<subseteq> set docs \<longrightarrow>
      (\<exists>d. fst (create i ws now inp seen docs) = Inr d \<and> rd_workspaceId d = ws \<and> rd_idempotencyKey d = Some k \<and>
         d \<in> set (snd (create i ws now inp seen docs))) \<and>
      (key_taken ws (Some k) docs \<longrightarrow> snd (create i ws now inp seen docs) = docs)) \<and>
   (cri_idempotencyKey inp = None \<longrightarrow> key_taken ws None docs \<longrightarrow>
      create i ws now inp seen docs = (Inl Duplicate_key, docs))"
proof (intro conjI allI impI)
  fix k assume k: "cri_idempotencyKey inp = Some k" and sub: "set seen \<subseteq> set docs"
  have "key_taken ws (Some k) docs" if "find_by_key ws k seen = Some d" for d
    using find_by_key_Some [OF that] sub by (auto simp: key_taken_def list_ex_iff)
  with k show "key_taken ws (Some k) docs \<Longrightarrow> snd (create i ws now inp seen docs) = docs"
    by (auto simp: create_def key_taken_find split: option.splits)
  from k sub show "\<exists>d. fst (create i ws now inp seen docs) = Inr d \<and> rd_workspaceId d = ws \<and>
      rd_idempotencyKey d = Some k \<and> d \<in> set (snd (create i ws now inp seen docs))"
    by (auto simp: create_def key_taken_find Let_def split: option.splits dest!: find_by_key_Some)
qed (auto simp: create_def Let_def)

theorem create_idempotent_witness:
  "create ''r2'' ''w1'' 9 (sample_request None) [] [sample_run\<lparr>rd_idempotencyKey := None\<rparr>] =
     (Inl Duplicate_key, [sample_run\<lparr>rd_idempotencyKey := None\<rparr>])"
  using create_idempotent [of "sample_request None" "[]" "[sample_run\<lparr>rd_idempotencyKey := None\<rparr>]" "''r2''" "''w1''" 9]
  by (simp add: sample_request_def key_taken_def sample_run_def new_run_def)

end
