(* ===== verification/Approvals.thy ===== *)
theory Approvals
  imports Run_Invariants
begin

text \<open>
  The approvals of the run repository (\<^verbatim>\<open>packages/db/src/repositories/runs.ts\<close>): what a decision
  and the list of open questions promise. The operations are in \<open>Run_Queue\<close>.
\<close>

subsection \<open>Decisions\<close>

lemma update_first_mem:
  assumes "x \<in> set xs" "\<not> P x"
  shows "x \<in> set (update_first P f xs)"
  using assms by (induction xs) auto

lemma decide_keeps_decided:
  assumes "a \<in> set (db_approvals db)" "ap_decision a \<noteq> None"
  shows "a \<in> set (db_approvals (fst (decideApproval ws i dec by_whom resp now db)))"
  using assms by (auto simp: decideApproval_def undecided_def intro!: update_first_mem)

lemma close_stale_keeps_decided:
  assumes "a \<in> set as" "ap_decision a \<noteq> None"
  shows "a \<in> set (close_stale ws now stale as)"
  using assms(1)
proof (induction stale arbitrary: as)
  case (Cons b stale)
  have "a \<in> set (update_first (undecided ws (ap_id b)) (decide_change Deny_it (stale_reason now b) None now) as)"
    using Cons.prems assms(2) by (intro update_first_mem) (auto simp: undecided_def)
  from Cons.IH [OF this] show ?case by (simp add: close_stale_def)
qed (simp add: close_stale_def)

lemma distinct_decide [simp]:
  "map ap_id (update_first P (decide_change dec by_whom resp now) as) = map ap_id as"
  by (induction as) (auto simp: decide_change_def)

lemma close_stale_ids [simp]: "map ap_id (close_stale ws now stale as) = map ap_id as"
  unfolding close_stale_def by (induction stale arbitrary: as) simp_all

lemma set_update_first_undecided:
  assumes "distinct (map ap_id as)"
  shows "set (update_first (undecided ws i) f as) = (\<lambda>a. if undecided ws i a then f a else a) ` set as"
  using assms
proof (induction as)
  case (Cons a as)
  show ?case
  proof (cases "undecided ws i a")
    case True
    then have "b \<in> set as \<Longrightarrow> \<not> undecided ws i b" for b
      using Cons.prems by (auto simp: undecided_def image_iff)
    then have "(\<lambda>a. if undecided ws i a then f a else a) ` set as = set as" by (auto simp: image_iff)
    then show ?thesis using True by simp
  next
    case False
    then show ?thesis using Cons by simp
  qed
qed simp

lemma list_ex_update_first_undecided:
  assumes "distinct (map ap_id as)"
  shows "\<not> list_ex (undecided ws i) (update_first (undecided ws i) (decide_change dec by_whom resp now) as)"
proof -
  have "\<not> undecided ws i (decide_change dec by_whom resp now a)" for a
    by (simp add: undecided_def decide_change_def)
  then show ?thesis by (auto simp: list_ex_iff set_update_first_undecided [OF assms])
qed

definition stale_change :: "id \<Rightarrow> time \<Rightarrow> approval_doc list \<Rightarrow> approval_doc \<Rightarrow> approval_doc" where
  "stale_change ws now stale a =
     (if a \<in> set stale then decide_change Deny_it (stale_reason now a) None now a else a)"

lemma close_stale_set:
  assumes "distinct (map ap_id as)" "distinct (map ap_id stale)" "set stale \<subseteq> set as"
    and "\<forall>a \<in> set stale. undecided ws (ap_id a) a"
  shows "set (close_stale ws now stale as) = stale_change ws now stale ` set as"
  using assms
proof (induction stale arbitrary: as)
  case (Cons a stale)
  let ?f = "decide_change Deny_it (stale_reason now a) None now"
  let ?as = "update_first (undecided ws (ap_id a)) ?f as"
  have eq: "undecided ws (ap_id a) b \<longleftrightarrow> b = a" if "b \<in> set as" for b
    using that Cons.prems by (auto simp: undecided_def distinct_map inj_on_def)
  have set_as: "set ?as = (\<lambda>b. if b = a then ?f b else b) ` set as"
    using set_update_first_undecided [OF Cons.prems(1), of ws "ap_id a" ?f] eq by (auto simp: image_iff)
  have "a \<notin> set stale" using Cons.prems(2) by (auto simp: image_iff)
  then have "set stale \<subseteq> set ?as" using Cons.prems(3) set_as by auto
  then have "set (close_stale ws now stale ?as) = stale_change ws now stale ` set ?as"
    using Cons by (intro Cons.IH) auto
  moreover have "?f a \<notin> set stale"
    using Cons.prems(4) by (auto simp: undecided_def decide_change_def)
  ultimately show ?case
    using \<open>a \<notin> set stale\<close> unfolding set_as
    by (auto simp: close_stale_def stale_change_def image_image image_iff split: if_splits)
qed (simp add: close_stale_def stale_change_def)

subsection \<open>Properties\<close>

text \<open>
  A question is decided once: the first decision on an open approval is recorded and reported, every
  later decision on it, by whomever, is reported as refused and changes nothing, and neither a later
  decision nor closing stale questions ever changes an approval that has been decided.
\<close>

theorem approval_decided_once:
  assumes "distinct (map ap_id (db_approvals db))" "a \<in> set (db_approvals db)" "ap_workspaceId a = ws"
    and "ap_decision a = None"
    and "decideApproval ws (ap_id a) dec by_whom resp now db = (db1, ok)"
  shows "ok \<and> decide_change dec by_whom resp now a \<in> set (db_approvals db1) \<and>
    decideApproval ws (ap_id a) dec' by_whom' resp' now' db1 = (db1, False) \<and>
    (\<forall>b \<in> set (db_approvals db1). ap_decision b \<noteq> None \<longrightarrow>
       b \<in> set (db_approvals (snd (pendingApprovals ws' n now' db1))) \<and>
       b \<in> set (db_approvals (fst (decideApproval ws' i dec' by_whom' resp' now' db1))))"
proof -
  have db1: "db_approvals db1 = update_first (undecided ws (ap_id a)) (decide_change dec by_whom resp now) (db_approvals db)"
    and ok: "ok = list_ex (undecided ws (ap_id a)) (db_approvals db)"
    using assms(5) by (auto simp: decideApproval_def)
  have "undecided ws (ap_id a) a" using assms(3,4) by (simp add: undecided_def)
  then have "ok" "decide_change dec by_whom resp now a \<in> set (db_approvals db1)"
    using assms(1,2) ok db1 by (auto simp: list_ex_iff set_update_first_undecided)
  moreover have none: "\<not> list_ex (undecided ws (ap_id a)) (db_approvals db1)"
    unfolding db1 by (rule list_ex_update_first_undecided [OF assms(1)])
  then have "decideApproval ws (ap_id a) dec' by_whom' resp' now' db1 = (db1, False)"
    using none by (simp add: decideApproval_def update_first_id list_ex_iff)
  ultimately show ?thesis
    by (auto intro: decide_keeps_decided simp: pendingApprovals_def Let_def intro!: close_stale_keeps_decided)
qed

definition sample_approval :: approval_doc where
  "sample_approval = \<lparr>ap_id = ''p1'', ap_workspaceId = ''w1'', ap_runId = ''r1'', ap_kind = ''tool_permission'',
     ap_payload = JNull, ap_requestedAt = 1, ap_expiresAt = 100, ap_decision = None, ap_decidedBy = None,
     ap_decidedAt = None, ap_response = None, ap_announced = None\<rparr>"

definition sample_approvals :: run_db where
  "sample_approvals = \<lparr>db_runs = [], db_steps = [], db_events = [], db_approvals = [sample_approval]\<rparr>"

theorem approval_decided_once_witness:
  "snd (decideApproval ''w1'' ''p1'' Approve ''u2'' None 6
     (fst (decideApproval ''w1'' ''p1'' Deny_it ''u1'' None 5 sample_approvals))) = False"
  using approval_decided_once [of sample_approvals sample_approval "''w1''" Deny_it "''u1''" None 5
      "fst (decideApproval ''w1'' ''p1'' Deny_it ''u1'' None 5 sample_approvals)"
      "snd (decideApproval ''w1'' ''p1'' Deny_it ''u1'' None 5 sample_approvals)" Approve "''u2''" None 6]
  by (simp add: sample_approvals_def sample_approval_def)

text \<open>
  The list of open questions holds only questions that can still be answered, and reading it closes the
  rest: what is listed is undecided, not expired, of this workspace and asked by a run of the workspace that
  waits; and if the workspace has at most twice the page size of open questions, afterwards every question of
  the workspace that is still open is such a question, and the others were closed as denied, with the reason.
\<close>

theorem pending_approvals_answerable:
  assumes "distinct (map ap_id (db_approvals db))" "pendingApprovals ws n now db = (shown, db')"
  shows "length shown \<le> n \<and> db_runs db' = db_runs db \<and>
    (\<forall>a \<in> set shown. a \<in> set (db_approvals db') \<and> ap_workspaceId a = ws \<and> ap_decision a = None \<and>
       now < ap_expiresAt a \<and> run_waiting ws (db_runs db) (ap_runId a)) \<and>
    (length (filter (\<lambda>a. ap_workspaceId a = ws \<and> ap_decision a = None) (db_approvals db)) \<le> 2 * n \<longrightarrow>
       (\<forall>a \<in> set (db_approvals db). ap_workspaceId a = ws \<longrightarrow> ap_decision a = None \<longrightarrow>
          (if now < ap_expiresAt a \<and> run_waiting ws (db_runs db) (ap_runId a) then a
           else decide_change Deny_it (if ap_expiresAt a \<le> now then ''system:expired'' else ''system:run_moved_on'')
                  None now a) \<in> set (db_approvals db')) \<and>
       (\<forall>a \<in> set (db_approvals db'). ap_workspaceId a = ws \<longrightarrow> ap_decision a = None \<longrightarrow>
          now < ap_expiresAt a \<and> run_waiting ws (db_runs db) (ap_runId a)))"
proof -
  let ?P = "\<lambda>a. ap_workspaceId a = ws \<and> ap_decision a = None"
  let ?sorted = "sort_key (\<lambda>a. - ap_requestedAt a) (filter ?P (db_approvals db))"
  define asked where "asked = take (n * 2) ?sorted"
  let ?live = "approval_live ws (db_runs db) now"
  define stale where "stale = filter (\<lambda>a. \<not> ?live a) asked"
  have shown: "shown = take n (filter ?live asked)"
    and db': "db' = db\<lparr>db_approvals := close_stale ws now stale (db_approvals db)\<rparr>"
    using assms(2) by (auto simp: pendingApprovals_def Let_def asked_def stale_def)
  have asked: "a \<in> set (db_approvals db) \<and> ?P a" if "a \<in> set asked" for a
    using that in_set_takeD [of a "n * 2" ?sorted] by (auto simp: asked_def)
  have "distinct (map ap_id ?sorted)"
    using assms(1) by (auto simp: distinct_map inj_on_def)
  then have "distinct (map ap_id asked)" unfolding asked_def take_map [symmetric] by (rule distinct_take)
  then have dist: "distinct (map ap_id stale)" unfolding stale_def by (rule distinct_map_filter)
  have closed: "set (db_approvals db') = stale_change ws now stale ` set (db_approvals db)"
    using close_stale_set [OF assms(1) dist] asked by (auto simp: db' stale_def undecided_def)
  have kept: "a \<in> set (db_approvals db')" if "a \<in> set asked" "?live a" for a
    using that asked [OF that(1)] unfolding closed by (force simp: stale_change_def stale_def)
  have all: "set asked = {a \<in> set (db_approvals db). ?P a}" if "length (filter ?P (db_approvals db)) \<le> 2 * n"
    using that by (auto simp: asked_def)
  have listed: "a \<in> set asked \<and> ?live a" if "a \<in> set shown" for a
    using in_set_takeD [of a n "filter ?live asked"] that by (simp add: shown)
  have closes: "(if ?live a then a else decide_change Deny_it (stale_reason now a) None now a) \<in> set (db_approvals db')"
    if "length (filter ?P (db_approvals db)) \<le> 2 * n" "a \<in> set (db_approvals db)" "?P a" for a
    using that all unfolding closed by (intro rev_image_eqI [of a]) (auto simp: stale_change_def stale_def)
  have rest: "?live a" if "length (filter ?P (db_approvals db)) \<le> 2 * n" "a \<in> set (db_approvals db')" "?P a" for a
  proof -
    from that(2) obtain b where b: "b \<in> set (db_approvals db)" "a = stale_change ws now stale b"
      unfolding closed by blast
    have "b \<notin> set stale" using b(2) that(3) by (auto simp: stale_change_def decide_change_def)
    moreover from this have "a = b" using b(2) by (simp add: stale_change_def)
    ultimately show ?thesis using that(1,3) b(1) all by (simp add: stale_def)
  qed
  have live: "?live a \<longleftrightarrow> now < ap_expiresAt a \<and> run_waiting ws (db_runs db) (ap_runId a)" for a
    by (auto simp: approval_live_def)
  have "length shown \<le> n" "db_runs db' = db_runs db" by (simp_all add: shown db')
  then show ?thesis
    using listed kept asked closes rest unfolding live stale_reason_def by blast
qed

theorem pending_approvals_answerable_witness:
  "\<exists>a \<in> set (db_approvals (snd (pendingApprovals ''w1'' 50 7 sample_approvals))).
     ap_decidedBy a = Some ''system:run_moved_on''"
proof -
  have "sample_approval \<in> set (db_approvals sample_approvals)" by (simp add: sample_approvals_def)
  then show ?thesis
    using pending_approvals_answerable [of sample_approvals "''w1''" 50 7
        "fst (pendingApprovals ''w1'' 50 7 sample_approvals)" "snd (pendingApprovals ''w1'' 50 7 sample_approvals)"]
    by (force simp: sample_approvals_def sample_approval_def run_waiting_def decide_change_def)
qed

end
