(* ===== verification/Context.thy ===== *)
theory Context
  imports Conversation
begin

text \<open>
  Prompt assembly (\<^verbatim>\<open>packages/runtime/src/context-assembler.ts\<close>).

  \<open>assemblePrompt\<close> orders the directives and tools, drops superseded messages, keeps only
  the current model's artifacts, answers orphaned tool calls and places cache
  breakpoints. The lemmas show that no tool call is left unanswered before the last
  message and that appending to a conversation only ever extends the assembled prompt.
\<close>

subsection \<open>Ordering\<close>

definition DIRECTIVE_RANK :: "directive_kind \<Rightarrow> nat" where
  "DIRECTIVE_RANK k =
     (case k of Identity \<Rightarrow> 0 | Policy \<Rightarrow> 1 | Safety \<Rightarrow> 2 | Memory \<Rightarrow> 3 | Retrieval \<Rightarrow> 4)"

definition orderDirectives :: "system_directive list \<Rightarrow> system_directive list" where
  "orderDirectives ds = sort_key (\<lambda>d. DIRECTIVE_RANK (sd_kind d)) ds"

definition orderTools :: "tool_declaration list \<Rightarrow> tool_declaration list" where
  "orderTools tools = sort_key td_name tools"

text \<open>White space as \<^verbatim>\<open>String.prototype.trim\<close> has it, within the code units of the model.\<close>

definition is_space :: "char \<Rightarrow> bool" where
  "is_space c \<longleftrightarrow> 9 \<le> code c \<and> code c \<le> 13 \<or> code c = 32 \<or> code c = 160"

definition trim :: "string \<Rightarrow> string" where
  "trim s = rev (dropWhile is_space (rev (dropWhile is_space s)))"

subsection \<open>Messages for the wire\<close>

definition toCanonical :: "message \<Rightarrow> provider_key \<Rightarrow> canonical_message \<times> bool" where
  "toCanonical m current =
     (let artifact = artifactsForModel (msg_artifacts m) current;
          hadArtifacts = (case msg_artifacts m of None \<Rightarrow> False | Some a \<Rightarrow> a \<noteq> [])
      in (\<lparr>cm_role = msg_role m, cm_content = msg_content m,
           cm_artifacts = map_option (\<lambda>a. [(current, a)]) artifact\<rparr>,
          hadArtifacts \<and> artifact = None))"

definition UNANSWERED_TOOL_CALL :: string where
  "UNANSWERED_TOOL_CALL =
     ''This call was not completed: the run ended before it could run. Call it again if the result still matters.''"

definition asked_ids :: "canonical_message \<Rightarrow> string list" where
  "asked_ids m = map tu_id (toolUseBlocks (cm_content m))"

definition given_ids :: "canonical_message \<Rightarrow> string set" where
  "given_ids m = set (map tr_toolUseId (filter is_tool_result (cm_content m)))"

definition missing_ids :: "canonical_message \<Rightarrow> canonical_message \<Rightarrow> string list" where
  "missing_ids m next =
     (if cm_role m \<noteq> Role_assistant then []
      else filter (\<lambda>i. i \<notin> given_ids next) (asked_ids m))"

definition orphan_results :: "string list \<Rightarrow> content_block list" where
  "orphan_results missing =
     map (\<lambda>i. toolResultBlock i [textBlock UNANSWERED_TOOL_CALL] None (Some True)) missing"

text \<open>
  The loop runs over adjacent pairs. A result message that is spliced in becomes
  the next message the loop looks at; it is not an assistant message, so it is skipped.
\<close>

function answerOrphanedToolCalls :: "canonical_message list \<Rightarrow> canonical_message list \<times> nat" where
  "answerOrphanedToolCalls [] = ([], 0)"
| "answerOrphanedToolCalls [m] = ([m], 0)"
| "answerOrphanedToolCalls (m # next # rest) =
     (let missing = missing_ids m next in
      if missing = [] then
        (let (ms, n) = answerOrphanedToolCalls (next # rest) in (m # ms, n))
      else if cm_role next = Role_tool then
        (let (ms, n) = answerOrphanedToolCalls
               (next\<lparr>cm_content := cm_content next @ orphan_results missing\<rparr> # rest)
         in (m # ms, length missing + n))
      else
        (let (ms, n) = answerOrphanedToolCalls
               (\<lparr>cm_role = Role_tool, cm_content = orphan_results missing, cm_artifacts = None\<rparr> # next # rest)
         in (m # ms, length missing + n)))"
  by pat_completeness auto
termination
  by (relation "measure (\<lambda>ms. 2 * length ms +
        (case ms of [] \<Rightarrow> 0 | m # _ \<Rightarrow> if cm_role m = Role_assistant then 1 else 0))")
     (auto simp: missing_ids_def split: if_splits)

subsection \<open>Breakpoints\<close>

definition CACHE_ANCHOR_STRIDE :: int where "CACHE_ANCHOR_STRIDE = 8"

definition breakpointsFor :: "nat \<Rightarrow> model_capabilities \<Rightarrow> int list" where
  "breakpointsFor messageCount caps =
     (if \<not> mc_cacheSupported caps then []
      else if mc_cacheStrategy caps \<noteq> Explicit_breakpoints then []
      else (let stableThrough = int messageCount - 3 in
        if stableThrough < 0 then []
        else (let max = (case mc_maxBreakpoints caps of Some n \<Rightarrow> n | None \<Rightarrow> 1) in
          if max \<le> 1 then [stableThrough]
          else (let anchor = (stableThrough + 1) div CACHE_ANCHOR_STRIDE * CACHE_ANCHOR_STRIDE - 1 in
            if anchor \<ge> 0 \<and> anchor < stableThrough then [anchor, stableThrough]
            else [stableThrough]))))"

subsection \<open>Requests\<close>

record run_metadata =
  md_runId :: id
  md_workspaceId :: id
  md_agentId :: id

record generation_request =
  gr_system :: "system_directive list"
  gr_messages :: "canonical_message list"
  gr_tools :: "tool_declaration list"
  gr_toolChoice :: jsv
  gr_maxOutputTokens :: int
  gr_reasoning :: "jsv option"
  gr_breakpointsAfter :: "int list option"
  gr_structuredOutput :: "jsv option"
  gr_stopSequences :: "string list option"
  gr_metadata :: run_metadata

record assemble_input =
  ai_metadata :: run_metadata
  ai_providerKey :: provider_key
  ai_capabilities :: model_capabilities
  ai_directives :: "system_directive list"
  ai_messages :: "message list"
  ai_tools :: "tool_declaration list"
  ai_maxOutputTokens :: int
  ai_toolChoice :: "jsv option"
  ai_structuredOutput :: "jsv option"
  ai_stopSequences :: "string list option"
  ai_reasoning :: "jsv option"

record assembled_prompt =
  ap_request :: generation_request
  ap_prefixFingerprint :: string
  ap_prefixFingerprints :: "string list"
  ap_droppedArtifacts :: nat

text \<open>The objects the fingerprint digests, as JavaScript values.\<close>

definition opt_member :: "string \<Rightarrow> jsv option \<Rightarrow> (string \<times> jsv) list" where
  "opt_member k v = (case v of None \<Rightarrow> [] | Some x \<Rightarrow> [(k, x)])"

fun block_json :: "content_block \<Rightarrow> jsv" where
  "block_json (Text t) = JObj [(''type'', JStr ''text''), (''text'', JStr t)]"
| "block_json (Image key mime) =
     JObj [(''type'', JStr ''image''), (''blobKey'', JStr key), (''mime'', JStr mime)]"
| "block_json (Document key mime title) =
     JObj ([(''type'', JStr ''document''), (''blobKey'', JStr key), (''mime'', JStr mime)] @
       opt_member ''title'' (map_option JStr title))"
| "block_json (Tool_use i n inp) =
     JObj [(''type'', JStr ''tool_use''), (''id'', JStr i), (''name'', JStr n), (''input'', inp)]"
| "block_json (Tool_result i content st err) =
     JObj ([(''type'', JStr ''tool_result''), (''toolUseId'', JStr i),
       (''content'', JArr (map block_json content))] @ opt_member ''structured'' st @
       [(''isError'', JBool err)])"
| "block_json (Reasoning summary red) =
     JObj ([(''type'', JStr ''reasoning'')] @ opt_member ''summary'' (map_option JStr summary) @
       [(''redacted'', JBool red)])"
| "block_json (Blob_ref key bytes mime) =
     JObj [(''type'', JStr ''blob_ref''), (''key'', JStr key), (''bytes'', JNum bytes), (''mime'', JStr mime)]"

definition role_name :: "message_role \<Rightarrow> string" where
  "role_name r = (case r of Role_user \<Rightarrow> ''user'' | Role_assistant \<Rightarrow> ''assistant''
     | Role_tool \<Rightarrow> ''tool'' | Role_system \<Rightarrow> ''system'')"

definition message_json :: "canonical_message \<Rightarrow> jsv" where
  "message_json m = JObj ([(''role'', JStr (role_name (cm_role m))),
     (''content'', JArr (map block_json (cm_content m)))] @
     opt_member ''providerArtifacts'' (map_option JObj (cm_artifacts m)))"

definition kind_name :: "directive_kind \<Rightarrow> string" where
  "kind_name k = (case k of Identity \<Rightarrow> ''identity'' | Policy \<Rightarrow> ''policy'' | Safety \<Rightarrow> ''safety''
     | Memory \<Rightarrow> ''memory'' | Retrieval \<Rightarrow> ''retrieval'')"

definition directives_json :: "system_directive list \<Rightarrow> jsv" where
  "directives_json ds = JArr (map (\<lambda>d. JObj [(''kind'', JStr (kind_name (sd_kind d))),
     (''text'', JStr (sd_text d))]) ds)"

definition tools_json :: "tool_declaration list \<Rightarrow> jsv" where
  "tools_json ts = JArr (map (\<lambda>t. JObj ([(''name'', JStr (td_name t)),
     (''description'', JStr (td_description t)), (''inputSchema'', td_inputSchema t)] @
     opt_member ''outputSchema'' (td_outputSchema t) @ opt_member ''annotations'' (td_annotations t))) ts)"

definition messages_json :: "canonical_message list \<Rightarrow> jsv" where
  "messages_json ms = JArr (map message_json ms)"

definition prefix_json :: "generation_request \<Rightarrow> canonical_message list \<Rightarrow> jsv" where
  "prefix_json req ms = JObj [(''system'', directives_json (gr_system req)),
     (''tools'', tools_json (gr_tools req)), (''toolChoice'', gr_toolChoice req),
     (''messages'', messages_json ms)]"

definition prefixFingerprintOf :: "generation_request \<Rightarrow> int \<Rightarrow> string" where
  "prefixFingerprintOf req through =
     fingerprint (prefix_json req (take (nat (through + 1)) (gr_messages req)))"

subsection \<open>Assembly\<close>

definition live_messages :: "message list \<Rightarrow> message list" where
  "live_messages ms = sort_key msg_seq (filter (\<lambda>m. msg_supersededBy m = None) ms)"

definition wire_messages :: "message list \<Rightarrow> provider_key \<Rightarrow> canonical_message list" where
  "wire_messages ms current =
     fst (answerOrphanedToolCalls (map (\<lambda>m. fst (toCanonical m current)) (live_messages ms)))"

definition assembled_request :: "assemble_input \<Rightarrow> generation_request" where
  "assembled_request inp =
     (let messages = wire_messages (ai_messages inp) (ai_providerKey inp);
          breakpointsAfter = breakpointsFor (length messages) (ai_capabilities inp)
      in \<lparr>gr_system = filter (\<lambda>d. trim (sd_text d) \<noteq> []) (orderDirectives (ai_directives inp)),
          gr_messages = messages,
          gr_tools = orderTools (ai_tools inp),
          gr_toolChoice = (case ai_toolChoice inp of Some c \<Rightarrow> c | None \<Rightarrow> JStr ''auto''),
          gr_maxOutputTokens = ai_maxOutputTokens inp,
          gr_reasoning = ai_reasoning inp,
          gr_breakpointsAfter = (if breakpointsAfter = [] then None else Some breakpointsAfter),
          gr_structuredOutput = ai_structuredOutput inp,
          gr_stopSequences = ai_stopSequences inp,
          gr_metadata = ai_metadata inp\<rparr>)"

definition assemblePrompt :: "assemble_input \<Rightarrow> assembled_prompt" where
  "assemblePrompt inp =
     (let request = assembled_request inp;
          fps = map (prefixFingerprintOf request)
                  (case gr_breakpointsAfter request of None \<Rightarrow> [] | Some bs \<Rightarrow> bs)
      in \<lparr>ap_request = request,
          ap_prefixFingerprint = (case fps of f # _ \<Rightarrow> f | [] \<Rightarrow> fingerprint (prefix_json request [])),
          ap_prefixFingerprints = fps,
          ap_droppedArtifacts = length (filter (\<lambda>m. snd (toCanonical m (ai_providerKey inp)))
            (live_messages (ai_messages inp)))\<rparr>)"

definition cachedPrefixOf :: "assembled_prompt \<Rightarrow> canonical_message list option" where
  "cachedPrefixOf p =
     (case Option.bind (gr_breakpointsAfter (ap_request p)) last_opt of
        None \<Rightarrow> None
      | Some through \<Rightarrow> Some (take (nat (through + 1)) (gr_messages (ap_request p))))"

definition prefixIsPreserved :: "assembled_prompt \<Rightarrow> assembled_prompt \<Rightarrow> bool" where
  "prefixIsPreserved before after =
     (case cachedPrefixOf before of
        None \<Rightarrow> True
      | Some cached \<Rightarrow>
          if canonicalJson (directives_json (gr_system (ap_request before))) \<noteq>
             canonicalJson (directives_json (gr_system (ap_request after))) then False
          else if canonicalJson (tools_json (gr_tools (ap_request before))) \<noteq>
             canonicalJson (tools_json (gr_tools (ap_request after))) then False
          else if length (gr_messages (ap_request after)) < length cached then False
          else canonicalJson (messages_json cached) =
             canonicalJson (messages_json (take (length cached) (gr_messages (ap_request after)))))"

subsection \<open>Every earlier tool call is answered\<close>

fun all_answered :: "canonical_message list \<Rightarrow> bool" where
  "all_answered (m # next # rest) \<longleftrightarrow>
     (cm_role m = Role_assistant \<longrightarrow> set (asked_ids m) \<subseteq> given_ids next) \<and> all_answered (next # rest)"
| "all_answered ms \<longleftrightarrow> True"

lemma missing_ids_Nil:
  "missing_ids m next = [] \<longleftrightarrow> (cm_role m = Role_assistant \<longrightarrow> set (asked_ids m) \<subseteq> given_ids next)"
  by (auto simp: missing_ids_def filter_empty_conv)

lemma given_ids_orphan [simp]:
  "given_ids (m\<lparr>cm_content := c @ orphan_results missing\<rparr>) =
     given_ids (m\<lparr>cm_content := c\<rparr>) \<union> set missing"
  by (force simp: given_ids_def orphan_results_def toolResultBlock_def)

lemma given_ids_new [simp]:
  "given_ids \<lparr>cm_role = r, cm_content = orphan_results missing, cm_artifacts = a\<rparr> = set missing"
  by (force simp: given_ids_def orphan_results_def toolResultBlock_def)

declare answerOrphanedToolCalls.simps(3) [simp del]

text \<open>The three branches of the loop body.\<close>

definition extended_results :: "string list \<Rightarrow> canonical_message \<Rightarrow> canonical_message" where
  "extended_results missing m = m\<lparr>cm_content := cm_content m @ orphan_results missing\<rparr>"

definition spliced_results :: "string list \<Rightarrow> canonical_message" where
  "spliced_results missing = \<lparr>cm_role = Role_tool, cm_content = orphan_results missing, cm_artifacts = None\<rparr>"

lemma orphans_skip:
  "missing_ids m nxt = [] \<Longrightarrow>
   fst (answerOrphanedToolCalls (m # nxt # rest)) = m # fst (answerOrphanedToolCalls (nxt # rest))"
  by (subst answerOrphanedToolCalls.simps(3)) (simp add: case_prod_beta)

lemma orphans_extend:
  "missing_ids m nxt \<noteq> [] \<Longrightarrow> cm_role nxt = Role_tool \<Longrightarrow>
   fst (answerOrphanedToolCalls (m # nxt # rest)) =
     m # fst (answerOrphanedToolCalls (extended_results (missing_ids m nxt) nxt # rest))"
  by (subst answerOrphanedToolCalls.simps(3)) (simp add: Let_def case_prod_beta extended_results_def)

lemma orphans_splice:
  "missing_ids m nxt \<noteq> [] \<Longrightarrow> cm_role nxt \<noteq> Role_tool \<Longrightarrow>
   fst (answerOrphanedToolCalls (m # nxt # rest)) =
     m # fst (answerOrphanedToolCalls (spliced_results (missing_ids m nxt) # nxt # rest))"
  by (subst answerOrphanedToolCalls.simps(3)) (simp add: Let_def case_prod_beta spliced_results_def)

lemma extended_results_simps [simp]:
  "cm_role (extended_results miss m) = cm_role m"
  "given_ids (extended_results miss m) = given_ids m \<union> set miss"
  by (simp_all add: extended_results_def)

lemma spliced_results_simps [simp]:
  "cm_role (spliced_results miss) = Role_tool"
  "given_ids (spliced_results miss) = set miss"
  by (simp_all add: spliced_results_def)

lemma orphans_cases [case_names skip extend splice]:
  obtains "missing_ids m nxt = []"
  | "missing_ids m nxt \<noteq> []" "cm_role nxt = Role_tool"
  | "missing_ids m nxt \<noteq> []" "cm_role nxt \<noteq> Role_tool"
  by blast

text \<open>The induction that follows the branches.\<close>

lemma orphans_induct [case_names Nil single skip extend splice]:
  assumes "P []" "\<And>m. P [m]"
    and skip: "\<And>m nxt rest. missing_ids m nxt = [] \<Longrightarrow> P (nxt # rest) \<Longrightarrow> P (m # nxt # rest)"
    and extend: "\<And>m nxt rest. missing_ids m nxt \<noteq> [] \<Longrightarrow> cm_role nxt = Role_tool \<Longrightarrow>
      P (extended_results (missing_ids m nxt) nxt # rest) \<Longrightarrow> P (m # nxt # rest)"
    and splice: "\<And>m nxt rest. missing_ids m nxt \<noteq> [] \<Longrightarrow> cm_role nxt \<noteq> Role_tool \<Longrightarrow>
      P (spliced_results (missing_ids m nxt) # nxt # rest) \<Longrightarrow> P (m # nxt # rest)"
  shows "P ms"
proof (induction ms rule: answerOrphanedToolCalls.induct)
  case (3 m nxt rest)
  show ?case
  proof (cases rule: orphans_cases [of m nxt])
    case sk: skip
    show ?thesis by (rule skip [OF sk]) (use 3(1) sk in simp)
  next
    case ex: extend
    show ?thesis by (rule extend [OF ex]) (use 3(2) ex in \<open>simp add: extended_results_def\<close>)
  next
    case sp: splice
    show ?thesis by (rule splice [OF sp]) (use 3(3) sp in \<open>simp add: spliced_results_def\<close>)
  qed
qed (use assms in simp_all)

lemma orphan_hd: "\<exists>t. fst (answerOrphanedToolCalls (m # ms)) = m # t"
proof (cases ms)
  case (Cons n r)
  then show ?thesis
    by (cases rule: orphans_cases [of m n]) (simp_all add: orphans_skip orphans_extend orphans_splice)
qed simp

text \<open>Tool results are carried by tool messages only, as the runtime writes them.\<close>

definition results_in_tool_messages :: "canonical_message list \<Rightarrow> bool" where
  "results_in_tool_messages ms \<longleftrightarrow> (\<forall>m \<in> set ms. cm_role m \<noteq> Role_tool \<longrightarrow> given_ids m = {})"

lemma all_answered_Cons:
  assumes "\<exists>t. ms = x # t" "all_answered ms"
    and "cm_role m = Role_assistant \<longrightarrow> set (asked_ids m) \<subseteq> given_ids x"
  shows "all_answered (m # ms)"
  using assms by auto

lemma answerOrphaned_all:
  "results_in_tool_messages ms \<Longrightarrow> all_answered (fst (answerOrphanedToolCalls ms))"
proof (induction ms rule: orphans_induct)
  case (skip m nxt rest)
  then show ?case
    by (simp add: orphans_skip results_in_tool_messages_def)
       (rule all_answered_Cons [OF orphan_hd], auto simp: missing_ids_Nil)
next
  case (extend m nxt rest)
  moreover have "set (asked_ids m) \<subseteq> given_ids nxt \<union> set (missing_ids m nxt)"
    using extend(1) by (auto simp: missing_ids_def split: if_splits)
  ultimately show ?case
    by (simp add: orphans_extend results_in_tool_messages_def)
       (rule all_answered_Cons [OF orphan_hd], auto)
next
  case (splice m nxt rest)
  moreover have "set (asked_ids m) \<subseteq> set (missing_ids m nxt)"
    using splice(1,2,4) by (auto simp: missing_ids_def results_in_tool_messages_def split: if_splits)
  ultimately show ?case
    by (simp add: orphans_splice results_in_tool_messages_def)
       (rule all_answered_Cons [OF orphan_hd], auto)
qed simp_all

lemma answerOrphaned_id: "all_answered ms \<Longrightarrow> fst (answerOrphanedToolCalls ms) = ms"
proof (induction ms rule: all_answered.induct)
  case (1 m nxt rest)
  then have "missing_ids m nxt = []" by (simp add: missing_ids_Nil)
  with 1 show ?case by (simp add: orphans_skip)
qed simp_all

subsection \<open>Appending extends the prompt\<close>

lemma answerOrphaned_append:
  "\<exists>t. fst (answerOrphanedToolCalls (ms @ extra)) = fst (answerOrphanedToolCalls ms) @ t"
proof (induction ms rule: orphans_induct)
  case (single m)
  show ?case using orphan_hd [of m extra] by auto
qed (simp_all add: orphans_skip orphans_extend orphans_splice)

lemma sort_key_append_later:
  assumes "\<And>x y. x \<in> set xs \<Longrightarrow> y \<in> set ys \<Longrightarrow> f x < f y"
  shows "sort_key f (xs @ ys) = sort_key f xs @ sort_key f ys"
proof (rule properties_for_sort_key)
  fix k assume "k \<in> set (sort_key f xs @ sort_key f ys)"
  then show "filter (\<lambda>x. f k = f x) (sort_key f xs @ sort_key f ys) = filter (\<lambda>x. f k = f x) (xs @ ys)"
    using sort_key_stable [of f "f k" xs] sort_key_stable [of f "f k" ys]
    by (simp add: eq_commute [of "f k"])
next
  show "sorted (map f (sort_key f xs @ sort_key f ys))"
    using assms by (force simp: sorted_append intro: less_imp_le)
qed simp

lemma live_messages_append:
  assumes "\<And>x y. x \<in> set ms \<Longrightarrow> y \<in> set later \<Longrightarrow> msg_seq x < msg_seq y"
  shows "live_messages (ms @ later) = live_messages ms @ live_messages later"
  unfolding live_messages_def filter_append
  by (rule sort_key_append_later) (auto intro: assms)

lemma wire_messages_append:
  assumes "\<And>x y. x \<in> set ms \<Longrightarrow> y \<in> set later \<Longrightarrow> msg_seq x < msg_seq y"
  shows "\<exists>t. wire_messages (ms @ later) key = wire_messages ms key @ t"
  using answerOrphaned_append by (simp add: wire_messages_def live_messages_append [OF assms])

lemma orderTools_mset:
  "mset tools = mset tools' \<Longrightarrow> distinct (map td_name tools) \<Longrightarrow> orderTools tools = orderTools tools'"
  unfolding orderTools_def by (rule sort_key_mset_eq)

lemma breakpointsFor_bound:
  "b \<in> set (breakpointsFor n caps) \<Longrightarrow> 0 \<le> b \<and> b + 3 \<le> int n"
  by (auto simp: breakpointsFor_def Let_def split: if_splits)

lemma cachedPrefixOf_prefix:
  "cachedPrefixOf (assemblePrompt inp) = Some cached \<Longrightarrow>
     \<exists>t. gr_messages (assembled_request inp) = cached @ t"
  by (auto simp: cachedPrefixOf_def assemblePrompt_def Let_def split: option.splits)
     (metis append_take_drop_id)

lemma assembled_request_simps [simp]:
  "gr_messages (assembled_request inp) = wire_messages (ai_messages inp) (ai_providerKey inp)"
  "gr_tools (assembled_request inp) = orderTools (ai_tools inp)"
  "gr_system (assembled_request inp) =
     filter (\<lambda>d. trim (sd_text d) \<noteq> []) (orderDirectives (ai_directives inp))"
  by (simp_all add: assembled_request_def Let_def)

lemma ap_request_assemble [simp]: "ap_request (assemblePrompt inp) = assembled_request inp"
  by (simp add: assemblePrompt_def Let_def)

lemma prefixIsPreserved_extension:
  assumes "gr_system (ap_request q) = gr_system (ap_request p)"
    and "gr_tools (ap_request q) = gr_tools (ap_request p)"
    and "\<And>cached. cachedPrefixOf p = Some cached \<Longrightarrow> \<exists>t. gr_messages (ap_request q) = cached @ t"
  shows "prefixIsPreserved p q"
  using assms by (auto simp: prefixIsPreserved_def split: option.splits)

subsection \<open>Properties\<close>

text \<open>
  C32. No orphaned tool call reaches a provider: in an assembled history every tool call of a message
  other than the last is answered by the very next message, the history already in that shape
  is left untouched, and nothing that was in the prompt before an append is rewritten by it.
\<close>

theorem orphaned_calls_answered:
  assumes "results_in_tool_messages ms"
  shows "all_answered (fst (answerOrphanedToolCalls ms)) \<and>
    (all_answered ms \<longrightarrow> fst (answerOrphanedToolCalls ms) = ms) \<and>
    (\<exists>t. fst (answerOrphanedToolCalls (ms @ extra)) = fst (answerOrphanedToolCalls ms) @ t)"
  using answerOrphaned_all [OF assms] answerOrphaned_id answerOrphaned_append by blast

theorem orphaned_calls_answered_witness:
  "all_answered (fst (answerOrphanedToolCalls
     [\<lparr>cm_role = Role_assistant, cm_content = [Tool_use ''t1'' ''mail__send'' JNull], cm_artifacts = None\<rparr>,
      \<lparr>cm_role = Role_user, cm_content = [Text ''hello''], cm_artifacts = None\<rparr>]))"
  using orphaned_calls_answered
    [of "[\<lparr>cm_role = Role_assistant, cm_content = [Tool_use ''t1'' ''mail__send'' JNull], cm_artifacts = None\<rparr>,
      \<lparr>cm_role = Role_user, cm_content = [Text ''hello''], cm_artifacts = None\<rparr>]" "[]"]
  by (simp add: results_in_tool_messages_def given_ids_def)

text \<open>
  The cached prefix is extended, never mutated: appending later messages to the conversation and
  discovering the same tools in another order gives a prompt whose messages extend the earlier
  ones and against which the earlier cached prefix is still valid.
\<close>

theorem prompt_prefix_stable:
  assumes later: "\<forall>x \<in> set (ai_messages inp). \<forall>y \<in> set later. msg_seq x < msg_seq y"
    and tools: "mset tools = mset (ai_tools inp)" "distinct (map td_name tools)"
  defines "inp' \<equiv> inp\<lparr>ai_messages := ai_messages inp @ later, ai_tools := tools\<rparr>"
  shows "prefixIsPreserved (assemblePrompt inp) (assemblePrompt inp') \<and>
    (\<exists>t. gr_messages (ap_request (assemblePrompt inp')) =
       gr_messages (ap_request (assemblePrompt inp)) @ t)"
proof -
  obtain t where t: "wire_messages (ai_messages inp @ later) (ai_providerKey inp) =
      wire_messages (ai_messages inp) (ai_providerKey inp) @ t"
    using wire_messages_append [of "ai_messages inp" later] later by blast
  have "orderTools tools = orderTools (ai_tools inp)"
    using tools by (rule orderTools_mset)
  moreover have "\<exists>u. gr_messages (assembled_request inp') = cached @ u"
    if "cachedPrefixOf (assemblePrompt inp) = Some cached" for cached
    using cachedPrefixOf_prefix [OF that] t by (auto simp: inp'_def)
  ultimately show ?thesis
    using t by (auto simp: inp'_def intro!: prefixIsPreserved_extension)
qed

definition sample_caps :: model_capabilities where
  "sample_caps = \<lparr>mc_maxInputTokens = 1000, mc_maxOutputTokens = 100, mc_toolsSupported = True,
     mc_parallelCalls = True, mc_maxTools = None, mc_namePattern = ''^[a-zA-Z0-9_]+$'',
     mc_maxNameLength = 64, mc_cacheSupported = True, mc_cacheStrategy = Explicit_breakpoints,
     mc_maxBreakpoints = None\<rparr>"

definition sample_message :: "int \<Rightarrow> message" where
  "sample_message n = \<lparr>msg_id = ''m'' @ show_int n, msg_seq = n, msg_role = Role_user,
     msg_content = [Text ''hi''], msg_artifacts = None, msg_runId = None, msg_tokenEstimate = None,
     msg_createdAt = 0, msg_supersededBy = None\<rparr>"

definition sample_assembly :: "message list \<Rightarrow> assemble_input" where
  "sample_assembly ms = \<lparr>ai_metadata = \<lparr>md_runId = ''r'', md_workspaceId = ''w'', md_agentId = ''a''\<rparr>,
     ai_providerKey = ''p:m'', ai_capabilities = sample_caps, ai_directives = [], ai_messages = ms,
     ai_tools = [], ai_maxOutputTokens = 100, ai_toolChoice = None, ai_structuredOutput = None,
     ai_stopSequences = None, ai_reasoning = None\<rparr>"

theorem prompt_prefix_stable_witness:
  "prefixIsPreserved (assemblePrompt (sample_assembly [sample_message 1, sample_message 2, sample_message 3]))
     (assemblePrompt ((sample_assembly [sample_message 1, sample_message 2, sample_message 3])
        \<lparr>ai_messages := [sample_message 1, sample_message 2, sample_message 3] @ [sample_message 4], ai_tools := []\<rparr>))"
  using prompt_prefix_stable
    [of "sample_assembly [sample_message 1, sample_message 2, sample_message 3]" "[sample_message 4]" "[]"]
  by (auto simp: sample_assembly_def sample_message_def)

end
