(* ===== verification/Compaction.thy ===== *)
theory Compaction
  imports Context
begin

text \<open>
  Compaction (\<^verbatim>\<open>packages/runtime/src/compaction.ts\<close>): when the live history exceeds a share of
  the model's window, an older part is replaced by a summary. The lemmas show that
  the plan partitions the live history at a place that separates no tool call from
  its results, keeps the most recent messages, and that the downward search for a
  boundary ends.
\<close>

record compaction_policy =
  cp_threshold :: "rat option"
  cp_target :: "rat option"
  cp_keepRecent :: "nat option"

definition DEFAULT_COMPACTION_THRESHOLD :: rat where "DEFAULT_COMPACTION_THRESHOLD = 7 / 10"
definition DEFAULT_COMPACTION_TARGET :: rat where "DEFAULT_COMPACTION_TARGET = 4 / 10"
definition DEFAULT_KEEP_RECENT :: nat where "DEFAULT_KEEP_RECENT = 6"

record compaction_plan =
  plan_needed :: bool
  plan_toSummarise :: "message list"
  plan_toKeep :: "message list"
  plan_before :: int
  plan_after :: int

definition message_tokens :: "message \<Rightarrow> int" where
  "message_tokens m =
     (case msg_tokenEstimate m of Some n \<Rightarrow> n | None \<Rightarrow> estimateTokens (msg_content m))"

definition tokensOf :: "message list \<Rightarrow> int" where
  "tokensOf ms = foldl (\<lambda>acc m. acc + message_tokens m) 0 ms"

definition isLegalBoundary :: "message list \<Rightarrow> nat \<Rightarrow> bool" where
  "isLegalBoundary ms index =
     (if index = 0 \<or> index \<ge> length ms then True
      else if toolUseBlocks (msg_content (ms ! (index - 1))) = [] then True
      else msg_role (ms ! index) \<noteq> Role_tool \<and> \<not> list_ex is_tool_result (msg_content (ms ! index)))"

fun legalBoundaryAtOrBefore :: "message list \<Rightarrow> nat \<Rightarrow> nat" where
  "legalBoundaryAtOrBefore ms 0 = 0"
| "legalBoundaryAtOrBefore ms (Suc i) =
     (if isLegalBoundary ms (Suc i) then Suc i else legalBoundaryAtOrBefore ms i)"

text \<open>
  The backward loop over the live history. \<open>keep_back target keepRecent i kept ct\<close> looks at
  index \<open>i - 1\<close>; \<open>n\<close> is the number of live messages.
\<close>

fun keep_back :: "message list \<Rightarrow> rat \<Rightarrow> nat \<Rightarrow> nat \<Rightarrow> int \<Rightarrow> nat \<Rightarrow> nat" where
  "keep_back live targetTokens keepRecent 0 kept ct = ct"
| "keep_back live targetTokens keepRecent (Suc i) kept ct =
     (let size = message_tokens (live ! i);
          recentEnough = (length live - i \<le> keepRecent)
      in if \<not> recentEnough \<and> of_int (kept + size) > targetTokens then ct
         else keep_back live targetTokens keepRecent i (kept + size) i)"

definition live_of :: "message list \<Rightarrow> message list" where
  "live_of ms = filter (\<lambda>m. msg_supersededBy m = None) ms"

definition plan_cut :: "message list \<Rightarrow> model_capabilities \<Rightarrow> rat \<Rightarrow> nat \<Rightarrow> nat" where
  "plan_cut live caps target keepRecent =
     (let targetTokens = of_int (mc_maxInputTokens caps) * target;
          ct = keep_back live targetTokens keepRecent (length live) 0 (length live)
      in legalBoundaryAtOrBefore live ct)"

definition planCompaction ::
  "message list \<Rightarrow> model_capabilities \<Rightarrow> compaction_policy \<Rightarrow> compaction_plan" where
  "planCompaction ms caps policy =
     (let threshold = (case cp_threshold policy of Some r \<Rightarrow> r | None \<Rightarrow> DEFAULT_COMPACTION_THRESHOLD);
          target = (case cp_target policy of Some r \<Rightarrow> r | None \<Rightarrow> DEFAULT_COMPACTION_TARGET);
          keepRecent = (case cp_keepRecent policy of Some n \<Rightarrow> n | None \<Rightarrow> DEFAULT_KEEP_RECENT);
          live = live_of ms;
          before = tokensOf live;
          limit = of_int (mc_maxInputTokens caps) * threshold
      in if of_int before \<le> limit then
           \<lparr>plan_needed = False, plan_toSummarise = [], plan_toKeep = live,
            plan_before = before, plan_after = before\<rparr>
         else
           (let ct = plan_cut live caps target keepRecent
            in if ct = 0 then
                 \<lparr>plan_needed = False, plan_toSummarise = [], plan_toKeep = live,
                  plan_before = before, plan_after = before\<rparr>
               else
                 \<lparr>plan_needed = True, plan_toSummarise = take ct live, plan_toKeep = drop ct live,
                  plan_before = before, plan_after = tokensOf (drop ct live)\<rparr>))"

record compaction_result =
  cr_summary :: "content_block list"
  cr_supersededIds :: "id list"
  cr_before :: int
  cr_after :: int

datatype compact_error = Nothing_to_compact

definition SUMMARY_PREFIX :: "nat \<Rightarrow> string" where
  "SUMMARY_PREFIX n = ''[Summary of '' @ show_nat n @ '' earlier messages in this conversation. '' @
     ''This is a compressed account, not a verbatim transcript.]'' @ newline @ newline"

text \<open>The summariser is a model call and an argument.\<close>

definition compact ::
  "compaction_plan \<Rightarrow> (canonical_message list \<Rightarrow> string) \<Rightarrow> compact_error + compaction_result" where
  "compact plan summarise =
     (if \<not> plan_needed plan then Inl Nothing_to_compact
      else
        (let text = summarise (map (\<lambda>m. \<lparr>cm_role = msg_role m, cm_content = msg_content m,
               cm_artifacts = None\<rparr>) (plan_toSummarise plan))
         in Inr \<lparr>cr_summary = [Text (SUMMARY_PREFIX (length (plan_toSummarise plan)) @ text)],
              cr_supersededIds = map msg_id (plan_toSummarise plan),
              cr_before = plan_before plan, cr_after = plan_after plan\<rparr>))"

text \<open>\<^verbatim>\<open>text.replace(/\s+/g, ' ')\<close>.\<close>

fun collapse_spaces :: "string \<Rightarrow> string" where
  "collapse_spaces [] = []"
| "collapse_spaces (c # s) =
     (if is_space c then
        (case s of d # _ \<Rightarrow> if is_space d then collapse_spaces s else CHR '' '' # collapse_spaces s
         | [] \<Rightarrow> '' '')
      else c # collapse_spaces s)"

text \<open>The ellipsis character, in UTF-8.\<close>

definition ellipsis :: string where
  "ellipsis = [CHR 0xE2, CHR 0x80, CHR 0xA6]"

definition fallbackSummary :: "message list \<Rightarrow> string" where
  "fallbackSummary ms = join_with newline (map (\<lambda>m.
     (let text = trim (collapse_spaces (messageText (msg_content m)))
      in role_name (msg_role m) @ '': '' @
         (if length text > 200 then take 200 text @ ellipsis else text))) ms)"

subsection \<open>Lemmas\<close>

lemma tokensOf_sum: "tokensOf ms = sum_list (map message_tokens ms)"
proof -
  have "foldl (\<lambda>acc m. acc + message_tokens m) a ms = a + sum_list (map message_tokens ms)" for a
    by (induction ms arbitrary: a) auto
  then show ?thesis by (simp add: tokensOf_def)
qed

lemma tokensOf_append: "tokensOf (a @ b) = tokensOf a + tokensOf b"
  by (simp add: tokensOf_sum)

lemma legalBoundary_legal:
  "legalBoundaryAtOrBefore ms i \<le> i \<and> isLegalBoundary ms (legalBoundaryAtOrBefore ms i)"
proof (induction i)
  case 0
  show ?case by (simp add: isLegalBoundary_def)
qed auto

lemma keep_back_cut_le: "ct = i \<Longrightarrow> keep_back live t k i kept ct \<le> i"
proof (induction live t k i kept ct rule: keep_back.induct)
  case (2 live t k i kept ct)
  show ?case
  proof (cases "\<not> length live - i \<le> k \<and> of_int (kept + message_tokens (live ! i)) > t")
    case True
    with 2(2) show ?thesis by (simp add: Let_def)
  next
    case False
    with 2(1) [OF refl refl False refl] show ?thesis by (auto simp: Let_def)
  qed
qed simp

text \<open>At least \<open>keepRecent\<close> messages (or all of them) are kept verbatim.\<close>

lemma keep_back_keeps:
  "i \<le> length live \<Longrightarrow> ct = i \<Longrightarrow> keep_back live t k i kept ct \<le> length live - min k (length live) \<or>
   i \<le> length live - min k (length live)"
proof (induction live t k i kept ct rule: keep_back.induct)
  case (2 live t k i kept ct)
  show ?case
  proof (cases "length live - i \<le> k")
    case True
    moreover have "keep_back live t k i (kept + message_tokens (live ! i)) i
        \<le> length live - min k (length live) \<or> i \<le> length live - min k (length live)"
      using 2(1) [OF refl refl] True 2(2) by auto
    moreover note keep_back_cut_le [of i i live t k "kept + message_tokens (live ! i)"]
    ultimately show ?thesis by (auto simp: Let_def)
  next
    case False
    then have "Suc i \<le> length live - min k (length live)" using 2(2) by auto
    then show ?thesis by blast
  qed
qed auto

lemma keep_back_bound:
  "keep_back live t k (length live) kept (length live) \<le> length live - min k (length live)"
  using keep_back_keeps [of "length live" live "length live" t k kept]
    keep_back_cut_le [of "length live" "length live" live t k kept] by auto

lemma plan_partition:
  "plan_toSummarise (planCompaction ms caps pol) @ plan_toKeep (planCompaction ms caps pol) = live_of ms"
  by (simp add: planCompaction_def Let_def)

lemma plan_cut_legal:
  "isLegalBoundary live (plan_cut live caps t k) \<and> plan_cut live caps t k \<le> length live - min k (length live)"
  unfolding plan_cut_def Let_def using legalBoundary_legal keep_back_bound by (meson le_trans)

text \<open>A plan either leaves the history alone or cuts it at the legal boundary found.\<close>

lemma planCompaction_cases [case_names unchanged split_at]:
  obtains "planCompaction ms caps pol = \<lparr>plan_needed = False, plan_toSummarise = [],
      plan_toKeep = live_of ms, plan_before = tokensOf (live_of ms), plan_after = tokensOf (live_of ms)\<rparr>"
  | n where "0 < n" "isLegalBoundary (live_of ms) n"
      "n \<le> length (live_of ms) - min (case cp_keepRecent pol of Some n \<Rightarrow> n | None \<Rightarrow> DEFAULT_KEEP_RECENT)
        (length (live_of ms))"
      "planCompaction ms caps pol = \<lparr>plan_needed = True, plan_toSummarise = take n (live_of ms),
        plan_toKeep = drop n (live_of ms), plan_before = tokensOf (live_of ms),
        plan_after = tokensOf (drop n (live_of ms))\<rparr>"
proof -
  let ?n = "plan_cut (live_of ms) caps
    (case cp_target pol of Some r \<Rightarrow> r | None \<Rightarrow> DEFAULT_COMPACTION_TARGET)
    (case cp_keepRecent pol of Some n \<Rightarrow> n | None \<Rightarrow> DEFAULT_KEEP_RECENT)"
  have "planCompaction ms caps pol = \<lparr>plan_needed = False, plan_toSummarise = [],
      plan_toKeep = live_of ms, plan_before = tokensOf (live_of ms), plan_after = tokensOf (live_of ms)\<rparr> \<or>
    0 < ?n \<and> planCompaction ms caps pol = \<lparr>plan_needed = True, plan_toSummarise = take ?n (live_of ms),
        plan_toKeep = drop ?n (live_of ms), plan_before = tokensOf (live_of ms),
        plan_after = tokensOf (drop ?n (live_of ms))\<rparr>"
    unfolding planCompaction_def Let_def by simp
  with that plan_cut_legal show thesis by blast
qed

lemma isLegalBoundary_separates:
  assumes "isLegalBoundary ms n" "0 < n" "n < length ms"
    and "toolUseBlocks (msg_content (last (take n ms))) \<noteq> []"
  shows "msg_role (hd (drop n ms)) \<noteq> Role_tool \<and>
    (\<forall>b \<in> set (msg_content (hd (drop n ms))). \<not> is_tool_result b)"
proof -
  have "last (take n ms) = ms ! (n - 1)"
    using assms(2,3) by (subst last_conv_nth) (auto simp: min_def)
  moreover have "hd (drop n ms) = ms ! n" using assms(3) by (rule hd_drop_conv_nth)
  ultimately show ?thesis
    using assms by (auto simp: isLegalBoundary_def list_ex_iff split: if_splits)
qed

subsection \<open>Properties\<close>



end
