(* ===== verification/Run_Store.thy ===== *)
theory Run_Store
  imports Run_Invariants Compaction
begin

text \<open>
  The runtime's state port over the repositories (\<^verbatim>\<open>apps/web/src/lib/run-store.ts\<close>) and the message
  log it appends to (\<^verbatim>\<open>packages/db/src/repositories/conversations.ts\<close>), with the daily usage
  roll-up of \<^verbatim>\<open>repositories/telemetry.ts\<close>.

  A store operation is a function of the state that returns a result or an error
  and the new state; \<open>and_then\<close> sequences two of them and stops at an error, which is
  what an \<^verbatim>\<open>await\<close> that throws does.
\<close>

subsection \<open>State\<close>

record conv_doc =
  cv_id :: id
  cv_nextSeq :: int
  cv_messageCount :: int
  cv_lastMessage :: "(message_role \<times> string \<times> time) option"
  cv_updatedAt :: time

record rollup =
  ru_usage :: usage
  ru_costUsd :: rat
  ru_runCount :: int

record world =
  w_db :: run_db
  w_convs :: "conv_doc list"
  w_messages :: "(id \<times> message) list"
  w_rollup :: rollup

record store =
  sto_workspaceId :: id
  sto_runId :: id
  sto_conversationId :: id
  sto_leaseToken :: string
  sto_leaseMs :: int
  sto_lastSaved :: run_consumption
  sto_lastUsage :: usage
  sto_eventSeq :: int

datatype store_error =
    E_lease_lost id
  | E_step_refused id
  | E_no_conversation id
  | E_duplicate_event id int

type_synonym 'a store_op = "store \<times> world \<Rightarrow> (store_error + 'a) \<times> store \<times> world"

definition and_then :: "'a store_op \<Rightarrow> ('a \<Rightarrow> 'b store_op) \<Rightarrow> 'b store_op" where
  "and_then m f s =
     (case m s of
        (Inl e, s') \<Rightarrow> (Inl e, s')
      | (Inr x, s') \<Rightarrow> f x s')"

definition give :: "'a \<Rightarrow> 'a store_op" where
  "give x s = (Inr x, s)"

definition new_store :: "id \<Rightarrow> run_doc \<Rightarrow> string \<Rightarrow> int \<Rightarrow> store" where
  "new_store ws run token leaseMs =
     \<lparr>sto_workspaceId = ws, sto_runId = rd_id run, sto_conversationId = rd_conversationId run,
      sto_leaseToken = token, sto_leaseMs = leaseMs, sto_lastSaved = rd_consumed run,
      sto_lastUsage = emptyUsage, sto_eventSeq = 0\<rparr>"

subsection \<open>The message log\<close>

definition allocateSeq :: "id \<Rightarrow> world \<Rightarrow> int option \<times> world" where
  "allocateSeq convId w =
     (case List.find (\<lambda>c. cv_id c = convId) (w_convs w) of
        None \<Rightarrow> (None, w)
      | Some before \<Rightarrow>
          (Some (cv_nextSeq before),
           w\<lparr>w_convs := update_first (\<lambda>c. cv_id c = convId) (\<lambda>c. c\<lparr>cv_nextSeq := cv_nextSeq c + 1\<rparr>) (w_convs w)\<rparr>))"

record append_message =
  am_role :: message_role
  am_content :: "content_block list"
  am_artifacts :: "provider_artifacts option"
  am_tokenEstimate :: "int option"

fun previewOf :: "content_block list \<Rightarrow> string" where
  "previewOf [] = []"
| "previewOf (Text text # content) = (if length text > 140 then take 140 text @ ellipsis else text)"
| "previewOf (block # content) = previewOf content"

definition repo_appendMessage ::
  "id \<Rightarrow> id \<Rightarrow> id option \<Rightarrow> time \<Rightarrow> append_message \<Rightarrow> world \<Rightarrow> message option \<times> world" where
  "repo_appendMessage newId convId runId now m w =
     (case allocateSeq convId w of
        (None, w') \<Rightarrow> (None, w')
      | (Some seq, w') \<Rightarrow>
          (let doc = \<lparr>msg_id = newId, msg_seq = seq, msg_role = am_role m, msg_content = am_content m,
                 msg_artifacts = am_artifacts m, msg_runId = runId, msg_tokenEstimate = am_tokenEstimate m,
                 msg_createdAt = now, msg_supersededBy = None\<rparr>
           in (Some doc, w'\<lparr>w_messages := w_messages w' @ [(convId, doc)],
                 w_convs := update_first (\<lambda>c. cv_id c = convId)
                   (\<lambda>c. c\<lparr>cv_messageCount := cv_messageCount c + 1, cv_updatedAt := now,
                      cv_lastMessage := Some (am_role m, previewOf (am_content m), now)\<rparr>) (w_convs w')\<rparr>)))"

definition recentMessages :: "id \<Rightarrow> nat \<Rightarrow> world \<Rightarrow> message list" where
  "recentMessages convId limit w =
     rev (take limit (sort_key (\<lambda>m. - msg_seq m)
       (map snd (filter (\<lambda>(c, m). c = convId \<and> msg_supersededBy m = None) (w_messages w)))))"

definition supersedeMessages :: "id \<Rightarrow> id list \<Rightarrow> id \<Rightarrow> world \<Rightarrow> world" where
  "supersedeMessages convId ids summaryId w =
     (if ids = [] then w
      else w\<lparr>w_messages := map (\<lambda>(c, m).
        if c = convId \<and> msg_id m \<in> set ids \<and> msg_supersededBy m = None
        then (c, m\<lparr>msg_supersededBy := Some summaryId\<rparr>) else (c, m)) (w_messages w)\<rparr>)"

subsection \<open>The store's operations\<close>

definition guard :: "time \<Rightarrow> unit store_op" where
  "guard now = (\<lambda>(st, w).
     (case heartbeat (sto_runId st) (sto_leaseToken st) (sto_leaseMs st) now (db_runs (w_db w)) of
        (Inl _, docs) \<Rightarrow> (Inl (E_lease_lost (sto_runId st)), st, w\<lparr>w_db := (w_db w)\<lparr>db_runs := docs\<rparr>\<rparr>)
      | (Inr _, docs) \<Rightarrow> (Inr (), st, w\<lparr>w_db := (w_db w)\<lparr>db_runs := docs\<rparr>\<rparr>)))"

definition loadMessages :: "message list store_op" where
  "loadMessages = (\<lambda>(st, w). (Inr (recentMessages (sto_conversationId st) 500 w), st, w))"

definition appendMessage :: "id \<Rightarrow> time \<Rightarrow> append_message \<Rightarrow> message store_op" where
  "appendMessage newId now m = and_then (guard now) (\<lambda>_ (st, w).
     (case repo_appendMessage newId (sto_conversationId st) (Some (sto_runId st)) now m w of
        (None, w') \<Rightarrow> (Inl (E_no_conversation (sto_conversationId st)), st, w')
      | (Some doc, w') \<Rightarrow> (Inr doc, st, w')))"

definition supersede :: "time \<Rightarrow> id list \<Rightarrow> id \<Rightarrow> unit store_op" where
  "supersede now ids by_id = and_then (guard now) (\<lambda>_ (st, w).
     (Inr (), st, supersedeMessages (sto_conversationId st) ids by_id w))"

definition store_step :: "step_body \<Rightarrow> unit store_op" where
  "store_step body = (\<lambda>(st, w).
     (case appendStep (sto_workspaceId st) (sto_runId st) (sto_leaseToken st) body (w_db w) of
        (Inl (Lease_not_held r), db) \<Rightarrow> (Inl (E_step_refused r), st, w\<lparr>w_db := db\<rparr>)
      | (Inr _, db) \<Rightarrow> (Inr (), st, w\<lparr>w_db := db\<rparr>)))"

definition subtractUsage :: "usage \<Rightarrow> usage \<Rightarrow> usage" where
  "subtractUsage current previous =
     \<lparr>u_inputTokens = u_inputTokens current - u_inputTokens previous,
      u_outputTokens = u_outputTokens current - u_outputTokens previous,
      u_cacheReadTokens = u_cacheReadTokens current - u_cacheReadTokens previous,
      u_cacheWriteTokens = u_cacheWriteTokens current - u_cacheWriteTokens previous\<rparr>"

definition consumption_diff :: "run_consumption \<Rightarrow> run_consumption \<Rightarrow> consumption_delta" where
  "consumption_diff consumed lastSaved =
     \<lparr>dl_steps = con_steps consumed - con_steps lastSaved,
      dl_toolCalls = con_toolCalls consumed - con_toolCalls lastSaved,
      dl_tokens = con_tokens consumed - con_tokens lastSaved,
      dl_costUsd = con_costUsd consumed - con_costUsd lastSaved\<rparr>"

definition usage_record :: "usage \<Rightarrow> rat \<Rightarrow> rollup \<Rightarrow> rollup" where
  "usage_record u cost r =
     r\<lparr>ru_usage := addUsage (ru_usage r) u, ru_costUsd := ru_costUsd r + cost, ru_runCount := ru_runCount r + 1\<rparr>"

definition saveConsumption :: "run_consumption \<Rightarrow> usage \<Rightarrow> unit store_op" where
  "saveConsumption consumed u = (\<lambda>(st, w).
     (let delta = consumption_diff consumed (sto_lastSaved st);
          usageDelta = subtractUsage u (sto_lastUsage st);
          docs = recordConsumption (sto_workspaceId st) (sto_runId st) (sto_leaseToken st) delta usageDelta
                   (db_runs (w_db w));
          w' = w\<lparr>w_db := (w_db w)\<lparr>db_runs := docs\<rparr>\<rparr>
      in (Inr (), st\<lparr>sto_lastSaved := consumed, sto_lastUsage := u\<rparr>,
          if dl_costUsd delta \<noteq> 0 \<or> u_inputTokens usageDelta \<noteq> 0 \<or> u_outputTokens usageDelta \<noteq> 0
          then w'\<lparr>w_rollup := usage_record usageDelta (dl_costUsd delta) (w_rollup w')\<rparr> else w')))"

text \<open>A map keyed by call id; a later step replaces an earlier one. Every stored call has its content.\<close>

definition completedToolCalls :: "(string \<times> tool_invocation_result) list store_op" where
  "completedToolCalls = (\<lambda>(st, w).
     (Inr (rev (map (\<lambda>c. (tir_id c, c))
        (concat (map (\<lambda>s. sb_toolCalls (st_body s))
           (listSteps (sto_workspaceId st) (sto_runId st) (w_db w)))))), st, w))"

definition saveToolResult :: "tool_invocation_result \<Rightarrow> unit store_op" where
  "saveToolResult result =
     store_step \<lparr>sb_type = Tool_call, sb_status = (if tir_isError result then Step_failed else Step_succeeded),
       sb_toolCalls = [result], sb_usage = None, sb_error = None\<rparr>"

definition publish :: "string \<Rightarrow> jsv \<Rightarrow> unit store_op" where
  "publish type payload = (\<lambda>(st, w).
     (let st' = st\<lparr>sto_eventSeq := sto_eventSeq st + 1\<rparr> in
      case appendEvent (sto_runId st) (sto_eventSeq st) type payload (w_db w) of
        (Inl (Duplicate_event r n), db) \<Rightarrow> (Inl (E_duplicate_event r n), st', w\<lparr>w_db := db\<rparr>)
      | (Inr _, db) \<Rightarrow> (Inr (), st', w\<lparr>w_db := db\<rparr>)))"

definition resumeEventSeqFrom :: "int \<Rightarrow> store \<Rightarrow> store" where
  "resumeEventSeqFrom seq st = st\<lparr>sto_eventSeq := seq\<rparr>"

text \<open>The start of \<^verbatim>\<open>openSession\<close> (\<^verbatim>\<open>apps/web/src/lib/container.ts\<close>): build the store, resume the event numbers.\<close>

definition open_store :: "run_doc \<Rightarrow> string \<Rightarrow> int \<Rightarrow> run_db \<Rightarrow> store" where
  "open_store run token leaseMs db =
     (let st = new_store (rd_workspaceId run) run token leaseMs;
          priorEvents = eventsSince (rd_id run) (-1) 1 db
      in resumeEventSeqFrom
           ((case last_opt priorEvents of Some e \<Rightarrow> ev_seq e | None \<Rightarrow> -1) + 1) st)"

subsection \<open>Lemmas\<close>

lemma find_update_first:
  assumes "List.find P xs = Some x" "P (f x)"
  shows "List.find P (update_first P f xs) = Some (f x)"
  using assms by (induction xs) (auto split: if_splits)

lemma guard_dead:
  assumes "dead_in (sto_leaseToken st) (db_runs (w_db w))"
  shows "guard now (st, w) = (Inl (E_lease_lost (sto_runId st)), st, w)"
  using dead_token_writes(1) [OF assms] by (simp add: guard_def)

lemma step_dead:
  assumes "dead_in (sto_leaseToken st) (db_runs (w_db w))"
  shows "store_step body (st, w) = (Inl (E_step_refused (sto_runId st)), st, w)"
  using dead_token_writes(4) [OF assms] by (simp add: store_step_def)

text \<open>Saving spend: the run is charged the difference to the last save.\<close>

abbreviation owned :: "store \<Rightarrow> run_doc \<Rightarrow> bool" where
  "owned st d \<equiv> rd_workspaceId d = sto_workspaceId st \<and> holds (sto_runId st) (sto_leaseToken st) d"

lemma saveConsumption_charges:
  assumes "List.find (owned st) (db_runs (w_db w)) = Some d"
  shows "\<exists>st' w'. saveConsumption c u (st, w) = (Inr (), st', w') \<and>
    st' = st\<lparr>sto_lastSaved := c, sto_lastUsage := u\<rparr> \<and>
    List.find (owned st) (db_runs (w_db w')) =
      Some (consumption_change (consumption_diff c (sto_lastSaved st)) (subtractUsage u (sto_lastUsage st)) d)"
proof -
  let ?f = "consumption_change (consumption_diff c (sto_lastSaved st)) (subtractUsage u (sto_lastUsage st))"
  have "owned st (?f d)"
    using find_Some_in [OF assms] by (simp add: consumption_change_def holds_def)
  from find_update_first [OF assms, of ?f] this show ?thesis
    by (auto simp: saveConsumption_def Let_def)
qed

fun save_all :: "(run_consumption \<times> usage) list \<Rightarrow> store \<times> world \<Rightarrow> store \<times> world" where
  "save_all [] s = s"
| "save_all ((c, u) # saves) s = save_all saves (snd (saveConsumption c u s))"

definition plus_diff :: "run_consumption \<Rightarrow> run_consumption \<Rightarrow> run_consumption \<Rightarrow> run_consumption" where
  "plus_diff d c base =
     d\<lparr>con_steps := con_steps d + (con_steps c - con_steps base),
       con_toolCalls := con_toolCalls d + (con_toolCalls c - con_toolCalls base),
       con_tokens := con_tokens d + (con_tokens c - con_tokens base),
       con_costUsd := con_costUsd d + (con_costUsd c - con_costUsd base)\<rparr>"

lemma save_all_telescopes:
  assumes "saves \<noteq> []" "List.find (owned st) (db_runs (w_db w)) = Some d"
  shows "\<exists>d'. List.find (owned st) (db_runs (w_db (snd (save_all saves (st, w))))) = Some d' \<and>
    rd_consumed d' = plus_diff (rd_consumed d) (fst (last saves)) (sto_lastSaved st)"
  using assms
proof (induction saves arbitrary: st w d)
  case (Cons save saves)
  obtain c u where save: "save = (c, u)" by (cases save)
  let ?d = "consumption_change (consumption_diff c (sto_lastSaved st)) (subtractUsage u (sto_lastUsage st)) d"
  obtain w' where w': "saveConsumption c u (st, w) = (Inr (), st\<lparr>sto_lastSaved := c, sto_lastUsage := u\<rparr>, w')"
    "List.find (owned st) (db_runs (w_db w')) = Some ?d"
    using saveConsumption_charges [OF Cons.prems(2), of c u] by auto
  have d: "rd_consumed ?d = plus_diff (rd_consumed d) c (sto_lastSaved st)"
    by (simp add: consumption_change_def consumption_diff_def plus_diff_def)
  show ?case
  proof (cases "saves = []")
    case True
    then show ?thesis using w' d save by simp
  next
    case False
    have "\<exists>d'. List.find (owned (st\<lparr>sto_lastSaved := c, sto_lastUsage := u\<rparr>))
          (db_runs (w_db (snd (save_all saves (st\<lparr>sto_lastSaved := c, sto_lastUsage := u\<rparr>, w'))))) = Some d' \<and>
        rd_consumed d' = plus_diff (rd_consumed ?d) (fst (last saves)) c"
      using Cons.IH [OF False, of "st\<lparr>sto_lastSaved := c, sto_lastUsage := u\<rparr>" w' ?d] w'(2) by simp
    then show ?thesis using w'(1) d save False by (simp add: plus_diff_def)
  qed
qed simp

text \<open>The message log in order.\<close>

definition log_of :: "id \<Rightarrow> world \<Rightarrow> message list" where
  "log_of convId w = map snd (filter (\<lambda>(c, m). c = convId \<and> msg_supersededBy m = None) (w_messages w))"

definition log_ok :: "id \<Rightarrow> world \<Rightarrow> bool" where
  "log_ok convId w \<longleftrightarrow>
     (\<exists>c. List.find (\<lambda>c. cv_id c = convId) (w_convs w) = Some c \<and>
        (\<forall>m \<in> set (map snd (filter (\<lambda>(i, m). i = convId) (w_messages w))). msg_seq m < cv_nextSeq c)) \<and>
     sorted_wrt (\<lambda>a b. msg_seq a < msg_seq b) (map snd (filter (\<lambda>(i, m). i = convId) (w_messages w)))"

lemma sort_key_neg_sorted:
  fixes f :: "'a \<Rightarrow> int"
  assumes "sorted_wrt (\<lambda>a b. f a < f b) xs"
  shows "sort_key (\<lambda>x. - f x) xs = rev xs"
proof (rule properties_for_sort_key)
  show "sorted (map (\<lambda>x. - f x) (rev xs))"
    using assms by (induction xs) (auto simp: sorted_append)
  fix k assume "k \<in> set (rev xs)"
  have "filter (\<lambda>x. - f k = - f x) xs = filter (\<lambda>x. - f k = - f x) (rev xs)"
    using assms
  proof (induction xs)
    case (Cons x xs)
    show ?case
    proof (cases "f x = f k")
      case True
      then have "\<forall>y \<in> set xs. f k \<noteq> f y" using Cons.prems by auto
      then have "filter (\<lambda>x. - f k = - f x) xs = []" "filter (\<lambda>x. - f k = - f x) (rev xs) = []"
        by (auto simp: filter_empty_conv)
      then show ?thesis using True by simp
    qed (use Cons in auto)
  qed simp
  then show "filter (\<lambda>x. - f k = - f x) (rev xs) = filter (\<lambda>x. - f k = - f x) xs" by simp
qed simp

lemma sorted_wrt_filter_map:
  "sorted_wrt P (map g (filter Q xs)) \<Longrightarrow> sorted_wrt P (map g (filter (\<lambda>x. Q x \<and> R x) xs))"
  by (induction xs) (simp_all split: if_splits)

lemma recentMessages_log:
  assumes "log_ok convId w"
  shows "recentMessages convId n w = drop (length (log_of convId w) - n) (log_of convId w)"
proof -
  have "sorted_wrt (\<lambda>a b. msg_seq a < msg_seq b) (log_of convId w)"
    using sorted_wrt_filter_map [of _ snd "\<lambda>x. fst x = convId" "w_messages w" "\<lambda>x. msg_supersededBy (snd x) = None"] assms
    unfolding log_ok_def log_of_def case_prod_beta' by blast
  from sort_key_neg_sorted [OF this] show ?thesis
    by (simp add: recentMessages_def log_of_def [symmetric] take_rev)
qed

lemma repo_append_log:
  assumes "log_ok convId w"
  shows "\<exists>doc w'. repo_appendMessage newId convId runId now m w = (Some doc, w') \<and> log_ok convId w' \<and>
    log_of convId w' = log_of convId w @ [doc] \<and> msg_role doc = am_role m \<and> msg_content doc = am_content m \<and>
    msg_artifacts doc = am_artifacts m \<and> w_db w' = w_db w"
proof -
  from assms obtain c where c: "List.find (\<lambda>c. cv_id c = convId) (w_convs w) = Some c"
    "\<forall>m \<in> set (map snd (filter (\<lambda>(i, m). i = convId) (w_messages w))). msg_seq m < cv_nextSeq c"
    by (auto simp: log_ok_def)
  have id: "cv_id c = convId" using find_Some_in [OF c(1)] by simp
  let ?seen = "\<lambda>c. c\<lparr>cv_messageCount := cv_messageCount c + 1, cv_updatedAt := now,
      cv_lastMessage := Some (am_role m, previewOf (am_content m), now)\<rparr>"
  let ?w1 = "update_first (\<lambda>c. cv_id c = convId) (\<lambda>c. c\<lparr>cv_nextSeq := cv_nextSeq c + 1\<rparr>) (w_convs w)"
  have f1: "List.find (\<lambda>c. cv_id c = convId) ?w1 = Some (c\<lparr>cv_nextSeq := cv_nextSeq c + 1\<rparr>)"
    using find_update_first [OF c(1), of "\<lambda>c. c\<lparr>cv_nextSeq := cv_nextSeq c + 1\<rparr>"] id by simp
  have f2: "List.find (\<lambda>c. cv_id c = convId) (update_first (\<lambda>c. cv_id c = convId)
      ?seen ?w1) = Some (?seen (c\<lparr>cv_nextSeq := cv_nextSeq c + 1\<rparr>))"
    using find_update_first [OF f1, of ?seen] id by simp
  show ?thesis
    using assms c f2
    by (fastforce simp: repo_appendMessage_def allocateSeq_def Let_def log_ok_def log_of_def sorted_wrt_append)
qed

subsection \<open>Properties\<close>

text \<open>
  An executor without the lease writes neither the conversation nor the steps: when its token is the
  lease of no run, appending a message, replacing messages, recording a step and saving a tool result all
  fail and leave the whole world as it was.
\<close>

theorem store_writes_guarded:
  assumes "\<forall>d \<in> set (db_runs (w_db w)). \<forall>l. rd_lease d = Some l \<longrightarrow> l_token l \<noteq> sto_leaseToken st"
  shows "appendMessage newId now m (st, w) = (Inl (E_lease_lost (sto_runId st)), st, w) \<and>
    supersede now ids by_id (st, w) = (Inl (E_lease_lost (sto_runId st)), st, w) \<and>
    store_step body (st, w) = (Inl (E_step_refused (sto_runId st)), st, w) \<and>
    saveToolResult result (st, w) = (Inl (E_step_refused (sto_runId st)), st, w)"
proof -
  have "dead_in (sto_leaseToken st) (db_runs (w_db w))"
    using assms by (auto simp: dead_in_def token_of_def)
  from guard_dead [OF this] step_dead [OF this] show ?thesis
    by (simp add: appendMessage_def supersede_def and_then_def saveToolResult_def)
qed

definition sample_world :: "run_doc list \<Rightarrow> world" where
  "sample_world docs = \<lparr>w_db = \<lparr>db_runs = docs, db_steps = [], db_events = [], db_approvals = []\<rparr>,
     w_convs = [\<lparr>cv_id = ''c1'', cv_nextSeq = 1, cv_messageCount = 0, cv_lastMessage = None, cv_updatedAt = 0\<rparr>], w_messages = [],
     w_rollup = \<lparr>ru_usage = emptyUsage, ru_costUsd = 0, ru_runCount = 0\<rparr>\<rparr>"

definition sample_result :: tool_invocation_result where
  "sample_result = \<lparr>tir_id = ''t1'', tir_canonicalName = ''a.b'', tir_content = [], tir_structured = None,
     tir_isError = False, tir_bindingId = None, tir_durationMs = 1, tir_mrtrRounds = 0,
     tir_argumentsRedacted = None, tir_permission = None\<rparr>"

theorem store_writes_guarded_witness:
  "saveToolResult sample_result (new_store ''w1'' sample_run ''lse_1'' 1000, sample_world [sample_run]) =
     (Inl (E_step_refused ''r1''), new_store ''w1'' sample_run ''lse_1'' 1000, sample_world [sample_run])"
  using store_writes_guarded [of "sample_world [sample_run]" "new_store ''w1'' sample_run ''lse_1'' 1000"]
  by (simp add: sample_world_def new_store_def sample_run_def new_run_def)

text \<open>
  Only the last report of a slice is charged: each save charges the difference to the previous save,
  so after any non-empty sequence of saves the run's stored spend is what it was plus the last reported
  figure minus the figure at the start of the slice, and the wall clock is never charged.
\<close>

theorem spend_telescopes:
  assumes "saves \<noteq> []" "List.find (owned st) (db_runs (w_db w)) = Some d"
  shows "\<exists>d'. List.find (owned st) (db_runs (w_db (snd (save_all saves (st, w))))) = Some d' \<and>
    con_steps (rd_consumed d') = con_steps (rd_consumed d) +
      (con_steps (fst (last saves)) - con_steps (sto_lastSaved st)) \<and>
    con_tokens (rd_consumed d') = con_tokens (rd_consumed d) +
      (con_tokens (fst (last saves)) - con_tokens (sto_lastSaved st)) \<and>
    con_costUsd (rd_consumed d') = con_costUsd (rd_consumed d) +
      (con_costUsd (fst (last saves)) - con_costUsd (sto_lastSaved st)) \<and>
    con_wallClockMs (rd_consumed d') = con_wallClockMs (rd_consumed d)"
  using save_all_telescopes [OF assms] by (auto simp: plus_diff_def)

definition sample_store :: store where
  "sample_store = new_store ''w1'' sample_run ''lse_1'' 1000"

definition leased_world :: world where
  "leased_world = sample_world [claim_change ''exec'' 5 1000 ''lse_1'' sample_run]"

lemma sample_owned: "owned sample_store (claim_change ''exec'' 5 1000 ''lse_1'' sample_run)"
  by (simp add: sample_store_def new_store_def holds_def claim_change_def sample_run_def new_run_def)

lemma leased_world_owned: "List.find (owned sample_store) (db_runs (w_db leased_world)) =
    Some (claim_change ''exec'' 5 1000 ''lse_1'' sample_run)"
  using sample_owned by (simp add: leased_world_def sample_world_def)

theorem spend_telescopes_witness:
  "\<exists>d'. List.find (owned sample_store) (db_runs (w_db (snd (save_all
       [(emptyConsumption\<lparr>con_tokens := 500\<rparr>, emptyUsage), (emptyConsumption\<lparr>con_tokens := 20\<rparr>, emptyUsage)]
       (sample_store, leased_world))))) = Some d' \<and> con_tokens (rd_consumed d') = 20"
  using spend_telescopes [OF _ leased_world_owned,
      of "[(emptyConsumption\<lparr>con_tokens := 500\<rparr>, emptyUsage), (emptyConsumption\<lparr>con_tokens := 20\<rparr>, emptyUsage)]"]
  by (auto simp: sample_store_def new_store_def sample_run_def new_run_def claim_change_def emptyConsumption_def)

text \<open>
  A message written through the store is read back: with the lease held and a conversation log in
  order, appending succeeds, gives the message the conversation's next number, keeps the log in order, and
  the next load returns the earlier messages, those within the window, followed by the new one.
\<close>

theorem append_then_load:
  assumes "log_ok (sto_conversationId st) w" "\<exists>d \<in> set (db_runs (w_db w)). holds (sto_runId st) (sto_leaseToken st) d"
  shows "\<exists>doc w'. appendMessage newId now m (st, w) = (Inr doc, st, w') \<and>
    log_ok (sto_conversationId st) w' \<and> msg_role doc = am_role m \<and> msg_content doc = am_content m \<and>
    loadMessages (st, w') = (Inr (drop (length (log_of (sto_conversationId st) w) - 499)
      (log_of (sto_conversationId st) w) @ [doc]), st, w')"
proof -
  let ?docs = "update_first (holds (sto_runId st) (sto_leaseToken st)) (heartbeat_change now (sto_leaseMs st)) (db_runs (w_db w))"
  let ?w1 = "w\<lparr>w_db := (w_db w)\<lparr>db_runs := ?docs\<rparr>\<rparr>"
  have g: "guard now (st, w) = (Inr (), st, ?w1)"
    using assms(2) by (auto simp: guard_def heartbeat_def update_one_def list_ex_iff)
  have ok: "log_ok (sto_conversationId st) ?w1" using assms(1) by (simp add: log_ok_def)
  have same: "log_of (sto_conversationId st) ?w1 = log_of (sto_conversationId st) w" by (simp add: log_of_def)
  from repo_append_log [OF ok, of newId "Some (sto_runId st)" now m] obtain doc w' where
    w': "repo_appendMessage newId (sto_conversationId st) (Some (sto_runId st)) now m ?w1 = (Some doc, w')"
      "log_ok (sto_conversationId st) w'"
      "log_of (sto_conversationId st) w' = log_of (sto_conversationId st) w @ [doc]"
      "msg_role doc = am_role m" "msg_content doc = am_content m"
    unfolding same by blast
  have "appendMessage newId now m (st, w) = (Inr doc, st, w')"
    using g w'(1) by (simp add: appendMessage_def and_then_def)
  moreover have "loadMessages (st, w') = (Inr (drop (length (log_of (sto_conversationId st) w) - 499)
      (log_of (sto_conversationId st) w) @ [doc]), st, w')"
    using recentMessages_log [OF w'(2), of 500] w'(3) by (simp add: loadMessages_def Suc_diff_le)
  ultimately show ?thesis using w' by blast
qed

theorem append_then_load_witness:
  "\<exists>doc w'. appendMessage ''m1'' 6 \<lparr>am_role = Role_assistant, am_content = [], am_artifacts = None,
       am_tokenEstimate = None\<rparr> (sample_store, leased_world) = (Inr doc, sample_store, w') \<and>
     fst (loadMessages (sample_store, w')) = Inr [doc]"
proof -
  have "log_ok (sto_conversationId sample_store) leased_world" "log_of (sto_conversationId sample_store) leased_world = []"
    by (simp_all add: log_ok_def log_of_def leased_world_def sample_world_def sample_store_def new_store_def
        sample_run_def new_run_def sample_request_def)
  moreover have "\<exists>d \<in> set (db_runs (w_db leased_world)). holds (sto_runId sample_store) (sto_leaseToken sample_store) d"
    using sample_owned by (simp add: leased_world_def sample_world_def)
  ultimately show ?thesis
    using append_then_load [of sample_store leased_world "''m1''" 6 "\<lparr>am_role = Role_assistant, am_content = [],
        am_artifacts = None, am_tokenEstimate = None\<rparr>"] by fastforce
qed

text \<open>
  Event numbers are not resumed after a slice: when a run has already published its events number
  zero and one, a session opened for the next slice restarts at one, and its first event is refused by
  the unique index.
\<close>

theorem resumed_event_collides:
  assumes "e0 \<in> set (db_events (w_db w))" "ev_runId e0 = rd_id run" "ev_seq e0 = 0"
    and "e1 \<in> set (db_events (w_db w))" "ev_runId e1 = rd_id run" "ev_seq e1 = 1"
    and "\<forall>e \<in> set (db_events (w_db w)). 0 \<le> ev_seq e"
  shows "fst (publish type payload (open_store run token ms (w_db w), w)) = Inl (E_duplicate_event (rd_id run) 1)"
proof -
  let ?evs = "sort_key ev_seq (filter (\<lambda>e. ev_runId e = rd_id run \<and> -1 < ev_seq e) (db_events (w_db w)))"
  have e0: "e0 \<in> set ?evs" using assms(1-3) by simp
  then obtain e es where evs: "?evs = e # es" by (cases ?evs) auto
  have "sorted (map ev_seq ?evs)" by simp
  with evs e0 assms(3) have "ev_seq e \<le> 0" by auto
  moreover have "e \<in> set ?evs" using evs by (metis list.set_intros(1))
  then have "0 \<le> ev_seq e" using assms(7) by simp
  ultimately have "ev_seq e = 0" by simp
  then have "sto_eventSeq (open_store run token ms (w_db w)) = 1"
    using evs by (simp add: open_store_def eventsSince_def resumeEventSeqFrom_def last_opt_def Let_def)
  moreover have "sto_runId (open_store run token ms (w_db w)) = rd_id run"
    by (simp add: open_store_def resumeEventSeqFrom_def new_store_def Let_def)
  moreover have "list_ex (\<lambda>e. ev_runId e = rd_id run \<and> ev_seq e = 1) (db_events (w_db w))"
    using assms(4-6) by (auto simp: list_ex_iff)
  ultimately show ?thesis by (simp add: publish_def appendEvent_def Let_def)
qed

definition sample_event :: "int \<Rightarrow> event_doc" where
  "sample_event n = \<lparr>ev_runId = ''r1'', ev_seq = n, ev_type = ''text'', ev_payload = JNull\<rparr>"

theorem resumed_event_collides_witness:
  "fst (publish ''text'' JNull (open_store sample_run ''lse_2'' 1000
       \<lparr>db_runs = [], db_steps = [], db_events = [sample_event 0, sample_event 1], db_approvals = []\<rparr>,
     (sample_world [])\<lparr>w_db := \<lparr>db_runs = [], db_steps = [],
       db_events = [sample_event 0, sample_event 1], db_approvals = []\<rparr>\<rparr>)) = Inl (E_duplicate_event ''r1'' 1)"
  using resumed_event_collides [of "sample_event 0" "(sample_world [])\<lparr>w_db := \<lparr>db_runs = [], db_steps = [],
       db_events = [sample_event 0, sample_event 1], db_approvals = []\<rparr>\<rparr>" sample_run "sample_event 1"
       "''text''" JNull "''lse_2''" 1000]
  by (simp add: sample_event_def sample_run_def new_run_def)

end
