(* ===== verification/Model_Call.thy ===== *)
theory Model_Call
  imports Run_Store
begin

text \<open>
  One model call (\<^verbatim>\<open>packages/runtime/src/model-call.ts\<close>): folding a provider's event stream into a result,
  retrying the primary model with full jitter, and the fallback.

  The providers are outside the model: \<open>generate n a\<close> is the stream the \<open>n\<close>-th request of the call gets
  from attempt \<open>a\<close>, a finite list of events after which the generator returns, or throws with a message.
  Publishing is a state transformer that may throw too; \<open>random\<close> and \<open>clock\<close> are read once per request.
\<close>

subsection \<open>Data\<close>

datatype provider_error_kind = Rate_limit | Overloaded | Context_length | Content_filtered | Refused
  | Authentication | Invalid_request | Transport | Unknown_error

record provider_error =
  pe_kind :: provider_error_kind
  pe_message :: string
  pe_retryable :: bool
  pe_retryAfterMs :: "int option"

datatype provider_event =
    Start string
  | Text_delta string
  | Reasoning_delta string
  | Tool_use_start string string
  | Tool_input_delta string string
  | Tool_use_end string jsv
  | Usage_event usage
  | Finish_event finish_reason "content_block list" "jsv option" usage
  | Error_event provider_error

datatype attempt_label = Primary | Fallback

record model_attempt =
  ma_request :: generation_request
  ma_modelId :: string
  ma_label :: attempt_label

record model_call_options =
  mco_maxAttempts :: nat
  mco_baseDelayMs :: int
  mco_maxDelayMs :: int

definition DEFAULTS :: model_call_options where
  "DEFAULTS = \<lparr>mco_maxAttempts = 3, mco_baseDelayMs = 500, mco_maxDelayMs = 20000\<rparr>"

record model_call_result =
  mr_content :: "content_block list"
  mr_artifacts :: "jsv option"
  mr_finishReason :: finish_reason
  mr_usage :: usage
  mr_attempts :: nat
  mr_usedFallback :: bool
  mr_latencyMs :: int

datatype model_call_error =
    No_attempts
  | Model_call_error provider_error nat bool

type_synonym event_stream = "provider_event list \<times> string option"

type_synonym 's publisher = "string \<Rightarrow> jsv \<Rightarrow> 's \<Rightarrow> string option \<times> 's"

subsection \<open>Operations\<close>

definition call_backoffMs :: "nat \<Rightarrow> model_call_options \<Rightarrow> rat \<Rightarrow> int" where
  "call_backoffMs tries opts random =
     floor (random * of_int (min (mco_maxDelayMs opts) (mco_baseDelayMs opts * 2 ^ tries)))"

definition asProviderError :: "string \<Rightarrow> provider_error" where
  "asProviderError message =
     \<lparr>pe_kind = Transport, pe_message = message, pe_retryable = False, pe_retryAfterMs = None\<rparr>"

definition incomplete_stream :: provider_error where
  "incomplete_stream = \<lparr>pe_kind = Transport,
     pe_message = ''The model stream ended without a completion event. The response is incomplete.'',
     pe_retryable = True, pe_retryAfterMs = None\<rparr>"

definition no_result :: provider_error where
  "no_result = \<lparr>pe_kind = Unknown_error, pe_message = ''The model produced no result.'',
     pe_retryable = False, pe_retryAfterMs = None\<rparr>"

fun isWorthFallingBackFrom :: "provider_error_kind \<Rightarrow> bool" where
  "isWorthFallingBackFrom Rate_limit = True"
| "isWorthFallingBackFrom Overloaded = True"
| "isWorthFallingBackFrom Transport = True"
| "isWorthFallingBackFrom Authentication = True"
| "isWorthFallingBackFrom Context_length = True"
| "isWorthFallingBackFrom Content_filtered = False"
| "isWorthFallingBackFrom Refused = False"
| "isWorthFallingBackFrom Invalid_request = False"
| "isWorthFallingBackFrom Unknown_error = False"

text \<open>The outcome of one stream, with whether anything reached the user.\<close>

type_synonym stream_outcome = "(provider_error + model_call_result) \<times> bool"

text \<open>What the handler of an event publishes, if anything.\<close>

fun published :: "provider_event \<Rightarrow> (string \<times> jsv) option" where
  "published (Text_delta t) = Some (''text_delta'', JObj [(''text'', JStr t)])"
| "published (Reasoning_delta t) = Some (''reasoning_delta'', JObj [(''text'', JStr t)])"
| "published (Tool_use_start i n) = Some (''tool_call_started'', JObj [(''id'', JStr i), (''name'', JStr n)])"
| "published _ = None"

definition publish_event :: "'s publisher \<Rightarrow> provider_event \<Rightarrow> 's \<Rightarrow> string option \<times> 's" where
  "publish_event pub event s =
     (case published event of None \<Rightarrow> (None, s) | Some (type, payload) \<Rightarrow> pub type payload s)"

fun is_text :: "provider_event \<Rightarrow> bool" where
  "is_text (Text_delta t) = True"
| "is_text _ = False"

fun stream_events ::
  "'s publisher \<Rightarrow> provider_event list \<Rightarrow> string option \<Rightarrow> usage \<Rightarrow> bool \<Rightarrow> 's \<Rightarrow> stream_outcome \<times> 's" where
  "stream_events pub [] thrown u streamed s =
     (case thrown of
        Some message \<Rightarrow> ((Inl (asProviderError message), streamed), s)
      | None \<Rightarrow> ((Inl incomplete_stream, streamed), s))"
| "stream_events pub (Usage_event v # events) thrown u streamed s =
     stream_events pub events thrown (addUsage u v) streamed s"
| "stream_events pub (Finish_event reason content artifacts v # events) thrown u streamed s =
     ((Inr \<lparr>mr_content = content, mr_artifacts = artifacts, mr_finishReason = reason, mr_usage = addUsage u v,
         mr_attempts = 0, mr_usedFallback = False, mr_latencyMs = 0\<rparr>, streamed), s)"
| "stream_events pub (Error_event error # events) thrown u streamed s = ((Inl error, streamed), s)"
| "stream_events pub (event # events) thrown u streamed s =
     (case publish_event pub event s of
        (Some message, s') \<Rightarrow> ((Inl (asProviderError message), streamed \<or> is_text event), s')
      | (None, s') \<Rightarrow> stream_events pub events thrown u (streamed \<or> is_text event) s')"

definition stream :: "'s publisher \<Rightarrow> event_stream \<Rightarrow> 's \<Rightarrow> stream_outcome \<times> 's" where
  "stream pub src s = stream_events pub (fst src) (snd src) emptyUsage False s"

text \<open>
  The tries of one attempt. \<open>left\<close> is how many the loop still has, \<open>tries\<close> how many it made, \<open>made\<close> how
  many requests the call has made. The delays slept are collected.
\<close>

datatype attempt_end =
    Got model_call_result nat
  | Committed provider_error nat
  | Gave_up "provider_error option" nat

fun try_attempt ::
  "'s publisher \<Rightarrow> model_call_options \<Rightarrow> (nat \<Rightarrow> rat) \<Rightarrow> (nat \<Rightarrow> model_attempt \<Rightarrow> event_stream) \<Rightarrow> model_attempt \<Rightarrow>
   nat \<Rightarrow> nat \<Rightarrow> nat \<Rightarrow> provider_error option \<Rightarrow> 's \<Rightarrow> attempt_end \<times> int list \<times> 's" where
  "try_attempt pub opts random generate attempt 0 tries made last_error s = (Gave_up last_error made, [], s)"
| "try_attempt pub opts random generate attempt (Suc left) tries made last_error s =
     (case stream pub (generate made attempt) s of
        ((Inr result, streamed), s') \<Rightarrow> (Got result (Suc made), [], s')
      | ((Inl error, streamed), s') \<Rightarrow>
          (if streamed then (Committed error (Suc made), [], s')
           else if \<not> pe_retryable error \<or> left = 0 then (Gave_up (Some error) (Suc made), [], s')
           else
             (let delay = (case pe_retryAfterMs error of Some ms \<Rightarrow> ms
                                                       | None \<Rightarrow> call_backoffMs tries opts (random made));
                  (outcome, delays, s'') =
                    try_attempt pub opts random generate attempt left (Suc tries) (Suc made) (Some error) s'
              in (outcome, delay # delays, s''))))"

definition attempt_budget :: "model_call_options \<Rightarrow> model_attempt \<Rightarrow> nat" where
  "attempt_budget opts attempt = (case ma_label attempt of Primary \<Rightarrow> mco_maxAttempts opts | Fallback \<Rightarrow> 1)"

definition gave_up_error :: "provider_error option \<Rightarrow> nat \<Rightarrow> model_call_error" where
  "gave_up_error last_error made =
     Model_call_error (case last_error of Some e \<Rightarrow> e | None \<Rightarrow> no_result) made False"

fun call_attempts ::
  "'s publisher \<Rightarrow> model_call_options \<Rightarrow> (nat \<Rightarrow> rat) \<Rightarrow> (nat \<Rightarrow> int) \<Rightarrow> (nat \<Rightarrow> model_attempt \<Rightarrow> event_stream) \<Rightarrow>
   nat \<Rightarrow> model_attempt list \<Rightarrow> nat \<Rightarrow> provider_error option \<Rightarrow> 's \<Rightarrow>
   (model_call_error + model_call_result) \<times> int list \<times> 's" where
  "call_attempts pub opts random clock generate index [] made last_error s =
     (Inl (gave_up_error last_error made), [], s)"
| "call_attempts pub opts random clock generate index (attempt # attempts) made last_error s =
     (case try_attempt pub opts random generate attempt (attempt_budget opts attempt) 0 made last_error s of
        (Got result made', delays, s') \<Rightarrow>
          (Inr (result\<lparr>mr_attempts := made', mr_usedFallback := index > 0,
                      mr_latencyMs := clock made' - clock 0\<rparr>), delays, s')
      | (Committed error made', delays, s') \<Rightarrow> (Inl (Model_call_error error made' True), delays, s')
      | (Gave_up last_error' made', delays, s') \<Rightarrow>
          (if (case last_error' of Some e \<Rightarrow> \<not> isWorthFallingBackFrom (pe_kind e) | None \<Rightarrow> False)
           then (Inl (gave_up_error last_error' made'), delays, s')
           else
             (let (outcome, delays', s'') =
                    call_attempts pub opts random clock generate (Suc index) attempts made' last_error' s'
              in (outcome, delays @ delays', s''))))"

definition call ::
  "'s publisher \<Rightarrow> model_call_options \<Rightarrow> (nat \<Rightarrow> rat) \<Rightarrow> (nat \<Rightarrow> int) \<Rightarrow> (nat \<Rightarrow> model_attempt \<Rightarrow> event_stream) \<Rightarrow>
   model_attempt list \<Rightarrow> 's \<Rightarrow> (model_call_error + model_call_result) \<times> int list \<times> 's" where
  "call pub opts random clock generate attempts s =
     (if attempts = [] then (Inl No_attempts, [], s)
      else call_attempts pub opts random clock generate 0 attempts 0 None s)"

subsection \<open>What the user is shown\<close>

fun terminal_event :: "provider_event \<Rightarrow> bool" where
  "terminal_event (Finish_event reason content artifacts v) = True"
| "terminal_event (Error_event error) = True"
| "terminal_event _ = False"

fun text_of :: "provider_event \<Rightarrow> string list" where
  "text_of (Text_delta t) = [t]"
| "text_of _ = []"

fun usage_of :: "provider_event \<Rightarrow> usage list" where
  "usage_of (Usage_event v) = [v]"
| "usage_of _ = []"

definition texts :: "provider_event list \<Rightarrow> string list" where
  "texts events = concat (map text_of events)"

definition usage_total :: "usage \<Rightarrow> provider_event list \<Rightarrow> usage" where
  "usage_total u events = foldl addUsage u (concat (map usage_of events))"

lemma texts_simps [simp]:
  "texts [] = []" "texts (e # es) = text_of e @ texts es"
  by (simp_all add: texts_def)

lemma usage_total_simps [simp]:
  "usage_total u [] = u" "usage_total u (e # es) = usage_total (foldl addUsage u (usage_of e)) es"
  by (simp_all add: usage_total_def)

text \<open>A stream that is a complete reply: no terminal event before its \<^verbatim>\<open>finish\<close>.\<close>

definition reply_of :: "provider_event list \<Rightarrow> usage \<Rightarrow> model_call_result \<Rightarrow> string list \<Rightarrow> bool" where
  "reply_of events u result shown_text \<longleftrightarrow>
     (\<exists>pre v post. events = pre @ Finish_event (mr_finishReason result) (mr_content result) (mr_artifacts result) v # post \<and>
        list_all (\<lambda>e. \<not> terminal_event e) pre \<and> shown_text = texts pre \<and>
        mr_usage result = addUsage (usage_total u pre) v)"

lemma reply_of_Finish:
  "reply_of (Finish_event reason content artifacts v # events) u
     \<lparr>mr_content = content, mr_artifacts = artifacts, mr_finishReason = reason, mr_usage = addUsage u v,
      mr_attempts = n, mr_usedFallback = f, mr_latencyMs = l\<rparr> []"
  unfolding reply_of_def by (rule exI [of _ "[]"]) simp

lemma reply_of_bookkeeping [simp]:
  "reply_of events u (result\<lparr>mr_attempts := n, mr_usedFallback := f, mr_latencyMs := l\<rparr>) ts \<longleftrightarrow>
     reply_of events u result ts"
  by (simp add: reply_of_def)

lemma reply_of_Cons:
  assumes "reply_of events (foldl addUsage u (usage_of e)) result ts" "\<not> terminal_event e"
  shows "reply_of (e # events) u result (text_of e @ ts)"
proof -
  from assms(1) obtain pre v post where pre: "events = pre @ Finish_event (mr_finishReason result) (mr_content result)
      (mr_artifacts result) v # post" "list_all (\<lambda>e. \<not> terminal_event e) pre" "ts = texts pre"
      "mr_usage result = addUsage (usage_total (foldl addUsage u (usage_of e)) pre) v"
    by (auto simp: reply_of_def)
  with assms(2) show ?thesis unfolding reply_of_def by (intro exI [of _ "e # pre"]) auto
qed

lemma stream_events_step:
  assumes "\<not> terminal_event e"
  shows "stream_events pub (e # events) thrown u streamed s =
    (case publish_event pub e s of
       (Some message, s') \<Rightarrow> ((Inl (asProviderError message), streamed \<or> is_text e), s')
     | (None, s') \<Rightarrow> stream_events pub events thrown (foldl addUsage u (usage_of e)) (streamed \<or> is_text e) s')"
  using assms by (cases e) (auto simp: publish_event_def split: prod.splits option.splits)

text \<open>The contract of a publisher that keeps a log of the text the user was shown.\<close>

locale text_log =
  fixes pub :: "'s publisher"
    and shown :: "'s \<Rightarrow> string list"
  assumes pub_text: "pub ''text_delta'' (JObj [(''text'', JStr t)]) s = (None, s') \<Longrightarrow> shown s' = shown s @ [t]"
    and pub_throws: "pub type payload s = (Some message, s') \<Longrightarrow> shown s' = shown s"
    and pub_other: "pub type payload s = (r, s') \<Longrightarrow> type \<noteq> ''text_delta'' \<Longrightarrow> shown s' = shown s"
begin

lemma publish_event_shown:
  "publish_event pub e s = (None, s') \<Longrightarrow> shown s' = shown s @ text_of e"
  "publish_event pub e s = (Some message, s') \<Longrightarrow> shown s' = shown s"
  by (cases e; auto simp: publish_event_def dest: pub_text pub_throws pub_other)+

lemma stream_reply:
  assumes "stream_events pub events thrown u streamed s = ((Inr result, streamed'), s')"
  shows "\<exists>ts. reply_of events u result ts \<and> shown s' = shown s @ ts"
  using assms
proof (induction events arbitrary: u streamed s)
  case (Cons e events)
  show ?case
  proof (cases "terminal_event e")
    case True
    with Cons.prems show ?thesis using reply_of_Finish by (cases e) auto
  next
    case False
    note step = Cons.prems [unfolded stream_events_step [OF False]]
    obtain s1 where s1: "publish_event pub e s = (None, s1)"
      using step by (auto split: prod.splits option.splits)
    with step have
      "stream_events pub events thrown (foldl addUsage u (usage_of e)) (streamed \<or> is_text e) s1 = ((Inr result, streamed'), s')"
      by simp
    from Cons.IH [OF this] obtain ts where
      "reply_of events (foldl addUsage u (usage_of e)) result ts" "shown s' = shown s1 @ ts" by blast
    with reply_of_Cons [OF _ False] publish_event_shown(1) [OF s1] show ?thesis by auto
  qed
qed (simp split: option.splits)

lemma stream_silent:
  assumes "stream_events pub events thrown u streamed s = ((outcome, False), s')" "\<forall>r. outcome \<noteq> Inr r"
  shows "\<not> streamed \<and> shown s' = shown s"
  using assms(1)
proof (induction events arbitrary: u streamed s)
  case (Cons e events)
  show ?case
  proof (cases "terminal_event e")
    case True
    with Cons.prems assms(2) show ?thesis by (cases e) auto
  next
    case False
    note step = Cons.prems [unfolded stream_events_step [OF False]]
    obtain r s1 where s1: "publish_event pub e s = (r, s1)" by (cases "publish_event pub e s")
    show ?thesis
    proof (cases r)
      case None
      with step s1 have
        "stream_events pub events thrown (foldl addUsage u (usage_of e)) (streamed \<or> is_text e) s1 = ((outcome, False), s')"
        by simp
      from Cons.IH [OF this] have "\<not> streamed" "\<not> is_text e" "shown s' = shown s1" by auto
      then show ?thesis using publish_event_shown(1) s1 None by (cases e) auto
    next
      case (Some message)
      with step s1 show ?thesis using publish_event_shown(2) by auto
    qed
  qed
qed (auto split: option.splits)

lemma try_attempt_shown:
  assumes "try_attempt pub opts random generate a left tries made last_error s = (outcome, delays, s')"
  shows "case outcome of
      Got result made' \<Rightarrow> made < made' \<and> made' \<le> made + left \<and>
        (\<exists>ts. reply_of (fst (generate (made' - 1) a)) emptyUsage result ts \<and> shown s' = shown s @ ts)
    | Committed error made' \<Rightarrow> made < made' \<and> made' \<le> made + left
    | Gave_up error made' \<Rightarrow> made \<le> made' \<and> made' \<le> made + left \<and> shown s' = shown s"
  using assms
proof (induction left arbitrary: tries made last_error s delays)
  case (Suc left)
  obtain r streamed s1 where out: "stream pub (generate made a) s = ((r, streamed), s1)"
    by (metis surj_pair)
  show ?case
  proof (cases r)
    case (Inr result)
    with out Suc.prems stream_reply show ?thesis by (auto simp: stream_def)
  next
    case (Inl error)
    show ?thesis
    proof (cases "streamed \<or> \<not> pe_retryable error \<or> left = 0")
      case True
      have "\<not> streamed \<Longrightarrow> shown s1 = shown s"
        using out Inl stream_silent [of _ _ emptyUsage False s "Inl error" s1] by (auto simp: stream_def)
      with True out Inl Suc.prems show ?thesis by (auto split: if_splits)
    next
      case False
      then have quiet: "shown s1 = shown s"
        using out Inl stream_silent [of _ _ emptyUsage False s "Inl error" s1] by (auto simp: stream_def)
      from False out Inl Suc.prems obtain delays' where
        "try_attempt pub opts random generate a left (Suc tries) (Suc made) (Some error) s1 = (outcome, delays', s')"
        by (auto split: prod.splits)
      from Suc.IH [OF this] quiet show ?thesis by (auto split: attempt_end.splits)
    qed
  qed
qed auto

lemma call_attempts_shown:
  assumes "call_attempts pub opts random clock generate index attempts made last_error s = (outcome, delays, s')"
  shows "case outcome of
      Inr result \<Rightarrow> made < mr_attempts result \<and>
        mr_attempts result \<le> made + sum_list (map (attempt_budget opts) attempts) \<and>
        (\<exists>a \<in> set attempts. \<exists>ts. reply_of (fst (generate (mr_attempts result - 1) a)) emptyUsage result ts \<and>
           shown s' = shown s @ ts)
    | Inl No_attempts \<Rightarrow> False
    | Inl (Model_call_error error made' streamed) \<Rightarrow>
        made' \<le> made + sum_list (map (attempt_budget opts) attempts) \<and> (\<not> streamed \<longrightarrow> shown s' = shown s)"
  using assms
proof (induction attempts arbitrary: index made last_error s delays)
  case (Cons a attempts)
  obtain r ds s1 where try_a: "try_attempt pub opts random generate a (attempt_budget opts a) 0 made last_error s = (r, ds, s1)"
    by (metis surj_pair)
  note tried = try_attempt_shown [OF try_a]
  show ?case
  proof (cases r)
    case (Got result made')
    with Cons.prems try_a tried show ?thesis by auto
  next
    case (Committed error made')
    with Cons.prems try_a tried show ?thesis by auto
  next
    case (Gave_up error made')
    show ?thesis
    proof (cases "case error of Some e \<Rightarrow> \<not> isWorthFallingBackFrom (pe_kind e) | None \<Rightarrow> False")
      case True
      with Gave_up Cons.prems try_a tried show ?thesis by (auto simp: gave_up_error_def)
    next
      case False
      with Gave_up Cons.prems try_a obtain ds' where
        "call_attempts pub opts random clock generate (Suc index) attempts made' error s1 = (outcome, ds', s')"
        by (auto split: prod.splits)
      from Cons.IH [OF this] tried Gave_up show ?thesis
        by (auto split: sum.splits model_call_error.splits)
    qed
  qed
qed (auto simp: gave_up_error_def)

end

subsection \<open>Delays\<close>

lemma call_backoffMs_bounds:
  assumes "0 \<le> r" "r < 1" "0 \<le> mco_baseDelayMs opts" "0 \<le> mco_maxDelayMs opts"
  shows "0 \<le> call_backoffMs n opts r \<and> call_backoffMs n opts r \<le> mco_maxDelayMs opts"
proof -
  define c where "c = min (mco_maxDelayMs opts) (mco_baseDelayMs opts * 2 ^ n)"
  have c: "0 \<le> c" "c \<le> mco_maxDelayMs opts" using assms(3,4) by (auto simp: c_def)
  have "r * of_int c \<le> 1 * of_int c" using assms(2) c(1) by (intro mult_right_mono) auto
  then have "floor (r * of_int c) \<le> c" by linarith
  moreover have "0 \<le> r * of_int c" using assms(1) c(1) by simp
  ultimately show ?thesis using c(2) by (simp add: call_backoffMs_def c_def [symmetric])
qed

lemma stream_error_asked:
  assumes "stream_events pub events thrown u streamed s = ((Inl error, streamed'), s')" "pe_retryAfterMs error = Some d"
  shows "Error_event error \<in> set events"
  using assms(1)
proof (induction events arbitrary: u streamed s)
  case (Cons e events)
  show ?case
  proof (cases "terminal_event e")
    case True
    with Cons.prems show ?thesis by (cases e) auto
  next
    case False
    from Cons.prems [unfolded stream_events_step [OF False]] assms(2) Cons.IH show ?thesis
      by (fastforce simp: asProviderError_def split: prod.splits option.splits)
  qed
qed (use assms(2) in \<open>auto simp: asProviderError_def incomplete_stream_def split: option.splits\<close>)

definition delay_ok :: "model_call_options \<Rightarrow> (nat \<Rightarrow> model_attempt \<Rightarrow> event_stream) \<Rightarrow> model_attempt \<Rightarrow> int \<Rightarrow> bool" where
  "delay_ok opts generate a d \<longleftrightarrow> (0 \<le> d \<and> d \<le> mco_maxDelayMs opts) \<or>
     (\<exists>n e. Error_event e \<in> set (fst (generate n a)) \<and> pe_retryAfterMs e = Some d)"

lemma try_attempt_delays:
  assumes "try_attempt pub opts random generate a left tries made last_error s = (outcome, delays, s')"
    and "\<forall>n. 0 \<le> random n \<and> random n < 1" "0 \<le> mco_baseDelayMs opts" "0 \<le> mco_maxDelayMs opts"
  shows "length delays \<le> left - 1 \<and> (\<forall>d \<in> set delays. delay_ok opts generate a d) \<and>
    (case outcome of Got result made' \<Rightarrow> made' \<le> made + left | Committed e made' \<Rightarrow> made' \<le> made + left
      | Gave_up e made' \<Rightarrow> made' \<le> made + left)"
  using assms(1)
proof (induction left arbitrary: tries made last_error s delays)
  case (Suc left)
  obtain r streamed s1 where out: "stream pub (generate made a) s = ((r, streamed), s1)"
    by (metis surj_pair)
  show ?case
  proof (cases "(\<exists>result. r = Inr result) \<or> streamed \<or> \<not> pe_retryable (projl r) \<or> left = 0")
    case True
    with out Suc.prems show ?thesis by (auto split: sum.splits if_splits)
  next
    case False
    then obtain error where r: "r = Inl error" by (cases r) auto
    let ?d = "case pe_retryAfterMs error of Some ms \<Rightarrow> ms | None \<Rightarrow> call_backoffMs tries opts (random made)"
    from False r out Suc.prems obtain delays' where
      rest: "try_attempt pub opts random generate a left (Suc tries) (Suc made) (Some error) s1 = (outcome, delays', s')"
      "delays = ?d # delays'"
      by (auto split: prod.splits)
    have "delay_ok opts generate a ?d"
    proof (cases "pe_retryAfterMs error")
      case None
      then show ?thesis using call_backoffMs_bounds [of "random made" opts tries] assms(2-4) by (simp add: delay_ok_def)
    next
      case (Some ms)
      with stream_error_asked out r show ?thesis unfolding delay_ok_def stream_def by fastforce
    qed
    with Suc.IH [OF rest(1)] rest(2) False show ?thesis by (auto split: attempt_end.splits)
  qed
qed auto

lemma call_attempts_delays:
  assumes "call_attempts pub opts random clock generate index attempts made last_error s = (outcome, delays, s')"
    and "\<forall>n. 0 \<le> random n \<and> random n < 1" "0 \<le> mco_baseDelayMs opts" "0 \<le> mco_maxDelayMs opts"
  shows "length delays \<le> sum_list (map (attempt_budget opts) attempts) \<and>
    (\<forall>d \<in> set delays. \<exists>a \<in> set attempts. delay_ok opts generate a d) \<and>
    (case outcome of Inr result \<Rightarrow> mr_attempts result \<le> made + sum_list (map (attempt_budget opts) attempts)
     | Inl No_attempts \<Rightarrow> False
     | Inl (Model_call_error error n streamed) \<Rightarrow> n \<le> made + sum_list (map (attempt_budget opts) attempts))"
  using assms(1)
proof (induction attempts arbitrary: index made last_error s delays)
  case (Cons a attempts)
  obtain r ds s1 where try_a: "try_attempt pub opts random generate a (attempt_budget opts a) 0 made last_error s = (r, ds, s1)"
    by (metis surj_pair)
  note tried = try_attempt_delays [OF try_a assms(2-4)]
  show ?case
  proof (cases "\<exists>error made'. r = Gave_up error made' \<and>
      (case error of Some e \<Rightarrow> isWorthFallingBackFrom (pe_kind e) | None \<Rightarrow> True)")
    case False
    with Cons.prems try_a tried show ?thesis
      by (cases r) (auto simp: gave_up_error_def split: option.splits)
  next
    case True
    then obtain error made' where r: "r = Gave_up error made'"
      "case error of Some e \<Rightarrow> isWorthFallingBackFrom (pe_kind e) | None \<Rightarrow> True" by blast
    with Cons.prems try_a obtain ds' where
      rest: "call_attempts pub opts random clock generate (Suc index) attempts made' error s1 = (outcome, ds', s')"
        "delays = ds @ ds'"
      by (auto split: prod.splits option.splits)
    from Cons.IH [OF rest(1)] tried r rest(2) show ?thesis
      by (auto split: sum.splits model_call_error.splits)
  qed
qed (auto simp: gave_up_error_def)

subsection \<open>The run's event log as the publisher\<close>

text \<open>
  The session publishes into the run's event log; \<open>describe\<close> is the message of the driver's error.
\<close>

definition store_publisher :: "(store_error \<Rightarrow> string) \<Rightarrow> (store \<times> world) publisher" where
  "store_publisher describe type payload s =
     (case publish type payload s of (Inl e, s') \<Rightarrow> (Some (describe e), s') | (Inr _, s') \<Rightarrow> (None, s'))"

fun text_payload :: "jsv \<Rightarrow> string" where
  "text_payload (JObj [(k, JStr t)]) = t"
| "text_payload _ = []"

definition shown_text :: "store \<times> world \<Rightarrow> string list" where
  "shown_text s = map (\<lambda>e. text_payload (ev_payload e))
     (filter (\<lambda>e. ev_runId e = sto_runId (fst s) \<and> ev_type e = ''text_delta'') (db_events (w_db (snd s))))"

interpretation run_log: text_log "store_publisher describe" shown_text
  by unfold_locales
    (auto simp: store_publisher_def publish_def appendEvent_def shown_text_def Let_def split: if_splits)

subsection \<open>Properties\<close>

text \<open>
  C26. A reply is one complete stream: when a model call returns, its content, finish reason and usage are
  those of a \<^verbatim>\<open>finish\<close> event that the last stream sent before any error, and the text added to the run's
  event log is exactly the text of that stream, so no text of an abandoned attempt is ever shown; when it
  fails without having streamed, no text was shown at all. A stream cut off before its \<^verbatim>\<open>finish\<close> is never a reply.
\<close>

theorem model_reply_whole:
  assumes "call (store_publisher describe) opts random clock generate attempts s = (outcome, delays, s')"
  shows "case outcome of
      Inr result \<Rightarrow> \<exists>a \<in> set attempts. \<exists>pre v post.
        fst (generate (mr_attempts result - 1) a) =
          pre @ Finish_event (mr_finishReason result) (mr_content result) (mr_artifacts result) v # post \<and>
        list_all (\<lambda>e. \<not> terminal_event e) pre \<and>
        mr_usage result = addUsage (usage_total emptyUsage pre) v \<and>
        shown_text s' = shown_text s @ texts pre
    | Inl No_attempts \<Rightarrow> attempts = [] \<and> s' = s
    | Inl (Model_call_error error n streamed) \<Rightarrow> \<not> streamed \<longrightarrow> shown_text s' = shown_text s"
proof (cases "attempts = []")
  case False
  with assms have "call_attempts (store_publisher describe) opts random clock generate 0 attempts 0 None s = (outcome, delays, s')"
    by (simp add: call_def)
  from run_log.call_attempts_shown [OF this] show ?thesis
    by (auto simp: reply_of_def split: sum.splits model_call_error.splits)
qed (use assms in \<open>auto simp: call_def\<close>)

text \<open>
  Retrying is bounded: a call makes at most the primary's attempts plus one per fallback, whether it
  returns or fails, sleeps at most as often, and with a random number below one each
  delay is what the provider asked for or a number from zero to the cap.
\<close>

theorem model_retries_bounded:
  assumes "call pub opts random clock generate attempts s = (outcome, delays, s')"
    and "\<forall>n. 0 \<le> random n \<and> random n < 1" "0 \<le> mco_baseDelayMs opts" "0 \<le> mco_maxDelayMs opts"
  shows "length delays \<le> sum_list (map (attempt_budget opts) attempts) \<and>
    (\<forall>d \<in> set delays. (0 \<le> d \<and> d \<le> mco_maxDelayMs opts) \<or>
       (\<exists>n. \<exists>a \<in> set attempts. \<exists>e. Error_event e \<in> set (fst (generate n a)) \<and> pe_retryAfterMs e = Some d)) \<and>
    (case outcome of Inr result \<Rightarrow> mr_attempts result \<le> sum_list (map (attempt_budget opts) attempts)
     | Inl No_attempts \<Rightarrow> attempts = []
     | Inl (Model_call_error error n streamed) \<Rightarrow> n \<le> sum_list (map (attempt_budget opts) attempts))"
proof (cases "attempts = []")
  case False
  with assms(1) have "call_attempts pub opts random clock generate 0 attempts 0 None s = (outcome, delays, s')"
    by (simp add: call_def)
  from call_attempts_delays [OF this assms(2-4)] show ?thesis
    unfolding delay_ok_def by (auto split: sum.splits model_call_error.splits)
qed (use assms(1) in \<open>auto simp: call_def\<close>)

definition sample_attempt :: "attempt_label \<Rightarrow> model_attempt" where
  "sample_attempt label = \<lparr>ma_request = ap_request (assemblePrompt (sample_assembly [])), ma_modelId = ''m'', ma_label = label\<rparr>"

definition sample_streams :: "nat \<Rightarrow> model_attempt \<Rightarrow> event_stream" where
  "sample_streams n a = (if n = 0 then ([Reasoning_delta ''hm''], None)
     else ([Text_delta ''hi'', Finish_event End_turn [Text ''hi''] None emptyUsage], None))"

definition sample_call :: "(model_call_error + model_call_result) \<times> int list \<times> store \<times> world" where
  "sample_call = call (store_publisher (\<lambda>_. [])) DEFAULTS (\<lambda>_. 0) int sample_streams
     [sample_attempt Primary, sample_attempt Fallback] (sample_store, leased_world)"

lemma sample_call_outcome:
  "\<exists>s'. sample_call = (Inr \<lparr>mr_content = [Text ''hi''], mr_artifacts = None, mr_finishReason = End_turn,
     mr_usage = emptyUsage, mr_attempts = 2, mr_usedFallback = False, mr_latencyMs = 2\<rparr>, [0], s')"
  by (simp add: sample_call_def call_def sample_attempt_def attempt_budget_def DEFAULTS_def numeral_3_eq_3
      sample_streams_def stream_def publish_event_def store_publisher_def publish_def appendEvent_def Let_def
      leased_world_def sample_world_def incomplete_stream_def call_backoffMs_def addUsage_def emptyUsage_def)

theorem model_reply_whole_witness:
  "shown_text (snd (snd sample_call)) = shown_text (sample_store, leased_world) @ [''hi'']"
proof -
  obtain s' where call: "sample_call = (Inr \<lparr>mr_content = [Text ''hi''], mr_artifacts = None, mr_finishReason = End_turn,
     mr_usage = emptyUsage, mr_attempts = 2, mr_usedFallback = False, mr_latencyMs = 2\<rparr>, [0], s')"
    using sample_call_outcome by blast
  from model_reply_whole [OF call [unfolded sample_call_def]] show ?thesis
    by (auto simp: call sample_streams_def append_eq_Cons_conv Cons_eq_append_conv)
qed

theorem model_retries_bounded_witness: "length (fst (snd sample_call)) \<le> 4"
proof -
  have "call (store_publisher (\<lambda>_. [])) DEFAULTS (\<lambda>_. 0) int sample_streams
      [sample_attempt Primary, sample_attempt Fallback] (sample_store, leased_world) =
      (fst sample_call, fst (snd sample_call), snd (snd sample_call))"
    by (simp add: sample_call_def)
  from model_retries_bounded [OF this] show ?thesis
    by (simp add: DEFAULTS_def attempt_budget_def sample_attempt_def)
qed

end
