(* ===== verification/Loop_Detection.thy ===== *)
theory Loop_Detection
  imports Json
begin

text \<open>
  Loop detection (\<^verbatim>\<open>packages/runtime/src/loop-detection.ts\<close>): exact repeats of a call within a
  sliding window. The lemmas show that admitted phases keep every call below the
  threshold within the window, for any history, and that key order does not hide a
  repeat.
\<close>

record observed_call =
  oc_canonicalName :: string
  oc_args :: jsv

record loop_detector =
  ld_threshold :: nat
  ld_window :: nat
  ld_recent :: "string list"

datatype loop_verdict = Not_looping | Looping string nat

definition DEFAULT_LOOP_THRESHOLD :: nat where "DEFAULT_LOOP_THRESHOLD = 3"

definition new_detector :: "nat option \<Rightarrow> nat option \<Rightarrow> loop_detector" where
  "new_detector threshold window =
     \<lparr>ld_threshold = (case threshold of Some n \<Rightarrow> n | None \<Rightarrow> DEFAULT_LOOP_THRESHOLD),
      ld_window = (case window of Some n \<Rightarrow> n | None \<Rightarrow> 24), ld_recent = []\<rparr>"

definition keyOf :: "observed_call \<Rightarrow> string" where
  "keyOf call = oc_canonicalName call @ ''('' @
     canonicalJson (if oc_args call = JUndefined then JNull else oc_args call) @ '')''"

text \<open>\<^verbatim>\<open>push\<close>, then \<^verbatim>\<open>shift\<close> one element when the window is exceeded.\<close>

definition push_shift :: "nat \<Rightarrow> string list \<Rightarrow> string \<Rightarrow> string list" where
  "push_shift window recent key =
     (let pushed = recent @ [key] in if length pushed > window then tl pushed else pushed)"

definition record_call :: "observed_call \<Rightarrow> loop_detector \<Rightarrow> loop_detector" where
  "record_call call d = d\<lparr>ld_recent := push_shift (ld_window d) (ld_recent d) (keyOf call)\<rparr>"

definition detector_from :: "observed_call list \<Rightarrow> nat option \<Rightarrow> nat option \<Rightarrow> loop_detector" where
  "detector_from history threshold window =
     fold record_call history (new_detector threshold window)"

definition repeats :: "loop_detector \<Rightarrow> observed_call \<Rightarrow> nat" where
  "repeats d call = length (filter (\<lambda>k. k = keyOf call) (ld_recent d)) + 1"

definition inspect :: "loop_detector \<Rightarrow> observed_call \<Rightarrow> loop_verdict" where
  "inspect d call =
     (if repeats d call < ld_threshold d then Not_looping
      else Looping (oc_canonicalName call) (repeats d call))"

fun inspectPhase :: "loop_detector \<Rightarrow> observed_call list \<Rightarrow> loop_verdict" where
  "inspectPhase probe [] = Not_looping"
| "inspectPhase probe (call # calls) =
     (case inspect probe call of
        Looping n r \<Rightarrow> Looping n r
      | Not_looping \<Rightarrow> inspectPhase (record_call call probe) calls)"

subsection \<open>Lemmas\<close>

text \<open>No key occurs the threshold number of times in the window.\<close>

definition below_threshold :: "loop_detector \<Rightarrow> bool" where
  "below_threshold d \<longleftrightarrow> (\<forall>k. count_list (ld_recent d) k < ld_threshold d)"

lemma count_list_filter: "length (filter (\<lambda>x. x = k) xs) = count_list xs k"
  by (induction xs) auto

lemma count_tl_le: "count_list (tl xs) k \<le> count_list xs k"
  by (cases xs) auto

lemma count_push_shift:
  "count_list (push_shift w recent key) k \<le> count_list recent k + (if k = key then 1 else 0)"
  using count_tl_le [of "recent @ [key]" k] by (auto simp: push_shift_def Let_def)

lemma record_call_thresholds [simp]:
  "ld_threshold (record_call c d) = ld_threshold d" "ld_window (record_call c d) = ld_window d"
  by (simp_all add: record_call_def)

lemma inspect_admits:
  "inspect d call = Not_looping \<longleftrightarrow> count_list (ld_recent d) (keyOf call) + 1 < ld_threshold d"
  by (simp add: inspect_def repeats_def count_list_filter)

lemma record_below:
  assumes "below_threshold d" "inspect d call = Not_looping"
  shows "below_threshold (record_call call d)"
  unfolding below_threshold_def
proof
  fix k
  have "count_list (ld_recent (record_call call d)) k \<le>
      count_list (ld_recent d) k + (if k = keyOf call then 1 else 0)"
    by (simp add: record_call_def count_push_shift)
  with assms show "count_list (ld_recent (record_call call d)) k < ld_threshold (record_call call d)"
    by (auto simp: below_threshold_def inspect_admits split: if_splits)
      (metis Suc_eq_plus1 add.right_neutral le_less_trans order.strict_trans1)
qed

lemma inspectPhase_below:
  "inspectPhase d calls = Not_looping \<Longrightarrow> below_threshold d \<Longrightarrow> below_threshold (fold record_call calls d)"
  by (induction d calls rule: inspectPhase.induct) (auto simp: record_below split: loop_verdict.splits)

lemma new_detector_below: "0 < ld_threshold (new_detector t w) \<Longrightarrow> below_threshold (new_detector t w)"
  by (simp add: below_threshold_def new_detector_def)

lemma keyOf_reordered:
  assumes "reordered (oc_args a) (oc_args b)" "oc_canonicalName a = oc_canonicalName b"
  shows "keyOf a = keyOf b"
  using assms canonicalJson_reordered [OF assms(1)] reordered_undefined [OF assms(1)]
  by (simp add: keyOf_def)

lemma length_fold_record: "length (ld_recent d) \<le> ld_window d \<Longrightarrow>
   length (ld_recent (fold record_call calls d)) \<le> ld_window d"
proof (induction calls arbitrary: d)
  case (Cons c calls)
  have "length (ld_recent (record_call c d)) \<le> ld_window (record_call c d)"
    using Cons.prems by (auto simp: record_call_def push_shift_def Let_def)
  from Cons.IH [OF this] show ?case by simp
qed simp

text \<open>What a phase reports is the first call that would be one too many.\<close>

lemma inspectPhase_Looping:
  "inspectPhase d calls = Looping n r \<Longrightarrow>
   \<exists>pre call post. calls = pre @ call # post \<and> n = oc_canonicalName call \<and>
     r = repeats (fold record_call pre d) call \<and> ld_threshold d \<le> r"
proof (induction d calls rule: inspectPhase.induct)
  case (2 d call calls)
  show ?case
  proof (cases "inspect d call")
    case Not_looping
    with 2 obtain pre c post where "calls = pre @ c # post" "n = oc_canonicalName c"
      "r = repeats (fold record_call pre (record_call call d)) c" "ld_threshold d \<le> r"
      by auto
    then show ?thesis by (intro exI [of _ "call # pre"]) auto
  next
    case (Looping m q)
    with 2(2) show ?thesis
      by (intro exI [of _ "[]"]) (auto simp: inspect_def split: if_splits)
  qed
qed simp

subsection \<open>Properties\<close>

fun phases_admitted :: "loop_detector \<Rightarrow> observed_call list list \<Rightarrow> bool" where
  "phases_admitted d [] = True"
| "phases_admitted d (phase # phases) \<longleftrightarrow>
     inspectPhase d phase = Not_looping \<and> phases_admitted (fold record_call phase d) phases"

lemma phases_admitted_below:
  "phases_admitted d phases \<Longrightarrow> below_threshold d \<Longrightarrow> below_threshold (fold record_call (concat phases) d)"
  by (induction d phases rule: phases_admitted.induct) (auto simp: inspectPhase_below)

text \<open>
  A run that only executes admitted phases never repeats a call up to the threshold within the
  window: if every phase was inspected against the calls before it and found not looping, then
  no call occurs threshold-many times in the detector rebuilt from the whole history, whose
  memory stays within its window.
\<close>

theorem admitted_phases_never_loop:
  assumes "0 < threshold" "phases_admitted (new_detector (Some threshold) (Some window)) phases"
  shows "count_list (ld_recent (detector_from (concat phases) (Some threshold) (Some window))) (keyOf call)
      < threshold \<and>
    length (ld_recent (detector_from (concat phases) (Some threshold) (Some window))) \<le> window"
proof -
  let ?d = "new_detector (Some threshold) (Some window)"
  have "below_threshold (fold record_call (concat phases) ?d)"
    using assms by (intro phases_admitted_below new_detector_below) (simp_all add: new_detector_def)
  moreover have "ld_threshold (fold record_call cs d) = ld_threshold d" for cs d
    by (induction cs arbitrary: d) auto
  moreover have "length (ld_recent (fold record_call (concat phases) ?d)) \<le> ld_window ?d"
    by (rule length_fold_record) (simp add: new_detector_def)
  ultimately show ?thesis
    by (simp add: below_threshold_def detector_from_def) (simp add: new_detector_def)
qed

theorem admitted_phases_never_loop_witness:
  "count_list (ld_recent (detector_from (concat [[\<lparr>oc_canonicalName = ''a__b'', oc_args = JNull\<rparr>],
      [\<lparr>oc_canonicalName = ''a__b'', oc_args = JNull\<rparr>]]) (Some 3) (Some 24)))
    (keyOf \<lparr>oc_canonicalName = ''a__b'', oc_args = JNull\<rparr>) < 3"
  using admitted_phases_never_loop [of 3 24 "[[\<lparr>oc_canonicalName = ''a__b'', oc_args = JNull\<rparr>],
      [\<lparr>oc_canonicalName = ''a__b'', oc_args = JNull\<rparr>]]" "\<lparr>oc_canonicalName = ''a__b'', oc_args = JNull\<rparr>"]
  by (simp add: inspect_def repeats_def new_detector_def record_call_def push_shift_def)

end
