(* ===== verification/Redaction.thy ===== *)
theory Redaction
  imports Prelude
begin

text \<open>
  Baseline argument redaction (\<^verbatim>\<open>packages/core/src/policy/redaction.ts\<close>). Arguments are trees of
  JavaScript values (they arrive as parsed JSON), so the guard against cycles has
  nothing to do here. The lemmas show that no value under a sensitive key survives
  at any depth, that the result is no deeper than the limit, and that the walk keeps
  the shape of the record.
\<close>

definition REDACTED :: string where "REDACTED = ''[redacted]''"

definition SENSITIVE_TOKENS :: "string list" where
  "SENSITIVE_TOKENS = [''password'', ''passwd'', ''passphrase'', ''pass'',
     ''secret'', ''token'', ''credential'', ''credentials'',
     ''authorization'', ''cookie'', ''session'', ''bearer'', ''jwt'', ''signature'',
     ''otp'', ''pin'', ''cvv'', ''cvc'', ''ssn'']"

definition SENSITIVE_PAIRS :: "(string \<times> string) list" where
  "SENSITIVE_PAIRS = [(''api'', ''key''), (''private'', ''key''), (''access'', ''key''), (''secret'', ''key''),
     (''client'', ''secret''), (''access'', ''token''), (''refresh'', ''token''), (''id'', ''token'')]"

text \<open>
  \<^verbatim>\<open>key.replace(/([a-z0-9])([A-Z])/g, '$1 $2')\<close>: a space between a lower-case letter or
  digit and an upper-case letter. The second character of a match is upper case, so no
  two matches overlap.
\<close>

fun split_camel :: "string \<Rightarrow> string" where
  "split_camel (a # b # s) =
     (if (is_lower a \<or> is_digit a) \<and> is_upper b then a # CHR '' '' # split_camel (b # s)
      else a # split_camel (b # s))"
| "split_camel s = s"

definition keyTokens :: "string \<Rightarrow> string list" where
  "keyTokens key =
     map to_lower (filter (\<lambda>part. part \<noteq> [])
       (split_on (CHR '' '') (map (\<lambda>c. if is_alnum c then c else CHR '' '') (split_camel key))))"

fun has_pair :: "string list \<Rightarrow> string \<times> string \<Rightarrow> bool" where
  "has_pair (a # b # ts) (x, y) = ((a = x \<and> b = y) \<or> has_pair (b # ts) (x, y))"
| "has_pair _ p = False"

definition isSensitiveKey :: "string \<Rightarrow> bool" where
  "isSensitiveKey key =
     (let tokens = keyTokens key in
      list_ex (\<lambda>t. t \<in> set SENSITIVE_TOKENS) tokens \<or> list_ex (has_pair tokens) SENSITIVE_PAIRS)"

record redact_options =
  ro_sensitiveKeys :: "string list option"
  ro_maxDepth :: "nat option"
  ro_maxStringLength :: "nat option"

definition no_options :: redact_options where
  "no_options = \<lparr>ro_sensitiveKeys = None, ro_maxDepth = None, ro_maxStringLength = None\<rparr>"

definition extra_keys :: "redact_options \<Rightarrow> string list" where
  "extra_keys opts = map to_lower (case ro_sensitiveKeys opts of Some ks \<Rightarrow> ks | None \<Rightarrow> [])"

definition max_depth :: "redact_options \<Rightarrow> nat" where
  "max_depth opts = (case ro_maxDepth opts of Some n \<Rightarrow> n | None \<Rightarrow> 8)"

definition max_string :: "redact_options \<Rightarrow> nat" where
  "max_string opts = (case ro_maxStringLength opts of Some n \<Rightarrow> n | None \<Rightarrow> 2000)"

definition sensitive :: "redact_options \<Rightarrow> string option \<Rightarrow> bool" where
  "sensitive opts key =
     (case key of None \<Rightarrow> False | Some k \<Rightarrow> isSensitiveKey k \<or> to_lower k \<in> set (extra_keys opts))"

text \<open>The ellipsis of the truncation mark is its UTF-8 encoding.\<close>

definition truncate_string :: "nat \<Rightarrow> string \<Rightarrow> string" where
  "truncate_string limit s =
     (if length s > limit
      then take limit s @ [CHR 0xE2, CHR 0x80, CHR 0xA6] @ ''[truncated '' @ show_nat (length s - limit) @ '']''
      else s)"

function walk :: "redact_options \<Rightarrow> jsv \<Rightarrow> nat \<Rightarrow> string option \<Rightarrow> jsv" where
  "walk opts JNull depth key = JNull"
| "walk opts JUndefined depth key = JUndefined"
| "walk opts (JStr s) depth key =
     (if sensitive opts key then JStr REDACTED else JStr (truncate_string (max_string opts) s))"
| "walk opts (JNum i) depth key = (if sensitive opts key then JStr REDACTED else JNum i)"
| "walk opts (JBool b) depth key = (if sensitive opts key then JStr REDACTED else JBool b)"
| "walk opts (JArr vs) depth key =
     (if sensitive opts key then JStr REDACTED
      else if depth \<ge> max_depth opts then JStr ''[depth limit]''
      else JArr (map (\<lambda>v. walk opts v (depth + 1) key) (take 100 vs)))"
| "walk opts (JObj es) depth key =
     (if sensitive opts key then JStr REDACTED
      else if depth \<ge> max_depth opts then JStr ''[depth limit]''
      else JObj (map (\<lambda>(k, v). (k, walk opts v (depth + 1) (Some k))) es))"
  by pat_completeness auto
termination
proof (relation "measure (\<lambda>(opts, v, d, k). size v)")
  show "((opts, v, depth + 1, key), opts, JArr vs, depth, key) \<in> measure (\<lambda>(opts, v, d, k). size v)"
    if "v \<in> set (take 100 vs)" for opts v depth key vs
    using size_list_estimation' [OF in_set_takeD [OF that], of "size v" size] by auto
  show "((opts, w, depth + 1, Some k), opts, JObj es, depth, key) \<in> measure (\<lambda>(opts, v, d, k). size v)"
    if "e \<in> set es" "(k, w) = e" for opts w depth k es key e
    using that by (induction es) auto
qed simp

definition redactDeep :: "jsv \<Rightarrow> redact_options \<Rightarrow> jsv" where
  "redactDeep value opts = walk opts value 0 None"

subsection \<open>Lemmas\<close>

text \<open>Nothing but a mark or an empty value under a sensitive key, anywhere.\<close>

fun hidden :: "jsv \<Rightarrow> bool" where
  "hidden v \<longleftrightarrow> v = JStr REDACTED \<or> v = JNull \<or> v = JUndefined"

inductive no_leak :: "redact_options \<Rightarrow> jsv \<Rightarrow> bool" for opts where
  no_leak_prim: "\<not> (\<exists>vs. v = JArr vs) \<Longrightarrow> \<not> (\<exists>es. v = JObj es) \<Longrightarrow> no_leak opts v"
| no_leak_arr: "(\<And>v. v \<in> set vs \<Longrightarrow> no_leak opts v) \<Longrightarrow> no_leak opts (JArr vs)"
| no_leak_obj: "(\<And>k v. (k, v) \<in> set es \<Longrightarrow>
      no_leak opts v \<and> (sensitive opts (Some k) \<longrightarrow> hidden v)) \<Longrightarrow> no_leak opts (JObj es)"

inductive_cases no_leak_arrE: "no_leak opts (JArr vs)"
inductive_cases no_leak_objE: "no_leak opts (JObj es)"

fun depth_of :: "jsv \<Rightarrow> nat" where
  "depth_of (JArr vs) = Suc (fold max (map depth_of vs) 0)"
| "depth_of (JObj es) = Suc (fold max (map (\<lambda>(k, v). depth_of v) es) 0)"
| "depth_of _ = 0"

lemma fold_max_le: "fold max xs (a::nat) \<le> n \<longleftrightarrow> a \<le> n \<and> (\<forall>x \<in> set xs. x \<le> n)"
  by (induction xs arbitrary: a) auto

lemma walk_sensitive: "sensitive opts key \<Longrightarrow> hidden (walk opts v depth key)"
  by (cases v) auto

lemma walk_no_leak: "no_leak opts (walk opts v depth key)"
proof (induction opts v depth key rule: walk.induct)
  case (6 opts vs depth key)
  then show ?case by (auto intro!: no_leak_arr intro: no_leak_prim)
next
  case (7 opts es depth key)
  show ?case
  proof (cases "sensitive opts key \<or> depth \<ge> max_depth opts")
    case False
    have "no_leak opts v \<and> (sensitive opts (Some k) \<longrightarrow> hidden v)"
      if "(k, v) \<in> set (map (\<lambda>(k, v). (k, walk opts v (depth + 1) (Some k))) es)" for k v
    proof -
      from that obtain w where w: "(k, w) \<in> set es" "v = walk opts w (depth + 1) (Some k)" by auto
      with 7 False walk_sensitive show ?thesis by (metis (no_types))
    qed
    with False show ?thesis by (auto intro!: no_leak_obj)
  qed (auto intro: no_leak_prim)
qed (auto intro: no_leak_prim)

lemma depth_bound:
  assumes "\<And>x. x \<in> set xs \<Longrightarrow> depth_of x + (d + 1) \<le> m" "d < (m::nat)"
  shows "Suc (fold max (map depth_of xs) 0) + d \<le> m"
proof -
  have "fold max (map depth_of xs) 0 \<le> m - (d + 1)"
    using assms(1) by (fastforce simp: fold_max_le)
  with assms(2) show ?thesis by linarith
qed

lemma walk_depth: "depth \<le> max_depth opts \<Longrightarrow> depth_of (walk opts v depth key) + depth \<le> max_depth opts"
proof (induction opts v depth key rule: walk.induct)
  case (6 opts vs depth key)
  show ?case
  proof (cases "sensitive opts key \<or> depth \<ge> max_depth opts")
    case False
    have "depth_of x + (depth + 1) \<le> max_depth opts"
      if "x \<in> set (map (\<lambda>v. walk opts v (depth + 1) key) (take 100 vs))" for x
      using that 6(1) False by auto
    from depth_bound [of "map (\<lambda>v. walk opts v (depth + 1) key) (take 100 vs)", OF this] False
    show ?thesis by (auto simp del: map_map)
  qed (use 6 in auto)
next
  case (7 opts es depth key)
  show ?case
  proof (cases "sensitive opts key \<or> depth \<ge> max_depth opts")
    case False
    have "depth_of x + (depth + 1) \<le> max_depth opts"
      if x: "x \<in> set (map (\<lambda>(k, v). walk opts v (depth + 1) (Some k)) es)" for x
    proof -
      from x obtain k v where "(k, v) \<in> set es" "x = walk opts v (depth + 1) (Some k)" by auto
      with 7(1) [OF _ _ _ refl] False show ?thesis by (metis Suc_eq_plus1 Suc_leI not_le)
    qed
    from depth_bound [of "map (\<lambda>(k, v). walk opts v (depth + 1) (Some k)) es", OF this] False show ?thesis
      by (auto simp: comp_def case_prod_beta)
  qed (use 7 in auto)
qed auto

lemma walk_keys: "walk opts (JObj es) depth key = JObj fs \<Longrightarrow> map fst fs = map fst es"
  by (auto simp: comp_def case_prod_beta split: if_splits)

subsection \<open>Spellings of a key\<close>

definition lower_word :: "string \<Rightarrow> bool" where
  "lower_word w \<longleftrightarrow> 2 \<le> length w \<and> (\<forall>c \<in> set w. is_lower c)"

definition to_upper_char :: "char \<Rightarrow> char" where
  "to_upper_char c = (if is_lower c then char_of (code c - 32) else c)"

fun capitalise :: "string \<Rightarrow> string" where
  "capitalise [] = []"
| "capitalise (c # s) = to_upper_char c # s"

definition camel_case :: "string list \<Rightarrow> string" where
  "camel_case ws = (case ws of [] \<Rightarrow> [] | w # rest \<Rightarrow> w @ concat (map capitalise rest))"

lemma code_char_of: "n < 256 \<Longrightarrow> code (char_of n) = n"
  by (simp add: code_def of_char_of)

lemma char_of_code: "char_of (code c) = c"
  by (simp add: code_def)

lemma lower_not_upper: "is_lower c \<Longrightarrow> \<not> is_upper c"
  by (auto simp: is_lower_def is_upper_def)

lemma upper_to_upper: "is_lower c \<Longrightarrow> is_upper (to_upper_char c) \<and> to_lower_char (to_upper_char c) = c"
  by (auto simp: to_upper_char_def to_lower_char_def is_lower_def is_upper_def code_char_of char_of_code)

lemma lower_alnum: "is_lower c \<Longrightarrow> is_alnum c \<and> c \<noteq> CHR '' '' \<and> to_lower_char c = c"
  by (auto simp: is_alnum_def is_lower_def to_lower_char_def is_upper_def code_def)

lemma upper_alnum: "is_upper c \<Longrightarrow> is_alnum c \<and> c \<noteq> CHR '' '' \<and> \<not> is_lower c \<and> \<not> is_digit c"
  by (auto simp: is_alnum_def is_lower_def is_digit_def is_upper_def code_def)

lemma split_camel_no_upper: "\<forall>c \<in> set s. \<not> is_upper c \<Longrightarrow> split_camel s = s"
  by (induction s rule: split_camel.induct) auto

lemma split_on_append_sep:
  "c \<notin> set u \<Longrightarrow> split_on c (u @ c # s) = u # split_on c s"
  by (induction u) auto

lemma split_on_join:
  "ws \<noteq> [] \<Longrightarrow> \<forall>w \<in> set ws. c \<notin> set w \<Longrightarrow> split_on c (join_with [c] ws) = ws"
  by (induction "[c]" ws rule: join_with.induct) (auto simp: split_on_no_sep split_on_append_sep)

lemma map_join: "map f (join_with s ws) = join_with (map f s) (map (map f) ws)"
  by (induction s ws rule: join_with.induct) auto

lemma split_camel_lower_append:
  "u \<noteq> [] \<Longrightarrow> \<forall>c \<in> set u. is_lower c \<Longrightarrow> is_upper d \<Longrightarrow>
   split_camel (u @ d # s) = u @ CHR '' '' # split_camel (d # s)"
proof (induction u)
  case (Cons a u)
  then show ?case by (cases u) (auto dest: lower_not_upper)
qed simp

lemma split_camel_upper: "is_upper d \<Longrightarrow> split_camel (d # s) = d # split_camel s"
  by (cases s) (auto dest: upper_alnum)

lemma split_camel_words:
  "w \<noteq> [] \<Longrightarrow> \<forall>c \<in> set w. is_lower c \<Longrightarrow> \<forall>w \<in> set ws. lower_word w \<Longrightarrow>
   split_camel (w @ concat (map capitalise ws)) = join_with '' '' (w # map capitalise ws)"
proof (induction ws arbitrary: w)
  case Nil
  then show ?case by (auto intro!: split_camel_no_upper dest: lower_not_upper)
next
  case (Cons v ws)
  from Cons.prems obtain c d v' where v: "v = c # d # v'"
    by (cases v; cases "tl v") (auto simp: lower_word_def)
  have up: "is_upper (to_upper_char c)" and low: "\<forall>c \<in> set (d # v'). is_lower c"
    using Cons.prems v upper_to_upper by (auto simp: lower_word_def)
  have "split_camel ((d # v') @ concat (map capitalise ws)) = join_with '' '' ((d # v') # map capitalise ws)"
    using low Cons.prems by (intro Cons.IH) auto
  then show ?case
    using split_camel_lower_append [OF Cons.prems(1,2) up] split_camel_upper [OF up] v
    by (cases ws) auto
qed

text \<open>The tokens of a text whose words are separated by blanks.\<close>

definition words_of :: "string list \<Rightarrow> string \<Rightarrow> bool" where
  "words_of ws s \<longleftrightarrow> (\<exists>us. s = join_with '' '' us \<and> map to_lower us = ws \<and> us \<noteq> [] \<and>
     (\<forall>u \<in> set us. u \<noteq> [] \<and> (\<forall>c \<in> set u. is_alnum c)))"

lemma space_not_alnum: "\<not> is_alnum (CHR '' '')"
  by (simp add: is_alnum_def is_lower_def is_upper_def is_digit_def code_def)

lemma keyTokens_words:
  assumes "words_of ws (map (\<lambda>c. if is_alnum c then c else CHR '' '') (split_camel key))"
  shows "keyTokens key = ws"
proof -
  from assms obtain us where us: "map (\<lambda>c. if is_alnum c then c else CHR '' '') (split_camel key) = join_with '' '' us"
    "map to_lower us = ws" "us \<noteq> []" "\<forall>u \<in> set us. u \<noteq> [] \<and> (\<forall>c \<in> set u. is_alnum c)"
    by (auto simp: words_of_def)
  have "split_on (CHR '' '') (join_with '' '' us) = us"
    using us(3,4) space_not_alnum by (intro split_on_join) auto
  moreover have "filter (\<lambda>part. part \<noteq> []) us = us" using us(4) by (simp add: filter_id_conv)
  ultimately show ?thesis using us(1,2) by (simp add: keyTokens_def)
qed

lemma map_blank_alnum: "\<forall>c \<in> set s. is_alnum c \<Longrightarrow> map (\<lambda>c. if is_alnum c then c else CHR '' '') s = s"
  by (induction s) auto

lemma set_join_with: "set (join_with s ws) \<subseteq> set s \<union> \<Union> (set ` set ws)"
  by (induction s ws rule: join_with.induct) auto

lemma to_lower_lower: "\<forall>c \<in> set w. is_lower c \<Longrightarrow> to_lower w = w"
  by (induction w) (auto simp: to_lower_def lower_alnum)

lemma keyTokens_separated:
  assumes "ws \<noteq> []" "\<forall>w \<in> set ws. lower_word w" "\<not> is_alnum sep"
  shows "keyTokens (join_with [sep] ws) = ws"
proof (rule keyTokens_words)
  have lower: "\<forall>w \<in> set ws. w \<noteq> [] \<and> (\<forall>c \<in> set w. is_lower c)"
    using assms(2) by (auto simp: lower_word_def)
  have "split_camel (join_with [sep] ws) = join_with [sep] ws"
    using set_join_with [of "[sep]" ws] lower assms(3)
    by (intro split_camel_no_upper) (auto dest: lower_not_upper upper_alnum)
  moreover have "map (map (\<lambda>c. if is_alnum c then c else CHR '' '')) ws = ws"
    using lower by (intro map_idI map_blank_alnum) (auto dest: lower_alnum)
  ultimately have eq: "map (\<lambda>c. if is_alnum c then c else CHR '' '') (split_camel (join_with [sep] ws)) = join_with '' '' ws"
    using assms(3) by (simp add: map_join)
  have "map to_lower ws = ws" using lower by (intro map_idI to_lower_lower) auto
  then show "words_of ws (map (\<lambda>c. if is_alnum c then c else CHR '' '') (split_camel (join_with [sep] ws)))"
    unfolding words_of_def eq using assms(1) lower by (intro exI [of _ ws]) (auto dest: lower_alnum)
qed

lemma capitalise_word:
  "lower_word w \<Longrightarrow> to_lower (capitalise w) = w \<and> capitalise w \<noteq> [] \<and> (\<forall>c \<in> set (capitalise w). is_alnum c)"
  by (cases w) (auto simp: lower_word_def to_lower_def upper_to_upper lower_alnum upper_alnum intro: map_idI)

lemma keyTokens_camel:
  assumes "ws \<noteq> []" "\<forall>w \<in> set ws. lower_word w"
  shows "keyTokens (camel_case ws) = ws"
proof (rule keyTokens_words)
  obtain w rest where ws: "ws = w # rest" using assms(1) by (cases ws) auto
  let ?us = "w # map capitalise rest"
  have w: "w \<noteq> []" "\<forall>c \<in> set w. is_lower c" using assms(2) ws by (auto simp: lower_word_def)
  have alnum: "\<forall>u \<in> set ?us. u \<noteq> [] \<and> (\<forall>c \<in> set u. is_alnum c)"
    using w assms(2) ws capitalise_word by (auto dest: lower_alnum)
  have "split_camel (camel_case ws) = join_with '' '' ?us"
    using split_camel_words [OF w] assms(2) ws by (auto simp: camel_case_def)
  moreover have "map (map (\<lambda>c. if is_alnum c then c else CHR '' '')) ?us = ?us"
    using alnum by (intro map_idI map_blank_alnum) auto
  ultimately have "map (\<lambda>c. if is_alnum c then c else CHR '' '') (split_camel (camel_case ws)) = join_with '' '' ?us"
    by (simp only: map_join) (simp add: space_not_alnum)
  moreover have "map to_lower ?us = ws"
    using w assms(2) ws capitalise_word by (auto simp: to_lower_lower intro!: map_idI)
  ultimately show "words_of ws (map (\<lambda>c. if is_alnum c then c else CHR '' '') (split_camel (camel_case ws)))"
    unfolding words_of_def using alnum by blast
qed

subsection \<open>Properties\<close>

text \<open>
  No secret handed over by name is written down: in the redacted value, at every depth and inside
  every list, the value under a key that names a secret (by a sensitive token or pair in any
  spelling, or by an extra key of the tool) is the redaction mark or was empty, and the value is at
  most as deep as the limit.
\<close>

theorem redactDeep_hides_secrets:
  "no_leak opts (redactDeep v opts) \<and> depth_of (redactDeep v opts) \<le> max_depth opts"
  using walk_no_leak [of opts v 0 None] walk_depth [of 0 opts v None] by (simp add: redactDeep_def)

text \<open>
  C68. Every spelling of a key counts: the words of a key are recovered alike from camel case and from any
  separator that is not a letter or digit, so \<^verbatim>\<open>apiKey\<close>, \<^verbatim>\<open>api_key\<close> and \<^verbatim>\<open>api-key\<close> are sensitive together
  or not at all, whatever the words.
\<close>

theorem key_spellings_agree:
  assumes "ws \<noteq> []" "\<forall>w \<in> set ws. lower_word w" "\<not> is_alnum sep"
  shows "keyTokens (camel_case ws) = ws \<and> keyTokens (join_with [sep] ws) = ws \<and>
    isSensitiveKey (camel_case ws) = isSensitiveKey (join_with [sep] ws)"
  using keyTokens_camel [OF assms(1,2)] keyTokens_separated [OF assms] by (simp add: isSensitiveKey_def)

theorem key_spellings_agree_witness:
  "isSensitiveKey (camel_case [''api'', ''key'']) = isSensitiveKey (join_with ''-'' [''api'', ''key''])"
  using key_spellings_agree [of "[''api'', ''key'']" "CHR ''-''"]
  by (simp add: lower_word_def is_lower_def is_alnum_def is_upper_def is_digit_def code_def)

end
