(* ===== verification/Tool_Phase.thy ===== *)
theory Tool_Phase
  imports Model_Call Loop_Detection Redaction
begin

text \<open>
  One tool phase (\<^verbatim>\<open>packages/runtime/src/tool-phase.ts\<close>): the calls of an assistant message, executed in
  batches and answered by one tool message.

  The gateway is an argument: \<open>gw name args w\<close> is what \<^verbatim>\<open>invoke\<close> returns, or throws, and the world after it.
  The calls of a batch run concurrently in the code; here they take effect in the order in which they are
  started, and all of them have run before the batch is examined, as \<^verbatim>\<open>Promise.all\<close> has it. \<open>elapsed\<close> is the
  duration the clock gives for a call that threw.
\<close>

subsection \<open>Data\<close>

datatype tool_outcome =
    Tool_done "content_block list" "jsv option" bool id int int
      "(perm_effect \<times> string option \<times> string option) option"
  | Needs_approval id string
  | Needs_input id string
  | Task_pending string id

record requested_call =
  rc_id :: string
  rc_canonicalName :: string
  rc_input :: jsv

datatype suspend_reason = For_approval | For_input | For_tool

datatype phase_outcome =
    Complete "tool_invocation_result list" "content_block list"
  | Suspended suspend_reason "id option" "string option" string "tool_invocation_result list"
  | Refused string "content_block list"

type_synonym 'w invoker = "string \<Rightarrow> jsv \<Rightarrow> 'w \<Rightarrow> (string + tool_outcome) \<times> 'w"

type_synonym completed_map = "(string \<times> tool_invocation_result) list"

definition DEFAULT_MAX_PARALLEL :: nat where
  "DEFAULT_MAX_PARALLEL = 6"

subsection \<open>Operations\<close>

definition observe :: "requested_call \<Rightarrow> observed_call" where
  "observe c = \<lparr>oc_canonicalName = rc_canonicalName c, oc_args = rc_input c\<rparr>"

text \<open>The dash of the message, in UTF-8.\<close>

definition em_dash :: string where
  "em_dash = [CHR 0xE2, CHR 0x80, CHR 0x94]"

definition loop_message :: "nat \<Rightarrow> string" where
  "loop_message repeats_made =
     ''This exact call was already made '' @ show_nat (repeats_made - 1) @
     '' times with the same arguments and returned the same result. Repeating it will not produce a different '' @
     ''answer '' @ em_dash @ '' change the arguments, use a different tool, or answer with what you have.''"

definition orderedResults :: "requested_call list \<Rightarrow> completed_map \<Rightarrow> tool_invocation_result list" where
  "orderedResults calls completed = List.map_filter (\<lambda>c. map_of completed (rc_id c)) calls"

definition invoke_call ::
  "'w invoker \<Rightarrow> 'w publisher \<Rightarrow> (requested_call \<Rightarrow> int) \<Rightarrow> requested_call \<Rightarrow> 'w \<Rightarrow> (string + tool_outcome) \<times> 'w" where
  "invoke_call gw pub elapsed c w =
     (case pub ''tool_call_started'' (JObj [(''id'', JStr (rc_id c)), (''name'', JStr (rc_canonicalName c))]) w of
        (Some message, w') \<Rightarrow> (Inl message, w')
      | (None, w') \<Rightarrow>
          (case gw (rc_canonicalName c) (rc_input c) w' of
             (Inl message, w'') \<Rightarrow>
               (Inr (Tool_done [Text (''The tool could not be run: '' @ message)] None True [] (elapsed c) 0 None), w'')
           | (Inr outcome, w'') \<Rightarrow> (Inr outcome, w'')))"

fun invoke_batch ::
  "'w invoker \<Rightarrow> 'w publisher \<Rightarrow> (requested_call \<Rightarrow> int) \<Rightarrow> requested_call list \<Rightarrow> 'w \<Rightarrow>
   (requested_call \<times> (string + tool_outcome)) list \<times> 'w" where
  "invoke_batch gw pub elapsed [] w = ([], w)"
| "invoke_batch gw pub elapsed (c # cs) w =
     (let (outcome, w') = invoke_call gw pub elapsed c w;
          (outcomes, w'') = invoke_batch gw pub elapsed cs w'
      in ((c, outcome) # outcomes, w''))"

fun rejection :: "(requested_call \<times> (string + tool_outcome)) list \<Rightarrow> string option" where
  "rejection [] = None"
| "rejection ((c, Inl message) # outcomes) = Some message"
| "rejection ((c, Inr outcome) # outcomes) = rejection outcomes"

definition completed_call ::
  "requested_call \<Rightarrow> content_block list \<Rightarrow> jsv option \<Rightarrow> bool \<Rightarrow> id \<Rightarrow> int \<Rightarrow> int \<Rightarrow>
   (perm_effect \<times> string option \<times> string option) option \<Rightarrow> tool_invocation_result" where
  "completed_call c content structured isError bindingId durationMs mrtrRounds perm =
     \<lparr>tir_id = rc_id c, tir_canonicalName = rc_canonicalName c, tir_content = content,
      tir_structured = structured, tir_isError = isError, tir_bindingId = Some bindingId,
      tir_durationMs = durationMs, tir_mrtrRounds = mrtrRounds,
      tir_argumentsRedacted = Some (redactDeep (rc_input c) no_options), tir_permission = perm\<rparr>"

definition finished_payload :: "requested_call \<Rightarrow> tool_invocation_result \<Rightarrow> jsv" where
  "finished_payload c r = JObj [(''id'', JStr (rc_id c)), (''name'', JStr (rc_canonicalName c)),
     (''isError'', JBool (tir_isError r)), (''durationMs'', JNum (tir_durationMs r))]"

text \<open>What the loop over a batch's outcomes ends with.\<close>

datatype batch_end =
    Batch_threw string
  | Batch_suspended phase_outcome
  | Batch_done completed_map

fun settle ::
  "'w publisher \<Rightarrow> requested_call list \<Rightarrow> (requested_call \<times> (string + tool_outcome)) list \<Rightarrow> completed_map \<Rightarrow>
   loop_detector \<Rightarrow> 'w \<Rightarrow> batch_end \<times> loop_detector \<times> 'w" where
  "settle pub calls [] completed d w = (Batch_done completed, d, w)"
| "settle pub calls ((c, Inl message) # outcomes) completed d w = (Batch_threw message, d, w)"
| "settle pub calls ((c, Inr (Tool_done content structured isError bindingId ms rounds perm)) # outcomes) completed d w =
     (let r = completed_call c content structured isError bindingId ms rounds perm;
          d' = record_call (observe c) d
      in case pub ''tool_call_finished'' (finished_payload c r) w of
           (Some message, w') \<Rightarrow> (Batch_threw message, d', w')
         | (None, w') \<Rightarrow> settle pub calls outcomes ((rc_id c, r) # completed) d' w')"
| "settle pub calls ((c, Inr (Needs_approval approvalId reason)) # outcomes) completed d w =
     (Batch_suspended (Suspended For_approval (Some approvalId) None (rc_id c) (orderedResults calls completed)), d, w)"
| "settle pub calls ((c, Inr (Needs_input approvalId requestState)) # outcomes) completed d w =
     (Batch_suspended (Suspended For_input (Some approvalId) (Some requestState) (rc_id c) (orderedResults calls completed)), d, w)"
| "settle pub calls ((c, Inr (Task_pending taskId bindingId)) # outcomes) completed d w =
     (Batch_suspended (Suspended For_tool None None (rc_id c) (orderedResults calls completed)), d, w)"

definition result_message :: "tool_invocation_result list \<Rightarrow> content_block list" where
  "result_message rs = map (\<lambda>r. toolResultBlock (tir_id r) (tir_content r) (tir_structured r) (Some (tir_isError r))) rs"

text \<open>The batches of \<open>Suc extra\<close> calls.\<close>

function run_batches ::
  "'w invoker \<Rightarrow> 'w publisher \<Rightarrow> (requested_call \<Rightarrow> int) \<Rightarrow> requested_call list \<Rightarrow> nat \<Rightarrow> requested_call list \<Rightarrow>
   completed_map \<Rightarrow> loop_detector \<Rightarrow> 'w \<Rightarrow> (string + phase_outcome) \<times> loop_detector \<times> 'w" where
  "run_batches gw pub elapsed calls extra [] completed d w =
     (let ordered = orderedResults calls completed
      in (Inr (Complete ordered (result_message ordered)), d, w))"
| "run_batches gw pub elapsed calls extra (c # cs) completed d w =
     (let (outcomes, w1) = invoke_batch gw pub elapsed (take (Suc extra) (c # cs)) w
      in case rejection outcomes of
           Some message \<Rightarrow> (Inl message, d, w1)
         | None \<Rightarrow>
             (case settle pub calls outcomes completed d w1 of
                (Batch_threw message, d2, w2) \<Rightarrow> (Inl message, d2, w2)
              | (Batch_suspended outcome, d2, w2) \<Rightarrow> (Inr outcome, d2, w2)
              | (Batch_done completed', d2, w2) \<Rightarrow>
                  run_batches gw pub elapsed calls extra (drop extra cs) completed' d2 w2))"
  by pat_completeness auto
termination
  by (relation "measure (\<lambda>(gw, pub, elapsed, calls, extra, cs, completed, d, w). length cs)") auto

definition phase_concurrency :: "model_capabilities \<Rightarrow> nat" where
  "phase_concurrency caps = (if mc_parallelCalls caps then DEFAULT_MAX_PARALLEL else 1)"

definition outstanding_calls :: "requested_call list \<Rightarrow> completed_map \<Rightarrow> requested_call list" where
  "outstanding_calls calls already = filter (\<lambda>c. map_of already (rc_id c) = None) calls"

definition run_phase ::
  "'w invoker \<Rightarrow> 'w publisher \<Rightarrow> (requested_call \<Rightarrow> int) \<Rightarrow> requested_call list \<Rightarrow> model_capabilities \<Rightarrow> completed_map \<Rightarrow>
   loop_detector \<Rightarrow> 'w \<Rightarrow> (string + phase_outcome) \<times> loop_detector \<times> 'w" where
  "run_phase gw pub elapsed calls caps already d w =
     (let outstanding = outstanding_calls calls already
      in case inspectPhase d (map observe outstanding) of
           Looping name n \<Rightarrow>
             (Inr (Refused (loop_message n) (map (\<lambda>c. toolResultBlock (rc_id c) [Text (loop_message n)] None (Some True)) calls)), d, w)
         | Not_looping \<Rightarrow>
             run_batches gw pub elapsed calls (phase_concurrency caps - 1) outstanding already d w)"

subsection \<open>What a phase executes\<close>

text \<open>The gateway with a log of the calls it was given.\<close>

definition request_of :: "requested_call \<Rightarrow> string \<times> jsv" where
  "request_of c = (rc_canonicalName c, rc_input c)"

definition recording :: "'w invoker \<Rightarrow> ('w \<times> (string \<times> jsv) list) invoker" where
  "recording gw name args = (\<lambda>(w, past). (case gw name args w of (r, w') \<Rightarrow> (r, w', past @ [(name, args)])))"

definition quietly :: "'w publisher \<Rightarrow> ('w \<times> (string \<times> jsv) list) publisher" where
  "quietly pub type payload = (\<lambda>(w, past). (case pub type payload w of (r, w') \<Rightarrow> (r, w', past)))"

definition ok_map :: "completed_map \<Rightarrow> bool" where
  "ok_map m \<longleftrightarrow> (\<forall>(k, r) \<in> set m. tir_id r = k)"

lemma orderedResults_ids:
  assumes "ok_map m" "\<forall>c \<in> set calls. map_of m (rc_id c) \<noteq> None"
  shows "map tir_id (orderedResults calls m) = map rc_id calls"
  using assms(2)
proof (induction calls)
  case (Cons c calls)
  then obtain r where "map_of m (rc_id c) = Some r" by auto
  with Cons show ?case using assms(1) by (auto simp: orderedResults_def ok_map_def dest: map_of_SomeD)
qed (simp add: orderedResults_def)

lemma orderedResults_mem:
  assumes "ok_map m" "c \<in> set calls" "map_of m (rc_id c) = Some r"
  shows "r \<in> set (orderedResults calls m) \<and> tir_id r = rc_id c"
proof -
  have "r \<in> set (orderedResults calls m)"
    using assms(2,3) by (induction calls) (auto simp: orderedResults_def split: option.splits)
  then show ?thesis using assms(1,3) by (auto simp: ok_map_def dest: map_of_SomeD)
qed

lemma ok_map_set [simp]:
  "ok_map ((rc_id c, completed_call c content structured isError bindingId ms rounds perm) # m) \<longleftrightarrow> ok_map m"
  by (simp add: ok_map_def completed_call_def)

lemma invoke_call_log:
  assumes "invoke_call (recording gw) (quietly pub) elapsed c (w, past) = (r, w', past')"
  shows "past' = past @ (case r of Inl _ \<Rightarrow> [] | Inr _ \<Rightarrow> [request_of c])"
  using assms
  by (auto simp: invoke_call_def quietly_def recording_def request_of_def split: prod.splits option.splits sum.splits)

lemma invoke_batch_log:
  assumes "invoke_batch (recording gw) (quietly pub) elapsed cs (w, past) = (outcomes, w', past')" "rejection outcomes = None"
  shows "past' = past @ map request_of cs \<and> map fst outcomes = cs \<and> (\<forall>x \<in> set outcomes. \<exists>y. snd x = Inr y)"
  using assms
proof (induction cs arbitrary: w past outcomes w' past')
  case (Cons c cs)
  obtain r w1 past1 where c: "invoke_call (recording gw) (quietly pub) elapsed c (w, past) = (r, w1, past1)"
    by (metis surj_pair)
  obtain os w2 past2 where cs: "invoke_batch (recording gw) (quietly pub) elapsed cs (w1, past1) = (os, w2, past2)"
    by (metis surj_pair)
  from Cons.prems c cs have out: "outcomes = (c, r) # os" "past' = past2" "w' = w2" by auto
  with Cons.prems(2) obtain y where r: "r = Inr y" "rejection os = None" by (cases r) auto
  from Cons.IH [OF cs r(2)] invoke_call_log [OF c] r(1) out show ?case by auto
qed auto

lemma settle_log:
  "settle (quietly pub) calls outcomes completed d (w, past) = (r, d', w', past') \<Longrightarrow> past' = past"
  by (induction "quietly pub" calls outcomes completed d "(w, past)" arbitrary: w rule: settle.induct)
    (auto simp: Let_def quietly_def split: prod.splits option.splits)

text \<open>The loop over the outcomes: it goes on after a result that could be published, and stops otherwise.\<close>

lemma settle_Cons:
  assumes "settle pub calls ((c, r) # outcomes) completed d w = (out, d', w')"
  shows "(\<exists>content structured isError bindingId ms rounds perm d1 w1.
       r = Inr (Tool_done content structured isError bindingId ms rounds perm) \<and>
       settle pub calls outcomes ((rc_id c, completed_call c content structured isError bindingId ms rounds perm) # completed)
         d1 w1 = (out, d', w')) \<or>
    (\<exists>message. out = Batch_threw message) \<or>
    (\<exists>reason a rs. out = Batch_suspended (Suspended reason a rs (rc_id c) (orderedResults calls completed)))"
proof (cases r)
  case (Inr y)
  with assms show ?thesis by (cases y) (auto simp: Let_def split: prod.splits option.splits)
qed (use assms in auto)

lemma settle_done:
  assumes "settle pub calls outcomes completed d w = (Batch_done completed', d', w')" "ok_map completed"
  shows "ok_map completed' \<and> dom (map_of completed') = dom (map_of completed) \<union> rc_id ` fst ` set outcomes"
  using assms
proof (induction outcomes arbitrary: completed d w)
  case (Cons x outcomes)
  obtain c r where x: "x = (c, r)" by (cases x)
  from settle_Cons [OF Cons.prems(1) [unfolded x]] obtain v d1 w1 where
    go: "settle pub calls outcomes ((rc_id c, v) # completed) d1 w1 = (Batch_done completed', d', w')"
      "ok_map ((rc_id c, v) # completed)"
    using Cons.prems(2) by (metis batch_end.distinct(3,5) ok_map_set)
  from Cons.IH [OF go] x show ?case by auto
qed auto

lemma settle_suspended:
  assumes "settle pub calls outcomes completed d w = (Batch_suspended out, d', w')" "ok_map completed"
  shows "\<exists>reason a rs pre c o' post m. out = Suspended reason a rs (rc_id c) (orderedResults calls m) \<and>
    outcomes = pre @ (c, o') # post \<and> ok_map m \<and> dom (map_of m) = dom (map_of completed) \<union> rc_id ` fst ` set pre"
  using assms
proof (induction outcomes arbitrary: completed d w)
  case (Cons x outcomes)
  obtain c r where x: "x = (c, r)" by (cases x)
  from settle_Cons [OF Cons.prems(1) [unfolded x]] show ?case
  proof (elim disjE exE conjE)
    fix content structured isError bindingId ms rounds perm d1 w1
    let ?v = "completed_call c content structured isError bindingId ms rounds perm"
    assume "settle pub calls outcomes ((rc_id c, ?v) # completed) d1 w1 = (Batch_suspended out, d', w')"
    from Cons.IH [OF this, unfolded ok_map_set, OF Cons.prems(2)] obtain reason a rs pre c' o' post m where
      IH: "out = Suspended reason a rs (rc_id c') (orderedResults calls m)" "outcomes = pre @ (c', o') # post" "ok_map m"
        "dom (map_of m) = dom (map_of ((rc_id c, ?v) # completed)) \<union> rc_id ` fst ` set pre"
      by (elim exE conjE) (rule that)
    then have "x # outcomes = (x # pre) @ (c', o') # post"
      "dom (map_of m) = dom (map_of completed) \<union> rc_id ` fst ` set (x # pre)" using x by auto
    with IH(1,3) show ?thesis by blast
  next
    fix reason a rs
    assume "Batch_suspended out = Batch_suspended (Suspended reason a rs (rc_id c) (orderedResults calls completed))"
    then show ?thesis using Cons.prems(2) x
      by (intro exI [of _ reason] exI [of _ a] exI [of _ rs] exI [of _ "[]"] exI [of _ c] exI [of _ r]
          exI [of _ outcomes] exI [of _ completed]) simp
  qed simp
qed auto

definition batch_result ::
  "requested_call list \<Rightarrow> requested_call list \<Rightarrow> nat \<Rightarrow> completed_map \<Rightarrow> (string \<times> jsv) list \<Rightarrow> phase_outcome \<Rightarrow> bool" where
  "batch_result calls todo extra completed made outcome \<longleftrightarrow>
     (case outcome of
        Complete rs msg \<Rightarrow> made = map request_of todo \<and> msg = result_message rs \<and>
          (\<exists>m. rs = orderedResults calls m \<and> ok_map m \<and> dom (map_of m) = dom (map_of completed) \<union> rc_id ` set todo)
      | Suspended reason a st pid rs \<Rightarrow> \<exists>pre c post later m. todo = pre @ c # post @ later \<and> pid = rc_id c \<and>
          made = map request_of (pre @ c # post) \<and> length post \<le> extra \<and>
          rs = orderedResults calls m \<and> ok_map m \<and> dom (map_of m) = dom (map_of completed) \<union> rc_id ` set pre
      | Refused text msg \<Rightarrow> False)"

lemma batch_result_step:
  assumes "batch_result calls todo extra completed' made outcome" "dom (map_of completed') = dom (map_of completed) \<union> rc_id ` set b"
  shows "batch_result calls (b @ todo) extra completed (map request_of b @ made) outcome"
proof (cases outcome)
  case (Complete rs msg)
  with assms show ?thesis by (auto simp: batch_result_def image_Un Un_assoc)
next
  case (Suspended reason a st pid rs)
  with assms(1) obtain pre c post later m where m: "todo = pre @ c # post @ later" "pid = rc_id c"
    "made = map request_of (pre @ c # post)" "length post \<le> extra" "rs = orderedResults calls m" "ok_map m"
    "dom (map_of m) = dom (map_of completed') \<union> rc_id ` set pre"
    unfolding batch_result_def by auto
  then have "b @ todo = (b @ pre) @ c # post @ later" "map request_of b @ made = map request_of ((b @ pre) @ c # post)"
    "dom (map_of m) = dom (map_of completed) \<union> rc_id ` set (b @ pre)" using assms(2) by auto
  with m(2,4,5,6) show ?thesis unfolding Suspended batch_result_def phase_outcome.case by blast
qed (use assms in \<open>auto simp: batch_result_def\<close>)

lemma run_batches_result:
  assumes "run_batches (recording gw) (quietly pub) elapsed calls extra todo completed d (w, past) = (Inr outcome, d', w', past')"
    and "ok_map completed"
  shows "\<exists>made. past' = past @ made \<and> batch_result calls todo extra completed made outcome"
  using assms
proof (induction "length todo" arbitrary: todo completed d w past rule: less_induct)
  case less
  show ?case
  proof (cases todo)
    case Nil
    with less.prems show ?thesis by (auto simp: batch_result_def Let_def)
  next
    case (Cons c cs)
    let ?b = "take (Suc extra) todo" and ?rest = "drop (Suc extra) todo"
    obtain os w1 past1 where os: "invoke_batch (recording gw) (quietly pub) elapsed ?b (w, past) = (os, w1, past1)"
      by (metis surj_pair)
    obtain r d2 w2 past2 where r: "settle (quietly pub) calls os completed d (w1, past1) = (r, d2, w2, past2)"
      by (metis surj_pair)
    note run = less.prems(1) [unfolded Cons run_batches.simps, folded Cons]
    have none: "rejection os = None" using run os Cons by (auto split: option.splits)
    note batch = invoke_batch_log [OF os none] and kept = settle_log [OF r]
    from batch have ids: "rc_id ` fst ` set os = rc_id ` set ?b" by (metis list.set_map)
    show ?thesis
    proof (cases r)
      case (Batch_done completed')
      then have rest: "run_batches (recording gw) (quietly pub) elapsed calls extra ?rest completed' d2 (w2, past2) =
          (Inr outcome, d', w', past')"
        using run os none r Cons by simp
      from settle_done [OF r [unfolded Batch_done] less.prems(2)] ids have
        fin: "ok_map completed'" "dom (map_of completed') = dom (map_of completed) \<union> rc_id ` set ?b" by auto
      obtain made where "past' = past2 @ made" "batch_result calls ?rest extra completed' made outcome"
        using less.hyps [OF _ rest fin(1)] Cons by (auto simp: less_Suc_eq_le)
      with batch_result_step [OF _ fin(2)] batch kept show ?thesis
        by (metis append.assoc append_take_drop_id)
    next
      case (Batch_suspended out)
      from settle_suspended [OF r [unfolded Batch_suspended] less.prems(2)] obtain reason a st pre c' o' post m where
        s: "out = Suspended reason a st (rc_id c') (orderedResults calls m)" "os = pre @ (c', o') # post" "ok_map m"
          "dom (map_of m) = dom (map_of completed) \<union> rc_id ` fst ` set pre"
        by (elim exE conjE) (rule that)
      from batch s(2) have b: "?b = map fst pre @ c' # map fst post" by auto
      then have "length (map fst post) \<le> extra" using length_take [of "Suc extra" todo]
        by (metis (no_types, lifting) Suc_le_mono add_leD2 length_Cons length_append min.cobounded2)
      moreover have "todo = map fst pre @ c' # map fst post @ ?rest" using b append_take_drop_id [of "Suc extra" todo] by simp
      moreover have "dom (map_of m) = dom (map_of completed) \<union> rc_id ` set (map fst pre)" using s(4) by simp
      ultimately have "batch_result calls todo extra completed (map request_of (map fst pre @ c' # map fst post)) out"
        using s(3) unfolding s(1) batch_result_def phase_outcome.case
        by (intro exI [of _ "map fst pre"] exI [of _ c'] exI [of _ "map fst post"] exI [of _ ?rest] exI [of _ m] conjI refl)
      moreover have "outcome = out" "past' = past2" using run os none r Cons Batch_suspended by auto
      then have "outcome = out" "past' = past @ map request_of (map fst pre @ c' # map fst post)"
        using batch kept by (simp_all only: b)
      ultimately show ?thesis by blast
    next
      case (Batch_threw message)
      then show ?thesis using run os none r Cons by simp
    qed
  qed
qed

text \<open>Recording only observes: forgetting the log gives the run without it.\<close>

definition forget :: "'r \<times> 'w \<times> 'l \<Rightarrow> 'r \<times> 'w" where
  "forget = (\<lambda>(r, w, l). (r, w))"

definition forget2 :: "'r \<times> 'd \<times> 'w \<times> 'l \<Rightarrow> 'r \<times> 'd \<times> 'w" where
  "forget2 = (\<lambda>(r, d, w, l). (r, d, w))"

lemma forget_quietly: "forget (quietly pub type payload (w, past)) = pub type payload w"
  by (simp add: forget_def quietly_def split: prod.splits)

lemma forget_recording: "forget (recording gw name args (w, past)) = gw name args w"
  by (simp add: forget_def recording_def split: prod.splits)

lemma forget_invoke_call:
  "forget (invoke_call (recording gw) (quietly pub) elapsed c (w, past)) = invoke_call gw pub elapsed c w"
  by (auto simp: forget_def invoke_call_def quietly_def recording_def split: prod.splits option.splits sum.splits)

lemma forget_invoke_batch:
  "forget (invoke_batch (recording gw) (quietly pub) elapsed cs (w, past)) = invoke_batch gw pub elapsed cs w"
proof (induction cs arbitrary: w past)
  case (Cons c cs)
  obtain r w1 past1 where 1: "invoke_call (recording gw) (quietly pub) elapsed c (w, past) = (r, w1, past1)" by (metis surj_pair)
  obtain os w2 past2 where 2: "invoke_batch (recording gw) (quietly pub) elapsed cs (w1, past1) = (os, w2, past2)"
    by (metis surj_pair)
  have "invoke_call gw pub elapsed c w = (r, w1)" "invoke_batch gw pub elapsed cs w1 = (os, w2)"
    using forget_invoke_call [of gw pub elapsed c w past] Cons.IH [of w1 past1] 1 2 by (simp_all add: forget_def)
  with 1 2 show ?case by (simp add: forget_def)
qed (simp add: forget_def)

lemma forget_settle:
  "forget2 (settle (quietly pub) calls os completed d (w, past)) = settle pub calls os completed d w"
proof (induction os arbitrary: completed d w)
  case (Cons x os)
  obtain c y where x: "x = (c, y)" by (cases x)
  show ?case
  proof (cases y)
    case (Inr outcome)
    show ?thesis
    proof (cases outcome)
      case (Tool_done content structured isError bindingId ms rounds perm)
      let ?v = "completed_call c content structured isError bindingId ms rounds perm"
      obtain r w1 where "pub ''tool_call_finished'' (finished_payload c ?v) w = (r, w1)" by (metis surj_pair)
      with Cons.IH x Inr Tool_done show ?thesis
        by (cases r) (simp_all add: Let_def quietly_def forget2_def)
    qed (use x Inr in \<open>simp_all add: forget2_def\<close>)
  qed (simp add: x forget2_def)
qed (simp add: forget2_def)

lemma forget_run_batches:
  "forget2 (run_batches (recording gw) (quietly pub) elapsed calls extra todo completed d (w, past)) =
     run_batches gw pub elapsed calls extra todo completed d w"
proof (induction "length todo" arbitrary: todo completed d w past rule: less_induct)
  case less
  show ?case
  proof (cases todo)
    case (Cons c cs)
    let ?b = "take (Suc extra) todo"
    obtain os w1 past1 where 1: "invoke_batch (recording gw) (quietly pub) elapsed ?b (w, past) = (os, w1, past1)"
      by (metis surj_pair)
    then have plain1: "invoke_batch gw pub elapsed ?b w = (os, w1)"
      using forget_invoke_batch [of gw pub elapsed ?b w past] by (simp add: forget_def)
    obtain r d2 w2 past2 where 2: "settle (quietly pub) calls os completed d (w1, past1) = (r, d2, w2, past2)"
      by (metis surj_pair)
    then have plain2: "settle pub calls os completed d w1 = (r, d2, w2)"
      using forget_settle [of pub calls os completed d w1 past1] by (simp add: forget2_def)
    have small: "length (drop extra cs) < length todo" using Cons by (simp add: less_Suc_eq_le)
    from 1 plain1 2 plain2 less [OF small] Cons show ?thesis
      by (cases "rejection os"; cases r) (simp_all add: forget2_def)
  qed (simp add: forget2_def Let_def)
qed

lemma forget_run_phase:
  "forget2 (run_phase (recording gw) (quietly pub) elapsed calls caps already d (w, past)) =
     run_phase gw pub elapsed calls caps already d w"
  by (simp add: run_phase_def Let_def forget_run_batches split: loop_verdict.splits) (simp add: forget2_def)

lemma run_phase_recorded:
  assumes "run_phase gw pub elapsed calls caps already d w = (out, d', w')"
  shows "\<exists>made. run_phase (recording gw) (quietly pub) elapsed calls caps already d (w, []) = (out, d', w', made)"
proof -
  obtain o' d1 w1 made where "run_phase (recording gw) (quietly pub) elapsed calls caps already d (w, []) = (o', d1, w1, made)"
    by (metis surj_pair)
  with forget_run_phase [of gw pub elapsed calls caps already d w "[]"] assms show ?thesis by (simp add: forget2_def)
qed

text \<open>Without a failing publisher a phase always ends in an outcome.\<close>

lemma rejection_none:
  assumes "\<forall>type payload w. fst (pub type payload w) = None" "invoke_batch gw pub elapsed cs w = (os, w')"
  shows "rejection os = None"
  using assms(2)
proof (induction cs arbitrary: w os)
  case (Cons c cs)
  obtain w1 where "pub ''tool_call_started''
      (JObj [(''id'', JStr (rc_id c)), (''name'', JStr (rc_canonicalName c))]) w = (None, w1)"
    using assms(1) by (metis prod.collapse)
  then have "\<exists>y. fst (invoke_call gw pub elapsed c w) = Inr y"
    by (auto simp: invoke_call_def split: prod.splits sum.splits)
  with Cons show ?case by (fastforce split: prod.splits)
qed simp

lemma settle_no_throw:
  assumes "\<forall>type payload w. fst (pub type payload w) = None" "rejection os = None"
  shows "fst (settle pub calls os completed d w) \<noteq> Batch_threw message"
  using assms
proof (induction pub calls os completed d w rule: settle.induct)
  case (3 pub calls c content structured isError bindingId ms rounds perm outcomes completed d w)
  let ?r = "completed_call c content structured isError bindingId ms rounds perm"
  obtain w1 where "pub ''tool_call_finished'' (finished_payload c ?r) w = (None, w1)"
    using 3(2) by (metis prod.collapse)
  with 3 show ?case by (simp add: Let_def)
qed auto

lemma run_batches_ends:
  assumes "\<forall>type payload w. fst (pub type payload w) = None"
  shows "\<exists>outcome. fst (run_batches gw pub elapsed calls extra todo completed d w) = Inr outcome"
  using assms
proof (induction gw pub elapsed calls extra todo completed d w rule: run_batches.induct)
  case (2 gw pub elapsed calls extra c cs completed d w)
  obtain os w1 where os: "invoke_batch gw pub elapsed (take (Suc extra) (c # cs)) w = (os, w1)" by (metis surj_pair)
  obtain r d2 w2 where r: "settle pub calls os completed d w1 = (r, d2, w2)" by (metis surj_pair)
  have none: "rejection os = None" by (rule rejection_none [OF 2(2) os])
  show ?case
  proof (cases r)
    case (Batch_threw message)
    with settle_no_throw [OF 2(2) none] r show ?thesis by (metis fst_conv)
  next
    case (Batch_suspended out)
    with os r none show ?thesis by simp
  next
    case (Batch_done completed')
    with os r none 2(1) [OF refl os [symmetric] none r [symmetric] Batch_done refl 2(2)] show ?thesis by simp
  qed
qed (simp add: Let_def)

subsection \<open>The outcome of a phase\<close>

lemma phase_result:
  assumes "run_phase (recording gw) (quietly pub) elapsed calls caps already d (w, []) = (Inr outcome, d', w', made)"
    and "\<forall>(k, r) \<in> set already. tir_id r = k"
  shows "case outcome of
      Complete rs msg \<Rightarrow> made = map request_of (filter (\<lambda>c. map_of already (rc_id c) = None) calls) \<and>
        map tir_id rs = map rc_id calls \<and> msg = result_message rs
    | Suspended reason a st pid rs \<Rightarrow> \<exists>pre c post later.
        filter (\<lambda>c. map_of already (rc_id c) = None) calls = pre @ c # post @ later \<and> pid = rc_id c \<and>
        made = map request_of (pre @ c # post) \<and> length post < phase_concurrency caps \<and>
        (\<forall>b \<in> set calls. map_of already (rc_id b) \<noteq> None \<or> b \<in> set pre \<longrightarrow> rc_id b \<in> tir_id ` set rs)
    | Refused text msg \<Rightarrow> made = [] \<and> d' = d \<and>
        msg = map (\<lambda>c. Tool_result (rc_id c) [Text text] None True) calls"
proof (cases "inspectPhase d (map observe (outstanding_calls calls already))")
  case (Looping name n)
  with assms(1) show ?thesis by (auto simp: run_phase_def Let_def toolResultBlock_def)
next
  case Not_looping
  have ok: "ok_map already" using assms(2) by (simp add: ok_map_def)
  from Not_looping assms(1) have "run_batches (recording gw) (quietly pub) elapsed calls (phase_concurrency caps - 1)
      (outstanding_calls calls already) already d (w, []) = (Inr outcome, d', w', made)"
    by (simp add: run_phase_def)
  from run_batches_result [OF this ok] have
    res: "batch_result calls (outstanding_calls calls already) (phase_concurrency caps - 1) already made outcome" by simp
  have pos: "0 < phase_concurrency caps" by (simp add: phase_concurrency_def DEFAULT_MAX_PARALLEL_def)
  show ?thesis
  proof (cases outcome)
    case (Complete rs msg)
    with res obtain m where m: "made = map request_of (outstanding_calls calls already)" "msg = result_message rs"
      "rs = orderedResults calls m" "ok_map m" "dom (map_of m) = dom (map_of already) \<union> rc_id ` set (outstanding_calls calls already)"
      by (auto simp: batch_result_def)
    have "map_of m (rc_id c) \<noteq> None" if "c \<in> set calls" for c
    proof -
      have "rc_id c \<in> dom (map_of m)" using that unfolding m(5) by (auto simp: outstanding_calls_def)
      then show ?thesis by auto
    qed
    with orderedResults_ids [OF m(4), of calls] m(1,2,3) Complete show ?thesis by (simp add: outstanding_calls_def)
  next
    case (Suspended reason a st pid rs)
    with res obtain pre c post later m where m: "outstanding_calls calls already = pre @ c # post @ later" "pid = rc_id c"
      "made = map request_of (pre @ c # post)" "length post \<le> phase_concurrency caps - 1"
      "rs = orderedResults calls m" "ok_map m" "dom (map_of m) = dom (map_of already) \<union> rc_id ` set pre"
      unfolding batch_result_def Suspended phase_outcome.case by blast
    have kept: "rc_id b \<in> tir_id ` set rs" if "b \<in> set calls" "map_of already (rc_id b) \<noteq> None \<or> b \<in> set pre" for b
    proof -
      have "rc_id b \<in> dom (map_of m)" using that(2) unfolding m(7) by auto
      then obtain r where "map_of m (rc_id b) = Some r" by auto
      from orderedResults_mem [OF m(6) that(1) this] m(5) show ?thesis by (metis image_eqI)
    qed
    from m(4) pos have short: "length post < phase_concurrency caps" by linarith
    show ?thesis
      unfolding Suspended phase_outcome.case
      using m(1) [unfolded outstanding_calls_def] m(2,3) short kept by blast
  next
    case (Refused answer msg)
    with res show ?thesis by (simp add: batch_result_def)
  qed
qed

subsection \<open>Properties\<close>

text \<open>
  C25. A tool phase answers every call and executes nothing twice. When it completes, the gateway was given
  exactly the calls that had no result yet, each once and in order, and the tool message has a result for
  every call of the model, in the model's order. When it suspends, every call before the pending one has
  kept its result, and fewer calls than the batch size were started after it. When it is refused as a loop,
  nothing is executed and the model gets an answer to every call.
\<close>

theorem phase_answers_calls:
  assumes "run_phase (recording gw) (quietly pub) elapsed calls caps already d (w, []) = (Inr outcome, d', w', made)"
    and "\<forall>(k, r) \<in> set already. tir_id r = k"
  shows "case outcome of
      Complete rs msg \<Rightarrow> made = map request_of (filter (\<lambda>c. map_of already (rc_id c) = None) calls) \<and>
        map tir_id rs = map rc_id calls \<and> msg = result_message rs
    | Suspended reason a st pid rs \<Rightarrow> \<exists>pre c post later.
        filter (\<lambda>c. map_of already (rc_id c) = None) calls = pre @ c # post @ later \<and> pid = rc_id c \<and>
        made = map request_of (pre @ c # post) \<and> length post < phase_concurrency caps \<and>
        (\<forall>b \<in> set calls. map_of already (rc_id b) \<noteq> None \<or> b \<in> set pre \<longrightarrow> rc_id b \<in> tir_id ` set rs)
    | Refused text msg \<Rightarrow> made = [] \<and> d' = d \<and>
        msg = map (\<lambda>c. Tool_result (rc_id c) [Text text] None True) calls"
  by (rule phase_result [OF assms])

text \<open>
  A phase always ends in an outcome: however the gateway behaves, also when it throws, and as long as
  events can be published, running a phase returns one of its three outcomes.
\<close>

theorem phase_ends:
  assumes "\<forall>type payload w. fst (pub type payload w) = None"
  shows "\<exists>outcome. fst (run_phase gw pub elapsed calls caps already d w) = Inr outcome"
  using run_batches_ends [OF assms] by (auto simp: run_phase_def Let_def split: loop_verdict.splits)

text \<open>
  Results of a parallel batch can be lost: when the first of two calls made together needs an approval
  and the second one runs, the phase suspends with no result at all, so the second call, which has been
  executed, counts as outstanding and is executed again on resume.
\<close>

theorem parallel_result_lost:
  assumes "mc_parallelCalls caps" "inspectPhase d (map observe [c1, c2]) = Not_looping"
    and "gw (rc_canonicalName c1) (rc_input c1) w = (Inr (Needs_approval a reason), w1)"
    and "gw (rc_canonicalName c2) (rc_input c2) w1 = (Inr (Tool_done content st err b ms n perm), w2)"
    and "\<forall>type payload w. pub type payload w = (None, w)"
  shows "run_phase (recording gw) (quietly pub) elapsed [c1, c2] caps [] d (w, []) =
      (Inr (Suspended For_approval (Some a) None (rc_id c1) []), d, w2, [request_of c1, request_of c2]) \<and>
    outstanding_calls [c1, c2] [] = [c1, c2]"
  using assms
  by (simp add: run_phase_def outstanding_calls_def Let_def phase_concurrency_def DEFAULT_MAX_PARALLEL_def
      invoke_call_def recording_def quietly_def request_of_def orderedResults_def)

definition two_calls :: "requested_call list" where
  "two_calls = [\<lparr>rc_id = ''t1'', rc_canonicalName = ''mail__send'', rc_input = JNull\<rparr>,
     \<lparr>rc_id = ''t2'', rc_canonicalName = ''mail__read'', rc_input = JNull\<rparr>]"

definition sample_gateway :: "unit invoker" where
  "sample_gateway name args w = (Inr (if name = ''mail__send'' then Needs_approval ''p1'' ''ask''
     else Tool_done [] None False ''b1'' 5 0 None), w)"

definition silent :: "unit publisher" where
  "silent type payload w = (None, w)"

lemma two_calls_distinct: "inspectPhase (new_detector None None) (map observe two_calls) = Not_looping"
  by (simp add: two_calls_def inspect_def repeats_def new_detector_def DEFAULT_LOOP_THRESHOLD_def record_call_def
      push_shift_def keyOf_def observe_def Let_def)

theorem parallel_result_lost_witness:
  "run_phase (recording sample_gateway) (quietly silent) (\<lambda>_. 0) two_calls (sample_caps\<lparr>mc_parallelCalls := True\<rparr>) []
     (new_detector None None) ((), []) =
   (Inr (Suspended For_approval (Some ''p1'') None ''t1'' []), new_detector None None, (),
     [(''mail__send'', JNull), (''mail__read'', JNull)])"
  using parallel_result_lost [of "sample_caps\<lparr>mc_parallelCalls := True\<rparr>" "new_detector None None" "two_calls ! 0" "two_calls ! 1"
      sample_gateway "()" "''p1''" "''ask''" "()" "[]" None False "''b1''" 5 0 None "()" silent "\<lambda>_. 0"]
    two_calls_distinct
  by (simp add: two_calls_def sample_gateway_def silent_def request_of_def)

theorem phase_ends_witness:
  "\<exists>outcome. fst (run_phase sample_gateway silent (\<lambda>_. 0) two_calls sample_caps [] (new_detector None None) ()) = Inr outcome"
  by (rule phase_ends) (simp add: silent_def)

lemma one_call_admitted: "inspect (new_detector None None) oc = Not_looping"
  by (simp add: inspect_def repeats_def new_detector_def DEFAULT_LOOP_THRESHOLD_def)

theorem phase_answers_calls_witness:
  "\<exists>rs msg d'. run_phase (recording sample_gateway) (quietly silent) (\<lambda>_. 0) [two_calls ! 1] sample_caps []
       (new_detector None None) ((), []) = (Inr (Complete rs msg), d', (), [(''mail__read'', JNull)]) \<and>
     map tir_id rs = [''t2'']"
proof -
  obtain rs msg d' made where run: "run_phase (recording sample_gateway) (quietly silent) (\<lambda>_. 0) [two_calls ! 1]
      sample_caps [] (new_detector None None) ((), []) = (Inr (Complete rs msg), d', (), made)"
    by (simp add: run_phase_def outstanding_calls_def one_call_admitted Let_def two_calls_def invoke_call_def
        quietly_def silent_def recording_def sample_gateway_def)
  from phase_answers_calls [OF run] have "made = [(''mail__read'', JNull)]" "map tir_id rs = [''t2'']"
    by (auto simp: two_calls_def request_of_def)
  with run show ?thesis by simp
qed

end
