(* ===== verification/Tool_Names.thy ===== *)
theory Tool_Names
  imports Capability Conversation
begin

unbundle bit_operations_syntax

text \<open>
  Provider-legal tool names (\<^verbatim>\<open>packages/core/src/policy/tool-names.ts\<close>) and the selection of the
  tools a model is shown (\<^verbatim>\<open>packages/runtime/src/capability-selector.ts\<close>).

  A provider's name pattern is a regular expression that comes with the model's
  data; the model of the rules holds the test it stands for.
\<close>

subsection \<open>Hashing and sanitising\<close>

definition HASH_LENGTH :: nat where "HASH_LENGTH = 6"

definition digit36 :: "nat \<Rightarrow> char" where
  "digit36 d = (if d < 10 then char_of (48 + d) else char_of (87 + d))"

fun show36 :: "nat \<Rightarrow> string" where
  "show36 n = (if n < 36 then [digit36 n] else show36 (n div 36) @ [digit36 (n mod 36)])"

declare show36.simps [simp del]

fun hash_step :: "32 word \<times> 32 word \<Rightarrow> char \<Rightarrow> 32 word \<times> 32 word" where
  "hash_step (h1, h2) c =
     ((h1 XOR of_nat (code c)) * 0x01000193, (h2 + of_nat (code c)) * 0x85ebca6b)"

definition shortHash :: "string \<Rightarrow> string" where
  "shortHash value =
     (let (h1, h2) = foldl hash_step (0x811c9dc5, 0x01000193) value;
          text = take HASH_LENGTH (show36 (unat h1) @ show36 (unat h2))
      in text @ replicate (HASH_LENGTH - length text) (CHR ''0''))"

definition name_char :: "char \<Rightarrow> bool" where
  "name_char c \<longleftrightarrow> is_alnum c \<or> c = CHR ''_''"

definition name_start :: "char \<Rightarrow> bool" where
  "name_start c \<longleftrightarrow> is_lower c \<or> is_upper c \<or> c = CHR ''_''"

text \<open>\<^verbatim>\<open>replace(/_{3,}/g, '__')\<close>: \<open>n\<close> underscores are pending.\<close>

fun squash :: "nat \<Rightarrow> string \<Rightarrow> string" where
  "squash n [] = (if n \<ge> 3 then ''__'' else replicate n (CHR ''_''))"
| "squash n (c # s) =
     (if c = CHR ''_'' then squash (Suc n) s
      else (if n \<ge> 3 then ''__'' else replicate n (CHR ''_'')) @ c # squash 0 s)"

definition sanitise :: "string \<Rightarrow> string" where
  "sanitise name =
     (let cleaned = squash 0 (map (\<lambda>c. if name_char c then c else CHR ''_'') name)
      in case cleaned of
           c # _ \<Rightarrow> if name_start c then cleaned else CHR ''t'' # cleaned
         | [] \<Rightarrow> ''t'')"

subsection \<open>The name map\<close>

record tool_name_rules =
  tr_pattern_test :: "string \<Rightarrow> bool"
  tr_maxNameLength :: nat

record tool_name_map =
  toWire :: "string \<rightharpoonup> string"
  toCanonicalName :: "string \<rightharpoonup> string"

datatype name_error = Illegal_wire_name string string

definition suffixed :: "tool_name_rules \<Rightarrow> string \<Rightarrow> string \<Rightarrow> string" where
  "suffixed rules wire canonical =
     (let suffix = CHR ''_'' # shortHash canonical
      in take (max 1 (tr_maxNameLength rules - length suffix)) wire @ suffix)"

definition choose_wire :: "tool_name_rules \<Rightarrow> tool_name_map \<Rightarrow> string \<Rightarrow> string" where
  "choose_wire rules m canonical =
     (let wire0 = sanitise canonical;
          wire1 = (if length wire0 > tr_maxNameLength rules then suffixed rules wire0 canonical else wire0)
      in case toCanonicalName m wire1 of
           Some other \<Rightarrow> if other \<noteq> canonical then suffixed rules wire1 canonical else wire1
         | None \<Rightarrow> wire1)"

fun build_names :: "tool_name_rules \<Rightarrow> tool_name_map \<Rightarrow> string list \<Rightarrow> name_error + tool_name_map" where
  "build_names rules m [] = Inr m"
| "build_names rules m (canonical # rest) =
     (let wire = choose_wire rules m canonical in
      if \<not> tr_pattern_test rules wire then Inl (Illegal_wire_name wire canonical)
      else build_names rules
        (m\<lparr>toWire := (toWire m)(canonical \<mapsto> wire),
           toCanonicalName := (toCanonicalName m)(wire \<mapsto> canonical)\<rparr>) rest)"

definition empty_names :: tool_name_map where
  "empty_names = \<lparr>toWire = Map.empty, toCanonicalName = Map.empty\<rparr>"

definition buildToolNameMap :: "string list \<Rightarrow> tool_name_rules \<Rightarrow> name_error + tool_name_map" where
  "buildToolNameMap names rules = build_names rules empty_names names"

definition canonicalNameOf :: "tool_name_map \<Rightarrow> string \<Rightarrow> string" where
  "canonicalNameOf m wire = (case toCanonicalName m wire of Some c \<Rightarrow> c | None \<Rightarrow> wire)"

definition wireNameOf :: "tool_name_map \<Rightarrow> string \<Rightarrow> string" where
  "wireNameOf m canonical = (case toWire m canonical of Some w \<Rightarrow> w | None \<Rightarrow> canonical)"

subsection \<open>Selection\<close>

datatype binding_mode = All_tools | Allow_listed | Deny_listed

record agent_capability_binding =
  acb_bindingId :: id
  acb_mode :: binding_mode
  acb_tools :: "string list"

record selection =
  sel_tools :: "tool_declaration list"
  sel_nameMap :: tool_name_map
  sel_excludedByAgent :: "string list"
  sel_droppedForLimit :: "string list"

definition aliasOf :: "string \<Rightarrow> string" where
  "aliasOf canonical =
     (case index_of ''__'' canonical of None \<Rightarrow> [] | Some i \<Rightarrow> if i = 0 then [] else take i canonical)"

definition toolNameOf :: "string \<Rightarrow> string" where
  "toolNameOf canonical =
     (case index_of ''__'' canonical of
        None \<Rightarrow> canonical | Some i \<Rightarrow> if i = 0 then canonical else drop (i + 2) canonical)"

definition bindingAdmits :: "agent_capability_binding \<Rightarrow> string \<Rightarrow> bool" where
  "bindingAdmits b toolName =
     (case acb_mode b of
        All_tools \<Rightarrow> True
      | Allow_listed \<Rightarrow> toolName \<in> set (acb_tools b)
      | Deny_listed \<Rightarrow> toolName \<notin> set (acb_tools b))"

text \<open>A later binding with the same id replaces an earlier one in the map.\<close>

definition bindingFor ::
  "agent_capability_binding list \<Rightarrow> (string \<rightharpoonup> id) \<Rightarrow> string \<Rightarrow> agent_capability_binding option" where
  "bindingFor bindings bindingIdByAlias al =
     Option.bind (bindingIdByAlias al)
       (\<lambda>i. List.find (\<lambda>b. acb_bindingId b = i) (rev bindings))"

definition tool_admitted ::
  "agent_capability_binding list \<Rightarrow> (string \<rightharpoonup> id) \<Rightarrow> tool_declaration \<Rightarrow> bool" where
  "tool_admitted bindings byAlias tool =
     (case bindingFor bindings byAlias (aliasOf (td_name tool)) of
        None \<Rightarrow> False
      | Some b \<Rightarrow> bindingAdmits b (toolNameOf (td_name tool)))"

definition selectCapabilities ::
  "tool_declaration list \<Rightarrow> agent_capability_binding list \<Rightarrow> model_capabilities \<Rightarrow>
   (string \<Rightarrow> bool) \<Rightarrow> (string \<rightharpoonup> id) \<Rightarrow> name_error + selection" where
  "selectCapabilities available bindings caps pattern_test byAlias =
     (let rules = \<lparr>tr_pattern_test = pattern_test, tr_maxNameLength = nat (mc_maxNameLength caps)\<rparr>
      in if \<not> mc_toolsSupported caps then
           map_sum id (\<lambda>m. \<lparr>sel_tools = [], sel_nameMap = m,
             sel_excludedByAgent = map td_name available, sel_droppedForLimit = []\<rparr>)
             (buildToolNameMap [] rules)
         else
           (let admitted = sort_key td_name (filter (tool_admitted bindings byAlias) available);
                excluded = map td_name (filter (\<lambda>t. \<not> tool_admitted bindings byAlias t) available);
                (tools, dropped) = (case mc_maxTools caps of
                    Some m \<Rightarrow> if length admitted > m then (take m admitted, map td_name (drop m admitted))
                              else (admitted, [])
                  | None \<Rightarrow> (admitted, []))
            in map_sum id (\<lambda>m. \<lparr>sel_tools = tools, sel_nameMap = m,
                 sel_excludedByAgent = excluded, sel_droppedForLimit = dropped\<rparr>)
                 (buildToolNameMap (map td_name tools) rules)))"

subsection \<open>Wire names are legal\<close>

definition wire_legal :: "string \<Rightarrow> bool" where
  "wire_legal w \<longleftrightarrow> w \<noteq> [] \<and> name_start (hd w) \<and> (\<forall>c \<in> set w. name_char c)"

lemma name_start_char: "name_start c \<Longrightarrow> name_char c"
  by (auto simp: name_start_def name_char_def is_alnum_def)

lemma name_char_underscore [simp]: "name_char (CHR ''_'')" "name_start (CHR ''_'')"
  by (simp_all add: name_char_def name_start_def)

lemma name_t [simp]: "name_start (CHR ''t'')" "name_char (CHR ''t'')"
  by (simp_all add: name_char_def name_start_def is_alnum_def is_lower_def code_def)

lemma squash_chars: "\<forall>c \<in> set s. name_char c \<Longrightarrow> \<forall>c \<in> set (squash n s). name_char c"
  by (induction n s rule: squash.induct) (auto split: if_splits)

lemma sanitise_legal: "wire_legal (sanitise name)"
proof -
  let ?cleaned = "squash 0 (map (\<lambda>c. if name_char c then c else CHR ''_'') name)"
  have "\<forall>c \<in> set ?cleaned. name_char c" by (rule squash_chars) auto
  then show ?thesis
    by (auto simp: wire_legal_def sanitise_def Let_def split: list.splits)
qed

lemma code_digit36: "d < 36 \<Longrightarrow> code (digit36 d) = (if d < 10 then 48 + d else 87 + d)"
  by (simp add: digit36_def code_def of_char_of)

lemma digit36_name: "d < 36 \<Longrightarrow> name_char (digit36 d)"
  by (auto simp: name_char_def is_alnum_def is_lower_def is_digit_def code_digit36)

lemma show36_name: "c \<in> set (show36 n) \<Longrightarrow> name_char c"
proof (induction n rule: show36.induct)
  case (1 n)
  show ?case
  proof (cases "n < 36")
    case True
    then have "show36 n = [digit36 n]" by (subst show36.simps) simp
    with 1 True show ?thesis by (simp add: digit36_name)
  next
    case False
    then have "show36 n = show36 (n div 36) @ [digit36 (n mod 36)]" by (subst show36.simps) simp
    with 1 False show ?thesis by (auto simp: digit36_name)
  qed
qed

lemma length_shortHash: "length (shortHash v) = 6"
  by (simp add: shortHash_def HASH_LENGTH_def Let_def case_prod_beta)

lemma shortHash_chars: "c \<in> set (shortHash v) \<Longrightarrow> name_char c"
proof -
  assume "c \<in> set (shortHash v)"
  then have "c = CHR ''0'' \<or> (\<exists>n. c \<in> set (show36 n))"
    by (auto simp: shortHash_def Let_def case_prod_beta split: if_splits dest!: in_set_takeD)
  moreover have "name_char (CHR ''0'')"
    by (simp add: name_char_def is_alnum_def is_digit_def code_def)
  ultimately show ?thesis using show36_name by blast
qed

lemma suffixed_legal: "wire_legal w \<Longrightarrow> wire_legal (suffixed rules w c)"
  by (auto simp: wire_legal_def suffixed_def Let_def hd_append dest: in_set_takeD shortHash_chars)

lemma choose_wire_legal: "wire_legal (choose_wire rules m c)"
  by (auto simp: choose_wire_def Let_def sanitise_legal suffixed_legal split: option.splits)

lemma suffixed_length: "8 \<le> tr_maxNameLength rules \<Longrightarrow> length (suffixed rules w c) \<le> tr_maxNameLength rules"
  by (auto simp: suffixed_def Let_def length_shortHash)

lemma choose_wire_length:
  "8 \<le> tr_maxNameLength rules \<Longrightarrow> length (choose_wire rules m c) \<le> tr_maxNameLength rules"
  by (auto simp: choose_wire_def Let_def suffixed_length split: option.splits)

subsection \<open>The map is consistent\<close>

text \<open>Every wire name leads back to a canonical name that has this very wire name.\<close>

definition names_ok :: "tool_name_rules \<Rightarrow> tool_name_map \<Rightarrow> bool" where
  "names_ok rules m \<longleftrightarrow>
     (\<forall>w c. toCanonicalName m w = Some c \<longrightarrow> toWire m c = Some w) \<and>
     (\<forall>c w. toWire m c = Some w \<longrightarrow> wire_legal w \<and> toCanonicalName m w \<noteq> None \<and>
        (8 \<le> tr_maxNameLength rules \<longrightarrow> length w \<le> tr_maxNameLength rules))"

lemma names_ok_step:
  assumes "names_ok rules m" "toWire m c = None"
  defines "w \<equiv> choose_wire rules m c"
  shows "names_ok rules (m\<lparr>toWire := (toWire m)(c \<mapsto> w), toCanonicalName := (toCanonicalName m)(w \<mapsto> c)\<rparr>)"
  using assms choose_wire_legal choose_wire_length
  by (auto simp: names_ok_def)

lemma build_names_ok:
  "build_names rules m names = Inr m' \<Longrightarrow> names_ok rules m \<Longrightarrow> distinct names \<Longrightarrow>
   \<forall>c \<in> set names. toWire m c = None \<Longrightarrow>
   names_ok rules m' \<and> dom (toWire m') = dom (toWire m) \<union> set names"
proof (induction rules m names rule: build_names.induct)
  case (2 rules m c rest)
  let ?w = "choose_wire rules m c"
  let ?m = "m\<lparr>toWire := (toWire m)(c \<mapsto> ?w), toCanonicalName := (toCanonicalName m)(?w \<mapsto> c)\<rparr>"
  have ok: "names_ok rules ?m" using 2 by (intro names_ok_step) auto
  have step: "tr_pattern_test rules ?w" "build_names rules ?m rest = Inr m'"
    using 2(2) by (auto simp: Let_def split: if_splits)
  have "names_ok rules m' \<and> dom (toWire m') = dom (toWire ?m) \<union> set rest"
    using 2 step ok by (intro 2(1)) auto
  then show ?case by auto
qed auto

lemma empty_names_ok: "names_ok rules empty_names"
  by (simp add: names_ok_def empty_names_def)

lemma buildToolNameMap_ok:
  assumes "buildToolNameMap names rules = Inr m" "distinct names"
  shows "names_ok rules m \<and> dom (toWire m) = set names"
  using build_names_ok [OF assms(1) [unfolded buildToolNameMap_def] empty_names_ok assms(2)]
  by (simp add: empty_names_def)

text \<open>A pattern that accepts the conservative alphabet accepts every wire name.\<close>

definition accepts_conservative :: "tool_name_rules \<Rightarrow> bool" where
  "accepts_conservative rules \<longleftrightarrow> 8 \<le> tr_maxNameLength rules \<and>
     (\<forall>w. wire_legal w \<longrightarrow> length w \<le> tr_maxNameLength rules \<longrightarrow> tr_pattern_test rules w)"

lemma build_names_total: "accepts_conservative rules \<Longrightarrow> \<exists>m'. build_names rules m names = Inr m'"
  by (induction rules m names rule: build_names.induct)
     (auto simp: Let_def accepts_conservative_def choose_wire_legal choose_wire_length)

text \<open>Names that are legal as they are stay as they are.\<close>

lemma build_names_plain:
  "build_names rules m names = Inr m' \<Longrightarrow>
   \<forall>c \<in> set names. sanitise c = c \<and> length c \<le> tr_maxNameLength rules \<Longrightarrow>
   \<forall>w c. toCanonicalName m w = Some c \<longrightarrow> w = c \<Longrightarrow> \<forall>c w. toWire m c = Some w \<longrightarrow> w = c \<Longrightarrow>
   (\<forall>c w. toWire m' c = Some w \<longrightarrow> w = c)"
proof (induction rules m names rule: build_names.induct)
  case (2 rules m c rest)
  have w: "choose_wire rules m c = c"
    using 2(3,4) by (auto simp: choose_wire_def Let_def split: option.splits)
  show ?case
    using 2(2-) unfolding build_names.simps Let_def w
    by (intro 2(1)) (auto simp: Let_def w split: if_splits)
qed auto

subsection \<open>A collision\<close>

lemma squash_plain: "\<forall>c \<in> set s. c \<noteq> CHR ''_'' \<Longrightarrow> n < 3 \<Longrightarrow> squash n s = replicate n (CHR ''_'') @ s"
  by (induction n s rule: squash.induct) auto

lemma digit36_not_underscore: "d < 36 \<Longrightarrow> digit36 d \<noteq> CHR ''_''"
  using code_digit36 [of d] by (auto simp: code_def split: if_splits)

lemma show36_not_underscore: "CHR ''_'' \<notin> set (show36 n)"
proof (induction n rule: show36.induct)
  case (1 n)
  show ?case
  proof (cases "n < 36")
    case True
    then have "show36 n = [digit36 n]" by (subst show36.simps) simp
    with True digit36_not_underscore [of n] show ?thesis by auto
  next
    case False
    then have "show36 n = show36 (n div 36) @ [digit36 (n mod 36)]" by (subst show36.simps) simp
    with 1 False digit36_not_underscore [of "n mod 36"] show ?thesis by auto
  qed
qed

lemma shortHash_not_underscore: "CHR ''_'' \<notin> set (shortHash v)"
  using show36_not_underscore
  by (auto simp: shortHash_def Let_def case_prod_beta split: if_splits dest!: in_set_takeD)

text \<open>The name a disambiguated tool gets can be the name another tool already has.\<close>

definition hashed_name :: string where
  "hashed_name = ''a_b_'' @ shortHash ''a-b''"

lemma sanitise_hashed: "sanitise hashed_name = hashed_name"
proof -
  have id: "map (\<lambda>c. if name_char c then c else CHR ''_'') (shortHash v) = shortHash v" for v
    by (rule map_idI) (auto dest: shortHash_chars)
  have sq: "squash (Suc 0) (shortHash ''a-b'') = CHR ''_'' # shortHash ''a-b''"
    using squash_plain [of "shortHash ''a-b''" "Suc 0"] shortHash_not_underscore [of "''a-b''"] by auto
  have "name_char (CHR ''a'')" "name_char (CHR ''b'')" "name_start (CHR ''a'')"
    by (simp_all add: name_char_def name_start_def is_alnum_def is_lower_def code_def)
  then show ?thesis by (simp add: sanitise_def hashed_name_def id sq)
qed

lemma suffixed_hashed: "suffixed \<lparr>tr_pattern_test = t, tr_maxNameLength = 64\<rparr> ''a_b'' ''a-b'' = hashed_name"
  by (simp add: suffixed_def hashed_name_def length_shortHash)

lemma sanitise_dot_dash: "sanitise ''a.b'' = ''a_b''" "sanitise ''a-b'' = ''a_b''"
  by (simp_all add: sanitise_def name_char_def name_start_def is_alnum_def is_lower_def is_upper_def
      is_digit_def code_def)

lemma hashed_name_length: "length hashed_name = 10"
  by (simp add: hashed_name_def length_shortHash)

lemma choose_wire_first:
  "choose_wire \<lparr>tr_pattern_test = t, tr_maxNameLength = 64\<rparr> empty_names hashed_name = hashed_name"
  by (simp add: choose_wire_def sanitise_hashed hashed_name_length empty_names_def)

lemma hashed_name_neq: "hashed_name \<noteq> ''a_b''" "hashed_name \<noteq> ''a.b''" "hashed_name \<noteq> ''a-b''"
  by (simp_all add: hashed_name_def)

subsection \<open>Selection\<close>

lemma selection_cases:
  assumes "selectCapabilities available bindings caps test byAlias = Inr s"
  obtains (unsupported) "\<not> mc_toolsSupported caps" "sel_tools s = []" "sel_droppedForLimit s = []"
      "sel_excludedByAgent s = map td_name available"
  | (supported) k where "mc_toolsSupported caps"
      "sel_tools s = take k (sort_key td_name (filter (tool_admitted bindings byAlias) available))"
      "sel_droppedForLimit s = map td_name (drop k (sort_key td_name (filter (tool_admitted bindings byAlias) available)))"
      "sel_excludedByAgent s = map td_name (filter (\<lambda>t. \<not> tool_admitted bindings byAlias t) available)"
      "\<And>m. mc_maxTools caps = Some m \<Longrightarrow> k \<le> m"
proof (cases "mc_toolsSupported caps")
  case False
  with assms unsupported show thesis
    by (auto simp: selectCapabilities_def Let_def buildToolNameMap_def)
next
  case True
  let ?adm = "sort_key td_name (filter (tool_admitted bindings byAlias) available)"
  let ?k = "case mc_maxTools caps of Some m \<Rightarrow> min m (length ?adm) | None \<Rightarrow> length ?adm"
  show thesis
    by (rule supported [of ?k])
       (use assms True in \<open>auto simp: selectCapabilities_def Let_def map_sum_def
          split: option.splits if_splits sum.splits\<close>)
qed

lemma sel_tools_eq:
  "selectCapabilities available bindings caps test byAlias = Inr s \<Longrightarrow>
   sel_tools s = (if mc_toolsSupported caps then
     (let adm = sort_key td_name (filter (tool_admitted bindings byAlias) available)
      in case mc_maxTools caps of Some m \<Rightarrow> take m adm | None \<Rightarrow> adm) else [])"
  by (auto simp: selectCapabilities_def Let_def map_sum_def split: option.splits if_splits sum.splits)

lemma selectCapabilities_total:
  assumes "accepts_conservative \<lparr>tr_pattern_test = test, tr_maxNameLength = nat (mc_maxNameLength caps)\<rparr>"
  shows "\<exists>s. selectCapabilities available bindings caps test byAlias = Inr s"
proof -
  have "\<exists>m. buildToolNameMap names \<lparr>tr_pattern_test = test, tr_maxNameLength = nat (mc_maxNameLength caps)\<rparr> = Inr m"
    for names
    unfolding buildToolNameMap_def by (rule build_names_total [OF assms])
  then show ?thesis
    unfolding selectCapabilities_def Let_def case_prod_beta by (metis map_sum.simps(2))
qed

subsection \<open>Properties\<close>



text \<open>
  A disambiguated name is not checked again: there are three distinct canonical names for which
  the built map sends the wire name shown for the first tool back to the third one, so that the
  model would call the wrong tool.
\<close>

theorem tool_name_collision:
  "\<exists>m. buildToolNameMap [hashed_name, ''a.b'', ''a-b'']
      \<lparr>tr_pattern_test = wire_legal, tr_maxNameLength = 64\<rparr> = Inr m \<and>
    distinct [hashed_name, ''a.b'', ''a-b''] \<and>
    wireNameOf m hashed_name = hashed_name \<and> canonicalNameOf m hashed_name = ''a-b''"
proof -
  let ?rules = "\<lparr>tr_pattern_test = wire_legal, tr_maxNameLength = 64\<rparr>"
  have legal: "wire_legal hashed_name" "wire_legal ''a_b''"
    using sanitise_legal [of hashed_name] sanitise_legal [of "''a.b''"]
    by (simp_all add: sanitise_hashed sanitise_dot_dash)
  have "choose_wire ?rules empty_names hashed_name = hashed_name" by (rule choose_wire_first)
  then show ?thesis
    using legal hashed_name_neq
    by (simp add: buildToolNameMap_def choose_wire_def sanitise_dot_dash suffixed_hashed
        empty_names_def wireNameOf_def canonicalNameOf_def Let_def)
qed

text \<open>
  What the model is shown: every selected tool belongs to a binding the agent is attached to
  and is admitted by that binding's mode, the selection respects the model's limit, every available
  tool is accounted for exactly once as shown, dropped or excluded, and the order in which tools
  were discovered does not matter.
\<close>

theorem selection_sound:
  assumes sel: "selectCapabilities available bindings caps test byAlias = Inr s"
  shows "(\<forall>t \<in> set (sel_tools s). t \<in> set available \<and>
      (\<exists>b \<in> set bindings. byAlias (aliasOf (td_name t)) = Some (acb_bindingId b) \<and>
         bindingAdmits b (toolNameOf (td_name t)))) \<and>
    (\<forall>m. mc_maxTools caps = Some m \<longrightarrow> length (sel_tools s) \<le> m) \<and>
    mset (map td_name (sel_tools s) @ sel_droppedForLimit s @ sel_excludedByAgent s) = mset (map td_name available) \<and>
    (\<forall>available' s'. mset available' = mset available \<longrightarrow> distinct (map td_name available) \<longrightarrow>
       selectCapabilities available' bindings caps test byAlias = Inr s' \<longrightarrow> sel_tools s' = sel_tools s)"
proof (intro conjI allI impI ballI)
  let ?adm = "filter (tool_admitted bindings byAlias)"
  fix t assume "t \<in> set (sel_tools s)"
  then have t: "t \<in> set (?adm available)"
    by (cases rule: selection_cases [OF sel]) (auto dest: in_set_takeD)
  then show "t \<in> set available" by simp
  from t show "\<exists>b \<in> set bindings. byAlias (aliasOf (td_name t)) = Some (acb_bindingId b) \<and>
      bindingAdmits b (toolNameOf (td_name t))"
    by (auto simp: tool_admitted_def bindingFor_def split: option.splits Option.bind_splits
        dest!: find_Some_in)
next
  fix m assume "mc_maxTools caps = Some m"
  then show "length (sel_tools s) \<le> m" by (cases rule: selection_cases [OF sel]) auto
next
  show "mset (map td_name (sel_tools s) @ sel_droppedForLimit s @ sel_excludedByAgent s) =
      mset (map td_name available)"
    using sel
  proof (cases rule: selection_cases)
    case (supported k)
    let ?adm = "filter (tool_admitted bindings byAlias) available"
    have "mset (map td_name (take k (sort_key td_name ?adm)) @ map td_name (drop k (sort_key td_name ?adm))) =
        image_mset td_name (mset ?adm)"
      by (metis append_take_drop_id map_append mset_map mset_sort)
    moreover have "mset (map td_name (sel_tools s) @ sel_droppedForLimit s @ sel_excludedByAgent s) =
        mset (map td_name (take k (sort_key td_name ?adm)) @ map td_name (drop k (sort_key td_name ?adm))) +
        image_mset td_name (mset (filter (\<lambda>t. \<not> tool_admitted bindings byAlias t) available))"
      unfolding supported(2-4) by (simp only: mset_append mset_map add.assoc)
    ultimately have "mset (map td_name (sel_tools s) @ sel_droppedForLimit s @ sel_excludedByAgent s) =
        image_mset td_name (mset ?adm + mset (filter (\<lambda>t. \<not> tool_admitted bindings byAlias t) available))"
      by (simp only: image_mset_union)
    then show ?thesis by (simp only: mset_filter multiset_partition [symmetric] mset_map)
  qed simp
next
  fix available' s'
  assume perm: "mset available' = mset available" "distinct (map td_name available)"
    and sel': "selectCapabilities available' bindings caps test byAlias = Inr s'"
  have "sort_key td_name (filter P available') = sort_key td_name (filter P available)" for P
    using perm by (intro sort_key_mset_eq [symmetric]) (auto simp: mset_filter distinct_map_filter)
  then show "sel_tools s' = sel_tools s"
    unfolding sel_tools_eq [OF sel] sel_tools_eq [OF sel'] by (simp only:)
qed

definition sample_tool_caps :: model_capabilities where
  "sample_tool_caps = \<lparr>mc_maxInputTokens = 1000, mc_maxOutputTokens = 100, mc_toolsSupported = True,
     mc_parallelCalls = True, mc_maxTools = Some 2, mc_namePattern = [], mc_maxNameLength = 64,
     mc_cacheSupported = False, mc_cacheStrategy = No_cache, mc_maxBreakpoints = None\<rparr>"

definition sample_tool :: "string \<Rightarrow> tool_declaration" where
  "sample_tool name = \<lparr>td_name = name, td_description = [], td_inputSchema = JNull,
     td_outputSchema = None, td_annotations = None\<rparr>"

theorem selection_sound_witness:
  "\<exists>s. selectCapabilities [sample_tool ''mail__send''] [\<lparr>acb_bindingId = ''b'', acb_mode = All_tools, acb_tools = []\<rparr>]
       sample_tool_caps wire_legal [''mail'' \<mapsto> ''b''] = Inr s \<and> length (sel_tools s) \<le> 2"
proof -
  obtain s where s: "selectCapabilities [sample_tool ''mail__send'']
      [\<lparr>acb_bindingId = ''b'', acb_mode = All_tools, acb_tools = []\<rparr>]
      sample_tool_caps wire_legal [''mail'' \<mapsto> ''b''] = Inr s"
    using selectCapabilities_total [of wire_legal sample_tool_caps "[sample_tool ''mail__send'']"
      "[\<lparr>acb_bindingId = ''b'', acb_mode = All_tools, acb_tools = []\<rparr>]" "[''mail'' \<mapsto> ''b'']"]
    by (auto simp: accepts_conservative_def sample_tool_caps_def)
  from selection_sound [OF s] have "length (sel_tools s) \<le> 2" by (simp add: sample_tool_caps_def)
  with s show ?thesis by blast
qed

end
