(* ===== verification/Agent_Runtime.thy ===== *)
theory Agent_Runtime
  imports Tool_Phase Tool_Names
begin

text \<open>
  Resolving a run and one step of the agent runtime (\<^verbatim>\<open>packages/runtime/src/resolver.ts\<close> and
  \<^verbatim>\<open>packages/runtime/src/agent-runtime.ts\<close>), over the state port of \<open>Run_Store\<close>.

  A step works on a machine: the store's own fields, the database, and whatever else the tools touch
  (\<open>'x\<close>), with the runtime's loop detector beside it. A step operation returns an error or a value and the
  new state, and \<open>step_then\<close> stops at the first error, as an \<^verbatim>\<open>await\<close> that throws does. Tracing spans only
  observe and are left out.
\<close>

subsection \<open>Resolving a run\<close>

record model_binding =
  mb_id :: id
  mb_providerType :: string
  mb_modelId :: string
  mb_rates :: "model_rates option"
  mb_fallbackBindingId :: "id option"
  mb_maxOutputTokens :: "int option"

record run_context =
  ctx_runId :: id
  ctx_workspaceId :: id
  ctx_conversationId :: id
  ctx_agentId :: id
  ctx_capabilityBindings :: "agent_capability_binding list"
  ctx_modelBindingId :: id
  ctx_providerKey :: provider_key
  ctx_capabilities :: model_capabilities
  ctx_principal :: principal
  ctx_budget :: run_budget
  ctx_consumed :: run_consumption
  ctx_stepSeq :: int

record resolved_run =
  rr_ctx :: run_context
  rr_attempts :: "(string \<times> attempt_label) list"
  rr_rates :: "model_rates option"
  rr_bindingIdByAlias :: "string \<rightharpoonup> id"
  rr_systemDirectives :: "system_directive list"
  rr_maxOutputTokens :: int

text \<open>What the composition root supplies; a provider is named by its type.\<close>

record resolver_deps =
  rd_registered :: "string \<Rightarrow> bool"
  rd_loadModelBinding :: "id \<Rightarrow> model_binding option"
  rd_credentialsFor :: "model_binding \<Rightarrow> string + unit"
  rd_describeModel :: "string \<Rightarrow> string \<Rightarrow> string + model_capabilities"
  rd_revalidatePrincipal :: "principal \<Rightarrow> principal option"
  rd_bindingIdByAlias :: "id \<Rightarrow> (string \<rightharpoonup> id)"
  rd_systemDirectives :: "run_doc \<Rightarrow> system_directive list"
  rd_snapshotBindings :: "jsv \<Rightarrow> agent_capability_binding list"

datatype resolve_error =
    Principal_revoked id
  | Model_unavailable id string
  | Provider_failed string

definition load_binding :: "resolver_deps \<Rightarrow> id \<Rightarrow> resolve_error + model_binding \<times> model_capabilities" where
  "load_binding deps bindingId =
     (case rd_loadModelBinding deps bindingId of
        None \<Rightarrow> Inl (Model_unavailable bindingId (''Model binding '' @ bindingId @ '' does not exist.''))
      | Some binding \<Rightarrow>
          (if \<not> rd_registered deps (mb_providerType binding)
           then Inl (Model_unavailable bindingId
             (''No adapter is registered for provider type \"'' @ mb_providerType binding @ ''\".''))
           else
             (case rd_credentialsFor deps binding of
                Inl message \<Rightarrow> Inl (Provider_failed message)
              | Inr _ \<Rightarrow>
                  (case rd_describeModel deps (mb_providerType binding) (mb_modelId binding) of
                     Inl message \<Rightarrow> Inl (Provider_failed message)
                   | Inr caps \<Rightarrow> Inr (binding, caps)))))"

definition resolve :: "resolver_deps \<Rightarrow> run_doc \<Rightarrow> resolve_error + resolved_run" where
  "resolve deps run =
     (case rd_revalidatePrincipal deps (rd_principal run) of
        None \<Rightarrow> Inl (Principal_revoked (rd_id run))
      | Some pr \<Rightarrow>
          (case load_binding deps (rd_modelBindingId run) of
             Inl e \<Rightarrow> Inl e
           | Inr (primary, caps) \<Rightarrow>
               (let fallback = Option.bind (mb_fallbackBindingId primary) (\<lambda>i.
                      (case load_binding deps i of Inl _ \<Rightarrow> None | Inr (b, _) \<Rightarrow> Some b));
                    ctx = \<lparr>ctx_runId = rd_id run, ctx_workspaceId = rd_workspaceId run,
                      ctx_conversationId = rd_conversationId run, ctx_agentId = rd_agentId run,
                      ctx_capabilityBindings = rd_snapshotBindings deps (rd_agentSnapshot run),
                      ctx_modelBindingId = rd_modelBindingId run,
                      ctx_providerKey = providerKey (mb_providerType primary) (mb_modelId primary),
                      ctx_capabilities = caps, ctx_principal = pr, ctx_budget = rd_budget run,
                      ctx_consumed = rd_consumed run, ctx_stepSeq = rd_nextStepSeq run\<rparr>
                in Inr \<lparr>rr_ctx = ctx,
                     rr_attempts = (mb_modelId primary, Primary) #
                       (case fallback of Some b \<Rightarrow> [(mb_modelId b, Fallback)] | None \<Rightarrow> []),
                     rr_rates = mb_rates primary,
                     rr_bindingIdByAlias = rd_bindingIdByAlias deps (rd_workspaceId run),
                     rr_systemDirectives = rd_systemDirectives deps run,
                     rr_maxOutputTokens = min (case mb_maxOutputTokens primary of Some n \<Rightarrow> n
                         | None \<Rightarrow> mc_maxOutputTokens caps) (mc_maxOutputTokens caps)\<rparr>)))"

subsection \<open>A step's outcomes and its machine\<close>

datatype step_did = Did_model_call | Did_tool_phase | Did_compaction

datatype stop_reason = Stop_budget | Stop_loop | Stop_kill_switch | Stop_model_error | Stop_compaction_stuck

datatype step_outcome =
    Continue step_did
  | Finished string
  | Step_suspended suspend_reason "id option"
  | Stopped stop_reason string string

datatype runtime_error =
    Store_failed store_error
  | Name_refused name_error
  | Nothing_compacted
  | Thrown string

type_synonym 'x machine = "(store \<times> world) \<times> 'x"

type_synonym 'x step_state = "'x machine \<times> loop_detector"

type_synonym ('x, 'a) step_op = "'x step_state \<Rightarrow> (runtime_error + 'a) \<times> 'x step_state"

text \<open>
  What a step needs of its surroundings. \<open>se_now\<close> is the clock when the step starts, \<open>se_later\<close> when it
  saves; \<open>se_available\<close> is what the gateway's \<^verbatim>\<open>listAvailable\<close> answers.
\<close>

record 'x step_env =
  se_now :: time
  se_later :: time
  se_newId :: id
  se_killed :: "string option"
  se_gateway :: "(world \<times> 'x) invoker"
  se_available :: "string + tool_declaration list"
  se_pattern_test :: "string \<Rightarrow> bool"
  se_generate :: "nat \<Rightarrow> model_attempt \<Rightarrow> event_stream"
  se_random :: "nat \<Rightarrow> rat"
  se_clock :: "nat \<Rightarrow> int"
  se_elapsed :: "requested_call \<Rightarrow> int"
  se_summarise :: "(canonical_message list \<Rightarrow> string option) option"
  se_compaction :: compaction_policy
  se_describe :: "store_error \<Rightarrow> string"

definition step_then :: "('x, 'a) step_op \<Rightarrow> ('a \<Rightarrow> ('x, 'b) step_op) \<Rightarrow> ('x, 'b) step_op" where
  "step_then m f s = (case m s of (Inl e, s') \<Rightarrow> (Inl e, s') | (Inr v, s') \<Rightarrow> f v s')"

definition step_return :: "'a \<Rightarrow> ('x, 'a) step_op" where
  "step_return v s = (Inr v, s)"

definition on_store :: "'a store_op \<Rightarrow> ('x, 'a) step_op" where
  "on_store op = (\<lambda>((sw, x), d).
     (case op sw of (Inl e, sw') \<Rightarrow> (Inl (Store_failed e), (sw', x), d) | (Inr v, sw') \<Rightarrow> (Inr v, (sw', x), d)))"

definition machine_publisher :: "(store_error \<Rightarrow> string) \<Rightarrow> 'x machine publisher" where
  "machine_publisher describe type payload = (\<lambda>(sw, x).
     (case store_publisher describe type payload sw of (r, sw') \<Rightarrow> (r, sw', x)))"

subsection \<open>Helpers\<close>

definition pendingToolCalls :: "message list \<Rightarrow> requested_call list option" where
  "pendingToolCalls messages =
     (case last_opt (live_of messages) of
        None \<Rightarrow> None
      | Some m \<Rightarrow>
          (if msg_role m \<noteq> Role_assistant then None
           else
             (case toolUseBlocks (msg_content m) of
                [] \<Rightarrow> None
              | requested \<Rightarrow> Some (List.map_filter (\<lambda>b. case b of
                    Tool_use i n inp \<Rightarrow> Some \<lparr>rc_id = i, rc_canonicalName = n, rc_input = inp\<rparr>
                  | _ \<Rightarrow> None) requested))))"

fun last_text :: "message list \<Rightarrow> string" where
  "last_text [] = []"
| "last_text (m # ms) =
     (if msg_role m \<noteq> Role_assistant \<or> msg_supersededBy m \<noteq> None then last_text ms
      else if trim (messageText (msg_content m)) \<noteq> [] then messageText (msg_content m)
      else last_text ms)"

definition lastAssistantText :: "message list \<Rightarrow> string" where
  "lastAssistantText messages = last_text (rev messages)"

fun EXPLANATIONS :: "budget_breach \<Rightarrow> string" where
  "EXPLANATIONS Max_steps = ''the step limit for this run was reached''"
| "EXPLANATIONS Max_tool_calls = ''the tool-call limit for this run was reached''"
| "EXPLANATIONS Max_tokens = ''the token budget for this run was exhausted''"
| "EXPLANATIONS Max_wall_clock = ''this run ran for longer than its time budget allows''"
| "EXPLANATIONS Max_cost = ''the cost budget for this run was exhausted''"

text \<open>The message of a refused phase: the meter's own breach, or the number of calls.\<close>

definition phase_explanation :: "meter \<Rightarrow> time \<Rightarrow> nat \<Rightarrow> string" where
  "phase_explanation m now callCount =
     (case meter_check m now of
        Breach b \<Rightarrow> EXPLANATIONS b
      | OK \<Rightarrow> ''this turn needs '' @ show_nat callCount @ '' tool calls but only '' @
          show_int (max 0 (maxToolCalls (m_budget m) - m_toolCalls m)) @ [CHR '' '']
          @ ''remain in the run'' @ [CHR 0x27] @ ''s budget'')"

subsection \<open>The step\<close>

fun reason_name :: "stop_reason \<Rightarrow> string" where
  "reason_name Stop_budget = ''budget''"
| "reason_name Stop_loop = ''loop''"
| "reason_name Stop_kill_switch = ''kill_switch''"
| "reason_name Stop_model_error = ''model_error''"
| "reason_name Stop_compaction_stuck = ''compaction_stuck''"

fun finish_name :: "finish_reason \<Rightarrow> string" where
  "finish_name End_turn = ''end_turn''"
| "finish_name Finish_tool_use = ''tool_use''"
| "finish_name Finish_max_tokens = ''max_tokens''"
| "finish_name Stop_sequence = ''stop_sequence''"
| "finish_name Content_filter = ''content_filter''"
| "finish_name Refusal = ''refusal''"
| "finish_name Finish_error = ''error''"

fun suspend_name :: "suspend_reason \<Rightarrow> string" where
  "suspend_name For_approval = ''approval''"
| "suspend_name For_input = ''input''"
| "suspend_name For_tool = ''tool''"

definition save_spend :: "('x, 'e) step_env_scheme \<Rightarrow> meter \<Rightarrow> ('x, unit) step_op" where
  "save_spend env m = on_store (saveConsumption (meter_consumed m (se_later env)) (m_usage m))"

definition stop_step ::
  "('x, 'e) step_env_scheme \<Rightarrow> stop_reason \<Rightarrow> string \<Rightarrow> message list \<Rightarrow> meter \<Rightarrow> ('x, step_outcome) step_op" where
  "stop_step env reason message messages m =
     step_then (save_spend env m) (\<lambda>_.
     step_then (on_store (publish ''run_finished''
       (JObj [(''reason'', JStr (reason_name reason)), (''message'', JStr message)]))) (\<lambda>_.
     step_return (Stopped reason message (lastAssistantText messages))))"

definition failed_step :: "step_type \<Rightarrow> string \<Rightarrow> string \<Rightarrow> step_body" where
  "failed_step type err message =
     \<lparr>sb_type = type, sb_status = Step_failed, sb_toolCalls = [], sb_usage = None, sb_error = Some (err, message)\<rparr>"

definition succeeded_step :: "step_type \<Rightarrow> usage option \<Rightarrow> step_body" where
  "succeeded_step type u =
     \<lparr>sb_type = type, sb_status = Step_succeeded, sb_toolCalls = [], sb_usage = u, sb_error = None\<rparr>"

definition call_message :: "model_call_error \<Rightarrow> string" where
  "call_message e =
     (case e of No_attempts \<Rightarrow> ''A model call needs at least one attempt to make.''
      | Model_call_error pe n streamed \<Rightarrow> pe_message pe)"

definition call_model ::
  "('x, 'e) step_env_scheme \<Rightarrow> model_attempt list \<Rightarrow> ('x, model_call_error + model_call_result) step_op" where
  "call_model env attempts = (\<lambda>(m, d).
     (case call (machine_publisher (se_describe env)) DEFAULTS (se_random env) (se_clock env) (se_generate env) attempts m of
        (r, delays, m') \<Rightarrow> (Inr r, m', d)))"

definition prompt_for ::
  "('x, 'e) step_env_scheme \<Rightarrow> resolved_run \<Rightarrow> meter \<Rightarrow> message list \<Rightarrow> tool_declaration list \<Rightarrow> assembled_prompt" where
  "prompt_for env res m messages tools =
     (let ctx = rr_ctx res in assemblePrompt
       \<lparr>ai_metadata = \<lparr>md_runId = ctx_runId ctx, md_workspaceId = ctx_workspaceId ctx, md_agentId = ctx_agentId ctx\<rparr>,
        ai_providerKey = ctx_providerKey ctx, ai_capabilities = ctx_capabilities ctx,
        ai_directives = rr_systemDirectives res, ai_messages = messages, ai_tools = tools,
        ai_maxOutputTokens = maxOutputTokensFor m (se_now env) (rr_maxOutputTokens res),
        ai_toolChoice = None, ai_structuredOutput = None, ai_stopSequences = None, ai_reasoning = None\<rparr>)"

definition attempts_for :: "resolved_run \<Rightarrow> generation_request \<Rightarrow> model_attempt list" where
  "attempts_for res request =
     map (\<lambda>(modelId, label). \<lparr>ma_request = request, ma_modelId = modelId, ma_label = label\<rparr>) (rr_attempts res)"

definition step_started :: "resolved_run \<Rightarrow> assembled_prompt \<Rightarrow> jsv" where
  "step_started res prompt = JObj [(''seq'', JNum (ctx_stepSeq (rr_ctx res))), (''type'', JStr ''model_call''),
     (''prefixFingerprint'', JStr (ap_prefixFingerprint prompt))]"

text \<open>After a reply: the message, the step, the spend, and whether the model asked for tools.\<close>

definition record_reply :: "('x, 'e) step_env_scheme \<Rightarrow> meter \<Rightarrow> model_call_result \<Rightarrow> ('x, step_outcome) step_op" where
  "record_reply env m result =
     step_then (on_store (store_step (succeeded_step Model_call (Some (mr_usage result))))) (\<lambda>_.
     step_then (save_spend env m) (\<lambda>_.
       (if toolUseBlocks (mr_content result) \<noteq> [] then step_return (Continue Did_model_call)
        else
          step_then (on_store (publish ''run_finished''
            (JObj [(''finishReason'', JStr (finish_name (mr_finishReason result)))]))) (\<lambda>_.
          step_return (Finished (messageText (mr_content result)))))))"

definition keep_reply ::
  "('x, 'e) step_env_scheme \<Rightarrow> resolved_run \<Rightarrow> meter \<Rightarrow> model_call_result \<Rightarrow> ('x, step_outcome) step_op" where
  "keep_reply env res m result =
     step_then (on_store (appendMessage (se_newId env) (se_later env)
       \<lparr>am_role = Role_assistant, am_content = mr_content result,
        am_artifacts = map_option (\<lambda>a. [(ctx_providerKey (rr_ctx res), a)]) (mr_artifacts result),
        am_tokenEstimate = Some (estimateTokens (mr_content result))\<rparr>)) (\<lambda>_. record_reply env m result)"

definition give_up ::
  "('x, 'e) step_env_scheme \<Rightarrow> meter \<Rightarrow> message list \<Rightarrow> string \<Rightarrow> ('x, step_outcome) step_op" where
  "give_up env m messages message =
     step_then (on_store (store_step (failed_step Model_call ''model_call_failed'' message))) (\<lambda>_.
     step_then (save_spend env m) (\<lambda>_.
     stop_step env Stop_model_error message messages m))"

definition after_call ::
  "('x, 'e) step_env_scheme \<Rightarrow> resolved_run \<Rightarrow> meter \<Rightarrow> message list \<Rightarrow> model_call_error + model_call_result \<Rightarrow>
   ('x, step_outcome) step_op" where
  "after_call env res m messages r =
     (case r of
        Inl e \<Rightarrow> give_up env m messages (call_message e)
      | Inr result \<Rightarrow> keep_reply env res (recordUsage (mr_usage result) m) result)"

definition modelCall ::
  "('x, 'e) step_env_scheme \<Rightarrow> resolved_run \<Rightarrow> meter \<Rightarrow> message list \<Rightarrow> ('x, step_outcome) step_op" where
  "modelCall env res m messages =
     (case se_available env of
        Inl message \<Rightarrow> (\<lambda>s. (Inl (Thrown message), s))
      | Inr available \<Rightarrow>
          (case selectCapabilities available (ctx_capabilityBindings (rr_ctx res)) (ctx_capabilities (rr_ctx res))
                  (se_pattern_test env) (rr_bindingIdByAlias res) of
             Inl e \<Rightarrow> (\<lambda>s. (Inl (Name_refused e), s))
           | Inr sel \<Rightarrow>
               (let prompt = prompt_for env res m messages (sel_tools sel)
                in step_then (on_store (publish ''step_started'' (step_started res prompt))) (\<lambda>_.
                   step_then (call_model env (attempts_for res (ap_request prompt)))
                     (after_call env res (recordStep m) messages)))))"

text \<open>Every new result is stored and counted.\<close>

fun save_results ::
  "completed_map \<Rightarrow> tool_invocation_result list \<Rightarrow> meter \<Rightarrow> ('x, meter) step_op" where
  "save_results persisted [] m = step_return m"
| "save_results persisted (r # rs) m =
     (if map_of persisted (tir_id r) = None
      then step_then (on_store (saveToolResult r)) (\<lambda>_.
        save_results persisted rs (recordMrtrRounds (tir_mrtrRounds r) (recordToolCalls 1 m)))
      else save_results persisted rs m)"

text \<open>The gateway sees the database and the tools' world, never the store's own fields.\<close>

definition machine_gateway :: "(world \<times> 'x) invoker \<Rightarrow> 'x machine invoker" where
  "machine_gateway gw name args = (\<lambda>((st, w), x).
     (case gw name args (w, x) of (r, w', x') \<Rightarrow> (r, (st, w'), x')))"

definition run_tools ::
  "('x, 'e) step_env_scheme \<Rightarrow> resolved_run \<Rightarrow> requested_call list \<Rightarrow> completed_map \<Rightarrow> ('x, phase_outcome) step_op" where
  "run_tools env res calls persisted = (\<lambda>(m, d).
     (case run_phase (machine_gateway (se_gateway env)) (machine_publisher (se_describe env)) (se_elapsed env) calls
             (ctx_capabilities (rr_ctx res)) persisted d m of
        (Inl message, d', m') \<Rightarrow> (Inl (Thrown message), m', d')
      | (Inr outcome, d', m') \<Rightarrow> (Inr outcome, m', d')))"

definition tool_message :: "content_block list \<Rightarrow> append_message" where
  "tool_message content =
     \<lparr>am_role = Role_tool, am_content = content, am_artifacts = None, am_tokenEstimate = None\<rparr>"

definition refuse_phase ::
  "('x, 'e) step_env_scheme \<Rightarrow> message list \<Rightarrow> meter \<Rightarrow> string \<Rightarrow> content_block list \<Rightarrow> ('x, step_outcome) step_op" where
  "refuse_phase env messages m answer content =
     step_then (on_store (appendMessage (se_newId env) (se_later env) (tool_message content))) (\<lambda>_.
     step_then (on_store (store_step (failed_step Tool_call ''loop_detected'' answer))) (\<lambda>_.
     stop_step env Stop_loop answer messages m))"

definition suspend_phase :: "suspend_reason \<Rightarrow> id option \<Rightarrow> ('x, step_outcome) step_op" where
  "suspend_phase reason approvalId =
     step_then (on_store (publish ''run_suspended'' (JObj [(''reason'', JStr (suspend_name reason)),
       (''approvalId'', (case approvalId of Some i \<Rightarrow> JStr i | None \<Rightarrow> JUndefined))]))) (\<lambda>_.
     step_return (Step_suspended reason approvalId))"

definition finish_phase ::
  "('x, 'e) step_env_scheme \<Rightarrow> content_block list \<Rightarrow> ('x, step_outcome) step_op" where
  "finish_phase env content =
     step_then (on_store (appendMessage (se_newId env) (se_later env) (tool_message content))) (\<lambda>_.
     step_then (on_store (store_step (succeeded_step Tool_call None))) (\<lambda>_.
     step_return (Continue Did_tool_phase)))"

definition after_phase ::
  "('x, 'e) step_env_scheme \<Rightarrow> message list \<Rightarrow> completed_map \<Rightarrow> meter \<Rightarrow> phase_outcome \<Rightarrow> ('x, step_outcome) step_op" where
  "after_phase env messages persisted m outcome =
     (case outcome of
        Refused answer content \<Rightarrow> refuse_phase env messages m answer content
      | Suspended reason approvalId requestState pendingId results \<Rightarrow>
          step_then (save_results persisted results m) (\<lambda>m'.
          step_then (save_spend env m') (\<lambda>_. suspend_phase reason approvalId))
      | Complete results content \<Rightarrow>
          step_then (save_results persisted results m) (\<lambda>m'.
          step_then (save_spend env m') (\<lambda>_. finish_phase env content)))"

definition toolPhase ::
  "('x, 'e) step_env_scheme \<Rightarrow> resolved_run \<Rightarrow> meter \<Rightarrow> requested_call list \<Rightarrow> message list \<Rightarrow> ('x, step_outcome) step_op" where
  "toolPhase env res m calls messages =
     step_then (on_store completedToolCalls) (\<lambda>persisted.
       (let outstanding = length (outstanding_calls calls persisted)
        in case checkToolPhase m (se_now env) (int outstanding) of
             Breach b \<Rightarrow> stop_step env Stop_budget (phase_explanation m (se_now env) outstanding) messages m
           | OK \<Rightarrow>
               step_then (run_tools env res calls persisted) (after_phase env messages persisted m)))"

definition summariseOrFallback :: "('x, 'e) step_env_scheme \<Rightarrow> compaction_plan \<Rightarrow> canonical_message list \<Rightarrow> string" where
  "summariseOrFallback env plan messages =
     (case se_summarise env of
        None \<Rightarrow> fallbackSummary (plan_toSummarise plan)
      | Some summarise \<Rightarrow>
          (case summarise messages of Some text \<Rightarrow> text | None \<Rightarrow> fallbackSummary (plan_toSummarise plan)))"

definition compact_step ::
  "('x, 'e) step_env_scheme \<Rightarrow> meter \<Rightarrow> compaction_plan \<Rightarrow> ('x, step_outcome) step_op" where
  "compact_step env m plan =
     (case compact plan (summariseOrFallback env plan) of
        Inl Nothing_to_compact \<Rightarrow> (\<lambda>s. (Inl Nothing_compacted, s))
      | Inr result \<Rightarrow>
          step_then (on_store (appendMessage (se_newId env) (se_later env)
            \<lparr>am_role = Role_system, am_content = cr_summary result, am_artifacts = None,
             am_tokenEstimate = Some (estimateTokens (cr_summary result))\<rparr>)) (\<lambda>appended.
          step_then (on_store (supersede (se_later env) (cr_supersededIds result) (msg_id appended))) (\<lambda>_.
          step_then (on_store (store_step (succeeded_step Compaction_step None))) (\<lambda>_.
          step_then (save_spend env (recordStep m)) (\<lambda>_.
          step_return (Continue Did_compaction))))))"

text \<open>Nothing left to answer: the last live message is the assistant's own.\<close>

definition answered_by :: "message list \<Rightarrow> message option" where
  "answered_by messages =
     (case last_opt (live_of messages) of
        Some m \<Rightarrow> if msg_role m = Role_assistant then Some m else None
      | None \<Rightarrow> None)"

definition stepOnce :: "('x, 'e) step_env_scheme \<Rightarrow> resolved_run \<Rightarrow> ('x, step_outcome) step_op" where
  "stepOnce env res =
     (let ctx = rr_ctx res;
          m = new_meter (ctx_budget ctx) (ctx_consumed ctx) (rr_rates res) (se_now env)
      in step_then (on_store loadMessages) (\<lambda>messages.
        (case se_killed env of
           Some why \<Rightarrow> stop_step env Stop_kill_switch why messages m
         | None \<Rightarrow>
             (case meter_check m (se_now env) of
                Breach b \<Rightarrow> stop_step env Stop_budget (EXPLANATIONS b) messages m
              | OK \<Rightarrow>
                  (case pendingToolCalls messages of
                     Some calls \<Rightarrow> toolPhase env res m calls messages
                   | None \<Rightarrow>
                       (case answered_by messages of
                          Some answer \<Rightarrow>
                            step_then (on_store (publish ''run_finished'' (JObj [(''finishReason'', JStr ''end_turn'')])))
                              (\<lambda>_. step_return (Finished (messageText (msg_content answer))))
                        | None \<Rightarrow>
                            (let plan = planCompaction messages (ctx_capabilities ctx) (se_compaction env)
                             in if plan_needed plan then compact_step env m plan else modelCall env res m messages)))))))"

end
