(* ===== verification/Step_Properties.thy ===== *)
theory Step_Properties
  imports Agent_Runtime
begin

text \<open>
  What a step of the runtime guarantees: the frames that model calls, tool phases and store writes respect
  (as locales, interpreted on the conversation and on the identity of the store), the effect of a step on
  the conversation log, and the order of its guards.
\<close>

subsection \<open>What model calls and tool phases leave alone\<close>

text \<open>
  A relation between states that publishing respects is respected by a whole model call, and by a whole
  tool phase if the gateway respects it too.
\<close>

locale publish_frame =
  fixes R :: "'w \<Rightarrow> 'w \<Rightarrow> bool"
    and pub :: "'w publisher"
  assumes R_refl: "R w w"
    and R_trans: "R a b \<Longrightarrow> R b c \<Longrightarrow> R a c"
    and R_pub: "pub type payload w = (r, w') \<Longrightarrow> R w w'"
begin

lemma publish_event_frame: "publish_event pub e w = (r, w') \<Longrightarrow> R w w'"
  by (auto simp: publish_event_def R_refl split: option.splits dest: R_pub)

lemma stream_events_frame: "stream_events pub events thrown u streamed w = (out, w') \<Longrightarrow> R w w'"
proof (induction events arbitrary: u streamed w)
  case (Cons e events)
  show ?case
  proof (cases "terminal_event e")
    case True
    with Cons.prems R_refl show ?thesis by (cases e) auto
  next
    case False
    obtain r w1 where w1: "publish_event pub e w = (r, w1)" by (cases "publish_event pub e w")
    from Cons.prems [unfolded stream_events_step [OF False]] w1 Cons.IH publish_event_frame [OF w1] R_trans
    show ?thesis by (auto split: option.splits)
  qed
qed (auto simp: R_refl split: option.splits)

lemma stream_frame: "stream pub src w = (out, w') \<Longrightarrow> R w w'"
  unfolding stream_def by (rule stream_events_frame)

lemma try_attempt_frame:
  "try_attempt pub opts random generate a left tries made last_error w = (out, delays, w') \<Longrightarrow> R w w'"
proof (induction left arbitrary: tries made last_error w delays)
  case (Suc left)
  obtain r streamed w1 where w1: "stream pub (generate made a) w = ((r, streamed), w1)" by (metis surj_pair)
  have R1: "R w w1" by (rule stream_frame [OF w1])
  show ?case
  proof (cases "(\<exists>result. r = Inr result) \<or> streamed \<or> \<not> pe_retryable (projl r) \<or> left = 0")
    case True
    with Suc.prems w1 R1 show ?thesis by (auto split: sum.splits if_splits)
  next
    case False
    then obtain error where r: "r = Inl error" by (cases r) auto
    with False w1 Suc.prems obtain delays' where
      "try_attempt pub opts random generate a left (Suc tries) (Suc made) (Some error) w1 = (out, delays', w')"
      by (auto split: prod.splits)
    from Suc.IH [OF this] R1 show ?thesis by (blast intro: R_trans)
  qed
qed (simp add: R_refl)

lemma call_attempts_frame:
  "call_attempts pub opts random clock generate index attempts made last_error w = (out, delays, w') \<Longrightarrow> R w w'"
proof (induction attempts arbitrary: index made last_error w delays)
  case (Cons a attempts)
  obtain r ds w1 where w1: "try_attempt pub opts random generate a (attempt_budget opts a) 0 made last_error w = (r, ds, w1)"
    by (metis surj_pair)
  note R1 = try_attempt_frame [OF w1]
  from Cons.prems w1 consider "w' = w1"
    | made' error ds' where "call_attempts pub opts random clock generate (Suc index) attempts made' error w1 = (out, ds', w')"
    by (auto split: attempt_end.splits prod.splits if_splits)
  then show ?case using R1 Cons.IH by cases (blast intro: R_trans)+
qed (simp add: R_refl)

lemma call_frame: "call pub opts random clock generate attempts w = (out, delays, w') \<Longrightarrow> R w w'"
  by (auto simp: call_def R_refl split: if_splits dest: call_attempts_frame)

lemma invoke_call_frame:
  assumes "\<forall>name args w. R w (snd (gw name args w))" "invoke_call gw pub elapsed c w = (out, w')"
  shows "R w w'"
proof -
  let ?started = "JObj [(''id'', JStr (rc_id c)), (''name'', JStr (rc_canonicalName c))]"
  obtain r w1 where w1: "pub ''tool_call_started'' ?started w = (r, w1)" by (metis surj_pair)
  obtain r2 w2 where w2: "gw (rc_canonicalName c) (rc_input c) w1 = (r2, w2)" by (metis surj_pair)
  have "R w w1" "R w1 w2" using R_pub [OF w1] assms(1) w2 by (metis snd_conv)+
  moreover have "w' = w1 \<or> w' = w2"
    using assms(2) w1 w2 by (auto simp: invoke_call_def split: option.splits sum.splits)
  ultimately show ?thesis by (blast intro: R_trans)
qed

lemma invoke_batch_frame:
  assumes gw: "\<forall>name args w. R w (snd (gw name args w))"
  shows "invoke_batch gw pub elapsed cs w = (outs, w') \<Longrightarrow> R w w'"
proof (induction cs arbitrary: w outs)
  case (Cons c cs)
  obtain r w1 where w1: "invoke_call gw pub elapsed c w = (r, w1)" by (metis surj_pair)
  with Cons.prems obtain outs' where "invoke_batch gw pub elapsed cs w1 = (outs', w')"
    by (auto split: prod.splits)
  from Cons.IH [OF this] invoke_call_frame [OF gw w1] show ?case by (blast intro: R_trans)
qed (simp add: R_refl)

lemma settle_frame: "settle pub calls outs completed d w = (out, d', w') \<Longrightarrow> R w w'"
proof (induction outs arbitrary: completed d w)
  case (Cons x outs)
  obtain c y where x: "x = (c, y)" by (cases x)
  show ?case
  proof (cases y)
    case (Inl message)
    with Cons.prems x show ?thesis by (simp add: R_refl)
  next
    case (Inr outcome)
    show ?thesis
    proof (cases outcome)
      case (Tool_done content structured isError bindingId ms rounds perm)
      let ?v = "completed_call c content structured isError bindingId ms rounds perm"
      obtain r w1 where w1: "pub ''tool_call_finished'' (finished_payload c ?v) w = (r, w1)" by (metis surj_pair)
      from R_pub [OF w1] Cons.prems Cons.IH x Inr Tool_done w1 show ?thesis
        by (cases r) (auto simp: Let_def intro: R_trans)
    qed (use Cons.prems x Inr in \<open>simp_all add: R_refl\<close>)
  qed
qed (simp add: R_refl)

lemma run_batches_frame:
  assumes gw: "\<forall>name args w. R w (snd (gw name args w))"
  shows "run_batches gw pub elapsed calls extra todo completed d w = (out, d', w') \<Longrightarrow> R w w'"
proof (induction "length todo" arbitrary: todo completed d w rule: less_induct)
  case less
  show ?case
  proof (cases todo)
    case (Cons c cs)
    obtain outs w1 where w1: "invoke_batch gw pub elapsed (take (Suc extra) todo) w = (outs, w1)" by (metis surj_pair)
    obtain r d2 w2 where w2: "settle pub calls outs completed d w1 = (r, d2, w2)" by (metis surj_pair)
    have R1: "R w w1" by (rule invoke_batch_frame [OF gw w1])
    then have R2: "R w w2" by (rule R_trans [OF _ settle_frame [OF w2]])
    note run = less.prems [unfolded Cons run_batches.simps, folded Cons]
    have small: "length (drop extra cs) < length todo" using Cons by (simp add: less_Suc_eq_le)
    show ?thesis
    proof (cases "rejection outs")
      case (Some message)
      with run w1 R1 Cons show ?thesis by simp
    next
      case None
      with run w1 w2 R2 Cons less.hyps [OF small] show ?thesis
        by (cases r) (auto intro: R_trans)
    qed
  qed (use less.prems in \<open>simp add: R_refl Let_def\<close>)
qed

lemma run_phase_frame:
  assumes "\<forall>name args w. R w (snd (gw name args w))" "run_phase gw pub elapsed calls caps already d w = (out, d', w')"
  shows "R w w'"
  using assms(2) run_batches_frame [OF assms(1)]
  by (auto simp: run_phase_def Let_def R_refl split: loop_verdict.splits)

end

text \<open>
  The same for step operations: a relation that holds across every write of the store, other than to the
  conversation, is kept by everything a step does beside appending and superseding messages.
\<close>

definition keeps_rel :: "(store \<times> world \<Rightarrow> store \<times> world \<Rightarrow> bool) \<Rightarrow> ('x, 'a) step_op \<Rightarrow> bool" where
  "keeps_rel R op \<longleftrightarrow> (\<forall>s r s'. op s = (r, s') \<longrightarrow> R (fst (fst s)) (fst (fst s')))"

lemma keeps_relD: "keeps_rel R op \<Longrightarrow> op s = (r, s') \<Longrightarrow> R (fst (fst s)) (fst (fst s'))"
  unfolding keeps_rel_def by blast

named_theorems keeps

locale step_frame =
  fixes R :: "store \<times> world \<Rightarrow> store \<times> world \<Rightarrow> bool"
  assumes R_refl: "R s s"
    and R_trans: "R a b \<Longrightarrow> R b c \<Longrightarrow> R a c"
    and R_publish: "publish type payload s = (r, s') \<Longrightarrow> R s s'"
    and R_spend: "saveConsumption consumed u s = (r', s') \<Longrightarrow> R s s'"
    and R_step: "store_step body s = (r', s') \<Longrightarrow> R s s'"

sublocale step_frame \<subseteq> machine: publish_frame "\<lambda>a b :: 'x machine. R (fst a) (fst b)" "machine_publisher describe" for describe
  by unfold_locales
    (auto simp: machine_publisher_def store_publisher_def R_refl intro: R_trans
      split: prod.splits sum.splits dest: R_publish)

context step_frame
begin

lemma keeps_then [keeps]:
  assumes "keeps_rel R m" "\<And>v. keeps_rel R (f v)"
  shows "keeps_rel R (step_then m f)"
  unfolding keeps_rel_def
proof (intro allI impI)
  fix s r s'
  assume run: "step_then m f s = (r, s')"
  obtain r1 s1 where m: "m s = (r1, s1)" by (cases "m s")
  note first = keeps_relD [OF assms(1) m]
  show "R (fst (fst s)) (fst (fst s'))"
  proof (cases r1)
    case (Inl e)
    with run m first show ?thesis by (simp add: step_then_def)
  next
    case (Inr v)
    with run m have "f v s1 = (r, s')" by (simp add: step_then_def)
    from first keeps_relD [OF assms(2) this] show ?thesis by (rule R_trans)
  qed
qed

lemma keeps_return [keeps]: "keeps_rel R (step_return v)"
  by (simp add: keeps_rel_def step_return_def R_refl)

lemma keeps_error [keeps]: "keeps_rel R (\<lambda>s. (Inl e, s))"
  by (simp add: keeps_rel_def R_refl)

lemma keeps_on_store: "(\<And>s r s'. op s = (r, s') \<Longrightarrow> R s s') \<Longrightarrow> keeps_rel R (on_store op)"
  by (auto simp: keeps_rel_def on_store_def split: prod.splits sum.splits)

lemma keeps_publish [keeps]: "keeps_rel R (on_store (publish type payload))"
  by (rule keeps_on_store) (rule R_publish)

lemma keeps_load [keeps]: "keeps_rel R (on_store loadMessages)" "keeps_rel R (on_store completedToolCalls)"
  by (auto intro!: keeps_on_store simp: loadMessages_def completedToolCalls_def R_refl)

lemma keeps_spend [keeps]: "keeps_rel R (save_spend env m)"
  unfolding save_spend_def by (rule keeps_on_store) (rule R_spend)

lemma keeps_step [keeps]: "keeps_rel R (on_store (store_step body))" "keeps_rel R (on_store (saveToolResult r))"
  unfolding saveToolResult_def by (auto intro!: keeps_on_store R_step)

lemma keeps_stop [keeps]: "keeps_rel R (stop_step env reason message messages m)"
  unfolding stop_step_def by (intro keeps)

lemma keeps_call [keeps]: "keeps_rel R (call_model env attempts)"
  unfolding keeps_rel_def call_model_def by (auto split: prod.splits dest: machine.call_frame)

lemma keeps_save_results [keeps]: "keeps_rel R (save_results persisted rs m)"
  by (induction rs arbitrary: m) (auto intro!: keeps)

lemma keeps_run_tools [keeps]:
  assumes "\<forall>name args st w x. R (st, w) (st, fst (snd (se_gateway env name args (w, x))))"
  shows "keeps_rel R (run_tools env res calls persisted)"
proof -
  have "\<forall>name args m. R (fst m) (fst (snd (machine_gateway (se_gateway env) name args m)))"
    using assms by (auto simp: machine_gateway_def split: prod.splits) (metis fst_conv snd_conv)
  from machine.run_phase_frame [OF this] show ?thesis
    unfolding keeps_rel_def run_tools_def by (fastforce split: prod.splits sum.splits)
qed

lemma keeps_record_reply [keeps]: "keeps_rel R (record_reply env m result)"
  unfolding record_reply_def by (auto intro!: keeps)

lemma keeps_give_up [keeps]: "keeps_rel R (give_up env m messages message)"
  unfolding give_up_def by (intro keeps)

lemma keeps_suspend [keeps]: "keeps_rel R (suspend_phase reason a)"
  unfolding suspend_phase_def by (intro keeps)

end

text \<open>If appending and superseding respect it too, so does the whole step.\<close>

locale full_frame = step_frame +
  assumes R_append: "appendMessage newId now m s = (r'', s') \<Longrightarrow> R s s'"
    and R_supersede: "supersede now ids i s = (r', s') \<Longrightarrow> R s s'"
begin

lemma keeps_append [keeps]: "keeps_rel R (on_store (appendMessage newId now m))"
  by (rule keeps_on_store) (rule R_append)

lemma keeps_supersede [keeps]: "keeps_rel R (on_store (supersede now ids i))"
  by (rule keeps_on_store) (rule R_supersede)

lemma keeps_stepOnce:
  assumes "\<forall>name args st w x. R (st, w) (st, fst (snd (se_gateway env name args (w, x))))"
  shows "keeps_rel R (stepOnce env res)"
  unfolding stepOnce_def modelCall_def after_call_def keep_reply_def toolPhase_def after_phase_def refuse_phase_def
    finish_phase_def compact_step_def Let_def
  using assms
  by (auto intro!: keeps split: option.split sum.split verdict.split phase_outcome.split compact_error.split)

end

subsection \<open>The conversation\<close>

definition same_conv :: "store \<times> world \<Rightarrow> store \<times> world \<Rightarrow> bool" where
  "same_conv a b \<longleftrightarrow> w_messages (snd b) = w_messages (snd a) \<and> w_convs (snd b) = w_convs (snd a) \<and>
     sto_conversationId (fst b) = sto_conversationId (fst a)"

interpretation conv: step_frame same_conv
  by unfold_locales
    (auto simp: same_conv_def publish_def appendEvent_def saveConsumption_def store_step_def Let_def
      split: if_splits prod.splits sum.splits step_error.splits event_error.splits)

text \<open>A gateway that does not write conversations.\<close>

definition spares_conversations :: "(world \<times> 'x) invoker \<Rightarrow> bool" where
  "spares_conversations gw \<longleftrightarrow> (\<forall>name args w x. w_messages (fst (snd (gw name args (w, x)))) = w_messages w \<and>
     w_convs (fst (snd (gw name args (w, x)))) = w_convs w)"

lemma spares_keeps:
  assumes "spares_conversations (se_gateway env)"
  shows "keeps_rel same_conv (run_tools env res calls persisted)"
  using assms by (intro conv.keeps_run_tools) (simp add: spares_conversations_def same_conv_def)

text \<open>Appending is the one operation that changes the log.\<close>

lemma same_conv_log:
  assumes "same_conv a b"
  shows "log_of c (snd b) = log_of c (snd a)" "log_ok c (snd b) \<longleftrightarrow> log_ok c (snd a)"
    "recentMessages c n (snd b) = recentMessages c n (snd a)"
  using assms by (simp_all add: same_conv_def log_of_def log_ok_def recentMessages_def)

lemma guard_shape: "\<exists>r docs. guard now (st, w) = (r, st, w\<lparr>w_db := (w_db w)\<lparr>db_runs := docs\<rparr>\<rparr>)"
  by (auto simp: guard_def split: prod.splits sum.splits)

lemma appendMessage_log:
  assumes "appendMessage newId now m s = (Inr doc, s')" "log_ok (sto_conversationId (fst s)) (snd s)"
  shows "fst s' = fst s \<and> log_ok (sto_conversationId (fst s)) (snd s') \<and>
    log_of (sto_conversationId (fst s)) (snd s') = log_of (sto_conversationId (fst s)) (snd s) @ [doc] \<and>
    msg_role doc = am_role m \<and> msg_content doc = am_content m \<and> msg_id doc = newId"
proof -
  obtain st w where s: "s = (st, w)" by (cases s)
  obtain docs where g: "guard now (st, w) = (Inr (), st, w\<lparr>w_db := (w_db w)\<lparr>db_runs := docs\<rparr>\<rparr>)"
    using assms(1) by (auto simp: s appendMessage_def and_then_def guard_def split: prod.splits sum.splits)
  let ?w1 = "w\<lparr>w_db := (w_db w)\<lparr>db_runs := docs\<rparr>\<rparr>"
  have ok: "log_ok (sto_conversationId st) ?w1" using assms(2) by (simp add: s log_ok_def)
  have same: "log_of (sto_conversationId st) ?w1 = log_of (sto_conversationId st) w" by (simp add: log_of_def)
  from repo_append_log [OF ok, of newId "Some (sto_runId st)" now m] obtain doc' w' where
    w': "repo_appendMessage newId (sto_conversationId st) (Some (sto_runId st)) now m ?w1 = (Some doc', w')"
      "log_ok (sto_conversationId st) w'"
      "log_of (sto_conversationId st) w' = log_of (sto_conversationId st) w @ [doc']"
      "msg_role doc' = am_role m" "msg_content doc' = am_content m"
    unfolding same by blast
  have "msg_id doc' = newId"
    using w'(1) by (auto simp: repo_appendMessage_def allocateSeq_def Let_def split: option.splits)
  moreover have "doc = doc'" "s' = (st, w')"
    using assms(1) g w'(1) by (auto simp: s appendMessage_def and_then_def)
  ultimately show ?thesis using w' by (simp add: s)
qed

text \<open>The live log of the step's conversation.\<close>

definition the_log :: "'x step_state \<Rightarrow> message list" where
  "the_log s = log_of (sto_conversationId (fst (fst (fst s)))) (snd (fst (fst s)))"

definition good_log :: "'x step_state \<Rightarrow> bool" where
  "good_log s \<longleftrightarrow> log_ok (sto_conversationId (fst (fst (fst s)))) (snd (fst (fst s)))"

lemma step_thenE:
  assumes "step_then m f s = (Inr v, s')"
  obtains u s1 where "m s = (Inr u, s1)" "f u s1 = (Inr v, s')"
  using assms by (auto simp: step_then_def split: prod.splits sum.splits)

lemma keeps_log:
  assumes "keeps_rel same_conv op" "op s = (r, s')"
  shows "the_log s' = the_log s \<and> (good_log s' \<longleftrightarrow> good_log s)"
proof -
  have c: "same_conv (fst (fst s)) (fst (fst s'))" by (rule keeps_relD [OF assms])
  then have "sto_conversationId (fst (fst (fst s'))) = sto_conversationId (fst (fst (fst s)))"
    by (simp add: same_conv_def)
  with same_conv_log [OF c] show ?thesis by (simp add: the_log_def good_log_def)
qed

lemma append_log:
  assumes "on_store (appendMessage newId now m) s = (Inr doc, s')" "good_log s"
  shows "good_log s' \<and> the_log s' = the_log s @ [doc] \<and> msg_role doc = am_role m \<and>
    msg_content doc = am_content m \<and> msg_id doc = newId"
proof -
  obtain sw x d where s: "s = ((sw, x), d)" by (metis prod.collapse)
  obtain sw' where "appendMessage newId now m sw = (Inr doc, sw')" "s' = ((sw', x), d)"
    using assms(1) by (auto simp: s on_store_def split: prod.splits sum.splits)
  with appendMessage_log [of newId now m sw doc sw'] assms(2) show ?thesis
    by (simp add: s good_log_def the_log_def)
qed

lemma stop_step_outcome:
  "stop_step env reason message messages m s = (Inr out, s') \<Longrightarrow> out = Stopped reason message (lastAssistantText messages)"
  by (auto simp: stop_step_def step_return_def elim!: step_thenE)

lemma keep_reply_log:
  assumes "keep_reply env res m result s = (Inr out, s')" "good_log s"
  shows "\<exists>doc. good_log s' \<and> the_log s' = the_log s @ [doc] \<and> msg_role doc = Role_assistant \<and>
    msg_content doc = mr_content result \<and>
    out = (if toolUseBlocks (mr_content result) \<noteq> [] then Continue Did_model_call
           else Finished (messageText (mr_content result)))"
proof -
  from assms(1) obtain doc s1 where
    1: "on_store (appendMessage (se_newId env) (se_later env) \<lparr>am_role = Role_assistant, am_content = mr_content result,
        am_artifacts = map_option (\<lambda>a. [(ctx_providerKey (rr_ctx res), a)]) (mr_artifacts result),
        am_tokenEstimate = Some (estimateTokens (mr_content result))\<rparr>) s = (Inr doc, s1)" and
    rest: "record_reply env m result s1 = (Inr out, s')"
    unfolding keep_reply_def by (rule step_thenE)
  have "out = (if toolUseBlocks (mr_content result) \<noteq> [] then Continue Did_model_call
           else Finished (messageText (mr_content result)))"
    using rest unfolding record_reply_def by (auto simp: step_return_def elim!: step_thenE split: if_splits)
  with append_log [OF 1 assms(2)] keeps_log [OF conv.keeps_record_reply rest] show ?thesis by auto
qed

lemma modelCall_log:
  assumes "modelCall env res m messages s = (Inr out, s')" "good_log s"
  shows "good_log s' \<and>
    ((\<exists>doc. the_log s' = the_log s @ [doc] \<and> msg_role doc = Role_assistant \<and>
       out = (if toolUseBlocks (msg_content doc) \<noteq> [] then Continue Did_model_call
              else Finished (messageText (msg_content doc)))) \<or>
     (\<exists>message. the_log s' = the_log s \<and> out = Stopped Stop_model_error message (lastAssistantText messages)))"
proof -
  from assms(1) obtain available sel where av: "se_available env = Inr available"
    and sel: "selectCapabilities available (ctx_capabilityBindings (rr_ctx res)) (ctx_capabilities (rr_ctx res))
        (se_pattern_test env) (rr_bindingIdByAlias res) = Inr sel"
    by (auto simp: modelCall_def split: sum.splits)
  let ?prompt = "prompt_for env res m messages (sel_tools sel)"
  from assms(1) have "step_then (on_store (publish ''step_started'' (step_started res ?prompt))) (\<lambda>_.
      step_then (call_model env (attempts_for res (ap_request ?prompt))) (after_call env res (recordStep m) messages)) s =
      (Inr out, s')"
    by (simp add: modelCall_def Let_def av sel)
  then obtain u s1 where 1: "on_store (publish ''step_started'' (step_started res ?prompt)) s = (Inr u, s1)" and
    rest: "step_then (call_model env (attempts_for res (ap_request ?prompt))) (after_call env res (recordStep m) messages) s1 =
      (Inr out, s')"
    by (rule step_thenE)
  from rest obtain r s2 where 2: "call_model env (attempts_for res (ap_request ?prompt)) s1 = (Inr r, s2)" and
    fin: "after_call env res (recordStep m) messages r s2 = (Inr out, s')"
    by (rule step_thenE)
  have same: "the_log s2 = the_log s" "good_log s2"
    using keeps_log [OF conv.keeps_publish 1] keeps_log [OF conv.keeps_call 2] assms(2) by auto
  show ?thesis
  proof (cases r)
    case (Inl e)
    with fin have stop: "give_up env (recordStep m) messages (call_message e) s2 = (Inr out, s')" by (simp add: after_call_def)
    have "out = Stopped Stop_model_error (call_message e) (lastAssistantText messages)"
      using stop unfolding give_up_def by (auto elim!: step_thenE dest!: stop_step_outcome)
    with keeps_log [OF conv.keeps_give_up stop] same show ?thesis by auto
  next
    case (Inr result)
    with fin have "keep_reply env res (recordUsage (mr_usage result) (recordStep m)) result s2 = (Inr out, s')"
      by (simp add: after_call_def)
    from keep_reply_log [OF this same(2)] same(1) show ?thesis by auto
  qed
qed

fun answered_id :: "content_block \<Rightarrow> string option" where
  "answered_id (Tool_result i content st err) = Some i"
| "answered_id _ = None"

lemma completed_ok: "on_store completedToolCalls s = (Inr persisted, s') \<Longrightarrow> ok_map persisted"
  by (auto simp: on_store_def completedToolCalls_def ok_map_def split: prod.splits)

lemma run_tools_answers:
  assumes "run_tools env res calls persisted s = (Inr outcome, s')" "ok_map persisted"
  shows "case outcome of
      Complete rs content \<Rightarrow> map answered_id content = map (\<lambda>c. Some (rc_id c)) calls
    | Suspended reason a st pid rs \<Rightarrow> True
    | Refused answer content \<Rightarrow> map answered_id content = map (\<lambda>c. Some (rc_id c)) calls"
proof -
  obtain m d where s: "s = (m, d)" by (cases s)
  obtain m' d' where "run_phase (machine_gateway (se_gateway env)) (machine_publisher (se_describe env)) (se_elapsed env) calls
      (ctx_capabilities (rr_ctx res)) persisted d m = (Inr outcome, d', m')"
    using assms(1) by (auto simp: s run_tools_def split: prod.splits sum.splits)
  from run_phase_recorded [OF this] obtain made where
    "run_phase (recording (machine_gateway (se_gateway env))) (quietly (machine_publisher (se_describe env))) (se_elapsed env) calls
      (ctx_capabilities (rr_ctx res)) persisted d (m, []) = (Inr outcome, d', m', made)" by blast
  from phase_result [OF this assms(2) [unfolded ok_map_def]] show ?thesis
  proof (cases outcome)
    case (Complete rs content)
    have "map answered_id (result_message rs) = map Some (map tir_id rs)"
      by (simp add: result_message_def toolResultBlock_def)
    with phase_result [OF \<open>run_phase (recording _) _ _ _ _ _ _ _ = _\<close> assms(2) [unfolded ok_map_def]] Complete
    show ?thesis by simp
  qed simp_all
qed

lemma refuse_phase_log:
  assumes "refuse_phase env messages m answer content s = (Inr out, s')" "good_log s"
  shows "\<exists>doc. good_log s' \<and> the_log s' = the_log s @ [doc] \<and> msg_role doc = Role_tool \<and> msg_content doc = content \<and>
    out = Stopped Stop_loop answer (lastAssistantText messages)"
proof -
  let ?rest = "step_then (on_store (store_step (failed_step Tool_call ''loop_detected'' answer)))
      (\<lambda>_. stop_step env Stop_loop answer messages m)"
  from assms(1) obtain doc s1 where
    1: "on_store (appendMessage (se_newId env) (se_later env) (tool_message content)) s = (Inr doc, s1)" and
    rest: "?rest s1 = (Inr out, s')"
    unfolding refuse_phase_def by (rule step_thenE)
  have "keeps_rel same_conv ?rest" by (intro keeps)
  from keeps_log [OF this rest] append_log [OF 1 assms(2)] show ?thesis
    using rest by (auto simp: tool_message_def elim!: step_thenE dest!: stop_step_outcome)
qed

lemma finish_phase_log:
  assumes "finish_phase env content s = (Inr out, s')" "good_log s"
  shows "\<exists>doc. good_log s' \<and> the_log s' = the_log s @ [doc] \<and> msg_role doc = Role_tool \<and> msg_content doc = content \<and>
    out = Continue Did_tool_phase"
proof -
  let ?rest = "step_then (on_store (store_step (succeeded_step Tool_call None)))
      (\<lambda>_. step_return (Continue Did_tool_phase))"
  from assms(1) obtain doc s1 where
    1: "on_store (appendMessage (se_newId env) (se_later env) (tool_message content)) s = (Inr doc, s1)" and
    rest: "?rest s1 = (Inr out, s')"
    unfolding finish_phase_def by (rule step_thenE)
  have "keeps_rel same_conv ?rest" by (intro keeps)
  from keeps_log [OF this rest] append_log [OF 1 assms(2)] show ?thesis
    using rest by (auto simp: tool_message_def step_return_def elim!: step_thenE)
qed

lemma after_phase_log:
  assumes "after_phase env messages persisted m outcome s = (Inr out, s')" "good_log s"
  shows "good_log s' \<and> (case outcome of
      Complete rs content \<Rightarrow> \<exists>doc. the_log s' = the_log s @ [doc] \<and> msg_role doc = Role_tool \<and> msg_content doc = content \<and>
        out = Continue Did_tool_phase
    | Suspended reason a st pid rs \<Rightarrow> the_log s' = the_log s \<and> out = Step_suspended reason a
    | Refused answer content \<Rightarrow> \<exists>doc. the_log s' = the_log s @ [doc] \<and> msg_role doc = Role_tool \<and>
        msg_content doc = content \<and> out = Stopped Stop_loop answer (lastAssistantText messages))"
proof (cases outcome)
  case (Refused answer content)
  with assms refuse_phase_log show ?thesis by (fastforce simp: after_phase_def)
next
  case (Suspended reason a st pid rs)
  let ?op = "step_then (save_results persisted rs m) (\<lambda>m'. step_then (save_spend env m') (\<lambda>_. suspend_phase reason a))"
  from Suspended assms(1) have run: "?op s = (Inr out, s')" by (simp add: after_phase_def)
  have "keeps_rel same_conv ?op" by (intro keeps)
  from keeps_log [OF this run] assms(2) Suspended run show ?thesis
    by (auto simp: suspend_phase_def step_return_def elim!: step_thenE)
next
  case (Complete rs content)
  from Complete assms(1) have "step_then (save_results persisted rs m) (\<lambda>m'. step_then (save_spend env m')
      (\<lambda>_. finish_phase env content)) s = (Inr out, s')" by (simp add: after_phase_def)
  then obtain m' s1 where 1: "save_results persisted rs m s = (Inr m', s1)"
    and "step_then (save_spend env m') (\<lambda>_. finish_phase env content) s1 = (Inr out, s')" by (rule step_thenE)
  from this(2) obtain u s2 where 2: "save_spend env m' s1 = (Inr u, s2)"
    and 3: "finish_phase env content s2 = (Inr out, s')" by (rule step_thenE)
  from keeps_log [OF conv.keeps_save_results 1] keeps_log [OF conv.keeps_spend 2] assms(2)
  have "the_log s2 = the_log s" "good_log s2" by auto
  with finish_phase_log [OF 3] Complete show ?thesis by auto
qed

lemma toolPhase_log:
  assumes "toolPhase env res m calls messages s = (Inr out, s')" "good_log s"
    and gw: "spares_conversations (se_gateway env)"
  shows "good_log s' \<and>
    ((\<exists>doc. the_log s' = the_log s @ [doc] \<and> msg_role doc = Role_tool \<and>
        map answered_id (msg_content doc) = map (\<lambda>c. Some (rc_id c)) calls \<and>
        (out = Continue Did_tool_phase \<or> (\<exists>answer. out = Stopped Stop_loop answer (lastAssistantText messages)))) \<or>
     (the_log s' = the_log s \<and>
        ((\<exists>reason a. out = Step_suspended reason a) \<or>
         (\<exists>why. out = Stopped Stop_budget why (lastAssistantText messages)))))"
proof -
  from assms(1) obtain persisted s1 where 1: "on_store completedToolCalls s = (Inr persisted, s1)"
    and rest: "(case checkToolPhase m (se_now env) (int (length (outstanding_calls calls persisted))) of
        Breach b \<Rightarrow> stop_step env Stop_budget (phase_explanation m (se_now env) (length (outstanding_calls calls persisted))) messages m
      | OK \<Rightarrow> step_then (run_tools env res calls persisted) (after_phase env messages persisted m)) s1 = (Inr out, s')"
    unfolding toolPhase_def Let_def by (rule step_thenE)
  from keeps_log [OF conv.keeps_load(2) 1] assms(2) have s1: "the_log s1 = the_log s" "good_log s1" by auto
  show ?thesis
  proof (cases "checkToolPhase m (se_now env) (int (length (outstanding_calls calls persisted)))")
    case (Breach b)
    with rest have stop: "stop_step env Stop_budget (phase_explanation m (se_now env)
        (length (outstanding_calls calls persisted))) messages m s1 = (Inr out, s')" by simp
    from keeps_log [OF conv.keeps_stop stop] stop_step_outcome [OF stop] s1 show ?thesis by auto
  next
    case OK
    with rest obtain outcome s2 where 2: "run_tools env res calls persisted s1 = (Inr outcome, s2)"
      and 3: "after_phase env messages persisted m outcome s2 = (Inr out, s')" by (auto elim: step_thenE)
    from keeps_log [OF spares_keeps [OF gw] 2] s1 have s2: "the_log s2 = the_log s" "good_log s2" by auto
    from after_phase_log [OF 3 s2(2)] run_tools_answers [OF 2 completed_ok [OF 1]] s2(1) show ?thesis
      by (cases outcome) auto
  qed
qed

definition supersede_one :: "id \<Rightarrow> id list \<Rightarrow> id \<Rightarrow> id \<times> message \<Rightarrow> id \<times> message" where
  "supersede_one c ids i = (\<lambda>(k, m). if k = c \<and> msg_id m \<in> set ids \<and> msg_supersededBy m = None
     then (k, m\<lparr>msg_supersededBy := Some i\<rparr>) else (k, m))"

lemma supersede_one_fst [simp]: "fst (supersede_one c ids i km) = fst km"
  by (simp add: supersede_one_def split: prod.splits)

lemma supersede_one_seq [simp]: "msg_seq (snd (supersede_one c ids i km)) = msg_seq (snd km)"
  by (simp add: supersede_one_def split: prod.splits)

lemma supersedeMessages_messages:
  "w_messages (supersedeMessages c ids i w) = map (supersede_one c ids i) (w_messages w)"
  by (auto simp: supersedeMessages_def supersede_one_def case_prod_beta intro!: nth_equalityI)

lemma supersedeMessages_convs [simp]: "w_convs (supersedeMessages c ids i w) = w_convs w"
  by (simp add: supersedeMessages_def)

lemma all_of_supersede:
  "map snd (filter (\<lambda>(k, m). k = c) (map (supersede_one c ids i) ms)) =
     map (\<lambda>m. snd (supersede_one c ids i (c, m))) (map snd (filter (\<lambda>(k, m). k = c) ms))"
  by (induction ms) (auto simp: case_prod_beta)

lemma supersedeMessages_ok:
  assumes "log_ok c w"
  shows "log_ok c (supersedeMessages c ids i w)"
  using assms unfolding log_ok_def supersedeMessages_messages all_of_supersede
  by (auto simp: sorted_wrt_map)

lemma supersedeMessages_log:
  "log_of c (supersedeMessages c ids i w) = filter (\<lambda>m. msg_id m \<notin> set ids) (log_of c w)"
proof -
  have "map snd (filter (\<lambda>(k, m). k = c \<and> msg_supersededBy m = None) (map (supersede_one c ids i) ms)) =
      filter (\<lambda>m. msg_id m \<notin> set ids) (map snd (filter (\<lambda>(k, m). k = c \<and> msg_supersededBy m = None) ms))" for ms
    by (induction ms) (auto simp: supersede_one_def split: if_splits)
  then show ?thesis by (simp add: log_of_def supersedeMessages_messages)
qed

lemma supersede_log:
  assumes "on_store (supersede now ids i) s = (Inr u, s')" "good_log s"
  shows "good_log s' \<and> the_log s' = filter (\<lambda>m. msg_id m \<notin> set ids) (the_log s)"
proof -
  obtain st w x d where s: "s = (((st, w), x), d)" by (metis prod.collapse)
  let ?c = "sto_conversationId st"
  obtain r docs where g: "guard now (st, w) = (r, st, w\<lparr>w_db := (w_db w)\<lparr>db_runs := docs\<rparr>\<rparr>)"
    using guard_shape by blast
  with assms(1) have s': "s' = (((st, supersedeMessages ?c ids i (w\<lparr>w_db := (w_db w)\<lparr>db_runs := docs\<rparr>\<rparr>)), x), d)"
    by (cases r) (auto simp: s on_store_def supersede_def and_then_def)
  let ?w1 = "w\<lparr>w_db := (w_db w)\<lparr>db_runs := docs\<rparr>\<rparr>"
  have "log_ok ?c ?w1" using assms(2) by (simp add: s good_log_def log_ok_def)
  from supersedeMessages_ok [OF this] supersedeMessages_log [of ?c ids i ?w1] show ?thesis
    by (simp add: s s' good_log_def the_log_def) (simp add: log_of_def)
qed

lemma compact_step_log:
  assumes "compact_step env m plan s = (Inr out, s')" "good_log s"
    and fresh: "se_newId env \<notin> msg_id ` set (plan_toSummarise plan)"
  shows "\<exists>summary. good_log s' \<and> msg_role summary = Role_system \<and> out = Continue Did_compaction \<and> plan_needed plan \<and>
    the_log s' = filter (\<lambda>m. msg_id m \<notin> msg_id ` set (plan_toSummarise plan)) (the_log s) @ [summary]"
proof -
  obtain result where res: "compact plan (summariseOrFallback env plan) = Inr result"
    using assms(1) by (auto simp: compact_step_def split: sum.splits compact_error.splits)
  then have plan: "plan_needed plan" "cr_supersededIds result = map msg_id (plan_toSummarise plan)"
    by (auto simp: compact_def Let_def split: if_splits)
  let ?tail = "step_then (on_store (store_step (succeeded_step Compaction_step None))) (\<lambda>_.
      step_then (save_spend env (recordStep m)) (\<lambda>_. step_return (Continue Did_compaction)))"
  from assms(1) obtain doc s1 where
    1: "on_store (appendMessage (se_newId env) (se_later env) \<lparr>am_role = Role_system, am_content = cr_summary result,
        am_artifacts = None, am_tokenEstimate = Some (estimateTokens (cr_summary result))\<rparr>) s = (Inr doc, s1)"
    and r1: "step_then (on_store (supersede (se_later env) (cr_supersededIds result) (msg_id doc))) (\<lambda>_. ?tail) s1 = (Inr out, s')"
    unfolding compact_step_def res sum.case by (rule step_thenE)
  from r1 obtain u s2 where
    2: "on_store (supersede (se_later env) (cr_supersededIds result) (msg_id doc)) s1 = (Inr u, s2)"
    and r2: "?tail s2 = (Inr out, s')" by (rule step_thenE)
  have "keeps_rel same_conv ?tail" by (intro keeps)
  note tail = keeps_log [OF this r2]
  from append_log [OF 1 assms(2)] have doc: "good_log s1" "the_log s1 = the_log s @ [doc]" "msg_role doc = Role_system"
    "msg_id doc = se_newId env" by auto
  from supersede_log [OF 2 doc(1)] have "good_log s2"
    "the_log s2 = filter (\<lambda>m. msg_id m \<notin> msg_id ` set (plan_toSummarise plan)) (the_log s) @ [doc]"
    using doc fresh by (auto simp: plan(2))
  moreover have "out = Continue Did_compaction" using r2 by (auto simp: step_return_def elim!: step_thenE)
  ultimately show ?thesis using tail doc(3) plan(1) by auto
qed

lemma live_of_log: "live_of (log_of c w) = log_of c w"
  unfolding live_of_def filter_id_conv by (auto simp: log_of_def)

lemma live_of_drop: "live_of xs = xs \<Longrightarrow> live_of (drop n xs) = drop n xs"
  unfolding live_of_def filter_id_conv by (meson in_set_dropD)

lemma last_opt_drop: "n < length xs \<Longrightarrow> last_opt (drop n xs) = last_opt xs"
  by (auto simp: last_opt_def)

lemma loaded_log:
  assumes "on_store loadMessages s = (Inr messages, s')" "good_log s"
  shows "s' = s" "live_of messages = messages" "last_opt messages = last_opt (the_log s)"
    "pendingToolCalls messages = pendingToolCalls (the_log s)" "set messages \<subseteq> set (the_log s)"
    "messages = drop (length (the_log s) - 500) (the_log s)"
proof -
  obtain st w x d where s: "s = (((st, w), x), d)" by (metis prod.collapse)
  have msgs: "s' = s" "messages = recentMessages (sto_conversationId st) 500 w"
    using assms(1) by (auto simp: s on_store_def loadMessages_def)
  from recentMessages_log [of _ w 500] assms(2) have m: "messages = drop (length (the_log s) - 500) (the_log s)"
    by (simp add: msgs s good_log_def the_log_def)
  have live: "live_of (the_log s) = the_log s" by (simp add: the_log_def live_of_log)
  show "s' = s" by (rule msgs(1))
  show "messages = drop (length (the_log s) - 500) (the_log s)" by (rule m)
  show l: "live_of messages = messages" unfolding m by (rule live_of_drop [OF live])
  show last: "last_opt messages = last_opt (the_log s)"
    unfolding m by (cases "the_log s") (simp, rule last_opt_drop, simp)
  show "pendingToolCalls messages = pendingToolCalls (the_log s)"
    by (simp add: pendingToolCalls_def l live last)
  show "set messages \<subseteq> set (the_log s)" unfolding m by (rule set_drop_subset)
qed

lemma pendingToolCalls_snoc:
  assumes "live_of (xs @ [doc]) = xs @ [doc]"
  shows "pendingToolCalls (xs @ [doc]) = None \<longleftrightarrow> msg_role doc \<noteq> Role_assistant \<or> toolUseBlocks (msg_content doc) = []"
  using assms by (auto simp: pendingToolCalls_def split: list.splits)

text \<open>Where a step goes, once the messages are loaded.\<close>

lemma stepOnce_cases:
  assumes "stepOnce env res s = (Inr out, s')" "good_log s"
  obtains
    (stopped) reason why messages m where "stop_step env reason why messages m s = (Inr out, s')"
      "reason \<in> {Stop_kill_switch, Stop_budget}"
  | (tools) m calls messages where "pendingToolCalls (the_log s) = Some calls" "toolPhase env res m calls messages s = (Inr out, s')"
  | (answered) answer where "pendingToolCalls (the_log s) = None" "last_opt (the_log s) = Some answer" "msg_role answer = Role_assistant"
      "step_then (on_store (publish ''run_finished'' (JObj [(''finishReason'', JStr ''end_turn'')])))
         (\<lambda>_. step_return (Finished (messageText (msg_content answer)))) s = (Inr out, s')"
  | (compacting) m plan where "compact_step env m plan s = (Inr out, s')" "set (plan_toSummarise plan) \<subseteq> set (the_log s)"
      "plan = planCompaction (drop (length (the_log s) - 500) (the_log s)) (ctx_capabilities (rr_ctx res)) (se_compaction env)"
  | (calling) m messages where "modelCall env res m messages s = (Inr out, s')"
proof -
  let ?m = "new_meter (ctx_budget (rr_ctx res)) (ctx_consumed (rr_ctx res)) (rr_rates res) (se_now env)"
  from assms(1) obtain messages s1 where load: "on_store loadMessages s = (Inr messages, s1)" and
    rest: "(case se_killed env of
           Some why \<Rightarrow> stop_step env Stop_kill_switch why messages ?m
         | None \<Rightarrow>
             (case meter_check ?m (se_now env) of
                Breach b \<Rightarrow> stop_step env Stop_budget (EXPLANATIONS b) messages ?m
              | OK \<Rightarrow>
                  (case pendingToolCalls messages of
                     Some calls \<Rightarrow> toolPhase env res ?m calls messages
                   | None \<Rightarrow>
                       (case answered_by messages of
                          Some answer \<Rightarrow>
                            step_then (on_store (publish ''run_finished'' (JObj [(''finishReason'', JStr ''end_turn'')])))
                              (\<lambda>_. step_return (Finished (messageText (msg_content answer))))
                        | None \<Rightarrow>
                            (let plan = planCompaction messages (ctx_capabilities (rr_ctx res)) (se_compaction env)
                             in if plan_needed plan then compact_step env ?m plan else modelCall env res ?m messages))))) s1 =
      (Inr out, s')"
    unfolding stepOnce_def Let_def by (rule step_thenE)
  note l = loaded_log [OF load assms(2)]
  let ?plan = "planCompaction messages (ctx_capabilities (rr_ctx res)) (se_compaction env)"
  have plan: "set (plan_toSummarise ?plan) \<subseteq> set (the_log s)"
    using l(2,5) by (auto simp: planCompaction_def Let_def dest: in_set_takeD)
  from rest [unfolded l(1,4)] show thesis
    using stopped tools answered compacting [OF _ plan] calling l(2,3,6)
    by (auto simp: answered_by_def Let_def split: option.splits verdict.splits if_splits)
qed

text \<open>Stopping saves the spend and says so; it touches nothing else.\<close>

definition quiet_stop :: "'x step_state \<Rightarrow> 'x step_state \<Rightarrow> bool" where
  "quiet_stop s s' \<longleftrightarrow> snd (fst s') = snd (fst s) \<and> snd s' = snd s \<and>
     w_messages (snd (fst (fst s'))) = w_messages (snd (fst (fst s))) \<and>
     db_steps (w_db (snd (fst (fst s')))) = db_steps (w_db (snd (fst (fst s))))"

lemma quiet_stop_trans: "quiet_stop a b \<Longrightarrow> quiet_stop b c \<Longrightarrow> quiet_stop a c"
  by (simp add: quiet_stop_def)

lemma save_spend_quiet: "save_spend env m s = (r, s') \<Longrightarrow> quiet_stop s s'"
  by (auto simp: save_spend_def on_store_def saveConsumption_def Let_def quiet_stop_def split: prod.splits sum.splits)

lemma publish_quiet: "on_store (publish type payload) s = (r, s') \<Longrightarrow> quiet_stop s s'"
  by (auto simp: on_store_def publish_def appendEvent_def Let_def quiet_stop_def
      split: prod.splits sum.splits if_splits event_error.splits)

lemma stop_step_quiet:
  assumes "stop_step env reason why messages m s = (r, s')"
  shows "quiet_stop s s'"
proof -
  let ?say = "on_store (publish ''run_finished'' (JObj [(''reason'', JStr (reason_name reason)), (''message'', JStr why)]))"
  obtain r1 s1 where 1: "save_spend env m s = (r1, s1)" by (metis surj_pair)
  obtain r2 s2 where 2: "?say s1 = (r2, s2)" by (metis surj_pair)
  from save_spend_quiet [OF 1] have "quiet_stop s s1" .
  moreover from this publish_quiet [OF 2] have "quiet_stop s s2" by (rule quiet_stop_trans)
  moreover have "s' = s1 \<or> s' = s2"
    using assms 1 2 by (auto simp: stop_step_def step_then_def step_return_def split: sum.splits)
  ultimately show ?thesis by blast
qed

lemma fresh_meter_consumed: "meter_consumed (new_meter budget consumed rates now) now = consumed"
  by (simp add: meter_consumed_def new_meter_def)

lemma fresh_meter_budget: "m_budget (new_meter budget consumed rates now) = budget"
  by (simp add: new_meter_def)

lemma live_the_log: "live_of (the_log s) = the_log s"
  by (simp add: the_log_def live_of_log)

subsection \<open>Properties\<close>

text \<open>
  C15. A step leaves the conversation where the next step can take it up. With a conversation log in order
  and a gateway that does not write the conversation, a step that returns keeps the log in order, and: after
  a model call that asked for tools, the reply is the last message and its calls are pending; after a tool
  phase, one tool message answers exactly the calls that were pending and nothing is pending; a compaction
  replaces what its plan over the messages it loaded summarises by one summary at the end; a finished run ends in an assistant message that asks
  for nothing and is the text returned; a suspended step leaves the log as it was, with the calls still
  pending; a stopped one appends at most the refusal of a loop.
\<close>

theorem step_progress:
  assumes "stepOnce env res s = (Inr out, s')" "good_log s"
    and "spares_conversations (se_gateway env)"
    and "se_newId env \<notin> msg_id ` set (the_log s)"
  shows "good_log s' \<and> (case out of
      Continue Did_model_call \<Rightarrow> \<exists>reply. the_log s' = the_log s @ [reply] \<and> msg_role reply = Role_assistant \<and>
        pendingToolCalls (the_log s') \<noteq> None
    | Continue Did_tool_phase \<Rightarrow> \<exists>calls answer. pendingToolCalls (the_log s) = Some calls \<and>
        the_log s' = the_log s @ [answer] \<and> msg_role answer = Role_tool \<and>
        map answered_id (msg_content answer) = map (\<lambda>c. Some (rc_id c)) calls \<and> pendingToolCalls (the_log s') = None
    | Continue Did_compaction \<Rightarrow>
        (let plan = planCompaction (drop (length (the_log s) - 500) (the_log s)) (ctx_capabilities (rr_ctx res)) (se_compaction env)
         in plan_needed plan \<and> (\<exists>summary. msg_role summary = Role_system \<and>
           the_log s' = filter (\<lambda>m. msg_id m \<notin> msg_id ` set (plan_toSummarise plan)) (the_log s) @ [summary]))
    | Finished answer \<Rightarrow> \<exists>reply. last_opt (the_log s') = Some reply \<and> msg_role reply = Role_assistant \<and>
        toolUseBlocks (msg_content reply) = [] \<and> answer = messageText (msg_content reply)
    | Step_suspended reason a \<Rightarrow> the_log s' = the_log s \<and> pendingToolCalls (the_log s') \<noteq> None
    | Stopped reason why answer \<Rightarrow> the_log s' = the_log s \<or>
        (reason = Stop_loop \<and> (\<exists>refusal. the_log s' = the_log s @ [refusal] \<and> msg_role refusal = Role_tool)))"
  using assms(1,2)
proof (cases rule: stepOnce_cases)
  case (stopped reason why messages m)
  from keeps_log [OF conv.keeps_stop stopped(1)] stop_step_outcome [OF stopped(1)] assms(2) show ?thesis by auto
next
  case (tools m calls messages)
  have live: "live_of (the_log s') = the_log s'" by (rule live_the_log)
  from toolPhase_log [OF tools(2) assms(2,3)] tools(1) show ?thesis
    using pendingToolCalls_snoc [of "the_log s"] live by (auto simp del: map_eq_conv)
next
  case (answered reply)
  have "keeps_rel same_conv (step_then (on_store (publish ''run_finished'' (JObj [(''finishReason'', JStr ''end_turn'')])))
      (\<lambda>_. step_return (Finished (messageText (msg_content reply)))) :: ('a, step_outcome) step_op)" by (intro keeps)
  from keeps_log [OF this answered(4)] have same: "the_log s' = the_log s" "good_log s'" using assms(2) by auto
  have "toolUseBlocks (msg_content reply) = []"
    using answered(1-3) by (simp add: pendingToolCalls_def live_the_log split: list.splits)
  moreover have "out = Finished (messageText (msg_content reply))"
    using answered(4) by (auto simp: step_return_def elim!: step_thenE)
  ultimately show ?thesis using same answered(2,3) by simp
next
  case (compacting m plan)
  have "se_newId env \<notin> msg_id ` set (plan_toSummarise plan)" using assms(4) compacting(2) by blast
  from compact_step_log [OF compacting(1) assms(2) this] show ?thesis
    unfolding compacting(3) Let_def by auto
next
  case (calling m messages)
  have live: "live_of (the_log s') = the_log s'" by (rule live_the_log)
  from modelCall_log [OF calling assms(2)] show ?thesis
    using pendingToolCalls_snoc [of "the_log s"] live by (auto split: if_splits)
qed

text \<open>
  C27. The kill switch and the budget come before everything else: if the agent is stopped, or the run has
  used up its budget, a step neither calls a model nor a tool nor a summariser, whatever these would do; it
  leaves the conversation, the steps and the tools' world alone and can only end as stopped, for that reason.
\<close>

theorem step_gated:
  fixes env :: "'x step_env"
  assumes "se_killed env \<noteq> None \<or> checkBudget (ctx_budget (rr_ctx res)) (ctx_consumed (rr_ctx res)) \<noteq> None"
    and "stepOnce env res ((sw, x), d) = (r, ((sw', x'), d'))"
  shows "x' = x \<and> d' = d \<and> w_messages (snd sw') = w_messages (snd sw) \<and>
    db_steps (w_db (snd sw')) = db_steps (w_db (snd sw)) \<and>
    (\<forall>out. r = Inr out \<longrightarrow> (\<exists>why answer. out =
       Stopped (if se_killed env \<noteq> None then Stop_kill_switch else Stop_budget) why answer)) \<and>
    stepOnce (env\<lparr>se_gateway := gw, se_generate := gen, se_available := av, se_summarise := sm\<rparr>) res ((sw, x), d) =
      (r, ((sw', x'), d'))"
proof -
  let ?m = "new_meter (ctx_budget (rr_ctx res)) (ctx_consumed (rr_ctx res)) (rr_rates res) (se_now env)"
  let ?messages = "recentMessages (sto_conversationId (fst sw)) 500 (snd sw)"
  let ?reason = "if se_killed env \<noteq> None then Stop_kill_switch else Stop_budget"
  let ?why = "case se_killed env of Some why \<Rightarrow> why | None \<Rightarrow>
     EXPLANATIONS (the (checkBudget (ctx_budget (rr_ctx res)) (ctx_consumed (rr_ctx res))))"
  have load: "on_store loadMessages ((sw, x), d) = (Inr ?messages, (sw, x), d)"
    by (cases sw) (simp add: on_store_def loadMessages_def)
  have step: "stepOnce e res ((sw, x), d) = stop_step e ?reason ?why ?messages ?m ((sw, x), d)"
    if "se_killed e = se_killed env" "se_now e = se_now env" for e :: "'x step_env"
    using assms(1) that by (auto simp: stepOnce_def Let_def step_then_def load meter_check_def fresh_meter_consumed
        fresh_meter_budget split: option.splits)
  have env: "stop_step (env\<lparr>se_gateway := gw, se_generate := gen, se_available := av, se_summarise := sm\<rparr>) =
      (stop_step env :: stop_reason \<Rightarrow> string \<Rightarrow> message list \<Rightarrow> meter \<Rightarrow> ('x, step_outcome) step_op)"
    by (simp add: stop_step_def save_spend_def fun_eq_iff)
  have run: "stop_step env ?reason ?why ?messages ?m ((sw, x), d) = (r, ((sw', x'), d'))"
    using assms(2) step [of env] by simp
  have "\<exists>why answer. out = Stopped ?reason why answer" if "r = Inr out" for out
    using stop_step_outcome [OF run [unfolded that]] by blast
  with stop_step_quiet [OF run] step
      [of "env\<lparr>se_gateway := gw, se_generate := gen, se_available := av, se_summarise := sm\<rparr>"] run env
  show ?thesis by (simp add: quiet_stop_def)
qed

definition sample_binding :: model_binding where
  "sample_binding = \<lparr>mb_id = ''m1'', mb_providerType = ''acme'', mb_modelId = ''large'', mb_rates = None,
     mb_fallbackBindingId = None, mb_maxOutputTokens = None\<rparr>"

definition sample_deps :: resolver_deps where
  "sample_deps = \<lparr>rd_registered = (\<lambda>_. True), rd_loadModelBinding = (\<lambda>_. Some sample_binding),
     rd_credentialsFor = (\<lambda>_. Inr ()), rd_describeModel = (\<lambda>_ _. Inr sample_caps), rd_revalidatePrincipal = Some,
     rd_bindingIdByAlias = (\<lambda>_ _. None), rd_systemDirectives = (\<lambda>_. []), rd_snapshotBindings = (\<lambda>_. [])\<rparr>"

definition sample_resolved :: resolved_run where
  "sample_resolved = projr (resolve sample_deps sample_run)"

definition sample_env :: "unit step_env" where
  "sample_env = \<lparr>se_now = 10, se_later = 12, se_newId = ''m9'', se_killed = Some ''paused by an operator'',
     se_gateway = (\<lambda>name args m. (Inr (Task_pending [] []), m)), se_available = Inr [], se_pattern_test = (\<lambda>_. True),
     se_generate = sample_streams, se_random = (\<lambda>_. 0), se_clock = int, se_elapsed = (\<lambda>_. 0), se_summarise = None,
     se_compaction = \<lparr>cp_threshold = None, cp_target = None, cp_keepRecent = None\<rparr>, se_describe = (\<lambda>_. [])\<rparr>"

definition sample_state :: "unit step_state" where
  "sample_state = (((sample_store, leased_world), ()), new_detector None None)"

lemma sample_state_log: "good_log sample_state" "the_log sample_state = []"
  by (simp_all add: good_log_def the_log_def sample_state_def log_ok_def log_of_def leased_world_def sample_world_def
      sample_store_def new_store_def sample_run_def new_run_def sample_request_def)

theorem step_gated_witness:
  "w_messages (snd (fst (fst (snd (stepOnce sample_env sample_resolved sample_state))))) = []"
proof -
  obtain r sw' x' d' where run: "stepOnce sample_env sample_resolved (((sample_store, leased_world), ()), new_detector None None) =
      (r, ((sw', x'), d'))" by (metis surj_pair)
  from step_gated [where gw = "se_gateway sample_env" and gen = sample_streams and av = "Inr []" and sm = None, OF _ this] run
  show ?thesis
    by (simp add: sample_env_def sample_state_def leased_world_def sample_world_def)
qed

text \<open>A run woken after its answer was written.\<close>

definition sample_reply :: message where
  "sample_reply = \<lparr>msg_id = ''m1'', msg_seq = 1, msg_role = Role_assistant, msg_content = [Text ''done''],
     msg_artifacts = None, msg_runId = None, msg_tokenEstimate = None, msg_createdAt = 1, msg_supersededBy = None\<rparr>"

definition answered_state :: "unit step_state" where
  "answered_state = (((sample_store, leased_world\<lparr>w_messages := [(''c1'', sample_reply)],
     w_convs := [\<lparr>cv_id = ''c1'', cv_nextSeq = 2, cv_messageCount = 1, cv_lastMessage = None, cv_updatedAt = 0\<rparr>]\<rparr>), ()),
     new_detector None None)"

definition woken_env :: "unit step_env" where
  "woken_env = sample_env\<lparr>se_killed := None\<rparr>"

lemma answered_state_log: "good_log answered_state" "the_log answered_state = [sample_reply]"
  by (simp_all add: good_log_def the_log_def answered_state_def log_ok_def log_of_def leased_world_def sample_world_def
      sample_store_def new_store_def sample_run_def new_run_def sample_request_def sample_reply_def)

lemma sample_budget_ok: "checkBudget (ctx_budget (rr_ctx sample_resolved)) (ctx_consumed (rr_ctx sample_resolved)) = None"
  by (simp add: sample_resolved_def resolve_def sample_deps_def load_binding_def sample_run_def new_run_def
      sample_request_def Let_def checkBudget_def DEFAULT_BUDGET_def emptyConsumption_def sample_binding_def)

lemma woken_step: "\<exists>s'. stepOnce woken_env sample_resolved answered_state = (Inr (Finished ''done''), s')"
proof -
  have load: "on_store loadMessages answered_state = (Inr [sample_reply], answered_state)"
    by (simp add: on_store_def loadMessages_def answered_state_def recentMessages_def leased_world_def sample_world_def
        sample_store_def new_store_def sample_run_def new_run_def sample_request_def sample_reply_def)
  have "pendingToolCalls [sample_reply] = None" "answered_by [sample_reply] = Some sample_reply"
    by (simp_all add: pendingToolCalls_def answered_by_def live_of_def sample_reply_def last_opt_def toolUseBlocks_def)
  moreover have "messageText (msg_content sample_reply) = ''done''"
    by (simp add: sample_reply_def messageText_def)
  moreover obtain s' where "on_store (publish ''run_finished'' (JObj [(''finishReason'', JStr ''end_turn'')])) answered_state = (Inr (), s')"
    by (simp add: on_store_def publish_def appendEvent_def answered_state_def leased_world_def sample_world_def Let_def)
  ultimately show ?thesis
    using sample_budget_ok load
    by (simp add: stepOnce_def Let_def step_then_def step_return_def meter_check_def fresh_meter_consumed
        fresh_meter_budget woken_env_def sample_env_def)
qed

theorem step_progress_witness:
  "\<exists>s'. stepOnce woken_env sample_resolved answered_state = (Inr (Finished ''done''), s') \<and> good_log s'"
proof -
  obtain s' where run: "stepOnce woken_env sample_resolved answered_state = (Inr (Finished ''done''), s')"
    using woken_step by blast
  from step_progress [OF run answered_state_log(1)] have "good_log s'"
    by (simp add: answered_state_log sample_reply_def woken_env_def sample_env_def spares_conversations_def)
  with run show ?thesis by blast
qed

end
