(* ===== verification/Executor.thy ===== *)
theory Executor
  imports Step_Properties
begin

text \<open>
  The sliced executor (\<^verbatim>\<open>packages/runtime/src/sliced-executor.ts\<close>): claim a run, step it until the slice runs
  out, then hand it back.

  Its dependencies are a record of functions, as in the code. The interface the executor relies on is the
  locale \<open>leased_runs\<close>, interpreted below on the run queue and the runtime's step. The clock is an argument:
  \<open>tick n m\<close> is what it shows at moment \<open>m\<close> of iteration \<open>n\<close>. The loop may run forever, so it has fuel and running out is \<open>None\<close>. Metrics and
  tracing are left out; the continuation requests it sends are collected.
\<close>

subsection \<open>Interface\<close>

datatype step_failure = Lost_lease | Failed_with string

record ('s, 'session) executor_deps =
  xd_claim :: "time \<Rightarrow> 's \<Rightarrow> (run_doc \<times> string) option \<times> 's"
  xd_heartbeat :: "id \<Rightarrow> string \<Rightarrow> time \<Rightarrow> 's \<Rightarrow> bool \<times> 's"
  xd_release :: "id \<Rightarrow> string \<Rightarrow> release_intent \<Rightarrow> time \<Rightarrow> 's \<Rightarrow> bool \<times> 's"
  xd_openSession :: "run_doc \<Rightarrow> string \<Rightarrow> 's \<Rightarrow> (step_failure + 'session) \<times> 's"
  xd_stepOnce :: "nat \<Rightarrow> 'session \<Rightarrow> 's \<Rightarrow> (step_failure + step_outcome) \<times> 'session \<times> 's"
  xd_reserveMs :: int
  xd_heartbeatEveryMs :: int

datatype exec_outcome =
    Idle
  | Lease_gone
  | Yielded time
  | Exec_finished id run_status "(string \<times> string) option"
  | Exec_suspended id suspend_reason

datatype exec_throw = Timeout_refused timeout_error | Release_refused id

datatype moment = At_start | At_deadline_check | At_beat_check | At_heartbeat | At_beat_done | At_release

type_synonym exec_clock = "nat \<Rightarrow> moment \<Rightarrow> time"
type_synonym 's exec_end = "(exec_throw + exec_outcome) \<times> id list \<times> 's"

fun statusFor :: "suspend_reason \<Rightarrow> run_status" where
  "statusFor For_approval = Waiting_approval"
| "statusFor For_input = Waiting_input"
| "statusFor For_tool = Waiting_tool"

subsection \<open>Operations\<close>

definition finish_run ::
  "('s, 'session) executor_deps \<Rightarrow> id \<Rightarrow> string \<Rightarrow> run_status \<Rightarrow> (string \<times> string) option \<Rightarrow> time \<Rightarrow> 's \<Rightarrow> 's exec_end" where
  "finish_run deps r t status err now s =
     (case xd_release deps r t (Finish status err) now s of
        (False, s') \<Rightarrow> (Inr Lease_gone, [], s')
      | (True, s') \<Rightarrow> (Inr (Exec_finished r status err), [], s'))"

definition fail_run :: "('s, 'session) executor_deps \<Rightarrow> id \<Rightarrow> string \<Rightarrow> string \<Rightarrow> time \<Rightarrow> 's \<Rightarrow> 's exec_end" where
  "fail_run deps r t message now s = finish_run deps r t Failed (Some (''executor_error'', message)) now s"

definition yield_run :: "('s, 'session) executor_deps \<Rightarrow> id \<Rightarrow> string \<Rightarrow> time \<Rightarrow> 's \<Rightarrow> 's exec_end" where
  "yield_run deps r t now s =
     (case xd_release deps r t (Requeue now None) now s of
        (False, s') \<Rightarrow> (Inr Lease_gone, [], s')
      | (True, s') \<Rightarrow> (Inr (Yielded now), [r], s'))"

definition suspend_run ::
  "('s, 'session) executor_deps \<Rightarrow> id \<Rightarrow> string \<Rightarrow> suspend_reason \<Rightarrow> time \<Rightarrow> 's \<Rightarrow> 's exec_end" where
  "suspend_run deps r t reason now s =
     (case xd_release deps r t (Suspend (statusFor reason)) now s of
        (False, s') \<Rightarrow> (Inl (Release_refused r), [], s')
      | (True, s') \<Rightarrow> (Inr (Exec_suspended r reason), [], s'))"

text \<open>The heartbeat of an iteration: \<open>None\<close> when the lease is gone, otherwise the time of the last one.\<close>

definition beat ::
  "('s, 'session) executor_deps \<Rightarrow> id \<Rightarrow> string \<Rightarrow> (moment \<Rightarrow> time) \<Rightarrow> time \<Rightarrow> 's \<Rightarrow> time option \<times> 's" where
  "beat deps r t now last_beat s =
     (if now At_beat_check - last_beat \<ge> xd_heartbeatEveryMs deps then
        (case xd_heartbeat deps r t (now At_heartbeat) s of
           (True, s') \<Rightarrow> (Some (now At_beat_done), s') | (False, s') \<Rightarrow> (None, s'))
      else (Some last_beat, s))"

fun exec_loop ::
  "('s, 'session) executor_deps \<Rightarrow> exec_clock \<Rightarrow> wall_clock_deadline \<Rightarrow> id \<Rightarrow> string \<Rightarrow> nat \<Rightarrow> nat \<Rightarrow> time \<Rightarrow>
   'session \<Rightarrow> 's \<Rightarrow> 's exec_end option" where
  "exec_loop deps tick deadline r t 0 n last_beat session s = None"
| "exec_loop deps tick deadline r t (Suc fuel) n last_beat session s =
     (if deadline_expired deadline (tick n At_deadline_check) (xd_reserveMs deps) then Some (yield_run deps r t (tick n At_release) s)
      else
        (case beat deps r t (tick n) last_beat s of
           (None, s1) \<Rightarrow> Some (Inr Lease_gone, [], s1)
         | (Some last_beat', s1) \<Rightarrow>
             (case xd_stepOnce deps n session s1 of
                (Inl Lost_lease, session', s2) \<Rightarrow> Some (Inr Lease_gone, [], s2)
              | (Inl (Failed_with message), session', s2) \<Rightarrow> Some (fail_run deps r t message (tick n At_release) s2)
              | (Inr (Continue what), session', s2) \<Rightarrow>
                  exec_loop deps tick deadline r t fuel (Suc n) last_beat' session' s2
              | (Inr (Finished answer), session', s2) \<Rightarrow> Some (finish_run deps r t Succeeded None (tick n At_release) s2)
              | (Inr (Step_suspended reason a), session', s2) \<Rightarrow> Some (suspend_run deps r t reason (tick n At_release) s2)
              | (Inr (Stopped reason message answer), session', s2) \<Rightarrow>
                  Some (finish_run deps r t Failed (Some (reason_name reason, message)) (tick n At_release) s2))))"

definition drive ::
  "('s, 'session) executor_deps \<Rightarrow> exec_clock \<Rightarrow> wall_clock_deadline \<Rightarrow> nat \<Rightarrow> run_doc \<Rightarrow> string \<Rightarrow> 's \<Rightarrow> 's exec_end option" where
  "drive deps tick deadline fuel run t s =
     (case xd_openSession deps run t s of
        (Inl Lost_lease, s1) \<Rightarrow> Some (Inr Lease_gone, [], s1)
      | (Inl (Failed_with message), s1) \<Rightarrow> Some (fail_run deps (rd_id run) t message (tick 0 At_release) s1)
      | (Inr session, s1) \<Rightarrow> exec_loop deps tick deadline (rd_id run) t fuel 0 (tick 0 At_beat_done) session s1)"

definition execute ::
  "('s, 'session) executor_deps \<Rightarrow> exec_clock \<Rightarrow> wall_clock_deadline \<Rightarrow> nat \<Rightarrow> 's \<Rightarrow> 's exec_end option" where
  "execute deps tick deadline fuel s =
     (case assertTimeoutBudget (remainingMs deadline (tick 0 At_start)) (xd_reserveMs deps) of
        Inl e \<Rightarrow> Some (Inl (Timeout_refused e), [], s)
      | Inr _ \<Rightarrow>
          (case xd_claim deps (tick 0 At_heartbeat) s of
             (None, s1) \<Rightarrow> Some (Inr Idle, [], s1)
           | (Some (run, t), s1) \<Rightarrow> drive deps tick deadline fuel run t s1))"

subsection \<open>What the executor relies on\<close>

text \<open>How a slice over run \<open>r\<close> with token \<open>t\<close> may end, given what holding and handing back mean.\<close>

definition slice_ended ::
  "(id \<Rightarrow> string \<Rightarrow> 's \<Rightarrow> bool) \<Rightarrow> (id \<Rightarrow> run_status \<Rightarrow> 's \<Rightarrow> bool) \<Rightarrow> id \<Rightarrow> string \<Rightarrow> 's exec_end \<Rightarrow> bool" where
  "slice_ended held handed_back r t e \<longleftrightarrow> (case e of
      (Inl (Timeout_refused _), _, _) \<Rightarrow> False
    | (Inl (Release_refused i), _, s) \<Rightarrow> i = r \<and> \<not> held r t s
    | (Inr Idle, _, _) \<Rightarrow> False
    | (Inr Lease_gone, triggered, s) \<Rightarrow> \<not> held r t s \<and> triggered = []
    | (Inr (Yielded _), triggered, s) \<Rightarrow> handed_back r Queued s \<and> triggered = [r]
    | (Inr (Exec_finished i status _), triggered, s) \<Rightarrow>
        i = r \<and> status \<in> {Succeeded, Failed} \<and> handed_back r status s \<and> triggered = []
    | (Inr (Exec_suspended i reason), triggered, s) \<Rightarrow> i = r \<and> handed_back r (statusFor reason) s \<and> triggered = [])"

locale leased_runs =
  fixes deps :: "('s, 'session) executor_deps"
    and held :: "id \<Rightarrow> string \<Rightarrow> 's \<Rightarrow> bool"
    and handed_back :: "id \<Rightarrow> run_status \<Rightarrow> 's \<Rightarrow> bool"
    and owns :: "id \<Rightarrow> string \<Rightarrow> 'session \<Rightarrow> bool"
  assumes heartbeat_lost: "xd_heartbeat deps r t now s = (False, s') \<Longrightarrow> \<not> held r t s'"
    and release_lost: "xd_release deps r t intent now s = (False, s') \<Longrightarrow> \<not> held r t s'"
    and release_requeues: "xd_release deps r t (Requeue tm from_step) now s = (True, s') \<Longrightarrow> handed_back r Queued s'"
    and release_suspends: "xd_release deps r t (Suspend status) now s = (True, s') \<Longrightarrow> handed_back r status s'"
    and release_finishes: "xd_release deps r t (Finish status err) now s = (True, s') \<Longrightarrow> handed_back r status s'"
    and open_owns: "xd_openSession deps run t s = (Inr session, s') \<Longrightarrow> owns (rd_id run) t session"
    and open_keeps: "xd_openSession deps run t s \<noteq> (Inl Lost_lease, s')"
    and step_owns: "xd_stepOnce deps n session s = (out, session', s') \<Longrightarrow> owns r t session \<Longrightarrow> owns r t session'"
    and step_lost: "xd_stepOnce deps n session s = (Inl Lost_lease, session', s') \<Longrightarrow> owns r t session \<Longrightarrow> \<not> held r t s'"
begin

abbreviation ended :: "id \<Rightarrow> string \<Rightarrow> 's exec_end \<Rightarrow> bool" where
  "ended \<equiv> slice_ended held handed_back"

lemma lease_gone_ended: "\<not> held r t s \<Longrightarrow> ended r t (Inr Lease_gone, [], s)"
  by (simp add: slice_ended_def)

lemma finish_run_ended: "status \<in> {Succeeded, Failed} \<Longrightarrow> ended r t (finish_run deps r t status err now s)"
  by (auto simp: finish_run_def slice_ended_def dest: release_lost release_finishes split: prod.splits bool.splits)

lemma yield_run_ended: "ended r t (yield_run deps r t now s)"
  by (auto simp: yield_run_def slice_ended_def dest: release_lost release_requeues split: prod.splits bool.splits)

lemma suspend_run_ended: "ended r t (suspend_run deps r t reason now s)"
  by (auto simp: suspend_run_def slice_ended_def dest: release_lost release_suspends split: prod.splits bool.splits)

lemma beat_lost: "beat deps r t now last_beat s = (None, s') \<Longrightarrow> \<not> held r t s'"
  by (auto simp: beat_def dest: heartbeat_lost split: if_splits prod.splits bool.splits)

lemma loop_ended:
  assumes "exec_loop deps tick deadline r t fuel n last_beat session s = Some e" "owns r t session"
  shows "ended r t e"
  using assms
proof (induction fuel arbitrary: n last_beat session s)
  case (Suc fuel)
  show ?case
  proof (cases "deadline_expired deadline (tick n At_deadline_check) (xd_reserveMs deps)")
    case True
    with Suc.prems(1) yield_run_ended show ?thesis by auto
  next
    case False
    obtain b s1 where b: "beat deps r t (tick n) last_beat s = (b, s1)" by (metis surj_pair)
    show ?thesis
    proof (cases b)
      case None
      with Suc.prems(1) False b lease_gone_ended beat_lost [of r t "tick n" last_beat s s1] show ?thesis by auto
    next
      case (Some last_beat')
      obtain out session' s2 where step: "xd_stepOnce deps n session s1 = (out, session', s2)" by (metis surj_pair)
      note owns' = step_owns [OF step Suc.prems(2)]
      show ?thesis
      proof (cases out)
        case (Inl failure)
        with Suc.prems False b Some step step_lost [of n session s1 session' s2 r t] lease_gone_ended
          finish_run_ended [of Failed]
        show ?thesis by (cases failure) (auto simp: fail_run_def)
      next
        case (Inr outcome)
        with Suc.prems(1) False b Some step Suc.IH [OF _ owns'] finish_run_ended suspend_run_ended show ?thesis
          by (cases outcome) auto
      qed
    qed
  qed
qed simp

lemma drive_ended:
  assumes "drive deps tick deadline fuel run t s = Some e"
  shows "ended (rd_id run) t e"
  using assms open_keeps open_owns loop_ended finish_run_ended [of Failed]
  by (auto simp: drive_def fail_run_def split: prod.splits sum.splits step_failure.splits)

end

subsection \<open>Losing the lease inside a step\<close>

text \<open>A step that reports a lost lease leaves a database in which nobody holds it.\<close>

definition store_holds :: "store \<times> world \<Rightarrow> bool" where
  "store_holds sw \<longleftrightarrow> (\<exists>d \<in> set (db_runs (w_db (snd sw))). holds (sto_runId (fst sw)) (sto_leaseToken (fst sw)) d)"

definition honest :: "('x, 'a) step_op \<Rightarrow> bool" where
  "honest op \<longleftrightarrow> (\<forall>s i s'. op s = (Inl (Store_failed (E_lease_lost i)), s') \<longrightarrow> \<not> store_holds (fst (fst s')))"

named_theorems honesty

lemma honest_then [honesty]:
  assumes "honest m" "\<And>v. honest (f v)"
  shows "honest (step_then m f)"
  unfolding honest_def
proof (intro allI impI)
  fix s i s'
  assume run: "step_then m f s = (Inl (Store_failed (E_lease_lost i)), s')"
  obtain r1 s1 where m: "m s = (r1, s1)" by (cases "m s")
  show "\<not> store_holds (fst (fst s'))"
  proof (cases r1)
    case (Inl e)
    with run m have "m s = (Inl (Store_failed (E_lease_lost i)), s')" by (simp add: step_then_def)
    with assms(1) show ?thesis unfolding honest_def by blast
  next
    case (Inr v)
    with run m have "f v s1 = (Inl (Store_failed (E_lease_lost i)), s')" by (simp add: step_then_def)
    with assms(2) show ?thesis unfolding honest_def by blast
  qed
qed

lemma honest_return [honesty]: "honest (step_return v)"
  by (simp add: honest_def step_return_def)

lemma honest_error [honesty]: "honest (\<lambda>s. (Inl (Thrown message), s))" "honest (\<lambda>s. (Inl (Name_refused e), s))"
  "honest (\<lambda>s. (Inl Nothing_compacted, s))"
  by (simp_all add: honest_def)

lemma honest_on_store:
  assumes "\<And>s i s'. op s = (Inl (E_lease_lost i), s') \<Longrightarrow> \<not> store_holds s'"
  shows "honest (on_store op)"
  using assms by (fastforce simp: honest_def on_store_def split: prod.splits sum.splits)

lemma honest_publish [honesty]: "honest (on_store (publish type payload))"
  by (rule honest_on_store)
    (auto simp: publish_def appendEvent_def Let_def split: if_splits)

lemma honest_load [honesty]: "honest (on_store loadMessages)" "honest (on_store completedToolCalls)"
  by (auto intro!: honest_on_store simp: loadMessages_def completedToolCalls_def)

lemma honest_spend [honesty]: "honest (save_spend env m)"
  unfolding save_spend_def by (rule honest_on_store) (auto simp: saveConsumption_def Let_def)

lemma honest_step [honesty]: "honest (on_store (store_step body))" "honest (on_store (saveToolResult r))"
  unfolding saveToolResult_def
  by (auto intro!: honest_on_store simp: store_step_def split: prod.splits sum.splits step_error.splits)

lemma guard_lost:
  assumes "guard now s = (Inl e, s')"
  shows "\<not> store_holds s'"
  using assms
  by (cases s) (auto simp: guard_def heartbeat_def update_one_def store_holds_def list_ex_iff update_first_id
      split: if_splits)

lemma honest_append [honesty]: "honest (on_store (appendMessage newId now m))" "honest (on_store (supersede now ids i))"
  by (auto intro!: honest_on_store simp: appendMessage_def supersede_def and_then_def
      split: prod.splits sum.splits option.splits dest: guard_lost)

lemma honest_call [honesty]: "honest (call_model env attempts)" "honest (run_tools env res calls persisted)"
  by (auto simp: honest_def call_model_def run_tools_def split: prod.splits sum.splits)

lemma honest_save_results [honesty]: "honest (save_results persisted rs m)"
  by (induction rs arbitrary: m) (auto intro!: honesty)

lemma honest_stepOnce: "honest (stepOnce env res)"
  unfolding stepOnce_def modelCall_def after_call_def give_up_def keep_reply_def record_reply_def toolPhase_def
    after_phase_def refuse_phase_def suspend_phase_def finish_phase_def compact_step_def stop_step_def Let_def
  by (auto intro!: honesty split: option.split sum.split verdict.split phase_outcome.split compact_error.split)

subsection \<open>The executor on the run queue and the runtime\<close>

definition same_ident :: "store \<times> world \<Rightarrow> store \<times> world \<Rightarrow> bool" where
  "same_ident a b \<longleftrightarrow> sto_runId (fst b) = sto_runId (fst a) \<and> sto_leaseToken (fst b) = sto_leaseToken (fst a)"

lemma guard_same_store: "guard now s = (r, s') \<Longrightarrow> fst s' = fst s"
  by (cases s) (auto simp: guard_def split: prod.splits sum.splits)

interpretation ident: full_frame same_ident
  by unfold_locales
    (auto simp: same_ident_def publish_def saveConsumption_def store_step_def Let_def appendMessage_def
      supersede_def and_then_def split: if_splits prod.splits sum.splits step_error.splits event_error.splits option.splits
      dest!: guard_same_store)

record 'x session =
  sn_store :: store
  sn_detector :: loop_detector
  sn_resolved :: resolved_run

definition resolve_message :: "resolve_error \<Rightarrow> string" where
  "resolve_message e = (case e of
      Principal_revoked i \<Rightarrow> ''Run '' @ i @ '' cannot continue: the authority it was created with is no longer valid.''
    | Model_unavailable i detail \<Rightarrow> detail
    | Provider_failed message \<Rightarrow> message)"

text \<open>
  \<^verbatim>\<open>openSession\<close>: the store with its event numbers, the resolved run, and a runtime with a new loop detector.
\<close>

definition openSession ::
  "resolver_deps \<Rightarrow> int \<Rightarrow> run_doc \<Rightarrow> string \<Rightarrow> world \<times> 'x \<Rightarrow> (step_failure + 'x session) \<times> world \<times> 'x" where
  "openSession rdeps leaseMs run t s =
     (case resolve rdeps run of
        Inl e \<Rightarrow> (Inl (Failed_with (resolve_message e)), s)
      | Inr res \<Rightarrow> (Inr \<lparr>sn_store = open_store run t leaseMs (w_db (fst s)),
            sn_detector = new_detector None None, sn_resolved = res\<rparr>, s))"

definition as_failure :: "(runtime_error \<Rightarrow> string) \<Rightarrow> runtime_error \<Rightarrow> step_failure" where
  "as_failure describe e = (case e of Store_failed (E_lease_lost i) \<Rightarrow> Lost_lease | _ \<Rightarrow> Failed_with (describe e))"

definition session_step ::
  "(runtime_error \<Rightarrow> string) \<Rightarrow> (nat \<Rightarrow> 'x step_env) \<Rightarrow> nat \<Rightarrow> 'x session \<Rightarrow> world \<times> 'x \<Rightarrow>
   (step_failure + step_outcome) \<times> 'x session \<times> world \<times> 'x" where
  "session_step describe envs n session = (\<lambda>(w, x).
     (case stepOnce (envs n) (sn_resolved session) (((sn_store session, w), x), sn_detector session) of
        (r, ((st, w'), x'), d) \<Rightarrow>
          ((case r of Inl e \<Rightarrow> Inl (as_failure describe e) | Inr out \<Rightarrow> Inr out),
           session\<lparr>sn_store := st, sn_detector := d\<rparr>, w', x')))"

definition put_runs :: "runs \<Rightarrow> world \<times> 'x \<Rightarrow> world \<times> 'x" where
  "put_runs docs = (\<lambda>(w, x). (w\<lparr>w_db := (w_db w)\<lparr>db_runs := docs\<rparr>\<rparr>, x))"

definition the_runs :: "world \<times> 'x \<Rightarrow> runs" where
  "the_runs s = db_runs (w_db (fst s))"

record 'x slice_env =
  sl_pick :: "runs \<Rightarrow> run_doc option"
  sl_owner :: string
  sl_token :: string
  sl_leaseMs :: int
  sl_resolver :: resolver_deps
  sl_envs :: "nat \<Rightarrow> 'x step_env"
  sl_describe :: "runtime_error \<Rightarrow> string"
  sl_reserveMs :: int
  sl_heartbeatEveryMs :: int

definition executor_of :: "'x slice_env \<Rightarrow> (world \<times> 'x, 'x session) executor_deps" where
  "executor_of sl =
     \<lparr>xd_claim = (\<lambda>now s. (case claim (sl_pick sl) (sl_owner sl) (sl_leaseMs sl) None (sl_token sl) now (the_runs s) of
         (None, docs) \<Rightarrow> (None, put_runs docs s)
       | (Some c, docs) \<Rightarrow> (Some (cl_run c, cl_token c), put_runs docs s))),
      xd_heartbeat = (\<lambda>r t now s. (case heartbeat r t (sl_leaseMs sl) now (the_runs s) of
         (Inl _, docs) \<Rightarrow> (False, put_runs docs s) | (Inr _, docs) \<Rightarrow> (True, put_runs docs s))),
      xd_release = (\<lambda>r t intent now s. (case release r t intent now (the_runs s) of
         (Inl _, docs) \<Rightarrow> (False, put_runs docs s) | (Inr _, docs) \<Rightarrow> (True, put_runs docs s))),
      xd_openSession = openSession (sl_resolver sl) (sl_leaseMs sl),
      xd_stepOnce = session_step (sl_describe sl) (sl_envs sl),
      xd_reserveMs = sl_reserveMs sl, xd_heartbeatEveryMs = sl_heartbeatEveryMs sl\<rparr>"

definition held_in :: "id \<Rightarrow> string \<Rightarrow> world \<times> 'x \<Rightarrow> bool" where
  "held_in r t s \<longleftrightarrow> (\<exists>d \<in> set (the_runs s). holds r t d)"

definition free_with :: "id \<Rightarrow> run_status \<Rightarrow> world \<times> 'x \<Rightarrow> bool" where
  "free_with r status s \<longleftrightarrow> (\<exists>d \<in> set (the_runs s). rd_id d = r \<and> rd_status d = status \<and> rd_lease d = None)"

definition session_owns :: "id \<Rightarrow> string \<Rightarrow> 'x session \<Rightarrow> bool" where
  "session_owns r t session \<longleftrightarrow> sto_runId (sn_store session) = r \<and> sto_leaseToken (sn_store session) = t"

lemma the_runs_put [simp]: "the_runs (put_runs docs s) = docs"
  by (simp add: the_runs_def put_runs_def split: prod.splits)

lemma release_hands_back:
  assumes "release r t intent now docs = (Inr u, docs')"
  shows "\<exists>d. holds r t d \<and> release_change intent now d \<in> set docs'"
  using assms update_first_hit [of _ docs "holds r t" "release_change intent now"]
  by (auto simp: release_def update_one_def list_ex_iff split: if_splits)

lemma release_refused:
  assumes "release r t intent now docs = (Inl e, docs')"
  shows "\<forall>d \<in> set docs'. \<not> holds r t d"
  using assms by (auto simp: release_def update_one_def list_ex_iff update_first_id split: if_splits)

lemma heartbeat_refused:
  assumes "heartbeat r t ms now docs = (Inl e, docs')"
  shows "\<forall>d \<in> set docs'. \<not> holds r t d"
  using assms by (auto simp: heartbeat_def update_one_def list_ex_iff update_first_id split: if_splits)

lemma session_step_owns:
  assumes "session_step describe envs n session s = (out, session', s')" "session_owns r t session"
  shows "session_owns r t session'"
proof -
  obtain w x where s: "s = (w, x)" by (cases s)
  obtain res st w' x' d where step: "stepOnce (envs n) (sn_resolved session) (((sn_store session, w), x), sn_detector session) =
      (res, ((st, w'), x'), d)" by (metis surj_pair)
  have "keeps_rel same_ident (stepOnce (envs n) (sn_resolved session))"
    by (rule ident.keeps_stepOnce) (simp add: same_ident_def)
  from keeps_relD [OF this step] assms step show ?thesis
    by (auto simp: s session_step_def session_owns_def same_ident_def)
qed

lemma session_step_lost:
  assumes "session_step describe envs n session s = (Inl Lost_lease, session', s')" "session_owns r t session"
  shows "\<not> held_in r t s'"
proof -
  obtain w x where s: "s = (w, x)" by (cases s)
  obtain res st w' x' d where step: "stepOnce (envs n) (sn_resolved session) (((sn_store session, w), x), sn_detector session) =
      (res, ((st, w'), x'), d)" by (metis surj_pair)
  from assms(1) step obtain i where "res = Inl (Store_failed (E_lease_lost i))" and s': "s' = (w', x')" and
    sess: "session' = session\<lparr>sn_store := st, sn_detector := d\<rparr>"
    by (auto simp: s session_step_def as_failure_def split: sum.splits runtime_error.splits store_error.splits)
  with step honest_stepOnce [of "envs n" "sn_resolved session"] have "\<not> store_holds (st, w')"
    unfolding honest_def by fastforce
  moreover have "session_owns r t session'" by (rule session_step_owns [OF assms])
  ultimately show ?thesis by (simp add: store_holds_def held_in_def session_owns_def s' sess the_runs_def)
qed

fun intent_status :: "release_intent \<Rightarrow> run_status" where
  "intent_status (Requeue tm from_step) = Queued"
| "intent_status (Suspend status) = status"
| "intent_status (Finish status err) = status"

lemma release_change_free:
  "rd_id (release_change intent now d) = rd_id d" "rd_lease (release_change intent now d) = None"
  "rd_status (release_change intent now d) = intent_status intent"
  by (cases intent; simp)+

lemma executor_release:
  assumes "xd_release (executor_of sl) r t intent now s = (True, s')"
  shows "free_with r (intent_status intent) s'"
proof -
  obtain res docs where rel: "release r t intent now (the_runs s) = (res, docs)" by (metis surj_pair)
  with assms obtain u where u: "res = Inr u" and s': "s' = put_runs docs s"
    by (cases res) (auto simp: executor_of_def)
  from release_hands_back [OF rel [unfolded u]] obtain d where
    "holds r t d" "release_change intent now d \<in> set docs" by blast
  then show ?thesis
    unfolding free_with_def s' the_runs_put
    by (intro bexI [of _ "release_change intent now d"]) (simp_all add: release_change_free holds_def)
qed

interpretation slice: leased_runs "executor_of sl" held_in free_with session_owns
proof (unfold_locales, goal_cases)
  case (1 r t now s s')
  then show ?case
    by (auto simp: executor_of_def held_in_def split: prod.splits sum.splits dest: heartbeat_refused)
next
  case (2 r t intent now s s')
  then show ?case
    by (auto simp: executor_of_def held_in_def split: prod.splits sum.splits dest: release_refused)
next
  case (3 r t tm from_step now s s')
  from executor_release [OF this] show ?case by simp
next
  case (4 r t status now s s')
  from executor_release [OF this] show ?case by simp
next
  case (5 r t status err now s s')
  from executor_release [OF this] show ?case by simp
next
  case (6 run t s session s')
  then show ?case
    by (auto simp: executor_of_def openSession_def session_owns_def open_store_def resumeEventSeqFrom_def new_store_def
        Let_def split: sum.splits)
next
  case (7 run t s s')
  then show ?case by (auto simp: executor_of_def openSession_def split: sum.splits)
next
  case (8 n session s out session' s' r t)
  then show ?case by (auto simp: executor_of_def intro: session_step_owns)
next
  case (9 n session s session' s' r t)
  then show ?case by (auto simp: executor_of_def dest!: session_step_lost)
qed

subsection \<open>The end of the loop\<close>

lemma ex_triple [simp]: "\<exists>a b c. x = (a, b, c)"
  by (metis surj_pair)

lemma exec_loop_expires:
  assumes "deadline_expired deadline (tick (n + k) At_deadline_check) (xd_reserveMs deps)"
  shows "\<exists>e. \<forall>fuel > k. exec_loop deps tick deadline r t fuel n last_beat session s = Some e"
  using assms
proof (induction k arbitrary: n last_beat session s)
  case 0
  then have "\<forall>fuel > 0. exec_loop deps tick deadline r t fuel n last_beat session s =
      Some (yield_run deps r t (tick n At_release) s)"
    by (auto simp: gr0_conv_Suc)
  then show ?case by blast
next
  case (Suc k)
  obtain b s1 where b: "beat deps r t (tick n) last_beat s = (b, s1)" by (metis surj_pair)
  obtain out session' s2 where step: "xd_stepOnce deps n session s1 = (out, session', s2)" by (metis surj_pair)
  show ?case
  proof (cases "\<not> deadline_expired deadline (tick n At_deadline_check) (xd_reserveMs deps) \<and>
      b \<noteq> None \<and> (\<exists>what. out = Inr (Continue what))")
    case True
    then obtain last_beat' what where b': "b = Some last_beat'" "out = Inr (Continue what)" by blast
    from Suc.IH [of "Suc n" last_beat' session' s2] Suc.prems obtain e where
      "\<forall>fuel > k. exec_loop deps tick deadline r t fuel (Suc n) last_beat' session' s2 = Some e" by auto
    with True b b' step have "\<forall>fuel > Suc k. exec_loop deps tick deadline r t fuel n last_beat session s = Some e"
      by (auto simp: gr0_conv_Suc Suc_less_eq2)
    then show ?thesis by blast
  next
    case False
    have "exec_loop deps tick deadline r t (Suc f) n last_beat session s =
        exec_loop deps tick deadline r t (Suc 0) n last_beat session s \<and>
        exec_loop deps tick deadline r t (Suc 0) n last_beat session s \<noteq> None" for f
      using False b step
      by (auto split: option.splits sum.splits step_failure.splits step_outcome.splits)
    then show ?thesis by (metis gr0_implies_Suc less_trans not_None_eq zero_less_Suc)
  qed
qed

subsection \<open>Properties\<close>

text \<open>
  C9. A slice hands its run back. Whatever the resolver, the models, the tools and the clock do: a slice that
  was refused its time budget changed nothing; an idle one claimed nothing; every other one worked on a run
  that was claimable, and left it without its lease: queued, with one request for a continuation, if the slice
  ran out of time; finished with its status; waiting as its suspension says; or, if it stopped because the
  lease was gone, in a database where nobody holds the lease with this token.
\<close>

theorem slice_hands_back:
  assumes "execute (executor_of sl) tick deadline fuel s = Some (out, triggered, s')"
    and "sort_pick (sl_pick sl)"
  shows "case out of
      Inl (Timeout_refused e) \<Rightarrow> s' = s \<and> triggered = []
    | Inr Idle \<Rightarrow> the_runs s' = the_runs s \<and> triggered = [] \<and>
        (\<forall>d \<in> set (the_runs s). \<not> claimable (tick 0 At_heartbeat) None d)
    | _ \<Rightarrow> \<exists>d \<in> set (the_runs s). claimable (tick 0 At_heartbeat) None d \<and> (case out of
          Inr (Yielded _) \<Rightarrow> free_with (rd_id d) Queued s' \<and> triggered = [rd_id d]
        | Inr (Exec_finished i status err) \<Rightarrow> i = rd_id d \<and> status \<in> {Succeeded, Failed} \<and>
            free_with i status s' \<and> triggered = []
        | Inr (Exec_suspended i reason) \<Rightarrow> i = rd_id d \<and> free_with i (statusFor reason) s' \<and> triggered = []
        | _ \<Rightarrow> \<not> held_in (rd_id d) (sl_token sl) s')"
proof (cases "assertTimeoutBudget (remainingMs deadline (tick 0 At_start)) (sl_reserveMs sl)")
  case (Inl e)
  with assms(1) show ?thesis by (auto simp: execute_def executor_of_def)
next
  case (Inr u)
  show ?thesis
  proof (cases rule: claim_cases [OF assms(2), of "sl_owner sl" "sl_leaseMs sl" None "sl_token sl" "tick 0 At_heartbeat"
        "the_runs s"])
    case 1
    with assms(1) Inr show ?thesis by (auto simp: execute_def executor_of_def filter_empty_conv)
  next
    case (2 d)
    let ?run = "claim_change (sl_owner sl) (tick 0 At_heartbeat) (sl_leaseMs sl) (sl_token sl) d"
    from assms(1) Inr 2 obtain s1 where
      "drive (executor_of sl) tick deadline fuel ?run (sl_token sl) s1 = Some (out, triggered, s')"
      by (auto simp: execute_def executor_of_def)
    from slice.drive_ended [OF this] 2(1,2) show ?thesis
      by (auto simp: slice_ended_def split: sum.splits exec_throw.splits exec_outcome.splits)
  qed
qed

text \<open>
  C28. A slice ends. The loop of the executor has no bound of its own: what ends it is the clock. If the
  deadline less the reserve has been reached by the check of iteration \<open>N\<close>, then the slice returns within
  \<open>N\<close> steps whatever the steps answer, so any fuel above \<open>N\<close> gives its result, and always the same one.
\<close>

theorem slice_terminates:
  assumes "deadline_expired deadline (tick N At_deadline_check) (xd_reserveMs deps)" "N < fuel"
  shows "\<exists>e. execute deps tick deadline fuel s = Some e \<and> execute deps tick deadline (Suc N) s = Some e"
proof -
  have "\<exists>e. \<forall>fuel > N. drive deps tick deadline fuel run t s1 = Some e" for run t s1
  proof -
    obtain opened s2 where o: "xd_openSession deps run t s1 = (opened, s2)" by (metis surj_pair)
    show ?thesis
    proof (cases opened)
      case (Inl failure)
      then show ?thesis by (cases failure) (auto simp: drive_def o)
    next
      case (Inr session)
      with exec_loop_expires [of deadline tick 0 N deps "rd_id run" t "tick 0 At_beat_done" session s2] assms(1)
      show ?thesis by (simp add: drive_def o)
    qed
  qed
  then show ?thesis
    using assms(2) by (fastforce simp: execute_def split: sum.splits prod.splits option.splits)
qed

text \<open>A queued run, a slice whose time is up once the session is open.\<close>

definition sample_slice :: "unit slice_env" where
  "sample_slice = \<lparr>sl_pick = best_of, sl_owner = ''exec'', sl_token = ''lse_2'', sl_leaseMs = 1000,
     sl_resolver = sample_deps, sl_envs = (\<lambda>_. sample_env), sl_describe = (\<lambda>_. ''step failed''),
     sl_reserveMs = 45000, sl_heartbeatEveryMs = 30000\<rparr>"

definition sample_clock :: exec_clock where
  "sample_clock n m = (if m = At_start \<or> m = At_heartbeat then 5 else 60000)"

definition queued_world :: "world \<times> unit" where
  "queued_world = put_runs [sample_run] (leased_world, ())"

lemma sample_slice_yields:
  "\<exists>s'. execute (executor_of sample_slice) sample_clock \<lparr>endsAt = 100000\<rparr> 1 queued_world =
     Some (Inr (Yielded 60000), [rd_id sample_run], s')"
proof -
  let ?run = "claim_change ''exec'' 5 1000 ''lse_2'' sample_run"
  have fits: "assertTimeoutBudget (remainingMs \<lparr>endsAt = 100000\<rparr> (sample_clock 0 At_start)) (sl_reserveMs sample_slice) = Inr ()"
    by (simp add: assertTimeoutBudget_def remainingMs_def sample_clock_def sample_slice_def MAX_TOOL_TIMEOUT_MS_def)
  have "claimable 5 None sample_run"
    by (simp add: sample_run_def sample_request_def new_run_def claimable_def)
  then have claimed: "xd_claim (executor_of sample_slice) (sample_clock 0 At_heartbeat) queued_world =
      (Some (?run, ''lse_2''), put_runs [?run] queued_world)"
    by (simp add: executor_of_def sample_slice_def sample_clock_def queued_world_def claim_def)
  obtain session where opened: "xd_openSession (executor_of sample_slice) ?run ''lse_2'' (put_runs [?run] queued_world) =
      (Inr session, put_runs [?run] queued_world)"
    by (simp add: executor_of_def sample_slice_def openSession_def resolve_def sample_deps_def load_binding_def Let_def
        sample_binding_def)
  have "release (rd_id ?run) ''lse_2'' (Requeue 60000 None) 60000 [?run] =
      (Inr (), [release_change (Requeue 60000 None) 60000 ?run])"
    by (simp add: release_def update_one_def holds_def claim_change_def)
  then have "yield_run (executor_of sample_slice) (rd_id ?run) ''lse_2'' 60000 (put_runs [?run] queued_world) =
      (Inr (Yielded 60000), [rd_id ?run], put_runs [release_change (Requeue 60000 None) 60000 ?run] (put_runs [?run] queued_world))"
    by (simp add: yield_run_def executor_of_def sample_slice_def)
  moreover have "deadline_expired \<lparr>endsAt = 100000\<rparr> 60000 (xd_reserveMs (executor_of sample_slice))"
    by (simp add: deadline_expired_def remainingMs_def executor_of_def sample_slice_def)
  moreover have "rd_id ?run = rd_id sample_run" by (simp add: claim_change_def)
  ultimately show ?thesis
    using fits claimed opened
    by (simp add: execute_def drive_def sample_clock_def executor_of_def [THEN arg_cong, where f = xd_reserveMs]
        put_runs_def queued_world_def)
qed

theorem slice_hands_back_witness:
  "\<exists>s'. execute (executor_of sample_slice) sample_clock \<lparr>endsAt = 100000\<rparr> 1 queued_world =
     Some (Inr (Yielded 60000), [rd_id sample_run], s') \<and> free_with (rd_id sample_run) Queued s'"
proof -
  obtain s' where run: "execute (executor_of sample_slice) sample_clock \<lparr>endsAt = 100000\<rparr> 1 queued_world =
     Some (Inr (Yielded 60000), [rd_id sample_run], s')" using sample_slice_yields by blast
  from slice_hands_back [OF run] have "free_with (rd_id sample_run) Queued s'"
    by (auto simp: sample_slice_def best_of_sort_pick)
  with run show ?thesis by blast
qed

theorem slice_terminates_witness:
  "\<exists>e. execute (executor_of sample_slice) sample_clock \<lparr>endsAt = 100000\<rparr> 7 queued_world = Some e"
  using slice_terminates [of "\<lparr>endsAt = 100000\<rparr>" sample_clock 0 "executor_of sample_slice" 7 queued_world]
  by (auto simp: deadline_expired_def remainingMs_def sample_clock_def executor_of_def sample_slice_def)

end
