(* ===== verification/Resilience.thy ===== *)
theory Resilience
  imports Prelude
begin

text \<open>
  Concurrency limits and circuit breaking of outbound calls (\<^verbatim>\<open>packages/mcp/src/resilience.ts\<close>).

  A promise that waits for a permit is a ticket in the queue of waiters. What an event of the program does
  between two awaits is one transition: asking for a permit, giving one back, aborting a wait.
\<close>

subsection \<open>Semaphore\<close>

record semaphore =
  sem_available :: nat
  sem_waiters :: "nat list"

datatype sem_error = No_permits | Aborted

definition new_semaphore :: "nat \<Rightarrow> sem_error + semaphore" where
  "new_semaphore permits =
     (if permits < 1 then Inl No_permits else Inr \<lparr>sem_available = permits, sem_waiters = []\<rparr>)"

datatype sem_outcome = Acquired | Waiting | Refused_abort

definition sem_acquire :: "bool \<Rightarrow> nat \<Rightarrow> semaphore \<Rightarrow> sem_outcome \<times> semaphore" where
  "sem_acquire aborted ticket s =
     (if aborted then (Refused_abort, s)
      else if sem_available s > 0 then (Acquired, s\<lparr>sem_available := sem_available s - 1\<rparr>)
      else (Waiting, s\<lparr>sem_waiters := sem_waiters s @ [ticket]\<rparr>))"

text \<open>\<^verbatim>\<open>onAbort\<close> of a waiting ticket: out of the queue, if it is still in it.\<close>

definition sem_abort :: "nat \<Rightarrow> semaphore \<Rightarrow> semaphore" where
  "sem_abort ticket s = s\<lparr>sem_waiters := remove1 ticket (sem_waiters s)\<rparr>"

text \<open>The release function: the first call hands the permit on, every later one does nothing.\<close>

definition sem_release :: "bool \<Rightarrow> semaphore \<Rightarrow> nat option \<times> semaphore" where
  "sem_release released s =
     (if released then (None, s)
      else
        (case sem_waiters s of
           next_one # rest \<Rightarrow> (Some next_one, s\<lparr>sem_waiters := rest\<rparr>)
         | [] \<Rightarrow> (None, s\<lparr>sem_available := sem_available s + 1\<rparr>)))"

text \<open>The semaphore and the tickets that hold a permit of it.\<close>

record sem_system =
  ss_permits :: nat
  ss_sem :: semaphore
  ss_holders :: "nat list"
  ss_released :: "nat list"

definition fresh_semaphore :: "sem_system \<Rightarrow> bool" where
  "fresh_semaphore s \<longleftrightarrow> new_semaphore (ss_permits s) = Inr (ss_sem s) \<and> ss_holders s = [] \<and> ss_released s = []"

inductive sem_step :: "sem_system \<Rightarrow> sem_system \<Rightarrow> bool" where
  sem_ask: "t \<notin> set (ss_holders s) \<union> set (sem_waiters (ss_sem s)) \<union> set (ss_released s) \<Longrightarrow>
    sem_acquire aborted t (ss_sem s) = (out, sem') \<Longrightarrow>
    sem_step s (s\<lparr>ss_sem := sem', ss_holders := (if out = Acquired then ss_holders s @ [t] else ss_holders s)\<rparr>)"
| sem_give_up: "t \<in> set (sem_waiters (ss_sem s)) \<Longrightarrow> sem_step s (s\<lparr>ss_sem := sem_abort t (ss_sem s)\<rparr>)"
| sem_give_back: "t \<in> set (ss_holders s) \<union> set (ss_released s) \<Longrightarrow>
    sem_release (t \<in> set (ss_released s)) (ss_sem s) = (woken, sem') \<Longrightarrow>
    sem_step s (s\<lparr>ss_sem := sem', ss_released := (if t \<in> set (ss_released s) then ss_released s else t # ss_released s),
      ss_holders := remove1 t (ss_holders s) @ (case woken of Some w \<Rightarrow> [w] | None \<Rightarrow> [])\<rparr>)"

definition sem_ok :: "sem_system \<Rightarrow> bool" where
  "sem_ok s \<longleftrightarrow> 1 \<le> ss_permits s \<and> length (ss_holders s) + sem_available (ss_sem s) = ss_permits s \<and>
     (sem_waiters (ss_sem s) \<noteq> [] \<longrightarrow> sem_available (ss_sem s) = 0) \<and>
     distinct (ss_holders s @ sem_waiters (ss_sem s)) \<and>
     set (ss_released s) \<inter> (set (ss_holders s) \<union> set (sem_waiters (ss_sem s))) = {}"

lemma sem_step_ok:
  assumes "sem_ok s" "sem_step s t"
  shows "sem_ok t"
  using assms(2)
proof (cases rule: sem_step.cases)
  case (sem_ask t aborted out sem')
  with assms(1) show ?thesis
    by (auto simp: sem_ok_def sem_acquire_def split: if_splits)
next
  case (sem_give_up t)
  with assms(1) show ?thesis
    by (auto simp: sem_ok_def sem_abort_def dest: notin_set_remove1)
next
  case (sem_give_back t woken sem')
  show ?thesis
  proof (cases "t \<in> set (ss_released s)")
    case True
    with assms(1) have "t \<notin> set (ss_holders s)" by (auto simp: sem_ok_def)
    with True assms(1) sem_give_back show ?thesis
      by (auto simp: sem_ok_def sem_release_def remove1_idem)
  next
    case False
    with sem_give_back have "0 < length (ss_holders s)" by (auto simp: length_pos_if_in_set)
    with False assms(1) sem_give_back show ?thesis
      by (auto simp: sem_ok_def sem_release_def length_remove1 length_pos_if_in_set distinct_remove1 Suc_leI
          split: list.splits dest: notin_set_remove1)
  qed
qed

interpretation sem: invariant_system fresh_semaphore sem_step sem_ok
proof unfold_locales
  show "sem_ok s" if "fresh_semaphore s" for s
    using that by (cases s) (auto simp: fresh_semaphore_def sem_ok_def new_semaphore_def split: if_splits)
qed (rule sem_step_ok)

subsection \<open>Circuit breaker\<close>

datatype circuit_state = Closed | Open | Half_open

record breaker =
  br_state :: circuit_state
  br_failures :: nat
  br_openedAt :: time
  br_trialInFlight :: bool
  br_threshold :: nat
  br_openMs :: int

definition new_breaker :: "nat option \<Rightarrow> int option \<Rightarrow> breaker" where
  "new_breaker failureThreshold openMs =
     \<lparr>br_state = Closed, br_failures = 0, br_openedAt = 0, br_trialInFlight = False,
      br_threshold = (case failureThreshold of Some n \<Rightarrow> n | None \<Rightarrow> 5),
      br_openMs = (case openMs of Some n \<Rightarrow> n | None \<Rightarrow> 30000)\<rparr>"

definition refresh :: "time \<Rightarrow> breaker \<Rightarrow> breaker" where
  "refresh now b =
     (if br_state b = Open \<and> now - br_openedAt b \<ge> br_openMs b
      then b\<lparr>br_state := Half_open, br_trialInFlight := False\<rparr> else b)"

definition tryAcquire :: "time \<Rightarrow> breaker \<Rightarrow> bool \<times> breaker" where
  "tryAcquire now b =
     (let b' = refresh now b
      in if br_state b' = Closed then (True, b')
         else if br_state b' = Open then (False, b')
         else if br_trialInFlight b' then (False, b')
         else (True, b'\<lparr>br_trialInFlight := True\<rparr>))"

definition recordSuccess :: "breaker \<Rightarrow> breaker" where
  "recordSuccess b = b\<lparr>br_state := Closed, br_failures := 0, br_trialInFlight := False\<rparr>"

definition recordFailure :: "time \<Rightarrow> breaker \<Rightarrow> breaker" where
  "recordFailure now b =
     (let b' = b\<lparr>br_failures := br_failures b + 1, br_trialInFlight := False\<rparr>
      in if br_state b' = Half_open \<or> br_failures b' \<ge> br_threshold b'
         then b'\<lparr>br_state := Open, br_openedAt := now\<rparr> else b')"

definition reset :: "breaker \<Rightarrow> breaker" where
  "reset b = b\<lparr>br_state := Closed, br_failures := 0, br_trialInFlight := False\<rparr>"

datatype breaker_event = Ask | Success | Failure | Reset

definition breaker_event :: "time \<Rightarrow> breaker_event \<Rightarrow> breaker \<Rightarrow> bool \<times> breaker" where
  "breaker_event now e b =
     (case e of Ask \<Rightarrow> tryAcquire now b | Success \<Rightarrow> (False, recordSuccess b)
      | Failure \<Rightarrow> (False, recordFailure now b) | Reset \<Rightarrow> (False, reset b))"

fun breaker_run :: "(time \<times> breaker_event) list \<Rightarrow> breaker \<Rightarrow> bool list \<times> breaker" where
  "breaker_run [] b = ([], b)"
| "breaker_run ((now, e) # es) b =
     (case breaker_event now e b of (admitted, b') \<Rightarrow>
        (case breaker_run es b' of (rest, b'') \<Rightarrow> (admitted # rest, b'')))"

subsection \<open>Lemmas\<close>

lemma asks_half_open:
  assumes "breaker_run es b = (out, b')" "\<forall>(now, e) \<in> set es. e = Ask" "br_state b = Half_open"
  shows "length (filter (\<lambda>x. x) out) \<le> (if br_trialInFlight b then 0 else 1)"
  using assms
proof (induction es arbitrary: b out)
  case (Cons x es)
  obtain now where x: "x = (now, Ask)" using Cons.prems(2) by (cases x) auto
  obtain rest where rest: "breaker_run es (b\<lparr>br_trialInFlight := True\<rparr>) = (rest, b')" and
    out: "out = (\<not> br_trialInFlight b) # rest"
    using Cons.prems(1,3) by (cases b) (auto simp: x breaker_event_def tryAcquire_def refresh_def Let_def split: prod.splits if_splits)
  from Cons.IH [OF rest] Cons.prems(2,3) out show ?case by simp
qed simp

lemma asks_open:
  assumes "breaker_run es b = (out, b')" "\<forall>(now, e) \<in> set es. e = Ask" "br_state b = Open"
  shows "length (filter (\<lambda>x. x) out) \<le> 1"
  using assms
proof (induction es arbitrary: b out)
  case (Cons x es)
  obtain now where x: "x = (now, Ask)" using Cons.prems(2) by (cases x) auto
  show ?case
  proof (cases "now - br_openedAt b \<ge> br_openMs b")
    case True
    then obtain rest where "breaker_run es (b\<lparr>br_state := Half_open, br_trialInFlight := True\<rparr>) = (rest, b')" "out = True # rest"
      using Cons.prems(1,3) by (auto simp: x breaker_event_def tryAcquire_def refresh_def Let_def split: prod.splits)
    with asks_half_open [OF this(1)] Cons.prems(2) show ?thesis by simp
  next
    case False
    then obtain rest where "breaker_run es b = (rest, b')" "out = False # rest"
      using Cons.prems(1,3) by (auto simp: x breaker_event_def tryAcquire_def refresh_def Let_def split: prod.splits)
    with Cons.IH [OF this(1)] Cons.prems(2,3) show ?thesis by simp
  qed
qed simp

lemma open_quarantine:
  assumes "breaker_run es b = (out, b')" "br_state b = Open"
    and "\<forall>(now, e) \<in> set es. e \<in> {Ask, Failure} \<and> br_openedAt b \<le> now \<and> now < limit" "limit \<le> br_openedAt b + br_openMs b"
    and "sorted (map fst es)"
  shows "True \<notin> set out"
  using assms
proof (induction es arbitrary: b out)
  case (Cons x es)
  obtain now e where x: "x = (now, e)" by (cases x)
  with Cons.prems(3,4) have e: "e \<in> {Ask, Failure}" "br_openedAt b \<le> now" "now < br_openedAt b + br_openMs b" by auto
  show ?case
  proof (cases "e = Ask")
    case True
    then obtain rest where "breaker_run es b = (rest, b')" "out = False # rest"
      using Cons.prems(1,2) e by (auto simp: x breaker_event_def tryAcquire_def refresh_def Let_def split: prod.splits)
    with Cons.IH [OF this(1) Cons.prems(2)] Cons.prems(3-5) show ?thesis by auto
  next
    case False
    let ?b = "recordFailure now b"
    have b: "br_state ?b = Open" "br_openMs ?b = br_openMs b" "br_openedAt ?b \<in> {br_openedAt b, now}"
      using Cons.prems(2) by (auto simp: recordFailure_def Let_def)
    from False e obtain rest where rest: "breaker_run es ?b = (rest, b')" "out = False # rest"
      using Cons.prems(1) by (auto simp: x breaker_event_def split: prod.splits)
    have "\<forall>(now', e) \<in> set es. e \<in> {Ask, Failure} \<and> br_openedAt ?b \<le> now' \<and> now' < limit"
      using Cons.prems(3,5) b(3) by (fastforce simp: x)
    with Cons.IH [OF rest(1) b(1)] b Cons.prems(4,5) e rest(2) show ?thesis by (auto simp: x)
  qed
qed simp

lemma failures_count:
  assumes "\<forall>(now, e) \<in> set es. e = Failure" "br_state b = Closed" "br_failures b + length es < br_threshold b"
  shows "br_state (snd (breaker_run es b)) = Closed"
  using assms
proof (induction es arbitrary: b)
  case (Cons x es)
  obtain now where x: "x = (now, Failure)" using Cons.prems(1) by (cases x) auto
  let ?b = "b\<lparr>br_failures := br_failures b + 1, br_trialInFlight := False\<rparr>"
  have "breaker_event now Failure b = (False, ?b)"
    using Cons.prems(2,3) by (simp add: breaker_event_def recordFailure_def)
  with Cons.IH [of ?b] Cons.prems show ?case by (cases "breaker_run es ?b") (simp add: x)
qed simp

subsection \<open>Properties\<close>

text \<open>
  The semaphore. Whatever the order in which permits are asked for, given back (also twice) and waits
  aborted: the permits held never exceed the limit, a permit is idle only if nobody waits for one, and nobody
  holds or waits for two.
\<close>

theorem semaphore_bounded:
  assumes "reach fresh_semaphore sem_step s"
  shows "length (ss_holders s) \<le> ss_permits s \<and>
    (sem_waiters (ss_sem s) \<noteq> [] \<longrightarrow> length (ss_holders s) = ss_permits s) \<and>
    distinct (ss_holders s @ sem_waiters (ss_sem s))"
  using sem.inv_reach [OF assms] by (auto simp: sem_ok_def)

theorem semaphore_bounded_witness:
  "\<exists>s. reach fresh_semaphore sem_step s \<and> ss_holders s = [7] \<and> length (ss_holders s) \<le> ss_permits s"
proof -
  let ?s0 = "\<lparr>ss_permits = 1, ss_sem = \<lparr>sem_available = 1, sem_waiters = []\<rparr>, ss_holders = [], ss_released = []\<rparr>"
  let ?s1 = "\<lparr>ss_permits = 1, ss_sem = \<lparr>sem_available = 0, sem_waiters = []\<rparr>, ss_holders = [7], ss_released = []\<rparr>"
  have "sem_step ?s0 ?s1"
    using sem_ask [of 7 ?s0 False Acquired "\<lparr>sem_available = 0, sem_waiters = []\<rparr>"] by (simp add: sem_acquire_def)
  moreover have "reach fresh_semaphore sem_step ?s0"
    by (rule reach_init) (simp add: fresh_semaphore_def new_semaphore_def)
  ultimately have s1: "reach fresh_semaphore sem_step ?s1" by (rule reach_step [rotated])
  from semaphore_bounded [OF s1] s1 show ?thesis by (intro exI [of _ ?s1]) simp
qed

text \<open>
  The circuit breaker. While it is open and its pause has not passed, no call is admitted, whatever else
  fails meanwhile; after the pause, as long as no call has settled, one trial at most is admitted; and it does
  not open before the threshold of consecutive failures.
\<close>

theorem breaker_guards:
  assumes "breaker_run es b = (out, b')"
  shows "(br_state b = Open \<and> sorted (map fst es) \<and>
      (\<forall>(now, e) \<in> set es. e \<in> {Ask, Failure} \<and> br_openedAt b \<le> now \<and> now < br_openedAt b + br_openMs b) \<longrightarrow>
      True \<notin> set out) \<and>
    (br_state b \<in> {Open, Half_open} \<and> (\<forall>(now, e) \<in> set es. e = Ask) \<longrightarrow> length (filter (\<lambda>x. x) out) \<le> 1) \<and>
    (br_state b = Closed \<and> (\<forall>(now, e) \<in> set es. e = Failure) \<and> br_failures b + length es < br_threshold b \<longrightarrow>
      br_state b' = Closed)"
proof (intro conjI impI; elim conjE)
  assume "br_state b = Open" "sorted (map fst es)"
    "\<forall>(now, e) \<in> set es. e \<in> {Ask, Failure} \<and> br_openedAt b \<le> now \<and> now < br_openedAt b + br_openMs b"
  then show "True \<notin> set out" by (intro open_quarantine [OF assms]) auto
next
  assume "br_state b \<in> {Open, Half_open}" "\<forall>(now, e) \<in> set es. e = Ask"
  then show "length (filter (\<lambda>x. x) out) \<le> 1"
    using asks_open [OF assms] asks_half_open [OF assms] by (auto split: if_splits)
next
  assume "br_state b = Closed" "\<forall>(now, e) \<in> set es. e = Failure" "br_failures b + length es < br_threshold b"
  then show "br_state b' = Closed" using failures_count [of es b] assms by simp
qed

definition tripped :: breaker where
  "tripped = snd (breaker_run (replicate 5 (10, Failure)) (new_breaker None None))"

theorem breaker_guards_witness:
  "br_state tripped = Open \<and> fst (breaker_run [(11, Ask), (12, Failure), (13, Ask)] tripped) = [False, False, False]"
proof -
  have t: "br_state tripped = Open" "br_openedAt tripped = 10" "br_openMs tripped = 30000"
    by (simp_all add: tripped_def new_breaker_def breaker_event_def recordFailure_def Let_def numeral_eq_Suc)
  obtain out b' where run: "breaker_run [(11, Ask), (12, Failure), (13, Ask)] tripped = (out, b')"
    by (cases "breaker_run [(11, Ask), (12, Failure), (13, Ask)] tripped")
  from breaker_guards [OF run] t have "True \<notin> set out" by simp
  moreover have "length out = 3" using run by (auto split: prod.splits)
  ultimately show ?thesis using run t by (auto simp: numeral_eq_Suc length_Suc_conv)
qed

end
