(* ===== verification/Capability_Store.thy ===== *)
theory Capability_Store
  imports Capability Json
begin

text \<open>
  Persistence of discovered capabilities (\<^verbatim>\<open>packages/db/src/repositories/capabilities.ts\<close>).

  A row carries the definition the server announced, the hash of that definition and the approval, which
  names the hash it was given for. The collection is a list of rows of all workspaces; the scoped collection
  adds the workspace to every filter. A missing member and a stored \<^verbatim>\<open>null\<close> are both \<^const>\<open>None\<close>, so
  \<^verbatim>\<open>capabilityToDomain\<close> is the identity here. The SHA-256 digest is an argument.
\<close>

subsection \<open>The definition hash\<close>

type_synonym capabilities = "mcp_capability list"

fun cap_kind_name :: "capability_kind \<Rightarrow> string" where
  "cap_kind_name Tool = ''tool''"
| "cap_kind_name Resource = ''resource''"
| "cap_kind_name Resource_template = ''resource_template''"
| "cap_kind_name Prompt = ''prompt''"

definition or_null :: "('a \<Rightarrow> jsv) \<Rightarrow> 'a option \<Rightarrow> jsv" where
  "or_null f x = (case x of None \<Rightarrow> JNull | Some v \<Rightarrow> f v)"

definition definition_material :: "discovered_capability \<Rightarrow> jsv" where
  "definition_material cap = JObj
     [(''kind'', JStr (cap_kind_name (dc_kind cap))), (''name'', JStr (dc_name cap)),
      (''title'', or_null JStr (dc_title cap)), (''description'', or_null JStr (dc_description cap)),
      (''inputSchema'', or_null (\<lambda>v. v) (dc_inputSchema cap)),
      (''outputSchema'', or_null (\<lambda>v. v) (dc_outputSchema cap)),
      (''annotations'', or_null JObj (dc_annotations cap))]"

definition computeDefinitionHash :: "(string \<Rightarrow> string) \<Rightarrow> discovered_capability \<Rightarrow> string" where
  "computeDefinitionHash sha256 cap = ''sha256:'' @ sha256 (canonicalJson (definition_material cap))"

text \<open>The definition a stored row shows to a model.\<close>

definition visible :: "mcp_capability \<Rightarrow> discovered_capability" where
  "visible d = \<lparr>dc_kind = cap_kind d, dc_name = cap_name d, dc_canonicalName = cap_canonicalName d,
     dc_title = cap_title d, dc_description = cap_description d, dc_inputSchema = cap_inputSchema d,
     dc_outputSchema = cap_outputSchema d, dc_annotations = cap_annotations d\<rparr>"

subsection \<open>Reads\<close>

definition in_binding :: "id \<Rightarrow> id \<Rightarrow> string \<Rightarrow> mcp_capability \<Rightarrow> bool" where
  "in_binding ws bindingId scopeKey d \<longleftrightarrow>
     cap_workspaceId d = ws \<and> cap_bindingId d = bindingId \<and> cap_scopeKey d = scopeKey"

definition listForBinding :: "id \<Rightarrow> id \<Rightarrow> string \<Rightarrow> capabilities \<Rightarrow> capabilities" where
  "listForBinding ws bindingId scopeKey docs =
     filter (\<lambda>d. in_binding ws bindingId scopeKey d \<and> cap_removedAt d = None) docs"

definition listForScope :: "id \<Rightarrow> string list \<Rightarrow> capabilities \<Rightarrow> capabilities" where
  "listForScope ws scopeKeys docs =
     filter (\<lambda>d. cap_workspaceId d = ws \<and> cap_scopeKey d \<in> set scopeKeys \<and> cap_removedAt d = None) docs"

definition countApproved :: "id \<Rightarrow> capabilities \<Rightarrow> nat" where
  "countApproved ws docs = length (filter (\<lambda>d. cap_workspaceId d = ws \<and> cap_removedAt d = None \<and>
     apv_state (cap_approval d) = Approved) docs)"

definition countApprovedFor :: "id \<Rightarrow> id list \<Rightarrow> capabilities \<Rightarrow> nat" where
  "countApprovedFor ws bindingIds docs =
     (if bindingIds = [] then 0
      else length (filter (\<lambda>d. cap_workspaceId d = ws \<and> cap_bindingId d \<in> set bindingIds \<and>
        cap_removedAt d = None \<and> apv_state (cap_approval d) = Approved) docs))"

definition findByCanonicalName :: "id \<Rightarrow> id \<Rightarrow> string \<Rightarrow> string \<Rightarrow> capabilities \<Rightarrow> mcp_capability option" where
  "findByCanonicalName ws bindingId scopeKey canonicalName docs =
     List.find (\<lambda>d. in_binding ws bindingId scopeKey d \<and> cap_canonicalName d = canonicalName \<and>
       cap_removedAt d = None) docs"

definition findByIds :: "id \<Rightarrow> id list \<Rightarrow> capabilities \<Rightarrow> capabilities" where
  "findByIds ws ids docs =
     (if ids = [] then [] else filter (\<lambda>d. cap_workspaceId d = ws \<and> cap_id d \<in> set ids) docs)"

definition listPendingApproval :: "id \<Rightarrow> capabilities \<Rightarrow> capabilities" where
  "listPendingApproval ws docs =
     filter (\<lambda>d. cap_workspaceId d = ws \<and> apv_state (cap_approval d) = Pending \<and> cap_removedAt d = None) docs"

subsection \<open>Writes\<close>

text \<open>
  The approval of an upsert, decided from the stored row: kept while the hash is the same, otherwise back to
  pending with whatever the old approval recorded merged over the new hash.
\<close>

definition upsert_approval :: "string \<Rightarrow> time \<Rightarrow> bool \<Rightarrow> mcp_capability option \<Rightarrow> capability_approval" where
  "upsert_approval hash now autoApprove prior =
     (if autoApprove then
        \<lparr>apv_state = Approved, apv_definitionHash = hash, apv_approvedBy = Some ''system'', apv_approvedAt = Some now\<rparr>
      else
        (case prior of
           None \<Rightarrow> \<lparr>apv_state = Pending, apv_definitionHash = hash, apv_approvedBy = None, apv_approvedAt = None\<rparr>
         | Some d \<Rightarrow>
             (if cap_definitionHash d = hash then cap_approval d
              else (cap_approval d)\<lparr>apv_state := Pending\<rparr>)))"

definition stored ::
  "id \<Rightarrow> id \<Rightarrow> id \<Rightarrow> string \<Rightarrow> discovered_capability \<Rightarrow> string \<Rightarrow> time \<Rightarrow> time \<Rightarrow> capability_approval \<Rightarrow> mcp_capability" where
  "stored rowId ws bindingId scopeKey cap hash firstSeen now approval =
     \<lparr>cap_id = rowId, cap_workspaceId = ws, cap_bindingId = bindingId, cap_scopeKey = scopeKey,
      cap_kind = dc_kind cap, cap_name = dc_name cap, cap_canonicalName = dc_canonicalName cap,
      cap_title = dc_title cap, cap_description = dc_description cap, cap_inputSchema = dc_inputSchema cap,
      cap_outputSchema = dc_outputSchema cap, cap_annotations = dc_annotations cap, cap_definitionHash = hash,
      cap_approval = approval, cap_firstSeenAt = firstSeen, cap_lastSeenAt = now, cap_removedAt = None\<rparr>"

definition same_capability :: "id \<Rightarrow> id \<Rightarrow> string \<Rightarrow> discovered_capability \<Rightarrow> mcp_capability \<Rightarrow> bool" where
  "same_capability ws bindingId scopeKey cap d \<longleftrightarrow>
     in_binding ws bindingId scopeKey d \<and> cap_kind d = dc_kind cap \<and> cap_name d = dc_name cap"

text \<open>
  The unique index of the collection (\<^verbatim>\<open>packages/db/src/indexes.ts\<close>, \<^verbatim>\<open>binding_scope_kind_name\<close>). It does not
  name the workspace, while every filter does: a row of another workspace is not found, and still refuses the
  insert.
\<close>

definition cap_index :: "mcp_capability \<Rightarrow> id \<times> string \<times> capability_kind \<times> string" where
  "cap_index d = (cap_bindingId d, cap_scopeKey d, cap_kind d, cap_name d)"

datatype capability_error = Duplicate_capability

definition upsert ::
  "id \<Rightarrow> id \<Rightarrow> id \<Rightarrow> string \<Rightarrow> discovered_capability \<Rightarrow> string \<Rightarrow> time \<Rightarrow> bool \<Rightarrow> capabilities \<Rightarrow>
   (capability_error + unit) \<times> capabilities" where
  "upsert newId ws bindingId scopeKey cap hash now autoApprove docs =
     (if list_ex (same_capability ws bindingId scopeKey cap) docs then
        (Inr (), update_first (same_capability ws bindingId scopeKey cap)
          (\<lambda>d. stored (cap_id d) ws bindingId scopeKey cap hash (cap_firstSeenAt d) now
             (upsert_approval hash now autoApprove (Some d))) docs)
      else if (bindingId, scopeKey, dc_kind cap, dc_name cap) \<in> cap_index ` set docs then (Inl Duplicate_capability, docs)
      else (Inr (), docs @ [stored newId ws bindingId scopeKey cap hash now now
              (upsert_approval hash now autoApprove None)]))"

definition mark_removed :: "id \<Rightarrow> id \<Rightarrow> time \<Rightarrow> time \<Rightarrow> capabilities \<Rightarrow> capabilities" where
  "mark_removed ws rowId lastSeen now docs =
     update_first (\<lambda>d. cap_workspaceId d = ws \<and> cap_id d = rowId)
       (\<lambda>d. d\<lparr>cap_removedAt := Some now, cap_lastSeenAt := lastSeen\<rparr>) docs"

definition approve :: "id \<Rightarrow> id \<Rightarrow> string \<Rightarrow> id \<Rightarrow> time \<Rightarrow> capabilities \<Rightarrow> bool \<times> capabilities" where
  "approve ws capabilityId definitionHash userId now docs =
     (let P = (\<lambda>d. cap_workspaceId d = ws \<and> cap_id d = capabilityId \<and> cap_definitionHash d = definitionHash)
      in (list_ex P docs, update_first P (\<lambda>d. d\<lparr>cap_approval := \<lparr>apv_state = Approved, apv_definitionHash = definitionHash,
            apv_approvedBy = Some userId, apv_approvedAt = Some now\<rparr>\<rparr>) docs))"

fun approve_all ::
  "id \<Rightarrow> id \<Rightarrow> time \<Rightarrow> (id \<times> string) list \<Rightarrow> id list \<Rightarrow> id list \<Rightarrow> capabilities \<Rightarrow> (id list \<times> id list) \<times> capabilities" where
  "approve_all ws userId now [] approved skipped docs = ((approved, skipped), docs)"
| "approve_all ws userId now ((capabilityId, hash) # rest) approved skipped docs =
     (case approve ws capabilityId hash userId now docs of
        (True, docs') \<Rightarrow> approve_all ws userId now rest (approved @ [capabilityId]) skipped docs'
      | (False, docs') \<Rightarrow> approve_all ws userId now rest approved (skipped @ [capabilityId]) docs')"

definition approveMany ::
  "id \<Rightarrow> (id \<times> string) list \<Rightarrow> id \<Rightarrow> time \<Rightarrow> capabilities \<Rightarrow> (id list \<times> id list) \<times> capabilities" where
  "approveMany ws expectedHashes userId now docs = approve_all ws userId now expectedHashes [] [] docs"

definition revoke :: "id \<Rightarrow> id \<Rightarrow> capabilities \<Rightarrow> capabilities" where
  "revoke ws capabilityId docs =
     update_first (\<lambda>d. cap_workspaceId d = ws \<and> cap_id d = capabilityId)
       (\<lambda>d. d\<lparr>cap_approval := (cap_approval d)\<lparr>apv_state := Revoked\<rparr>\<rparr>) docs"

subsection \<open>Reconciling a discovery\<close>

record discovery_diff =
  df_added :: "string list"
  df_changed :: "string list"
  df_unchanged :: "string list"
  df_removed :: "string list"

definition row_key :: "capability_kind \<Rightarrow> string \<Rightarrow> string" where
  "row_key kind name = cap_kind_name kind @ '':'' @ name"

text \<open>\<^verbatim>\<open>new Map(entries)\<close>: a later entry replaces the value of an earlier one with its key.\<close>

definition map_set :: "'k \<Rightarrow> 'v \<Rightarrow> ('k \<times> 'v) list \<Rightarrow> ('k \<times> 'v) list" where
  "map_set k v m = (if k \<in> fst ` set m then map (\<lambda>(k', v'). if k' = k then (k, v) else (k', v')) m else m @ [(k, v)])"

definition map_of_entries :: "('k \<times> 'v) list \<Rightarrow> ('k \<times> 'v) list" where
  "map_of_entries entries = fold (\<lambda>(k, v). map_set k v) entries []"

fun reconcile_seen ::
  "(string \<Rightarrow> string) \<Rightarrow> (nat \<Rightarrow> id) \<Rightarrow> id \<Rightarrow> id \<Rightarrow> string \<Rightarrow> time \<Rightarrow> bool \<Rightarrow> nat \<Rightarrow> discovered_capability list \<Rightarrow>
   (string \<times> mcp_capability) list \<Rightarrow> discovery_diff \<Rightarrow> capabilities \<Rightarrow>
   (capability_error + (string \<times> mcp_capability) list \<times> discovery_diff) \<times> capabilities" where
  "reconcile_seen sha256 ids ws bindingId scopeKey now auto n [] byName diff docs = (Inr (byName, diff), docs)"
| "reconcile_seen sha256 ids ws bindingId scopeKey now auto n (cap # caps) byName diff docs =
     (let key = row_key (dc_kind cap) (dc_name cap);
          hash = computeDefinitionHash sha256 cap;
          diff' = (case map_of byName key of
             None \<Rightarrow> diff\<lparr>df_added := df_added diff @ [dc_canonicalName cap]\<rparr>
           | Some prior \<Rightarrow>
               (if cap_definitionHash prior \<noteq> hash then diff\<lparr>df_changed := df_changed diff @ [dc_canonicalName cap]\<rparr>
                else diff\<lparr>df_unchanged := df_unchanged diff @ [dc_canonicalName cap]\<rparr>))
      in case upsert (ids n) ws bindingId scopeKey cap hash now auto docs of
           (Inl e, docs') \<Rightarrow> (Inl e, docs')
         | (Inr _, docs') \<Rightarrow>
             reconcile_seen sha256 ids ws bindingId scopeKey now auto (Suc n) caps
               (filter (\<lambda>(k, v). k \<noteq> key) byName) diff' docs')"

fun reconcile_stale ::
  "id \<Rightarrow> time \<Rightarrow> mcp_capability list \<Rightarrow> discovery_diff \<Rightarrow> capabilities \<Rightarrow> discovery_diff \<times> capabilities" where
  "reconcile_stale ws now [] diff docs = (diff, docs)"
| "reconcile_stale ws now (stale # rest) diff docs =
     (if cap_removedAt stale \<noteq> None then reconcile_stale ws now rest diff docs
      else reconcile_stale ws now rest (diff\<lparr>df_removed := df_removed diff @ [cap_canonicalName stale]\<rparr>)
             (mark_removed ws (cap_id stale) (cap_lastSeenAt stale) now docs))"

definition reconcile ::
  "(string \<Rightarrow> string) \<Rightarrow> (nat \<Rightarrow> id) \<Rightarrow> id \<Rightarrow> id \<Rightarrow> string \<Rightarrow> discovered_capability list \<Rightarrow> time \<Rightarrow> bool \<Rightarrow> capabilities \<Rightarrow>
   (capability_error + discovery_diff) \<times> capabilities" where
  "reconcile sha256 ids ws bindingId scopeKey discovered now auto docs =
     (let existing = filter (in_binding ws bindingId scopeKey) docs;
          byName = map_of_entries (map (\<lambda>d. (row_key (cap_kind d) (cap_name d), d)) existing)
      in case reconcile_seen sha256 ids ws bindingId scopeKey now auto 0 discovered byName
             \<lparr>df_added = [], df_changed = [], df_unchanged = [], df_removed = []\<rparr> docs of
           (Inl e, docs') \<Rightarrow> (Inl e, docs')
         | (Inr (left, diff), docs') \<Rightarrow>
             (case reconcile_stale ws now (map snd left) diff docs' of (diff', docs'') \<Rightarrow> (Inr diff', docs'')))"

subsection \<open>The collection over time\<close>

text \<open>
  The collection with two ghost fields: the grants in force (a person approved this row at this hash, and since
  then the row has neither changed its hash nor been revoked) and the bindings whose discoveries are approved
  by the host itself. Every step is one write of the database, so the steps of concurrent discoveries,
  approvals and revocations interleave freely.
\<close>

record cap_system =
  cs_docs :: capabilities
  cs_granted :: "(id \<times> string \<times> id) set"
  cs_auto :: "id set"

definition empty_caps :: "cap_system \<Rightarrow> bool" where
  "empty_caps s \<longleftrightarrow> cs_docs s = [] \<and> cs_granted s = {} \<and> cs_auto s = {}"

definition forget_grants :: "(mcp_capability \<Rightarrow> bool) \<Rightarrow> capabilities \<Rightarrow> (id \<times> string \<times> id) set \<Rightarrow> (id \<times> string \<times> id) set" where
  "forget_grants P docs g = {(i, h, u) \<in> g. \<not> (\<exists>d \<in> set docs. P d \<and> cap_id d = i)}"

lemma forget_grants_empty [simp]: "forget_grants P docs {} = {}"
  by (simp add: forget_grants_def)

inductive cap_step :: "(string \<Rightarrow> string) \<Rightarrow> cap_system \<Rightarrow> cap_system \<Rightarrow> bool" for sha256 where
  cap_discover: "newId \<notin> cap_id ` set (cs_docs s) \<Longrightarrow> hash = computeDefinitionHash sha256 cap \<Longrightarrow>
    upsert newId ws b sk cap hash now auto (cs_docs s) = (r, docs) \<Longrightarrow>
    cap_step sha256 s (s\<lparr>cs_docs := docs,
      cs_granted := forget_grants (\<lambda>d. same_capability ws b sk cap d \<and> cap_definitionHash d \<noteq> hash) (cs_docs s) (cs_granted s),
      cs_auto := (if auto then insert b (cs_auto s) else cs_auto s)\<rparr>)"
| cap_remove: "cap_step sha256 s (s\<lparr>cs_docs := mark_removed ws i seen now (cs_docs s)\<rparr>)"
| cap_approve: "approve ws i hash u now (cs_docs s) = (ok, docs) \<Longrightarrow>
    cap_step sha256 s (s\<lparr>cs_docs := docs, cs_granted := (if ok then insert (i, hash, u) (cs_granted s) else cs_granted s)\<rparr>)"
| cap_revoke: "cap_step sha256 s (s\<lparr>cs_docs := revoke ws i (cs_docs s),
      cs_granted := forget_grants (\<lambda>d. cap_workspaceId d = ws \<and> cap_id d = i) (cs_docs s) (cs_granted s)\<rparr>)"

text \<open>What holds of every row: its hash is that of the definition it shows, and an approval is in force for it.\<close>

definition row_ok :: "(string \<Rightarrow> string) \<Rightarrow> (id \<times> string \<times> id) set \<Rightarrow> id set \<Rightarrow> mcp_capability \<Rightarrow> bool" where
  "row_ok sha256 granted autos d \<longleftrightarrow>
     computeDefinitionHash sha256 (visible d) = cap_definitionHash d \<and>
     (apv_state (cap_approval d) = Approved \<longrightarrow>
        apv_definitionHash (cap_approval d) = cap_definitionHash d \<and>
        (cap_bindingId d \<in> autos \<or>
         (\<exists>u. (cap_id d, cap_definitionHash d, u) \<in> granted \<and> apv_approvedBy (cap_approval d) = Some u)))"

definition caps_ok :: "(string \<Rightarrow> string) \<Rightarrow> cap_system \<Rightarrow> bool" where
  "caps_ok sha256 s \<longleftrightarrow> distinct (map cap_id (cs_docs s)) \<and> distinct (map cap_index (cs_docs s)) \<and>
     (\<forall>d \<in> set (cs_docs s). row_ok sha256 (cs_granted s) (cs_auto s) d)"

lemma row_ok_mono:
  assumes "row_ok sha256 g a d" "\<And>h u. (cap_id d, h, u) \<in> g \<Longrightarrow> (cap_id d, h, u) \<in> g'" "a \<subseteq> a'"
  shows "row_ok sha256 g' a' d"
  using assms unfolding row_ok_def by blast

text \<open>A write of one row keeps the rest, once the grants of the other rows are kept.\<close>

lemma caps_ok_update:
  assumes ok: "caps_ok sha256 s" and ids: "\<And>d. P d \<Longrightarrow> cap_id (f d) = cap_id d \<and> cap_index (f d) = cap_index d"
    and autos: "cs_auto s \<subseteq> a'"
    and row: "\<And>d. d \<in> set (cs_docs s) \<Longrightarrow> P d \<Longrightarrow> row_ok sha256 (cs_granted s) (cs_auto s) d \<Longrightarrow> row_ok sha256 g' a' (f d)"
    and rest: "\<And>d h u. (cap_id d, h, u) \<in> cs_granted s \<Longrightarrow> d \<in> set (cs_docs s) \<Longrightarrow>
      \<forall>e \<in> set (cs_docs s). P e \<longrightarrow> cap_id e \<noteq> cap_id d \<Longrightarrow> (cap_id d, h, u) \<in> g'"
    and single: "\<And>d e. d \<in> set (cs_docs s) \<Longrightarrow> e \<in> set (cs_docs s) \<Longrightarrow> P d \<Longrightarrow> P e \<Longrightarrow> d = e"
  shows "caps_ok sha256 (s\<lparr>cs_docs := update_first P f (cs_docs s), cs_granted := g', cs_auto := a'\<rparr>)"
proof (cases "list_ex P (cs_docs s)")
  case True
  obtain ys x zs where split: "cs_docs s = ys @ x # zs" "P x" "\<forall>f. update_first P f (cs_docs s) = ys @ f x # zs"
    using update_first_split [OF True] by metis
  from ok have dist: "distinct (map cap_id (ys @ x # zs))" "distinct (map cap_index (ys @ x # zs))"
    by (simp_all add: caps_ok_def split(1))
  have "row_ok sha256 g' a' d" if d: "d \<in> set ys \<union> set zs" for d
  proof -
    have mem: "d \<in> set (cs_docs s)" and "cap_id x \<noteq> cap_id d" using d dist(1) by (auto simp: split(1))
    moreover have "e = x" if "e \<in> set (cs_docs s)" "P e" for e
      using single [of e x] that split(1,2) by simp
    ultimately have others: "\<forall>e \<in> set (cs_docs s). P e \<longrightarrow> cap_id e \<noteq> cap_id d" by auto
    have "row_ok sha256 (cs_granted s) (cs_auto s) d" using ok mem by (simp add: caps_ok_def)
    then show ?thesis by (rule row_ok_mono [OF _ rest [OF _ mem others] autos])
  qed
  moreover have "row_ok sha256 g' a' (f x)"
    using ok row [of x] split(1,2) by (auto simp: caps_ok_def)
  ultimately show ?thesis using dist ids [OF split(2)] by (auto simp: caps_ok_def split(3))
next
  case False
  then have none: "\<not> P d" if "d \<in> set (cs_docs s)" for d using that by (auto simp: list_ex_iff)
  have "row_ok sha256 g' a' d" if mem: "d \<in> set (cs_docs s)" for d
  proof -
    have others: "\<forall>e \<in> set (cs_docs s). P e \<longrightarrow> cap_id e \<noteq> cap_id d" using none by blast
    have "row_ok sha256 (cs_granted s) (cs_auto s) d" using ok mem by (simp add: caps_ok_def)
    then show ?thesis by (rule row_ok_mono [OF _ rest [OF _ mem others] autos])
  qed
  with ok show ?thesis by (simp add: caps_ok_def update_first_none [OF False])
qed

lemma caps_ok_ids: "caps_ok sha256 s \<Longrightarrow> d \<in> set (cs_docs s) \<Longrightarrow> e \<in> set (cs_docs s) \<Longrightarrow> cap_id d = cap_id e \<Longrightarrow> d = e"
  by (auto simp: caps_ok_def distinct_map dest: inj_onD)

lemma caps_ok_index:
  "caps_ok sha256 s \<Longrightarrow> d \<in> set (cs_docs s) \<Longrightarrow> e \<in> set (cs_docs s) \<Longrightarrow> same_capability ws b sk cap d \<Longrightarrow>
   same_capability ws b sk cap e \<Longrightarrow> d = e"
  by (rule inj_onD [of cap_index "set (cs_docs s)"])
    (auto simp: caps_ok_def distinct_map same_capability_def in_binding_def cap_index_def)

lemma visible_stored:
  "computeDefinitionHash sha256 (visible (stored i ws b sk cap hash first now a)) = computeDefinitionHash sha256 cap"
  by (simp add: visible_def stored_def computeDefinitionHash_def definition_material_def)

lemma stored_simps [simp]:
  "cap_id (stored i ws b sk cap hash first now a) = i" "cap_bindingId (stored i ws b sk cap hash first now a) = b"
  "cap_definitionHash (stored i ws b sk cap hash first now a) = hash" "cap_approval (stored i ws b sk cap hash first now a) = a"
  "cap_workspaceId (stored i ws b sk cap hash first now a) = ws" "cap_scopeKey (stored i ws b sk cap hash first now a) = sk"
  "cap_removedAt (stored i ws b sk cap hash first now a) = None"
  "cap_index (stored i ws b sk cap hash first now a) = (b, sk, dc_kind cap, dc_name cap)"
  by (simp_all add: stored_def cap_index_def)

lemma upsert_caps_ok:
  assumes ok: "caps_ok sha256 s" and fresh: "newId \<notin> cap_id ` set (cs_docs s)" and hash: "hash = computeDefinitionHash sha256 cap"
    and up: "upsert newId ws b sk cap hash now auto (cs_docs s) = (r, docs)"
  shows "caps_ok sha256 (s\<lparr>cs_docs := docs,
      cs_granted := forget_grants (\<lambda>d. same_capability ws b sk cap d \<and> cap_definitionHash d \<noteq> hash) (cs_docs s) (cs_granted s),
      cs_auto := (if auto then insert b (cs_auto s) else cs_auto s)\<rparr>)"
    (is "caps_ok sha256 (s\<lparr>cs_docs := docs, cs_granted := ?g, cs_auto := ?a\<rparr>)")
proof (cases "list_ex (same_capability ws b sk cap) (cs_docs s)")
  case True
  let ?f = "\<lambda>d. stored (cap_id d) ws b sk cap hash (cap_firstSeenAt d) now (upsert_approval hash now auto (Some d))"
  have docs: "docs = update_first (same_capability ws b sk cap) ?f (cs_docs s)"
    using up True by (simp add: upsert_def)
  have keep: "(cap_id d, h, u) \<in> ?g" if "(cap_id d, h, u) \<in> cs_granted s" "d \<in> set (cs_docs s)"
    "\<forall>e \<in> set (cs_docs s). same_capability ws b sk cap e \<longrightarrow> cap_id e \<noteq> cap_id d" for d h u
    using that by (auto simp: forget_grants_def)
  have row: "row_ok sha256 ?g ?a (?f d)"
    if d: "d \<in> set (cs_docs s)" "same_capability ws b sk cap d" "row_ok sha256 (cs_granted s) (cs_auto s) d" for d
  proof (cases "cap_definitionHash d = hash")
    case True
    then have "(cap_id d, h, u) \<in> ?g" if "(cap_id d, h, u) \<in> cs_granted s" for h u
      using that d(1,2) by (auto simp: forget_grants_def dest!: caps_ok_ids [OF ok _ d(1)])
    with d True show ?thesis
      unfolding row_ok_def visible_stored hash
      by (auto simp: upsert_approval_def same_capability_def in_binding_def hash)
  next
    case False
    with d show ?thesis by (auto simp: row_ok_def visible_stored hash upsert_approval_def)
  qed
  show ?thesis
    unfolding docs
  proof (rule caps_ok_update [OF ok])
    show "cap_id (?f d) = cap_id d \<and> cap_index (?f d) = cap_index d" if "same_capability ws b sk cap d" for d
      unfolding stored_simps using that by (simp add: same_capability_def in_binding_def cap_index_def)
    show "cs_auto s \<subseteq> ?a" by auto
  qed (rule row keep caps_ok_index [OF ok]; assumption)+
next
  case False
  then have same: "?g = cs_granted s" by (auto simp: forget_grants_def list_ex_iff)
  have old: "\<forall>d \<in> set (cs_docs s). row_ok sha256 (cs_granted s) ?a d"
  proof
    fix d assume "d \<in> set (cs_docs s)"
    with ok have "row_ok sha256 (cs_granted s) (cs_auto s) d" by (simp add: caps_ok_def)
    then show "row_ok sha256 (cs_granted s) ?a d" by (rule row_ok_mono) auto
  qed
  let ?new = "stored newId ws b sk cap hash now now (upsert_approval hash now auto None)"
  have new: "row_ok sha256 (cs_granted s) ?a ?new"
    by (simp add: row_ok_def visible_stored hash upsert_approval_def)
  from up False have "docs = cs_docs s \<or> docs = cs_docs s @ [?new] \<and> cap_index ?new \<notin> cap_index ` set (cs_docs s)"
    by (auto simp: upsert_def split: if_splits)
  then show ?thesis
    unfolding same using ok fresh old new by (auto simp: caps_ok_def)
qed

lemma row_ok_write:
  assumes "row_ok sha256 g a d" "visible d' = visible d" "cap_definitionHash d' = cap_definitionHash d"
    "cap_id d' = cap_id d" "cap_bindingId d' = cap_bindingId d"
    "apv_state (cap_approval d') = Approved \<longrightarrow> cap_approval d' = cap_approval d"
  shows "row_ok sha256 g a d'"
  using assms unfolding row_ok_def by auto

lemma cap_step_ok:
  assumes "caps_ok sha256 s" "cap_step sha256 s t"
  shows "caps_ok sha256 t"
  using assms(2)
proof (cases rule: cap_step.cases)
  case (cap_discover newId hash cap ws b sk now auto r docs)
  with upsert_caps_ok [OF assms(1)] show ?thesis by simp
next
  case (cap_remove ws i seen now)
  have "caps_ok sha256 (s\<lparr>cs_docs := mark_removed ws i seen now (cs_docs s), cs_granted := cs_granted s, cs_auto := cs_auto s\<rparr>)"
    unfolding mark_removed_def
    by (rule caps_ok_update [OF assms(1)])
      (auto simp: cap_index_def visible_def intro: caps_ok_ids [OF assms(1)] elim: row_ok_write)
  with cap_remove show ?thesis by simp
next
  case (cap_approve ws i hash u now ok docs)
  let ?g = "if ok then insert (i, hash, u) (cs_granted s) else cs_granted s"
  have ok: ok if "d \<in> set (cs_docs s)" "cap_workspaceId d = ws \<and> cap_id d = i \<and> cap_definitionHash d = hash" for d
    using cap_approve(2) that by (auto simp: approve_def Let_def list_ex_iff)
  have "caps_ok sha256 (s\<lparr>cs_docs := snd (approve ws i hash u now (cs_docs s)), cs_granted := ?g, cs_auto := cs_auto s\<rparr>)"
    unfolding approve_def Let_def snd_conv
    by (rule caps_ok_update [OF assms(1)])
      (auto simp: cap_index_def visible_def row_ok_def dest: ok intro: caps_ok_ids [OF assms(1)])
  with cap_approve show ?thesis by simp
next
  case (cap_revoke ws i)
  let ?g = "forget_grants (\<lambda>d. cap_workspaceId d = ws \<and> cap_id d = i) (cs_docs s) (cs_granted s)"
  have "caps_ok sha256 (s\<lparr>cs_docs := revoke ws i (cs_docs s), cs_granted := ?g, cs_auto := cs_auto s\<rparr>)"
    unfolding revoke_def
    by (rule caps_ok_update [OF assms(1)])
      (auto simp: cap_index_def visible_def row_ok_def forget_grants_def intro: caps_ok_ids [OF assms(1)])
  with cap_revoke show ?thesis by simp
qed

interpretation caps: invariant_system empty_caps "cap_step sha256" "caps_ok sha256"
proof unfold_locales
  show "caps_ok sha256 s" if "empty_caps s" for s
    using that by (simp add: empty_caps_def caps_ok_def)
qed (rule cap_step_ok)

subsection \<open>Rows by their key\<close>

text \<open>The row of a binding for a kind and a name; the unique index leaves at most one.\<close>

definition row_of :: "id \<Rightarrow> id \<Rightarrow> string \<Rightarrow> capabilities \<Rightarrow> capability_kind \<times> string \<Rightarrow> mcp_capability option" where
  "row_of ws b sk docs key = List.find (\<lambda>d. in_binding ws b sk d \<and> (cap_kind d, cap_name d) = key) docs"

abbreviation key_of :: "discovered_capability \<Rightarrow> capability_kind \<times> string" where
  "key_of cap \<equiv> (dc_kind cap, dc_name cap)"

lemma row_of_mem: "row_of ws b sk docs key = Some d \<Longrightarrow> d \<in> set docs \<and> in_binding ws b sk d \<and> (cap_kind d, cap_name d) = key"
  unfolding row_of_def by (drule find_Some_in) simp

lemma row_of_iff:
  assumes "distinct (map cap_index docs)"
  shows "row_of ws b sk docs key = Some d \<longleftrightarrow> d \<in> set docs \<and> in_binding ws b sk d \<and> (cap_kind d, cap_name d) = key"
proof
  assume d: "d \<in> set docs \<and> in_binding ws b sk d \<and> (cap_kind d, cap_name d) = key"
  then obtain e where e: "row_of ws b sk docs key = Some e"
    by (cases "row_of ws b sk docs key") (auto simp: row_of_def find_None_all)
  with row_of_mem [OF e] d assms have "d = e"
    by (intro inj_onD [of cap_index "set docs"]) (auto simp: distinct_map cap_index_def in_binding_def)
  with e show "row_of ws b sk docs key = Some d" by simp
qed (rule row_of_mem)

lemma find_other_update_first:
  assumes "\<And>d. P d \<Longrightarrow> Q d \<Longrightarrow> Q (f d)" "\<And>d. P d \<Longrightarrow> \<not> Q d \<Longrightarrow> \<not> Q (f d)"
  shows "List.find Q (update_first P f docs) =
    (case List.find Q docs of None \<Rightarrow> None
     | Some d \<Rightarrow> if P d \<and> List.find P docs = Some d then Some (f d) else Some d)"
  using assms by (induction docs) (auto split: option.splits dest: find_Some_in)

lemma upsert_rows:
  assumes "upsert newId ws b sk cap hash now auto docs = (Inr u, docs')"
  shows "\<exists>i first. row_of ws b sk docs' key =
    (if key = key_of cap then Some (stored i ws b sk cap hash first now (upsert_approval hash now auto (row_of ws b sk docs key)))
     else row_of ws b sk docs key)"
proof (cases "list_ex (same_capability ws b sk cap) docs")
  case True
  let ?f = "\<lambda>d. stored (cap_id d) ws b sk cap hash (cap_firstSeenAt d) now (upsert_approval hash now auto (Some d))"
  have docs': "docs' = update_first (same_capability ws b sk cap) ?f docs" using assms True by (simp add: upsert_def)
  have row: "row_of ws b sk docs key = List.find (same_capability ws b sk cap) docs" if "key = key_of cap" for key
    unfolding row_of_def that by (rule arg_cong [where f = "\<lambda>P. List.find P docs"]) (auto simp: same_capability_def)
  obtain d where d: "List.find (same_capability ws b sk cap) docs = Some d" "same_capability ws b sk cap d"
    using True by (metis find_Some_in find_None_all list_ex_iff not_None_eq)
  have "row_of ws b sk docs' key = (case row_of ws b sk docs key of None \<Rightarrow> None
     | Some d \<Rightarrow> if same_capability ws b sk cap d \<and> List.find (same_capability ws b sk cap) docs = Some d then Some (?f d) else Some d)"
    unfolding docs' row_of_def by (rule find_other_update_first) (auto simp: same_capability_def in_binding_def stored_def)
  then show ?thesis
    using d row [of key] row_of_mem [of ws b sk docs key] by (cases "row_of ws b sk docs key") (auto simp: same_capability_def)
next
  case False
  with assms have docs': "docs' = docs @ [stored newId ws b sk cap hash now now (upsert_approval hash now auto None)]"
    by (auto simp: upsert_def split: if_splits)
  have none: "row_of ws b sk docs (key_of cap) = None"
    using False by (auto simp: row_of_def find_None_all list_ex_iff same_capability_def)
  have "row_of ws b sk docs' key = (case row_of ws b sk docs key of
      None \<Rightarrow> if key = key_of cap then Some (stored newId ws b sk cap hash now now (upsert_approval hash now auto None)) else None
    | Some d \<Rightarrow> Some d)"
    unfolding docs' row_of_def by (induction docs) (auto simp: in_binding_def stored_def)
  with none show ?thesis by (auto split: option.splits)
qed

lemma upsert_elsewhere:
  assumes "upsert newId ws b sk cap hash now auto docs = (r, docs')"
  shows "filter (\<lambda>d. \<not> in_binding ws b sk d) docs' = filter (\<lambda>d. \<not> in_binding ws b sk d) docs"
proof -
  have "filter (\<lambda>d. \<not> in_binding ws b sk d) (update_first (same_capability ws b sk cap) f docs) =
      filter (\<lambda>d. \<not> in_binding ws b sk d) docs" if "\<And>d. in_binding ws b sk (f d)" for f
    using that by (induction docs) (auto simp: same_capability_def)
  with assms show ?thesis by (auto simp: upsert_def in_binding_def split: if_splits)
qed

lemma row_key_inject: "row_key k n = row_key k' n' \<longleftrightarrow> (k, n) = (k', n')"
  by (cases k; cases k') (auto simp: row_key_def)

lemma map_of_entries_distinct:
  assumes "distinct (map fst es)"
  shows "map_of_entries es = es"
proof -
  have "fold (\<lambda>(k, v). map_set k v) es m = m @ es" if "distinct (map fst (m @ es))" for m
    using that
  proof (induction es arbitrary: m)
    case (Cons e es)
    obtain k v where e: "e = (k, v)" by (cases e)
    from Cons.prems have "map_set k v m = m @ [(k, v)]" by (auto simp: map_set_def e)
    with Cons.IH [of "m @ [(k, v)]"] Cons.prems show ?case by (simp add: e)
  qed simp
  from this [of "[]"] assms show ?thesis by (simp add: map_of_entries_def)
qed

text \<open>The names a reconciliation starts from: one entry per row of the binding.\<close>

definition by_name :: "id \<Rightarrow> id \<Rightarrow> string \<Rightarrow> capabilities \<Rightarrow> (string \<times> mcp_capability) list" where
  "by_name ws b sk docs = map (\<lambda>d. (row_key (cap_kind d) (cap_name d), d)) (filter (in_binding ws b sk) docs)"

lemma by_name_distinct:
  assumes "distinct (map cap_index docs)"
  shows "distinct (map fst (by_name ws b sk docs))"
  using assms
  by (induction docs) (auto simp: by_name_def row_key_inject cap_index_def in_binding_def image_iff)

lemma by_name_row:
  "map_of (by_name ws b sk docs) (row_key k n) = row_of ws b sk docs (k, n)"
  by (induction docs) (auto simp: by_name_def row_of_def row_key_inject)

lemma map_of_filter_key: "map_of (filter (\<lambda>(k, v). k \<noteq> key) m) k = (if k = key then None else map_of m k)"
  by (induction m) auto

text \<open>What the first loop of a reconciliation leaves: the announced rows stored, the others as they were.\<close>

definition announced :: "(string \<Rightarrow> string) \<Rightarrow> id \<Rightarrow> id \<Rightarrow> string \<Rightarrow> time \<Rightarrow> bool \<Rightarrow> discovered_capability \<Rightarrow>
    mcp_capability option \<Rightarrow> mcp_capability option \<Rightarrow> bool" where
  "announced sha256 ws b sk now auto cap before after \<longleftrightarrow>
     (\<exists>i first. after = Some (stored i ws b sk cap (computeDefinitionHash sha256 cap) first now
        (upsert_approval (computeDefinitionHash sha256 cap) now auto before)))"

lemma announced_row:
  assumes "announced sha256 ws b sk now auto cap before (Some d)"
  shows "visible d = cap" "cap_removedAt d = None" "cap_definitionHash d = computeDefinitionHash sha256 cap"
    "cap_approval d = upsert_approval (cap_definitionHash d) now auto before"
  using assms by (auto simp: announced_def visible_def stored_def)

lemma reconcile_seen_rows:
  assumes "reconcile_seen sha256 ids ws b sk now auto n caps byName diff docs = (Inr (left, diff'), docs')"
    and "distinct (map key_of caps)"
  shows "left = filter (\<lambda>(k, v). k \<notin> (\<lambda>c. row_key (dc_kind c) (dc_name c)) ` set caps) byName \<and>
    filter (\<lambda>d. \<not> in_binding ws b sk d) docs' = filter (\<lambda>d. \<not> in_binding ws b sk d) docs \<and>
    (\<forall>key. key \<notin> key_of ` set caps \<longrightarrow> row_of ws b sk docs' key = row_of ws b sk docs key) \<and>
    (\<forall>cap \<in> set caps. announced sha256 ws b sk now auto cap (row_of ws b sk docs (key_of cap)) (row_of ws b sk docs' (key_of cap))) \<and>
    df_removed diff' = df_removed diff \<and>
    df_added diff' = df_added diff @ map dc_canonicalName
      (filter (\<lambda>cap. map_of byName (row_key (dc_kind cap) (dc_name cap)) = None) caps)"
  using assms
proof (induction caps arbitrary: n byName diff docs)
  case (Cons c caps)
  let ?hash = "computeDefinitionHash sha256 c"
  let ?key = "row_key (dc_kind c) (dc_name c)"
  let ?byName = "filter (\<lambda>(k, v). k \<noteq> ?key) byName"
  from Cons.prems(1) obtain diff1 docs1 u where
    up: "upsert (ids n) ws b sk c ?hash now auto docs = (Inr u, docs1)" and
    rest: "reconcile_seen sha256 ids ws b sk now auto (Suc n) caps ?byName diff1 docs1 = (Inr (left, diff'), docs')" and
    diff1: "df_removed diff1 = df_removed diff"
      "df_added diff1 = df_added diff @ (if map_of byName ?key = None then [dc_canonicalName c] else [])"
    by (auto simp: Let_def split: prod.splits sum.splits option.splits if_splits)
  have fresh: "key_of c \<notin> key_of ` set caps" "distinct (map key_of caps)" using Cons.prems(2) by auto
  note ih = Cons.IH [OF rest fresh(2)]
  have rows: "row_of ws b sk docs1 key = row_of ws b sk docs key" if "key \<noteq> key_of c" for key
    using upsert_rows [OF up, of key] that by auto
  have c1: "announced sha256 ws b sk now auto c (row_of ws b sk docs (key_of c)) (row_of ws b sk docs1 (key_of c))"
    using upsert_rows [OF up, of "key_of c"] by (auto simp: announced_def)
  have other: "row_key (dc_kind cap) (dc_name cap) \<noteq> ?key" "key_of cap \<noteq> key_of c" if "cap \<in> set caps" for cap
    using that fresh(1) by (auto simp: row_key_inject image_iff)
  have a1: "left = filter (\<lambda>(k, v). k \<notin> (\<lambda>c. row_key (dc_kind c) (dc_name c)) ` set (c # caps)) byName"
    using ih by (auto simp: filter_filter intro!: filter_cong)
  have a2: "filter (\<lambda>d. \<not> in_binding ws b sk d) docs' = filter (\<lambda>d. \<not> in_binding ws b sk d) docs"
    using ih upsert_elsewhere [OF up] by simp
  have a3: "row_of ws b sk docs' key = row_of ws b sk docs key" if "key \<notin> key_of ` set (c # caps)" for key
  proof -
    from that have "key \<noteq> key_of c" "key \<notin> key_of ` set caps" by auto
    with ih rows show ?thesis by metis
  qed
  have a4: "announced sha256 ws b sk now auto cap (row_of ws b sk docs (key_of cap)) (row_of ws b sk docs' (key_of cap))"
    if "cap \<in> set (c # caps)" for cap
    using that ih fresh(1) c1 rows other by (metis set_ConsD)
  have "filter (\<lambda>cap. map_of ?byName (row_key (dc_kind cap) (dc_name cap)) = None) caps =
      filter (\<lambda>cap. map_of byName (row_key (dc_kind cap) (dc_name cap)) = None) caps"
    using other by (auto simp: map_of_filter_key intro!: filter_cong)
  then have a5: "df_added diff' = df_added diff @ map dc_canonicalName
      (filter (\<lambda>cap. map_of byName (row_key (dc_kind cap) (dc_name cap)) = None) (c # caps))"
    using ih diff1 by simp
  have a6: "df_removed diff' = df_removed diff" using ih diff1 by simp
  show ?case by (intro conjI allI impI ballI a1 a2 a3 a4 a5 a6)
qed simp

text \<open>The second loop marks the rows that are left over.\<close>

lemma reconcile_stale_rows:
  assumes "reconcile_stale ws now stale diff docs = (diff', docs')"
    and "distinct (map cap_id docs)" "distinct (map cap_id stale)" "\<forall>d \<in> set stale. cap_workspaceId d = ws \<and> d \<in> set docs"
  shows "docs' = map (\<lambda>d. if d \<in> set stale \<and> cap_removedAt d = None then d\<lparr>cap_removedAt := Some now\<rparr> else d) docs \<and>
    df_removed diff' = df_removed diff @ map cap_canonicalName (filter (\<lambda>d. cap_removedAt d = None) stale) \<and>
    df_added diff' = df_added diff"
  using assms
proof (induction stale arbitrary: diff docs)
  case (Cons x stale)
  show ?case
  proof (cases "cap_removedAt x = None")
    case True
    let ?docs = "mark_removed ws (cap_id x) (cap_lastSeenAt x) now docs"
    have docs1: "?docs = map (\<lambda>d. if d = x then d\<lparr>cap_removedAt := Some now\<rparr> else d) docs"
    proof -
      have "list_ex (\<lambda>d. cap_workspaceId d = ws \<and> cap_id d = cap_id x) docs"
        using Cons.prems(4) by (auto simp: list_ex_iff)
      then obtain ys z zs where split: "docs = ys @ z # zs" "cap_workspaceId z = ws \<and> cap_id z = cap_id x"
        "\<forall>y \<in> set ys. \<not> (cap_workspaceId y = ws \<and> cap_id y = cap_id x)"
        "\<forall>f. update_first (\<lambda>d. cap_workspaceId d = ws \<and> cap_id d = cap_id x) f docs = ys @ f z # zs"
        by (rule update_first_split)
      have "inj_on cap_id (set docs)" using Cons.prems(2) by (simp add: distinct_map)
      then have "z = x" by (rule inj_onD) (use split(1,2) Cons.prems(4) in auto)
      then have "x \<notin> set ys" "x \<notin> set zs" using Cons.prems(2) by (auto simp: split(1))
      then have "map (\<lambda>d. if d = x then d\<lparr>cap_removedAt := Some now\<rparr> else d) docs = ys @ x\<lparr>cap_removedAt := Some now\<rparr> # zs"
        using \<open>z = x\<close> by (auto simp: split(1) intro!: map_idI)
      with \<open>z = x\<close> split(4) show ?thesis by (simp add: mark_removed_def)
    qed
    have "map cap_id ?docs = map cap_id docs" by (simp add: docs1)
    then have "distinct (map cap_id ?docs)" using Cons.prems(2) by simp
    moreover have "\<forall>d \<in> set stale. cap_workspaceId d = ws \<and> d \<in> set ?docs"
      using Cons.prems(3,4) by (auto simp: docs1 image_iff)
    ultimately show ?thesis
      using Cons.IH [of "diff\<lparr>df_removed := df_removed diff @ [cap_canonicalName x]\<rparr>" ?docs] Cons.prems True
      by (auto simp: docs1)
  next
    case False
    with Cons.prems(1) have "reconcile_stale ws now stale diff docs = (diff', docs')" by simp
    note ih = Cons.IH [OF this Cons.prems(2)]
    have "(\<lambda>d. if d \<in> set (x # stale) \<and> cap_removedAt d = None then d\<lparr>cap_removedAt := Some now\<rparr> else d) =
        (\<lambda>d. if d \<in> set stale \<and> cap_removedAt d = None then d\<lparr>cap_removedAt := Some now\<rparr> else d)"
      using False by (auto simp: fun_eq_iff)
    with ih Cons.prems(3,4) False show ?thesis by simp
  qed
qed simp

lemma visible_of_stored [simp]: "visible (stored i ws b sk cap hash first now a) = cap"
  by (simp add: visible_def stored_def)

lemma upsert_distinct:
  assumes "upsert newId ws b sk cap hash now auto docs = (r, docs')" "newId \<notin> cap_id ` set docs"
    and "distinct (map cap_id docs)" "distinct (map cap_index docs)"
  shows "distinct (map cap_id docs')" "distinct (map cap_index docs')" "cap_id ` set docs' \<subseteq> insert newId (cap_id ` set docs)"
proof -
  let ?f = "\<lambda>d. stored (cap_id d) ws b sk cap hash (cap_firstSeenAt d) now (upsert_approval hash now auto (Some d))"
  have upd: "map cap_id (update_first (same_capability ws b sk cap) ?f docs) = map cap_id docs"
    "map cap_index (update_first (same_capability ws b sk cap) ?f docs) = map cap_index docs"
    by (induction docs) (auto simp: same_capability_def in_binding_def cap_index_def stored_def)
  then have "cap_id ` set (update_first (same_capability ws b sk cap) ?f docs) = cap_id ` set docs"
    by (metis list.set_map)
  with upd assms show "distinct (map cap_id docs')" "distinct (map cap_index docs')"
    "cap_id ` set docs' \<subseteq> insert newId (cap_id ` set docs)"
    by (auto simp: upsert_def split: if_splits)
qed

lemma reconcile_seen_distinct:
  assumes "reconcile_seen sha256 ids ws b sk now auto n caps byName diff docs = (r, docs')"
    and "distinct (map cap_id docs)" "distinct (map cap_index docs)" "inj ids" "\<forall>m \<ge> n. ids m \<notin> cap_id ` set docs"
  shows "distinct (map cap_id docs') \<and> distinct (map cap_index docs')"
  using assms
proof (induction caps arbitrary: n byName diff docs)
  case (Cons c caps)
  obtain r1 docs1 where up: "upsert (ids n) ws b sk c (computeDefinitionHash sha256 c) now auto docs = (r1, docs1)"
    by (metis surj_pair)
  note d1 = upsert_distinct [OF up _ Cons.prems(2,3)]
  have fresh: "\<forall>m \<ge> Suc n. ids m \<notin> cap_id ` set docs1"
  proof (intro allI impI notI)
    fix m assume m: "Suc n \<le> m" "ids m \<in> cap_id ` set docs1"
    moreover have "ids m \<notin> cap_id ` set docs" "ids n \<notin> cap_id ` set docs" using Cons.prems(5) m(1) by auto
    ultimately have "ids m = ids n" using d1(3) by blast
    with \<open>inj ids\<close> m(1) show False by (auto dest: injD)
  qed
  from Cons.prems(1) up have "(\<exists>byName' diff'. reconcile_seen sha256 ids ws b sk now auto (Suc n) caps byName' diff' docs1 = (r, docs'))
      \<or> docs' = docs1"
    by (auto simp: Let_def split: sum.splits)
  with Cons.IH d1 Cons.prems(4,5) fresh show ?case by blast
qed simp

text \<open>What a whole reconciliation leaves of the binding's rows.\<close>

lemma reconcile_exact:
  assumes ids: "distinct (map cap_id docs)" and index: "distinct (map cap_index docs)"
    and keys: "distinct (map key_of discovered)" and fresh: "inj ids" "\<forall>m. ids m \<notin> cap_id ` set docs"
    and run: "reconcile sha256 ids ws b sk discovered now auto docs = (Inr diff, docs')"
  shows "visible ` set (listForBinding ws b sk docs') = set discovered"
    and "filter (\<lambda>d. \<not> in_binding ws b sk d) docs' = filter (\<lambda>d. \<not> in_binding ws b sk d) docs"
    and "\<forall>d \<in> set (listForBinding ws b sk docs'). announced sha256 ws b sk now auto (visible d)
      (row_of ws b sk docs (cap_kind d, cap_name d)) (Some d)"
    and "set (df_removed diff) = cap_canonicalName ` {d \<in> set (listForBinding ws b sk docs).
      (cap_kind d, cap_name d) \<notin> key_of ` set discovered}"
proof -
  let ?empty = "\<lparr>df_added = [], df_changed = [], df_unchanged = [], df_removed = []\<rparr>"
  have byName: "map_of_entries (map (\<lambda>d. (row_key (cap_kind d) (cap_name d), d)) (filter (in_binding ws b sk) docs)) = by_name ws b sk docs"
    using map_of_entries_distinct [OF by_name_distinct [OF index]] by (simp add: by_name_def)
  from run obtain left diff1 docs1 where
    seen: "reconcile_seen sha256 ids ws b sk now auto 0 discovered (by_name ws b sk docs) ?empty docs = (Inr (left, diff1), docs1)" and
    stale: "reconcile_stale ws now (map snd left) diff1 docs1 = (diff, docs')"
    by (auto simp: reconcile_def Let_def byName split: prod.splits sum.splits)
  note rows = reconcile_seen_rows [OF seen keys]
  have dist1: "distinct (map cap_id docs1)" "distinct (map cap_index docs1)"
    using reconcile_seen_distinct [OF seen ids index fresh(1)] fresh(2) by auto
  let ?stale = "filter (\<lambda>d. in_binding ws b sk d \<and> (cap_kind d, cap_name d) \<notin> key_of ` set discovered) docs"
  have left: "map snd left = ?stale"
    using rows by (auto simp: by_name_def filter_map comp_def row_key_inject image_iff intro!: filter_cong)
  have in1: "d \<in> set docs1 \<and> in_binding ws b sk d \<longleftrightarrow> row_of ws b sk docs1 (cap_kind d, cap_name d) = Some d" for d
    using row_of_iff [OF dist1(2)] by blast
  have in0: "d \<in> set docs \<and> in_binding ws b sk d \<longleftrightarrow> row_of ws b sk docs (cap_kind d, cap_name d) = Some d" for d
    using row_of_iff [OF index] by blast
  have same: "row_of ws b sk docs1 key = row_of ws b sk docs key" if "key \<notin> key_of ` set discovered" for key
    using rows that by blast
  have "distinct (map cap_id ?stale)" using ids by (auto simp: distinct_map elim: inj_on_subset)
  moreover have "\<forall>d \<in> set ?stale. cap_workspaceId d = ws \<and> d \<in> set docs1"
  proof
    fix d assume "d \<in> set ?stale"
    then have d: "d \<in> set docs" "in_binding ws b sk d" "(cap_kind d, cap_name d) \<notin> key_of ` set discovered" by auto
    with in0 [of d] same [OF d(3)] in1 [of d] show "cap_workspaceId d = ws \<and> d \<in> set docs1"
      by (simp add: in_binding_def)
  qed
  ultimately have final: "docs' = map (\<lambda>d. if d \<in> set ?stale \<and> cap_removedAt d = None then d\<lparr>cap_removedAt := Some now\<rparr> else d) docs1"
    "df_removed diff = df_removed diff1 @ map cap_canonicalName (filter (\<lambda>d. cap_removedAt d = None) ?stale)"
    using reconcile_stale_rows [OF stale dist1(1)] unfolding left by blast+
  have other: "d \<in> set ?stale" if "d \<in> set docs1" "in_binding ws b sk d" "(cap_kind d, cap_name d) \<notin> key_of ` set discovered" for d
    using that in1 [of d] same [OF that(3)] in0 [of d] by simp
  have seen1: "\<exists>cap \<in> set discovered. key_of cap = (cap_kind d, cap_name d) \<and>
      announced sha256 ws b sk now auto cap (row_of ws b sk docs (cap_kind d, cap_name d)) (Some d)"
    if "d \<in> set docs1" "in_binding ws b sk d" "(cap_kind d, cap_name d) \<in> key_of ` set discovered" for d
  proof -
    from that(3) obtain cap where cap: "cap \<in> set discovered" "key_of cap = (cap_kind d, cap_name d)" by auto
    with rows that(1,2) in1 [of d] show ?thesis by (metis (no_types))
  qed
  have live: "d \<in> set (listForBinding ws b sk docs') \<longleftrightarrow>
      d \<in> set docs1 \<and> in_binding ws b sk d \<and> (cap_kind d, cap_name d) \<in> key_of ` set discovered" for d
  proof
    assume "d \<in> set (listForBinding ws b sk docs')"
    then obtain e where e: "e \<in> set docs1" "in_binding ws b sk d" "cap_removedAt d = None"
      "d = (if e \<in> set ?stale \<and> cap_removedAt e = None then e\<lparr>cap_removedAt := Some now\<rparr> else e)"
      by (auto simp: listForBinding_def final(1))
    have kept: "e \<notin> set ?stale"
    proof
      assume "e \<in> set ?stale"
      with e(3,4) show False by (cases "cap_removedAt e = None") simp_all
    qed
    then have "d = e" unfolding e(4) by (metis (no_types))
    with e(1,2) kept other [of e] show "d \<in> set docs1 \<and> in_binding ws b sk d \<and> (cap_kind d, cap_name d) \<in> key_of ` set discovered" by blast
  next
    assume d: "d \<in> set docs1 \<and> in_binding ws b sk d \<and> (cap_kind d, cap_name d) \<in> key_of ` set discovered"
    with seen1 [of d] have "cap_removedAt d = None" by (auto simp: announced_def)
    moreover have "d \<in> set docs'" unfolding final(1) set_map by (rule image_eqI [of _ _ d]) (use d in auto)
    ultimately show "d \<in> set (listForBinding ws b sk docs')" using d by (simp add: listForBinding_def)
  qed
  show ann: "\<forall>d \<in> set (listForBinding ws b sk docs'). announced sha256 ws b sk now auto (visible d)
      (row_of ws b sk docs (cap_kind d, cap_name d)) (Some d)"
  proof
    fix d assume "d \<in> set (listForBinding ws b sk docs')"
    with live [of d] seen1 [of d] obtain cap where
      cap: "announced sha256 ws b sk now auto cap (row_of ws b sk docs (cap_kind d, cap_name d)) (Some d)" by blast
    with announced_row(1) [OF cap] show "announced sha256 ws b sk now auto (visible d) (row_of ws b sk docs (cap_kind d, cap_name d)) (Some d)"
      by simp
  qed
  show "visible ` set (listForBinding ws b sk docs') = set discovered"
  proof (intro subset_antisym subsetI)
    fix c assume "c \<in> visible ` set (listForBinding ws b sk docs')"
    then obtain d where d: "d \<in> set (listForBinding ws b sk docs')" "c = visible d" by auto
    with live [of d] seen1 [of d] show "c \<in> set discovered" by (auto simp: announced_def)
  next
    fix c assume c: "c \<in> set discovered"
    with rows obtain d where d: "row_of ws b sk docs1 (key_of c) = Some d" "visible d = c" by (auto simp: announced_def)
    from row_of_mem [OF d(1)] c have "d \<in> set (listForBinding ws b sk docs')" unfolding live by auto
    with d(2) show "c \<in> visible ` set (listForBinding ws b sk docs')" by blast
  qed
  have "filter (\<lambda>d. \<not> in_binding ws b sk d) docs' = filter (\<lambda>d. \<not> in_binding ws b sk d) docs1"
    unfolding final(1) by (induction docs1) (auto simp: in_binding_def)
  with rows show "filter (\<lambda>d. \<not> in_binding ws b sk d) docs' = filter (\<lambda>d. \<not> in_binding ws b sk d) docs" by simp
  show "set (df_removed diff) = cap_canonicalName ` {d \<in> set (listForBinding ws b sk docs).
      (cap_kind d, cap_name d) \<notin> key_of ` set discovered}"
    using rows by (auto simp: final(2) listForBinding_def)
qed

text \<open>A row of another workspace under the same key survives every write of this one and refuses the insert.\<close>

lemma reconcile_seen_refused:
  assumes "d \<in> set docs" "cap_index d = (b, sk, dc_kind cap, dc_name cap)" "cap_workspaceId d \<noteq> ws"
    and "row_of ws b sk docs (key_of cap) = None" "cap \<in> set caps"
  shows "fst (reconcile_seen sha256 ids ws b sk now auto n caps byName diff docs) = Inl Duplicate_capability \<and>
    row_of ws b sk (snd (reconcile_seen sha256 ids ws b sk now auto n caps byName diff docs)) (key_of cap) = None"
  using assms
proof (induction caps arbitrary: n byName diff docs)
  case (Cons c caps)
  let ?up = "upsert (ids n) ws b sk c (computeDefinitionHash sha256 c) now auto docs"
  obtain r docs1 where up: "?up = (r, docs1)" by (cases ?up)
  show ?case
  proof (cases r)
    case (Inl e)
    then have "e = Duplicate_capability" "docs1 = docs" using up by (auto simp: upsert_def split: if_splits)
    with Inl up Cons.prems(4) show ?thesis by (simp add: Let_def)
  next
    case (Inr u)
    have "key_of c \<noteq> key_of cap"
    proof
      assume same: "key_of c = key_of cap"
      then have "\<not> list_ex (same_capability ws b sk c) docs"
        using Cons.prems(4) by (auto simp: row_of_def find_None_all list_ex_iff same_capability_def)
      moreover have "(b, sk, dc_kind c, dc_name c) \<in> cap_index ` set docs"
        using Cons.prems(1,2) same by (metis Pair_inject image_eqI)
      ultimately show False using up Inr by (simp add: upsert_def)
    qed
    then have none: "row_of ws b sk docs1 (key_of cap) = None" and mem: "cap \<in> set caps"
      using upsert_rows [OF up [unfolded Inr], of "key_of cap"] Cons.prems(4,5) by auto
    have "d \<in> set (filter (\<lambda>d. \<not> in_binding ws b sk d) docs1)"
      unfolding upsert_elsewhere [OF up] using Cons.prems(1,3) by (simp add: in_binding_def)
    then have "d \<in> set docs1" by simp
    from Cons.IH [OF this Cons.prems(2,3) none mem] up Inr show ?thesis by (simp add: Let_def)
  qed
qed simp

subsection \<open>Properties\<close>

text \<open>
  C6. An approval is for one definition. Under every interleaving of discoveries, approvals, revocations and
  removals, a capability that is usable shows exactly a definition whose hash it carries, and either a person
  approved this row at this very hash and since then its definition has not changed and the approval has not
  been revoked, or its binding is one whose discoveries the host approves itself.
\<close>

theorem capability_pinned:
  assumes "reach empty_caps (cap_step sha256) s" "d \<in> set (cs_docs s)" "isCapabilityUsable d"
  shows "computeDefinitionHash sha256 (visible d) = cap_definitionHash d \<and>
    (cap_bindingId d \<in> cs_auto s \<or> (\<exists>u. (cap_id d, computeDefinitionHash sha256 (visible d), u) \<in> cs_granted s))"
  using caps.inv_reach [OF assms(1)] assms(2,3) by (auto simp: caps_ok_def row_ok_def isCapabilityUsable_def)

definition sample_seen_tool :: discovered_capability where
  "sample_seen_tool = \<lparr>dc_kind = Tool, dc_name = ''recall'', dc_canonicalName = ''memory__recall'', dc_title = None,
     dc_description = Some ''Recall a fact.'', dc_inputSchema = None, dc_outputSchema = None, dc_annotations = None\<rparr>"

definition sample_row :: mcp_capability where
  "sample_row = stored ''cap_1'' ''w1'' ''b1'' ''workspace'' sample_seen_tool (computeDefinitionHash (\<lambda>m. m) sample_seen_tool) 1 1
     (upsert_approval (computeDefinitionHash (\<lambda>m. m) sample_seen_tool) 1 True None)"

lemma sample_row_usable: "isCapabilityUsable sample_row"
  by (simp add: sample_row_def isCapabilityUsable_def upsert_approval_def)

theorem capability_pinned_witness:
  "\<exists>s. reach empty_caps (cap_step (\<lambda>m. m)) s \<and> sample_row \<in> set (cs_docs s) \<and>
     computeDefinitionHash (\<lambda>m. m) (visible sample_row) = cap_definitionHash sample_row"
proof -
  let ?s0 = "\<lparr>cs_docs = [], cs_granted = {}, cs_auto = {}\<rparr>"
  let ?s1 = "\<lparr>cs_docs = [sample_row], cs_granted = {}, cs_auto = {''b1''}\<rparr>"
  have "cap_step (\<lambda>m. m) ?s0 ?s1"
    using cap_discover [of "''cap_1''" ?s0 "computeDefinitionHash (\<lambda>m. m) sample_seen_tool" "\<lambda>m. m" sample_seen_tool
        "''w1''" "''b1''" "''workspace''" 1 True "Inr ()" "[sample_row]"]
    by (simp add: upsert_def sample_row_def)
  moreover have "reach empty_caps (cap_step (\<lambda>m. m)) ?s0" by (rule reach_init) (simp add: empty_caps_def)
  ultimately have s1: "reach empty_caps (cap_step (\<lambda>m. m)) ?s1" by (rule reach_step [rotated])
  have mem: "sample_row \<in> set (cs_docs ?s1)" by simp
  from capability_pinned [OF s1 mem sample_row_usable] s1 mem show ?thesis by blast
qed

text \<open>
  A discovery makes exactly what the server announced the live surface of its binding, and touches no row
  of any other. It reports as removed the live tools that were not announced. Without the host's own approval
  it never makes a tool usable that was not: a tool usable afterwards already had a row approved at the very
  hash of what is announced now.
\<close>

theorem discovery_exact:
  assumes "distinct (map cap_id docs)" "distinct (map cap_index docs)" "distinct (map key_of discovered)"
    and "inj ids" "\<forall>m. ids m \<notin> cap_id ` set docs"
    and "reconcile sha256 ids ws b sk discovered now auto docs = (Inr diff, docs')"
  shows "visible ` set (listForBinding ws b sk docs') = set discovered \<and>
    filter (\<lambda>d. \<not> in_binding ws b sk d) docs' = filter (\<lambda>d. \<not> in_binding ws b sk d) docs \<and>
    set (df_removed diff) = cap_canonicalName ` {d \<in> set (listForBinding ws b sk docs).
      (cap_kind d, cap_name d) \<notin> key_of ` set discovered} \<and>
    (\<not> auto \<longrightarrow> (\<forall>d \<in> set (listForBinding ws b sk docs'). isCapabilityUsable d \<longrightarrow>
       (\<exists>e \<in> set docs. in_binding ws b sk e \<and> (cap_kind e, cap_name e) = (cap_kind d, cap_name d) \<and>
         cap_approval e = cap_approval d \<and> cap_definitionHash e = computeDefinitionHash sha256 (visible d))))"
proof -
  note exact = reconcile_exact [OF assms]
  have "\<exists>e \<in> set docs. in_binding ws b sk e \<and> (cap_kind e, cap_name e) = (cap_kind d, cap_name d) \<and>
      cap_approval e = cap_approval d \<and> cap_definitionHash e = computeDefinitionHash sha256 (visible d)"
    if "\<not> auto" "d \<in> set (listForBinding ws b sk docs')" "isCapabilityUsable d" for d
  proof -
    let ?before = "row_of ws b sk docs (cap_kind d, cap_name d)"
    have ann: "announced sha256 ws b sk now auto (visible d) ?before (Some d)" using exact(3) that(2) by blast
    from announced_row [OF ann] that(1,3) obtain e where "?before = Some e" "cap_definitionHash e = cap_definitionHash d"
      "cap_approval e = cap_approval d"
      by (cases ?before) (auto simp: upsert_approval_def isCapabilityUsable_def split: if_splits)
    with row_of_mem [of ws b sk docs "(cap_kind d, cap_name d)" e] announced_row(3) [OF ann] show ?thesis by auto
  qed
  with exact(1,2,4) show ?thesis by blast
qed

theorem discovery_exact_witness:
  "visible ` set (listForBinding ''w1'' ''b1'' ''workspace''
     (snd (reconcile (\<lambda>m. m) (\<lambda>n. replicate n (CHR ''x'')) ''w1'' ''b1'' ''workspace'' [sample_seen_tool] 5 False []))) = {sample_seen_tool}"
  using discovery_exact [of "[]" "[sample_seen_tool]" "\<lambda>n. replicate n (CHR ''x'')" "\<lambda>m. m" "''w1''" "''b1''" "''workspace''" 5 False]
  by (simp add: reconcile_def map_of_entries_def upsert_def inj_on_def Let_def)

text \<open>
  Two workspaces cannot both have a tool of one binding id. If some row of another workspace has the
  binding, scope, kind and name of an announced tool, the discovery of this workspace fails on the unique index
  and leaves it without the tool. The first-party bindings have the same ids in every workspace.
\<close>

theorem second_workspace_refused:
  assumes "d \<in> set docs" "cap_workspaceId d \<noteq> ws" "cap_index d = (b, sk, dc_kind cap, dc_name cap)"
    and "cap \<in> set discovered" "row_of ws b sk docs (key_of cap) = None"
  shows "\<exists>docs'. reconcile sha256 ids ws b sk discovered now auto docs = (Inl Duplicate_capability, docs') \<and>
    row_of ws b sk docs' (key_of cap) = None"
proof -
  let ?byName = "map_of_entries (map (\<lambda>d. (row_key (cap_kind d) (cap_name d), d)) (filter (in_binding ws b sk) docs))"
  let ?empty = "\<lparr>df_added = [], df_changed = [], df_unchanged = [], df_removed = []\<rparr>"
  obtain r docs' where "reconcile_seen sha256 ids ws b sk now auto 0 discovered ?byName ?empty docs = (r, docs')"
    by (cases "reconcile_seen sha256 ids ws b sk now auto 0 discovered ?byName ?empty docs")
  with reconcile_seen_refused [OF assms(1,3,2,5,4), of sha256 ids now auto 0 ?byName ?empty] show ?thesis
    by (simp add: reconcile_def Let_def)
qed

theorem second_workspace_refused_witness:
  "fst (reconcile (\<lambda>m. m) (\<lambda>n. ''cap_2'') ''w2'' ''b1'' ''workspace'' [sample_seen_tool] 5 True [sample_row]) = Inl Duplicate_capability"
  using second_workspace_refused [of sample_row "[sample_row]" "''w2''" "''b1''" "''workspace''" sample_seen_tool "[sample_seen_tool]"
      "\<lambda>m. m" "\<lambda>n. ''cap_2''" 5 True]
  by (auto simp: sample_row_def row_of_def in_binding_def)

end
