(* ===== verification/Mcp_Binding.thy ===== *)
theory Mcp_Binding
  imports Capability_Store Budget
begin

text \<open>
  Bindings of MCP servers: whose connection a call uses (\<^verbatim>\<open>packages/mcp/src/scope.ts\<close>), what a server may ask
  back (\<^verbatim>\<open>packages/mcp/src/mrtr.ts\<close>), which bindings may be used (\<^verbatim>\<open>packages/mcp/src/registry.ts\<close>) and where
  their records come from (\<^verbatim>\<open>apps/web/src/lib/binding-source.ts\<close>, \<^verbatim>\<open>apps/web/src/lib/first-party.ts\<close>), and the
  cache of discovery responses (\<^verbatim>\<open>packages/mcp/src/cache.ts\<close>).
\<close>

subsection \<open>Connection scopes\<close>

datatype connection_scope =
    Workspace_scope (sc_workspaceId: id) (sc_bindingId: id)
  | User_scope (sc_workspaceId: id) (sc_bindingId: id) (sc_userId: id)

fun scopeKeyString :: "connection_scope \<Rightarrow> string" where
  "scopeKeyString (User_scope ws b u) = ws @ ''|'' @ b @ ''|user:'' @ u"
| "scopeKeyString (Workspace_scope ws b) = ws @ ''|'' @ b @ ''|workspace''"

fun capabilityScopeKey :: "connection_scope \<Rightarrow> string" where
  "capabilityScopeKey (User_scope ws b u) = ''user:'' @ u"
| "capabilityScopeKey (Workspace_scope ws b) = ''workspace''"

datatype scope_error = No_user id

definition scopeFor :: "id \<Rightarrow> id \<Rightarrow> bool \<Rightarrow> id option \<Rightarrow> scope_error + connection_scope" where
  "scopeFor ws bindingId perUserAuth userId =
     (if \<not> perUserAuth then Inr (Workspace_scope ws bindingId)
      else (case userId of None \<Rightarrow> Inl (No_user bindingId) | Some u \<Rightarrow> Inr (User_scope ws bindingId u)))"

subsection \<open>Requests of a server\<close>

datatype input_request_kind = Human | Inference | Roots | Unknown_request

record classified_input_request =
  ir_key :: string
  ir_kind :: input_request_kind
  ir_method :: string
  ir_params :: jsv

text \<open>A member of an arbitrary value: \<^verbatim>\<open>undefined\<close> unless it is an object that has it.\<close>

fun member_of :: "jsv \<Rightarrow> string \<Rightarrow> jsv" where
  "member_of (JObj es) k = (case map_of es k of Some v \<Rightarrow> v | None \<Rightarrow> JUndefined)"
| "member_of _ k = JUndefined"

text \<open>\<^verbatim>\<open>String(v)\<close>; the elements of an array are joined by commas, with nothing for null.\<close>

fun js_string :: "jsv \<Rightarrow> string" where
  "js_string JUndefined = ''undefined''"
| "js_string JNull = ''null''"
| "js_string (JBool b) = (if b then ''true'' else ''false'')"
| "js_string (JNum n) = show_int n"
| "js_string (JStr s) = s"
| "js_string (JArr vs) = join_with '','' (map (\<lambda>v. case v of JUndefined \<Rightarrow> [] | JNull \<Rightarrow> [] | _ \<Rightarrow> js_string v) vs)"
| "js_string (JObj es) = ''[object Object]''"

definition or_default :: "jsv \<Rightarrow> jsv \<Rightarrow> jsv" where
  "or_default v d = (if v = JUndefined \<or> v = JNull then d else v)"

definition classifyInputRequest :: "string \<Rightarrow> jsv \<Rightarrow> classified_input_request" where
  "classifyInputRequest key request =
     (let method = js_string (or_default (member_of request ''method'') (JStr []))
      in \<lparr>ir_key = key,
          ir_kind = (if method = ''elicitation/create'' then Human
                     else if method = ''sampling/createMessage'' then Inference
                     else if method = ''roots/list'' then Roots else Unknown_request),
          ir_method = method, ir_params = member_of request ''params''\<rparr>)"

definition classifyInputRequests :: "(string \<times> jsv) list option \<Rightarrow> classified_input_request list" where
  "classifyInputRequests requests =
     map (\<lambda>(key, request). classifyInputRequest key request) (case requests of Some rs \<Rightarrow> rs | None \<Rightarrow> [])"

record mrtr_policy =
  mp_allowInference :: bool
  mp_allowHumanInput :: bool
  mp_maxRounds :: int

definition DEFAULT_MRTR_POLICY :: mrtr_policy where
  "DEFAULT_MRTR_POLICY = \<lparr>mp_allowInference = False, mp_allowHumanInput = True, mp_maxRounds = 4\<rparr>"

datatype mrtr_decision =
    Auto "classified_input_request list"
  | Needs_human "classified_input_request list"
  | Refuse string

fun refused_request :: "mrtr_policy \<Rightarrow> classified_input_request list \<Rightarrow> string option" where
  "refused_request policy [] = None"
| "refused_request policy (request # rest) =
     (if ir_kind request = Inference \<and> \<not> mp_allowInference policy then
        Some (''This server asked the host to run a model on its behalf. That is denied by default: '' @
          ''it would spend the workspace budget on prompts the server controls. An administrator '' @
          ''can enable it for this specific server.'')
      else if ir_kind request = Human \<and> \<not> mp_allowHumanInput policy then
        Some ''This server asked to interrupt a person, which is disabled for it.''
      else if ir_kind request = Roots then
        Some (''This server asked for filesystem roots. That capability is deprecated in the '' @
          ''protocol and is not exposed by this host.'')
      else if ir_kind request = Unknown_request then
        Some (''This server asked for '' @ [CHR 0x22] @ ir_method request @ [CHR 0x22] @
          '', which this host does not recognise. '' @
          ''Answering an unrecognised request would mean guessing what it consents to.'')
      else refused_request policy rest)"

definition decideMrtr :: "classified_input_request list \<Rightarrow> mrtr_policy \<Rightarrow> int \<Rightarrow> mrtr_decision" where
  "decideMrtr requests policy roundsSoFar =
     (if roundsSoFar \<ge> mp_maxRounds policy then
        Refuse (''This tool asked for input '' @ show_int roundsSoFar @ '' times, which exceeds the limit of '' @
          show_int (mp_maxRounds policy) @ ''. A server that keeps asking is either misbehaving or stuck.'')
      else if requests = [] then
        Refuse ''The server asked for input but named no requests, so there is nothing to answer.''
      else
        (case refused_request policy requests of
           Some reason \<Rightarrow> Refuse reason
         | None \<Rightarrow> (if list_ex (\<lambda>r. ir_kind r = Human) requests then Needs_human requests else Auto requests)))"

definition requestStateFingerprint :: "string option \<Rightarrow> string" where
  "requestStateFingerprint state =
     (case state of None \<Rightarrow> ''none'' | Some s \<Rightarrow> if s = [] then ''none'' else ''len:'' @ show_nat (length s))"

definition isInputRequired :: "jsv \<Rightarrow> bool" where
  "isInputRequired result = (member_of result ''resultType'' = JStr ''input_required'')"

subsection \<open>Bindings\<close>

datatype binding_status = Pending_auth | Connected | Error_state | Disabled

datatype transport_kind = In_process | Streamable_http | Stdio

record mrtr_override =
  mo_allowInference :: "bool option"
  mo_allowHumanInput :: "bool option"
  mo_maxRounds :: "int option"

record binding_record =
  bd_id :: id
  bd_mcpServerId :: id
  bd_alias :: string
  bd_enabled :: bool
  bd_status :: binding_status
  bd_perUserAuth :: bool
  bd_mrtr :: "mrtr_override option"
  bd_timeoutMs :: "int option"

record server_record =
  sv_id :: id
  sv_transport :: transport_kind
  sv_url :: "string option"
  sv_trustTier :: trust_tier

datatype unavailable_reason = Not_found | Is_disabled | Is_pending_auth | Errored | Unsupported_transport | No_url

datatype registry_error = Binding_unavailable id unavailable_reason | Scope_refused scope_error

fun MAY_REQUEST_INFERENCE :: "trust_tier \<Rightarrow> bool" where
  "MAY_REQUEST_INFERENCE First_party = True"
| "MAY_REQUEST_INFERENCE Verified = True"
| "MAY_REQUEST_INFERENCE Community = False"
| "MAY_REQUEST_INFERENCE Untrusted = False"

definition override :: "('o \<Rightarrow> 'a option) \<Rightarrow> 'o option \<Rightarrow> 'a \<Rightarrow> 'a" where
  "override field mrtr dflt = (case mrtr of None \<Rightarrow> dflt | Some o' \<Rightarrow> (case field o' of None \<Rightarrow> dflt | Some v \<Rightarrow> v))"

definition effectiveMrtrPolicy :: "binding_record \<Rightarrow> server_record \<Rightarrow> mrtr_policy" where
  "effectiveMrtrPolicy binding server =
     \<lparr>mp_allowInference = override mo_allowInference (bd_mrtr binding) (mp_allowInference DEFAULT_MRTR_POLICY) \<and>
        MAY_REQUEST_INFERENCE (sv_trustTier server),
      mp_allowHumanInput = override mo_allowHumanInput (bd_mrtr binding) (mp_allowHumanInput DEFAULT_MRTR_POLICY),
      mp_maxRounds = max 0 (min (override mo_maxRounds (bd_mrtr binding) (mp_maxRounds DEFAULT_MRTR_POLICY))
        (mp_maxRounds DEFAULT_MRTR_POLICY * 4))\<rparr>"

definition assertUsable :: "binding_record \<Rightarrow> server_record \<Rightarrow> registry_error + unit" where
  "assertUsable binding server =
     (if \<not> bd_enabled binding \<or> bd_status binding = Disabled then Inl (Binding_unavailable (bd_id binding) Is_disabled)
      else if bd_status binding = Pending_auth then Inl (Binding_unavailable (bd_id binding) Is_pending_auth)
      else if bd_status binding = Error_state then Inl (Binding_unavailable (bd_id binding) Errored)
      else if sv_transport server = In_process then Inr ()
      else if sv_transport server \<noteq> Streamable_http then Inl (Binding_unavailable (bd_id binding) Unsupported_transport)
      else if sv_url server = None \<or> sv_url server = Some [] then Inl (Binding_unavailable (bd_id binding) No_url)
      else Inr ())"

record server_definition =
  def_bindingId :: id
  def_serverId :: id
  def_alias :: string
  def_transport :: transport_kind
  def_url :: "string option"

record resolved_binding =
  rb_definition :: server_definition
  rb_scope :: connection_scope
  rb_mrtrPolicy :: mrtr_policy
  rb_timeoutMs :: int
  rb_trustTier :: trust_tier

type_synonym binding_loader = "id \<Rightarrow> (binding_record \<times> server_record) option"

definition registry_resolve ::
  "binding_loader \<Rightarrow> id \<Rightarrow> id \<Rightarrow> id option \<Rightarrow> registry_error + resolved_binding" where
  "registry_resolve load ws bindingId userId =
     (case load bindingId of
        None \<Rightarrow> Inl (Binding_unavailable bindingId Not_found)
      | Some (binding, server) \<Rightarrow>
          (case assertUsable binding server of
             Inl e \<Rightarrow> Inl e
           | Inr _ \<Rightarrow>
               (case scopeFor ws (bd_id binding) (bd_perUserAuth binding) userId of
                  Inl e \<Rightarrow> Inl (Scope_refused e)
                | Inr scope \<Rightarrow> Inr
                    \<lparr>rb_definition = \<lparr>def_bindingId = bd_id binding, def_serverId = sv_id server, def_alias = bd_alias binding,
                       def_transport = sv_transport server, def_url = sv_url server\<rparr>,
                     rb_scope = scope, rb_mrtrPolicy = effectiveMrtrPolicy binding server,
                     rb_timeoutMs = min (case bd_timeoutMs binding of Some t \<Rightarrow> t | None \<Rightarrow> DEFAULT_TOOL_TIMEOUT_MS)
                       MAX_TOOL_TIMEOUT_MS,
                     rb_trustTier = sv_trustTier server\<rparr>)))"

text \<open>\<^verbatim>\<open>listUsable\<close>: an unavailable binding is skipped, a missing user is an error.\<close>

fun listUsable ::
  "binding_loader \<Rightarrow> id \<Rightarrow> id option \<Rightarrow> id list \<Rightarrow> registry_error + resolved_binding list" where
  "listUsable load ws userId [] = Inr []"
| "listUsable load ws userId (b # bs) =
     (case registry_resolve load ws b userId of
        Inl (Scope_refused e) \<Rightarrow> Inl (Scope_refused e)
      | Inl (Binding_unavailable i why) \<Rightarrow> listUsable load ws userId bs
      | Inr r \<Rightarrow> map_sum id (\<lambda>rs. r # rs) (listUsable load ws userId bs))"

subsection \<open>Binding records\<close>

record binding_doc =
  bo_id :: id
  bo_workspaceId :: id
  bo_agentId :: "id option"
  bo_mcpServerId :: id
  bo_alias :: string
  bo_enabled :: bool
  bo_status :: binding_status
  bo_perUserAuth :: bool

definition first_party_binding :: "id \<Rightarrow> id \<Rightarrow> string \<Rightarrow> binding_record \<times> server_record" where
  "first_party_binding bindingId serverId alias =
     (\<lparr>bd_id = bindingId, bd_mcpServerId = serverId, bd_alias = alias, bd_enabled = True, bd_status = Connected,
       bd_perUserAuth = False, bd_mrtr = None, bd_timeoutMs = None\<rparr>,
      \<lparr>sv_id = serverId, sv_transport = In_process, sv_url = None, sv_trustTier = First_party\<rparr>)"

definition firstPartyBindings :: "(binding_record \<times> server_record) list" where
  "firstPartyBindings =
     [first_party_binding ''mcb_first_party_memory'' ''mcs_first_party_memory'' ''memory'',
      first_party_binding ''mcb_first_party_conversation'' ''mcs_first_party_conversation'' ''chat'',
      first_party_binding ''mcb_first_party_knowledge'' ''mcs_first_party_knowledge'' ''knowledge'',
      first_party_binding ''mcb_first_party_web'' ''mcs_first_party_web'' ''web'',
      first_party_binding ''mcb_first_party_studio'' ''mcs_first_party_studio'' ''studio'']"

definition isFirstParty :: "id \<Rightarrow> bool" where
  "isFirstParty bindingId \<longleftrightarrow> bindingId \<in> set (map (bd_id \<circ> fst) firstPartyBindings)"

definition toBindingRecord :: "binding_doc \<Rightarrow> binding_record" where
  "toBindingRecord doc =
     \<lparr>bd_id = bo_id doc, bd_mcpServerId = bo_mcpServerId doc, bd_alias = bo_alias doc, bd_enabled = bo_enabled doc,
      bd_status = bo_status doc, bd_perUserAuth = bo_perUserAuth doc, bd_mrtr = None, bd_timeoutMs = None\<rparr>"

text \<open>The servers are the rows the workspace may see (\<^verbatim>\<open>mcpServerById\<close>), by their id.\<close>

definition binding_load :: "id \<Rightarrow> (id \<Rightarrow> server_record option) \<Rightarrow> binding_doc list \<Rightarrow> binding_loader" where
  "binding_load ws serverById docs bindingId =
     (case List.find (\<lambda>(b, s). bd_id b = bindingId) firstPartyBindings of
        Some firstParty \<Rightarrow> Some firstParty
      | None \<Rightarrow>
          (case List.find (\<lambda>d. bo_workspaceId d = ws \<and> bo_id d = bindingId) docs of
             None \<Rightarrow> None
           | Some doc \<Rightarrow> map_option (\<lambda>server. (toBindingRecord doc, server)) (serverById (bo_mcpServerId doc))))"

definition ownedBy :: "id option \<Rightarrow> binding_doc \<Rightarrow> bool" where
  "ownedBy agentId doc \<longleftrightarrow> bo_enabled doc \<and>
     (case agentId of None \<Rightarrow> True | Some a \<Rightarrow> bo_agentId doc = Some a \<or> bo_agentId doc = None)"

definition listEnabled ::
  "id \<Rightarrow> id option \<Rightarrow> (id \<Rightarrow> server_record option) \<Rightarrow> binding_doc list \<Rightarrow> (binding_record \<times> server_record) list" where
  "listEnabled ws agentId serverById docs =
     firstPartyBindings @
     List.map_filter (\<lambda>doc. map_option (\<lambda>server. (toBindingRecord doc, server)) (serverById (bo_mcpServerId doc)))
       (filter (\<lambda>d. bo_workspaceId d = ws \<and> ownedBy agentId d) docs)"

subsection \<open>Cached responses\<close>

datatype cache_scope = Public | Private | Unknown_scope

definition parseCacheScope :: "jsv \<Rightarrow> cache_scope" where
  "parseCacheScope raw = (if raw = JStr ''public'' then Public else if raw = JStr ''private'' then Private else Unknown_scope)"

definition isShareableAcrossUsers :: "cache_scope \<Rightarrow> bool" where
  "isShareableAcrossUsers scope \<longleftrightarrow> scope = Public"

definition cacheKeyFor :: "connection_scope \<Rightarrow> string \<Rightarrow> cache_scope \<Rightarrow> string" where
  "cacheKeyFor scope method cacheScope =
     (if isShareableAcrossUsers cacheScope then sc_workspaceId scope @ ''|'' @ sc_bindingId scope @ ''|workspace''
      else scopeKeyString scope) @ ''|'' @ method"

definition MAX_TTL_MS :: int where
  "MAX_TTL_MS = 600000"

definition clampTtl :: "jsv \<Rightarrow> int" where
  "clampTtl ttlMs = (case ttlMs of JNum n \<Rightarrow> if n \<le> 0 then 0 else min n MAX_TTL_MS | _ \<Rightarrow> 0)"

record cache_entry =
  ce_value :: jsv
  ce_expiresAt :: time
  ce_cacheScope :: cache_scope

type_synonym response_cache = "(string \<times> cache_entry) list"

definition cache_try :: "time \<Rightarrow> string \<Rightarrow> response_cache \<Rightarrow> jsv option \<times> response_cache" where
  "cache_try now key cache =
     (case map_of cache key of
        None \<Rightarrow> (None, cache)
      | Some entry \<Rightarrow> (if ce_expiresAt entry \<le> now then (None, filter (\<lambda>(k, e). k \<noteq> key) cache)
                      else (Some (ce_value entry), cache)))"

definition cache_get :: "time \<Rightarrow> connection_scope \<Rightarrow> string \<Rightarrow> response_cache \<Rightarrow> jsv option \<times> response_cache" where
  "cache_get now scope method cache =
     (case cache_try now (cacheKeyFor scope method Public) cache of
        (Some v, cache') \<Rightarrow> (Some v, cache')
      | (None, cache') \<Rightarrow> cache_try now (cacheKeyFor scope method Private) cache')"

definition cache_set ::
  "nat \<Rightarrow> time \<Rightarrow> connection_scope \<Rightarrow> string \<Rightarrow> jsv \<Rightarrow> jsv \<Rightarrow> jsv \<Rightarrow> response_cache \<Rightarrow> response_cache" where
  "cache_set maxEntries now scope method value ttlMs rawCacheScope cache =
     (let ttl = clampTtl ttlMs; cacheScope = parseCacheScope rawCacheScope
      in if ttl = 0 then cache
         else map_set (cacheKeyFor scope method cacheScope)
                \<lparr>ce_value = value, ce_expiresAt = now + ttl, ce_cacheScope = cacheScope\<rparr>
                (if maxEntries \<le> length cache then tl cache else cache))"

definition invalidateBinding :: "id \<Rightarrow> id \<Rightarrow> response_cache \<Rightarrow> nat \<times> response_cache" where
  "invalidateBinding ws bindingId cache =
     (let prefix = ws @ ''|'' @ bindingId @ ''|''
      in (length (filter (\<lambda>(k, e). starts_with k prefix) cache), filter (\<lambda>(k, e). \<not> starts_with k prefix) cache))"

datatype cache_op =
    Cache_get connection_scope string
  | Cache_set connection_scope string jsv jsv jsv
  | Cache_invalidate id id
  | Cache_clear

fun cache_apply :: "nat \<Rightarrow> time \<Rightarrow> cache_op \<Rightarrow> response_cache \<Rightarrow> response_cache" where
  "cache_apply maxEntries now (Cache_get scope method) cache = snd (cache_get now scope method cache)"
| "cache_apply maxEntries now (Cache_set scope method value ttl raw) cache = cache_set maxEntries now scope method value ttl raw cache"
| "cache_apply maxEntries now (Cache_invalidate ws b) cache = snd (invalidateBinding ws b cache)"
| "cache_apply maxEntries now Cache_clear cache = []"

definition cache_run :: "nat \<Rightarrow> (time \<times> cache_op) list \<Rightarrow> response_cache" where
  "cache_run maxEntries ops = foldl (\<lambda>cache (now, op). cache_apply maxEntries now op cache) [] ops"

subsection \<open>Lemmas\<close>

lemma decideMrtr_Auto:
  assumes "decideMrtr requests policy rounds = Auto rs"
  shows "rs = requests \<and> requests \<noteq> [] \<and> rounds < mp_maxRounds policy \<and> mp_allowInference policy \<and>
    (\<forall>r \<in> set requests. ir_kind r = Inference)"
proof -
  have "refused_request policy qs = None \<Longrightarrow> r \<in> set qs \<Longrightarrow>
      (ir_kind r = Inference \<and> mp_allowInference policy) \<or> (ir_kind r = Human \<and> mp_allowHumanInput policy)" for qs r
    by (induction qs) (cases "ir_kind r"; auto split: if_splits)+
  moreover from assms have "refused_request policy requests = None" "\<forall>r \<in> set requests. ir_kind r \<noteq> Human"
    "rs = requests" "requests \<noteq> []" "rounds < mp_maxRounds policy"
    by (auto simp: decideMrtr_def list_ex_iff split: if_splits option.splits)
  ultimately show ?thesis by (metis list.set_sel(1))
qed

lemma registry_resolve_Inr:
  assumes "registry_resolve load ws b userId = Inr r"
  obtains binding server scope where "load b = Some (binding, server)" "assertUsable binding server = Inr ()"
    "scopeFor ws (bd_id binding) (bd_perUserAuth binding) userId = Inr scope" "rb_scope r = scope"
    "rb_mrtrPolicy r = effectiveMrtrPolicy binding server" "rb_trustTier r = sv_trustTier server"
    "rb_timeoutMs r \<le> MAX_TOOL_TIMEOUT_MS" "def_bindingId (rb_definition r) = bd_id binding"
  using assms by (auto simp: registry_resolve_def split: option.splits sum.splits prod.splits)

text \<open>Where an entry of the cache comes from.\<close>

definition cached_by :: "(time \<times> cache_op) list \<Rightarrow> string \<Rightarrow> cache_entry \<Rightarrow> bool" where
  "cached_by ops key entry \<longleftrightarrow> (\<exists>t scope method ttl raw.
     (t, Cache_set scope method (ce_value entry) ttl raw) \<in> set ops \<and> key = cacheKeyFor scope method (parseCacheScope raw) \<and>
     t < ce_expiresAt entry \<and> ce_expiresAt entry \<le> t + MAX_TTL_MS)"

lemma map_set_mem: "(k', v') \<in> set (map_set k v m) \<Longrightarrow> (k', v') = (k, v) \<or> (k', v') \<in> set m"
  by (auto simp: map_set_def split: if_splits)

lemma cache_apply_mem:
  assumes "(key, entry) \<in> set (cache_apply maxEntries now op cache)"
  shows "(key, entry) \<in> set cache \<or> cached_by [(now, op)] key entry"
proof (cases op)
  case (Cache_get scope meth)
  then show ?thesis
    using assms by (auto simp: cache_get_def cache_try_def split: option.splits if_splits prod.splits)
next
  case (Cache_set scope meth v ttl raw)
  show ?thesis
  proof (cases "clampTtl ttl = 0")
    case True
    with assms Cache_set show ?thesis by (simp add: cache_set_def)
  next
    case False
    have ttl: "0 < clampTtl ttl" "clampTtl ttl \<le> MAX_TTL_MS"
      using False by (auto simp: clampTtl_def MAX_TTL_MS_def split: jsv.splits if_splits)
    from assms Cache_set False have "(key, entry) = (cacheKeyFor scope meth (parseCacheScope raw),
          \<lparr>ce_value = v, ce_expiresAt = now + clampTtl ttl, ce_cacheScope = parseCacheScope raw\<rparr>) \<or>
        (key, entry) \<in> set (if maxEntries \<le> length cache then tl cache else cache)"
      by (auto simp: cache_set_def Let_def dest: map_set_mem)
    then show ?thesis
    proof
      assume "(key, entry) = (cacheKeyFor scope meth (parseCacheScope raw),
          \<lparr>ce_value = v, ce_expiresAt = now + clampTtl ttl, ce_cacheScope = parseCacheScope raw\<rparr>)"
      with ttl Cache_set have "cached_by [(now, op)] key entry" by (auto simp: cached_by_def)
      then show ?thesis ..
    qed (cases cache; auto split: if_splits)
  qed
next
  case (Cache_invalidate ws b)
  then show ?thesis using assms by (auto simp: invalidateBinding_def Let_def)
qed (use assms in simp)

lemma cached_by_mono: "cached_by ops key entry \<Longrightarrow> set ops \<subseteq> set ops' \<Longrightarrow> cached_by ops' key entry"
  unfolding cached_by_def by blast

lemma cache_run_mem:
  assumes "(key, entry) \<in> set (cache_run maxEntries ops)"
  shows "cached_by ops key entry"
  using assms
proof (induction ops rule: rev_induct)
  case Nil
  then show ?case by (simp add: cache_run_def)
next
  case (snoc x ops)
  obtain now op where x: "x = (now, op)" by (cases x)
  from snoc.prems have "(key, entry) \<in> set (cache_apply maxEntries now op (cache_run maxEntries ops))"
    by (simp add: cache_run_def x)
  from cache_apply_mem [OF this] snoc.IH show ?case
    by (auto simp: x elim!: cached_by_mono)
qed

text \<open>Keys of scopes and methods without the separator determine them.\<close>

definition plain_scope :: "connection_scope \<Rightarrow> bool" where
  "plain_scope s \<longleftrightarrow> CHR ''|'' \<notin> set (sc_workspaceId s) \<and> CHR ''|'' \<notin> set (sc_bindingId s) \<and>
     (case s of User_scope ws b u \<Rightarrow> CHR ''|'' \<notin> set u | _ \<Rightarrow> True)"

lemma split_at_bar:
  assumes "a @ CHR ''|'' # b = c @ CHR ''|'' # d" "CHR ''|'' \<notin> set a" "CHR ''|'' \<notin> set c"
  shows "a = c \<and> b = d"
  using assms by (auto simp: append_eq_append_conv2 append_eq_Cons_conv Cons_eq_append_conv)

definition scope_tag :: "connection_scope \<Rightarrow> cache_scope \<Rightarrow> string" where
  "scope_tag s c = (if c = Public then ''workspace'' else (case s of User_scope ws b u \<Rightarrow> ''user:'' @ u | _ \<Rightarrow> ''workspace''))"

lemma cacheKeyFor_parts:
  "cacheKeyFor s m c = sc_workspaceId s @ CHR ''|'' # (sc_bindingId s @ CHR ''|'' # (scope_tag s c @ CHR ''|'' # m))"
  by (cases s) (auto simp: cacheKeyFor_def isShareableAcrossUsers_def scope_tag_def)

lemma scope_tag_plain: "plain_scope s \<Longrightarrow> CHR ''|'' \<notin> set (scope_tag s c)"
  by (cases s) (auto simp: plain_scope_def scope_tag_def)

lemma cacheKeyFor_inject:
  assumes "cacheKeyFor s m c = cacheKeyFor s' m' c'" "plain_scope s" "plain_scope s'"
  shows "sc_workspaceId s = sc_workspaceId s' \<and> sc_bindingId s = sc_bindingId s' \<and> scope_tag s c = scope_tag s' c' \<and> m = m'"
proof -
  from assms(1) have e: "sc_workspaceId s @ CHR ''|'' # (sc_bindingId s @ CHR ''|'' # (scope_tag s c @ CHR ''|'' # m)) =
      sc_workspaceId s' @ CHR ''|'' # (sc_bindingId s' @ CHR ''|'' # (scope_tag s' c' @ CHR ''|'' # m'))"
    by (simp only: cacheKeyFor_parts)
  have 1: "sc_workspaceId s = sc_workspaceId s' \<and> sc_bindingId s @ CHR ''|'' # (scope_tag s c @ CHR ''|'' # m) =
      sc_bindingId s' @ CHR ''|'' # (scope_tag s' c' @ CHR ''|'' # m')"
    by (rule split_at_bar [OF e]) (use assms(2,3) in \<open>auto simp: plain_scope_def\<close>)
  have 2: "sc_bindingId s = sc_bindingId s' \<and> scope_tag s c @ CHR ''|'' # m = scope_tag s' c' @ CHR ''|'' # m'"
    by (rule split_at_bar [OF conjunct2 [OF 1]]) (use assms(2,3) in \<open>auto simp: plain_scope_def\<close>)
  have "scope_tag s c = scope_tag s' c' \<and> m = m'"
    by (rule split_at_bar [OF conjunct2 [OF 2]]) (use assms(2,3) in \<open>auto simp: scope_tag_plain\<close>)
  with 1 2 show ?thesis by simp
qed

lemma scope_tag_owner:
  assumes "sc_workspaceId s = sc_workspaceId s'" "sc_bindingId s = sc_bindingId s'" "scope_tag s c = scope_tag s' c'" "c' \<noteq> Public"
  shows "s = s' \<or> (\<exists>ws b. s' = Workspace_scope ws b)"
  using assms by (cases s; cases s') (auto simp: scope_tag_def split: if_splits)

subsection \<open>Properties\<close>

text \<open>
  A cached response never crosses a tenant or a person. Whatever gets, sets and invalidations came before:
  a response read from the cache for a scope and a method was stored for the same workspace, binding and method
  less than ten minutes before it expires, has not expired, and it was stored for this very scope unless the
  server called it public or it was fetched for the workspace as a whole.
\<close>

theorem cache_isolation:
  assumes "fst (cache_get now scope method (cache_run maxEntries ops)) = Some v"
    and "plain_scope scope" "\<forall>(t, op) \<in> set ops. case op of Cache_set s m w ttl raw \<Rightarrow> plain_scope s | _ \<Rightarrow> True"
  shows "\<exists>t scope' ttl raw. (t, Cache_set scope' method v ttl raw) \<in> set ops \<and>
    sc_workspaceId scope' = sc_workspaceId scope \<and> sc_bindingId scope' = sc_bindingId scope \<and> now < t + MAX_TTL_MS \<and>
    (parseCacheScope raw = Public \<or> scope' = scope \<or> (\<exists>ws b. scope' = Workspace_scope ws b))"
proof -
  let ?cache = "cache_run maxEntries ops"
  have hit: "\<exists>entry. (key, entry) \<in> set cache \<and> ce_value entry = v \<and> now < ce_expiresAt entry"
    if "cache_try now key cache = (Some v, cache')" for key cache cache'
    using that by (auto simp: cache_try_def split: option.splits if_splits dest: map_of_SomeD)
  have miss: "set cache' \<subseteq> set cache" if "cache_try now key cache = (None, cache')" for key cache cache'
    using that by (auto simp: cache_try_def split: option.splits if_splits)
  obtain c entry where e: "(cacheKeyFor scope method c, entry) \<in> set ?cache" "ce_value entry = v" "now < ce_expiresAt entry"
  proof (cases "cache_try now (cacheKeyFor scope method Public) ?cache")
    case (Pair r cache1)
    show ?thesis
    proof (cases r)
      case None
      with assms(1) Pair have "cache_try now (cacheKeyFor scope method Private) cache1 =
          (Some v, snd (cache_try now (cacheKeyFor scope method Private) cache1))"
        by (simp add: cache_get_def prod_eq_iff)
      from hit [OF this] miss [of _ ?cache cache1] Pair None that show ?thesis by blast
    next
      case (Some w)
      with assms(1) Pair have "w = v" by (simp add: cache_get_def)
      with hit [of _ ?cache cache1] Pair Some that show ?thesis by blast
    qed
  qed
  from cache_run_mem [OF e(1)] e(2) obtain t scope' method' ttl raw where
    set: "(t, Cache_set scope' method' v ttl raw) \<in> set ops" and
    key: "cacheKeyFor scope method c = cacheKeyFor scope' method' (parseCacheScope raw)" and
    exp: "ce_expiresAt entry \<le> t + MAX_TTL_MS"
    unfolding cached_by_def by blast
  from set assms(3) have "plain_scope scope'" by fastforce
  from cacheKeyFor_inject [OF key assms(2) this] scope_tag_owner [of scope scope' c "parseCacheScope raw"] set e(3) exp
  show ?thesis by (intro exI [of _ t] exI [of _ scope'] exI [of _ ttl] exI [of _ raw]) auto
qed

theorem cache_isolation_witness:
  "\<exists>t scope' ttl raw. (t, Cache_set scope' ''tools/list'' (JNum 1) ttl raw) \<in>
     set [(0, Cache_set (User_scope ''w1'' ''b1'' ''u1'') ''tools/list'' (JNum 1) (JNum 5000) (JStr ''private''))] \<and>
     sc_workspaceId scope' = ''w1''"
  using cache_isolation [of 10 "User_scope ''w1'' ''b1'' ''u1''" "''tools/list''" 1000
      "[(0, Cache_set (User_scope ''w1'' ''b1'' ''u1'') ''tools/list'' (JNum 1) (JNum 5000) (JStr ''private''))]" "JNum 1"]
  by (simp add: cache_run_def cache_set_def cache_get_def cache_try_def cacheKeyFor_def isShareableAcrossUsers_def
      parseCacheScope_def clampTtl_def MAX_TTL_MS_def map_set_def plain_scope_def)

text \<open>
  What resolving a binding can give. A resolved binding is enabled, authorised and healthy; it is ours or
  reached over HTTP; its connection is the asking person's own whenever it wants per-user authorisation; it may
  have the host run a model only if its tier is first-party or verified and it was opted in; and its rounds and
  its timeout are bounded.
\<close>

theorem resolved_binding_bounds:
  assumes "registry_resolve load ws bindingId userId = Inr r"
  shows "\<exists>binding server. load bindingId = Some (binding, server) \<and>
    bd_enabled binding \<and> bd_status binding = Connected \<and>
    (sv_transport server = In_process \<or> sv_transport server = Streamable_http) \<and>
    sc_workspaceId (rb_scope r) = ws \<and>
    (bd_perUserAuth binding \<longrightarrow> (\<exists>u. userId = Some u \<and> rb_scope r = User_scope ws (bd_id binding) u)) \<and>
    (mp_allowInference (rb_mrtrPolicy r) \<longrightarrow> sv_trustTier server \<in> {First_party, Verified} \<and>
       (\<exists>o'. bd_mrtr binding = Some o' \<and> mo_allowInference o' = Some True)) \<and>
    0 \<le> mp_maxRounds (rb_mrtrPolicy r) \<and> mp_maxRounds (rb_mrtrPolicy r) \<le> 16 \<and>
    rb_timeoutMs r \<le> MAX_TOOL_TIMEOUT_MS"
  using assms
proof (rule registry_resolve_Inr)
  fix binding server scope
  assume *: "load bindingId = Some (binding, server)" "assertUsable binding server = Inr ()"
    "scopeFor ws (bd_id binding) (bd_perUserAuth binding) userId = Inr scope" "rb_scope r = scope"
    "rb_mrtrPolicy r = effectiveMrtrPolicy binding server" "rb_trustTier r = sv_trustTier server"
    "rb_timeoutMs r \<le> MAX_TOOL_TIMEOUT_MS" "def_bindingId (rb_definition r) = bd_id binding"
  have "bd_enabled binding" "bd_status binding = Connected" "sv_transport server = In_process \<or> sv_transport server = Streamable_http"
    using *(2) by (cases "bd_status binding"; auto simp: assertUsable_def split: if_splits)+
  moreover have "sc_workspaceId scope = ws" "bd_perUserAuth binding \<longrightarrow> (\<exists>u. userId = Some u \<and> scope = User_scope ws (bd_id binding) u)"
    using *(3) by (auto simp: scopeFor_def split: if_splits option.splits)
  moreover have "mp_allowInference (effectiveMrtrPolicy binding server) \<longrightarrow> sv_trustTier server \<in> {First_party, Verified} \<and>
      (\<exists>o'. bd_mrtr binding = Some o' \<and> mo_allowInference o' = Some True)"
    by (cases "sv_trustTier server")
      (auto simp: effectiveMrtrPolicy_def override_def DEFAULT_MRTR_POLICY_def split: option.splits)
  moreover have "0 \<le> mp_maxRounds (effectiveMrtrPolicy binding server)" "mp_maxRounds (effectiveMrtrPolicy binding server) \<le> 16"
    by (simp_all add: effectiveMrtrPolicy_def DEFAULT_MRTR_POLICY_def)
  ultimately show ?thesis using *(1,4,5,7) by auto
qed

theorem resolved_binding_bounds_witness:
  "\<exists>binding server. binding_load ''w1'' (\<lambda>_. None) [] ''mcb_first_party_web'' = Some (binding, server) \<and> bd_enabled binding"
  using resolved_binding_bounds [of "binding_load ''w1'' (\<lambda>_. None) []" "''w1''" "''mcb_first_party_web''" None
      "projr (registry_resolve (binding_load ''w1'' (\<lambda>_. None) []) ''w1'' ''mcb_first_party_web'' None)"]
  by (auto simp: registry_resolve_def binding_load_def firstPartyBindings_def first_party_binding_def assertUsable_def
      scopeFor_def)

end
