(* ===== verification/Broker.thy ===== *)
theory Broker
  imports Mcp_Binding Permission Principal Run_Store
begin

text \<open>
  The data-loading half of the permission broker (\<^verbatim>\<open>packages/db/src/services/permission-broker.ts\<close>) and the
  policy documents it reads (\<^verbatim>\<open>packages/db/src/repositories/policies.ts\<close>).

  The host's collections besides the runs are one record, with everything outside the host (servers,
  connections) as its last field.
\<close>

record audit_entry =
  ae_actor :: "string \<times> id option"
  ae_action :: string
  ae_subject :: string
  ae_runId :: id
  ae_metadata :: "(string \<times> jsv) list"

record 'y host =
  ho_capabilities :: capabilities
  ho_policies :: "(id \<times> policy_document) list"
  ho_bindings :: "binding_doc list"
  ho_servers :: "(id option \<times> server_record) list"
  ho_defaults :: "(id \<times> perm_effect) list"
  ho_audit :: "audit_entry list"
  ho_outside :: 'y

subsection \<open>Policies\<close>

type_synonym scope_ref = "scope_type \<times> id option"

definition in_scope :: "id \<Rightarrow> scope_ref \<Rightarrow> id \<times> policy_document \<Rightarrow> bool" where
  "in_scope ws scope row \<longleftrightarrow> fst row = ws \<and> pd_scopeType (snd row) = fst scope \<and> pd_scopeId (snd row) = snd scope"

definition loadForDecision :: "id \<Rightarrow> scope_ref list \<Rightarrow> (id \<times> policy_document) list \<Rightarrow> policy_document list" where
  "loadForDecision ws scopes rows =
     (if scopes = [] then [] else map snd (filter (\<lambda>row. list_ex (\<lambda>scope. in_scope ws scope row) scopes) rows))"

definition policy_get :: "id \<Rightarrow> scope_ref \<Rightarrow> (id \<times> policy_document) list \<Rightarrow> policy_document option" where
  "policy_get ws scope rows = map_option snd (List.find (in_scope ws scope) rows)"

fun scope_type_name :: "scope_type \<Rightarrow> string" where
  "scope_type_name S_workspace = ''workspace''"
| "scope_type_name S_agent = ''agent''"
| "scope_type_name S_member = ''member''"
| "scope_type_name S_apiKey = ''apiKey''"
| "scope_type_name S_channel = ''channel''"

datatype policy_error = Duplicate_policy id

definition policy_doc_id :: "scope_ref \<Rightarrow> id" where
  "policy_doc_id scope = ''pol_'' @ scope_type_name (fst scope) @ ''_'' @ (case snd scope of Some i \<Rightarrow> i | None \<Rightarrow> ''all'')"

text \<open>An upsert: the new document's id has to be free in the whole collection.\<close>

definition setRules ::
  "id \<Rightarrow> scope_ref \<Rightarrow> policy_rule list \<Rightarrow> (id \<times> policy_document) list \<Rightarrow> policy_error + (id \<times> policy_document) list" where
  "setRules ws scope rules rows =
     (if list_ex (in_scope ws scope) rows then
        Inr (update_first (in_scope ws scope) (\<lambda>(w, doc). (w, doc\<lparr>pd_rules := rules\<rparr>)) rows)
      else if policy_doc_id scope \<in> set (map (pd_id \<circ> snd) rows) then Inl (Duplicate_policy (policy_doc_id scope))
      else Inr (rows @ [(ws, \<lparr>pd_id = policy_doc_id scope, pd_scopeType = fst scope, pd_scopeId = snd scope, pd_rules = rules\<rparr>)]))"

subsection \<open>The broker\<close>

record broker_input =
  bi_principal :: principal
  bi_agentId :: "id option"
  bi_bindingId :: id
  bi_scopeKey :: string
  bi_capabilityName :: string
  bi_args :: jsv
  bi_callsThisRun :: int

definition principal_scope :: "principal \<Rightarrow> scope_ref option" where
  "principal_scope p =
     (case (case p of Agent a r w onBehalfOf \<Rightarrow> onBehalfOf | _ \<Rightarrow> p) of
        User u w r \<Rightarrow> Some (S_member, Some u)
      | Api_key k w scopes \<Rightarrow> Some (S_apiKey, Some k)
      | Channel_identity i w u trust \<Rightarrow> Some (S_channel, Some i)
      | _ \<Rightarrow> None)"

definition scopesFor :: "broker_input \<Rightarrow> scope_ref list" where
  "scopesFor inp =
     (S_workspace, None) #
     (case bi_agentId inp of Some a \<Rightarrow> [(S_agent, Some a)] | None \<Rightarrow> []) @
     (case principal_scope (bi_principal inp) of Some s \<Rightarrow> [s] | None \<Rightarrow> [])"

text \<open>The tier of a binding: what the host says of its own, what the server's row says, untrusted otherwise.\<close>

definition trustTierOf :: "id \<Rightarrow> (id \<Rightarrow> trust_tier option) \<Rightarrow> id \<Rightarrow> ('y, 'e) host_scheme \<Rightarrow> trust_tier" where
  "trustTierOf ws known bindingId h =
     (case known bindingId of
        Some tier \<Rightarrow> tier
      | None \<Rightarrow>
          (case List.find (\<lambda>d. bo_workspaceId d = ws \<and> bo_id d = bindingId) (ho_bindings h) of
             None \<Rightarrow> Untrusted
           | Some binding \<Rightarrow>
               (case List.find (\<lambda>(w, s). sv_id s = bo_mcpServerId binding) (ho_servers h) of
                  None \<Rightarrow> Untrusted
                | Some (w, server) \<Rightarrow> sv_trustTier server)))"

definition defaultEffect :: "id \<Rightarrow> ('y, 'e) host_scheme \<Rightarrow> perm_effect" where
  "defaultEffect ws h = (case map_of (ho_defaults h) ws of Some e \<Rightarrow> e | None \<Rightarrow> Ask)"

definition broker_row :: "id \<Rightarrow> broker_input \<Rightarrow> ('y, 'e) host_scheme \<Rightarrow> mcp_capability option" where
  "broker_row ws inp h =
     List.find (\<lambda>d. in_binding ws (bi_bindingId inp) (bi_scopeKey inp) d \<and> cap_name d = bi_capabilityName inp)
       (ho_capabilities h)"

definition broker_question :: "id \<Rightarrow> (id \<Rightarrow> trust_tier option) \<Rightarrow> time \<Rightarrow> broker_input \<Rightarrow> mcp_capability \<Rightarrow> ('y, 'e) host_scheme \<Rightarrow>
    permission_input" where
  "broker_question ws known now inp cap h =
     \<lparr>pi_capability = cap, pi_bindingId = cap_bindingId cap, pi_trustTier = trustTierOf ws known (bi_bindingId inp) h,
      pi_args = bi_args inp, pi_policies = loadForDecision ws (scopesFor inp) (ho_policies h), pi_now = now,
      pi_defaultEffect = defaultEffect ws h, pi_callsThisRun = bi_callsThisRun inp\<rparr>"

definition broker_decide ::
  "id \<Rightarrow> (id \<Rightarrow> trust_tier option) \<Rightarrow> time \<Rightarrow> broker_input \<Rightarrow> ('y, 'e) host_scheme \<Rightarrow> permission_decision" where
  "broker_decide ws known now inp h =
     (case broker_row ws inp h of
        None \<Rightarrow> \<lparr>d_effect = Deny, d_matchedRuleId = None, d_reason = ''unknown_capability'', d_tightenedByFloor = False\<rparr>
      | Some cap \<Rightarrow> decidePermission (broker_question ws known now inp cap h))"

subsection \<open>Lemmas\<close>

lemma loadForDecision_iff:
  "doc \<in> set (loadForDecision ws scopes rows) \<longleftrightarrow>
   (\<exists>scope \<in> set scopes. (ws, doc) \<in> set rows \<and> pd_scopeType doc = fst scope \<and> pd_scopeId doc = snd scope)"
  by (auto simp: loadForDecision_def in_scope_def list_ex_iff image_iff)

lemma setRules_get:
  assumes "setRules ws scope rules rows = Inr rows'"
  shows "map_option pd_rules (policy_get ws scope rows') = Some rules"
proof (cases "list_ex (in_scope ws scope) rows")
  case True
  have "map_option (pd_rules \<circ> snd) (List.find (in_scope ws scope)
      (update_first (in_scope ws scope) (\<lambda>(w, doc). (w, doc\<lparr>pd_rules := rules\<rparr>)) rows)) = Some rules"
    using True by (induction rows) (auto simp: in_scope_def split: prod.splits)
  with True assms show ?thesis by (auto simp: setRules_def policy_get_def option.map_comp)
next
  case False
  then have none: "List.find (in_scope ws scope) rows = None" by (auto simp: find_None_all list_ex_iff)
  have snoc: "List.find (in_scope ws scope) (rows @ [(ws, doc)]) = Some (ws, doc)" if "in_scope ws scope (ws, doc)" for doc
    using that none by (induction rows) (auto split: if_splits)
  from False assms show ?thesis by (auto simp: setRules_def policy_get_def in_scope_def snoc split: if_splits)
qed

text \<open>
  The rules of a whole workspace are stored under an id that names no workspace. Once one workspace has them,
  every other is refused its own.
\<close>

theorem second_policy_refused:
  assumes "setRules w1 (S_workspace, None) rules1 [] = Inr rows" "w2 \<noteq> w1"
  shows "setRules w2 (S_workspace, None) rules2 rows = Inl (Duplicate_policy ''pol_workspace_all'')"
  using assms by (auto simp: setRules_def policy_doc_id_def in_scope_def)

theorem second_policy_refused_witness:
  "setRules ''w2'' (S_workspace, None) [] (projr (setRules ''w1'' (S_workspace, None) [] [])) =
     Inl (Duplicate_policy ''pol_workspace_all'')"
  using second_policy_refused [of "''w1''" "[]" "projr (setRules ''w1'' (S_workspace, None) [] [])" "''w2''" "[]"]
  by (simp add: setRules_def)

text \<open>What an allowing decision rests on.\<close>

lemma decision_allow:
  assumes "d_effect (decidePermission inp) = Allow"
  shows "isCapabilityUsable (pi_capability inp) \<and> floor_passes (pi_capability inp) (pi_trustTier inp) \<and>
    (\<forall>doc \<in> set (pi_policies inp). \<forall>rule \<in> set (pd_rules doc). rule_matches inp rule \<longrightarrow> rule_effect rule \<noteq> Deny)"
proof -
  from assms have spec: "decision_spec inp = Allow" by (simp add: decidePermission_eq_spec)
  then have "\<forall>c \<in> matching inp. c_effect c \<noteq> Deny" by (auto simp: decision_spec_def split: if_splits)
  then have "rule_effect rule \<noteq> Deny"
    if "doc \<in> set (pi_policies inp)" "rule \<in> set (pd_rules doc)" "rule_matches inp rule" for doc rule
    using that unfolding matching_def by fastforce
  with spec show ?thesis by (auto simp: decision_spec_def split: if_splits)
qed

lemma broker_allow:
  assumes "d_effect (broker_decide ws known now inp h) = Allow"
  obtains row where "broker_row ws inp h = Some row" "isCapabilityUsable row"
    "floor_passes row (trustTierOf ws known (bi_bindingId inp) h)"
    "\<forall>doc \<in> set (loadForDecision ws (scopesFor inp) (ho_policies h)). \<forall>rule \<in> set (pd_rules doc).
       rule_matches (broker_question ws known now inp row h) rule \<longrightarrow> rule_effect rule \<noteq> Deny"
proof (cases "broker_row ws inp h")
  case None
  with assms show thesis by (simp add: broker_decide_def)
next
  case (Some row)
  with assms decision_allow [of "broker_question ws known now inp row h"] show thesis
    by (intro that [of row]) (simp_all add: broker_decide_def broker_question_def)
qed

end
