(* ===== verification/Tool_Results.thy ===== *)
theory Tool_Results
  imports Mcp_Binding Conversation
begin

text \<open>
  What comes back from a tool call (\<^verbatim>\<open>packages/mcp/src/results.ts\<close>) and what is checked before it is made
  (\<^verbatim>\<open>packages/mcp/src/validation.ts\<close>).

  The blob store is an argument that may be absent; putting a blob may fail. Decoding base64 is the platform's
  (\<^verbatim>\<open>Buffer\<close>) and an argument. The JSON Schema validator \<^verbatim>\<open>ajv\<close> is a third-party package: compiling a schema
  gives nothing or a function from arguments to its errors and the arguments as it leaves them, for it strips and
  fills in members.
\<close>

subsection \<open>Normalised results\<close>

definition MAX_INLINE_RESULT_BYTES :: int where
  "MAX_INLINE_RESULT_BYTES = 64 * 1024"

definition MAX_ACCEPTED_RESULT_BYTES :: int where
  "MAX_ACCEPTED_RESULT_BYTES = 8 * 1024 * 1024"

record normalised_result =
  nr_content :: "content_block list"
  nr_structured :: "jsv option"
  nr_isError :: bool
  nr_bytes :: int
  nr_spilledTo :: "string option"
  nr_truncated :: bool

text \<open>\<^verbatim>\<open>TextEncoder\<close>: a code unit from 128 to 255 takes two bytes.\<close>

definition utf8_encode :: "string \<Rightarrow> nat list" where
  "utf8_encode s = concat (map (\<lambda>c. if code c < 128 then [code c] else [192 + code c div 64, 128 + code c mod 64]) s)"

definition utf8Bytes :: "string \<Rightarrow> int" where
  "utf8Bytes s = int (length (utf8_encode s))"

text \<open>\<^verbatim>\<open>JSON.stringify(undefined)\<close> is \<^verbatim>\<open>undefined\<close>, which the code reads as the empty text.\<close>

definition sizeOf :: "jsv \<Rightarrow> int" where
  "sizeOf v = utf8Bytes (if v = JUndefined then [] else jsonStringify v)"

record 's blob_store =
  bl_put :: "string \<Rightarrow> nat list \<Rightarrow> string \<Rightarrow> 's \<Rightarrow> (string + unit) \<times> 's"
  bl_decode :: "string \<Rightarrow> nat list"

definition string_member :: "jsv \<Rightarrow> string \<Rightarrow> string \<Rightarrow> string" where
  "string_member block key dflt = js_string (or_default (member_of block key) (JStr dflt))"

definition translateBlock ::
  "jsv \<Rightarrow> 's blob_store option \<Rightarrow> string \<Rightarrow> nat \<Rightarrow> 's \<Rightarrow> (string + content_block) \<times> 's" where
  "translateBlock block blobs keyPrefix index s =
     (let type = string_member block ''type'' []
      in if type = ''text'' then (Inr (Text (string_member block ''text'' [])), s)
         else if type = ''image'' \<or> type = ''audio'' then
           (let payload = string_member block ''data'' [];
                mime = string_member block ''mimeType'' ''application/octet-stream''
            in case (if payload = [] then None else blobs) of
                 None \<Rightarrow> (Inr (Text (''['' @ type @ '' omitted: '' @ mime @ '']'')), s)
               | Some store \<Rightarrow>
                   (let bytes = bl_decode store payload; key = keyPrefix @ ''/block-'' @ show_nat index
                    in case bl_put store key bytes mime s of
                         (Inl e, s') \<Rightarrow> (Inl e, s')
                       | (Inr _, s') \<Rightarrow> (Inr (Blob_ref key (int (length bytes)) mime), s')))
         else if type = ''resource_link'' then
           (let uri = string_member block ''uri'' []
            in (Inr (Text (''[resource: '' @ string_member block ''name'' uri @ '' <'' @ uri @ ''>]'')), s))
         else if type = ''resource'' then
           (let resource = member_of block ''resource''
            in case member_of resource ''text'' of
                 JStr t \<Rightarrow> (Inr (Text t), s)
               | _ \<Rightarrow> (Inr (Text (''[embedded resource <'' @ string_member resource ''uri'' [] @ ''>]'')), s))
         else (Inr (Text (''[unsupported content block: '' @ type @ '']'')), s))"

fun is_block :: "jsv \<Rightarrow> bool" where
  "is_block (JObj es) = True"
| "is_block (JArr vs) = True"
| "is_block _ = False"

fun translate_all ::
  "'s blob_store option \<Rightarrow> string \<Rightarrow> nat \<Rightarrow> jsv list \<Rightarrow> 's \<Rightarrow> (string + content_block list) \<times> 's" where
  "translate_all blobs keyPrefix index [] s = (Inr [], s)"
| "translate_all blobs keyPrefix index (block # rest) s =
     (if \<not> is_block block then translate_all blobs keyPrefix (Suc index) rest s
      else
        (case translateBlock block blobs keyPrefix index s of
           (Inl e, s') \<Rightarrow> (Inl e, s')
         | (Inr b, s') \<Rightarrow>
             (case translate_all blobs keyPrefix (Suc index) rest s' of
                (Inl e, s'') \<Rightarrow> (Inl e, s'')
              | (Inr bs, s'') \<Rightarrow> (Inr (b # bs), s''))))"

text \<open>The ellipsis is one code unit beyond the model's and three bytes; it is written as its bytes.\<close>

definition cut_text :: "string \<Rightarrow> int \<Rightarrow> string \<times> int" where
  "cut_text t remaining =
     (if int (length t) > remaining
      then (take (nat remaining) t @ [CHR 0xE2, CHR 0x80, CHR 0xA6], utf8Bytes (take (nat remaining) t) + 3)
      else (t, utf8Bytes t))"

fun summarise_from :: "int \<Rightarrow> int \<Rightarrow> content_block list \<Rightarrow> content_block list" where
  "summarise_from budgetBytes used [] = []"
| "summarise_from budgetBytes used (Text t # rest) =
     (if budgetBytes - used \<le> 0 then []
      else (case cut_text t (budgetBytes - used) of
              (t', bytes) \<Rightarrow> Text t' # summarise_from budgetBytes (used + bytes) rest))"
| "summarise_from budgetBytes used (block # rest) = block # summarise_from budgetBytes used rest"

definition summarise :: "content_block list \<Rightarrow> int \<Rightarrow> content_block list" where
  "summarise content budgetBytes = summarise_from budgetBytes 0 content"

definition array_of :: "jsv \<Rightarrow> jsv list" where
  "array_of v = (case v of JArr vs \<Rightarrow> vs | _ \<Rightarrow> [])"

definition present :: "jsv \<Rightarrow> jsv option" where
  "present v = (if v = JUndefined then None else Some v)"

definition rejected_result :: "int \<Rightarrow> normalised_result" where
  "rejected_result totalBytes =
     \<lparr>nr_content = [Text (''[tool result rejected: '' @ show_int totalBytes @ '' bytes exceeds the '' @
         show_int MAX_ACCEPTED_RESULT_BYTES @ ''-byte limit. Ask the tool for less, or for a resource reference.]'')],
      nr_structured = None, nr_isError = True, nr_bytes = totalBytes, nr_spilledTo = None, nr_truncated = True\<rparr>"

definition normaliseToolResult ::
  "jsv \<Rightarrow> 's blob_store option \<Rightarrow> string \<Rightarrow> int option \<Rightarrow> 's \<Rightarrow> (string + normalised_result) \<times> 's" where
  "normaliseToolResult raw blobs keyPrefix maxInlineBytes s =
     (let result = or_default raw (JObj []);
          isError = (member_of result ''isError'' = JBool True);
          totalBytes = sizeOf result;
          maxInline = (case maxInlineBytes of Some n \<Rightarrow> n | None \<Rightarrow> MAX_INLINE_RESULT_BYTES)
      in if totalBytes > MAX_ACCEPTED_RESULT_BYTES then (Inr (rejected_result totalBytes), s)
         else
           (case translate_all blobs keyPrefix 0 (array_of (member_of result ''content'')) s of
              (Inl e, s1) \<Rightarrow> (Inl e, s1)
            | (Inr content, s1) \<Rightarrow>
                (let whole = \<lparr>nr_content = content, nr_structured = present (member_of result ''structuredContent''),
                       nr_isError = isError, nr_bytes = totalBytes, nr_spilledTo = None, nr_truncated = False\<rparr>
                 in case (if totalBytes > maxInline then blobs else None) of
                      None \<Rightarrow> (Inr whole, s1)
                    | Some store \<Rightarrow>
                        (let key = keyPrefix @ ''/result.json''
                         in case bl_put store key (utf8_encode (jsonStringify result)) ''application/json'' s1 of
                              (Inl e, s2) \<Rightarrow> (Inl e, s2)
                            | (Inr _, s2) \<Rightarrow>
                                (Inr (whole\<lparr>nr_content := summarise content maxInline @
                                   [Text (''[result truncated: '' @ show_int totalBytes @ '' bytes stored at '' @ key @ '']'')],
                                   nr_spilledTo := Some key, nr_truncated := True\<rparr>), s2)))))"

definition refusalResult :: "string \<Rightarrow> normalised_result" where
  "refusalResult reason =
     \<lparr>nr_content = [Text reason], nr_structured = None, nr_isError = True, nr_bytes = utf8Bytes reason,
      nr_spilledTo = None, nr_truncated = False\<rparr>"

subsection \<open>Argument validation\<close>

record ajv_error =
  aj_instancePath :: string
  aj_message :: "string option"

text \<open>A compiled schema: \<^const>\<open>None\<close> for valid arguments, the errors otherwise.\<close>

type_synonym ajv_function = "jsv \<Rightarrow> ajv_error list option \<times> jsv"
type_synonym ajv_compiler = "jsv \<Rightarrow> ajv_function option"

text \<open>The validators compiled so far, each under its key, by the schema it was compiled from.\<close>

type_synonym compiled_schemas = "(string \<times> jsv) list"

definition compile_schema ::
  "ajv_compiler \<Rightarrow> string \<Rightarrow> jsv \<Rightarrow> compiled_schemas \<Rightarrow> ajv_function option \<times> compiled_schemas" where
  "compile_schema ajv schemaKey schema compiled =
     (case map_of compiled schemaKey of
        Some known \<Rightarrow> (ajv known, compiled)
      | None \<Rightarrow> (ajv schema, map_set schemaKey schema compiled))"

datatype validation = Valid | Invalid "string list"

definition describe_error :: "ajv_error \<Rightarrow> string" where
  "describe_error e =
     (if aj_instancePath e = [] then ''(root)'' else aj_instancePath e) @ '' '' @
     (case aj_message e of Some m \<Rightarrow> m | None \<Rightarrow> ''is invalid'')"

definition schema_validate ::
  "ajv_compiler \<Rightarrow> string \<Rightarrow> jsv option \<Rightarrow> jsv \<Rightarrow> compiled_schemas \<Rightarrow> (validation \<times> jsv) \<times> compiled_schemas" where
  "schema_validate ajv schemaKey schema args compiled =
     (case Option.bind schema (\<lambda>v. if v = JUndefined \<or> v = JNull then None else Some v) of
        None \<Rightarrow> ((Valid, args), compiled)
      | Some v \<Rightarrow>
          (case compile_schema ajv schemaKey v compiled of
             (None, compiled') \<Rightarrow>
               ((Invalid [''The tool'' @ [CHR 0x27] @ ''s input schema could not be compiled, so arguments cannot be checked. '' @
                  ''This is a fault in the server'' @ [CHR 0x27] @ ''s tool definition.''], args), compiled')
           | (Some validator, compiled') \<Rightarrow>
               (case validator args of
                  (None, args') \<Rightarrow> ((Valid, args'), compiled')
                | (Some errors, args') \<Rightarrow> ((Invalid (map describe_error errors), args'), compiled'))))"

subsection \<open>Lemmas\<close>

definition text_length :: "content_block list \<Rightarrow> int" where
  "text_length content = sum_list (map (\<lambda>b. case b of Text t \<Rightarrow> int (length t) | _ \<Rightarrow> 0) content)"

lemma utf8Bytes_ge: "int (length t) \<le> utf8Bytes t"
  by (induction t) (auto simp: utf8Bytes_def utf8_encode_def)

lemma cut_text_bounds:
  assumes "cut_text t remaining = (t', bytes)" "0 < remaining"
  shows "int (length t') \<le> remaining + 3 \<and> int (length t') \<le> bytes \<and>
    (remaining < int (length t') \<longrightarrow> remaining < bytes)"
  using assms utf8Bytes_ge [of "take (nat remaining) t"] utf8Bytes_ge [of t]
  by (auto simp: cut_text_def split: if_splits)

lemma summarise_from_length:
  "text_length (summarise_from budgetBytes used content) \<le> max 0 (budgetBytes - used + 3) \<and>
   (budgetBytes \<le> used \<longrightarrow> text_length (summarise_from budgetBytes used content) = 0)"
proof (induction budgetBytes used content rule: summarise_from.induct)
  case (2 budgetBytes used t rest)
  show ?case
  proof (cases "budgetBytes - used \<le> 0")
    case False
    obtain t' bytes where ct: "cut_text t (budgetBytes - used) = (t', bytes)"
      by (cases "cut_text t (budgetBytes - used)")
    have bounds: "int (length t') \<le> budgetBytes - used + 3" "int (length t') \<le> bytes"
      "budgetBytes - used < int (length t') \<longrightarrow> budgetBytes - used < bytes"
      using cut_text_bounds [OF ct] False by auto
    from "2" [OF False, OF ct [symmetric]] have
      rest: "text_length (summarise_from budgetBytes (used + bytes) rest) \<le> max 0 (budgetBytes - (used + bytes) + 3)"
      "budgetBytes \<le> used + bytes \<longrightarrow> text_length (summarise_from budgetBytes (used + bytes) rest) = 0"
      by auto
    have "text_length (summarise_from budgetBytes used (Text t # rest)) =
        int (length t') + text_length (summarise_from budgetBytes (used + bytes) rest)"
      using False ct by (simp add: text_length_def)
    with bounds rest False show ?thesis by (auto simp: max_def split: if_splits)
  qed (simp add: text_length_def)
qed (simp_all add: text_length_def)

lemma summarise_length: "0 \<le> budgetBytes \<Longrightarrow> text_length (summarise content budgetBytes) \<le> budgetBytes + 3"
  using summarise_from_length [of budgetBytes 0 content] by (simp add: summarise_def)

subsection \<open>Property\<close>

text \<open>
  The size of a tool result. A result over the accepted limit is replaced by an error of one line. With a
  blob store, a result over the inline limit is stored whole under a key and what stays for the model is at most
  the limit in characters (and an ellipsis, written as three) and one line that names the key; any other result
  is passed on whole, unmarked. Without a blob store nothing between the two limits is shortened.
\<close>

theorem normalised_result_bounded:
  assumes "normaliseToolResult raw blobs prefix maxInline s = (Inr r, s')"
    and "maxInline = Some limit" "0 \<le> limit"
  shows "nr_bytes r = sizeOf (or_default raw (JObj [])) \<and>
    (if MAX_ACCEPTED_RESULT_BYTES < nr_bytes r then nr_isError r \<and> length (nr_content r) = 1 \<and> s' = s
     else if limit < nr_bytes r \<and> blobs \<noteq> None then
       nr_spilledTo r = Some (prefix @ ''/result.json'') \<and> text_length (butlast (nr_content r)) \<le> limit + 3
     else \<not> nr_truncated r \<and> nr_spilledTo r = None \<and>
       fst (translate_all blobs prefix 0 (array_of (member_of (or_default raw (JObj [])) ''content'')) s) = Inr (nr_content r))"
  using assms(1) summarise_length [OF assms(3)]
  unfolding normaliseToolResult_def Let_def assms(2)
  by (auto simp: rejected_result_def split: if_splits prod.splits sum.splits option.splits)

theorem normalised_result_bounded_witness:
  "text_length (butlast (nr_content (projr (fst (normaliseToolResult
     (JObj [(''content'', JArr [JObj [(''type'', JStr ''text''), (''text'', JStr ''long enough'')]])])
     (Some \<lparr>bl_put = \<lambda>key bytes mime s. (Inr (), s), bl_decode = \<lambda>t. []\<rparr>) ''runs/r1'' (Some 4) ()))))) \<le> 7"
proof -
  let ?raw = "JObj [(''content'', JArr [JObj [(''type'', JStr ''text''), (''text'', JStr ''long enough'')]])]"
  let ?blobs = "Some \<lparr>bl_put = \<lambda>key bytes mime s. (Inr (), s), bl_decode = \<lambda>t. []\<rparr>"
  have size: "sizeOf ?raw = 50"
    by (simp add: sizeOf_def utf8Bytes_def utf8_encode_def quote_def escape_char_def code_def)
  then obtain r where r: "normaliseToolResult ?raw ?blobs ''runs/r1'' (Some 4) () = (Inr r, ())"
    by (simp add: normaliseToolResult_def Let_def or_default_def translateBlock_def array_of_def string_member_def
        MAX_ACCEPTED_RESULT_BYTES_def)
  have "or_default ?raw (JObj []) = ?raw" by (simp add: or_default_def)
  with normalised_result_bounded [OF r refl] size have "nr_bytes r = 50" by simp
  with normalised_result_bounded [OF r refl] have "text_length (butlast (nr_content r)) \<le> 7"
    by (simp add: MAX_ACCEPTED_RESULT_BYTES_def)
  with r show ?thesis by simp
qed

end
