(* ===== verification/Gateway.thy ===== *)
theory Gateway
  imports Broker Tool_Results Agent_Runtime
begin

text \<open>
  The tool gateway (\<^verbatim>\<open>packages/mcp/src/gateway.ts\<close>), the only path from the runtime to an MCP server, and the
  adapter that wires it to the database (\<^verbatim>\<open>apps/web/src/lib/gateway-adapter.ts\<close>).

  The gateway's dependencies are a record of functions over a state, as \<^verbatim>\<open>GatewayDeps\<close> is in the code; the
  adapter instantiates them with the repositories. The gateway's own state is the schemas its validator has
  compiled. Calling the server (\<^verbatim>\<open>manager.run\<close> under \<^verbatim>\<open>withTimeout\<close>) is one of the dependencies: it answers or
  fails. The audit never fails a call.
\<close>

subsection \<open>Data\<close>

record invocation_context =
  ic_workspaceId :: id
  ic_runId :: id
  ic_agentId :: "id option"
  ic_principal :: "string \<times> id option"
  ic_callsThisRun :: int

record permission_outcome =
  po_effect :: perm_effect
  po_reason :: string
  po_matchedRuleId :: "id option"

record resolved_capability =
  rcp_capability :: mcp_capability
  rcp_definition :: server_definition
  rcp_scope :: connection_scope
  rcp_mrtrPolicy :: "mrtr_policy option"
  rcp_timeoutMs :: "int option"

record tool_request =
  tq_name :: string
  tq_arguments :: jsv
  tq_inputResponses :: "(string \<times> jsv) list option"
  tq_requestState :: "string option"

datatype call_error = Tool_timeout | Circuit_is_open | Call_failed string string

datatype gateway_outcome =
    Gw_result normalised_result int int "permission_outcome option"
  | Gw_needs_approval id string
  | Gw_needs_input id "string option"

record 's gateway_deps =
  gd_resolveCapability :: "string \<Rightarrow> invocation_context \<Rightarrow> 's \<Rightarrow> (string + resolved_capability option) \<times> 's"
  gd_decidePermission :: "mcp_capability \<Rightarrow> jsv \<Rightarrow> invocation_context \<Rightarrow> 's \<Rightarrow> (string + permission_outcome) \<times> 's"
  gd_requestApproval :: "string \<Rightarrow> jsv \<Rightarrow> invocation_context \<Rightarrow> 's \<Rightarrow> (string + id) \<times> 's"
  gd_runInference :: "(classified_input_request \<Rightarrow> invocation_context \<Rightarrow> 's \<Rightarrow> (call_error + jsv) \<times> 's) option"
  gd_run :: "server_definition \<Rightarrow> connection_scope \<Rightarrow> tool_request \<Rightarrow> int \<Rightarrow> 's \<Rightarrow> (call_error + jsv) \<times> 's"
  gd_blobs :: "'s blob_store option"
  gd_audit :: "audit_entry \<Rightarrow> 's \<Rightarrow> 's"
  gd_duration :: "'s \<Rightarrow> int"
  gd_started :: int

subsection \<open>Refusals and failures\<close>

definition gw_audit :: "'s gateway_deps \<Rightarrow> invocation_context \<Rightarrow> string \<Rightarrow> string \<Rightarrow> (string \<times> jsv) list \<Rightarrow> 's \<Rightarrow> 's" where
  "gw_audit deps ctx action canonicalName metadata s =
     gd_audit deps \<lparr>ae_actor = ic_principal ctx, ae_action = action, ae_subject = canonicalName, ae_runId = ic_runId ctx, ae_metadata = metadata\<rparr> s"

definition gw_refuse ::
  "'s gateway_deps \<Rightarrow> string \<Rightarrow> invocation_context \<Rightarrow> string \<Rightarrow> id option \<Rightarrow> 's \<Rightarrow> (string + gateway_outcome) \<times> 's" where
  "gw_refuse deps canonicalName ctx reason matchedRuleId s =
     (let s1 = gw_audit deps ctx ''mcp.tool.refused'' canonicalName
            ((''reason'', JStr reason) # (case matchedRuleId of Some r \<Rightarrow> [(''matchedRuleId'', JStr r)] | None \<Rightarrow> [])) s
      in (Inr (Gw_result (refusalResult reason) (gd_duration deps s1) 0 None), s1))"

fun failure_reason :: "call_error \<Rightarrow> string" where
  "failure_reason Tool_timeout = ''The tool did not respond in time. It may still be running on the server.''"
| "failure_reason Circuit_is_open = ''This server is currently failing and calls to it are paused.''"
| "failure_reason (Call_failed name message) = ''The tool call failed: '' @ message"

fun error_name :: "call_error \<Rightarrow> string" where
  "error_name Tool_timeout = ''ToolTimeoutError''"
| "error_name Circuit_is_open = ''CircuitOpenError''"
| "error_name (Call_failed name message) = name"

definition gw_failure ::
  "'s gateway_deps \<Rightarrow> string \<Rightarrow> invocation_context \<Rightarrow> call_error \<Rightarrow> int \<Rightarrow> 's \<Rightarrow> (string + gateway_outcome) \<times> 's" where
  "gw_failure deps canonicalName ctx err rounds s =
     (let s1 = gw_audit deps ctx ''mcp.tool.failed'' canonicalName
            [(''error'', JStr (error_name err)), (''mrtrRounds'', JNum rounds)] s
      in (Inr (Gw_result (refusalResult (failure_reason err)) (gd_duration deps s1) rounds None), s1))"

fun blockedReason :: "block_reason \<Rightarrow> string" where
  "blockedReason Removed = ''This tool is no longer offered by its server.''"
| "blockedReason Not_approved = ''This tool has not been approved for use in this workspace yet.''"
| "blockedReason Capability_changed =
     ''This tool'' @ [CHR 0x27] @ ''s definition changed since it was approved, so it is blocked pending review.''"

subsection \<open>The call and its rounds\<close>

fun entries_of :: "jsv \<Rightarrow> (string \<times> jsv) list" where
  "entries_of (JObj es) = es"
| "entries_of (JArr vs) = zip (map show_nat [0..<length vs]) vs"
| "entries_of _ = []"

fun kind_text :: "input_request_kind \<Rightarrow> string" where
  "kind_text Human = ''human''"
| "kind_text Inference = ''inference''"
| "kind_text Roots = ''roots''"
| "kind_text Unknown_request = ''unknown''"

fun decision_text :: "mrtr_decision \<Rightarrow> string" where
  "decision_text (Auto rs) = ''auto''"
| "decision_text (Needs_human rs) = ''needs_human''"
| "decision_text (Refuse reason) = ''refuse''"

fun sample_all ::
  "(classified_input_request \<Rightarrow> invocation_context \<Rightarrow> 's \<Rightarrow> (call_error + jsv) \<times> 's) \<Rightarrow> invocation_context \<Rightarrow>
   classified_input_request list \<Rightarrow> (string \<times> jsv) list \<Rightarrow> 's \<Rightarrow> (call_error + (string \<times> jsv) list) \<times> 's" where
  "sample_all sampler ctx [] answers s = (Inr answers, s)"
| "sample_all sampler ctx (request # rest) answers s =
     (case sampler request ctx s of
        (Inl err, s1) \<Rightarrow> (Inl err, s1)
      | (Inr answer, s1) \<Rightarrow> sample_all sampler ctx rest (map_set (ir_key request) answer answers) s1)"

definition NO_SAMPLER :: string where
  "NO_SAMPLER = ''This server is permitted to ask the host to run a model, but no sampler is '' @
     ''configured on this host, so the request cannot be answered.''"

record call_frame =
  cf_name :: string
  cf_capability :: mcp_capability
  cf_definition :: server_definition
  cf_scope :: connection_scope
  cf_args :: jsv
  cf_ctx :: invocation_context
  cf_policy :: mrtr_policy
  cf_timeoutMs :: int
  cf_permission :: permission_outcome

definition request_state :: "jsv \<Rightarrow> string option" where
  "request_state raw = (case member_of raw ''requestState'' of JStr s \<Rightarrow> Some s | _ \<Rightarrow> None)"

definition tool_call_of :: "call_frame \<Rightarrow> (string \<times> jsv) list option \<Rightarrow> string option \<Rightarrow> tool_request" where
  "tool_call_of f inputResponses requestState =
     \<lparr>tq_name = cap_name (cf_capability f), tq_arguments = or_default (cf_args f) (JObj []),
      tq_inputResponses = inputResponses, tq_requestState = requestState\<rparr>"

definition finish_call :: "'s gateway_deps \<Rightarrow> call_frame \<Rightarrow> jsv \<Rightarrow> int \<Rightarrow> 's \<Rightarrow> (string + gateway_outcome) \<times> 's" where
  "finish_call deps f raw rounds s =
     (case normaliseToolResult raw (gd_blobs deps)
        (''runs/'' @ ic_runId (cf_ctx f) @ ''/tools/'' @ cf_name f @ ''-'' @ show_int (gd_started deps)) None s of
        (Inl e, s1) \<Rightarrow> (Inl e, s1)
      | (Inr result, s1) \<Rightarrow>
          (let s2 = gw_audit deps (cf_ctx f) ''mcp.tool.invoked'' (cf_name f)
                 ([(''isError'', JBool (nr_isError result)), (''bytes'', JNum (nr_bytes result)), (''mrtrRounds'', JNum rounds)] @
                  (case nr_spilledTo result of Some k \<Rightarrow> [(''spilledTo'', JStr k)] | None \<Rightarrow> [])) s1
           in (Inr (Gw_result result (gd_duration deps s2) rounds (Some (cf_permission f))), s2)))"

definition ask_person ::
  "'s gateway_deps \<Rightarrow> call_frame \<Rightarrow> jsv \<Rightarrow> classified_input_request list \<Rightarrow> 's \<Rightarrow> (string + gateway_outcome) \<times> 's" where
  "ask_person deps f raw classified s =
     (case gd_requestApproval deps ''mrtr_input''
        (JObj [(''canonicalName'', JStr (cf_name f)),
           (''requests'', JArr (map (\<lambda>c. JObj [(''key'', JStr (ir_key c)), (''kind'', JStr (kind_text (ir_kind c))),
              (''params'', ir_params c)]) classified)),
           (''requestState'', (case request_state raw of Some t \<Rightarrow> JStr t | None \<Rightarrow> JUndefined))]) (cf_ctx f) s of
        (Inl e, s1) \<Rightarrow> (Inl e, s1)
      | (Inr approvalId, s1) \<Rightarrow> (Inr (Gw_needs_input approvalId (request_state raw)), s1))"

definition audit_input :: "'s gateway_deps \<Rightarrow> call_frame \<Rightarrow> jsv \<Rightarrow> classified_input_request list \<Rightarrow> mrtr_decision \<Rightarrow> int \<Rightarrow> 's \<Rightarrow> 's" where
  "audit_input deps f raw classified decision rounds s =
     gw_audit deps (cf_ctx f) ''mcp.tool.input_required'' (cf_name f)
       [(''decision'', JStr (decision_text decision)), (''kinds'', JArr (map (\<lambda>c. JStr (kind_text (ir_kind c))) classified)),
        (''requestState'', JStr (requestStateFingerprint (request_state raw))), (''round'', JNum rounds)] s"

function call_rounds ::
  "'s gateway_deps \<Rightarrow> call_frame \<Rightarrow> int \<Rightarrow> (string \<times> jsv) list option \<Rightarrow> string option \<Rightarrow> 's \<Rightarrow> (string + gateway_outcome) \<times> 's" where
  "call_rounds deps f rounds inputResponses requestState s =
     (case gd_run deps (cf_definition f) (cf_scope f) (tool_call_of f inputResponses requestState) (cf_timeoutMs f) s of
        (Inl err, s1) \<Rightarrow> gw_failure deps (cf_name f) (cf_ctx f) err rounds s1
      | (Inr raw, s1) \<Rightarrow>
          (if \<not> isInputRequired raw then finish_call deps f raw rounds s1
           else
             (let classified = classifyInputRequests (Some (entries_of (member_of raw ''inputRequests'')))
              in case decideMrtr classified (cf_policy f) rounds of
                   Refuse reason \<Rightarrow>
                     (let s2 = audit_input deps f raw classified (Refuse reason) rounds s1
                      in (Inr (Gw_result (refusalResult reason) (gd_duration deps s2) rounds None), s2))
                 | Needs_human requests \<Rightarrow>
                     ask_person deps f raw classified (audit_input deps f raw classified (Needs_human requests) rounds s1)
                 | Auto requests \<Rightarrow>
                     (let s2 = audit_input deps f raw classified (Auto requests) rounds s1
                      in case gd_runInference deps of
                           None \<Rightarrow> (Inr (Gw_result (refusalResult NO_SAMPLER) (gd_duration deps s2) rounds None), s2)
                         | Some sampler \<Rightarrow>
                             (case sample_all sampler (cf_ctx f) requests [] s2 of
                                (Inl err, s3) \<Rightarrow> gw_failure deps (cf_name f) (cf_ctx f) err rounds s3
                              | (Inr answers, s3) \<Rightarrow>
                                  call_rounds deps f (rounds + 1) (Some answers) (request_state raw) s3)))))"
  by pat_completeness auto
termination
  by (relation "measure (\<lambda>(deps, f, rounds, _). nat (mp_maxRounds (cf_policy f) - rounds))")
    (auto dest!: decideMrtr_Auto)

declare call_rounds.simps [simp del]

subsection \<open>Invoking a tool\<close>

definition ask_first :: "'s gateway_deps \<Rightarrow> string \<Rightarrow> mcp_capability \<Rightarrow> permission_outcome \<Rightarrow> invocation_context \<Rightarrow> 's \<Rightarrow>
    (string + gateway_outcome) \<times> 's" where
  "ask_first deps canonicalName cap decision ctx s =
     (case gd_requestApproval deps ''tool_call''
        (JObj [(''canonicalName'', JStr canonicalName), (''capabilityName'', JStr (cap_name cap)),
           (''bindingId'', JStr (cap_bindingId cap)), (''reason'', JStr (po_reason decision))]) ctx s of
        (Inl e, s1) \<Rightarrow> (Inl e, s1)
      | (Inr approvalId, s1) \<Rightarrow>
          (let s2 = gw_audit deps ctx ''mcp.tool.approval_requested'' canonicalName
                 [(''approvalId'', JStr approvalId), (''reason'', JStr (po_reason decision))] s1
           in (Inr (Gw_needs_approval approvalId (po_reason decision)), s2)))"

definition call_frame_of :: "string \<Rightarrow> jsv \<Rightarrow> invocation_context \<Rightarrow> resolved_capability \<Rightarrow> permission_outcome \<Rightarrow> call_frame" where
  "call_frame_of canonicalName args ctx resolved decision =
     \<lparr>cf_name = canonicalName, cf_capability = rcp_capability resolved, cf_definition = rcp_definition resolved,
      cf_scope = rcp_scope resolved, cf_args = args, cf_ctx = ctx,
      cf_policy = (case rcp_mrtrPolicy resolved of Some p \<Rightarrow> p | None \<Rightarrow> DEFAULT_MRTR_POLICY),
      cf_timeoutMs = (case rcp_timeoutMs resolved of Some t \<Rightarrow> t | None \<Rightarrow> DEFAULT_TOOL_TIMEOUT_MS),
      cf_permission = decision\<rparr>"

type_synonym 's gateway_result = "(string + gateway_outcome) \<times> compiled_schemas \<times> 's"

definition validated_call ::
  "'s gateway_deps \<Rightarrow> ajv_compiler \<Rightarrow> string \<Rightarrow> jsv \<Rightarrow> invocation_context \<Rightarrow> resolved_capability \<Rightarrow> permission_outcome \<Rightarrow>
   compiled_schemas \<Rightarrow> 's \<Rightarrow> 's gateway_result" where
  "validated_call deps ajv canonicalName args ctx resolved decision compiled s =
     (case schema_validate ajv (cap_definitionHash (rcp_capability resolved)) (cap_inputSchema (rcp_capability resolved))
        args compiled of
        ((Invalid errors, args'), compiled') \<Rightarrow>
          (case gw_refuse deps canonicalName ctx (''Arguments are invalid: '' @ join_with ''; '' errors) None s of
             (out, s1) \<Rightarrow> (out, compiled', s1))
      | ((Valid, args'), compiled') \<Rightarrow>
          (case call_rounds deps (call_frame_of canonicalName args' ctx resolved decision) 0 None None s of
             (out, s1) \<Rightarrow> (out, compiled', s1)))"

definition same_schemas :: "compiled_schemas \<Rightarrow> (string + gateway_outcome) \<times> 's \<Rightarrow> 's gateway_result" where
  "same_schemas compiled r = (fst r, compiled, snd r)"

definition gateway_invoke ::
  "'s gateway_deps \<Rightarrow> ajv_compiler \<Rightarrow> string \<Rightarrow> jsv \<Rightarrow> invocation_context \<Rightarrow> compiled_schemas \<Rightarrow> 's \<Rightarrow> 's gateway_result" where
  "gateway_invoke deps ajv canonicalName args ctx compiled s =
     (if splitCanonicalName canonicalName = None then
        same_schemas compiled (gw_refuse deps canonicalName ctx ([CHR 0x22] @ canonicalName @ [CHR 0x22] @
          '' is not a valid tool name. Tools are named <server>__<tool>.'') None s)
      else
        (case gd_resolveCapability deps canonicalName ctx s of
           (Inl e, s1) \<Rightarrow> (Inl e, compiled, s1)
         | (Inr None, s1) \<Rightarrow>
             same_schemas compiled (gw_refuse deps canonicalName ctx (''No tool named '' @ [CHR 0x22] @ canonicalName @
               [CHR 0x22] @ '' is available to this agent.'') None s1)
         | (Inr (Some resolved), s1) \<Rightarrow>
             (case capabilityBlockReason (rcp_capability resolved) of
                Some blocked \<Rightarrow> same_schemas compiled (gw_refuse deps canonicalName ctx (blockedReason blocked) None s1)
              | None \<Rightarrow>
                  (case gd_decidePermission deps (rcp_capability resolved) args ctx s1 of
                     (Inl e, s2) \<Rightarrow> (Inl e, compiled, s2)
                   | (Inr decision, s2) \<Rightarrow>
                       (case po_effect decision of
                          Deny \<Rightarrow> same_schemas compiled (gw_refuse deps canonicalName ctx
                            (''Denied by policy ('' @ po_reason decision @ '').'') (po_matchedRuleId decision) s2)
                        | Ask \<Rightarrow> same_schemas compiled (ask_first deps canonicalName (rcp_capability resolved) decision ctx s2)
                        | Allow \<Rightarrow> validated_call deps ajv canonicalName args ctx resolved decision compiled s2)))))"

text \<open>\<^verbatim>\<open>listAvailable\<close>: usable tools that are not denied.\<close>

fun gateway_listAvailable ::
  "'s gateway_deps \<Rightarrow> mcp_capability list \<Rightarrow> invocation_context \<Rightarrow> 's \<Rightarrow> (string + tool_declaration list) \<times> 's" where
  "gateway_listAvailable deps [] ctx s = (Inr [], s)"
| "gateway_listAvailable deps (cap # caps) ctx s =
     (if cap_kind cap \<noteq> Tool \<or> \<not> isCapabilityUsable cap then gateway_listAvailable deps caps ctx s
      else
        (case gd_decidePermission deps cap JUndefined ctx s of
           (Inl e, s1) \<Rightarrow> (Inl e, s1)
         | (Inr decision, s1) \<Rightarrow>
             (if po_effect decision = Deny then gateway_listAvailable deps caps ctx s1
              else
                (case gateway_listAvailable deps caps ctx s1 of
                   (Inl e, s2) \<Rightarrow> (Inl e, s2)
                 | (Inr rest, s2) \<Rightarrow>
                     (Inr (\<lparr>td_name = cap_canonicalName cap,
                        td_description = (case cap_description cap of Some t \<Rightarrow> t | None \<Rightarrow> []),
                        td_inputSchema = (case cap_inputSchema cap of Some v \<Rightarrow> v
                          | None \<Rightarrow> JObj [(''type'', JStr ''object''), (''properties'', JObj [])]),
                        td_outputSchema = cap_outputSchema cap,
                        td_annotations = map_option JObj (cap_annotations cap)\<rparr> # rest), s2)))))"

subsection \<open>What an invocation leaves alone\<close>

lemma rounds_induct:
  fixes rounds limit :: int
  assumes "\<And>rounds x. (\<And>y. rounds < limit \<Longrightarrow> P (rounds + 1) y) \<Longrightarrow> P rounds x"
  shows "P rounds x"
proof (induction "nat (limit - rounds)" arbitrary: rounds x rule: less_induct)
  case less
  show ?case by (rule assms) (rule less, simp)
qed

text \<open>How one round ends: for good, or with the next round and the answers the host sampled.\<close>

lemma call_rounds_cases:
  assumes "call_rounds deps f rounds inputResponses requestState s = (out, t)"
  obtains (failed) err s1 where
      "gd_run deps (cf_definition f) (cf_scope f) (tool_call_of f inputResponses requestState) (cf_timeoutMs f) s = (Inl err, s1)"
      "gw_failure deps (cf_name f) (cf_ctx f) err rounds s1 = (out, t)"
    | (answered) raw s1 where
      "gd_run deps (cf_definition f) (cf_scope f) (tool_call_of f inputResponses requestState) (cf_timeoutMs f) s = (Inr raw, s1)"
      "finish_call deps f raw rounds s1 = (out, t)"
    | (refused) raw s1 reason classified decision where
      "gd_run deps (cf_definition f) (cf_scope f) (tool_call_of f inputResponses requestState) (cf_timeoutMs f) s = (Inr raw, s1)"
      "t = audit_input deps f raw classified decision rounds s1"
      "out = Inr (Gw_result (refusalResult reason) (gd_duration deps t) rounds None)"
    | (person) raw s1 classified decision where
      "gd_run deps (cf_definition f) (cf_scope f) (tool_call_of f inputResponses requestState) (cf_timeoutMs f) s = (Inr raw, s1)"
      "ask_person deps f raw classified (audit_input deps f raw classified decision rounds s1) = (out, t)"
    | (unsampled) raw s1 sampler requests classified decision err s3 where
      "gd_run deps (cf_definition f) (cf_scope f) (tool_call_of f inputResponses requestState) (cf_timeoutMs f) s = (Inr raw, s1)"
      "gd_runInference deps = Some sampler"
      "sample_all sampler (cf_ctx f) requests [] (audit_input deps f raw classified decision rounds s1) = (Inl err, s3)"
      "gw_failure deps (cf_name f) (cf_ctx f) err rounds s3 = (out, t)"
    | (again) raw s1 sampler requests classified decision answers s3 where
      "gd_run deps (cf_definition f) (cf_scope f) (tool_call_of f inputResponses requestState) (cf_timeoutMs f) s = (Inr raw, s1)"
      "gd_runInference deps = Some sampler" "rounds < mp_maxRounds (cf_policy f)"
      "sample_all sampler (cf_ctx f) requests [] (audit_input deps f raw classified decision rounds s1) = (Inr answers, s3)"
      "call_rounds deps f (rounds + 1) (Some answers) (request_state raw) s3 = (out, t)"
proof -
  obtain answer s1 where run: "gd_run deps (cf_definition f) (cf_scope f) (tool_call_of f inputResponses requestState)
      (cf_timeoutMs f) s = (answer, s1)" by (metis surj_pair)
  show thesis
  proof (cases answer)
    case (Inl err)
    with assms run show thesis by (intro failed) (simp_all add: call_rounds.simps)
  next
    case (Inr raw)
    let ?c = "classifyInputRequests (Some (entries_of (member_of raw ''inputRequests'')))"
    show thesis
    proof (cases "isInputRequired raw")
      case False
      with assms run Inr show thesis by (intro answered) (simp_all add: call_rounds.simps)
    next
      case True
      show thesis
      proof (cases "decideMrtr ?c (cf_policy f) rounds")
        case (Refuse reason)
        with assms run Inr True show thesis
          by (intro refused [of raw s1 ?c "Refuse reason" reason]) (auto simp: call_rounds.simps Let_def)
      next
        case (Needs_human requests)
        with assms run Inr True show thesis
          by (intro person [of raw s1 ?c "Needs_human requests"]) (simp_all add: call_rounds.simps Let_def)
      next
        case (Auto requests)
        let ?s2 = "audit_input deps f raw ?c (Auto requests) rounds s1"
        show thesis
        proof (cases "gd_runInference deps")
          case None
          with assms run Inr True Auto show thesis
            by (intro refused [of raw s1 ?c "Auto requests" NO_SAMPLER]) (auto simp: call_rounds.simps Let_def)
        next
          case (Some sampler)
          obtain r s3 where sample: "sample_all sampler (cf_ctx f) requests [] ?s2 = (r, s3)" by (metis surj_pair)
          show thesis
          proof (cases r)
            case (Inl err)
            with assms run \<open>answer = Inr raw\<close> True Auto Some sample show thesis
              by (intro unsampled [of raw s1 sampler requests ?c "Auto requests" err s3]) (simp_all add: call_rounds.simps Let_def)
          next
            case (Inr answers)
            with assms run \<open>answer = Inr raw\<close> True Auto Some sample decideMrtr_Auto [OF Auto] show thesis
              by (intro again [of raw s1 sampler requests ?c "Auto requests" answers s3]) (simp_all add: call_rounds.simps Let_def)
          qed
        qed
      qed
    qed
  qed
qed

text \<open>The states an invocation passes through before it calls: after resolving, after deciding.\<close>

definition before_call :: "'s gateway_deps \<Rightarrow> string \<Rightarrow> jsv \<Rightarrow> invocation_context \<Rightarrow> 's \<Rightarrow> 's \<Rightarrow> bool" where
  "before_call deps name args ctx s s' \<longleftrightarrow> s' = s \<or> (\<exists>found. gd_resolveCapability deps name ctx s = (found, s')) \<or>
     (\<exists>found s1 cap decision. gd_resolveCapability deps name ctx s = (found, s1) \<and>
        gd_decidePermission deps cap args ctx s1 = (decision, s'))"

text \<open>The guards of an invocation, with the resolved capability, the decision and the arguments that pass them.\<close>

definition guards_passed ::
  "'s gateway_deps \<Rightarrow> ajv_compiler \<Rightarrow> string \<Rightarrow> jsv \<Rightarrow> invocation_context \<Rightarrow> compiled_schemas \<Rightarrow> 's \<Rightarrow>
   resolved_capability \<Rightarrow> permission_outcome \<Rightarrow> jsv \<Rightarrow> 's \<Rightarrow> bool" where
  "guards_passed deps ajv name args ctx compiled s resolved decision args' s2 \<longleftrightarrow>
     splitCanonicalName name \<noteq> None \<and>
     (\<exists>s1. gd_resolveCapability deps name ctx s = (Inr (Some resolved), s1) \<and>
        isCapabilityUsable (rcp_capability resolved) \<and>
        gd_decidePermission deps (rcp_capability resolved) args ctx s1 = (Inr decision, s2)) \<and>
     po_effect decision = Allow \<and>
     fst (schema_validate ajv (cap_definitionHash (rcp_capability resolved)) (cap_inputSchema (rcp_capability resolved))
       args compiled) = (Valid, args')"

lemma gateway_invoke_cases:
  assumes "gateway_invoke deps ajv name args ctx compiled s = (out, compiled', t)"
  obtains (refused) reason rule s' where "before_call deps name args ctx s s'" "gw_refuse deps name ctx reason rule s' = (out, t)"
    | (broken) e where "before_call deps name args ctx s t" "out = Inl e"
        "fst (gd_resolveCapability deps name ctx s) = Inl e \<or> (\<exists>cap s1. fst (gd_decidePermission deps cap args ctx s1) = Inl e)"
    | (asked) cap decision s' where "before_call deps name args ctx s s'" "po_effect decision = Ask"
        "ask_first deps name cap decision ctx s' = (out, t)"
    | (called) resolved decision args' s' where "before_call deps name args ctx s s'"
        "guards_passed deps ajv name args ctx compiled s resolved decision args' s'"
        "call_rounds deps (call_frame_of name args' ctx resolved decision) 0 None None s' = (out, t)"
proof (cases "splitCanonicalName name = None")
  case True
  with assms show thesis
    by (intro refused [of s]) (auto simp: gateway_invoke_def same_schemas_def before_call_def)
next
  case False
  obtain found s1 where res: "gd_resolveCapability deps name ctx s = (found, s1)"
    by (cases "gd_resolveCapability deps name ctx s")
  have s1: "before_call deps name args ctx s s1" using res by (auto simp: before_call_def)
  note unfold = gateway_invoke_def same_schemas_def False res
  consider (err) e where "found = Inl e" | (nothing) "found = Inr None"
    | (blocked) r why where "found = Inr (Some r)" "capabilityBlockReason (rcp_capability r) = Some why"
    | (usable) r where "found = Inr (Some r)" "capabilityBlockReason (rcp_capability r) = None"
    by (cases found) (use option.exhaust in metis)+
  then show thesis
  proof cases
    case (err e)
    with assms s1 res show thesis by (intro broken [of e]) (auto simp: unfold)
  next
    case nothing
    with assms s1 show thesis by (intro refused [of s1]) (auto simp: unfold)
  next
    case (blocked r why)
    with assms s1 show thesis by (intro refused [of s1]) (auto simp: unfold)
  next
    case (usable r)
    obtain answer s2 where dec: "gd_decidePermission deps (rcp_capability r) args ctx s1 = (answer, s2)"
      by (cases "gd_decidePermission deps (rcp_capability r) args ctx s1")
    have s2: "before_call deps name args ctx s s2" using res dec by (auto simp: before_call_def)
    show thesis
    proof (cases answer)
      case (Inl e)
      from dec Inl have failed: "\<exists>cap s1. fst (gd_decidePermission deps cap args ctx s1) = Inl e"
        by (intro exI [of _ "rcp_capability r"] exI [of _ s1]) simp
      have "out = Inl e" "t = s2" using assms usable dec Inl by (auto simp: unfold)
      with s2 failed show thesis by (intro broken [of e]) auto
    next
      case (Inr decision)
      show thesis
      proof (cases "po_effect decision")
        case Deny
        with assms usable dec s2 Inr show thesis by (intro refused [of s2]) (auto simp: unfold)
      next
        case Ask
        with assms usable dec s2 Inr show thesis
          by (intro asked [of s2 decision "rcp_capability r"]) (auto simp: unfold)
      next
        case Allow
        obtain v args' c where v: "schema_validate ajv (cap_definitionHash (rcp_capability r)) (cap_inputSchema (rcp_capability r))
            args compiled = ((v, args'), c)" by (metis surj_pair)
        have inv: "validated_call deps ajv name args ctx r decision compiled s2 = (out, compiled', t)"
          using assms usable dec Inr Allow by (simp add: unfold)
        show thesis
        proof (cases v)
          case Valid
          have "guards_passed deps ajv name args ctx compiled s r decision args' s2"
            using False res usable dec Inr Allow v Valid by (auto simp: guards_passed_def usable_iff_unblocked)
          moreover have "call_rounds deps (call_frame_of name args' ctx r decision) 0 None None s2 = (out, t)"
            using inv v Valid by (auto simp: validated_call_def split: prod.splits)
          ultimately show thesis using s2 by (intro called)
        next
          case (Invalid errors)
          with inv v s2 show thesis by (intro refused [of s2]) (auto simp: validated_call_def split: prod.splits)
        qed
      qed
    qed
  qed
qed

text \<open>
  A relation between states that every dependency but the server respects; whether the server respects it too
  (\<open>gateway_keeps\<close>) or counts as one call (\<open>gateway_meter\<close>) is for the extensions to say.
\<close>

locale gateway_quiet =
  fixes deps :: "'s gateway_deps"
    and keeps :: "'s \<Rightarrow> 's \<Rightarrow> bool"
  assumes keeps_refl: "keeps s s"
    and keeps_trans: "keeps s t \<Longrightarrow> keeps t u \<Longrightarrow> keeps s u"
    and keeps_resolve: "gd_resolveCapability deps name ctx s = (found, t) \<Longrightarrow> keeps s t"
    and keeps_decide: "gd_decidePermission deps cap args ctx s = (decision, t) \<Longrightarrow> keeps s t"
    and keeps_request: "gd_requestApproval deps kind payload ctx s = (asked, t) \<Longrightarrow> keeps s t"
    and keeps_infer: "gd_runInference deps = Some sampler \<Longrightarrow> sampler request ctx s = (answer, t) \<Longrightarrow> keeps s t"
    and keeps_put: "gd_blobs deps = Some store \<Longrightarrow> bl_put store key bytes mime s = (put, t) \<Longrightarrow> keeps s t"
    and keeps_audit: "keeps s (gd_audit deps entry s)"
begin

lemma keeps_gw_audit: "keeps s (gw_audit deps ctx action name metadata s)"
  by (simp add: gw_audit_def keeps_audit)

lemma keeps_refuse: "gw_refuse deps name ctx reason rule s = (out, t) \<Longrightarrow> keeps s t"
  by (auto simp: gw_refuse_def Let_def keeps_gw_audit)

lemma keeps_failure: "gw_failure deps name ctx err rounds s = (out, t) \<Longrightarrow> keeps s t"
  by (auto simp: gw_failure_def Let_def keeps_gw_audit)

lemma keeps_translateBlock:
  assumes "translateBlock block (gd_blobs deps) prefix i s = (out, t)"
  shows "keeps s t"
  using assms keeps_put
  by (auto simp: translateBlock_def Let_def keeps_refl split: if_splits option.splits prod.splits sum.splits jsv.splits)

lemma keeps_translate_all:
  "translate_all (gd_blobs deps) prefix i blocks s = (out, t) \<Longrightarrow> keeps s t"
proof (induction blocks arbitrary: i s out t)
  case (Cons block blocks)
  show ?case
  proof (cases "is_block block")
    case True
    obtain r s' where tb: "translateBlock block (gd_blobs deps) prefix i s = (r, s')"
      by (cases "translateBlock block (gd_blobs deps) prefix i s")
    obtain r' s'' where ta: "translate_all (gd_blobs deps) prefix (Suc i) blocks s' = (r', s'')"
      by (cases "translate_all (gd_blobs deps) prefix (Suc i) blocks s'")
    have "t = s' \<or> t = s''" using Cons.prems True tb ta by (auto split: sum.splits)
    with keeps_translateBlock [OF tb] Cons.IH [OF ta] show ?thesis by (auto intro: keeps_trans)
  next
    case False
    with Cons show ?thesis by auto
  qed
qed (simp add: keeps_refl)

lemma keeps_normalise:
  assumes "normaliseToolResult raw (gd_blobs deps) prefix limit s = (out, t)"
  shows "keeps s t"
proof (cases "MAX_ACCEPTED_RESULT_BYTES < sizeOf (or_default raw (JObj []))")
  case False
  obtain r s1 where ta: "translate_all (gd_blobs deps) prefix 0 (array_of (member_of (or_default raw (JObj [])) ''content'')) s = (r, s1)"
    by (cases "translate_all (gd_blobs deps) prefix 0 (array_of (member_of (or_default raw (JObj [])) ''content'')) s")
  have "t = s1 \<or> (\<exists>store key bytes mime r'. gd_blobs deps = Some store \<and> bl_put store key bytes mime s1 = (r', t))"
    using assms False ta unfolding normaliseToolResult_def Let_def
    by (auto split: sum.splits option.splits prod.splits if_splits)
  with keeps_translate_all [OF ta] keeps_put show ?thesis by (auto intro: keeps_trans)
qed (use assms in \<open>auto simp: normaliseToolResult_def keeps_refl\<close>)

lemma keeps_finish:
  assumes "finish_call deps f raw rounds s = (out, t)"
  shows "keeps s t"
  using assms unfolding finish_call_def Let_def
  by (auto split: prod.splits sum.splits dest!: keeps_normalise intro: keeps_trans keeps_gw_audit)

lemma keeps_ask_person: "ask_person deps f raw classified s = (out, t) \<Longrightarrow> keeps s t"
  by (auto simp: ask_person_def split: prod.splits sum.splits dest: keeps_request)

lemma keeps_ask_first: "ask_first deps name cap decision ctx s = (out, t) \<Longrightarrow> keeps s t"
  by (auto simp: ask_first_def Let_def split: prod.splits sum.splits dest!: keeps_request intro: keeps_trans keeps_gw_audit)

lemma keeps_audit_input: "keeps s (audit_input deps f raw classified decision rounds s)"
  by (simp add: audit_input_def keeps_gw_audit)

lemma keeps_sample_all:
  assumes "gd_runInference deps = Some sampler"
  shows "sample_all sampler ctx requests answers s = (out, t) \<Longrightarrow> keeps s t"
proof (induction requests arbitrary: answers s)
  case (Cons request requests)
  obtain r s' where step: "sampler request ctx s = (r, s')" by (cases "sampler request ctx s")
  with keeps_infer [OF assms step] Cons show ?case by (auto split: sum.splits intro: keeps_trans)
qed (simp add: keeps_refl)

end

context gateway_quiet
begin

lemma keeps_before_call: "before_call deps name args ctx s t \<Longrightarrow> keeps s t"
  by (auto simp: before_call_def intro: keeps_refl keeps_trans keeps_resolve keeps_decide)

end

locale gateway_keeps = gateway_quiet +
  assumes keeps_run: "gd_run deps definition scope request timeoutMs s = (answer, t) \<Longrightarrow> keeps s t"
begin

lemma keeps_rounds:
  "call_rounds deps f rounds inputResponses requestState s = (out, t) \<Longrightarrow> keeps s t"
proof (induction rounds "(inputResponses, requestState, s)" arbitrary: inputResponses requestState s
    rule: rounds_induct [where limit = "mp_maxRounds (cf_policy f)"])
  case (1 rounds inputResponses requestState s)
  from "1.prems" show ?case
  proof (cases rule: call_rounds_cases)
    case (again raw s1 sampler requests classified decision answers s3)
    with "1.hyps" have "keeps s3 t" by blast
    with again show ?thesis
      by (blast intro: keeps_trans keeps_run keeps_audit_input keeps_sample_all)
  qed (blast intro: keeps_trans keeps_run keeps_failure keeps_finish keeps_audit_input keeps_ask_person keeps_sample_all)+
qed

lemma keeps_invoke:
  assumes "gateway_invoke deps ajv name args ctx compiled s = (out, compiled', t)"
  shows "keeps s t"
  using assms
proof (cases rule: gateway_invoke_cases)
  case (called resolved decision args' s')
  from keeps_trans [OF keeps_before_call [OF called(1)] keeps_rounds [OF called(3)]] show ?thesis .
qed (blast intro: keeps_trans keeps_before_call keeps_refuse keeps_ask_first)+

end

text \<open>A count that only a call of the server raises, by one.\<close>

locale gateway_meter = gateway_quiet deps "\<lambda>s t. calls t = calls s" for deps :: "'s gateway_deps" and calls :: "'s \<Rightarrow> nat" +
  assumes counts_run: "gd_run deps definition scope request timeoutMs s = (answer, t) \<Longrightarrow> calls t = Suc (calls s)"
begin

lemma calls_rounds:
  "call_rounds deps f rounds inputResponses requestState s = (out, t) \<Longrightarrow>
   calls s < calls t \<and> calls t \<le> calls s + 1 + nat (mp_maxRounds (cf_policy f) - rounds)"
proof (induction rounds "(inputResponses, requestState, s)" arbitrary: inputResponses requestState s
    rule: rounds_induct [where limit = "mp_maxRounds (cf_policy f)"])
  case (1 rounds inputResponses requestState s)
  from "1.prems" show ?case
  proof (cases rule: call_rounds_cases)
    case (again raw s1 sampler requests classified decision answers s3)
    with "1.hyps" have "calls s3 < calls t" "calls t \<le> calls s3 + 1 + nat (mp_maxRounds (cf_policy f) - (rounds + 1))" by blast+
    moreover have "calls s3 = calls s1" "calls s1 = Suc (calls s)"
      using keeps_sample_all [OF again(2,4)] keeps_audit_input counts_run [OF again(1)] by simp_all
    ultimately show ?thesis using again(3) by linarith
  next
    case (failed err s1)
    with keeps_failure [OF failed(2)] counts_run [OF failed(1)] show ?thesis by simp
  next
    case (answered raw s1)
    with keeps_finish [OF answered(2)] counts_run [OF answered(1)] show ?thesis by simp
  next
    case (refused raw s1 reason classified decision)
    with keeps_audit_input counts_run [OF refused(1)] show ?thesis by simp
  next
    case (person raw s1 classified decision)
    with keeps_ask_person [OF person(2)] keeps_audit_input counts_run [OF person(1)] show ?thesis by simp
  next
    case (unsampled raw s1 sampler requests classified decision err s3)
    with keeps_failure [OF unsampled(4)] keeps_sample_all [OF unsampled(2,3)] keeps_audit_input counts_run [OF unsampled(1)]
    show ?thesis by simp
  qed
qed

text \<open>Without a sampler there is no second round.\<close>

lemma calls_once:
  assumes "gd_runInference deps = None" "call_rounds deps f rounds inputResponses requestState s = (out, t)"
  shows "calls t = Suc (calls s)"
  using assms(2)
proof (cases rule: call_rounds_cases)
  case (failed err s1)
  with keeps_failure [OF failed(2)] counts_run [OF failed(1)] show ?thesis by simp
next
  case (answered raw s1)
  with keeps_finish [OF answered(2)] counts_run [OF answered(1)] show ?thesis by simp
next
  case (refused raw s1 reason classified decision)
  with keeps_audit_input counts_run [OF refused(1)] show ?thesis by simp
next
  case (person raw s1 classified decision)
  with keeps_ask_person [OF person(2)] keeps_audit_input counts_run [OF person(1)] show ?thesis by simp
qed (use assms(1) in simp_all)

text \<open>The server is called, if at all, only past every guard.\<close>

lemma calls_invoke:
  assumes "gateway_invoke deps ajv name args ctx compiled s = (out, compiled', t)"
  shows "calls t = calls s \<or> (\<exists>resolved decision args' s2.
    guards_passed deps ajv name args ctx compiled s resolved decision args' s2 \<and> calls s < calls t \<and>
    calls t \<le> calls s + 1 + nat (mp_maxRounds (cf_policy (call_frame_of name args' ctx resolved decision))) \<and>
    (gd_runInference deps = None \<longrightarrow> calls t = Suc (calls s)))"
  using assms
proof (cases rule: gateway_invoke_cases)
  case (called resolved decision args' s')
  with keeps_before_call [OF called(1)] calls_rounds [OF called(3)] calls_once [OF _ called(3)] show ?thesis by auto
next
  case (refused reason rule s')
  with keeps_before_call [OF refused(1)] keeps_refuse [OF refused(2)] show ?thesis by simp
next
  case (broken e)
  with keeps_before_call [OF broken(1)] show ?thesis by simp
next
  case (asked cap decision s')
  with keeps_before_call [OF asked(1)] keeps_ask_first [OF asked(3)] show ?thesis by simp
qed

end

end
