(* ===== verification/Secret_Redaction.thy ===== *)
theory Secret_Redaction
  imports Redaction Complex_Main
begin

text \<open>
  Redaction on the write path (\<^verbatim>\<open>packages/crypto/src/redaction.ts\<close>), which the audit log applies to its
  metadata: by key name, by the shape of a value and by its entropy.

  The patterns are sequences of atoms with a backtracking matcher; every repetition of the source is over a
  character class. The entropy test is exact arithmetic on whole numbers, equivalent to the source's comparison
  of real numbers (the source computes it in floating point). Values are trees of JSON, so cycles, dates, errors
  and binary data do not occur.
\<close>

subsection \<open>Patterns\<close>

datatype atom =
    Chars "char \<Rightarrow> bool" nat "nat option"
  | Word_boundary
  | At_start
  | At_end
  | Either "atom list list"

text \<open>Whether a sequence of atoms matches at a position, given the character before it.\<close>

definition word_char :: "char \<Rightarrow> bool" where
  "word_char c \<longleftrightarrow> is_alnum c \<or> c = CHR ''_''"

definition at_boundary :: "char option \<Rightarrow> string \<Rightarrow> bool" where
  "at_boundary prev s \<longleftrightarrow>
     (case prev of None \<Rightarrow> False | Some c \<Rightarrow> word_char c) \<noteq> (case s of [] \<Rightarrow> False | c # _ \<Rightarrow> word_char c)"

fun weight :: "atom \<Rightarrow> nat" where
  "weight (Either branches) = Suc (sum_list (map (\<lambda>b. Suc (sum_list (map weight b))) branches))"
| "weight _ = 1"

lemma weight_branch: "b \<in> set branches \<Longrightarrow> sum_list (map weight b) < weight (Either branches)"
proof -
  assume "b \<in> set branches"
  then have "Suc (sum_list (map weight b)) \<in> set (map (\<lambda>b. Suc (sum_list (map weight b))) branches)" by auto
  then have "Suc (sum_list (map weight b)) \<le> sum_list (map (\<lambda>b. Suc (sum_list (map weight b))) branches)"
    by (rule member_le_sum_list) simp
  then show ?thesis by simp
qed

function matches_at :: "atom list \<Rightarrow> char option \<Rightarrow> string \<Rightarrow> bool" where
  "matches_at [] prev s = True"
| "matches_at (Chars P lo hi # rest) prev s =
     ((lo = 0 \<and> matches_at rest prev s) \<or>
      (hi \<noteq> Some 0 \<and>
       (case s of
          [] \<Rightarrow> False
        | c # t \<Rightarrow> P c \<and> matches_at (Chars P (lo - 1) (map_option (\<lambda>n. n - 1) hi) # rest) (Some c) t)))"
| "matches_at (Word_boundary # rest) prev s = (at_boundary prev s \<and> matches_at rest prev s)"
| "matches_at (At_start # rest) prev s = (prev = None \<and> matches_at rest prev s)"
| "matches_at (At_end # rest) prev s = (s = [] \<and> matches_at rest prev s)"
| "matches_at (Either branches # rest) prev s = list_ex (\<lambda>b. matches_at (b @ rest) prev s) branches"
  by pat_completeness auto
termination
proof (relation "measures [\<lambda>(re, prev, s). length s, \<lambda>(re, prev, s). sum_list (map weight re)]", goal_cases)
  case (7 branches rest prev s b)
  then show ?case using weight_branch [of b branches] by simp
qed simp_all

fun matches_from :: "atom list \<Rightarrow> char option \<Rightarrow> string \<Rightarrow> bool" where
  "matches_from re prev [] = matches_at re prev []"
| "matches_from re prev (c # s) = (matches_at re prev (c # s) \<or> matches_from re (Some c) s)"

text \<open>\<^verbatim>\<open>re.test(s)\<close>; with the flag \<^verbatim>\<open>i\<close> on the lower-cased text.\<close>

definition test :: "atom list \<Rightarrow> string \<Rightarrow> bool" where
  "test re s = matches_from re None s"

definition lit :: "string \<Rightarrow> atom list" where
  "lit s = map (\<lambda>c. Chars (\<lambda>d. d = c) 1 (Some 1)) s"

definition optional_atom :: "(char \<Rightarrow> bool) \<Rightarrow> atom" where
  "optional_atom P = Chars P 0 (Some 1)"

definition dash_or_underscore :: "char \<Rightarrow> bool" where
  "dash_or_underscore c \<longleftrightarrow> c = CHR ''-'' \<or> c = CHR ''_''"

definition js_space :: "char \<Rightarrow> bool" where
  "js_space c \<longleftrightarrow> code c \<in> {9, 10, 11, 12, 13, 32, 160}"

definition SENSITIVE_KEY :: "atom list list" where
  "SENSITIVE_KEY =
     [lit ''pass'' @ [Either [lit ''word'', lit ''wd'', lit ''phrase'', []]],
      lit ''secret'', lit ''token'',
      lit ''api'' @ [optional_atom dash_or_underscore] @ lit ''key'',
      [Either [[At_start], [Chars dash_or_underscore 1 (Some 1)]]] @ lit ''key'' @ [At_end],
      lit ''credential'', lit ''authorization'',
      lit ''auth'' @ [optional_atom dash_or_underscore] @ lit ''header'',
      lit ''cookie'',
      lit ''session'' @ [optional_atom dash_or_underscore] @ lit ''id'',
      lit ''private'' @ [optional_atom dash_or_underscore] @ lit ''key'',
      lit ''client'' @ [optional_atom dash_or_underscore] @ lit ''secret'',
      lit ''refresh'' @ [optional_atom dash_or_underscore] @ lit ''token'',
      lit ''access'' @ [optional_atom dash_or_underscore] @ lit ''token'',
      lit ''bearer'', lit ''signature'', lit ''salt'', lit ''otp'', lit ''mfa'',
      lit ''pin'' @ [At_end]]"

definition isSensitiveKey_log :: "string \<Rightarrow> bool" where
  "isSensitiveKey_log key = test [Either SENSITIVE_KEY] (to_lower key)"

definition token_char :: "char \<Rightarrow> bool" where
  "token_char c \<longleftrightarrow> is_alnum c \<or> dash_or_underscore c"

definition hex_digit :: "char \<Rightarrow> bool" where
  "hex_digit c \<longleftrightarrow> is_digit c \<or> (97 \<le> code c \<and> code c \<le> 102)"

definition SECRET_VALUE_PATTERNS :: "atom list list" where
  "SECRET_VALUE_PATTERNS =
     [[Word_boundary] @ lit ''sk-'' @ [Chars token_char 16 None],
      [Word_boundary] @ lit ''sk_'' @ [Either [lit ''live'', lit ''test'']] @ lit ''_'' @ [Chars token_char 12 None],
      [Word_boundary] @ lit ''gh'' @ [Chars (\<lambda>c. c \<in> set ''pousr'') 1 (Some 1)] @ lit ''_'' @ [Chars is_alnum 20 None],
      [Word_boundary] @ lit ''xox'' @ [Chars (\<lambda>c. c \<in> set ''abprs'') 1 (Some 1)] @ lit ''-'' @
        [Chars (\<lambda>c. is_alnum c \<or> c = CHR ''-'') 10 None],
      lit ''-----BEGIN '' @ [Chars (\<lambda>c. is_upper c \<or> c = CHR '' '') 0 None] @ lit ''PRIVATE KEY-----'',
      [Word_boundary] @ lit ''eyJ'' @ [Chars token_char 10 None] @ lit ''.'' @ [Chars token_char 10 None] @ lit ''.'',
      [Word_boundary] @ lit ''mongodb'' @ [Either [lit ''+srv'', []]] @ lit ''://'' @
        [Chars (\<lambda>c. c \<noteq> CHR '':'' \<and> \<not> js_space c) 1 None] @ lit '':'' @
        [Chars (\<lambda>c. c \<noteq> CHR ''@'' \<and> \<not> js_space c) 1 None] @ lit ''@'',
      [Word_boundary, Chars is_lower 1 None] @ lit ''://'' @
        [Chars (\<lambda>c. c \<noteq> CHR '':'' \<and> c \<noteq> CHR ''/'' \<and> \<not> js_space c) 1 None] @ lit '':'' @
        [Chars (\<lambda>c. c \<noteq> CHR ''@'' \<and> \<not> js_space c) 1 None] @ lit ''@'']"

text \<open>The safe shapes; those with the flag \<^verbatim>\<open>i\<close> are tried on the lower-cased text.\<close>

definition hex_run :: "nat \<Rightarrow> atom list" where
  "hex_run n = [Chars hex_digit n (Some n)]"

definition known_safe :: "string \<Rightarrow> bool" where
  "known_safe s \<longleftrightarrow>
     test ([At_start] @ hex_run 8 @ lit ''-'' @ hex_run 4 @ lit ''-'' @ hex_run 4 @ lit ''-'' @ hex_run 4 @ lit ''-'' @
       hex_run 12 @ [At_end]) (to_lower s) \<or>
     test ([At_start, Chars is_lower 3 (Some 4)] @ lit ''_'' @ hex_run 8 @ lit ''-'' @ hex_run 4 @ lit ''-'') (to_lower s) \<or>
     test ([At_start, Chars is_digit 4 (Some 4)] @ lit ''-'' @ [Chars is_digit 2 (Some 2)] @ lit ''-'' @
       [Chars is_digit 2 (Some 2)] @ lit ''T'' @ [Chars (\<lambda>c. is_digit c \<or> c = CHR '':'' \<or> c = CHR ''.'') 1 None,
       Chars (\<lambda>c. c = CHR ''Z'') 0 (Some 1), At_end]) s \<or>
     test ([At_start] @ lit ''sha256:'' @ hex_run 64 @ [At_end]) (to_lower s)"

subsection \<open>Entropy\<close>

definition count_of :: "string \<Rightarrow> char \<Rightarrow> nat" where
  "count_of s c = length (filter (\<lambda>d. d = c) s)"

definition shannonEntropy :: "string \<Rightarrow> real" where
  "shannonEntropy s =
     (if s = [] then 0
      else sum_list (map (\<lambda>c. - (real (count_of s c) / real (length s)) * log 2 (real (count_of s c) / real (length s)))
        (remdups s)))"

definition ENTROPY_MIN_LENGTH :: nat where
  "ENTROPY_MIN_LENGTH = 25"

text \<open>\<open>shannonEntropy s \<ge> 7/2\<close>, without logarithms.\<close>

definition dense :: "string \<Rightarrow> bool" where
  "dense s \<longleftrightarrow> 2 ^ (7 * length s) * prod_list (map (\<lambda>c. count_of s c ^ (2 * count_of s c)) (remdups s)) \<le>
     length s ^ (2 * length s)"

definition looksSecret :: "string \<Rightarrow> bool" where
  "looksSecret s \<longleftrightarrow>
     (if list_ex (\<lambda>p. test p s) SECRET_VALUE_PATTERNS then True
      else if length s < ENTROPY_MIN_LENGTH then False
      else if known_safe s then False
      else if list_ex js_space s then False
      else dense s)"

subsection \<open>The walk\<close>

text \<open>A key is sensitive by its name or because the caller lists it.\<close>

definition sensitive_log :: "redact_options \<Rightarrow> string option \<Rightarrow> bool" where
  "sensitive_log opts key =
     (case key of None \<Rightarrow> False | Some k \<Rightarrow> isSensitiveKey_log k \<or> to_lower k \<in> set (extra_keys opts))"

definition max_string_log :: "redact_options \<Rightarrow> nat" where
  "max_string_log opts = (case ro_maxStringLength opts of Some n \<Rightarrow> n | None \<Rightarrow> 4096)"

fun redact_walk :: "redact_options \<Rightarrow> jsv \<Rightarrow> nat \<Rightarrow> string option \<Rightarrow> jsv" where
  "redact_walk opts JNull depth key = JNull"
| "redact_walk opts JUndefined depth key = JUndefined"
| "redact_walk opts (JStr s) depth key =
     (if sensitive_log opts key then JStr REDACTED
      else if looksSecret s then JStr REDACTED
      else JStr (truncate_string (max_string_log opts) s))"
| "redact_walk opts (JNum i) depth key = (if sensitive_log opts key then JStr REDACTED else JNum i)"
| "redact_walk opts (JBool b) depth key = (if sensitive_log opts key then JStr REDACTED else JBool b)"
| "redact_walk opts (JArr vs) depth key =
     (if depth \<ge> max_depth opts then JStr ''[depth limit]''
      else JArr (map (\<lambda>v. redact_walk opts v (depth + 1) key) vs))"
| "redact_walk opts (JObj es) depth key =
     (if depth \<ge> max_depth opts then JStr ''[depth limit]''
      else JObj (map (\<lambda>(k, v). (k, redact_walk opts v (depth + 1) (Some k))) es))"

definition redact :: "jsv \<Rightarrow> redact_options \<Rightarrow> jsv" where
  "redact value opts = redact_walk opts value 0 None"

text \<open>The keys a schema marks sensitive, without repetition in the order first found.\<close>

fun first_occurrences :: "string list \<Rightarrow> string list" where
  "first_occurrences [] = []"
| "first_occurrences (x # xs) = x # filter (\<lambda>y. y \<noteq> x) (first_occurrences xs)"

definition as_entries :: "jsv \<Rightarrow> (string \<times> jsv) list" where
  "as_entries v = (case v of JObj es \<Rightarrow> es | JArr vs \<Rightarrow> zip (map show_nat [0..<length vs]) vs | _ \<Rightarrow> [])"

definition own_member :: "jsv \<Rightarrow> string \<Rightarrow> jsv" where
  "own_member v k = (case map_of (as_entries v) k of Some w \<Rightarrow> w | None \<Rightarrow> JUndefined)"

fun is_container :: "jsv \<Rightarrow> bool" where
  "is_container (JObj es) = True"
| "is_container (JArr vs) = True"
| "is_container _ = False"

text \<open>\<open>levels\<close> is the number of levels left below the limit of eight.\<close>

fun schema_keys :: "nat \<Rightarrow> jsv \<Rightarrow> string list" where
  "schema_keys levels schema =
     (if \<not> is_container schema then []
      else first_occurrences
        (concat (map (\<lambda>(key, sub).
             if is_container sub then
               (if own_member sub ''format'' = JStr ''password'' \<or> own_member sub ''writeOnly'' = JBool True \<or>
                   isSensitiveKey_log key then [key] else []) @
               (case levels of 0 \<Rightarrow> [] | Suc n \<Rightarrow> schema_keys n sub)
             else []) (as_entries (own_member schema ''properties''))) @
         concat (map (\<lambda>combinator. case own_member schema combinator of
             JArr branches \<Rightarrow> concat (map (\<lambda>branch. case levels of 0 \<Rightarrow> [] | Suc n \<Rightarrow> schema_keys n branch) branches)
           | _ \<Rightarrow> []) [''oneOf'', ''anyOf'', ''allOf''])))"

definition sensitiveKeysFromSchema :: "jsv \<Rightarrow> string list" where
  "sensitiveKeysFromSchema schema = schema_keys 8 schema"

subsection \<open>Lemmas\<close>

lemma count_of_pos: "c \<in> set s \<Longrightarrow> 0 < count_of s c"
  by (auto simp: count_of_def filter_empty_conv)

lemma sum_counts: "(\<Sum>c \<in> set s. count_of s c) = length s"
proof -
  have "(\<Sum>c \<in> set s. count_of s c) = (\<Sum>c \<in> set s. count_list s c)"
    by (simp add: count_of_def count_list_eq_length_filter eq_commute)
  then show ?thesis by (simp add: sum_count_set)
qed

lemma entropy_eq:
  assumes "s \<noteq> []"
  shows "real (length s) * shannonEntropy s =
    real (length s) * log 2 (real (length s)) - (\<Sum>c \<in> set s. real (count_of s c) * log 2 (real (count_of s c)))"
proof -
  let ?n = "real (length s)" and ?k = "\<lambda>c. real (count_of s c)"
  have n: "0 < ?n" using assms by simp
  have "shannonEntropy s = (\<Sum>c \<in> set s. - (?k c / ?n) * log 2 (?k c / ?n))"
    using assms by (simp add: shannonEntropy_def sum.set_conv_list)
  then have "?n * shannonEntropy s = (\<Sum>c \<in> set s. ?n * (- (?k c / ?n) * log 2 (?k c / ?n)))"
    by (simp add: sum_distrib_left)
  also have "\<dots> = (\<Sum>c \<in> set s. ?k c * log 2 ?n - ?k c * log 2 (?k c))"
    using n count_of_pos by (intro sum.cong) (auto simp: log_divide field_simps)
  also have "\<dots> = (\<Sum>c \<in> set s. ?k c) * log 2 ?n - (\<Sum>c \<in> set s. ?k c * log 2 (?k c))"
    by (simp add: sum_subtractf sum_distrib_right)
  also have "(\<Sum>c \<in> set s. ?k c) = ?n" using sum_counts [of s] by (simp flip: of_nat_sum)
  finally show ?thesis .
qed

lemma real_prod_list: "real (prod_list (map f xs)) = prod_list (map (\<lambda>x. real (f x)) xs)"
  by (induction xs) simp_all

lemma prod_counts:
  "real (prod_list (map (\<lambda>c. count_of s c ^ (2 * count_of s c)) (remdups s))) =
   (\<Prod>c \<in> set s. real (count_of s c) ^ (2 * count_of s c))"
  unfolding real_prod_list by (simp add: prod.set_conv_list)

lemma log_prod_powers:
  assumes "finite A" "\<And>c. c \<in> A \<Longrightarrow> 0 < (k c :: nat)"
  shows "0 < (\<Prod>c \<in> A. real (k c) ^ (2 * k c)) \<and>
    log 2 (\<Prod>c \<in> A. real (k c) ^ (2 * k c)) = 2 * (\<Sum>c \<in> A. real (k c) * log 2 (real (k c)))"
  using assms
proof (induction A rule: finite_induct)
  case (insert c A)
  have "0 < real (k c) ^ (2 * k c)" using insert.prems by simp
  moreover have "log 2 (real (k c) ^ (2 * k c)) = 2 * (real (k c) * log 2 (real (k c)))"
    using insert.prems by (simp add: log_nat_power)
  ultimately show ?case using insert by (simp add: log_mult)
qed simp

text \<open>The test on whole numbers is the comparison of the entropy with the threshold.\<close>

lemma dense_iff:
  assumes "s \<noteq> []"
  shows "dense s \<longleftrightarrow> 7 / 2 \<le> shannonEntropy s"
proof -
  let ?n = "real (length s)"
  let ?K = "\<Sum>c \<in> set s. real (count_of s c) * log 2 (real (count_of s c))"
  let ?P = "\<Prod>c \<in> set s. real (count_of s c) ^ (2 * count_of s c)"
  have n: "0 < ?n" using assms by simp
  have P: "0 < ?P" "log 2 ?P = 2 * ?K"
    using log_prod_powers [of "set s" "count_of s"] count_of_pos by auto
  have logs: "log 2 (2 ^ (7 * length s) * p) = 7 * ?n + 2 * k" if "0 < p" "log 2 p = 2 * k" for p k :: real
    using that by (simp add: log_mult log_nat_power)
  have "dense s \<longleftrightarrow> real (2 ^ (7 * length s) * prod_list (map (\<lambda>c. count_of s c ^ (2 * count_of s c)) (remdups s))) \<le>
      real (length s ^ (2 * length s))"
    by (simp only: dense_def of_nat_le_iff)
  also have "\<dots> \<longleftrightarrow> 2 ^ (7 * length s) * ?P \<le> ?n ^ (2 * length s)"
    using prod_counts [of s] by simp
  also have "\<dots> \<longleftrightarrow> log 2 (2 ^ (7 * length s) * ?P) \<le> log 2 (?n ^ (2 * length s))"
    using P(1) n by (intro log_le_cancel_iff [symmetric]) auto
  also have "\<dots> \<longleftrightarrow> 7 * ?n + 2 * ?K \<le> 2 * ?n * log 2 ?n"
    using logs [OF P] n by (simp add: log_nat_power)
  also have "\<dots> \<longleftrightarrow> 7 / 2 * ?n \<le> ?n * shannonEntropy s"
    unfolding entropy_eq [OF assms] by (simp add: field_simps)
  also have "\<dots> \<longleftrightarrow> 7 / 2 \<le> shannonEntropy s" using n by (simp add: mult.commute)
  finally show ?thesis .
qed

text \<open>The strings a redacted value may still show, and what it keeps from its input.\<close>

inductive leaf :: "jsv \<Rightarrow> string option \<Rightarrow> jsv \<Rightarrow> string option \<Rightarrow> bool" where
  leaf_here: "\<not> is_container v \<Longrightarrow> leaf v key v key"
| leaf_arr: "v \<in> set vs \<Longrightarrow> leaf v key w k \<Longrightarrow> leaf (JArr vs) key w k"
| leaf_obj: "(k', v) \<in> set es \<Longrightarrow> leaf v (Some k') w k \<Longrightarrow> leaf (JObj es) key w k"

inductive_cases leaf_arrE: "leaf (JArr vs) key w k"
inductive_cases leaf_objE: "leaf (JObj es) key w k"

lemma leaf_prim [simp]: "\<not> is_container v \<Longrightarrow> leaf v key w k \<longleftrightarrow> w = v \<and> k = key"
  by (auto elim: leaf.cases intro: leaf_here)

lemma leaf_not_container: "leaf v key w k \<Longrightarrow> \<not> is_container w"
  by (induction rule: leaf.induct) auto

lemma redact_leaf:
  assumes "leaf (redact_walk opts v depth key) key w k"
  shows "w = JStr ''[depth limit]'' \<or> (\<exists>u. leaf v key u k \<and> w = redact_walk opts u 0 k)"
  using assms
proof (induction opts v depth key arbitrary: w rule: redact_walk.induct)
  case (6 opts vs depth key)
  show ?case
  proof (cases "depth \<ge> max_depth opts")
    case True
    with "6.prems" show ?thesis by (auto elim: leaf.cases)
  next
    case False
    with "6.prems" obtain v where v: "v \<in> set vs" "leaf (redact_walk opts v (depth + 1) key) key w k"
      by (auto elim!: leaf_arrE)
    from "6.IH" [OF False v] v(1) show ?thesis by (auto intro: leaf_arr)
  qed
next
  case (7 opts es depth key)
  show ?case
  proof (cases "depth \<ge> max_depth opts")
    case True
    with "7.prems" show ?thesis by (auto elim: leaf.cases)
  next
    case False
    with "7.prems" obtain k' v where v: "(k', v) \<in> set es" "leaf (redact_walk opts v (depth + 1) (Some k')) (Some k') w k"
      by (auto elim!: leaf_objE)
    from "7.IH" [OF False v(1) refl v(2)] v(1) show ?thesis by (auto intro: leaf_obj)
  qed
qed (auto split: if_splits)

subsection \<open>Properties\<close>

text \<open>
  C37. What a redacted record may still show. Every leaf of it is a fixed mark, or comes from a leaf of the input
  under the same key: a value that is absent, or one whose key is not sensitive and that, if it is a text, has no
  secret shape; such a text appears cut at the limit.
\<close>

theorem redact_hides_secrets:
  assumes "leaf (redact value opts) None w key"
  shows "w \<in> {JStr ''[depth limit]'', JStr REDACTED} \<or>
    (\<exists>u. leaf value None u key \<and> (u \<in> {JNull, JUndefined} \<and> w = u \<or> \<not> sensitive_log opts key \<and>
       (case u of JStr s \<Rightarrow> \<not> looksSecret s \<and> w = JStr (truncate_string (max_string_log opts) s) | _ \<Rightarrow> w = u)))"
proof -
  from redact_leaf [OF assms [unfolded redact_def]] consider "w = JStr ''[depth limit]''"
    | u where "leaf value None u key" "w = redact_walk opts u 0 key" by blast
  then show ?thesis
  proof cases
    case (2 u)
    with leaf_not_container [OF assms] show ?thesis by (cases u) (auto split: if_splits)
  qed simp
qed

definition sample_record :: jsv where
  "sample_record = JObj [(''password'', JStr ''hunter2''), (''query'', JStr ''invoices'')]"

theorem redact_hides_secrets_witness:
  "\<not> leaf (redact sample_record no_options) None (JStr ''hunter2'') (Some ''password'')"
proof
  assume leaf: "leaf (redact sample_record no_options) None (JStr ''hunter2'') (Some ''password'')"
  have "isSensitiveKey_log ''password''" by code_simp
  with redact_hides_secrets [OF leaf] show False by (auto simp: REDACTED_def sensitive_log_def)
qed

text \<open>
  The entropy rule, exactly: the test on whole numbers holds of a text if and only if its Shannon entropy is
  at least three and a half bits per character.
\<close>

theorem looksSecret_entropy:
  "looksSecret s \<longleftrightarrow> list_ex (\<lambda>p. test p s) SECRET_VALUE_PATTERNS \<or>
     (25 \<le> length s \<and> \<not> known_safe s \<and> \<not> list_ex js_space s \<and> 7 / 2 \<le> shannonEntropy s)"
proof (cases "s = []")
  case True
  then show ?thesis by (auto simp: looksSecret_def ENTROPY_MIN_LENGTH_def)
next
  case False
  with dense_iff [OF this] show ?thesis by (auto simp: looksSecret_def ENTROPY_MIN_LENGTH_def)
qed

text \<open>
  A sensitive key hides only the values directly under it: a record that nests a secret one level below a
  sensitive key is written as it is, although the rule of the domain layer hides the whole of it.
\<close>

theorem nested_secret_kept:
  "redact (JObj [(''password'', JObj [(''value'', JStr ''hunter2'')])]) no_options =
     JObj [(''password'', JObj [(''value'', JStr ''hunter2'')])] \<and>
   redactDeep (JObj [(''password'', JObj [(''value'', JStr ''hunter2'')])]) no_options =
     JObj [(''password'', JStr REDACTED)]"
  by code_simp

end
