(* ===== verification/Gateway_Adapter.thy ===== *)
theory Gateway_Adapter
  imports Gateway Secret_Redaction
begin

text \<open>
  The gateway as the runtime sees it (\<^verbatim>\<open>apps/web/src/lib/gateway-adapter.ts\<close>): its dependencies filled in with the
  repositories of one workspace, for one run.

  The state is the run database and its conversations (\<open>world\<close>) beside the host's other collections. A server may
  read all of it but writes only outside it (first-party servers keep their own collections, and the conversation
  server only reads). The clock and the id of the approval a call may create are arguments; a call creates one at
  most.
\<close>

record 'y adapter_deps =
  ad_workspaceId :: id
  ad_principal :: principal
  ad_agentId :: "id option"
  ad_userId :: "id option"
  ad_runId :: id
  ad_toolCalls :: int
  ad_now :: time
  ad_newId :: id
  ad_duration :: "world \<times> 'y host \<Rightarrow> int"
  ad_server :: "server_definition \<Rightarrow> connection_scope \<Rightarrow> tool_request \<Rightarrow> int \<Rightarrow> world \<times> 'y host \<Rightarrow> (call_error + jsv) \<times> 'y"

definition APPROVAL_TTL_MS :: int where
  "APPROVAL_TTL_MS = 24 * 60 * 60 * 1000"

definition scopeKeys :: "'y adapter_deps \<Rightarrow> string list" where
  "scopeKeys ad = (case ad_userId ad of Some u \<Rightarrow> [''workspace'', ''user:'' @ u] | None \<Rightarrow> [''workspace''])"

definition load_capabilities :: "'y adapter_deps \<Rightarrow> 'y host \<Rightarrow> mcp_capability list" where
  "load_capabilities ad h = listForScope (ad_workspaceId ad) (scopeKeys ad) (ho_capabilities h)"

text \<open>\<^verbatim>\<open>mcpServerById\<close>: the platform's rows and the workspace's own.\<close>

definition mcpServerById :: "id \<Rightarrow> 'y host \<Rightarrow> id \<Rightarrow> server_record option" where
  "mcpServerById ws h i = map_option snd
     (List.find (\<lambda>(owner, s). sv_id s = i \<and> (owner = None \<or> owner = Some ws)) (ho_servers h))"

definition resolveCapability :: "'y adapter_deps \<Rightarrow> string \<Rightarrow> 'y host \<Rightarrow> resolved_capability option" where
  "resolveCapability ad canonicalName h =
     (if splitCanonicalName canonicalName = None then None
      else
        (case List.find (\<lambda>c. cap_canonicalName c = canonicalName) (load_capabilities ad h) of
           None \<Rightarrow> None
         | Some found \<Rightarrow>
             (case registry_resolve (binding_load (ad_workspaceId ad) (mcpServerById (ad_workspaceId ad) h) (ho_bindings h))
                (ad_workspaceId ad) (cap_bindingId found) (ad_userId ad) of
                Inl _ \<Rightarrow> None
              | Inr resolved \<Rightarrow> Some \<lparr>rcp_capability = found, rcp_definition = rb_definition resolved,
                  rcp_scope = rb_scope resolved, rcp_mrtrPolicy = Some (rb_mrtrPolicy resolved),
                  rcp_timeoutMs = Some (rb_timeoutMs resolved)\<rparr>)))"

definition known_tier :: "id \<Rightarrow> trust_tier option" where
  "known_tier bindingId = (if isFirstParty bindingId then Some First_party else None)"

definition broker_input_for :: "'y adapter_deps \<Rightarrow> mcp_capability \<Rightarrow> jsv \<Rightarrow> invocation_context \<Rightarrow> broker_input" where
  "broker_input_for ad cap args ctx =
     \<lparr>bi_principal = ad_principal ad, bi_agentId = ad_agentId ad, bi_bindingId = cap_bindingId cap,
      bi_scopeKey = cap_scopeKey cap, bi_capabilityName = cap_name cap, bi_args = args,
      bi_callsThisRun = ic_callsThisRun ctx\<rparr>"

definition adapter_decide :: "'y adapter_deps \<Rightarrow> mcp_capability \<Rightarrow> jsv \<Rightarrow> invocation_context \<Rightarrow> 'y host \<Rightarrow> permission_outcome" where
  "adapter_decide ad cap args ctx h =
     (let outcome = broker_decide (ad_workspaceId ad) known_tier (ad_now ad) (broker_input_for ad cap args ctx) h
      in \<lparr>po_effect = d_effect outcome, po_reason = d_reason outcome, po_matchedRuleId = d_matchedRuleId outcome\<rparr>)"

definition requestApproval :: "'y adapter_deps \<Rightarrow> string \<Rightarrow> jsv \<Rightarrow> world \<times> 'y host \<Rightarrow> id \<times> (world \<times> 'y host)" where
  "requestApproval ad kind payload = (\<lambda>(w, h).
     (case createApproval (ad_newId ad) (ad_workspaceId ad)
        \<lparr>ai_runId = ad_runId ad, ai_kind = kind, ai_payload = payload, ai_requestedAt = ad_now ad,
         ai_expiresAt = ad_now ad + APPROVAL_TTL_MS\<rparr> (w_db w) of
        (approval, db) \<Rightarrow> (ap_id approval, (w\<lparr>w_db := db\<rparr>, h))))"

text \<open>The audit repository redacts the metadata of an entry as it writes it.\<close>

definition audit_write :: "audit_entry \<Rightarrow> 'y host \<Rightarrow> 'y host" where
  "audit_write entry h =
     h\<lparr>ho_audit := ho_audit h @ [entry\<lparr>ae_metadata :=
       as_entries (redact (JObj ((''runId'', JStr (ae_runId entry)) # ae_metadata entry)) no_options)\<rparr>]\<rparr>"

definition adapter_gateway_deps :: "'y adapter_deps \<Rightarrow> (world \<times> 'y host) gateway_deps" where
  "adapter_gateway_deps ad =
     \<lparr>gd_resolveCapability = (\<lambda>canonicalName ctx s. (Inr (resolveCapability ad canonicalName (snd s)), s)),
      gd_decidePermission = (\<lambda>cap args ctx s. (Inr (adapter_decide ad cap args ctx (snd s)), s)),
      gd_requestApproval = (\<lambda>kind payload ctx s. (case requestApproval ad kind payload s of (i, s') \<Rightarrow> (Inr i, s'))),
      gd_runInference = None,
      gd_run = (\<lambda>definition scope request timeoutMs s.
        (case ad_server ad definition scope request timeoutMs s of
           (answer, y) \<Rightarrow> (answer, (fst s, (snd s)\<lparr>ho_outside := y\<rparr>)))),
      gd_blobs = None,
      gd_audit = (\<lambda>entry (w, h). (w, audit_write entry h)),
      gd_duration = ad_duration ad,
      gd_started = ad_now ad\<rparr>"

fun principal_type :: "principal \<Rightarrow> string" where
  "principal_type (User u w r) = ''user''"
| "principal_type (Api_key k w scopes) = ''api_key''"
| "principal_type (Channel_identity i w u trust) = ''channel_identity''"
| "principal_type (Agent a r w b) = ''agent''"
| "principal_type (System reason w) = ''system''"

definition contextFor :: "'y adapter_deps \<Rightarrow> invocation_context" where
  "contextFor ad =
     \<lparr>ic_workspaceId = ad_workspaceId ad, ic_runId = ad_runId ad, ic_agentId = ad_agentId ad,
      ic_principal = (principal_type (ad_principal ad), None), ic_callsThisRun = ad_toolCalls ad\<rparr>"

definition outcome_alias :: "string \<Rightarrow> id" where
  "outcome_alias canonicalName = (case splitCanonicalName canonicalName of Some (alias, _) \<Rightarrow> alias | None \<Rightarrow> [])"

fun to_tool_outcome :: "string \<Rightarrow> gateway_outcome \<Rightarrow> tool_outcome" where
  "to_tool_outcome canonicalName (Gw_result result durationMs rounds permission) =
     Tool_done (nr_content result) (nr_structured result) (nr_isError result) (outcome_alias canonicalName) durationMs rounds
       (map_option (\<lambda>p. (po_effect p, Some (po_reason p), po_matchedRuleId p)) permission)"
| "to_tool_outcome canonicalName (Gw_needs_approval approvalId reason) = Needs_approval approvalId reason"
| "to_tool_outcome canonicalName (Gw_needs_input approvalId requestState) =
     Needs_input approvalId (case requestState of Some t \<Rightarrow> t | None \<Rightarrow> [])"

definition adapter_listAvailable :: "'y adapter_deps \<Rightarrow> world \<times> 'y host \<Rightarrow> string + tool_declaration list" where
  "adapter_listAvailable ad s =
     fst (gateway_listAvailable (adapter_gateway_deps ad) (load_capabilities ad (snd s)) (contextFor ad) s)"

definition adapter_invoke :: "ajv_compiler \<Rightarrow> 'y adapter_deps \<Rightarrow> (world \<times> compiled_schemas \<times> 'y host) invoker" where
  "adapter_invoke ajv ad canonicalName args = (\<lambda>(w, compiled, h).
     (case gateway_invoke (adapter_gateway_deps ad) ajv canonicalName args (contextFor ad) compiled (w, h) of
        (Inl e, compiled', w', h') \<Rightarrow> (Inl e, w', compiled', h')
      | (Inr outcome, compiled', w', h') \<Rightarrow> (Inr (to_tool_outcome canonicalName outcome), w', compiled', h')))"

subsection \<open>What a call leaves alone\<close>

text \<open>
  The collections a tool call may not change: everything but the approvals and the audit log, which only grow,
  and the outside.
\<close>

definition frozen :: "world \<times> 'y host \<Rightarrow>
    (run_db \<times> conv_doc list \<times> (id \<times> message) list \<times> rollup) \<times>
    (capabilities \<times> (id \<times> policy_document) list \<times> binding_doc list \<times> (id option \<times> server_record) list \<times> (id \<times> perm_effect) list)" where
  "frozen s = (((w_db (fst s))\<lparr>db_approvals := []\<rparr>, w_convs (fst s), w_messages (fst s), w_rollup (fst s)),
     (ho_capabilities (snd s), ho_policies (snd s), ho_bindings (snd s), ho_servers (snd s), ho_defaults (snd s)))"

definition host_keeps :: "world \<times> 'y host \<Rightarrow> world \<times> 'y host \<Rightarrow> bool" where
  "host_keeps s t \<longleftrightarrow> frozen t = frozen s \<and>
     (\<exists>new. db_approvals (w_db (fst t)) = db_approvals (w_db (fst s)) @ new \<and> (\<forall>a \<in> set new. ap_decision a = None)) \<and>
     (\<exists>entries. ho_audit (snd t) = ho_audit (snd s) @ entries)"

lemma host_keeps_refl: "host_keeps s s"
  by (simp add: host_keeps_def)

lemma host_keeps_trans:
  assumes "host_keeps s t" "host_keeps t u"
  shows "host_keeps s u"
proof -
  from assms obtain new new' es es' where
    "db_approvals (w_db (fst t)) = db_approvals (w_db (fst s)) @ new" "\<forall>a \<in> set new. ap_decision a = None"
    "db_approvals (w_db (fst u)) = db_approvals (w_db (fst t)) @ new'" "\<forall>a \<in> set new'. ap_decision a = None"
    "ho_audit (snd t) = ho_audit (snd s) @ es" "ho_audit (snd u) = ho_audit (snd t) @ es'"
    unfolding host_keeps_def by blast
  then have "db_approvals (w_db (fst u)) = db_approvals (w_db (fst s)) @ (new @ new')"
    "\<forall>a \<in> set (new @ new'). ap_decision a = None" "ho_audit (snd u) = ho_audit (snd s) @ (es @ es')" by auto
  moreover have "frozen u = frozen s" using assms by (simp add: host_keeps_def)
  ultimately show ?thesis unfolding host_keeps_def by blast
qed

lemma host_keeps_audit: "host_keeps (w, h) (w, audit_write entry h)"
  by (simp add: host_keeps_def frozen_def audit_write_def)

lemma host_keeps_request:
  assumes "requestApproval ad kind payload s = (i, t)"
  shows "host_keeps s t"
  using assms by (cases s) (auto simp: requestApproval_def createApproval_def host_keeps_def frozen_def Let_def)

interpretation adapter: gateway_keeps "adapter_gateway_deps ad" host_keeps for ad :: "'y adapter_deps"
proof unfold_locales
  show "host_keeps s t" if "host_keeps s u" "host_keeps u t" for s t u :: "world \<times> 'y host"
    using that by (rule host_keeps_trans)
  show "host_keeps s t" if "gd_requestApproval (adapter_gateway_deps ad) kind payload ctx s = (asked, t)" for kind payload ctx s asked t
    using that host_keeps_request [of ad kind payload s]
    by (cases "requestApproval ad kind payload s") (simp add: adapter_gateway_deps_def)
  show "host_keeps s (gd_audit (adapter_gateway_deps ad) entry s)" for entry s
    by (cases s) (simp add: adapter_gateway_deps_def host_keeps_audit)
  show "host_keeps s t" if "gd_run (adapter_gateway_deps ad) dfn scope request timeoutMs s = (answer, t)"
    for dfn scope request timeoutMs s answer t
    using that by (auto simp: adapter_gateway_deps_def host_keeps_def frozen_def split: prod.splits)
qed (auto simp: adapter_gateway_deps_def host_keeps_refl)

lemma adapter_meter:
  assumes "\<forall>dfn scope request timeoutMs s.
    calls (snd (ad_server ad dfn scope request timeoutMs s)) = Suc (calls (ho_outside (snd s)))"
  shows "gateway_meter (adapter_gateway_deps ad) (\<lambda>s. calls (ho_outside (snd s)))"
proof unfold_locales
  show "calls (ho_outside (snd t)) = Suc (calls (ho_outside (snd s)))"
    if "gd_run (adapter_gateway_deps ad) dfn scope request timeoutMs s = (answer, t)"
    for dfn scope request timeoutMs s answer t
    using that assms [rule_format, of dfn scope request timeoutMs s]
    by (cases "ad_server ad dfn scope request timeoutMs s") (auto simp: adapter_gateway_deps_def)
  show "calls (ho_outside (snd t)) = calls (ho_outside (snd s))"
    if "gd_requestApproval (adapter_gateway_deps ad) kind payload ctx s = (asked, t)" for kind payload ctx s asked t
    using that by (auto simp: adapter_gateway_deps_def requestApproval_def split: prod.splits)
  show "calls (ho_outside (snd (gd_audit (adapter_gateway_deps ad) entry s))) = calls (ho_outside (snd s))" for entry s
    by (cases s) (auto simp: adapter_gateway_deps_def audit_write_def)
qed (auto simp: adapter_gateway_deps_def)

subsection \<open>Every call is answered and recorded\<close>

lemma adapter_invoke_gateway:
  assumes "adapter_invoke ajv ad name args (w, compiled, h) = (r, w', compiled', h')"
  obtains out where "gateway_invoke (adapter_gateway_deps ad) ajv name args (contextFor ad) compiled (w, h) = (out, compiled', w', h')"
    "r = map_sum id (to_tool_outcome name) out"
  using assms by (auto simp: adapter_invoke_def split: prod.splits sum.splits)

lemma translate_all_None: "\<exists>bs. translate_all None prefix i blocks s = (Inr bs, s)"
proof (induction blocks arbitrary: i)
  case (Cons block blocks)
  have "\<exists>b. translateBlock block None prefix i s = (Inr b, s)"
    by (auto simp: translateBlock_def Let_def split: jsv.splits)
  with Cons.IH [of "Suc i"] show ?case by auto
qed simp

lemma normalise_None: "\<exists>result. normaliseToolResult raw None prefix limit s = (Inr result, s)"
  using translate_all_None [of prefix 0 "array_of (member_of (or_default raw (JObj [])) ''content'')" s]
  by (auto simp: normaliseToolResult_def Let_def)

definition recorded :: "'y adapter_deps \<Rightarrow> string \<Rightarrow> world \<times> 'y host \<Rightarrow> world \<times> 'y host \<Rightarrow> bool" where
  "recorded ad name s t \<longleftrightarrow> (\<exists>entries entry. ho_audit (snd t) = ho_audit (snd s) @ entries \<and> entry \<in> set entries \<and>
     ae_subject entry = name \<and> ae_runId entry = ad_runId ad)"

lemma recorded_audit: "recorded ad name s (gw_audit (adapter_gateway_deps ad) (contextFor ad) action name metadata s)"
  by (cases s) (simp add: gw_audit_def adapter_gateway_deps_def audit_write_def recorded_def contextFor_def)

lemma recorded_trans:
  "host_keeps s t \<Longrightarrow> recorded ad name t u \<Longrightarrow> recorded ad name s u"
  "recorded ad name s t \<Longrightarrow> host_keeps t u \<Longrightarrow> recorded ad name s u"
  unfolding recorded_def host_keeps_def by fastforce+

definition answered :: "'y adapter_deps \<Rightarrow> string \<Rightarrow> world \<times> 'y host \<Rightarrow> (string + gateway_outcome) \<times> (world \<times> 'y host) \<Rightarrow> bool" where
  "answered ad name s r \<longleftrightarrow> (\<exists>outcome. fst r = Inr outcome) \<and> recorded ad name s (snd r)"

lemma answered_keeps: "host_keeps s s' \<Longrightarrow> answered ad name s' r \<Longrightarrow> answered ad name s r"
  by (auto simp: answered_def intro: recorded_trans)

lemma answered_refuse: "answered ad name s (gw_refuse (adapter_gateway_deps ad) name (contextFor ad) reason rule s)"
  by (simp add: answered_def gw_refuse_def Let_def recorded_audit)

lemma answered_failure: "answered ad name s (gw_failure (adapter_gateway_deps ad) name (contextFor ad) err rounds s)"
  by (simp add: answered_def gw_failure_def Let_def recorded_audit)

lemma answered_finish:
  assumes "cf_ctx f = contextFor ad" "cf_name f = name"
  shows "answered ad name s (finish_call (adapter_gateway_deps ad) f raw rounds s)"
proof -
  have blobs: "gd_blobs (adapter_gateway_deps ad) = None" by (simp add: adapter_gateway_deps_def)
  obtain result where "normaliseToolResult raw (gd_blobs (adapter_gateway_deps ad)) (''runs/'' @ ic_runId (cf_ctx f) @ ''/tools/'' @
      cf_name f @ ''-'' @ show_int (gd_started (adapter_gateway_deps ad))) None s = (Inr result, s)"
    unfolding blobs by (rule exE [OF normalise_None])
  with assms show ?thesis by (simp add: answered_def finish_call_def Let_def recorded_audit)
qed

lemma no_sampler: "gd_runInference (adapter_gateway_deps ad) = None"
  by (simp add: adapter_gateway_deps_def)

lemma audit_keeps: "host_keeps s (gw_audit (adapter_gateway_deps ad) ctx action name metadata s)"
  by (rule adapter.keeps_gw_audit)

lemma request_approval_ok:
  "\<exists>t. gd_requestApproval (adapter_gateway_deps ad) kind payload ctx s = (Inr (ad_newId ad), t) \<and> host_keeps s t"
proof -
  obtain t where "requestApproval ad kind payload s = (ad_newId ad, t)"
    by (cases s) (simp add: requestApproval_def createApproval_def Let_def)
  moreover from host_keeps_request [OF this] have "host_keeps s t" .
  ultimately show ?thesis by (simp add: adapter_gateway_deps_def)
qed

lemma answered_ask_first:
  "answered ad name s (ask_first (adapter_gateway_deps ad) name cap decision (contextFor ad) s)"
proof -
  obtain t where t: "gd_requestApproval (adapter_gateway_deps ad) ''tool_call'' (JObj [(''canonicalName'', JStr name),
      (''capabilityName'', JStr (cap_name cap)), (''bindingId'', JStr (cap_bindingId cap)), (''reason'', JStr (po_reason decision))])
      (contextFor ad) s = (Inr (ad_newId ad), t)" "host_keeps s t"
    using request_approval_ok by blast
  then show ?thesis
    by (auto simp: answered_def ask_first_def Let_def intro: recorded_trans recorded_audit)
qed

lemma answered_person:
  assumes "cf_ctx f = contextFor ad" "recorded ad name s s2"
  shows "answered ad name s (ask_person (adapter_gateway_deps ad) f raw classified s2)"
proof -
  obtain t where t: "gd_requestApproval (adapter_gateway_deps ad) ''mrtr_input'' (JObj [(''canonicalName'', JStr (cf_name f)),
      (''requests'', JArr (map (\<lambda>c. JObj [(''key'', JStr (ir_key c)), (''kind'', JStr (kind_text (ir_kind c))), (''params'', ir_params c)]) classified)),
      (''requestState'', (case request_state raw of Some t \<Rightarrow> JStr t | None \<Rightarrow> JUndefined))]) (contextFor ad) s2 = (Inr (ad_newId ad), t)"
    "host_keeps s2 t"
    using request_approval_ok by blast
  with assms show ?thesis by (auto simp: answered_def ask_person_def intro: recorded_trans)
qed

lemma recorded_input:
  assumes "cf_ctx f = contextFor ad" "cf_name f = name"
  shows "recorded ad name s (audit_input (adapter_gateway_deps ad) f raw classified decision rounds s)"
  using assms by (simp add: audit_input_def recorded_audit)

lemma answered_rounds:
  assumes "call_rounds (adapter_gateway_deps ad) f rounds inputResponses requestState s = (out, t)"
    and f: "cf_ctx f = contextFor ad" "cf_name f = name"
  shows "answered ad name s (out, t)"
  using assms(1)
proof (cases rule: call_rounds_cases)
  case (failed err s1)
  have "answered ad name s1 (out, t)" using answered_failure [of ad name s1 err rounds] failed(2) f by simp
  with adapter.keeps_run [OF failed(1)] show ?thesis by (rule answered_keeps)
next
  case (answered raw s1)
  have "Gateway_Adapter.answered ad name s1 (out, t)" using answered_finish [OF f, of s1 raw rounds] answered(2) by simp
  with adapter.keeps_run [OF answered(1)] show ?thesis by (rule answered_keeps)
next
  case (refused raw s1 reason classified decision)
  have "answered ad name s1 (out, t)" using recorded_input [OF f] refused(2,3) by (simp add: answered_def)
  with adapter.keeps_run [OF refused(1)] show ?thesis by (rule answered_keeps)
next
  case (person raw s1 classified decision)
  have "answered ad name s1 (out, t)"
    using answered_person [OF f(1) recorded_input [OF f], of s1 raw classified] person(2) by metis
  with adapter.keeps_run [OF person(1)] show ?thesis by (rule answered_keeps)
qed (simp_all add: no_sampler)

lemma answered_invoke:
  assumes "gateway_invoke (adapter_gateway_deps ad) ajv name args (contextFor ad) compiled s = (out, compiled', t)"
  shows "answered ad name s (out, t)"
  using assms
proof (cases rule: gateway_invoke_cases)
  case (refused reason rule s')
  have "answered ad name s' (out, t)" using answered_refuse [of ad name s' reason rule] refused(2) by simp
  with adapter.keeps_before_call [OF refused(1)] show ?thesis by (rule answered_keeps)
next
  case (broken e)
  then show ?thesis by (simp add: adapter_gateway_deps_def)
next
  case (asked cap decision s')
  have "answered ad name s' (out, t)" using answered_ask_first [of ad name s' cap decision] asked(3) by simp
  with adapter.keeps_before_call [OF asked(1)] show ?thesis by (rule answered_keeps)
next
  case (called resolved decision args' s')
  have "answered ad name s' (out, t)"
    by (rule answered_rounds [OF called(3)]) (simp_all add: call_frame_of_def)
  with adapter.keeps_before_call [OF called(1)] show ?thesis by (rule answered_keeps)
qed

subsection \<open>What a call needs\<close>

lemma resolveCapability_Some:
  assumes "resolveCapability ad name h = Some resolved"
  obtains binding server where "rcp_capability resolved \<in> set (ho_capabilities h)"
    "cap_workspaceId (rcp_capability resolved) = ad_workspaceId ad" "cap_scopeKey (rcp_capability resolved) \<in> set (scopeKeys ad)"
    "cap_canonicalName (rcp_capability resolved) = name"
    "binding_load (ad_workspaceId ad) (mcpServerById (ad_workspaceId ad) h) (ho_bindings h)
       (cap_bindingId (rcp_capability resolved)) = Some (binding, server)"
    "assertUsable binding server = Inr ()" "rcp_timeoutMs resolved = Some timeoutMs \<Longrightarrow> timeoutMs \<le> MAX_TOOL_TIMEOUT_MS"
proof -
  let ?load = "binding_load (ad_workspaceId ad) (mcpServerById (ad_workspaceId ad) h) (ho_bindings h)"
  from assms obtain found r where found: "List.find (\<lambda>c. cap_canonicalName c = name) (load_capabilities ad h) = Some found"
    and r: "registry_resolve ?load (ad_workspaceId ad) (cap_bindingId found) (ad_userId ad) = Inr r"
    and res: "rcp_capability resolved = found" "rcp_timeoutMs resolved = Some (rb_timeoutMs r)"
    by (auto simp: resolveCapability_def split: if_splits option.splits sum.splits)
  have "found \<in> set (load_capabilities ad h)" "cap_canonicalName found = name"
    using find_Some_in [OF found] by auto
  then have "found \<in> set (ho_capabilities h)" "cap_workspaceId found = ad_workspaceId ad"
    "cap_scopeKey found \<in> set (scopeKeys ad)"
    by (auto simp: load_capabilities_def listForScope_def)
  with res \<open>cap_canonicalName found = name\<close> show thesis
    by (rule_tac registry_resolve_Inr [OF r]) (auto intro: that)
qed

lemma assertUsable_ok: "assertUsable binding server = Inr () \<Longrightarrow> bd_enabled binding \<and> bd_status binding = Connected"
  by (cases "bd_status binding") (auto simp: assertUsable_def split: if_splits)

subsection \<open>Asking again\<close>

lemma rounds_never_ask_approval:
  assumes "call_rounds (adapter_gateway_deps ad) f rounds inputResponses requestState s = (out, t)"
  shows "out \<noteq> Inr (Gw_needs_approval i reason)"
  using assms
proof (cases rule: call_rounds_cases)
  case (answered raw s1)
  then show ?thesis by (auto simp: finish_call_def Let_def split: prod.splits sum.splits)
next
  case (person raw s1 classified decision)
  then show ?thesis by (auto simp: ask_person_def split: prod.splits sum.splits)
qed (auto simp: gw_failure_def Let_def no_sampler)

lemma adapter_deps_simps:
  "gd_resolveCapability (adapter_gateway_deps ad) name ctx s = (Inr (resolveCapability ad name (snd s)), s)"
  "gd_decidePermission (adapter_gateway_deps ad) cap args ctx s = (Inr (adapter_decide ad cap args ctx (snd s)), s)"
  by (simp_all add: adapter_gateway_deps_def)

text \<open>When the gateway asks a person before a call.\<close>

definition must_ask :: "'y adapter_deps \<Rightarrow> string \<Rightarrow> jsv \<Rightarrow> 'y host \<Rightarrow> mcp_capability \<Rightarrow> permission_outcome \<Rightarrow> bool" where
  "must_ask ad name args h cap decision \<longleftrightarrow> splitCanonicalName name \<noteq> None \<and>
     (\<exists>resolved. resolveCapability ad name h = Some resolved \<and> rcp_capability resolved = cap) \<and>
     capabilityBlockReason cap = None \<and> decision = adapter_decide ad cap args (contextFor ad) h \<and> po_effect decision = Ask"

lemma invoke_asks:
  assumes "must_ask ad name args h cap decision"
  shows "gateway_invoke (adapter_gateway_deps ad) ajv name args (contextFor ad) compiled (w, h) =
    same_schemas compiled (ask_first (adapter_gateway_deps ad) name cap decision (contextFor ad) (w, h))"
proof -
  from assms obtain resolved where "splitCanonicalName name \<noteq> None" "resolveCapability ad name h = Some resolved"
    "rcp_capability resolved = cap" "capabilityBlockReason cap = None"
    "decision = adapter_decide ad cap args (contextFor ad) h" "po_effect decision = Ask"
    by (auto simp: must_ask_def)
  then show ?thesis by (auto simp: gateway_invoke_def adapter_deps_simps)
qed

lemma asks_only_if:
  assumes "gateway_invoke (adapter_gateway_deps ad) ajv name args (contextFor ad) compiled (w, h) =
    (Inr (Gw_needs_approval i reason), compiled', t)"
  obtains cap decision where "must_ask ad name args h cap decision"
proof -
  have split: "splitCanonicalName name \<noteq> None"
    using assms by (auto simp: gateway_invoke_def same_schemas_def gw_refuse_def Let_def split: if_splits)
  obtain resolved where res: "resolveCapability ad name h = Some resolved"
    using assms split
    by (cases "resolveCapability ad name h")
      (auto simp: gateway_invoke_def adapter_deps_simps same_schemas_def gw_refuse_def Let_def)
  let ?cap = "rcp_capability resolved"
  have block: "capabilityBlockReason ?cap = None"
    using assms split res
    by (cases "capabilityBlockReason ?cap")
      (auto simp: gateway_invoke_def adapter_deps_simps same_schemas_def gw_refuse_def Let_def)
  let ?decision = "adapter_decide ad ?cap args (contextFor ad) h"
  have "po_effect ?decision = Ask"
  proof (cases "po_effect ?decision")
    case Deny
    with assms split res block show ?thesis
      by (auto simp: gateway_invoke_def adapter_deps_simps same_schemas_def gw_refuse_def Let_def)
  next
    case Allow
    from assms split res block Allow have "validated_call (adapter_gateway_deps ad) ajv name args (contextFor ad) resolved ?decision
        compiled (w, h) = (Inr (Gw_needs_approval i reason), compiled', t)"
      by (auto simp: gateway_invoke_def adapter_deps_simps)
    moreover obtain v args' c where "schema_validate ajv (cap_definitionHash ?cap) (cap_inputSchema ?cap) args compiled = ((v, args'), c)"
      by (metis surj_pair)
    moreover obtain out s1 where rounds: "call_rounds (adapter_gateway_deps ad)
        (call_frame_of name args' (contextFor ad) resolved ?decision) 0 None None (w, h) = (out, s1)" by (metis surj_pair)
    ultimately have "out = Inr (Gw_needs_approval i reason)"
      by (cases v) (auto simp: validated_call_def gw_refuse_def Let_def)
    with rounds_never_ask_approval [OF rounds] show ?thesis by blast
  qed
  with split res block show thesis by (intro that [of ?cap ?decision]) (auto simp: must_ask_def)
qed

lemma must_ask_frozen:
  assumes "frozen (w', h') = frozen (w, h)"
  shows "must_ask (ad\<lparr>ad_newId := j\<rparr>) name args h' = must_ask ad name args h"
proof -
  have same: "ho_capabilities h' = ho_capabilities h" "ho_policies h' = ho_policies h" "ho_bindings h' = ho_bindings h"
    "ho_servers h' = ho_servers h" "ho_defaults h' = ho_defaults h"
    using assms by (auto simp: frozen_def)
  have "mcpServerById ws h' = mcpServerById ws h" for ws by (rule ext) (simp add: mcpServerById_def same)
  then have res: "resolveCapability (ad\<lparr>ad_newId := j\<rparr>) name h' = resolveCapability ad name h"
    by (simp add: resolveCapability_def load_capabilities_def scopeKeys_def same cong: option.case_cong)
  have "broker_question ws known now inp row h' = broker_question ws known now inp row h" for ws known now inp row
    by (simp add: broker_question_def trustTierOf_def defaultEffect_def same cong: option.case_cong)
  then have "broker_decide ws known now inp h' = broker_decide ws known now inp h" for ws known now inp
    by (simp add: broker_decide_def broker_row_def same cong: option.case_cong)
  then have "adapter_decide (ad\<lparr>ad_newId := j\<rparr>) cap args (contextFor (ad\<lparr>ad_newId := j\<rparr>)) h' =
      adapter_decide ad cap args (contextFor ad) h" for cap
    by (simp add: adapter_decide_def broker_input_for_def contextFor_def)
  with res show ?thesis by (simp add: must_ask_def [abs_def])
qed

lemma ask_first_outcome:
  obtains w' h' where "ask_first (adapter_gateway_deps ad) name cap decision ctx s =
    (Inr (Gw_needs_approval (ad_newId ad) (po_reason decision)), w', h')"
proof -
  obtain t where "gd_requestApproval (adapter_gateway_deps ad) ''tool_call'' (JObj [(''canonicalName'', JStr name),
      (''capabilityName'', JStr (cap_name cap)), (''bindingId'', JStr (cap_bindingId cap)), (''reason'', JStr (po_reason decision))])
      ctx s = (Inr (ad_newId ad), t)"
    using request_approval_ok by blast
  then have "\<exists>t'. ask_first (adapter_gateway_deps ad) name cap decision ctx s =
      (Inr (Gw_needs_approval (ad_newId ad) (po_reason decision)), t')" by (simp add: ask_first_def Let_def)
  then show thesis using that by (metis surj_pair)
qed

subsection \<open>Properties\<close>

text \<open>
  C1. What a call of a server needs. However the servers behave, one tool call of the runtime reaches a server
  once at most, and only for a tool of the workspace, discovered in the caller's own scope, that is approved at
  its current definition, over a binding that is enabled and connected, with arguments that pass the tool's
  schema, when the broker's row for it is usable, its server is first-party or it declares itself read-only, and
  no rule of the workspace, the assistant or the person that matches the call denies it.
\<close>

theorem tool_call_guarded:
  assumes "\<forall>dfn scope request timeoutMs s.
      calls (snd (ad_server ad dfn scope request timeoutMs s)) = Suc (calls (ho_outside (snd s)))"
    and "adapter_invoke ajv ad name args (w, compiled, h) = (r, w', compiled', h')"
  shows "calls (ho_outside h') = calls (ho_outside h) \<or>
    calls (ho_outside h') = Suc (calls (ho_outside h)) \<and>
    (\<exists>cap row binding server args'.
      (let ws = ad_workspaceId ad; inp = broker_input_for ad cap args (contextFor ad)
       in cap \<in> set (ho_capabilities h) \<and> cap_workspaceId cap = ws \<and> cap_scopeKey cap \<in> set (scopeKeys ad) \<and>
          cap_canonicalName cap = name \<and> isCapabilityUsable cap \<and>
          binding_load ws (mcpServerById ws h) (ho_bindings h) (cap_bindingId cap) = Some (binding, server) \<and>
          bd_enabled binding \<and> bd_status binding = Connected \<and>
          fst (schema_validate ajv (cap_definitionHash cap) (cap_inputSchema cap) args compiled) = (Valid, args') \<and>
          broker_row ws inp h = Some row \<and> isCapabilityUsable row \<and>
          floor_passes row (trustTierOf ws known_tier (cap_bindingId cap) h) \<and>
          (\<forall>doc \<in> set (loadForDecision ws (scopesFor inp) (ho_policies h)). \<forall>rule \<in> set (pd_rules doc).
             rule_matches (broker_question ws known_tier (ad_now ad) inp row h) rule \<longrightarrow> rule_effect rule \<noteq> Deny)))"
proof -
  obtain out where inv: "gateway_invoke (adapter_gateway_deps ad) ajv name args (contextFor ad) compiled (w, h) = (out, compiled', w', h')"
    using adapter_invoke_gateway [OF assms(2)] .
  from gateway_meter.calls_invoke [OF adapter_meter [OF assms(1)] inv] no_sampler [of ad] consider
    "calls (ho_outside h') = calls (ho_outside h)"
    | resolved decision args' s2 where "calls (ho_outside h') = Suc (calls (ho_outside h))"
      "guards_passed (adapter_gateway_deps ad) ajv name args (contextFor ad) compiled (w, h) resolved decision args' s2"
    by fastforce
  then show ?thesis
  proof cases
    case (2 resolved decision args' s2)
    let ?cap = "rcp_capability resolved"
    from 2(2) have res: "resolveCapability ad name h = Some resolved" and usable: "isCapabilityUsable ?cap"
      and dec: "po_effect (adapter_decide ad ?cap args (contextFor ad) h) = Allow"
      and valid: "fst (schema_validate ajv (cap_definitionHash ?cap) (cap_inputSchema ?cap) args compiled) = (Valid, args')"
      by (auto simp: guards_passed_def adapter_deps_simps)
    obtain binding server where cap: "?cap \<in> set (ho_capabilities h)" "cap_workspaceId ?cap = ad_workspaceId ad"
      "cap_scopeKey ?cap \<in> set (scopeKeys ad)" "cap_canonicalName ?cap = name"
      "binding_load (ad_workspaceId ad) (mcpServerById (ad_workspaceId ad) h) (ho_bindings h) (cap_bindingId ?cap) = Some (binding, server)"
      "assertUsable binding server = Inr ()"
      using resolveCapability_Some [OF res] by metis
    from dec have "d_effect (broker_decide (ad_workspaceId ad) known_tier (ad_now ad) (broker_input_for ad ?cap args (contextFor ad)) h) = Allow"
      by (simp add: adapter_decide_def Let_def)
    then obtain row where "broker_row (ad_workspaceId ad) (broker_input_for ad ?cap args (contextFor ad)) h = Some row"
      "isCapabilityUsable row" "floor_passes row (trustTierOf (ad_workspaceId ad) known_tier (cap_bindingId ?cap) h)"
      "\<forall>doc \<in> set (loadForDecision (ad_workspaceId ad) (scopesFor (broker_input_for ad ?cap args (contextFor ad))) (ho_policies h)).
         \<forall>rule \<in> set (pd_rules doc). rule_matches (broker_question (ad_workspaceId ad) known_tier (ad_now ad)
           (broker_input_for ad ?cap args (contextFor ad)) row h) rule \<longrightarrow> rule_effect rule \<noteq> Deny"
      by (rule broker_allow) (auto simp: broker_input_for_def)
    with 2(1) cap assertUsable_ok [OF cap(6)] usable valid show ?thesis unfolding Let_def by blast
  qed simp
qed

definition sample_host :: "nat host" where
  "sample_host = \<lparr>ho_capabilities = [], ho_policies = [], ho_bindings = [], ho_servers = [], ho_defaults = [], ho_audit = [],
     ho_outside = 0\<rparr>"

definition sample_adapter :: "nat adapter_deps" where
  "sample_adapter = \<lparr>ad_workspaceId = ''w1'', ad_principal = User ''u1'' ''w1'' Viewer, ad_agentId = Some ''a1'', ad_userId = Some ''u1'',
     ad_runId = ''r1'', ad_toolCalls = 0, ad_now = 5, ad_newId = ''apr_1'', ad_duration = (\<lambda>s. 1),
     ad_server = (\<lambda>dfn scope request timeoutMs s. (Inr (JObj []), Suc (ho_outside (snd s))))\<rparr>"

definition mail_host :: "nat host" where
  "mail_host = sample_host\<lparr>ho_capabilities := [sample_cap\<lparr>cap_scopeKey := ''workspace''\<rparr>],
     ho_bindings := [\<lparr>bo_id = ''b1'', bo_workspaceId = ''w1'', bo_agentId = None, bo_mcpServerId = ''m1'', bo_alias = ''mail'',
       bo_enabled = True, bo_status = Connected, bo_perUserAuth = False\<rparr>],
     ho_servers := [(None, \<lparr>sv_id = ''m1'', sv_transport = Streamable_http, sv_url = Some ''https://mail'', sv_trustTier = Community\<rparr>)]\<rparr>"

definition reading_host :: "nat host" where
  "reading_host = mail_host\<lparr>ho_capabilities := [sample_cap\<lparr>cap_scopeKey := ''workspace'',
     cap_annotations := Some [(''readOnlyHint'', JBool True)]\<rparr>], ho_defaults := [(''w1'', Allow)]\<rparr>"

theorem tool_call_guarded_witness:
  "let (r, w', c, h') = adapter_invoke (\<lambda>schema. None) sample_adapter ''mail__send'' (JObj []) (sample_world [], [], reading_host)
   in ho_outside h' = 1 \<and> (\<exists>cap \<in> set (ho_capabilities reading_host). isCapabilityUsable cap)"
proof -
  let ?call = "adapter_invoke (\<lambda>schema. None) sample_adapter ''mail__send'' (JObj []) (sample_world [], [], reading_host)"
  obtain r w' c h' where inv: "?call = (r, w', c, h')" by (metis surj_pair)
  have "ho_outside (snd (snd (snd ?call))) = 1" by code_simp
  then have one: "ho_outside h' = 1" by (simp add: inv)
  moreover have "ho_outside reading_host = 0" by code_simp
  ultimately have "\<exists>cap \<in> set (ho_capabilities reading_host). isCapabilityUsable cap"
    using tool_call_guarded [where calls = "\<lambda>n. n", OF _ inv] by (auto simp: sample_adapter_def Let_def)
  with one show ?thesis by (simp add: inv)
qed

text \<open>
  Every tool call comes back and is on record: the adapter never throws, the audit log only grows and holds a
  new entry for this tool and this run, no conversation, run, step, event, policy, capability or binding changes,
  and approvals are only added, undecided.
\<close>

theorem tool_call_recorded:
  assumes "adapter_invoke ajv ad name args (w, compiled, h) = (r, w', compiled', h')"
  shows "(\<exists>outcome. r = Inr outcome) \<and> frozen (w', h') = frozen (w, h) \<and>
    (\<exists>new. db_approvals (w_db w') = db_approvals (w_db w) @ new \<and> (\<forall>a \<in> set new. ap_decision a = None)) \<and>
    (\<exists>entries entry. ho_audit h' = ho_audit h @ entries \<and> entry \<in> set entries \<and> ae_subject entry = name \<and>
       ae_runId entry = ad_runId ad)"
proof -
  obtain out where inv: "gateway_invoke (adapter_gateway_deps ad) ajv name args (contextFor ad) compiled (w, h) = (out, compiled', w', h')"
    and r: "r = map_sum id (to_tool_outcome name) out"
    using adapter_invoke_gateway [OF assms] .
  from adapter.keeps_invoke [OF inv] answered_invoke [OF inv] r show ?thesis
    by (auto simp: host_keeps_def answered_def recorded_def)
qed

theorem tool_call_recorded_witness:
  "\<exists>outcome. fst (adapter_invoke (\<lambda>schema. None) sample_adapter ''web__fetch'' (JObj []) (sample_world [], [], sample_host)) = Inr outcome"
proof -
  obtain r w' c h' where "adapter_invoke (\<lambda>schema. None) sample_adapter ''web__fetch'' (JObj []) (sample_world [], [], sample_host) = (r, w', c, h')"
    by (metis surj_pair)
  with tool_call_recorded [OF this] show ?thesis by simp
qed

text \<open>
  A person's answer is not read when the call is made again. If a call had to ask, then the same call under
  the same policies asks again, with a new question, whatever the database has come to hold in between, a
  decision on the first question included.
\<close>

theorem answer_not_consulted:
  assumes "adapter_invoke ajv ad name args (w, compiled, h) = (Inr (Needs_approval i reason), w1, compiled1, h1)"
  shows "\<exists>w3 h3. adapter_invoke ajv (ad\<lparr>ad_newId := j\<rparr>) name args (w2, compiled1, h1) = (Inr (Needs_approval j reason), w3, compiled1, h3)"
proof -
  let ?ad = "ad\<lparr>ad_newId := j\<rparr>"
  obtain out where inv: "gateway_invoke (adapter_gateway_deps ad) ajv name args (contextFor ad) compiled (w, h) = (out, compiled1, w1, h1)"
    and r: "Inr (Needs_approval i reason) = map_sum id (to_tool_outcome name) out"
    using adapter_invoke_gateway [OF assms] .
  then obtain o' where "out = Inr o'" "to_tool_outcome name o' = Needs_approval i reason" by (cases out) auto
  then have out: "out = Inr (Gw_needs_approval i reason)" by (cases o') auto
  obtain cap decision where ask: "must_ask ad name args h cap decision"
    using inv out by (auto elim: asks_only_if)
  have "reason = po_reason decision"
    using inv out invoke_asks [OF ask, of ajv compiled w] ask_first_outcome [of ad name cap decision "contextFor ad" "(w, h)"]
    by (metis Pair_inject fst_conv gateway_outcome.inject(2) same_schemas_def sum.inject(2))
  have "frozen (w1, h1) = frozen (w, h)" using adapter.keeps_invoke [OF inv] by (simp add: host_keeps_def)
  with ask must_ask_frozen [where w' = w1 and h' = h1 and w = w and h = h and ad = ad and j = j] have "must_ask ?ad name args h1 cap decision" by simp
  moreover obtain w3 h3 where "ask_first (adapter_gateway_deps ?ad) name cap decision (contextFor ?ad) (w2, h1) =
      (Inr (Gw_needs_approval (ad_newId ?ad) (po_reason decision)), w3, h3)" by (rule ask_first_outcome)
  ultimately have "gateway_invoke (adapter_gateway_deps ?ad) ajv name args (contextFor ?ad) compiled1 (w2, h1) =
      (Inr (Gw_needs_approval j (po_reason decision)), compiled1, w3, h3)"
    using invoke_asks [of ?ad name args h1 cap decision ajv compiled1 w2] by (simp add: same_schemas_def)
  then show ?thesis by (simp add: adapter_invoke_def \<open>reason = po_reason decision\<close>)
qed

theorem answer_not_consulted_witness:
  "\<exists>w1 c1 h1 w3 h3. snd (decideApproval ''w1'' ''apr_1'' Approve ''u1'' None 9 (w_db w1)) \<and>
     adapter_invoke (\<lambda>schema. None) sample_adapter ''mail__send'' (JObj []) (sample_world [], [], mail_host) =
       (Inr (Needs_approval ''apr_1'' ''policy:default''), w1, c1, h1) \<and>
     adapter_invoke (\<lambda>schema. None) (sample_adapter\<lparr>ad_newId := ''apr_2''\<rparr>) ''mail__send'' (JObj [])
       (w1\<lparr>w_db := fst (decideApproval ''w1'' ''apr_1'' Approve ''u1'' None 9 (w_db w1))\<rparr>, c1, h1) =
       (Inr (Needs_approval ''apr_2'' ''policy:default''), w3, c1, h3)"
proof -
  let ?first = "adapter_invoke (\<lambda>schema. None) sample_adapter ''mail__send'' (JObj []) (sample_world [], [], mail_host)"
  have both: "case ?first of (r, w1, c1, h1) \<Rightarrow>
      r = Inr (Needs_approval ''apr_1'' ''policy:default'') \<and> snd (decideApproval ''w1'' ''apr_1'' Approve ''u1'' None 9 (w_db w1))" by code_simp
  then obtain w1 c1 h1 where first: "?first = (Inr (Needs_approval ''apr_1'' ''policy:default''), w1, c1, h1)"
    by (auto split: prod.splits)
  with both have "snd (decideApproval ''w1'' ''apr_1'' Approve ''u1'' None 9 (w_db w1))" by simp
  with first answer_not_consulted [OF first] show ?thesis by fastforce
qed

end
