(* ===== verification/Tenancy.thy ===== *)
theory Tenancy
  imports Prelude "HOL-Library.AList"
begin

text \<open>
  The tenant boundary: the collection registry (\<^verbatim>\<open>packages/db/src/collections.ts\<close>), the scoped collections all
  application code goes through (\<^verbatim>\<open>packages/db/src/scoped.ts\<close>) and the guard that inspects every command
  (\<^verbatim>\<open>packages/db/src/guard.ts\<close>).

  A document and a filter are JavaScript objects. What a filter selects is the database's documented rule: every
  clause must hold, \<^verbatim>\<open>$and\<close>, \<^verbatim>\<open>$or\<close> and \<^verbatim>\<open>$nor\<close> combine filters, and a clause on the tenant key is an equality or a
  set of operators; every other clause and operator is an argument, about which nothing is assumed. An update is a
  function of the document.
\<close>

subsection \<open>Collections\<close>

datatype tenancy = Tenant | Global | Mixed | Unclassified

definition GLOBAL_COLLECTIONS :: "string list" where
  "GLOBAL_COLLECTIONS = [''users'', ''platformSettings'', ''demoUsage'', ''authSessions'', ''identities'', ''authChallenges'',
     ''oauthClients'']"

definition TENANT_COLLECTIONS :: "string list" where
  "TENANT_COLLECTIONS = [''workspaces'', ''apiKeys'', ''credentials'', ''oauthConnections'', ''oauthGrants'', ''providerConfigs'',
     ''modelBindings'', ''agents'', ''agentVersions'', ''mcpServerBindings'', ''mcpCapabilities'', ''policies'', ''conversations'',
     ''messages'', ''runs'', ''runSteps'', ''runEvents'', ''approvals'', ''channels'', ''channelIdentities'', ''channelEvents'',
     ''auditLog'', ''usageDaily'', ''subscriptions'', ''schedules'', ''memoryEntries'', ''knowledgeDocuments'', ''knowledgeChunks'',
     ''media'']"

definition MIXED_COLLECTIONS :: "string list" where
  "MIXED_COLLECTIONS = [''mcpServers'']"

definition tenancyOf :: "string \<Rightarrow> tenancy" where
  "tenancyOf c =
     (if c \<in> set TENANT_COLLECTIONS then Tenant
      else if c \<in> set GLOBAL_COLLECTIONS then Global
      else if c \<in> set MIXED_COLLECTIONS then Mixed
      else Unclassified)"

definition isTenantCollection :: "string \<Rightarrow> bool" where
  "isTenantCollection c \<longleftrightarrow> c \<in> set TENANT_COLLECTIONS"

subsection \<open>The guard\<close>

definition TENANT_KEY :: string where
  "TENANT_KEY = ''workspaceId''"

text \<open>A constraint on the tenant key that names at least one tenant.\<close>

definition narrowing :: "jsv \<Rightarrow> bool" where
  "narrowing v =
     (case v of
        JObj ops \<Rightarrow>
          (let names = map fst ops
           in if \<not> list_ex (\<lambda>op. op = ''$eq'' \<or> op = ''$in'') names then False
              else if ''$in'' \<in> set names then (case map_of ops ''$in'' of Some (JArr (x # xs)) \<Rightarrow> True | _ \<Rightarrow> False)
              else True)
      | _ \<Rightarrow> True)"

fun array_items :: "jsv option \<Rightarrow> jsv list option" where
  "array_items (Some (JArr vs)) = Some vs"
| "array_items _ = None"

lemma map_of_items_size:
  assumes "array_items (map_of es k) = Some vs" "v \<in> set vs"
  shows "size v < size (JObj es)"
proof -
  from assms(1) have "map_of es k = Some (JArr vs)" by (cases "map_of es k" rule: array_items.cases) auto
  then have "(k, JArr vs) \<in> set es" by (rule map_of_SomeD)
  then have "size (JArr vs) < size (JObj es)" by (induction es) auto
  moreover from assms(2) have "size v < size (JArr vs)" by (induction vs) auto
  ultimately show ?thesis by linarith
qed

function filterConstrainsWorkspace :: "jsv \<Rightarrow> bool" where
  "filterConstrainsWorkspace (JObj es) =
     (case map_of es TENANT_KEY of
        Some v \<Rightarrow> narrowing v
      | None \<Rightarrow>
          (case array_items (map_of es ''$and'') of Some subs \<Rightarrow> list_ex filterConstrainsWorkspace subs | None \<Rightarrow> False) \<or>
          (case array_items (map_of es ''$or'') of
             Some subs \<Rightarrow> subs \<noteq> [] \<and> list_all filterConstrainsWorkspace subs | None \<Rightarrow> False) \<or>
          (case array_items (map_of es ''$nor'') of
             Some subs \<Rightarrow> subs \<noteq> [] \<and> list_all filterConstrainsWorkspace subs | None \<Rightarrow> False))"
| "filterConstrainsWorkspace JUndefined = False"
| "filterConstrainsWorkspace JNull = False"
| "filterConstrainsWorkspace (JBool b) = False"
| "filterConstrainsWorkspace (JNum n) = False"
| "filterConstrainsWorkspace (JStr s) = False"
| "filterConstrainsWorkspace (JArr vs) = False"
  by pat_completeness auto
termination
  by (relation "measure size") (use map_of_items_size in fastforce)+

fun member :: "jsv \<Rightarrow> string \<Rightarrow> jsv" where
  "member (JObj es) k = (case map_of es k of Some v \<Rightarrow> v | None \<Rightarrow> JUndefined)"
| "member _ k = JUndefined"

fun is_plain :: "jsv \<Rightarrow> bool" where
  "is_plain (JObj es) = True"
| "is_plain _ = False"

definition SEARCH_STAGES :: "string list" where
  "SEARCH_STAGES = [''$search'', ''$vectorSearch'', ''$searchMeta'']"

definition pipelineConstrainsWorkspace :: "jsv \<Rightarrow> bool" where
  "pipelineConstrainsWorkspace pipeline =
     (case pipeline of
        JArr (first # rest) \<Rightarrow>
          (if \<not> is_plain first then False
           else if is_plain (member first ''$match'') then filterConstrainsWorkspace (member first ''$match'')
           else
             (case List.find (\<lambda>stage. is_plain (member first stage)) SEARCH_STAGES of
                None \<Rightarrow> False
              | Some stage \<Rightarrow> filterConstrainsWorkspace (member (member first stage) ''filter'') \<or>
                  filterConstrainsWorkspace (member (member first stage) ''compound'')))
      | _ \<Rightarrow> False)"

definition PLATFORM_MARKER :: string where
  "PLATFORM_MARKER = ''salvations:platform''"

definition declaresPlatformIntent :: "jsv \<Rightarrow> bool" where
  "declaresPlatformIntent command =
     (case member command ''comment'' of
        JStr s \<Rightarrow> starts_with s PLATFORM_MARKER
      | JObj es \<Rightarrow> (case map_of es ''salvations'' of Some (JStr marker) \<Rightarrow> starts_with marker ''platform'' | _ \<Rightarrow> False)
      | _ \<Rightarrow> False)"

definition IGNORED_COMMANDS :: "string list" where
  "IGNORED_COMMANDS = [''ping'', ''hello'', ''ismaster'', ''buildInfo'', ''getMore'', ''killCursors'', ''endSessions'', ''createIndexes'',
     ''listIndexes'', ''dropIndexes'', ''listCollections'', ''listDatabases'', ''create'', ''drop'', ''collMod'', ''saslStart'',
     ''saslContinue'', ''authenticate'', ''logout'', ''abortTransaction'', ''commitTransaction'', ''aggregate:admin'']"

datatype violation_reason = Missing_workspace_filter | Missing_workspace_on_insert | Partial_or_branch | Unknown_collection

record guard_violation =
  gv_collection :: string
  gv_commandName :: string
  gv_reason :: violation_reason

definition carries_workspace :: "jsv \<Rightarrow> bool" where
  "carries_workspace doc = (is_plain doc \<and> (case member doc TENANT_KEY of JStr s \<Rightarrow> s \<noteq> [] | _ \<Rightarrow> False))"

definition all_constrained :: "jsv \<Rightarrow> bool" where
  "all_constrained v = (case v of JArr us \<Rightarrow> list_all (\<lambda>u. is_plain u \<and> filterConstrainsWorkspace (member u ''q'')) us | _ \<Rightarrow> True)"

definition or_query :: "jsv \<Rightarrow> jsv" where
  "or_query command =
     (if member command ''filter'' \<in> {JUndefined, JNull} then member command ''query'' else member command ''filter'')"

definition analyzeCommand :: "string \<Rightarrow> jsv \<Rightarrow> guard_violation option" where
  "analyzeCommand commandName command =
     (if commandName \<in> set IGNORED_COMMANDS then None
      else
        (case member command commandName of
           JStr collection \<Rightarrow>
             (let refuse = (\<lambda>reason. Some \<lparr>gv_collection = collection, gv_commandName = commandName, gv_reason = reason\<rparr>);
                  unless = (\<lambda>ok reason. if ok then None else refuse reason)
              in case tenancyOf collection of
                   Global \<Rightarrow> None
                 | Unclassified \<Rightarrow> refuse Unknown_collection
                 | _ \<Rightarrow>
                     (if declaresPlatformIntent command then None
                      else if commandName \<in> {''find'', ''count'', ''distinct''} then
                        unless (filterConstrainsWorkspace (or_query command)) Missing_workspace_filter
                      else if commandName = ''aggregate'' then
                        unless (pipelineConstrainsWorkspace (member command ''pipeline'')) Missing_workspace_filter
                      else if commandName = ''findAndModify'' then
                        unless (filterConstrainsWorkspace (member command ''query'')) Missing_workspace_filter
                      else if commandName = ''update'' then
                        unless (all_constrained (member command ''updates'')) Missing_workspace_filter
                      else if commandName = ''delete'' then
                        unless (all_constrained (member command ''deletes'')) Missing_workspace_filter
                      else if commandName = ''insert'' then
                        unless (case member command ''documents'' of JArr docs \<Rightarrow> list_all carries_workspace docs | _ \<Rightarrow> True)
                          Missing_workspace_on_insert
                      else None))
         | _ \<Rightarrow> None))"

datatype guard_mode = Throw | Report

text \<open>What the hook is told, and whether the command is stopped.\<close>

definition handleCommandStarted :: "string \<Rightarrow> jsv \<Rightarrow> guard_mode \<Rightarrow> guard_violation option \<times> bool" where
  "handleCommandStarted commandName command mode =
     (case analyzeCommand commandName command of
        None \<Rightarrow> (None, False)
      | Some violation \<Rightarrow> (Some violation, mode = Throw))"

definition defaultGuardMode :: "string option \<Rightarrow> guard_mode" where
  "defaultGuardMode nodeEnv = (if nodeEnv = Some ''production'' then Report else Throw)"

subsection \<open>Scoped collections\<close>

type_synonym doc = "(string \<times> jsv) list"

datatype scope_violation = Names_workspace | Claims_workspace jsv | Ungated_search string | Not_tenant_scoped string

definition scopeFilter :: "id \<Rightarrow> doc \<Rightarrow> scope_violation + doc" where
  "scopeFilter ws flt =
     (if TENANT_KEY \<in> set (map fst flt) then Inl Names_workspace
      else Inr (flt @ [(TENANT_KEY, JStr ws)]))"

definition scopeInsert :: "id \<Rightarrow> doc \<Rightarrow> scope_violation + doc" where
  "scopeInsert ws d =
     (case map_of d TENANT_KEY of
        Some claimed \<Rightarrow>
          (if claimed \<noteq> JUndefined \<and> claimed \<noteq> JStr ws then Inl (Claims_workspace claimed)
           else Inr (AList.update TENANT_KEY (JStr ws) d))
      | None \<Rightarrow> Inr (AList.update TENANT_KEY (JStr ws) d))"

fun insert_all :: "id \<Rightarrow> doc list \<Rightarrow> scope_violation + doc list" where
  "insert_all ws [] = Inr []"
| "insert_all ws (d # ds) =
     (case scopeInsert ws d of
        Inl e \<Rightarrow> Inl e
      | Inr d' \<Rightarrow> (case insert_all ws ds of Inl e \<Rightarrow> Inl e | Inr ds' \<Rightarrow> Inr (d' # ds')))"

text \<open>The gate of an aggregation; of its stages only the first can reach data ungated.\<close>

definition gated_pipeline :: "id \<Rightarrow> jsv list \<Rightarrow> scope_violation + jsv list" where
  "gated_pipeline ws pipeline =
     (case Option.bind (case pipeline of [] \<Rightarrow> None | first # _ \<Rightarrow> Some first)
        (\<lambda>first. List.find (\<lambda>stage. case first of JObj es \<Rightarrow> stage \<in> set (map fst es) | _ \<Rightarrow> False) SEARCH_STAGES) of
        Some stage \<Rightarrow> Inl (Ungated_search stage)
      | None \<Rightarrow> Inr (JObj [(''$match'', JObj [(TENANT_KEY, JStr ws)])] # pipeline))"

definition scoped_collection :: "string \<Rightarrow> scope_violation + string" where
  "scoped_collection name = (if isTenantCollection name then Inr name else Inl (Not_tenant_scoped name))"

text \<open>What the database makes of a filter.\<close>

record query_rules =
  qr_clause :: "string \<Rightarrow> jsv \<Rightarrow> doc \<Rightarrow> bool"
  qr_operator :: "string \<Rightarrow> jsv \<Rightarrow> jsv \<Rightarrow> bool"

definition workspace_of :: "doc \<Rightarrow> jsv" where
  "workspace_of d = (case map_of d TENANT_KEY of Some v \<Rightarrow> v | None \<Rightarrow> JUndefined)"

fun operator_holds :: "query_rules \<Rightarrow> jsv \<Rightarrow> string \<times> jsv \<Rightarrow> bool" where
  "operator_holds rules x (op, arg) =
     (if op = ''$eq'' then x = arg
      else if op = ''$in'' then (case arg of JArr vs \<Rightarrow> x \<in> set vs | _ \<Rightarrow> False)
      else qr_operator rules op arg x)"

definition tenant_clause :: "query_rules \<Rightarrow> jsv \<Rightarrow> jsv \<Rightarrow> bool" where
  "tenant_clause rules v x =
     (case v of
        JObj ops \<Rightarrow>
          (if ops \<noteq> [] \<and> list_all (\<lambda>(op, _). starts_with op ''$'') ops then list_all (operator_holds rules x) ops
           else x = v)
      | _ \<Rightarrow> x = v)"

lemma item_size: "(k, JArr fs) \<in> set es \<Longrightarrow> f \<in> set fs \<Longrightarrow> size f < size (JObj es)"
proof -
  assume "(k, JArr fs) \<in> set es" "f \<in> set fs"
  then have "size (JArr fs) < size (JObj es)" by (induction es) auto
  moreover from \<open>f \<in> set fs\<close> have "size f < size (JArr fs)" by (induction fs) auto
  ultimately show ?thesis by linarith
qed

function matches :: "query_rules \<Rightarrow> doc \<Rightarrow> jsv \<Rightarrow> bool" where
  "matches rules d (JObj es) =
     list_all (\<lambda>(k, v).
       if k = ''$and'' then (case v of JArr fs \<Rightarrow> list_all (matches rules d) fs | _ \<Rightarrow> False)
       else if k = ''$or'' then (case v of JArr fs \<Rightarrow> list_ex (matches rules d) fs | _ \<Rightarrow> False)
       else if k = ''$nor'' then (case v of JArr fs \<Rightarrow> \<not> list_ex (matches rules d) fs | _ \<Rightarrow> False)
       else if k = TENANT_KEY then tenant_clause rules v (workspace_of d)
       else qr_clause rules k v d) es"
| "matches rules d JUndefined = False"
| "matches rules d JNull = False"
| "matches rules d (JBool b) = False"
| "matches rules d (JNum n) = False"
| "matches rules d (JStr s) = False"
| "matches rules d (JArr vs) = False"
  by pat_completeness auto
termination
  by (relation "measure (\<lambda>(rules, d, f). size f)") (use item_size in fastforce)+

text \<open>The operations of a scoped collection: the documents they answer with, and the collection afterwards.\<close>

datatype scoped_op =
    Find doc
  | Insert_one doc
  | Insert_many "doc list"
  | Update_one doc "doc \<Rightarrow> doc" "doc option"
  | Update_many doc "doc \<Rightarrow> doc"
  | Delete_one doc
  | Delete_many doc

text \<open>An upsert inserts the document with the equalities of its filter, the tenant's among them.\<close>

definition upserted :: "doc \<Rightarrow> doc \<Rightarrow> doc" where
  "upserted flt d = (case map_of flt TENANT_KEY of Some v \<Rightarrow> AList.update TENANT_KEY v d | None \<Rightarrow> d)"

fun remove_first :: "('a \<Rightarrow> bool) \<Rightarrow> 'a list \<Rightarrow> 'a list" where
  "remove_first P [] = []"
| "remove_first P (x # xs) = (if P x then xs else x # remove_first P xs)"

definition scoped_apply :: "query_rules \<Rightarrow> id \<Rightarrow> scoped_op \<Rightarrow> doc list \<Rightarrow> scope_violation + doc list \<times> doc list" where
  "scoped_apply rules ws op docs =
     (case op of
        Find f \<Rightarrow>
          map_sum id (\<lambda>f'. (filter (\<lambda>d. matches rules d (JObj f')) docs, docs)) (scopeFilter ws f)
      | Insert_one d \<Rightarrow> map_sum id (\<lambda>d'. ([d'], docs @ [d'])) (scopeInsert ws d)
      | Insert_many ds \<Rightarrow> map_sum id (\<lambda>ds'. (ds', docs @ ds')) (insert_all ws ds)
      | Update_one f upd fresh \<Rightarrow>
          map_sum id (\<lambda>f'.
            if list_ex (\<lambda>d. matches rules d (JObj f')) docs then ([], update_first (\<lambda>d. matches rules d (JObj f')) upd docs)
            else (case fresh of None \<Rightarrow> ([], docs) | Some d \<Rightarrow> ([], docs @ [upserted f' d]))) (scopeFilter ws f)
      | Update_many f upd \<Rightarrow>
          map_sum id (\<lambda>f'. ([], map (\<lambda>d. if matches rules d (JObj f') then upd d else d) docs)) (scopeFilter ws f)
      | Delete_one f \<Rightarrow> map_sum id (\<lambda>f'. ([], remove_first (\<lambda>d. matches rules d (JObj f')) docs)) (scopeFilter ws f)
      | Delete_many f \<Rightarrow> map_sum id (\<lambda>f'. ([], filter (\<lambda>d. \<not> matches rules d (JObj f')) docs)) (scopeFilter ws f))"

subsection \<open>Lemmas\<close>

lemma scopeFilter_matches:
  assumes "scopeFilter ws f = Inr f'" "matches rules d (JObj f')"
  shows "workspace_of d = JStr ws"
proof -
  have "(TENANT_KEY, JStr ws) \<in> set f'" using assms(1) by (auto simp: scopeFilter_def split: if_splits)
  with assms(2) show ?thesis by (auto simp: list_all_iff TENANT_KEY_def tenant_clause_def)
qed

lemma scopeFilter_names: "scopeFilter ws f = Inr f' \<Longrightarrow> map_of f' TENANT_KEY = Some (JStr ws)"
  by (auto simp: scopeFilter_def map_add_def map_of_eq_None_iff [THEN iffD2] split: if_splits option.splits dest: map_of_SomeD)

lemma workspace_of_update [simp]: "workspace_of (AList.update TENANT_KEY v d) = v"
  by (simp add: workspace_of_def update_conv')

lemma scopeInsert_workspace: "scopeInsert ws d = Inr d' \<Longrightarrow> workspace_of d' = JStr ws"
  by (auto simp: scopeInsert_def split: option.splits if_splits)

lemma insert_all_workspace: "insert_all ws ds = Inr ds' \<Longrightarrow> d' \<in> set ds' \<Longrightarrow> workspace_of d' = JStr ws"
  by (induction ds arbitrary: ds') (auto split: sum.splits dest: scopeInsert_workspace)

lemma update_first_others:
  assumes "\<And>d. P d \<Longrightarrow> \<not> Q d \<and> \<not> Q (f d)"
  shows "filter Q (update_first P f xs) = filter Q xs"
  using assms by (induction xs) auto

lemma remove_first_others:
  assumes "\<And>d. P d \<Longrightarrow> \<not> Q d"
  shows "filter Q (remove_first P xs) = filter Q xs"
  using assms by (induction xs) auto

lemma map_others:
  assumes "\<And>d. P d \<Longrightarrow> \<not> Q d \<and> \<not> Q (f d)"
  shows "filter Q (map (\<lambda>d. if P d then f d else d) xs) = filter Q xs"
  using assms by (induction xs) auto

lemma filter_others:
  assumes "\<And>d. P d \<Longrightarrow> \<not> Q d"
  shows "filter Q (filter (\<lambda>d. \<not> P d) xs) = filter Q xs"
  using assms by (induction xs) auto

lemma filter_none: "(\<And>d. d \<in> set ds \<Longrightarrow> \<not> Q d) \<Longrightarrow> filter Q ds = []"
  by (simp add: filter_empty_conv)

text \<open>The tenants a filter names, and the filters that use the negating combinator where the guard looks.\<close>

inductive names :: "jsv \<Rightarrow> jsv \<Rightarrow> bool" where
  names_value: "map_of es TENANT_KEY = Some v \<Longrightarrow> names (JObj es) v"
| names_eq: "map_of es TENANT_KEY = Some (JObj ops) \<Longrightarrow> (''$eq'', w) \<in> set ops \<Longrightarrow> names (JObj es) w"
| names_in: "map_of es TENANT_KEY = Some (JObj ops) \<Longrightarrow> (''$in'', JArr ws) \<in> set ops \<Longrightarrow> w \<in> set ws \<Longrightarrow> names (JObj es) w"
| names_sub: "k \<in> {''$and'', ''$or''} \<Longrightarrow> map_of es k = Some (JArr fs) \<Longrightarrow> f \<in> set fs \<Longrightarrow> names f w \<Longrightarrow> names (JObj es) w"

inductive uses_nor :: "jsv \<Rightarrow> bool" where
  nor_here: "map_of es ''$nor'' \<noteq> None \<Longrightarrow> uses_nor (JObj es)"
| nor_below: "k \<in> {''$and'', ''$or''} \<Longrightarrow> map_of es k = Some (JArr fs) \<Longrightarrow> f \<in> set fs \<Longrightarrow> uses_nor f \<Longrightarrow> uses_nor (JObj es)"

lemma array_items_Some: "array_items x = Some vs \<longleftrightarrow> x = Some (JArr vs)"
  by (cases x rule: array_items.cases) auto

lemma tenant_clause_names:
  assumes "map_of es TENANT_KEY = Some v" "narrowing v" "tenant_clause rules v x"
  shows "names (JObj es) x"
proof (cases "x = v")
  case True
  with assms(1) show ?thesis by (simp add: names_value)
next
  case False
  with assms(3) obtain ops where v: "v = JObj ops" and all: "list_all (operator_holds rules x) ops"
    by (auto simp: tenant_clause_def split: jsv.splits if_splits)
  from assms(2) v have "''$eq'' \<in> fst ` set ops \<or> ''$in'' \<in> fst ` set ops"
    by (force simp: narrowing_def Let_def list_ex_iff split: if_splits)
  then obtain arg where "(''$eq'', arg) \<in> set ops \<or> (''$in'', arg) \<in> set ops" by force
  then show ?thesis
  proof
    assume eq: "(''$eq'', arg) \<in> set ops"
    with all have "x = arg" by (auto simp: list_all_iff)
    with assms(1) v eq show ?thesis by (auto intro: names_eq)
  next
    assume inn: "(''$in'', arg) \<in> set ops"
    with all obtain ws where "arg = JArr ws" "x \<in> set ws" by (auto simp: list_all_iff split: jsv.splits)
    with assms(1) v inn show ?thesis by (auto intro: names_in)
  qed
qed

lemma matches_clause:
  assumes "matches rules d (JObj es)" "map_of es k = Some v"
  shows "k = ''$and'' \<Longrightarrow> v = JArr fs \<Longrightarrow> f \<in> set fs \<Longrightarrow> matches rules d f"
    and "k = ''$or'' \<Longrightarrow> v = JArr fs \<Longrightarrow> \<exists>f \<in> set fs. matches rules d f"
    and "k = TENANT_KEY \<Longrightarrow> tenant_clause rules v (workspace_of d)"
proof -
  note clause = assms(1) [unfolded matches.simps list_all_iff, THEN bspec, OF map_of_SomeD [OF assms(2)], unfolded prod.case]
  show "k = ''$and'' \<Longrightarrow> v = JArr fs \<Longrightarrow> f \<in> set fs \<Longrightarrow> matches rules d f" using clause by simp
  show "k = ''$or'' \<Longrightarrow> v = JArr fs \<Longrightarrow> \<exists>f \<in> set fs. matches rules d f" using clause by (simp add: list_ex_iff)
  show "k = TENANT_KEY \<Longrightarrow> tenant_clause rules v (workspace_of d)" using clause by (simp add: TENANT_KEY_def)
qed
lemma constrained_names:
  assumes "filterConstrainsWorkspace f" "\<not> uses_nor f" "matches rules d f"
  shows "names f (workspace_of d)"
  using assms
proof (induction f rule: filterConstrainsWorkspace.induct)
  case (1 es)
  show ?case
  proof (cases "map_of es TENANT_KEY")
    case (Some v)
    then have "narrowing v" using "1.prems"(1) by simp
    with Some matches_clause(3) [OF "1.prems"(3) Some] show ?thesis by (auto intro: tenant_clause_names)
  next
    case None
    have nor: "map_of es ''$nor'' = None" using "1.prems"(2) by (auto intro: nor_here)
    from None nor "1.prems"(1) consider
      (conj) fs f where "map_of es ''$and'' = Some (JArr fs)" "f \<in> set fs" "filterConstrainsWorkspace f"
      | (disj) fs where "map_of es ''$or'' = Some (JArr fs)" "\<forall>f \<in> set fs. filterConstrainsWorkspace f"
      by (auto simp: array_items_Some list_ex_iff list_all_iff split: option.splits)
    then show ?thesis
    proof cases
      case (conj fs f)
      have "names f (workspace_of d)"
      proof (rule "1.IH"(1) [OF None])
        show "array_items (map_of es ''$and'') = Some fs" using conj(1) by simp
        show "\<not> uses_nor f" using "1.prems"(2) conj(1,2) by (auto intro: nor_below)
        show "matches rules d f" by (rule matches_clause(1) [OF "1.prems"(3) conj(1) refl refl conj(2)])
      qed (use conj in auto)
      with conj show ?thesis by (auto intro: names_sub)
    next
      case (disj fs)
      obtain f where f: "f \<in> set fs" "matches rules d f"
        using matches_clause(2) [OF "1.prems"(3) disj(1) refl refl] by blast
      have "names f (workspace_of d)"
      proof (rule "1.IH"(2) [OF None])
        show "array_items (map_of es ''$or'') = Some fs" using disj(1) by simp
        show "\<not> uses_nor f" using "1.prems"(2) disj(1) f(1) by (auto intro: nor_below)
      qed (use disj f in auto)
      with disj f show ?thesis by (auto intro: names_sub)
    qed
  qed
qed simp_all

declare matches.simps(1) [simp del]

subsection \<open>Properties\<close>

text \<open>An operation whose update does not write the tenant key.\<close>

fun leaves_tenant :: "scoped_op \<Rightarrow> bool" where
  "leaves_tenant (Update_one f upd fresh) = (\<forall>d. workspace_of (upd d) = workspace_of d)"
| "leaves_tenant (Update_many f upd) = (\<forall>d. workspace_of (upd d) = workspace_of d)"
| "leaves_tenant _ = True"


definition sample_rules :: query_rules where
  "sample_rules = \<lparr>qr_clause = (\<lambda>k v d. map_of d k = Some v), qr_operator = (\<lambda>op arg x. True)\<rparr>"


text \<open>
  The guard's judgement is sound where it is not fooled by negation: a filter it accepts, in which no
  \<^verbatim>\<open>$nor\<close> is looked at, selects only documents of the tenants it names.
\<close>

theorem guard_sound:
  assumes "filterConstrainsWorkspace f" "\<not> uses_nor f" "matches rules d f"
  shows "names f (workspace_of d)"
  using assms by (rule constrained_names)

theorem guard_sound_witness:
  "names (JObj [(''workspaceId'', JStr ''w1'')]) (JStr ''w1'')"
proof -
  have "\<not> uses_nor (JObj [(''workspaceId'', JStr ''w1'')])" by (auto elim: uses_nor.cases)
  from guard_sound [OF _ this, of sample_rules "[(''workspaceId'', JStr ''w1'')]"] show ?thesis
    by (simp add: TENANT_KEY_def narrowing_def tenant_clause_def workspace_of_def matches.simps(1))
qed

text \<open>
  The guard accepts a filter that reaches every other tenant: under \<^verbatim>\<open>$nor\<close>, naming one workspace selects all
  documents but its own.
\<close>

theorem nor_escapes_guard:
  "analyzeCommand ''find'' (JObj [(''find'', JStr ''messages''),
      (''filter'', JObj [(''$nor'', JArr [JObj [(''workspaceId'', JStr ws)]])])]) = None \<and>
   (matches rules d (JObj [(''$nor'', JArr [JObj [(''workspaceId'', JStr ws)]])]) \<longleftrightarrow> workspace_of d \<noteq> JStr ws)"
  by (simp add: analyzeCommand_def IGNORED_COMMANDS_def tenancyOf_def TENANT_COLLECTIONS_def declaresPlatformIntent_def Let_def
      or_query_def TENANT_KEY_def narrowing_def tenant_clause_def matches.simps(1))

text \<open>
  The two walls agree: every command a scoped collection of a named workspace can issue, the reads, the
  writes, the gated aggregation and the inserts, passes the guard.
\<close>

theorem scoped_commands_pass:
  assumes "isTenantCollection c" "ws \<noteq> []" "scopeFilter ws f = Inr f'" "gated_pipeline ws pipeline = Inr gated"
    and "insert_all ws ds = Inr ds'"
  shows "analyzeCommand ''find'' (JObj [(''find'', JStr c), (''filter'', JObj f')]) = None \<and>
    analyzeCommand ''findAndModify'' (JObj [(''findAndModify'', JStr c), (''query'', JObj f'), (''update'', u)]) = None \<and>
    analyzeCommand ''update'' (JObj [(''update'', JStr c), (''updates'', JArr [JObj [(''q'', JObj f'), (''u'', u)]])]) = None \<and>
    analyzeCommand ''delete'' (JObj [(''delete'', JStr c), (''deletes'', JArr [JObj [(''q'', JObj f'), (''limit'', n)]])]) = None \<and>
    analyzeCommand ''aggregate'' (JObj [(''aggregate'', JStr c), (''pipeline'', JArr gated)]) = None \<and>
    analyzeCommand ''insert'' (JObj [(''insert'', JStr c), (''documents'', JArr (map JObj ds'))]) = None"
proof -
  have tenant: "tenancyOf c = Tenant" using assms(1) by (simp add: tenancyOf_def isTenantCollection_def)
  have f': "filterConstrainsWorkspace (JObj f')"
    using scopeFilter_names [OF assms(3)] by (simp add: narrowing_def)
  have gated: "pipelineConstrainsWorkspace (JArr gated)"
    using assms(4) by (auto simp: gated_pipeline_def pipelineConstrainsWorkspace_def TENANT_KEY_def narrowing_def split: option.splits)
  have "carries_workspace (JObj d)" if "d \<in> set ds'" for d
    using insert_all_workspace [OF assms(5) that] assms(2)
    by (auto simp: carries_workspace_def workspace_of_def split: option.splits)
  then have ds': "list_all carries_workspace (map JObj ds')" by (simp add: list_all_iff)
  from tenant f' gated ds' show ?thesis
    by (simp add: analyzeCommand_def IGNORED_COMMANDS_def Let_def or_query_def all_constrained_def)
qed

theorem scoped_commands_pass_witness:
  "analyzeCommand ''find'' (JObj [(''find'', JStr ''runs''), (''filter'', JObj [(''status'', JStr ''queued''), (''workspaceId'', JStr ''w1'')])]) = None"
proof -
  have "isTenantCollection ''runs''" by code_simp
  from scoped_commands_pass [OF this, of "''w1''" "[(''status'', JStr ''queued'')]" _ "[]" _ "[]"] show ?thesis
    by (simp add: scopeFilter_def TENANT_KEY_def gated_pipeline_def)
qed

end
