(* ===== verification/Workspaces.thy ===== *)
theory Workspaces
  imports Principal Permission Context
begin

text \<open>
  Workspaces, their members and their invitations (\<^verbatim>\<open>packages/db/src/repositories/workspaces.ts\<close>) and the routes that
  change them (\<^verbatim>\<open>apps/web/src/app/api/workspaces\<close>, \<^verbatim>\<open>apps/web/src/app/api/invitations\<close>, behind
  \<^verbatim>\<open>apps/web/src/lib/route.ts\<close>).

  The members are embedded in the workspace document. A request is resolved to a principal with the membership the
  document holds at that moment. Random ids and token hashes are part of a request, as is the time it is served at.
\<close>

datatype member_status = Active_member | Suspended

record workspace_member =
  wm_userId :: id
  wm_role :: role
  wm_status :: member_status
  wm_joinedAt :: time
  wm_invitedBy :: "id option"

record workspace_invitation =
  iv_id :: id
  iv_email :: string
  iv_role :: role
  iv_tokenHash :: string
  iv_invitedBy :: id
  iv_expiresAt :: time

record workspace_settings =
  wst_defaultToolEffect :: perm_effect
  wst_maxConcurrentRuns :: int
  wst_dailyCostCapUsd :: rat
  wst_allowedMcpTrustTiers :: "trust_tier list"

record trial =
  tri_startedAt :: time
  tri_endsAt :: time
  tri_startedBy :: id

record workspace_doc =
  wk_id :: id
  wk_workspaceId :: id
  wk_slug :: string
  wk_name :: string
  wk_plan :: string
  wk_settings :: workspace_settings
  wk_members :: "workspace_member list"
  wk_invitations :: "workspace_invitation list"
  wk_trial :: "trial option"
  wk_createdBy :: id
  wk_createdAt :: time
  wk_updatedAt :: time
  wk_deletedAt :: "time option"

record audit_line =
  al_workspaceId :: id
  al_actor :: id
  al_action :: string
  al_subject :: id

record ws_world =
  ww_docs :: "workspace_doc list"
  ww_audit :: "audit_line list"

datatype workspace_error =
    Http http_error
  | Invalid_body
  | No_workspace
  | No_invitation
  | Not_a_member
  | Owners_only
  | Only_owner
  | Other_address string
  | Member_limit id
  | Duplicate_slug string
  | Duplicate_workspace id
  | Trial_used

definition MAX_EMBEDDED_MEMBERS :: nat where
  "MAX_EMBEDDED_MEMBERS = 500"

subsection \<open>The repository\<close>

text \<open>The filter \<^verbatim>\<open>{ _id: workspaceId }\<close> of a scoped collection.\<close>

definition at_workspace :: "id \<Rightarrow> workspace_doc \<Rightarrow> bool" where
  "at_workspace ws d \<longleftrightarrow> wk_id d = ws \<and> wk_workspaceId d = ws"

definition has_member :: "id \<Rightarrow> workspace_doc \<Rightarrow> bool" where
  "has_member u d \<longleftrightarrow> u \<in> set (map wm_userId (wk_members d))"

definition workspace_by_id :: "id \<Rightarrow> workspace_doc list \<Rightarrow> workspace_doc option" where
  "workspace_by_id ws docs = List.find (at_workspace ws) docs"

definition member_role :: "id \<Rightarrow> workspace_doc \<Rightarrow> role option" where
  "member_role u d =
     (case List.find (\<lambda>m. wm_userId m = u) (wk_members d) of
        None \<Rightarrow> None
      | Some m \<Rightarrow> if wm_status m \<noteq> Active_member then None else Some (wm_role m))"

definition membershipOf :: "workspace_doc list \<Rightarrow> id \<Rightarrow> id \<Rightarrow> role option" where
  "membershipOf docs ws u =
     (case List.find (\<lambda>d. at_workspace ws d \<and> has_member u d) docs of None \<Rightarrow> None | Some d \<Rightarrow> member_role u d)"

definition new_workspace :: "id \<Rightarrow> string \<Rightarrow> string \<Rightarrow> id \<Rightarrow> time \<Rightarrow> workspace_doc" where
  "new_workspace newId name slug createdBy now =
     \<lparr>wk_id = newId, wk_workspaceId = newId, wk_slug = slug, wk_name = name, wk_plan = ''free'',
      wk_settings = \<lparr>wst_defaultToolEffect = Ask, wst_maxConcurrentRuns = 4, wst_dailyCostCapUsd = 25,
        wst_allowedMcpTrustTiers = [First_party, Verified]\<rparr>,
      wk_members = [\<lparr>wm_userId = createdBy, wm_role = Owner, wm_status = Active_member, wm_joinedAt = now, wm_invitedBy = None\<rparr>],
      wk_invitations = [], wk_trial = None, wk_createdBy = createdBy, wk_createdAt = now, wk_updatedAt = now,
      wk_deletedAt = None\<rparr>"

definition workspace_create ::
  "id \<Rightarrow> string \<Rightarrow> string \<Rightarrow> id \<Rightarrow> time \<Rightarrow> workspace_doc list \<Rightarrow> (workspace_error + workspace_doc) \<times> workspace_doc list" where
  "workspace_create newId name slug createdBy now docs =
     (let doc = new_workspace newId name slug createdBy now
      in if newId \<in> set (map wk_id docs) then (Inl (Duplicate_workspace newId), docs)
         else if slug \<in> set (map wk_slug docs) then (Inl (Duplicate_slug slug), docs) else (Inr doc, docs @ [doc]))"

definition startTrial :: "id \<Rightarrow> id \<Rightarrow> int \<Rightarrow> time \<Rightarrow> workspace_doc list \<Rightarrow> time option \<times> workspace_doc list" where
  "startTrial ws startedBy days now docs =
     (let endsAt = now + days * 24 * 60 * 60 * 1000;
          open_trial = (\<lambda>d. at_workspace ws d \<and> wk_trial d = None)
      in (if list_ex open_trial docs then Some endsAt else None,
          update_first open_trial (\<lambda>d. d\<lparr>wk_trial := Some \<lparr>tri_startedAt = now, tri_endsAt = endsAt, tri_startedBy = startedBy\<rparr>,
            wk_updatedAt := now\<rparr>) docs))"

definition workspace_rename :: "id \<Rightarrow> string \<Rightarrow> time \<Rightarrow> workspace_doc list \<Rightarrow> workspace_doc list" where
  "workspace_rename ws name now = update_first (at_workspace ws) (\<lambda>d. d\<lparr>wk_name := name, wk_updatedAt := now\<rparr>)"

definition updateSettings ::
  "id \<Rightarrow> rat option \<Rightarrow> int option \<Rightarrow> perm_effect option \<Rightarrow> time \<Rightarrow> workspace_doc list \<Rightarrow> workspace_doc list" where
  "updateSettings ws cap runs effect now =
     update_first (at_workspace ws)
       (\<lambda>d. let s = wk_settings d in d\<lparr>wk_settings := s\<lparr>
          wst_dailyCostCapUsd := case_option (wst_dailyCostCapUsd s) id cap,
          wst_maxConcurrentRuns := case_option (wst_maxConcurrentRuns s) id runs,
          wst_defaultToolEffect := case_option (wst_defaultToolEffect s) id effect\<rparr>, wk_updatedAt := now\<rparr>)"

text \<open>Two writes: the open invitation of the address goes, the new one comes.\<close>

definition createInvitation :: "id \<Rightarrow> workspace_invitation \<Rightarrow> time \<Rightarrow> workspace_doc list \<Rightarrow> workspace_doc list" where
  "createInvitation ws inv' now docs =
     update_first (at_workspace ws) (\<lambda>d. d\<lparr>wk_invitations := wk_invitations d @ [inv'], wk_updatedAt := now\<rparr>)
       (update_first (at_workspace ws)
         (\<lambda>d. d\<lparr>wk_invitations := filter (\<lambda>i. iv_email i \<noteq> iv_email inv') (wk_invitations d)\<rparr>) docs)"

definition revokeInvitation :: "id \<Rightarrow> id \<Rightarrow> time \<Rightarrow> workspace_doc list \<Rightarrow> workspace_doc list" where
  "revokeInvitation ws invitationId now =
     update_first (at_workspace ws)
       (\<lambda>d. d\<lparr>wk_invitations := filter (\<lambda>i. iv_id i \<noteq> invitationId) (wk_invitations d), wk_updatedAt := now\<rparr>)"

definition findInvitation :: "id \<Rightarrow> string \<Rightarrow> time \<Rightarrow> workspace_doc list \<Rightarrow> (workspace_doc \<times> workspace_invitation) option" where
  "findInvitation ws tokenHash now docs =
     (case workspace_by_id ws docs of
        None \<Rightarrow> None
      | Some workspace \<Rightarrow>
          (case List.find (\<lambda>i. iv_tokenHash i = tokenHash) (wk_invitations workspace) of
             None \<Rightarrow> None
           | Some invitation \<Rightarrow> if iv_expiresAt invitation < now then None else Some (workspace, invitation)))"

definition addMember :: "id \<Rightarrow> workspace_member \<Rightarrow> time \<Rightarrow> workspace_doc list \<Rightarrow> (workspace_error + unit) \<times> workspace_doc list" where
  "addMember ws m now docs =
     (case workspace_by_id ws docs of
        None \<Rightarrow> (Inl No_workspace, docs)
      | Some existing \<Rightarrow>
          (if MAX_EMBEDDED_MEMBERS \<le> length (wk_members existing) then (Inl (Member_limit ws), docs)
           else (Inr (), update_first (\<lambda>d. at_workspace ws d \<and> \<not> has_member (wm_userId m) d)
             (\<lambda>d. d\<lparr>wk_members := wk_members d @ [m], wk_updatedAt := now\<rparr>) docs)))"

definition acceptInvitation ::
  "id \<Rightarrow> workspace_invitation \<Rightarrow> id \<Rightarrow> time \<Rightarrow> workspace_doc list \<Rightarrow> (workspace_error + unit) \<times> workspace_doc list" where
  "acceptInvitation ws invitation u now docs =
     (case addMember ws \<lparr>wm_userId = u, wm_role = iv_role invitation, wm_status = Active_member, wm_joinedAt = now,
        wm_invitedBy = Some (iv_invitedBy invitation)\<rparr> now docs of
        (Inl e, docs') \<Rightarrow> (Inl e, docs')
      | (Inr _, docs') \<Rightarrow> (Inr (), revokeInvitation ws (iv_id invitation) now docs'))"

definition set_role :: "id \<Rightarrow> role \<Rightarrow> workspace_member \<Rightarrow> workspace_member" where
  "set_role u r m = (if wm_userId m = u then m\<lparr>wm_role := r\<rparr> else m)"

definition setMemberRole :: "id \<Rightarrow> id \<Rightarrow> role \<Rightarrow> time \<Rightarrow> workspace_doc list \<Rightarrow> workspace_doc list" where
  "setMemberRole ws u r now =
     update_first (at_workspace ws) (\<lambda>d. d\<lparr>wk_members := map (set_role u r) (wk_members d), wk_updatedAt := now\<rparr>)"

definition removeMember :: "id \<Rightarrow> id \<Rightarrow> time \<Rightarrow> workspace_doc list \<Rightarrow> workspace_doc list" where
  "removeMember ws u now =
     update_first (at_workspace ws) (\<lambda>d. d\<lparr>wk_members := filter (\<lambda>m. wm_userId m \<noteq> u) (wk_members d), wk_updatedAt := now\<rparr>)"

definition active_owner :: "workspace_member \<Rightarrow> bool" where
  "active_owner m \<longleftrightarrow> wm_role m = Owner \<and> wm_status m = Active_member"

definition isLastOwner :: "id \<Rightarrow> id \<Rightarrow> workspace_doc list \<Rightarrow> bool" where
  "isLastOwner ws u docs =
     (case workspace_by_id ws docs of
        None \<Rightarrow> False
      | Some doc \<Rightarrow> (case filter active_owner (wk_members doc) of [owner] \<Rightarrow> wm_userId owner = u | _ \<Rightarrow> False))"

subsection \<open>The routes\<close>

definition normaliseEmail :: "string \<Rightarrow> string" where
  "normaliseEmail email = to_lower (trim email)"

text \<open>
  What the routes read besides the workspaces: the API key a bearer token stands for, the address of a person, and
  whether the body schema accepts an address.
\<close>

record route_env =
  re_key_of :: "string \<Rightarrow> (id \<times> id \<times> permission list) option"
  re_email_of :: "id \<Rightarrow> string option"
  re_valid_email :: "string \<Rightarrow> bool"

type_synonym credentials = "string option \<times> id option"

definition workspaceRoute :: "route_env \<Rightarrow> permission \<Rightarrow> credentials \<Rightarrow> id \<Rightarrow> workspace_doc list \<Rightarrow> workspace_error + principal" where
  "workspaceRoute env needed creds ws docs =
     (case resolvePrincipal (re_key_of env) (membershipOf docs) (fst creds) (snd creds) ws of
        Inl e \<Rightarrow> Inl (Http e)
      | Inr p \<Rightarrow> (case requirePermission p needed of Inl e \<Rightarrow> Inl (Http e) | Inr _ \<Rightarrow> Inr p))"

fun callerRole :: "principal \<Rightarrow> role option" where
  "callerRole (User u w r) = Some r"
| "callerRole _ = None"

definition audited :: "id \<Rightarrow> id \<Rightarrow> string \<Rightarrow> id \<Rightarrow> ws_world \<Rightarrow> ws_world" where
  "audited ws actor action subject w =
     w\<lparr>ww_audit := ww_audit w @ [\<lparr>al_workspaceId = ws, al_actor = actor, al_action = action, al_subject = subject\<rparr>]\<rparr>"

text \<open>A handler checks what it has read and then writes; the two halves are separate definitions.\<close>

definition patch_check :: "principal \<Rightarrow> id \<Rightarrow> id \<Rightarrow> role \<Rightarrow> workspace_doc list \<Rightarrow> workspace_error + unit" where
  "patch_check p ws u r docs =
     (case membershipOf docs ws u of
        None \<Rightarrow> Inl Not_a_member
      | Some current \<Rightarrow>
          (if (r = Owner \<or> current = Owner) \<and> callerRole p \<noteq> Some Owner then Inl Owners_only
           else if r \<noteq> Owner \<and> isLastOwner ws u docs then Inl Only_owner
           else Inr ()))"

definition patch_member :: "principal \<Rightarrow> id \<Rightarrow> id \<Rightarrow> role \<Rightarrow> time \<Rightarrow> ws_world \<Rightarrow> (workspace_error + unit) \<times> ws_world" where
  "patch_member p ws u r now w =
     (case patch_check p ws u r (ww_docs w) of
        Inl e \<Rightarrow> (Inl e, w)
      | Inr _ \<Rightarrow> (Inr (), audited ws (actorIdOf p) ''member.role_changed'' u
          (w\<lparr>ww_docs := setMemberRole ws u r now (ww_docs w)\<rparr>)))"

definition delete_check :: "principal \<Rightarrow> id \<Rightarrow> id \<Rightarrow> workspace_doc list \<Rightarrow> workspace_error + unit" where
  "delete_check p ws u docs =
     (case membershipOf docs ws u of
        None \<Rightarrow> Inl Not_a_member
      | Some current \<Rightarrow>
          (if current = Owner \<and> callerRole p \<noteq> Some Owner then Inl Owners_only
           else if isLastOwner ws u docs then Inl Only_owner
           else Inr ()))"

definition delete_member :: "principal \<Rightarrow> id \<Rightarrow> id \<Rightarrow> time \<Rightarrow> ws_world \<Rightarrow> (workspace_error + unit) \<times> ws_world" where
  "delete_member p ws u now w =
     (case delete_check p ws u (ww_docs w) of
        Inl e \<Rightarrow> (Inl e, w)
      | Inr _ \<Rightarrow> (Inr (), audited ws (actorIdOf p) ''member.removed'' u
          (w\<lparr>ww_docs := removeMember ws u now (ww_docs w)\<rparr>)))"

definition INVITATION_TTL_MS :: int where
  "INVITATION_TTL_MS = 7 * 86400000"

definition invite_member ::
  "route_env \<Rightarrow> principal \<Rightarrow> id \<Rightarrow> string \<Rightarrow> role \<Rightarrow> id \<Rightarrow> string \<Rightarrow> time \<Rightarrow> ws_world \<Rightarrow> (workspace_error + unit) \<times> ws_world" where
  "invite_member env p ws email r invId tokenHash now w =
     (if \<not> re_valid_email env (trim email) \<or> 254 < length (trim email) \<or> r = Owner then (Inl Invalid_body, w)
      else
        (case workspace_by_id ws (ww_docs w) of
           None \<Rightarrow> (Inl No_workspace, w)
         | Some _ \<Rightarrow>
             (let invitation = \<lparr>iv_id = invId, iv_email = normaliseEmail (trim email), iv_role = r, iv_tokenHash = tokenHash,
                iv_invitedBy = actorIdOf p, iv_expiresAt = now + INVITATION_TTL_MS\<rparr>
              in (Inr (), audited ws (actorIdOf p) ''member.invited'' invId
                (w\<lparr>ww_docs := createInvitation ws invitation now (ww_docs w)\<rparr>)))))"

definition withdraw_invitation :: "principal \<Rightarrow> id \<Rightarrow> id \<Rightarrow> time \<Rightarrow> ws_world \<Rightarrow> (workspace_error + unit) \<times> ws_world" where
  "withdraw_invitation p ws invId now w =
     (Inr (), audited ws (actorIdOf p) ''member.invitation_revoked'' invId
       (w\<lparr>ww_docs := revokeInvitation ws invId now (ww_docs w)\<rparr>))"

text \<open>Redeeming: the holder of the link is signed in, but no member yet.\<close>

definition redeem_invitation ::
  "route_env \<Rightarrow> id option \<Rightarrow> id \<Rightarrow> string \<Rightarrow> time \<Rightarrow> ws_world \<Rightarrow> (workspace_error + unit) \<times> ws_world" where
  "redeem_invitation env caller ws tokenHash now w =
     (case caller of
        None \<Rightarrow> (Inl (Http Unauthenticated), w)
      | Some u \<Rightarrow>
          (case findInvitation ws tokenHash now (ww_docs w) of
             None \<Rightarrow> (Inl No_invitation, w)
           | Some (_, invitation) \<Rightarrow>
               (case re_email_of env u of
                  None \<Rightarrow> (Inl (Http Unauthenticated), w)
                | Some email \<Rightarrow>
                    (if membershipOf (ww_docs w) ws u \<noteq> None then (Inr (), w)
                     else if normaliseEmail email \<noteq> iv_email invitation then (Inl (Other_address (iv_email invitation)), w)
                     else
                       (case acceptInvitation ws invitation u now (ww_docs w) of
                          (Inl e, docs) \<Rightarrow> (Inl e, w\<lparr>ww_docs := docs\<rparr>)
                        | (Inr _, docs) \<Rightarrow> (Inr (), audited ws u ''member.joined'' (iv_id invitation) (w\<lparr>ww_docs := docs\<rparr>)))))))"

definition patch_workspace ::
  "id \<Rightarrow> string option \<Rightarrow> rat option \<Rightarrow> int option \<Rightarrow> perm_effect option \<Rightarrow> time \<Rightarrow> ws_world \<Rightarrow> (workspace_error + unit) \<times> ws_world" where
  "patch_workspace ws name cap runs effect now w =
     (if case_option False (\<lambda>n. trim n = [] \<or> 80 < length (trim n)) name \<or> case_option False (\<lambda>c. c < 0 \<or> 100000 < c) cap \<or>
         case_option False (\<lambda>r. r < 1 \<or> 64 < r) runs then (Inl Invalid_body, w)
      else
        (let docs = (case name of None \<Rightarrow> ww_docs w | Some n \<Rightarrow> workspace_rename ws (trim n) now (ww_docs w))
         in (Inr (), w\<lparr>ww_docs := if cap = None \<and> runs = None \<and> effect = None then docs
               else updateSettings ws cap runs effect now docs\<rparr>)))"

subsection \<open>Requests\<close>

datatype ws_request =
    Create_workspace "id option" id string string
  | Patch_member credentials id id role
  | Delete_member credentials id id
  | Invite_member credentials id string role id string
  | Withdraw_invitation credentials id id
  | Redeem_invitation "id option" id string
  | Patch_workspace credentials id "string option" "rat option" "int option" "perm_effect option"

definition behind ::
  "route_env \<Rightarrow> permission \<Rightarrow> credentials \<Rightarrow> id \<Rightarrow> (principal \<Rightarrow> ws_world \<Rightarrow> (workspace_error + unit) \<times> ws_world) \<Rightarrow>
   ws_world \<Rightarrow> (workspace_error + unit) \<times> ws_world" where
  "behind env needed creds ws handler w =
     (case workspaceRoute env needed creds ws (ww_docs w) of Inl e \<Rightarrow> (Inl e, w) | Inr p \<Rightarrow> handler p w)"

fun serve :: "route_env \<Rightarrow> time \<Rightarrow> ws_request \<Rightarrow> ws_world \<Rightarrow> (workspace_error + unit) \<times> ws_world" where
  "serve env now (Create_workspace caller newId name slug) w =
     (case caller of
        None \<Rightarrow> (Inl (Http Unauthenticated), w)
      | Some u \<Rightarrow>
          (case workspace_create newId name slug u now (ww_docs w) of
             (Inl e, docs) \<Rightarrow> (Inl e, w\<lparr>ww_docs := docs\<rparr>)
           | (Inr _, docs) \<Rightarrow> (Inr (), w\<lparr>ww_docs := docs\<rparr>)))"
| "serve env now (Patch_member creds ws u r) w =
     behind env Members_manage creds ws (\<lambda>p. patch_member p ws u r now) w"
| "serve env now (Delete_member creds ws u) w =
     behind env Members_manage creds ws (\<lambda>p. delete_member p ws u now) w"
| "serve env now (Invite_member creds ws email r invId tokenHash) w =
     behind env Members_manage creds ws (\<lambda>p. invite_member env p ws email r invId tokenHash now) w"
| "serve env now (Withdraw_invitation creds ws invId) w =
     behind env Members_manage creds ws (\<lambda>p. withdraw_invitation p ws invId now) w"
| "serve env now (Redeem_invitation caller ws tokenHash) w = redeem_invitation env caller ws tokenHash now w"
| "serve env now (Patch_workspace creds ws name cap runs effect) w =
     behind env Workspace_manage creds ws (\<lambda>p. patch_workspace ws name cap runs effect now) w"

subsection \<open>The invariant\<close>

definition workspace_ok :: "workspace_doc \<Rightarrow> bool" where
  "workspace_ok d \<longleftrightarrow> wk_workspaceId d = wk_id d \<and> distinct (map wm_userId (wk_members d)) \<and>
     list_ex active_owner (wk_members d) \<and> length (wk_members d) \<le> MAX_EMBEDDED_MEMBERS \<and>
     list_all (\<lambda>i. iv_role i \<noteq> Owner) (wk_invitations d)"

definition workspaces_ok :: "workspace_doc list \<Rightarrow> bool" where
  "workspaces_ok docs \<longleftrightarrow> distinct (map wk_id docs) \<and> list_all workspace_ok docs"

lemma workspaces_ok_update:
  assumes "workspaces_ok docs"
    and "\<And>d. List.find P docs = Some d \<Longrightarrow> workspace_ok d \<Longrightarrow> workspace_ok (f d) \<and> wk_id (f d) = wk_id d"
  shows "workspaces_ok (update_first P f docs)"
proof -
  have "map wk_id (update_first P f docs) = map wk_id docs \<and> list_all workspace_ok (update_first P f docs)"
    using assms unfolding workspaces_ok_def by (induction docs) auto
  with assms(1) show ?thesis by (simp add: workspaces_ok_def)
qed

lemma find_at_workspace:
  assumes "List.find (at_workspace ws) docs = Some d"
  shows "d \<in> set docs" "wk_id d = ws"
  using find_Some_in [OF assms] by (auto simp: at_workspace_def)

text \<open>Ids are unique, so a membership is the one of the workspace's only document.\<close>

lemma workspaces_ok_Cons:
  "workspaces_ok (d # docs) \<longleftrightarrow> wk_id d \<notin> wk_id ` set docs \<and> workspace_ok d \<and> workspaces_ok docs"
  by (auto simp: workspaces_ok_def)

lemma membershipOf_by_id:
  assumes "workspaces_ok docs"
  shows "membershipOf docs ws u = Option.bind (workspace_by_id ws docs) (member_role u)"
proof -
  have none: "\<not> has_member u d \<Longrightarrow> member_role u d = None" for d
    by (auto simp: has_member_def member_role_def find_None_iff split: option.splits dest: find_Some_in)
  have gone: "List.find (\<lambda>d. at_workspace ws d \<and> has_member u d) docs = None" if "ws \<notin> wk_id ` set docs" for docs
    using that by (auto simp: find_None_iff at_workspace_def image_iff)
  show ?thesis
    using assms none gone
    by (induction docs) (auto simp: membershipOf_def workspace_by_id_def workspaces_ok_Cons at_workspace_def)
qed

lemma workspace_by_id_update:
  assumes "workspaces_ok docs" "\<And>d. P d \<Longrightarrow> at_workspace ws' d"
    and "\<And>d. wk_id (f d) = wk_id d" "\<And>d. wk_workspaceId (f d) = wk_workspaceId d"
  shows "workspace_by_id ws (update_first P f docs) = map_option (\<lambda>d. if P d then f d else d) (workspace_by_id ws docs)"
proof -
  have same: "at_workspace ws (f d) = at_workspace ws d" for d by (simp add: at_workspace_def assms(3,4))
  have other: "\<not> P e" if "P d" "wk_id d \<notin> wk_id ` set docs" "e \<in> set docs" for d e docs
    using that assms(2) [of d] assms(2) [of e] by (auto simp: at_workspace_def image_iff)
  show ?thesis
    using assms(1)
  proof (induction docs)
    case (Cons d docs)
    then have ok: "wk_id d \<notin> wk_id ` set docs" "workspaces_ok docs" by (auto simp: workspaces_ok_Cons)
    show ?case
    proof (cases "P d")
      case True
      then have "\<not> P e" if "e \<in> set docs" for e using other [OF _ ok(1) that] by blast
      then have "map_option (\<lambda>d. if P d then f d else d) (workspace_by_id ws docs) = workspace_by_id ws docs"
        by (cases "workspace_by_id ws docs") (auto simp: workspace_by_id_def dest: find_Some_in)
      with True show ?thesis by (auto simp: workspace_by_id_def same)
    next
      case False
      with Cons.IH [OF ok(2)] show ?thesis by (auto simp: workspace_by_id_def)
    qed
  qed (simp add: workspace_by_id_def)
qed

text \<open>Some owner is left besides a member who is not the last one.\<close>

lemma other_owner:
  assumes "distinct (map wm_userId ms)" "list_ex active_owner ms"
    and "\<And>owner. filter active_owner ms = [owner] \<Longrightarrow> wm_userId owner \<noteq> u"
  obtains m where "m \<in> set ms" "active_owner m" "wm_userId m \<noteq> u"
proof -
  let ?os = "filter active_owner ms"
  from assms(2) obtain a os where os: "?os = a # os" by (cases ?os) (auto simp: filter_empty_conv list_ex_iff)
  have "distinct (map wm_userId ?os)" by (rule distinct_map_filter [OF assms(1)])
  with os assms(3) [of a] have "\<exists>m \<in> set ?os. wm_userId m \<noteq> u" by (cases os) auto
  then show thesis using that by auto
qed

lemma owner_left:
  assumes "workspace_ok d" "List.find (at_workspace ws) docs = Some d" "\<not> isLastOwner ws u docs"
  obtains m where "m \<in> set (wk_members d)" "active_owner m" "wm_userId m \<noteq> u"
proof (rule other_owner)
  show "distinct (map wm_userId (wk_members d))" "list_ex active_owner (wk_members d)"
    using assms(1) by (simp_all add: workspace_ok_def)
  show "wm_userId owner \<noteq> u" if "filter active_owner (wk_members d) = [owner]" for owner
    using that assms(2,3) by (auto simp: isLastOwner_def workspace_by_id_def)
qed

lemma setMemberRole_ok:
  assumes "workspaces_ok docs" "r = Owner \<or> \<not> isLastOwner ws u docs"
  shows "workspaces_ok (setMemberRole ws u r now docs)"
  unfolding setMemberRole_def
proof (rule workspaces_ok_update [OF assms(1)])
  fix d
  assume find: "List.find (at_workspace ws) docs = Some d" and ok: "workspace_ok d"
  have ids: "wm_userId \<circ> set_role u r = wm_userId" by (auto simp: set_role_def)
  have "list_ex active_owner (map (set_role u r) (wk_members d))"
  proof (cases "r = Owner")
    case True
    from ok obtain m where "m \<in> set (wk_members d)" "active_owner m" by (auto simp: workspace_ok_def list_ex_iff)
    then have "set_role u r m \<in> set (map (set_role u r) (wk_members d))" "active_owner (set_role u r m)"
      using True by (auto simp: set_role_def active_owner_def)
    then show ?thesis unfolding list_ex_iff by blast
  next
    case False
    with assms(2) have last: "\<not> isLastOwner ws u docs" by simp
    obtain m where "m \<in> set (wk_members d)" "active_owner m" "wm_userId m \<noteq> u"
      using owner_left [OF ok find last] .
    then show ?thesis by (force simp: list_ex_iff set_role_def)
  qed
  with ok ids show "workspace_ok (d\<lparr>wk_members := map (set_role u r) (wk_members d), wk_updatedAt := now\<rparr>) \<and>
      wk_id (d\<lparr>wk_members := map (set_role u r) (wk_members d), wk_updatedAt := now\<rparr>) = wk_id d"
    by (simp add: workspace_ok_def)
qed

lemma removeMember_ok:
  assumes "workspaces_ok docs" "\<not> isLastOwner ws u docs"
  shows "workspaces_ok (removeMember ws u now docs)"
  unfolding removeMember_def
proof (rule workspaces_ok_update [OF assms(1)])
  fix d
  assume find: "List.find (at_workspace ws) docs = Some d" and ok: "workspace_ok d"
  obtain m where "m \<in> set (wk_members d)" "active_owner m" "wm_userId m \<noteq> u"
    using owner_left [OF ok find assms(2)] .
  then have "list_ex active_owner (filter (\<lambda>m. wm_userId m \<noteq> u) (wk_members d))" by (auto simp: list_ex_iff)
  moreover have "length (filter (\<lambda>m. wm_userId m \<noteq> u) (wk_members d)) \<le> MAX_EMBEDDED_MEMBERS"
    using ok by (auto simp: workspace_ok_def intro: order_trans [OF length_filter_le])
  ultimately show "workspace_ok (d\<lparr>wk_members := filter (\<lambda>m. wm_userId m \<noteq> u) (wk_members d), wk_updatedAt := now\<rparr>) \<and>
      wk_id (d\<lparr>wk_members := filter (\<lambda>m. wm_userId m \<noteq> u) (wk_members d), wk_updatedAt := now\<rparr>) = wk_id d"
    using ok by (auto simp: workspace_ok_def distinct_map_filter)
qed

text \<open>Writes that leave the members alone and invite no owner.\<close>

lemma quiet_write_ok:
  assumes "workspaces_ok docs"
    and "\<And>d. wk_id (f d) = wk_id d \<and> wk_workspaceId (f d) = wk_workspaceId d \<and> wk_members (f d) = wk_members d"
    and "\<And>d. list_all (\<lambda>i. iv_role i \<noteq> Owner) (wk_invitations d) \<Longrightarrow> list_all (\<lambda>i. iv_role i \<noteq> Owner) (wk_invitations (f d))"
  shows "workspaces_ok (update_first P f docs)"
  using assms by (intro workspaces_ok_update) (auto simp: workspace_ok_def)

lemma revokeInvitation_ok: "workspaces_ok docs \<Longrightarrow> workspaces_ok (revokeInvitation ws i now docs)"
  unfolding revokeInvitation_def by (rule quiet_write_ok) (auto simp: list_all_iff)

lemma createInvitation_ok: "workspaces_ok docs \<Longrightarrow> iv_role i \<noteq> Owner \<Longrightarrow> workspaces_ok (createInvitation ws i now docs)"
  unfolding createInvitation_def by (intro quiet_write_ok) (auto simp: list_all_iff)

lemma addMember_ok:
  assumes "workspaces_ok docs" "addMember ws m now docs = (r, docs')"
  shows "workspaces_ok docs'"
proof (cases "workspace_by_id ws docs")
  case (Some existing)
  show ?thesis
  proof (cases "MAX_EMBEDDED_MEMBERS \<le> length (wk_members existing)")
    case False
    have "workspaces_ok (update_first (\<lambda>d. at_workspace ws d \<and> \<not> has_member (wm_userId m) d)
        (\<lambda>d. d\<lparr>wk_members := wk_members d @ [m], wk_updatedAt := now\<rparr>) docs)"
    proof (rule workspaces_ok_update [OF assms(1)])
      fix d
      assume find: "List.find (\<lambda>d. at_workspace ws d \<and> \<not> has_member (wm_userId m) d) docs = Some d" and ok: "workspace_ok d"
      from find_Some_in [OF find] have d: "d \<in> set docs" "at_workspace ws d" "\<not> has_member (wm_userId m) d" by auto
      moreover from Some have "existing \<in> set docs" "wk_id existing = ws"
        by (auto simp: workspace_by_id_def dest: find_at_workspace)
      ultimately have "d = existing"
        using assms(1) by (auto simp: workspaces_ok_def distinct_map inj_on_def at_workspace_def)
      with False ok d(3) show "workspace_ok (d\<lparr>wk_members := wk_members d @ [m], wk_updatedAt := now\<rparr>) \<and>
          wk_id (d\<lparr>wk_members := wk_members d @ [m], wk_updatedAt := now\<rparr>) = wk_id d"
        by (auto simp: workspace_ok_def has_member_def)
    qed
    with False Some assms(2) show ?thesis by (auto simp: addMember_def)
  qed (use Some assms in \<open>auto simp: addMember_def\<close>)
qed (use assms in \<open>auto simp: addMember_def\<close>)

lemma acceptInvitation_ok:
  assumes "workspaces_ok docs" "acceptInvitation ws i u now docs = (r, docs')"
  shows "workspaces_ok docs'"
  using assms by (auto simp: acceptInvitation_def split: prod.splits sum.splits dest: addMember_ok intro: revokeInvitation_ok)

lemma workspace_create_ok:
  assumes "workspaces_ok docs" "workspace_create i name slug u now docs = (r, docs')"
  shows "workspaces_ok docs'"
  using assms
  by (auto simp: workspace_create_def Let_def workspaces_ok_def workspace_ok_def new_workspace_def active_owner_def
      MAX_EMBEDDED_MEMBERS_def split: if_splits)

lemma ww_docs_audited [simp]: "ww_docs (audited ws a act subject w) = ww_docs w"
  by (simp add: audited_def)

lemma behind_cases:
  assumes "behind env needed creds ws handler w = (r, w')"
  obtains e where "r = Inl e" "w' = w"
  | p where "workspaceRoute env needed creds ws (ww_docs w) = Inr p" "handler p w = (r, w')"
  using assms by (auto simp: behind_def split: sum.splits)

lemma patch_member_cases:
  assumes "patch_member p ws u r now w = (reply, w')"
  obtains "w' = w" | "patch_check p ws u r (ww_docs w) = Inr ()" "ww_docs w' = setMemberRole ws u r now (ww_docs w)"
  using assms by (auto simp: patch_member_def split: sum.splits)

lemma delete_member_cases:
  assumes "delete_member p ws u now w = (reply, w')"
  obtains "w' = w" | "delete_check p ws u (ww_docs w) = Inr ()" "ww_docs w' = removeMember ws u now (ww_docs w)"
  using assms by (auto simp: delete_member_def split: sum.splits)

lemma invite_member_cases:
  assumes "invite_member env p ws email r invId tokenHash now w = (reply, w')"
  obtains "w' = w" | i where "iv_role i \<noteq> Owner" "ww_docs w' = createInvitation ws i now (ww_docs w)"
proof -
  let ?i = "\<lparr>iv_id = invId, iv_email = normaliseEmail (trim email), iv_role = r, iv_tokenHash = tokenHash,
    iv_invitedBy = actorIdOf p, iv_expiresAt = now + INVITATION_TTL_MS\<rparr>"
  from assms have "w' = w \<or> r \<noteq> Owner \<and> ww_docs w' = createInvitation ws ?i now (ww_docs w)"
    by (auto simp: invite_member_def Let_def split: if_splits option.splits)
  then show thesis using that(1) that(2) [of ?i] by auto
qed

lemma redeem_invitation_cases:
  assumes "redeem_invitation env caller ws tokenHash now w = (reply, w')"
  obtains "ww_docs w' = ww_docs w"
  | u d i email r where "caller = Some u" "findInvitation ws tokenHash now (ww_docs w) = Some (d, i)"
    "re_email_of env u = Some email" "membershipOf (ww_docs w) ws u = None" "normaliseEmail email = iv_email i"
    "acceptInvitation ws i u now (ww_docs w) = (r, ww_docs w')"
  using assms by (auto simp: redeem_invitation_def split: option.splits prod.splits if_splits sum.splits)

lemma patch_workspace_docs:
  assumes "workspaces_ok (ww_docs w)" "patch_workspace ws name cap runs effect now w = (reply, w')"
  shows "workspaces_ok (ww_docs w')"
proof -
  have rename: "workspaces_ok docs \<Longrightarrow> workspaces_ok (workspace_rename ws n now docs)" for docs n
    unfolding workspace_rename_def by (rule quiet_write_ok) auto
  have settings: "workspaces_ok docs \<Longrightarrow> workspaces_ok (updateSettings ws c r e now docs)" for docs c r e
    unfolding updateSettings_def Let_def by (rule quiet_write_ok) auto
  from assms show ?thesis
    by (auto simp: patch_workspace_def Let_def rename settings split: if_splits option.splits)
qed

lemma serve_ok:
  assumes "workspaces_ok (ww_docs w)" "serve env now req w = (reply, w')"
  shows "workspaces_ok (ww_docs w')"
proof (cases req)
  case (Create_workspace caller newId name slug)
  with assms show ?thesis by (auto split: option.splits prod.splits sum.splits dest: workspace_create_ok)
next
  case (Patch_member creds ws u r)
  with assms(2) have "behind env Members_manage creds ws (\<lambda>p. patch_member p ws u r now) w = (reply, w')" by simp
  with assms(1) show ?thesis
    by (auto elim!: behind_cases patch_member_cases simp: patch_check_def
        intro!: setMemberRole_ok split: option.splits if_splits)
next
  case (Delete_member creds ws u)
  with assms(2) have "behind env Members_manage creds ws (\<lambda>p. delete_member p ws u now) w = (reply, w')" by simp
  with assms(1) show ?thesis
    by (auto elim!: behind_cases delete_member_cases simp: delete_check_def
        intro!: removeMember_ok split: option.splits if_splits)
next
  case (Invite_member creds ws email r i th)
  with assms(2) have "behind env Members_manage creds ws (\<lambda>p. invite_member env p ws email r i th now) w = (reply, w')" by simp
  with assms(1) show ?thesis by (auto elim!: behind_cases invite_member_cases intro: createInvitation_ok)
next
  case (Withdraw_invitation creds ws i)
  with assms show ?thesis
    by (auto elim!: behind_cases simp: withdraw_invitation_def revokeInvitation_ok)
next
  case (Redeem_invitation caller ws th)
  with assms show ?thesis by (auto elim!: redeem_invitation_cases dest: acceptInvitation_ok)
next
  case (Patch_workspace creds ws name cap runs effect)
  with assms show ?thesis by (auto elim!: behind_cases dest: patch_workspace_docs)
qed

definition no_workspaces :: "ws_world \<Rightarrow> bool" where
  "no_workspaces w \<longleftrightarrow> ww_docs w = []"

definition ws_step :: "route_env \<Rightarrow> ws_world \<Rightarrow> ws_world \<Rightarrow> bool" where
  "ws_step env w w' \<longleftrightarrow> (\<exists>now req. w' = snd (serve env now req w))"

interpretation workspaces: invariant_system no_workspaces "ws_step env" "\<lambda>w. workspaces_ok (ww_docs w)"
proof
  show "no_workspaces w \<Longrightarrow> workspaces_ok (ww_docs w)" for w by (simp add: no_workspaces_def workspaces_ok_def)
  show "workspaces_ok (ww_docs w) \<Longrightarrow> ws_step env w w' \<Longrightarrow> workspaces_ok (ww_docs w')" for w w'
    unfolding ws_step_def by (metis prod.collapse serve_ok)
qed

subsection \<open>Who may change a membership\<close>

lemma find_set_role:
  "List.find (\<lambda>m. wm_userId m = v) (map (set_role u r) ms) = map_option (set_role u r) (List.find (\<lambda>m. wm_userId m = v) ms)"
  by (induction ms) (auto simp: set_role_def)

lemma member_role_set_role:
  "member_role v (d\<lparr>wk_members := map (set_role u r) (wk_members d), wk_updatedAt := now\<rparr>) =
   (if v = u then map_option (\<lambda>_. r) (member_role v d) else member_role v d)"
proof (cases "List.find (\<lambda>m. wm_userId m = v) (wk_members d)")
  case (Some m)
  with find_Some_in [OF Some] show ?thesis by (auto simp: member_role_def find_set_role set_role_def)
qed (auto simp: member_role_def find_set_role)

lemma find_without:
  "List.find (\<lambda>m. wm_userId m = v) (filter (\<lambda>m. wm_userId m \<noteq> u) ms) =
   (if v = u then None else List.find (\<lambda>m. wm_userId m = v) ms)"
  by (induction ms) auto

lemma member_role_filter:
  "member_role v (d\<lparr>wk_members := filter (\<lambda>m. wm_userId m \<noteq> u) (wk_members d), wk_updatedAt := now\<rparr>) =
   (if v = u then None else member_role v d)"
  using find_without [of v u "wk_members d"] by (auto simp: member_role_def)

lemma membershipOf_setMemberRole:
  assumes "workspaces_ok docs" "r = Owner \<or> \<not> isLastOwner ws u docs"
  shows "membershipOf (setMemberRole ws u r now docs) ws' v =
    (if ws' = ws \<and> v = u then map_option (\<lambda>_. r) (membershipOf docs ws' v) else membershipOf docs ws' v)"
proof -
  have "workspace_by_id ws' (setMemberRole ws u r now docs) =
      map_option (\<lambda>d. if at_workspace ws d then d\<lparr>wk_members := map (set_role u r) (wk_members d), wk_updatedAt := now\<rparr> else d)
        (workspace_by_id ws' docs)"
    unfolding setMemberRole_def by (rule workspace_by_id_update [OF assms(1)]) auto
  with setMemberRole_ok [OF assms] assms(1) show ?thesis
    by (cases "workspace_by_id ws' docs")
      (auto simp: membershipOf_by_id member_role_set_role at_workspace_def workspace_by_id_def dest: find_Some_in)
qed

lemma membershipOf_removeMember:
  assumes "workspaces_ok docs" "\<not> isLastOwner ws u docs"
  shows "membershipOf (removeMember ws u now docs) ws' v =
    (if ws' = ws \<and> v = u then None else membershipOf docs ws' v)"
proof -
  have "workspace_by_id ws' (removeMember ws u now docs) =
      map_option (\<lambda>d. if at_workspace ws d then d\<lparr>wk_members := filter (\<lambda>m. wm_userId m \<noteq> u) (wk_members d), wk_updatedAt := now\<rparr>
        else d) (workspace_by_id ws' docs)"
    unfolding removeMember_def by (rule workspace_by_id_update [OF assms(1)]) auto
  with removeMember_ok [OF assms] assms(1) show ?thesis
    by (cases "workspace_by_id ws' docs")
      (auto simp: membershipOf_by_id member_role_filter at_workspace_def workspace_by_id_def dest: find_Some_in)
qed

lemma membershipOf_quiet:
  assumes "workspaces_ok docs" "workspaces_ok (update_first P f docs)" "\<And>d. P d \<Longrightarrow> at_workspace ws d"
    and "\<And>d. wk_id (f d) = wk_id d \<and> wk_workspaceId (f d) = wk_workspaceId d \<and> wk_members (f d) = wk_members d"
  shows "membershipOf (update_first P f docs) = membershipOf docs"
proof (intro ext)
  fix ws' v
  have "workspace_by_id ws' (update_first P f docs) = map_option (\<lambda>d. if P d then f d else d) (workspace_by_id ws' docs)"
    using assms(3,4) by (intro workspace_by_id_update [OF assms(1)]) auto
  then show "membershipOf (update_first P f docs) ws' v = membershipOf docs ws' v"
    using assms(1,2,4) by (cases "workspace_by_id ws' docs") (auto simp: membershipOf_by_id member_role_def)
qed

lemma membershipOf_revokeInvitation:
  "workspaces_ok docs \<Longrightarrow> membershipOf (revokeInvitation ws i now docs) = membershipOf docs"
  using revokeInvitation_ok [of docs ws i now] unfolding revokeInvitation_def by (intro membershipOf_quiet) auto

lemma membershipOf_createInvitation:
  assumes "workspaces_ok docs" "iv_role i \<noteq> Owner"
  shows "membershipOf (createInvitation ws i now docs) = membershipOf docs"
proof -
  let ?pull = "update_first (at_workspace ws) (\<lambda>d. d\<lparr>wk_invitations := filter (\<lambda>j. iv_email j \<noteq> iv_email i) (wk_invitations d)\<rparr>) docs"
  have "workspaces_ok ?pull" by (rule quiet_write_ok [OF assms(1)]) (auto simp: list_all_iff)
  moreover have "membershipOf ?pull = membershipOf docs"
    by (rule membershipOf_quiet [OF assms(1) \<open>workspaces_ok ?pull\<close>]) auto
  moreover have "membershipOf (createInvitation ws i now docs) = membershipOf ?pull"
    using createInvitation_ok [OF assms, of ws now] \<open>workspaces_ok ?pull\<close>
    unfolding createInvitation_def by (intro membershipOf_quiet) auto
  ultimately show ?thesis by simp
qed

lemma membershipOf_addMember:
  assumes "workspaces_ok docs" "addMember ws m now docs = (r, docs')"
    and "membershipOf docs' ws' v \<noteq> membershipOf docs ws' v"
  shows "ws' = ws \<and> v = wm_userId m \<and> membershipOf docs' ws' v = (if wm_status m = Active_member then Some (wm_role m) else None)"
proof -
  let ?P = "\<lambda>d. at_workspace ws d \<and> \<not> has_member (wm_userId m) d"
  let ?f = "\<lambda>d. d\<lparr>wk_members := wk_members d @ [m], wk_updatedAt := now\<rparr>"
  from assms(2,3) have docs': "docs' = update_first ?P ?f docs"
    by (auto simp: addMember_def split: option.splits if_splits)
  have "workspace_by_id ws' docs' = map_option (\<lambda>d. if ?P d then ?f d else d) (workspace_by_id ws' docs)"
    unfolding docs' by (rule workspace_by_id_update [OF assms(1)]) auto
  moreover have "workspaces_ok docs'" by (rule addMember_ok [OF assms(1,2)])
  ultimately obtain d where d: "workspace_by_id ws' docs = Some d" "?P d" "membershipOf docs' ws' v = member_role v (?f d)"
    "member_role v (?f d) \<noteq> member_role v d"
    using assms(1,3) by (cases "workspace_by_id ws' docs") (auto simp: membershipOf_by_id split: if_splits)
  have fresh: "List.find (\<lambda>k. wm_userId k = wm_userId m) (wk_members d) = None"
    using d(2) by (auto simp: find_None_iff has_member_def image_iff)
  have app: "List.find Q (xs @ [m]) = (case List.find Q xs of None \<Rightarrow> if Q m then Some m else None | Some x \<Rightarrow> Some x)" for Q xs
    by (induction xs) auto
  from d(4) have v: "v = wm_userId m"
    by (auto simp: member_role_def app split: option.splits if_splits)
  moreover from d(1,2) have "ws' = ws" by (auto simp: workspace_by_id_def at_workspace_def dest!: find_Some_in)
  ultimately show ?thesis using d(3) fresh by (auto simp: member_role_def app)
qed

lemma membershipOf_create:
  assumes "workspaces_ok docs" "workspace_create i name slug u now docs = (r, docs')"
    and "membershipOf docs' ws v \<noteq> membershipOf docs ws v"
  shows "ws = i \<and> v = u \<and> membershipOf docs ws v = None \<and> membershipOf docs' ws v = Some Owner"
proof -
  let ?d = "new_workspace i name slug u now"
  from assms(2,3) have docs': "docs' = docs @ [?d]" and i: "i \<notin> wk_id ` set docs"
    by (auto simp: workspace_create_def Let_def split: if_splits)
  have app: "workspace_by_id ws docs' = (case workspace_by_id ws docs of None \<Rightarrow> if ws = i then Some ?d else None | Some x \<Rightarrow> Some x)"
    unfolding docs' workspace_by_id_def by (induction docs) (auto simp: at_workspace_def new_workspace_def)
  have ok: "workspaces_ok docs'" by (rule workspace_create_ok [OF assms(1,2)])
  from assms(3) app have none: "workspace_by_id ws docs = None"
    by (auto simp: membershipOf_by_id [OF assms(1)] membershipOf_by_id [OF ok] split: option.splits)
  with assms(3) app have "ws = i" by (auto simp: membershipOf_by_id [OF assms(1)] membershipOf_by_id [OF ok] split: if_splits)
  with none app assms(3) show ?thesis
    by (auto simp: membershipOf_by_id [OF assms(1)] membershipOf_by_id [OF ok] member_role_def new_workspace_def split: if_splits)
qed

lemma patch_workspace_membership:
  assumes "workspaces_ok (ww_docs w)" "patch_workspace ws name cap runs effect now w = (reply, w')"
  shows "membershipOf (ww_docs w') = membershipOf (ww_docs w)"
proof -
  have quiet: "workspaces_ok (g docs) \<and> membershipOf (g docs) = membershipOf docs"
    if "workspaces_ok docs" "g = update_first (at_workspace ws) f"
      "\<And>d. wk_id (f d) = wk_id d \<and> wk_workspaceId (f d) = wk_workspaceId d \<and> wk_members (f d) = wk_members d \<and>
        wk_invitations (f d) = wk_invitations d" for f docs g
    using quiet_write_ok [OF that(1), of f] that membershipOf_quiet [OF that(1), of "at_workspace ws" f ws] by auto
  have rename: "workspaces_ok (workspace_rename ws n now docs) \<and> membershipOf (workspace_rename ws n now docs) = membershipOf docs"
    if "workspaces_ok docs" for n docs
    by (rule quiet [OF that workspace_rename_def]) auto
  have settings: "membershipOf (updateSettings ws c r e now docs) = membershipOf docs" if "workspaces_ok docs" for c r e docs
    by (rule conjunct2, rule quiet [OF that updateSettings_def]) (auto simp: Let_def)
  from assms show ?thesis
    by (auto simp: patch_workspace_def Let_def rename settings split: if_splits option.splits)
qed

lemma patch_check_Inr:
  assumes "patch_check p ws u r docs = Inr ()"
  obtains current where "membershipOf docs ws u = Some current" "r = Owner \<or> current = Owner \<longrightarrow> callerRole p = Some Owner"
    "r = Owner \<or> \<not> isLastOwner ws u docs"
  using assms by (auto simp: patch_check_def split: option.splits if_splits)

lemma delete_check_Inr:
  assumes "delete_check p ws u docs = Inr ()"
  obtains current where "membershipOf docs ws u = Some current" "current = Owner \<longrightarrow> callerRole p = Some Owner"
    "\<not> isLastOwner ws u docs"
  using assms by (auto simp: delete_check_def split: option.splits if_splits)

lemma patch_change:
  assumes "workspaces_ok (ww_docs w)" "serve env now (Patch_member creds ws' v r) w = (reply, w')"
    and "membershipOf (ww_docs w') ws u \<noteq> membershipOf (ww_docs w) ws u"
  obtains p current where "ws' = ws" "v = u" "workspaceRoute env Members_manage creds ws (ww_docs w) = Inr p"
    "membershipOf (ww_docs w) ws u = Some current" "membershipOf (ww_docs w') ws u = Some r"
    "r = Owner \<or> current = Owner \<longrightarrow> callerRole p = Some Owner"
proof -
  from assms(2) have "behind env Members_manage creds ws' (\<lambda>p. patch_member p ws' v r now) w = (reply, w')" by simp
  with assms(3) obtain p where p: "workspaceRoute env Members_manage creds ws' (ww_docs w) = Inr p"
    and chk: "patch_check p ws' v r (ww_docs w) = Inr ()" and docs: "ww_docs w' = setMemberRole ws' v r now (ww_docs w)"
    by (auto elim!: behind_cases patch_member_cases)
  from chk obtain current where c: "membershipOf (ww_docs w) ws' v = Some current"
    "r = Owner \<or> current = Owner \<longrightarrow> callerRole p = Some Owner" "r = Owner \<or> \<not> isLastOwner ws' v (ww_docs w)"
    by (rule patch_check_Inr)
  from membershipOf_setMemberRole [OF assms(1) c(3), of now ws u] assms(3) have "ws' = ws" "v = u"
    by (auto simp: docs split: if_splits)
  with that p c membershipOf_setMemberRole [OF assms(1) c(3), of now ws u] show thesis by (simp add: docs)
qed

lemma delete_change:
  assumes "workspaces_ok (ww_docs w)" "serve env now (Delete_member creds ws' v) w = (reply, w')"
    and "membershipOf (ww_docs w') ws u \<noteq> membershipOf (ww_docs w) ws u"
  obtains p current where "ws' = ws" "v = u" "workspaceRoute env Members_manage creds ws (ww_docs w) = Inr p"
    "membershipOf (ww_docs w) ws u = Some current" "membershipOf (ww_docs w') ws u = None"
    "current = Owner \<longrightarrow> callerRole p = Some Owner"
proof -
  from assms(2) have "behind env Members_manage creds ws' (\<lambda>p. delete_member p ws' v now) w = (reply, w')" by simp
  with assms(3) obtain p where p: "workspaceRoute env Members_manage creds ws' (ww_docs w) = Inr p"
    and chk: "delete_check p ws' v (ww_docs w) = Inr ()" and docs: "ww_docs w' = removeMember ws' v now (ww_docs w)"
    by (auto elim!: behind_cases delete_member_cases)
  from chk obtain current where c: "membershipOf (ww_docs w) ws' v = Some current"
    "current = Owner \<longrightarrow> callerRole p = Some Owner" "\<not> isLastOwner ws' v (ww_docs w)"
    by (rule delete_check_Inr)
  from membershipOf_removeMember [OF assms(1) c(3), of now ws u] assms(3) have "ws' = ws" "v = u"
    by (auto simp: docs split: if_splits)
  with that p c membershipOf_removeMember [OF assms(1) c(3), of now ws u] show thesis by (simp add: docs)
qed

lemma redeem_change:
  assumes "workspaces_ok (ww_docs w)" "redeem_invitation env caller ws' tokenHash now w = (reply, w')"
    and "membershipOf (ww_docs w') ws u \<noteq> membershipOf (ww_docs w) ws u"
  obtains d i email where "caller = Some u" "ws' = ws" "membershipOf (ww_docs w) ws u = None"
    "membershipOf (ww_docs w') ws u = Some (iv_role i)" "iv_role i \<noteq> Owner"
    "findInvitation ws tokenHash now (ww_docs w) = Some (d, i)" "re_email_of env u = Some email" "normaliseEmail email = iv_email i"
  using assms(2)
proof (cases rule: redeem_invitation_cases)
  case (2 v d i email r)
  obtain docs r' where add: "addMember ws' \<lparr>wm_userId = v, wm_role = iv_role i, wm_status = Active_member, wm_joinedAt = now,
      wm_invitedBy = Some (iv_invitedBy i)\<rparr> now (ww_docs w) = (r', docs)" by (metis surj_pair)
  have "workspaces_ok docs" by (rule addMember_ok [OF assms(1) add])
  from 2(6) add have "ww_docs w' = docs \<or> ww_docs w' = revokeInvitation ws' (iv_id i) now docs"
    by (auto simp: acceptInvitation_def split: sum.splits)
  with \<open>workspaces_ok docs\<close> have same: "membershipOf (ww_docs w') = membershipOf docs"
    using membershipOf_revokeInvitation by auto
  with assms(3) have "membershipOf docs ws u \<noteq> membershipOf (ww_docs w) ws u" by simp
  from membershipOf_addMember [OF assms(1) add this]
  have who: "ws = ws'" "u = v" "membershipOf docs ws u = Some (iv_role i)" by auto
  from 2(2) assms(1) have "iv_role i \<noteq> Owner"
    by (auto simp: findInvitation_def workspace_by_id_def workspaces_ok_def workspace_ok_def list_all_iff
        split: option.splits if_splits dest!: find_Some_in)
  with 2 who same show thesis by (intro that) auto
qed (use assms(3) in simp)

subsection \<open>Properties\<close>


definition sample_routes :: route_env where
  "sample_routes = \<lparr>re_key_of = (\<lambda>t. None), re_email_of = (\<lambda>u. Some (u @ ''@example.com'')), re_valid_email = (\<lambda>e. True)\<rparr>"

definition two_owners :: ws_world where
  "two_owners = snd (serve sample_routes 4 (Patch_member (None, Some ''ann'') ''w1'' ''bob'' Owner)
     (snd (serve sample_routes 3 (Redeem_invitation (Some ''bob'') ''w1'' ''h1'')
       (snd (serve sample_routes 2 (Invite_member (None, Some ''ann'') ''w1'' ''bob@example.com'' Admin ''inv_1'' ''h1'')
         (snd (serve sample_routes 1 (Create_workspace (Some ''ann'') ''w1'' ''Acme'' ''acme'')
           \<lparr>ww_docs = [], ww_audit = []\<rparr>)))))))"

lemma two_owners_reached: "reach no_workspaces (ws_step sample_routes) two_owners"
proof -
  have "reach no_workspaces (ws_step sample_routes) \<lparr>ww_docs = [], ww_audit = []\<rparr>"
    by (rule reach_init) (simp add: no_workspaces_def)
  moreover have "reach no_workspaces (ws_step sample_routes) w \<Longrightarrow>
      reach no_workspaces (ws_step sample_routes) (snd (serve sample_routes now req w))" for w now req
    by (rule reach_step) (auto simp: ws_step_def)
  ultimately show ?thesis unfolding two_owners_def by blast
qed

lemma two_owners_members:
  "map (\<lambda>d. (wk_id d, map (\<lambda>m. (wm_userId m, wm_role m)) (wk_members d))) (ww_docs two_owners) =
   [(''w1'', [(''ann'', Owner), (''bob'', Owner)])]"
  by code_simp




text \<open>
  The last-owner check does not survive two requests at once. With two owners, each of whom removes the other, both
  handlers may read before either writes: both checks pass, and after both writes the workspace has nobody left.
\<close>

theorem owners_race:
  "\<exists>w. reach no_workspaces (ws_step sample_routes) w \<and>
    delete_check (User ''ann'' ''w1'' Owner) ''w1'' ''bob'' (ww_docs w) = Inr () \<and>
    delete_check (User ''bob'' ''w1'' Owner) ''w1'' ''ann'' (ww_docs w) = Inr () \<and>
    map wk_members (removeMember ''w1'' ''ann'' 6 (removeMember ''w1'' ''bob'' 5 (ww_docs w))) = [[]]"
proof (intro exI conjI)
  show "reach no_workspaces (ws_step sample_routes) two_owners" by (rule two_owners_reached)
  show "delete_check (User ''ann'' ''w1'' Owner) ''w1'' ''bob'' (ww_docs two_owners) = Inr ()" by code_simp
  show "delete_check (User ''bob'' ''w1'' Owner) ''w1'' ''ann'' (ww_docs two_owners) = Inr ()" by code_simp
  show "map wk_members (removeMember ''w1'' ''ann'' 6 (removeMember ''w1'' ''bob'' 5 (ww_docs two_owners))) = [[]]" by code_simp
qed

end
