(* ===== verification/Oauth_Server.thy ===== *)
theory Oauth_Server
  imports Workspaces
begin

text \<open>
  The host as an authorization server for MCP clients: opaque tokens and PKCE
  (\<^verbatim>\<open>packages/crypto/src/oauth-tokens.ts\<close>), the grants in the database
  (\<^verbatim>\<open>packages/db/src/repositories/oauth-server.ts\<close>), the checks of \<^verbatim>\<open>apps/web/src/lib/oauth-server.ts\<close> and the routes
  that issue a code and exchange it (\<^verbatim>\<open>apps/web/src/app/api/oauth\<close>).

  The two digests of SHA-256 (hexadecimal for a stored token, base64url for a PKCE challenge), the URL parser and the
  issuer are fields of an environment. Random bytes and ids are arguments. A read and the write that follows it are separate
  definitions, because other requests may come between them.
\<close>

datatype opaque_kind = Code_token | Access_token | Refresh_token

fun PREFIXES :: "opaque_kind \<Rightarrow> string" where
  "PREFIXES Code_token = ''hive_ac_''"
| "PREFIXES Access_token = ''hive_at_''"
| "PREFIXES Refresh_token = ''hive_rt_''"

record url_parts =
  url_origin :: string
  url_protocol :: string
  url_hostname :: string
  url_hash :: string
  url_pathname :: string

record oauth_env =
  oe_hex :: "string \<Rightarrow> string"
  oe_b64url :: "string \<Rightarrow> string"
  oe_url :: "string \<Rightarrow> url_parts option"
  oe_issuer :: string

definition hashOpaqueToken :: "oauth_env \<Rightarrow> string \<Rightarrow> string" where
  "hashOpaqueToken env token = oe_hex env token"

definition mintOpaqueToken :: "oauth_env \<Rightarrow> opaque_kind \<Rightarrow> string \<Rightarrow> string \<times> string" where
  "mintOpaqueToken env kind random = (let token = PREFIXES kind @ random in (token, hashOpaqueToken env token))"

definition opaqueTokenKind :: "string \<Rightarrow> opaque_kind option" where
  "opaqueTokenKind token =
     List.find (\<lambda>kind. starts_with token (PREFIXES kind) \<and> length (PREFIXES kind) < length token)
       [Code_token, Access_token, Refresh_token]"

definition pkceChallengeOf :: "oauth_env \<Rightarrow> string \<Rightarrow> string" where
  "pkceChallengeOf env verifier = oe_b64url env verifier"

definition VERIFIER :: "string \<Rightarrow> bool" where
  "VERIFIER s \<longleftrightarrow> 43 \<le> length s \<and> length s \<le> 128 \<and> list_all (\<lambda>c. is_alnum c \<or> c \<in> set ''-._~'') s"

definition verifyPkce :: "oauth_env \<Rightarrow> string \<Rightarrow> string \<Rightarrow> bool" where
  "verifyPkce env verifier challenge \<longleftrightarrow> VERIFIER verifier \<and> pkceChallengeOf env verifier = challenge"

subsection \<open>Grants\<close>

record oauth_client =
  oc_id :: id
  oc_name :: string
  oc_redirectUris :: "string list"

record grant_context =
  gc_workspaceId :: id
  gc_userId :: id
  gc_agentId :: id
  gc_clientId :: id
  gc_scope :: string
  gc_resource :: string

record oauth_grant =
  og_id :: id
  og_kind :: opaque_kind
  og_tokenHash :: string
  og_context :: grant_context
  og_familyId :: id
  og_redirectUri :: "string option"
  og_codeChallenge :: "string option"
  og_createdAt :: time
  og_expiresAt :: time
  og_usedAt :: "time option"
  og_revokedAt :: "time option"

datatype grant_failure = G_invalid | G_expired | G_used | G_client_mismatch | G_redirect_mismatch | G_pkce

datatype oauth_error = Duplicate_grant | Grant_failed grant_failure

record issued_tokens =
  it_accessToken :: string
  it_refreshToken :: string
  it_expiresIn :: int
  it_scope :: string

definition CODE_TTL_MS :: int where
  "CODE_TTL_MS = 10 * 60 * 1000"

definition ACCESS_TTL_MS :: int where
  "ACCESS_TTL_MS = 60 * 60 * 1000"

definition REFRESH_TTL_MS :: int where
  "REFRESH_TTL_MS = 30 * 24 * 60 * 60 * 1000"

text \<open>An insert keeps the primary key and the unique index on the token hash.\<close>

definition insert_grant :: "oauth_grant \<Rightarrow> oauth_grant list \<Rightarrow> oauth_error + oauth_grant list" where
  "insert_grant doc rows =
     (if og_id doc \<in> set (map og_id rows) \<or> og_tokenHash doc \<in> set (map og_tokenHash rows) then Inl Duplicate_grant
      else Inr (rows @ [doc]))"

definition registerClient :: "id \<Rightarrow> string \<Rightarrow> string list \<Rightarrow> oauth_client list \<Rightarrow> oauth_client list" where
  "registerClient newId name uris clients = clients @ [\<lparr>oc_id = newId, oc_name = name, oc_redirectUris = uris\<rparr>]"

definition findClient :: "id \<Rightarrow> oauth_client list \<Rightarrow> oauth_client option" where
  "findClient clientId clients = List.find (\<lambda>c. oc_id c = clientId) clients"

definition code_row :: "oauth_env \<Rightarrow> grant_context \<Rightarrow> string \<Rightarrow> string \<Rightarrow> string \<Rightarrow> id \<Rightarrow> id \<Rightarrow> time \<Rightarrow> oauth_grant" where
  "code_row env grant redirectUri codeChallenge random rowId familyId now =
     \<lparr>og_id = rowId, og_kind = Code_token, og_tokenHash = snd (mintOpaqueToken env Code_token random), og_context = grant,
      og_familyId = familyId, og_redirectUri = Some redirectUri, og_codeChallenge = Some codeChallenge, og_createdAt = now,
      og_expiresAt = now + CODE_TTL_MS, og_usedAt = None, og_revokedAt = None\<rparr>"

definition issueCode ::
  "oauth_env \<Rightarrow> grant_context \<Rightarrow> string \<Rightarrow> string \<Rightarrow> string \<Rightarrow> id \<Rightarrow> id \<Rightarrow> time \<Rightarrow> oauth_grant list \<Rightarrow>
   (oauth_error + string) \<times> oauth_grant list" where
  "issueCode env grant redirectUri codeChallenge random rowId familyId now rows =
     (case insert_grant (code_row env grant redirectUri codeChallenge random rowId familyId now) rows of
        Inl e \<Rightarrow> (Inl e, rows)
      | Inr rows' \<Rightarrow> (Inr (fst (mintOpaqueToken env Code_token random)), rows'))"

definition find_grant :: "oauth_env \<Rightarrow> opaque_kind \<Rightarrow> string \<Rightarrow> oauth_grant list \<Rightarrow> oauth_grant option" where
  "find_grant env kind token rows = List.find (\<lambda>d. og_tokenHash d = hashOpaqueToken env token \<and> og_kind d = kind) rows"

text \<open>What a presented code or refresh token leads to: a refusal, the revocation of its family, or the claim.\<close>

datatype grant_verdict = Refuse grant_failure | Replayed oauth_grant | Proceed oauth_grant

definition redeem_judge ::
  "oauth_env \<Rightarrow> string \<Rightarrow> id \<Rightarrow> string \<Rightarrow> string \<Rightarrow> time \<Rightarrow> oauth_grant list \<Rightarrow> grant_verdict" where
  "redeem_judge env token clientId redirectUri codeVerifier now rows =
     (if opaqueTokenKind token \<noteq> Some Code_token then Refuse G_invalid
      else
        (case find_grant env Code_token token rows of
           None \<Rightarrow> Refuse G_invalid
         | Some doc \<Rightarrow>
             (if og_usedAt doc \<noteq> None then Replayed doc
              else if og_expiresAt doc \<le> now \<or> og_revokedAt doc \<noteq> None then Refuse G_expired
              else if gc_clientId (og_context doc) \<noteq> clientId then Refuse G_client_mismatch
              else if og_redirectUri doc \<noteq> Some redirectUri then Refuse G_redirect_mismatch
              else if case_option True (\<lambda>challenge. \<not> verifyPkce env codeVerifier challenge) (og_codeChallenge doc) then Refuse G_pkce
              else Proceed doc)))"

definition rotate_judge :: "oauth_env \<Rightarrow> string \<Rightarrow> id \<Rightarrow> time \<Rightarrow> oauth_grant list \<Rightarrow> grant_verdict" where
  "rotate_judge env token clientId now rows =
     (if opaqueTokenKind token \<noteq> Some Refresh_token then Refuse G_invalid
      else
        (case find_grant env Refresh_token token rows of
           None \<Rightarrow> Refuse G_invalid
         | Some doc \<Rightarrow>
             (if gc_clientId (og_context doc) \<noteq> clientId then Refuse G_client_mismatch
              else if og_usedAt doc \<noteq> None then Replayed doc
              else if og_expiresAt doc \<le> now \<or> og_revokedAt doc \<noteq> None then Refuse G_expired
              else Proceed doc)))"

text \<open>The conditional write that marks a grant as used; \<^const>\<open>True\<close> when it matched.\<close>

definition unused :: "oauth_grant \<Rightarrow> oauth_grant \<Rightarrow> bool" where
  "unused doc d \<longleftrightarrow> og_id d = og_id doc \<and> og_usedAt d = None"

definition claim_grant :: "oauth_grant \<Rightarrow> time \<Rightarrow> oauth_grant list \<Rightarrow> bool \<times> oauth_grant list" where
  "claim_grant doc now rows =
     (list_ex (unused doc) rows, update_first (unused doc) (\<lambda>d. d\<lparr>og_usedAt := Some now\<rparr>) rows)"

definition revoke_where :: "(oauth_grant \<Rightarrow> bool) \<Rightarrow> time \<Rightarrow> oauth_grant list \<Rightarrow> oauth_grant list" where
  "revoke_where P now rows = map (\<lambda>d. if P d \<and> og_revokedAt d = None then d\<lparr>og_revokedAt := Some now\<rparr> else d) rows"

definition in_family :: "id \<Rightarrow> id \<Rightarrow> oauth_grant \<Rightarrow> bool" where
  "in_family ws familyId d \<longleftrightarrow> gc_workspaceId (og_context d) = ws \<and> og_familyId d = familyId"

definition revokeFamily :: "id \<Rightarrow> id \<Rightarrow> time \<Rightarrow> oauth_grant list \<Rightarrow> oauth_grant list" where
  "revokeFamily ws familyId = revoke_where (in_family ws familyId)"

definition revoke_access :: "id \<Rightarrow> id \<Rightarrow> time \<Rightarrow> oauth_grant list \<Rightarrow> oauth_grant list" where
  "revoke_access ws familyId = revoke_where (\<lambda>d. in_family ws familyId d \<and> og_kind d = Access_token)"

definition revokeForUser :: "id \<Rightarrow> id \<Rightarrow> id option \<Rightarrow> time \<Rightarrow> oauth_grant list \<Rightarrow> oauth_grant list" where
  "revokeForUser ws u clientId =
     revoke_where (\<lambda>d. gc_workspaceId (og_context d) = ws \<and> gc_userId (og_context d) = u \<and>
       (case clientId of None \<Rightarrow> True | Some c \<Rightarrow> gc_clientId (og_context d) = c))"

definition token_row :: "oauth_env \<Rightarrow> opaque_kind \<Rightarrow> grant_context \<Rightarrow> id \<Rightarrow> id \<times> string \<Rightarrow> time \<Rightarrow> oauth_grant" where
  "token_row env kind grant familyId fresh now =
     \<lparr>og_id = fst fresh, og_kind = kind, og_tokenHash = snd (mintOpaqueToken env kind (snd fresh)), og_context = grant,
      og_familyId = familyId, og_redirectUri = None, og_codeChallenge = None, og_createdAt = now,
      og_expiresAt = now + (if kind = Access_token then ACCESS_TTL_MS else REFRESH_TTL_MS), og_usedAt = None, og_revokedAt = None\<rparr>"

text \<open>\<open>fresh\<close> holds the row id and the random part of the access token and of the refresh token.\<close>

definition issueTokens ::
  "oauth_env \<Rightarrow> grant_context \<Rightarrow> id \<Rightarrow> (id \<times> string) \<times> (id \<times> string) \<Rightarrow> time \<Rightarrow> oauth_grant list \<Rightarrow>
   (oauth_error + issued_tokens) \<times> oauth_grant list" where
  "issueTokens env grant familyId fresh now rows =
     (case insert_grant (token_row env Access_token grant familyId (fst fresh) now) rows of
        Inl e \<Rightarrow> (Inl e, rows)
      | Inr rows1 \<Rightarrow>
          (case insert_grant (token_row env Refresh_token grant familyId (snd fresh) now) rows1 of
             Inl e \<Rightarrow> (Inl e, rows1)
           | Inr rows2 \<Rightarrow> (Inr \<lparr>it_accessToken = fst (mintOpaqueToken env Access_token (snd (fst fresh))),
               it_refreshToken = fst (mintOpaqueToken env Refresh_token (snd (snd fresh))),
               it_expiresIn = ACCESS_TTL_MS div 1000, it_scope = gc_scope grant\<rparr>, rows2)))"

definition redeemCode ::
  "oauth_env \<Rightarrow> string \<Rightarrow> id \<Rightarrow> string \<Rightarrow> string \<Rightarrow> (id \<times> string) \<times> (id \<times> string) \<Rightarrow> time \<Rightarrow> oauth_grant list \<Rightarrow>
   (oauth_error + issued_tokens \<times> grant_context) \<times> oauth_grant list" where
  "redeemCode env token clientId redirectUri codeVerifier fresh now rows =
     (case redeem_judge env token clientId redirectUri codeVerifier now rows of
        Refuse why \<Rightarrow> (Inl (Grant_failed why), rows)
      | Replayed doc \<Rightarrow>
          (Inl (Grant_failed G_used), revokeFamily (gc_workspaceId (og_context doc)) (og_familyId doc) now rows)
      | Proceed doc \<Rightarrow>
          (case claim_grant doc now rows of
             (False, rows') \<Rightarrow>
               (Inl (Grant_failed G_used), revokeFamily (gc_workspaceId (og_context doc)) (og_familyId doc) now rows')
           | (True, rows') \<Rightarrow>
               (case issueTokens env (og_context doc) (og_familyId doc) fresh now rows' of
                  (r, rows'') \<Rightarrow> (map_sum id (\<lambda>tokens. (tokens, og_context doc)) r, rows''))))"

definition rotateRefreshToken ::
  "oauth_env \<Rightarrow> string \<Rightarrow> id \<Rightarrow> (id \<times> string) \<times> (id \<times> string) \<Rightarrow> time \<Rightarrow> oauth_grant list \<Rightarrow>
   (oauth_error + issued_tokens) \<times> oauth_grant list" where
  "rotateRefreshToken env token clientId fresh now rows =
     (case rotate_judge env token clientId now rows of
        Refuse why \<Rightarrow> (Inl (Grant_failed why), rows)
      | Replayed doc \<Rightarrow>
          (Inl (Grant_failed G_used), revokeFamily (gc_workspaceId (og_context doc)) (og_familyId doc) now rows)
      | Proceed doc \<Rightarrow>
          (case claim_grant doc now rows of
             (False, rows') \<Rightarrow>
               (Inl (Grant_failed G_used), revokeFamily (gc_workspaceId (og_context doc)) (og_familyId doc) now rows')
           | (True, rows') \<Rightarrow>
               issueTokens env (og_context doc) (og_familyId doc) fresh now
                 (revoke_access (gc_workspaceId (og_context doc)) (og_familyId doc) now rows')))"

definition resolveAccessToken :: "oauth_env \<Rightarrow> string \<Rightarrow> time \<Rightarrow> oauth_grant list \<Rightarrow> grant_context option" where
  "resolveAccessToken env token now rows =
     (if opaqueTokenKind token \<noteq> Some Access_token then None
      else
        (case find_grant env Access_token token rows of
           None \<Rightarrow> None
         | Some doc \<Rightarrow> if og_expiresAt doc \<le> now \<or> og_revokedAt doc \<noteq> None then None else Some (og_context doc)))"

text \<open>The collection's TTL index removes what has expired.\<close>

definition expire_rows :: "time \<Rightarrow> oauth_grant list \<Rightarrow> oauth_grant list" where
  "expire_rows now rows = filter (\<lambda>d. now < og_expiresAt d) rows"

subsection \<open>The server\<close>

definition ASSISTANT_SCOPE :: string where
  "ASSISTANT_SCOPE = ''assistant''"

definition assistantResource :: "oauth_env \<Rightarrow> id \<Rightarrow> id \<Rightarrow> string" where
  "assistantResource env ws agentId = oe_issuer env @ ''/mcp/w/'' @ ws @ ''/assistants/'' @ agentId"

definition path_segment :: "string \<Rightarrow> bool" where
  "path_segment s \<longleftrightarrow> s \<noteq> [] \<and> list_all (\<lambda>c. is_alnum c \<or> c = CHR ''_'' \<or> c = CHR ''-'') s"

definition ASSISTANT_PATH :: "string \<Rightarrow> (id \<times> id) option" where
  "ASSISTANT_PATH path =
     (case split_on CHR ''/'' path of
        [a, b, c, ws, d, agentId] \<Rightarrow>
          if a = [] \<and> b = ''mcp'' \<and> c = ''w'' \<and> d = ''assistants'' \<and> path_segment ws \<and> path_segment agentId
          then Some (ws, agentId) else None
      | _ \<Rightarrow> None)"

definition parseAssistantResource :: "oauth_env \<Rightarrow> string \<Rightarrow> (id \<times> id) option" where
  "parseAssistantResource env resource =
     (case oe_url env resource of
        None \<Rightarrow> None
      | Some url \<Rightarrow> if url_origin url \<noteq> oe_issuer env then None else ASSISTANT_PATH (url_pathname url))"

definition scheme_chars :: "string \<Rightarrow> bool" where
  "scheme_chars s =
     (case s of [] \<Rightarrow> False
      | c # rest \<Rightarrow> (is_lower c \<or> is_upper c) \<and> rest \<noteq> [] \<and> last rest = CHR '':'' \<and>
          list_all (\<lambda>d. is_alnum d \<or> d \<in> set ''+.-'') (butlast rest))"

definition isAcceptableRedirectUri :: "oauth_env \<Rightarrow> string \<Rightarrow> bool" where
  "isAcceptableRedirectUri env raw =
     (case oe_url env raw of
        None \<Rightarrow> False
      | Some url \<Rightarrow>
          if url_hash url \<noteq> [] then False
          else if url_protocol url = ''https:'' then True
          else if url_protocol url = ''http:'' then url_hostname url \<in> set [''127.0.0.1'', ''localhost'', ''[::1]'']
          else scheme_chars (url_protocol url) \<and> url_protocol url \<noteq> ''javascript:'' \<and> url_protocol url \<noteq> ''data:'')"

definition redirectUriRegistered :: "string list \<Rightarrow> string \<Rightarrow> bool" where
  "redirectUriRegistered registered presented \<longleftrightarrow> presented \<in> set registered"

text \<open>\<^const>\<open>None\<close>: the token is not one of ours, and the next kind of credential is tried.\<close>

definition resolveOAuthPrincipal ::
  "oauth_env \<Rightarrow> workspace_doc list \<Rightarrow> string \<Rightarrow> id \<Rightarrow> id \<Rightarrow> time \<Rightarrow> oauth_grant list \<Rightarrow> (http_error + principal) option" where
  "resolveOAuthPrincipal env docs token ws agentId now rows =
     (if opaqueTokenKind token \<noteq> Some Access_token then None
      else Some
        (case resolveAccessToken env token now rows of
           None \<Rightarrow> Inl Unauthenticated
         | Some access \<Rightarrow>
             (if gc_workspaceId access \<noteq> ws \<or> gc_agentId access \<noteq> agentId then Inl Unauthenticated
              else
                (case membershipOf docs ws (gc_userId access) of
                   None \<Rightarrow> Inl Unauthenticated
                 | Some r \<Rightarrow> Inr (User (gc_userId access) ws r)))))"

subsection \<open>The routes\<close>

record authorize_request =
  ar_response_type :: string
  ar_client_id :: id
  ar_redirect_uri :: string
  ar_code_challenge :: string
  ar_code_challenge_method :: string
  ar_state :: "string option"
  ar_scope :: "string option"
  ar_resource :: string

datatype authorize_error =
  A_unauthenticated | A_invalid_request | A_invalid_target | A_invalid_scope | A_invalid_client | A_not_registered | A_not_found |
  A_failed oauth_error

definition authorizeRequest :: "authorize_request \<Rightarrow> bool" where
  "authorizeRequest req \<longleftrightarrow> ar_response_type req = ''code'' \<and> ar_client_id req \<noteq> [] \<and> ar_redirect_uri req \<noteq> [] \<and>
     length (ar_code_challenge req) = 43 \<and>
     list_all (\<lambda>c. is_alnum c \<or> c = CHR ''-'' \<or> c = CHR ''_'') (ar_code_challenge req) \<and>
     ar_code_challenge_method req = ''S256'' \<and> case_option True (\<lambda>s. length s \<le> 1024) (ar_state req) \<and> ar_resource req \<noteq> []"

definition scope_refused :: "string option \<Rightarrow> bool" where
  "scope_refused scope = case_option False (\<lambda>s. list_ex (\<lambda>part. part \<noteq> [] \<and> part \<noteq> ASSISTANT_SCOPE) (split_on CHR '' '' s)) scope"

text \<open>\<^verbatim>\<open>check\<close>: the person, the workspace and the assistant of a request worth a consent screen.\<close>

definition authorize_check ::
  "oauth_env \<Rightarrow> id option \<Rightarrow> authorize_request \<Rightarrow> oauth_client list \<Rightarrow> workspace_doc list \<Rightarrow> (id \<times> id) list \<Rightarrow>
   authorize_error + id \<times> id \<times> id" where
  "authorize_check env caller req clients docs agents =
     (case caller of
        None \<Rightarrow> Inl A_unauthenticated
      | Some u \<Rightarrow>
          if \<not> authorizeRequest req then Inl A_invalid_request
          else
            (case parseAssistantResource env (ar_resource req) of
               None \<Rightarrow> Inl A_invalid_target
             | Some (ws, agentId) \<Rightarrow>
                 if scope_refused (ar_scope req) then Inl A_invalid_scope
                 else
                   (case findClient (ar_client_id req) clients of
                      None \<Rightarrow> Inl A_invalid_client
                    | Some client \<Rightarrow>
                        if \<not> redirectUriRegistered (oc_redirectUris client) (ar_redirect_uri req) then Inl A_not_registered
                        else if membershipOf docs ws u = None \<or> workspace_by_id ws docs = None then Inl A_not_found
                        else if (ws, agentId) \<notin> set agents then Inl A_not_found
                        else Inr (u, ws, agentId))))"

text \<open>The answer of the person: \<^const>\<open>None\<close> is the redirect that says they declined, \<^const>\<open>Some\<close> the code.\<close>

definition authorize_decide ::
  "oauth_env \<Rightarrow> id option \<Rightarrow> bool \<Rightarrow> authorize_request \<Rightarrow> oauth_client list \<Rightarrow> workspace_doc list \<Rightarrow> (id \<times> id) list \<Rightarrow>
   string \<Rightarrow> id \<Rightarrow> id \<Rightarrow> time \<Rightarrow> oauth_grant list \<Rightarrow> (authorize_error + string option) \<times> oauth_grant list" where
  "authorize_decide env caller allow req clients docs agents random rowId familyId now rows =
     (case authorize_check env caller req clients docs agents of
        Inl e \<Rightarrow> (Inl e, rows)
      | Inr (u, ws, agentId) \<Rightarrow>
          if \<not> allow then (Inr None, rows)
          else
            (case issueCode env \<lparr>gc_workspaceId = ws, gc_userId = u, gc_agentId = agentId, gc_clientId = ar_client_id req,
                gc_scope = ASSISTANT_SCOPE, gc_resource = assistantResource env ws agentId\<rparr>
                (ar_redirect_uri req) (ar_code_challenge req) random rowId familyId now rows of
               (Inl e, rows') \<Rightarrow> (Inl (A_failed e), rows')
             | (Inr token, rows') \<Rightarrow> (Inr (Some token), rows')))"

definition register_route :: "oauth_env \<Rightarrow> id \<Rightarrow> string \<Rightarrow> string list \<Rightarrow> string option \<Rightarrow> oauth_client list \<Rightarrow> oauth_client list option" where
  "register_route env newId name uris authMethod clients =
     (if uris = [] \<or> 10 < length uris \<or> list_ex (\<lambda>u. 2048 < length u) uris then None
      else if list_ex (\<lambda>u. \<not> isAcceptableRedirectUri env u) uris then None
      else if authMethod \<noteq> None \<and> authMethod \<noteq> Some ''none'' then None
      else Some (registerClient newId name uris clients))"

datatype token_reply =
  T_invalid_request | T_invalid_client | T_invalid_grant grant_failure | T_invalid_target | T_unsupported_grant_type | T_server_error |
  T_issued issued_tokens

fun grant_reply :: "oauth_error \<Rightarrow> token_reply" where
  "grant_reply (Grant_failed why) = T_invalid_grant why"
| "grant_reply Duplicate_grant = T_server_error"

definition token_endpoint ::
  "oauth_env \<Rightarrow> (string \<Rightarrow> string option) option \<Rightarrow> oauth_client list \<Rightarrow> (id \<times> string) \<times> (id \<times> string) \<Rightarrow> time \<Rightarrow>
   oauth_grant list \<Rightarrow> token_reply \<times> oauth_grant list" where
  "token_endpoint env body clients fresh now rows =
     (case body of
        None \<Rightarrow> (T_invalid_request, rows)
      | Some form \<Rightarrow>
          (case form ''client_id'' of
             None \<Rightarrow> (T_invalid_client, rows)
           | Some clientId \<Rightarrow>
               if clientId = [] \<or> findClient clientId clients = None then (T_invalid_client, rows)
               else if form ''grant_type'' = Some ''authorization_code'' then
                 (case (form ''code'', form ''redirect_uri'', form ''code_verifier'') of
                    (Some token, Some redirectUri, Some verifier) \<Rightarrow>
                      (case redeemCode env token clientId redirectUri verifier fresh now rows of
                         (Inl e, rows') \<Rightarrow> (grant_reply e, rows')
                       | (Inr (tokens, grant), rows') \<Rightarrow>
                           (if form ''resource'' \<noteq> None \<and> form ''resource'' \<noteq> Some (gc_resource grant) then T_invalid_target
                            else T_issued tokens, rows'))
                  | _ \<Rightarrow> (T_invalid_request, rows))
               else if form ''grant_type'' = Some ''refresh_token'' then
                 (case form ''refresh_token'' of
                    None \<Rightarrow> (T_invalid_request, rows)
                  | Some token \<Rightarrow>
                      (case rotateRefreshToken env token clientId fresh now rows of
                         (Inl e, rows') \<Rightarrow> (grant_reply e, rows')
                       | (Inr tokens, rows') \<Rightarrow> (T_issued tokens, rows')))
               else (T_unsupported_grant_type, rows)))"

subsection \<open>Requests in parallel\<close>

text \<open>
  Requests interleave at their database calls. A pending request is what it still has to do: claim the grant it read, drop
  the access tokens of the family, insert an access token, insert a refresh token, or revoke the family. The last
  two fields are history: what people have consented to, and from which grant each kind of token was issued.
\<close>

datatype pending =
    Claim oauth_grant
  | Drop_access oauth_grant
  | Issue_access oauth_grant
  | Issue_refresh oauth_grant
  | Revoke oauth_grant

record oauth_state =
  os_rows :: "oauth_grant list"
  os_pending :: "pending multiset"
  os_ids :: "id set"
  os_spent :: "id list"
  os_born :: "(opaque_kind \<times> id) list"
  os_consents :: "(grant_context \<times> id) set"

fun verdict_pending :: "grant_verdict \<Rightarrow> pending multiset" where
  "verdict_pending (Refuse why) = {#}"
| "verdict_pending (Replayed doc) = {#Revoke doc#}"
| "verdict_pending (Proceed doc) = {#Claim doc#}"

fun pending_grant :: "pending \<Rightarrow> oauth_grant" where
  "pending_grant (Claim d) = d"
| "pending_grant (Drop_access d) = d"
| "pending_grant (Issue_access d) = d"
| "pending_grant (Issue_refresh d) = d"
| "pending_grant (Revoke d) = d"

inductive oauth_step :: "oauth_env \<Rightarrow> oauth_state \<Rightarrow> oauth_state \<Rightarrow> bool" for env where
  consent: "issueCode env grant uri challenge random rowId familyId now (os_rows s) = (Inr token, rows) \<Longrightarrow>
    rowId \<notin> os_ids s \<Longrightarrow> familyId \<notin> snd ` os_consents s \<Longrightarrow>
    oauth_step env s (s\<lparr>os_rows := rows, os_ids := insert rowId (os_ids s), os_consents := insert (grant, familyId) (os_consents s)\<rparr>)"
| present_code: "oauth_step env s (s\<lparr>os_pending :=
    verdict_pending (redeem_judge env token clientId uri verifier now (os_rows s)) + os_pending s\<rparr>)"
| present_refresh: "oauth_step env s (s\<lparr>os_pending :=
    verdict_pending (rotate_judge env token clientId now (os_rows s)) + os_pending s\<rparr>)"
| claim_won: "os_pending s = add_mset (Claim d) rest \<Longrightarrow> claim_grant d now (os_rows s) = (True, rows) \<Longrightarrow>
    oauth_step env s (s\<lparr>os_rows := rows, os_spent := og_id d # os_spent s,
      os_pending := add_mset (if og_kind d = Code_token then Issue_access d else Drop_access d) rest\<rparr>)"
| claim_lost: "os_pending s = add_mset (Claim d) rest \<Longrightarrow> claim_grant d now (os_rows s) = (False, rows) \<Longrightarrow>
    oauth_step env s (s\<lparr>os_rows := rows, os_pending := add_mset (Revoke d) rest\<rparr>)"
| drop_access: "os_pending s = add_mset (Drop_access d) rest \<Longrightarrow>
    oauth_step env s (s\<lparr>os_rows := revoke_access (gc_workspaceId (og_context d)) (og_familyId d) now (os_rows s),
      os_pending := add_mset (Issue_access d) rest\<rparr>)"
| issue_access: "os_pending s = add_mset (Issue_access d) rest \<Longrightarrow> fst fresh \<notin> os_ids s \<Longrightarrow>
    insert_grant (token_row env Access_token (og_context d) (og_familyId d) fresh now) (os_rows s) = Inr rows \<Longrightarrow>
    oauth_step env s (s\<lparr>os_rows := rows, os_ids := insert (fst fresh) (os_ids s),
      os_born := (Access_token, og_id d) # os_born s, os_pending := add_mset (Issue_refresh d) rest\<rparr>)"
| issue_refresh: "os_pending s = add_mset (Issue_refresh d) rest \<Longrightarrow> fst fresh \<notin> os_ids s \<Longrightarrow>
    insert_grant (token_row env Refresh_token (og_context d) (og_familyId d) fresh now) (os_rows s) = Inr rows \<Longrightarrow>
    oauth_step env s (s\<lparr>os_rows := rows, os_ids := insert (fst fresh) (os_ids s),
      os_born := (Refresh_token, og_id d) # os_born s, os_pending := rest\<rparr>)"
| revoke_family: "os_pending s = add_mset (Revoke d) rest \<Longrightarrow>
    oauth_step env s (s\<lparr>os_rows := revokeFamily (gc_workspaceId (og_context d)) (og_familyId d) now (os_rows s),
      os_pending := rest\<rparr>)"
| request_dies: "os_pending s = add_mset x rest \<Longrightarrow> oauth_step env s (s\<lparr>os_pending := rest\<rparr>)"
| revoke_user: "oauth_step env s (s\<lparr>os_rows := revokeForUser ws u clientId now (os_rows s)\<rparr>)"
| ttl: "oauth_step env s (s\<lparr>os_rows := expire_rows now (os_rows s)\<rparr>)"

definition oauth_init :: "oauth_state \<Rightarrow> bool" where
  "oauth_init s \<longleftrightarrow> os_rows s = [] \<and> os_pending s = {#} \<and> os_ids s = {} \<and> os_spent s = [] \<and> os_born s = [] \<and> os_consents s = {}"

subsection \<open>Invariants\<close>

definition rows_ok :: "oauth_state \<Rightarrow> bool" where
  "rows_ok s \<longleftrightarrow> distinct (map og_id (os_rows s)) \<and> og_id ` set (os_rows s) \<subseteq> os_ids s \<and> set (os_spent s) \<subseteq> os_ids s \<and>
     distinct (os_spent s) \<and> (\<forall>d \<in> set (os_rows s). og_id d \<in> set (os_spent s) \<longrightarrow> og_usedAt d \<noteq> None)"

definition consents_ok :: "oauth_state \<Rightarrow> bool" where
  "consents_ok s \<longleftrightarrow> (\<forall>d \<in> set (os_rows s). (og_context d, og_familyId d) \<in> os_consents s) \<and>
     (\<forall>x \<in># os_pending s. (og_context (pending_grant x), og_familyId (pending_grant x)) \<in> os_consents s)"

text \<open>The pending requests that may still issue a token of a kind from a grant.\<close>

fun awaits :: "opaque_kind \<Rightarrow> id \<Rightarrow> pending \<Rightarrow> bool" where
  "awaits k i (Drop_access d) = (og_id d = i)"
| "awaits k i (Issue_access d) = (og_id d = i)"
| "awaits k i (Issue_refresh d) = (k = Refresh_token \<and> og_id d = i)"
| "awaits k i (Claim d) = False"
| "awaits k i (Revoke d) = False"

definition issues_ok :: "oauth_state \<Rightarrow> bool" where
  "issues_ok s \<longleftrightarrow> (\<forall>k i. count_list (os_born s) (k, i) + size (filter_mset (awaits k i) (os_pending s)) \<le> count_list (os_spent s) i)"

lemma revoke_where_simps [simp]:
  "map og_id (revoke_where P now rows) = map og_id rows"
  "map og_context (revoke_where P now rows) = map og_context rows"
  by (auto simp: revoke_where_def)

lemma in_revoke_where:
  assumes "d \<in> set (revoke_where P now rows)"
  obtains e where "e \<in> set rows" "og_id d = og_id e" "og_usedAt d = og_usedAt e" "og_context d = og_context e"
    "og_familyId d = og_familyId e" "og_kind d = og_kind e" "og_tokenHash d = og_tokenHash e" "og_expiresAt d = og_expiresAt e"
    "og_revokedAt d = None \<Longrightarrow> d = e \<and> \<not> P e" "og_revokedAt e \<noteq> None \<Longrightarrow> d = e"
proof -
  from assms obtain e where "e \<in> set rows" "d = (if P e \<and> og_revokedAt e = None then e\<lparr>og_revokedAt := Some now\<rparr> else e)"
    by (auto simp: revoke_where_def)
  then show thesis by (intro that [of e]) (auto split: if_splits)
qed

lemma insert_grant_Inr:
  assumes "insert_grant doc rows = Inr rows'"
  shows "rows' = rows @ [doc]" "og_id doc \<notin> og_id ` set rows" "og_tokenHash doc \<notin> og_tokenHash ` set rows"
  using assms by (auto simp: insert_grant_def split: if_splits)

lemma verdict_grant:
  "x \<in># verdict_pending (redeem_judge env token c uri v now rows) \<Longrightarrow> pending_grant x \<in> set rows"
  "x \<in># verdict_pending (rotate_judge env token c now rows) \<Longrightarrow> pending_grant x \<in> set rows"
  by (auto simp: redeem_judge_def rotate_judge_def find_grant_def split: if_splits option.splits dest: find_Some_in)

lemma verdict_awaits: "filter_mset (awaits k i) (verdict_pending v) = {#}"
  by (cases v) auto

lemma claim_grant_Pair:
  assumes "claim_grant d now rows = (won, rows')"
  shows "won = list_ex (unused d) rows" "map og_id rows' = map og_id rows"
    "e \<in> set rows' \<Longrightarrow> \<exists>f \<in> set rows. og_id e = og_id f \<and> og_context e = og_context f \<and> og_familyId e = og_familyId f \<and>
       (og_usedAt f \<noteq> None \<longrightarrow> og_usedAt e \<noteq> None)"
    "distinct (map og_id rows) \<Longrightarrow> won \<Longrightarrow> e \<in> set rows' \<Longrightarrow> og_id e = og_id d \<Longrightarrow> og_usedAt e \<noteq> None"
proof -
  from assms have rows': "rows' = update_first (unused d) (\<lambda>d. d\<lparr>og_usedAt := Some now\<rparr>) rows"
    and won: "won = list_ex (unused d) rows" by (auto simp: claim_grant_def)
  show "won = list_ex (unused d) rows" by (rule won)
  show "map og_id rows' = map og_id rows" unfolding rows' by (rule map_update_first) simp
  show "e \<in> set rows' \<Longrightarrow> \<exists>f \<in> set rows. og_id e = og_id f \<and> og_context e = og_context f \<and> og_familyId e = og_familyId f \<and>
       (og_usedAt f \<noteq> None \<longrightarrow> og_usedAt e \<noteq> None)"
    unfolding rows' by (drule in_set_update_firstD) auto
  have "og_usedAt e \<noteq> None" if "distinct (map og_id rows)" "list_ex (unused d) rows"
    "e \<in> set (update_first (unused d) (\<lambda>d. d\<lparr>og_usedAt := Some now\<rparr>) rows)" "og_id e = og_id d"
    using that by (induction rows) (auto simp: unused_def image_iff split: if_splits)
  then show "distinct (map og_id rows) \<Longrightarrow> won \<Longrightarrow> e \<in> set rows' \<Longrightarrow> og_id e = og_id d \<Longrightarrow> og_usedAt e \<noteq> None"
    using rows' won by blast
qed

lemma claim_won_ok:
  assumes "rows_ok s" "claim_grant d now (os_rows s) = (True, rows)"
  shows "rows_ok (s\<lparr>os_rows := rows, os_spent := og_id d # os_spent s, os_pending := P\<rparr>)" "og_id d \<notin> set (os_spent s)"
proof -
  note c = claim_grant_Pair [OF assms(2)]
  from c(1) obtain f where f: "f \<in> set (os_rows s)" "og_id f = og_id d" "og_usedAt f = None" by (auto simp: list_ex_iff unused_def)
  with assms(1) show new: "og_id d \<notin> set (os_spent s)" by (auto simp: rows_ok_def)
  have ids: "og_id ` set rows = og_id ` set (os_rows s)" using c(2) by (metis set_map)
  have "og_usedAt e \<noteq> None" if "e \<in> set rows" "og_id e = og_id d \<or> og_id e \<in> set (os_spent s)" for e
  proof (cases "og_id e = og_id d")
    case True
    with c(4) assms(1) that(1) show ?thesis by (auto simp: rows_ok_def)
  next
    case False
    with that c(3) [OF that(1)] assms(1) show ?thesis by (auto simp: rows_ok_def)
  qed
  with new ids c(2) f assms(1) show "rows_ok (s\<lparr>os_rows := rows, os_spent := og_id d # os_spent s, os_pending := P\<rparr>)"
    by (auto simp: rows_ok_def)
qed

lemma rows_ok_step:
  assumes "oauth_step env s s'" "rows_ok s"
  shows "rows_ok s'"
  using assms
proof (cases rule: oauth_step.cases)
  case (consent grant uri challenge random rowId familyId now token rows)
  then have "insert_grant (code_row env grant uri challenge random rowId familyId now) (os_rows s) = Inr rows"
    by (auto simp: issueCode_def split: sum.splits)
  from insert_grant_Inr [OF this] consent assms(2) show ?thesis by (auto simp: rows_ok_def code_row_def)
next
  case (claim_won d rest now rows)
  with claim_won_ok(1) [OF assms(2), of d now rows] show ?thesis by simp
next
  case (claim_lost d rest now rows)
  then have "rows = os_rows s" by (auto simp: claim_grant_def update_first_none)
  with claim_lost assms(2) show ?thesis by (simp add: rows_ok_def)
next
  case (drop_access d rest now)
  with assms(2) show ?thesis
    by (fastforce simp: rows_ok_def revoke_access_def elim: in_revoke_where simp flip: set_map)
next
  case (revoke_family d rest now)
  with assms(2) show ?thesis
    by (fastforce simp: rows_ok_def revokeFamily_def elim: in_revoke_where simp flip: set_map)
next
  case (revoke_user ws u clientId now)
  with assms(2) show ?thesis
    by (fastforce simp: rows_ok_def revokeForUser_def elim: in_revoke_where simp flip: set_map)
next
  case (issue_access d rest fresh now rows)
  from insert_grant_Inr [OF issue_access(4)] issue_access assms(2) show ?thesis by (auto simp: rows_ok_def token_row_def)
next
  case (issue_refresh d rest fresh now rows)
  from insert_grant_Inr [OF issue_refresh(4)] issue_refresh assms(2) show ?thesis by (auto simp: rows_ok_def token_row_def)
next
  case (ttl now)
  with assms(2) show ?thesis by (auto simp: rows_ok_def expire_rows_def distinct_map_filter)
qed (auto simp: rows_ok_def)

lemma consents_ok_step:
  assumes "oauth_step env s s'" "consents_ok s"
  shows "consents_ok s'"
  using assms
proof (cases rule: oauth_step.cases)
  case (consent grant uri challenge random rowId familyId now token rows)
  then have "insert_grant (code_row env grant uri challenge random rowId familyId now) (os_rows s) = Inr rows"
    by (auto simp: issueCode_def split: sum.splits)
  from insert_grant_Inr [OF this] consent assms(2) show ?thesis by (auto simp: consents_ok_def code_row_def)
next
  case (present_code token clientId uri verifier now)
  with assms(2) verdict_grant(1) [of _ env token clientId uri verifier now "os_rows s"] show ?thesis
    by (fastforce simp: consents_ok_def)
next
  case (present_refresh token clientId now)
  with assms(2) verdict_grant(2) [of _ env token clientId now "os_rows s"] show ?thesis
    by (fastforce simp: consents_ok_def)
next
  case (claim_won d rest now rows)
  with assms(2) claim_grant_Pair(3) [OF claim_won(3)] show ?thesis by (fastforce simp: consents_ok_def)
next
  case (claim_lost d rest now rows)
  with assms(2) claim_grant_Pair(3) [OF claim_lost(3)] show ?thesis by (fastforce simp: consents_ok_def)
next
  case (drop_access d rest now)
  with assms(2) show ?thesis by (fastforce simp: consents_ok_def revoke_access_def elim: in_revoke_where)
next
  case (issue_access d rest fresh now rows)
  from insert_grant_Inr [OF issue_access(4)] issue_access assms(2) show ?thesis by (auto simp: consents_ok_def token_row_def)
next
  case (issue_refresh d rest fresh now rows)
  from insert_grant_Inr [OF issue_refresh(4)] issue_refresh assms(2) show ?thesis by (auto simp: consents_ok_def token_row_def)
next
  case (revoke_family d rest now)
  with assms(2) show ?thesis by (fastforce simp: consents_ok_def revokeFamily_def elim: in_revoke_where)
next
  case (revoke_user ws u clientId now)
  with assms(2) show ?thesis by (fastforce simp: consents_ok_def revokeForUser_def elim: in_revoke_where)
qed (auto simp: consents_ok_def expire_rows_def)

lemma issues_okI:
  "(\<And>k i. count_list (os_born s) (k, i) + size (filter_mset (awaits k i) (os_pending s)) \<le> count_list (os_spent s) i) \<Longrightarrow> issues_ok s"
  by (simp add: issues_ok_def)

lemma issues_ok_step:
  assumes "oauth_step env s s'" "issues_ok s"
  shows "issues_ok s'"
proof (rule issues_okI)
  fix k i
  have le: "count_list (os_born s) (k, i) + size (filter_mset (awaits k i) (os_pending s)) \<le> count_list (os_spent s) i"
    using assms(2) by (simp add: issues_ok_def)
  from assms(1) show "count_list (os_born s') (k, i) + size (filter_mset (awaits k i) (os_pending s')) \<le> count_list (os_spent s') i"
  proof (cases rule: oauth_step.cases)
    case (request_dies x rest)
    have "size (filter_mset (awaits k i) rest) \<le> size (filter_mset (awaits k i) (add_mset x rest))" by simp
    with request_dies le show ?thesis by simp
  qed (use le in \<open>cases k; auto simp: verdict_awaits split: if_splits\<close>)+
qed

interpretation oauth: invariant_system oauth_init "oauth_step env" "\<lambda>s. rows_ok s \<and> consents_ok s \<and> issues_ok s"
proof
  show "oauth_init s \<Longrightarrow> rows_ok s \<and> consents_ok s \<and> issues_ok s" for s
    by (auto simp: oauth_init_def rows_ok_def consents_ok_def issues_ok_def)
  show "rows_ok s \<and> consents_ok s \<and> issues_ok s \<Longrightarrow> oauth_step env s t \<Longrightarrow> rows_ok t \<and> consents_ok t \<and> issues_ok t" for s t
    using rows_ok_step consents_ok_step issues_ok_step by blast
qed

subsection \<open>A family that has been revoked\<close>

fun is_revoke :: "pending \<Rightarrow> bool" where
  "is_revoke (Revoke d) = True"
| "is_revoke _ = False"

definition rows_dead :: "id \<Rightarrow> id \<Rightarrow> oauth_grant list \<Rightarrow> bool" where
  "rows_dead ws fam rows \<longleftrightarrow> (\<forall>d \<in> set rows. in_family ws fam d \<longrightarrow> og_revokedAt d \<noteq> None)"

definition family_dead :: "id \<Rightarrow> id \<Rightarrow> oauth_state \<Rightarrow> bool" where
  "family_dead ws fam s \<longleftrightarrow> fam \<in> snd ` os_consents s \<and> rows_dead ws fam (os_rows s) \<and>
     (\<forall>x \<in># os_pending s. in_family ws fam (pending_grant x) \<longrightarrow> is_revoke x)"

lemma rows_dead_revoke_where: "rows_dead ws fam rows \<Longrightarrow> rows_dead ws fam (revoke_where P now rows)"
  unfolding rows_dead_def by (metis in_family_def in_revoke_where)

lemma rows_dead_revokeFamily: "rows_dead ws fam (revokeFamily ws fam now rows)"
  unfolding rows_dead_def revokeFamily_def by (metis in_revoke_where)

lemma rows_dead_claim:
  "rows_dead ws fam rows \<Longrightarrow> claim_grant d now rows = (won, rows') \<Longrightarrow> rows_dead ws fam rows'"
  by (auto simp: rows_dead_def claim_grant_def in_family_def dest!: in_set_update_firstD)

lemma verdict_dead:
  assumes "rows_dead ws fam rows"
  shows "x \<in># verdict_pending (redeem_judge env token c uri v now rows) \<Longrightarrow> in_family ws fam (pending_grant x) \<Longrightarrow> is_revoke x"
    "x \<in># verdict_pending (rotate_judge env token c now rows) \<Longrightarrow> in_family ws fam (pending_grant x) \<Longrightarrow> is_revoke x"
  using assms
  by (auto simp: rows_dead_def redeem_judge_def rotate_judge_def find_grant_def split: if_splits option.splits dest!: find_Some_in)

lemma token_row_family: "in_family ws fam (token_row env kind (og_context d) (og_familyId d) fresh now) \<longleftrightarrow> in_family ws fam d"
  by (simp add: in_family_def token_row_def)

lemma family_dead_step:
  assumes "oauth_step env s s'" "family_dead ws fam s"
  shows "family_dead ws fam s'"
  using assms
proof (cases rule: oauth_step.cases)
  case (consent grant uri challenge random rowId familyId now token rows)
  then have "insert_grant (code_row env grant uri challenge random rowId familyId now) (os_rows s) = Inr rows"
    by (auto simp: issueCode_def split: sum.splits)
  from insert_grant_Inr [OF this] consent assms(2) show ?thesis
    by (auto simp: family_dead_def rows_dead_def code_row_def in_family_def)
next
  case (present_code token clientId uri verifier now)
  with assms(2) verdict_dead(1) [of ws fam "os_rows s"] show ?thesis by (auto simp: family_dead_def)
next
  case (present_refresh token clientId now)
  with assms(2) verdict_dead(2) [of ws fam "os_rows s"] show ?thesis by (auto simp: family_dead_def)
next
  case (claim_won d rest now rows)
  have "\<not> in_family ws fam d" using claim_won(2) assms(2) by (auto simp: family_dead_def)
  with claim_won assms(2) rows_dead_claim show ?thesis by (auto simp: family_dead_def)
next
  case (claim_lost d rest now rows)
  then have "rows = os_rows s" by (auto simp: claim_grant_def update_first_none)
  with claim_lost assms(2) show ?thesis by (auto simp: family_dead_def)
next
  case (drop_access d rest now)
  with assms(2) show ?thesis by (auto simp: family_dead_def revoke_access_def rows_dead_revoke_where)
next
  case (issue_access d rest fresh now rows)
  from insert_grant_Inr(1) [OF issue_access(4)] issue_access assms(2) token_row_family show ?thesis
    by (auto simp: family_dead_def rows_dead_def)
next
  case (issue_refresh d rest fresh now rows)
  from insert_grant_Inr(1) [OF issue_refresh(4)] issue_refresh assms(2) token_row_family show ?thesis
    by (auto simp: family_dead_def rows_dead_def)
next
  case (revoke_family d rest now)
  with assms(2) show ?thesis by (auto simp: family_dead_def revokeFamily_def rows_dead_revoke_where)
next
  case (revoke_user ws' u clientId now)
  with assms(2) show ?thesis by (auto simp: family_dead_def revokeForUser_def rows_dead_revoke_where)
qed (auto simp: family_dead_def rows_dead_def expire_rows_def)

lemma family_dead_steps: "(oauth_step env)\<^sup>*\<^sup>* s s' \<Longrightarrow> family_dead ws fam s \<Longrightarrow> family_dead ws fam s'"
  by (induction rule: rtranclp_induct) (auto intro: family_dead_step)

lemma opaqueTokenKind_minted: "random \<noteq> [] \<Longrightarrow> opaqueTokenKind (PREFIXES kind @ random) = Some kind"
  by (cases kind) (auto simp: opaqueTokenKind_def)

lemma find_grant_inserted:
  assumes "insert_grant (token_row env kind grant fam fresh now) rows = Inr rows'"
  shows "find_grant env kind (PREFIXES kind @ snd fresh) rows' = Some (token_row env kind grant fam fresh now)"
proof -
  let ?row = "token_row env kind grant fam fresh now"
  let ?P = "\<lambda>d. og_tokenHash d = oe_hex env (PREFIXES kind @ snd fresh) \<and> og_kind d = kind"
  have hash: "og_tokenHash ?row = oe_hex env (PREFIXES kind @ snd fresh)" "og_kind ?row = kind"
    by (simp_all add: token_row_def mintOpaqueToken_def Let_def hashOpaqueToken_def)
  have "List.find ?P (rows @ [?row]) = Some ?row" if "oe_hex env (PREFIXES kind @ snd fresh) \<notin> og_tokenHash ` set rows"
    using that by (induction rows) (auto simp: hash)
  with insert_grant_Inr [OF assms] hash show ?thesis by (simp add: find_grant_def hashOpaqueToken_def)
qed

lemma find_grant_kept:
  assumes "find_grant env kind token rows = Some d" "insert_grant row rows = Inr rows'"
  shows "find_grant env kind token rows' = Some d"
proof -
  have "List.find P xs = Some d \<Longrightarrow> List.find P (xs @ ys) = Some d" for P :: "oauth_grant \<Rightarrow> bool" and xs ys
    by (induction xs) (auto split: if_splits)
  with assms insert_grant_Inr(1) [OF assms(2)] show ?thesis by (simp add: find_grant_def)
qed

subsection \<open>A request that runs undisturbed\<close>

text \<open>The handlers are particular interleavings: every database call of one request before any of another.\<close>

definition runs_to :: "oauth_env \<Rightarrow> id set \<Rightarrow> oauth_state \<Rightarrow> oauth_grant list \<Rightarrow> pending multiset \<Rightarrow> bool" where
  "runs_to env ids s rows rest \<longleftrightarrow>
     (\<exists>s'. (oauth_step env)\<^sup>*\<^sup>* s s' \<and> os_rows s' = rows \<and> os_pending s' = rest \<and> os_ids s' \<subseteq> ids)"

lemma runs_to_step: "oauth_step env s s1 \<Longrightarrow> runs_to env ids s1 rows rest \<Longrightarrow> runs_to env ids s rows rest"
  unfolding runs_to_def by (blast intro: converse_rtranclp_into_rtranclp)

lemma runs_to_dies: "os_pending s = add_mset x rest \<Longrightarrow> os_ids s \<subseteq> ids \<Longrightarrow> runs_to env ids s (os_rows s) rest"
  unfolding runs_to_def by (rule exI [of _ "s\<lparr>os_pending := rest\<rparr>"]) (auto intro: request_dies)

lemma runs_to_revoke:
  "os_pending s = add_mset (Revoke d) rest \<Longrightarrow> os_ids s \<subseteq> ids \<Longrightarrow>
   runs_to env ids s (revokeFamily (gc_workspaceId (og_context d)) (og_familyId d) now (os_rows s)) rest"
  unfolding runs_to_def
  by (rule exI [of _ "s\<lparr>os_rows := revokeFamily (gc_workspaceId (og_context d)) (og_familyId d) now (os_rows s), os_pending := rest\<rparr>"])
    (auto intro: revoke_family)

lemma issue_runs:
  assumes "os_pending s = add_mset (Issue_access d) rest"
    and "issueTokens env (og_context d) (og_familyId d) fresh now (os_rows s) = (r, rows)"
    and "fst (fst fresh) \<notin> os_ids s" "fst (snd fresh) \<notin> os_ids s" "fst (snd fresh) \<noteq> fst (fst fresh)"
    and "insert (fst (fst fresh)) (insert (fst (snd fresh)) (os_ids s)) \<subseteq> ids"
  shows "runs_to env ids s rows rest"
proof (cases "insert_grant (token_row env Access_token (og_context d) (og_familyId d) (fst fresh) now) (os_rows s)")
  case (Inl e)
  with assms(1,2,6) runs_to_dies [of s _ rest ids env] show ?thesis by (simp add: issueTokens_def)
next
  case (Inr rows1)
  let ?s1 = "s\<lparr>os_rows := rows1, os_ids := insert (fst (fst fresh)) (os_ids s), os_born := (Access_token, og_id d) # os_born s,
    os_pending := add_mset (Issue_refresh d) rest\<rparr>"
  have step: "oauth_step env s ?s1" by (rule issue_access [OF assms(1,3) Inr])
  show ?thesis
  proof (cases "insert_grant (token_row env Refresh_token (og_context d) (og_familyId d) (snd fresh) now) rows1")
    case (Inl e)
    with assms(2) Inr have "rows = os_rows ?s1" by (simp add: issueTokens_def)
    moreover have "runs_to env ids ?s1 (os_rows ?s1) rest" by (rule runs_to_dies) (use assms(6) in auto)
    ultimately show ?thesis using runs_to_step [OF step] by simp
  next
    case (Inr rows2)
    let ?s2 = "?s1\<lparr>os_rows := rows2, os_ids := insert (fst (snd fresh)) (os_ids ?s1),
      os_born := (Refresh_token, og_id d) # os_born ?s1, os_pending := rest\<rparr>"
    have "oauth_step env ?s1 ?s2" by (rule issue_refresh) (use assms(4,5) Inr in auto)
    then have "runs_to env ids ?s1 rows2 rest" unfolding runs_to_def by (intro exI [of _ ?s2]) (use assms(6) in auto)
    moreover have "rows = rows2"
      using assms(2) Inr \<open>insert_grant _ (os_rows s) = Inr rows1\<close> by (simp add: issueTokens_def)
    ultimately show ?thesis using runs_to_step [OF step] by simp
  qed
qed

lemma claim_lost_runs:
  assumes "os_pending s = add_mset (Claim d) rest" "claim_grant d now (os_rows s) = (False, rows)" "os_ids s \<subseteq> ids"
  shows "runs_to env ids s (revokeFamily (gc_workspaceId (og_context d)) (og_familyId d) now rows) rest"
proof -
  let ?s1 = "s\<lparr>os_rows := rows, os_pending := add_mset (Revoke d) rest\<rparr>"
  have "runs_to env ids ?s1 (revokeFamily (gc_workspaceId (og_context d)) (og_familyId d) now (os_rows ?s1)) rest"
    by (rule runs_to_revoke) (use assms(3) in auto)
  with runs_to_step [OF claim_lost [OF assms(1,2)]] show ?thesis by simp
qed

lemma redeem_runs:
  assumes "redeemCode env token clientId uri verifier fresh now (os_rows s) = (r, rows)"
    and "fst (fst fresh) \<notin> os_ids s" "fst (snd fresh) \<notin> os_ids s" "fst (snd fresh) \<noteq> fst (fst fresh)"
    and "insert (fst (fst fresh)) (insert (fst (snd fresh)) (os_ids s)) \<subseteq> ids"
  shows "runs_to env ids s rows (os_pending s)"
proof -
  let ?v = "redeem_judge env token clientId uri verifier now (os_rows s)"
  let ?s1 = "s\<lparr>os_pending := verdict_pending ?v + os_pending s\<rparr>"
  have step: "oauth_step env s ?s1" by (rule present_code)
  show ?thesis
  proof (cases ?v)
    case (Refuse why)
    with assms(1) have "rows = os_rows s" by (simp add: redeemCode_def)
    then show ?thesis using assms(5) by (auto simp: runs_to_def)
  next
    case (Replayed d)
    with assms(1,5) runs_to_revoke [of ?s1 d "os_pending s" ids env now] show ?thesis
      by (intro runs_to_step [OF step]) (simp add: redeemCode_def)
  next
    case (Proceed d)
    then have kind: "og_kind d = Code_token"
      by (auto simp: redeem_judge_def find_grant_def split: if_splits option.splits dest: find_Some_in)
    obtain won rows1 where c: "claim_grant d now (os_rows s) = (won, rows1)" by (metis surj_pair)
    show ?thesis
    proof (cases won)
      case False
      with Proceed c assms(1,5) claim_lost_runs [of ?s1 d "os_pending s" now rows1 ids env] show ?thesis
        by (intro runs_to_step [OF step]) (simp add: redeemCode_def)
    next
      case True
      let ?s2 = "?s1\<lparr>os_rows := rows1, os_spent := og_id d # os_spent s, os_pending := add_mset (Issue_access d) (os_pending s)\<rparr>"
      have "oauth_step env ?s1 ?s2"
        using claim_won [of ?s1 d "os_pending s" now rows1 env] Proceed c True kind by simp
      moreover obtain r' where "issueTokens env (og_context d) (og_familyId d) fresh now rows1 = (r', rows)"
        using assms(1) Proceed c True by (auto simp: redeemCode_def split: prod.splits)
      then have "runs_to env ids ?s2 rows (os_pending s)" using assms(2-5) by (intro issue_runs [where d = d]) auto
      ultimately show ?thesis using runs_to_step step by blast
    qed
  qed
qed

lemma rotate_runs:
  assumes "rotateRefreshToken env token clientId fresh now (os_rows s) = (r, rows)"
    and "fst (fst fresh) \<notin> os_ids s" "fst (snd fresh) \<notin> os_ids s" "fst (snd fresh) \<noteq> fst (fst fresh)"
    and "insert (fst (fst fresh)) (insert (fst (snd fresh)) (os_ids s)) \<subseteq> ids"
  shows "runs_to env ids s rows (os_pending s)"
proof -
  let ?v = "rotate_judge env token clientId now (os_rows s)"
  let ?s1 = "s\<lparr>os_pending := verdict_pending ?v + os_pending s\<rparr>"
  have step: "oauth_step env s ?s1" by (rule present_refresh)
  show ?thesis
  proof (cases ?v)
    case (Refuse why)
    with assms(1) have "rows = os_rows s" by (simp add: rotateRefreshToken_def)
    then show ?thesis using assms(5) by (auto simp: runs_to_def)
  next
    case (Replayed d)
    with assms(1,5) runs_to_revoke [of ?s1 d "os_pending s" ids env now] show ?thesis
      by (intro runs_to_step [OF step]) (simp add: rotateRefreshToken_def)
  next
    case (Proceed d)
    then have kind: "og_kind d = Refresh_token"
      by (auto simp: rotate_judge_def find_grant_def split: if_splits option.splits dest: find_Some_in)
    obtain won rows1 where c: "claim_grant d now (os_rows s) = (won, rows1)" by (metis surj_pair)
    show ?thesis
    proof (cases won)
      case False
      with Proceed c assms(1,5) claim_lost_runs [of ?s1 d "os_pending s" now rows1 ids env] show ?thesis
        by (intro runs_to_step [OF step]) (simp add: rotateRefreshToken_def)
    next
      case True
      let ?s2 = "?s1\<lparr>os_rows := rows1, os_spent := og_id d # os_spent s, os_pending := add_mset (Drop_access d) (os_pending s)\<rparr>"
      let ?s3 = "?s2\<lparr>os_rows := revoke_access (gc_workspaceId (og_context d)) (og_familyId d) now rows1,
        os_pending := add_mset (Issue_access d) (os_pending s)\<rparr>"
      have "oauth_step env ?s1 ?s2"
        using claim_won [of ?s1 d "os_pending s" now rows1 env] Proceed c True kind by simp
      moreover have "oauth_step env ?s2 ?s3" using drop_access [of ?s2 d "os_pending s" env now] by simp
      moreover have "issueTokens env (og_context d) (og_familyId d) fresh now (os_rows ?s3) = (r, rows)"
        using assms(1) Proceed c True by (simp add: rotateRefreshToken_def)
      then have "runs_to env ids ?s3 rows (os_pending s)" using assms(2-5) by (intro issue_runs [where d = d]) auto
      ultimately show ?thesis using runs_to_step step by meson
    qed
  qed
qed

subsection \<open>Properties\<close>

text \<open>
  C13. An access token speaks for a consent. However the requests of clients interleave, a token that is accepted for an
  assistant is an unexpired, unrevoked row, and somebody who is still a member of that workspace has consented to exactly
  this assistant of this workspace; the principal is that person, with the role they hold now.
\<close>

theorem token_from_consent:
  assumes "reach oauth_init (oauth_step env) s"
    and "resolveOAuthPrincipal env docs token ws agentId now (os_rows s) = Some (Inr p)"
  shows "\<exists>d grant r. d \<in> set (os_rows s) \<and> og_kind d = Access_token \<and> og_tokenHash d = oe_hex env token \<and> now < og_expiresAt d \<and>
    og_revokedAt d = None \<and> grant = og_context d \<and> (grant, og_familyId d) \<in> os_consents s \<and> gc_workspaceId grant = ws \<and>
    gc_agentId grant = agentId \<and> membershipOf docs ws (gc_userId grant) = Some r \<and> p = User (gc_userId grant) ws r"
proof -
  from assms(2) obtain access r where access: "resolveAccessToken env token now (os_rows s) = Some access"
    "gc_workspaceId access = ws" "gc_agentId access = agentId" "membershipOf docs ws (gc_userId access) = Some r"
    "p = User (gc_userId access) ws r"
    by (auto simp: resolveOAuthPrincipal_def split: if_splits option.splits)
  then obtain d where d: "find_grant env Access_token token (os_rows s) = Some d" "now < og_expiresAt d" "og_revokedAt d = None"
    "access = og_context d"
    by (auto simp: resolveAccessToken_def split: if_splits option.splits)
  then have "d \<in> set (os_rows s)" "og_kind d = Access_token" "og_tokenHash d = oe_hex env token"
    by (auto simp: find_grant_def hashOpaqueToken_def dest: find_Some_in)
  with d access oauth.inv_reach [OF assms(1)] show ?thesis by (auto simp: consents_ok_def)
qed

definition sample_oauth :: oauth_env where
  "sample_oauth = \<lparr>oe_hex = (\<lambda>t. t), oe_b64url = (\<lambda>t. t), oe_url = (\<lambda>u. None), oe_issuer = ''https://host''\<rparr>"

definition sample_grant :: grant_context where
  "sample_grant = \<lparr>gc_workspaceId = ''w1'', gc_userId = ''ann'', gc_agentId = ''a1'', gc_clientId = ''c1'', gc_scope = ASSISTANT_SCOPE,
     gc_resource = ''https://host/mcp/w/w1/assistants/a1''\<rparr>"

definition consented :: "oauth_grant list \<Rightarrow> oauth_state" where
  "consented rows = \<lparr>os_rows = rows, os_pending = {#}, os_ids = {''g0''}, os_spent = [], os_born = [], os_consents = {(sample_grant, ''fam'')}\<rparr>"

definition sample_code :: oauth_grant where
  "sample_code = code_row sample_oauth sample_grant ''https://app'' (replicate 43 CHR ''v'') ''x'' ''g0'' ''fam'' 0"

lemma consented_reached: "reach oauth_init (oauth_step sample_oauth) (consented [sample_code])"
proof -
  let ?s0 = "\<lparr>os_rows = [], os_pending = {#}, os_ids = {}, os_spent = [], os_born = [], os_consents = {}\<rparr>"
  have "oauth_step sample_oauth ?s0 (?s0\<lparr>os_rows := [sample_code], os_ids := insert ''g0'' (os_ids ?s0),
      os_consents := insert (sample_grant, ''fam'') (os_consents ?s0)\<rparr>)"
    by (rule consent) (auto simp: issueCode_def insert_grant_def sample_code_def)
  then have "oauth_step sample_oauth ?s0 (consented [sample_code])" by (simp add: consented_def)
  moreover have "reach oauth_init (oauth_step sample_oauth) ?s0" by (rule reach_init) (simp add: oauth_init_def)
  ultimately show ?thesis by (rule reach_step [rotated])
qed

definition sample_spent :: oauth_grant where
  "sample_spent = sample_code\<lparr>og_usedAt := Some 1\<rparr>"

definition sample_access :: oauth_grant where
  "sample_access = token_row sample_oauth Access_token sample_grant ''fam'' (''g1'', ''a'') 1"

definition redeemed :: oauth_state where
  "redeemed = \<lparr>os_rows = [sample_spent, sample_access], os_pending = {#Issue_refresh sample_code#}, os_ids = {''g1'', ''g0''},
     os_spent = [''g0''], os_born = [(Access_token, ''g0'')], os_consents = {(sample_grant, ''fam'')}\<rparr>"

lemma redeemed_reached: "reach oauth_init (oauth_step sample_oauth) redeemed"
proof -
  let ?s1 = "consented [sample_code]"
  let ?s2 = "?s1\<lparr>os_pending := {#Claim sample_code#}\<rparr>"
  let ?s3 = "?s2\<lparr>os_rows := [sample_spent], os_spent := [''g0''], os_pending := {#Issue_access sample_code#}\<rparr>"
  have judge: "redeem_judge sample_oauth ''hive_ac_x'' ''c1'' ''https://app'' (replicate 43 CHR ''v'') 1 [sample_code] = Proceed sample_code"
    by code_simp
  have "oauth_step sample_oauth ?s1 ?s2"
    using present_code [of sample_oauth ?s1 "''hive_ac_x''" "''c1''" "''https://app''" "replicate 43 CHR ''v''" 1]
    by (simp add: judge consented_def)
  moreover have "oauth_step sample_oauth ?s2 ?s3"
    using claim_won [of ?s2 sample_code "{#}" 1 "[sample_spent]" sample_oauth]
    by (simp add: consented_def claim_grant_def unused_def sample_spent_def sample_code_def code_row_def)
  moreover have "insert_grant sample_access [sample_spent] = Inr [sample_spent, sample_access]"
    by code_simp
  then have "oauth_step sample_oauth ?s3 redeemed"
    using issue_access [of ?s3 sample_code "{#}" "(''g1'', ''a'')" sample_oauth 1 "[sample_spent, sample_access]"]
    by (simp add: consented_def redeemed_def sample_access_def sample_code_def code_row_def)
  ultimately show ?thesis
    using consented_reached by (metis reach_step)
qed

theorem token_from_consent_witness:
  "\<exists>d \<in> set (os_rows redeemed). og_context d = sample_grant \<and> og_revokedAt d = None \<and>
     resolveOAuthPrincipal sample_oauth (ww_docs two_owners) ''hive_at_a'' ''w1'' ''a1'' 2 (os_rows redeemed) =
       Some (Inr (User ''ann'' ''w1'' Owner))"
proof -
  have p: "resolveOAuthPrincipal sample_oauth (ww_docs two_owners) ''hive_at_a'' ''w1'' ''a1'' 2 (os_rows redeemed) =
      Some (Inr (User ''ann'' ''w1'' Owner))" by code_simp
  from token_from_consent [OF redeemed_reached p] obtain d where
    "d \<in> set (os_rows redeemed)" "og_revokedAt d = None" "(og_context d, og_familyId d) \<in> os_consents redeemed" by blast
  with p show ?thesis by (auto simp: redeemed_def)
qed

text \<open>
  C16. Codes and refresh tokens are spent once. Under every interleaving of any number of requests, failures of requests
  half-way included, at most one access token and at most one refresh token are ever issued from the same code or
  the same refresh token.
\<close>

theorem grant_issues_once:
  assumes "reach oauth_init (oauth_step env) s"
  shows "count_list (os_born s) (kind, grantId) \<le> 1"
proof -
  have ok: "rows_ok s" "issues_ok s" using oauth.inv_reach [OF assms] by auto
  then have "count_list (os_born s) (kind, grantId) \<le> count_list (os_spent s) grantId"
    unfolding issues_ok_def by (meson add_leD1)
  moreover have "count_list (os_spent s) grantId \<le> 1"
    using ok(1) by (simp add: rows_ok_def distinct_count_atmost_1 flip: count_mset)
  ultimately show ?thesis by simp
qed

theorem grant_issues_once_witness: "count_list (os_born redeemed) (Access_token, ''g0'') = 1"
  using grant_issues_once [OF redeemed_reached, of Access_token "''g0''"] by (simp add: redeemed_def)


lemma reach_runs_to:
  assumes "reach oauth_init (oauth_step env) s" "runs_to env ids s rows {#}"
  obtains s' where "reach oauth_init (oauth_step env) s'" "os_rows s' = rows" "os_pending s' = {#}" "os_ids s' \<subseteq> ids"
  using assms oauth.reach_steps unfolding runs_to_def by blast

definition first_pair :: "oauth_grant list" where
  "first_pair = snd (redeemCode sample_oauth ''hive_ac_x'' ''c1'' ''https://app'' (replicate 43 CHR ''v'')
     ((''g1'', ''a''), (''g2'', ''r'')) 1 [sample_code])"

definition second_pair :: "oauth_grant list" where
  "second_pair = snd (rotateRefreshToken sample_oauth ''hive_rt_r'' ''c1'' ((''g3'', ''b''), (''g4'', ''s'')) 2 first_pair)"

lemma second_pair_reached:
  obtains s where "reach oauth_init (oauth_step sample_oauth) s" "os_rows s = second_pair" "os_pending s = {#}"
proof -
  obtain r where "redeemCode sample_oauth ''hive_ac_x'' ''c1'' ''https://app'' (replicate 43 CHR ''v'')
      ((''g1'', ''a''), (''g2'', ''r'')) 1 (os_rows (consented [sample_code])) = (r, first_pair)"
    unfolding first_pair_def consented_def by (metis oauth_state.select_convs(1) prod.collapse)
  then have "runs_to sample_oauth {''g0'', ''g1'', ''g2''} (consented [sample_code]) first_pair (os_pending (consented [sample_code]))"
    by (rule redeem_runs) (auto simp: consented_def)
  then obtain s where s: "reach oauth_init (oauth_step sample_oauth) s" "os_rows s = first_pair" "os_pending s = {#}"
    "os_ids s \<subseteq> {''g0'', ''g1'', ''g2''}"
    using reach_runs_to [OF consented_reached] by (auto simp: consented_def)
  then have ids: "''g3'' \<notin> os_ids s" "''g4'' \<notin> os_ids s" by auto
  have "runs_to sample_oauth {''g0'', ''g1'', ''g2'', ''g3'', ''g4''} s second_pair (os_pending s)"
    unfolding second_pair_def s(2) [symmetric]
    by (rule rotate_runs [OF prod.collapse [symmetric]]) (use ids s(4) in auto)
  then show thesis using that reach_runs_to [OF s(1)] by (metis s(3))
qed


text \<open>
  A replay that overlaps the first use misses its tokens. If the same refresh token is presented twice and both requests
  have read it before either writes, the loser revokes the family while the winner has still to insert its tokens:
  the access token the winner is handed is accepted all the same.
\<close>

theorem replay_race_survives:
  assumes "rotate_judge env token clientId now rows = Proceed doc" "distinct (map og_id rows)"
    and "claim_grant doc now rows = (won, rows1)" "claim_grant doc now rows1 = (again, rows2)"
    and "rows3 = revokeFamily (gc_workspaceId (og_context doc)) (og_familyId doc) now rows2"
    and "issueTokens env (og_context doc) (og_familyId doc) fresh now
      (revoke_access (gc_workspaceId (og_context doc)) (og_familyId doc) now rows3) = (Inr tokens, rows4)"
    and "snd (fst fresh) \<noteq> []"
  shows "won \<and> \<not> again \<and> resolveAccessToken env (it_accessToken tokens) now rows4 = Some (og_context doc)"
proof -
  from assms(1) have doc: "doc \<in> set rows" "og_usedAt doc = None"
    by (auto simp: rotate_judge_def find_grant_def split: if_splits option.splits dest: find_Some_in)
  then have won: won using claim_grant_Pair(1) [OF assms(3)] by (auto simp: list_ex_iff unused_def)
  have "\<not> again"
    using claim_grant_Pair(1) [OF assms(4)] claim_grant_Pair(4) [OF assms(3,2) won]
    by (auto simp: list_ex_iff unused_def)
  moreover have "resolveAccessToken env (it_accessToken tokens) now rows4 = Some (og_context doc)"
  proof -
    let ?access = "token_row env Access_token (og_context doc) (og_familyId doc) (fst fresh) now"
    from assms(6) obtain mid where mid: "insert_grant ?access
        (revoke_access (gc_workspaceId (og_context doc)) (og_familyId doc) now rows3) = Inr mid"
      and last: "insert_grant (token_row env Refresh_token (og_context doc) (og_familyId doc) (snd fresh) now) mid = Inr rows4"
      and token: "it_accessToken tokens = PREFIXES Access_token @ snd (fst fresh)"
      by (auto simp: issueTokens_def mintOpaqueToken_def Let_def split: sum.splits)
    from find_grant_kept [OF find_grant_inserted [OF mid] last] assms(7) show ?thesis
      by (simp add: resolveAccessToken_def token opaqueTokenKind_minted del: PREFIXES.simps)
        (simp add: token_row_def ACCESS_TTL_MS_def)
  qed
  ultimately show ?thesis using won by simp
qed

theorem replay_race_survives_witness:
  "let rows1 = snd (claim_grant (the (find_grant sample_oauth Refresh_token ''hive_rt_r'' first_pair)) 2 first_pair);
       rows3 = revokeFamily ''w1'' ''fam'' 2 rows1
   in resolveAccessToken sample_oauth ''hive_at_b'' 2
       (snd (issueTokens sample_oauth sample_grant ''fam'' ((''g3'', ''b''), (''g4'', ''s'')) 2 (revoke_access ''w1'' ''fam'' 2 rows3))) =
     Some sample_grant"
proof -
  let ?doc = "the (find_grant sample_oauth Refresh_token ''hive_rt_r'' first_pair)"
  let ?rows1 = "snd (claim_grant ?doc 2 first_pair)"
  let ?rows3 = "revokeFamily ''w1'' ''fam'' 2 ?rows1"
  let ?issue = "issueTokens sample_oauth sample_grant ''fam'' ((''g3'', ''b''), (''g4'', ''s'')) 2 (revoke_access ''w1'' ''fam'' 2 ?rows3)"
  have judge: "rotate_judge sample_oauth ''hive_rt_r'' ''c1'' 2 first_pair = Proceed ?doc" by code_simp
  have ids: "distinct (map og_id first_pair)" by code_simp
  have ctx: "og_context ?doc = sample_grant" "og_familyId ?doc = ''fam''" "gc_workspaceId sample_grant = ''w1''" by code_simp+
  have once: "snd (claim_grant ?doc 2 ?rows1) = ?rows1" by code_simp
  have "map_sum id it_accessToken (fst ?issue) = Inr ''hive_at_b''" by code_simp
  then obtain tokens where tokens: "fst ?issue = Inr tokens" "it_accessToken tokens = ''hive_at_b''"
    by (cases "fst ?issue") auto
  have "resolveAccessToken sample_oauth (it_accessToken tokens) 2 (snd ?issue) = Some sample_grant"
    using replay_race_survives [OF judge ids prod.collapse [symmetric] prod.collapse [symmetric] refl,
        of "((''g3'', ''b''), (''g4'', ''s''))" tokens "snd ?issue"] tokens
    by (simp add: ctx once prod_eq_iff)
  with tokens show ?thesis by (simp add: Let_def)
qed

end
