(* ===== verification/Cron.thy ===== *)
theory Cron
  imports Context Budget
begin

text \<open>
  Five-field cron expressions (\<^verbatim>\<open>packages/schedule/src/cron.ts\<close>).

  A set of numbers is a HOL set built by the loops of the source. The wall clock of a time zone is what the platform's
  time-zone database says and is an argument. The language's reading of a number is the exact value of the literal;
  rounding of literals with more than fifteen digits is left out.
\<close>

subsection \<open>Reading numbers and words\<close>

text \<open>\<^verbatim>\<open>Number(text)\<close>: \<^const>\<open>None\<close> for \<^verbatim>\<open>NaN\<close> and the infinities.\<close>

definition digits_value :: "nat \<Rightarrow> (char \<Rightarrow> nat) \<Rightarrow> string \<Rightarrow> nat" where
  "digits_value base val s = foldl (\<lambda>acc c. acc * base + val c) 0 s"

definition dec_digit :: "char \<Rightarrow> nat" where
  "dec_digit c = code c - 48"

definition radix_value :: "char \<Rightarrow> nat" where
  "radix_value c = (if is_digit c then code c - 48 else if is_lower c then code c - 87 else code c - 55)"

definition is_radix_digit :: "nat \<Rightarrow> char \<Rightarrow> bool" where
  "is_radix_digit base c \<longleftrightarrow> is_alnum c \<and> radix_value c < base"

definition radix_literal :: "nat \<Rightarrow> string \<Rightarrow> rat option" where
  "radix_literal base s =
     (if s \<noteq> [] \<and> list_all (is_radix_digit base) s then Some (of_nat (digits_value base radix_value s)) else None)"

fun exponent_part :: "string \<Rightarrow> int option" where
  "exponent_part [] = Some 0"
| "exponent_part (c # rest) =
     (if c = CHR ''e'' \<or> c = CHR ''E'' then
        (let (sgn, ds) = (case rest of d # ds' \<Rightarrow> if d = CHR ''-'' then (-1, ds') else if d = CHR ''+'' then (1, ds') else (1, rest)
                          | [] \<Rightarrow> (1, []))
         in if ds \<noteq> [] \<and> list_all is_digit ds then Some (sgn * int (digits_value 10 dec_digit ds)) else None)
      else None)"

definition decimal_literal :: "string \<Rightarrow> rat option" where
  "decimal_literal s =
     (let ip = takeWhile is_digit s; rest = dropWhile is_digit s;
          fp = (case rest of c # r \<Rightarrow> if c = CHR ''.'' then takeWhile is_digit r else [] | [] \<Rightarrow> []);
          rest' = (case rest of c # r \<Rightarrow> if c = CHR ''.'' then dropWhile is_digit r else rest | [] \<Rightarrow> [])
      in if ip = [] \<and> fp = [] then None
         else (case exponent_part rest' of
                 None \<Rightarrow> None
               | Some e \<Rightarrow> Some (of_nat (digits_value 10 dec_digit (ip @ fp)) *
                   (let k = e - int (length fp) in if 0 \<le> k then 10 ^ nat k else 1 / 10 ^ nat (- k)))))"

definition js_number :: "string \<Rightarrow> rat option" where
  "js_number text =
     (case trim text of
        [] \<Rightarrow> Some 0
      | c # rest \<Rightarrow>
          (if c = CHR ''0'' \<and> rest \<noteq> [] \<and> hd rest \<in> set ''xX'' then radix_literal 16 (tl rest)
           else if c = CHR ''0'' \<and> rest \<noteq> [] \<and> hd rest \<in> set ''oO'' then radix_literal 8 (tl rest)
           else if c = CHR ''0'' \<and> rest \<noteq> [] \<and> hd rest \<in> set ''bB'' then radix_literal 2 (tl rest)
           else if c = CHR ''-'' then map_option uminus (decimal_literal rest)
           else if c = CHR ''+'' then decimal_literal rest
           else decimal_literal (c # rest)))"

text \<open>\<^verbatim>\<open>Number(text)\<close> where \<^verbatim>\<open>Number.isInteger\<close> holds.\<close>

definition js_integer :: "string \<Rightarrow> int option" where
  "js_integer text = (case js_number text of None \<Rightarrow> None | Some r \<Rightarrow> if of_int \<lfloor>r\<rfloor> = r then Some \<lfloor>r\<rfloor> else None)"

text \<open>\<^verbatim>\<open>text.split(/\s+/)\<close>: never the empty list.\<close>

function split_spaces :: "string \<Rightarrow> string list" where
  "split_spaces s =
     (let word = takeWhile (\<lambda>c. \<not> is_space c) s; rest = dropWhile (\<lambda>c. \<not> is_space c) s
      in if rest = [] then [word] else word # split_spaces (dropWhile is_space rest))"
  by pat_completeness auto
termination
proof (relation "measure length")
  fix s :: string and word rest
  assume rest: "rest = dropWhile (\<lambda>c. \<not> is_space c) s" "rest \<noteq> []"
  then have "is_space (hd rest)" using hd_dropWhile [of "\<lambda>c. \<not> is_space c" s] by auto
  then have "length (dropWhile is_space rest) < length rest" using rest(2)
    by (cases rest) (auto simp: le_imp_less_Suc length_dropWhile_le)
  also have "length rest \<le> length s" by (simp add: rest(1) length_dropWhile_le)
  finally show "(dropWhile is_space rest, s) \<in> measure length" by simp
qed simp

declare split_spaces.simps [simp del]

subsection \<open>Fields\<close>

datatype cron_error =
    Empty_range string
  | Bad_step string
  | Out_of_bounds string int int
  | Matches_nothing string
  | Field_count nat
  | Not_a_string

record bound =
  bn_min :: int
  bn_max :: int
  bn_names :: "(string \<times> int) list"

definition MONTHS :: "(string \<times> int) list" where
  "MONTHS = [(''jan'', 1), (''feb'', 2), (''mar'', 3), (''apr'', 4), (''may'', 5), (''jun'', 6), (''jul'', 7), (''aug'', 8),
     (''sep'', 9), (''oct'', 10), (''nov'', 11), (''dec'', 12)]"

definition DAYS :: "(string \<times> int) list" where
  "DAYS = [(''sun'', 0), (''mon'', 1), (''tue'', 2), (''wed'', 3), (''thu'', 4), (''fri'', 5), (''sat'', 6)]"

definition BOUNDS :: "bound list" where
  "BOUNDS =
     [\<lparr>bn_min = 0, bn_max = 59, bn_names = []\<rparr>, \<lparr>bn_min = 0, bn_max = 23, bn_names = []\<rparr>,
      \<lparr>bn_min = 1, bn_max = 31, bn_names = []\<rparr>, \<lparr>bn_min = 1, bn_max = 12, bn_names = MONTHS\<rparr>,
      \<lparr>bn_min = 0, bn_max = 7, bn_names = DAYS\<rparr>]"

definition ALIASES :: "(string \<times> string) list" where
  "ALIASES = [(''@hourly'', ''0 * * * *''), (''@daily'', ''0 0 * * *''), (''@midnight'', ''0 0 * * *''), (''@weekly'', ''0 0 * * 0''),
     (''@monthly'', ''0 0 1 * *''), (''@yearly'', ''0 0 1 1 *''), (''@annually'', ''0 0 1 1 *'')]"

definition cron_resolve :: "string \<Rightarrow> bound \<Rightarrow> cron_error + int" where
  "cron_resolve text b =
     (let trimmed = to_lower (trim text)
      in case (case map_of (bn_names b) (take 3 trimmed) of Some n \<Rightarrow> Some n | None \<Rightarrow> js_integer trimmed) of
           None \<Rightarrow> Inl (Out_of_bounds text (bn_min b) (bn_max b))
         | Some v \<Rightarrow> if v < bn_min b \<or> bn_max b < v then Inl (Out_of_bounds text (bn_min b) (bn_max b)) else Inr v)"

text \<open>\<^verbatim>\<open>for (let v = from; v <= to; v += step) values.add(v)\<close>, where the step is positive.\<close>

function add_range :: "int \<Rightarrow> int \<Rightarrow> int \<Rightarrow> int set \<Rightarrow> int set" where
  "add_range v hi step values = (if v \<le> hi \<and> 0 < step then add_range (v + step) hi step (insert v values) else values)"
  by pat_completeness auto
termination
  by (relation "measure (\<lambda>(v, hi, step, values). nat (hi + 1 - v))") auto

declare add_range.simps [simp del]

definition step_of :: "string option \<Rightarrow> int option" where
  "step_of stepText = (case stepText of None \<Rightarrow> Some 1 | Some t \<Rightarrow> js_integer t)"

definition second :: "'a list \<Rightarrow> 'a option" where
  "second xs = (if 1 < length xs then Some (xs ! 1) else None)"

definition parse_piece :: "string \<Rightarrow> bound \<Rightarrow> string \<Rightarrow> int set \<times> bool \<Rightarrow> cron_error + int set \<times> bool" where
  "parse_piece raw b piece = (\<lambda>(values, restricted).
     (let range = hd (split_on CHR ''/'' piece); stepText = second (split_on CHR ''/'' piece)
      in if range = [] then Inl (Empty_range raw)
         else
           (case step_of stepText of
              None \<Rightarrow> Inl (Bad_step piece)
            | Some step \<Rightarrow>
                if step < 1 then Inl (Bad_step piece)
                else if range = ''*'' then
                  Inr (add_range (bn_min b) (bn_max b) step values, restricted \<or> stepText \<noteq> None)
                else
                  (let startText = hd (split_on CHR ''-'' range); endText = second (split_on CHR ''-'' range)
                   in case cron_resolve startText b of
                        Inl e \<Rightarrow> Inl e
                      | Inr lo \<Rightarrow>
                          (case (case endText of None \<Rightarrow> Inr lo | Some t \<Rightarrow> cron_resolve t b) of
                             Inl e \<Rightarrow> Inl e
                           | Inr hi \<Rightarrow>
                               if hi < lo then Inr (add_range (bn_min b) hi 1 (add_range lo (bn_max b) 1 values), True)
                               else Inr (add_range lo hi step values, True))))))"

fun parse_pieces :: "string \<Rightarrow> bound \<Rightarrow> string list \<Rightarrow> int set \<times> bool \<Rightarrow> cron_error + int set \<times> bool" where
  "parse_pieces raw b [] acc = Inr acc"
| "parse_pieces raw b (piece # pieces) acc =
     (case parse_piece raw b piece acc of Inl e \<Rightarrow> Inl e | Inr acc' \<Rightarrow> parse_pieces raw b pieces acc')"

definition parseField :: "string \<Rightarrow> bound \<Rightarrow> cron_error + int set \<times> bool" where
  "parseField raw b =
     (case parse_pieces raw b (split_on CHR '','' raw) ({}, False) of
        Inl e \<Rightarrow> Inl e
      | Inr (values, restricted) \<Rightarrow> if values = {} then Inl (Matches_nothing raw) else Inr (values, restricted))"

record cron_fields =
  cf_minute :: "int set"
  cf_hour :: "int set"
  cf_dayOfMonth :: "int set"
  cf_month :: "int set"
  cf_dayOfWeek :: "int set"
  cf_restrictsDayOfMonth :: bool
  cf_restrictsDayOfWeek :: bool

text \<open>An object literal answers these two names as well, with something that is no string.\<close>

definition prototype_names :: "string list" where
  "prototype_names = [''constructor'', ''__proto__'']"

fun parse_fields :: "string list \<Rightarrow> bound list \<Rightarrow> cron_error + (int set \<times> bool) list" where
  "parse_fields (f # fs) (b # bs) =
     (case parseField f b of Inl e \<Rightarrow> Inl e | Inr p \<Rightarrow> map_sum id (\<lambda>ps. p # ps) (parse_fields fs bs))"
| "parse_fields _ _ = Inr []"

definition parseCron :: "string \<Rightarrow> cron_error + cron_fields" where
  "parseCron expression =
     (let key = to_lower (trim expression)
      in if key \<in> set prototype_names then Inl Not_a_string
         else
           (let normalised = trim (case map_of ALIASES key of Some e \<Rightarrow> e | None \<Rightarrow> expression);
                parts = split_spaces normalised
            in if length parts \<noteq> 5 then Inl (Field_count (length parts))
               else
                 (case parse_fields parts BOUNDS of
                    Inl e \<Rightarrow> Inl e
                  | Inr ps \<Rightarrow>
                      (let dow = fst (ps ! 4) in Inr
                        \<lparr>cf_minute = fst (ps ! 0), cf_hour = fst (ps ! 1), cf_dayOfMonth = fst (ps ! 2), cf_month = fst (ps ! 3),
                         cf_dayOfWeek = (if 7 \<in> dow then insert 0 dow else dow) - {7},
                         cf_restrictsDayOfMonth = snd (ps ! 2), cf_restrictsDayOfWeek = snd (ps ! 4)\<rparr>))))"

definition isValidCron :: "string \<Rightarrow> bool" where
  "isValidCron expression = (case parseCron expression of Inl _ \<Rightarrow> False | Inr _ \<Rightarrow> True)"

subsection \<open>Matching\<close>

record wall_clock =
  wc_minute :: int
  wc_hour :: int
  wc_dayOfMonth :: int
  wc_month :: int
  wc_dayOfWeek :: int

definition cron_matches :: "cron_fields \<Rightarrow> wall_clock \<Rightarrow> bool" where
  "cron_matches cron now =
     (if wc_minute now \<notin> cf_minute cron then False
      else if wc_hour now \<notin> cf_hour cron then False
      else if wc_month now \<notin> cf_month cron then False
      else
        (let byDayOfMonth = wc_dayOfMonth now \<in> cf_dayOfMonth cron; byDayOfWeek = wc_dayOfWeek now \<in> cf_dayOfWeek cron
         in if cf_restrictsDayOfMonth cron \<and> cf_restrictsDayOfWeek cron then byDayOfMonth \<or> byDayOfWeek
            else if cf_restrictsDayOfMonth cron then byDayOfMonth
            else if cf_restrictsDayOfWeek cron then byDayOfWeek
            else True))"

definition MINUTE_MS :: int where
  "MINUTE_MS = 60000"

text \<open>The loop of \<^verbatim>\<open>dueBetween\<close>: \<open>due\<close> says whether an instant matches.\<close>

function due_walk :: "(time \<Rightarrow> bool) \<Rightarrow> time \<Rightarrow> time \<Rightarrow> nat \<Rightarrow> time list \<Rightarrow> time list" where
  "due_walk due cursor end cap found =
     (if end < cursor then found
      else if due cursor then
        (if cap \<le> length (found @ [cursor]) then found @ [cursor]
         else due_walk due (cursor + MINUTE_MS) end cap (found @ [cursor]))
      else due_walk due (cursor + MINUTE_MS) end cap found)"
  by pat_completeness auto
termination
  by (relation "measure (\<lambda>(due, cursor, end, cap, found). nat (end + 1 - cursor))") (auto simp: MINUTE_MS_def)

declare due_walk.simps [simp del]

definition dueBetween :: "cron_fields \<Rightarrow> (time \<Rightarrow> wall_clock) \<Rightarrow> time \<Rightarrow> time \<Rightarrow> nat \<Rightarrow> time list" where
  "dueBetween cron wall after until cap =
     (let cursor = after div MINUTE_MS * MINUTE_MS + MINUTE_MS; end = until div MINUTE_MS * MINUTE_MS;
          earliest = end - int cap * 24 * 60 * MINUTE_MS;
          start = (if cursor < earliest then earliest div MINUTE_MS * MINUTE_MS else cursor)
      in due_walk (\<lambda>t. cron_matches cron (wall t)) start end cap [])"

subsection \<open>What a field means\<close>

text \<open>A field as it is meant: steps over everything, one value, or a span.\<close>

datatype cron_item = Star "nat option" | One nat "nat option" | Span nat nat "nat option"

definition show_step :: "nat option \<Rightarrow> string" where
  "show_step step = (case step of None \<Rightarrow> [] | Some k \<Rightarrow> CHR ''/'' # show_nat k)"

fun show_item :: "cron_item \<Rightarrow> string" where
  "show_item (Star step) = ''*'' @ show_step step"
| "show_item (One a step) = show_nat a @ show_step step"
| "show_item (Span a c step) = show_nat a @ ''-'' @ show_nat c @ show_step step"

definition every :: "nat option \<Rightarrow> int" where
  "every step = (case step of None \<Rightarrow> 1 | Some k \<Rightarrow> int k)"

text \<open>A span that wraps around takes every value: its step is not applied.\<close>

fun item_values :: "bound \<Rightarrow> cron_item \<Rightarrow> int set" where
  "item_values b (Star step) = {v. bn_min b \<le> v \<and> v \<le> bn_max b \<and> every step dvd v - bn_min b}"
| "item_values b (One a step) = {int a}"
| "item_values b (Span a c step) =
     (if a \<le> c then {v. int a \<le> v \<and> v \<le> int c \<and> every step dvd v - int a}
      else {v. int a \<le> v \<and> v \<le> bn_max b \<or> bn_min b \<le> v \<and> v \<le> int c})"

definition in_bound :: "bound \<Rightarrow> nat \<Rightarrow> bool" where
  "in_bound b n \<longleftrightarrow> bn_min b \<le> int n \<and> int n \<le> bn_max b"

fun item_ok :: "bound \<Rightarrow> cron_item \<Rightarrow> bool" where
  "item_ok b (Star step) = (step \<noteq> Some 0)"
| "item_ok b (One a step) = (in_bound b a \<and> step \<noteq> Some 0)"
| "item_ok b (Span a c step) = (in_bound b a \<and> in_bound b c \<and> step \<noteq> Some 0)"

fun item_restricts :: "cron_item \<Rightarrow> bool" where
  "item_restricts (Star step) = (step \<noteq> None)"
| "item_restricts _ = True"

lemma digit_code: "d < 10 \<Longrightarrow> code (digit_char d) = 48 + d"
  by (simp add: code_def digit_char_def of_char_of)

lemma is_digit_char: "d < 10 \<Longrightarrow> is_digit (digit_char d)"
  by (simp add: is_digit_def digit_code)

lemma show_nat_digits: "show_nat n \<noteq> [] \<and> list_all is_digit (show_nat n)"
proof (induction n rule: show_nat.induct)
  case (1 n)
  then show ?case by (subst (1 2) show_nat.simps) (auto simp: is_digit_char)
qed

lemma digits_value_snoc: "digits_value b f (s @ [c]) = digits_value b f s * b + f c"
  by (simp add: digits_value_def)

lemma digits_value_show_nat: "digits_value 10 dec_digit (show_nat n) = n"
proof (induction n rule: show_nat.induct)
  case (1 n)
  show ?case
  proof (cases "n < 10")
    case True
    then show ?thesis by (subst show_nat.simps) (simp add: digits_value_def dec_digit_def digit_code)
  next
    case False
    have "dec_digit (digit_char (n mod 10)) = n mod 10" by (simp add: dec_digit_def digit_code)
    with 1 False show ?thesis by (subst show_nat.simps) (simp add: digits_value_snoc)
  qed
qed

lemma digit_facts:
  assumes "is_digit c"
  shows "\<not> is_space c" "to_lower_char c = c" "c \<noteq> CHR '',''" "c \<noteq> CHR ''/''" "c \<noteq> CHR ''-''" "c \<noteq> CHR ''+''" "c \<noteq> CHR ''*''"
    "c \<notin> set ''xXoObB''"
  using assms by (auto simp: is_digit_def is_space_def to_lower_char_def is_upper_def code_def)

lemma trim_id: "list_all (\<lambda>c. \<not> is_space c) s \<Longrightarrow> trim s = s"
  unfolding trim_def by (metis dropWhile_eq_self_iff list.pred_set hd_in_set rev_rev_ident set_rev)

lemma show_nat_word: "trim (show_nat n) = show_nat n" "to_lower (show_nat n) = show_nat n"
proof -
  have d: "list_all is_digit (show_nat n)" using show_nat_digits by blast
  then show "trim (show_nat n) = show_nat n" by (intro trim_id) (auto simp: list_all_iff digit_facts)
  from d show "to_lower (show_nat n) = show_nat n" by (auto simp: to_lower_def list_all_iff digit_facts map_idI)
qed

lemma js_number_show_nat: "js_number (show_nat n) = Some (of_nat n)"
proof -
  obtain c rest where s: "show_nat n = c # rest" using show_nat_digits by (meson neq_Nil_conv)
  then have d: "is_digit c" "list_all is_digit rest" using show_nat_digits [of n] by auto
  have "hd rest \<notin> set ''xXoObB''" if "rest \<noteq> []"
    using that d(2) digit_facts(8) by (cases rest) auto
  moreover have "trim (c # rest) = c # rest" using show_nat_word(1) [of n] s by simp
  ultimately have "js_number (show_nat n) = decimal_literal (show_nat n)"
    using digit_facts(5,6) [OF d(1)] unfolding js_number_def s by (cases "rest = []") auto
  also have "\<dots> = Some (of_nat n)"
  proof -
    have all: "takeWhile is_digit (show_nat n) = show_nat n" "dropWhile is_digit (show_nat n) = []"
      using show_nat_digits [of n] by (auto simp: list_all_iff takeWhile_eq_all_conv dropWhile_eq_Nil_conv)
    show ?thesis
      unfolding decimal_literal_def Let_def all using show_nat_digits [of n] by (simp add: digits_value_show_nat)
  qed
  finally show ?thesis .
qed

lemma js_integer_show_nat: "js_integer (show_nat n) = Some (int n)"
proof -
  have "\<lfloor>rat_of_nat n\<rfloor> = int n" by (metis floor_of_int of_int_of_nat_eq)
  then show ?thesis by (simp add: js_integer_def js_number_show_nat)
qed

lemma add_range_eq:
  "0 < step \<Longrightarrow> add_range v hi step S = S \<union> {x. v \<le> x \<and> x \<le> hi \<and> step dvd x - v}"
proof (induction v hi step S rule: add_range.induct)
  case (1 v hi step S)
  show ?case
  proof (cases "v \<le> hi")
    case True
    have "{x. v \<le> x \<and> x \<le> hi \<and> step dvd x - v} = insert v {x. v + step \<le> x \<and> x \<le> hi \<and> step dvd x - (v + step)}"
    proof -
      have "step dvd x - v \<longleftrightarrow> step dvd x - (v + step)" for x
        using dvd_diff_left_iff [of step step "x - v"] by (simp add: algebra_simps)
      moreover have "x = v \<or> v + step \<le> x" if "step dvd x - v" "v \<le> x" for x
        using zdvd_imp_le [OF that(1)] that(2) by force
      ultimately show ?thesis using True 1(2) by auto
    qed
    with 1 True show ?thesis by (subst add_range.simps) auto
  next
    case False
    then show ?thesis by (subst add_range.simps) auto
  qed
qed

lemma js_integer_small: "step_of (map_option show_nat step) = Some (every step)"
  by (auto simp: step_of_def every_def js_integer_show_nat split: option.splits)

text \<open>None of the names starts with a digit, so a number is never taken for one.\<close>

definition plain_names :: "bound \<Rightarrow> bool" where
  "plain_names b \<longleftrightarrow> list_all (\<lambda>(name, n). name \<noteq> [] \<and> \<not> is_digit (hd name)) (bn_names b)"

lemma BOUNDS_plain: "list_all plain_names BOUNDS"
  by code_simp

lemma cron_resolve_show_nat:
  assumes "plain_names b" "in_bound b n"
  shows "cron_resolve (show_nat n) b = Inr (int n)"
proof -
  have "show_nat n \<noteq> []" "is_digit (hd (show_nat n))"
    using show_nat_digits [of n] by (auto simp: list_all_iff)
  then have "take 3 (show_nat n) \<notin> fst ` set (bn_names b)"
    using assms(1) by (cases "show_nat n") (force simp: plain_names_def list_all_iff)+
  then have "map_of (bn_names b) (take 3 (show_nat n)) = None" by (simp add: map_of_eq_None_iff)
  with assms(2) show ?thesis
    by (simp add: cron_resolve_def Let_def show_nat_word js_integer_show_nat in_bound_def)
qed

lemma show_nat_no: "is_digit c = False \<Longrightarrow> c \<notin> set (show_nat n)"
  using show_nat_digits [of n] by (auto simp: list_all_iff)

lemma split_on_snoc_sep: "c \<notin> set a \<Longrightarrow> split_on c (a @ c # s) = a # split_on c s"
  by (induction a) auto

lemma split_step:
  assumes "CHR ''/'' \<notin> set rng"
  shows "hd (split_on CHR ''/'' (rng @ show_step step)) = rng"
    "second (split_on CHR ''/'' (rng @ show_step step)) = map_option show_nat step"
proof -
  have "CHR ''/'' \<notin> set (show_nat k)" for k by (rule show_nat_no) (simp add: is_digit_def code_def)
  with assms show "hd (split_on CHR ''/'' (rng @ show_step step)) = rng"
    "second (split_on CHR ''/'' (rng @ show_step step)) = map_option show_nat step"
    by (cases step; simp add: show_step_def split_on_no_sep split_on_snoc_sep second_def)+
qed

lemma every_pos: "step \<noteq> Some 0 \<Longrightarrow> 0 < every step"
  by (cases step) (auto simp: every_def)

lemma parse_item:
  assumes "plain_names b" "item_ok b item"
  shows "parse_piece raw b (show_item item) (values, r) = Inr (values \<union> item_values b item, r \<or> item_restricts item)"
proof -
  have no: "CHR ''/'' \<notin> set (show_nat k)" "CHR ''-'' \<notin> set (show_nat k)" "show_nat k \<noteq> ''*''" "show_nat k \<noteq> []"
    "show_nat k @ ''-'' @ show_nat m \<noteq> ''*''" for k m
    using show_nat_no [of _ k] show_nat_digits [of k] by (auto simp: is_digit_def code_def append_eq_Cons_conv)
  show ?thesis
  proof (cases item)
    case (Star step)
    with assms(2) every_pos [of step] show ?thesis
      by (simp add: parse_piece_def Let_def split_step [of "''*''", simplified] js_integer_small add_range_eq)
  next
    case (One a step)
    then have ok: "in_bound b a" "0 < every step" using assms(2) every_pos [of step] by auto
    note st = split_step [OF no(1) [of a], of step]
    have piece: "show_item item = show_nat a @ show_step step" using One by simp
    from ok cron_resolve_show_nat [OF assms(1)] no(3,4) show ?thesis
      unfolding piece parse_piece_def Let_def st js_integer_small
      by (auto simp: One second_def add_range_eq split_on_no_sep [OF no(2)])
  next
    case (Span a c step)
    then have ok: "in_bound b a" "in_bound b c" "0 < every step" using assms(2) every_pos [of step] by auto
    have split: "split_on CHR ''-'' (show_nat a @ ''-'' @ show_nat c) = [show_nat a, show_nat c]"
      using no(2) by (simp add: split_on_snoc_sep split_on_no_sep)
    have "CHR ''/'' \<notin> set (show_nat a @ ''-'' @ show_nat c)" using no(1) by auto
    note st = split_step [OF this, of step]
    have piece: "show_item item = (show_nat a @ ''-'' @ show_nat c) @ show_step step" using Span by simp
    from ok cron_resolve_show_nat [OF assms(1)] no(5) show ?thesis
      unfolding piece parse_piece_def Let_def st split js_integer_small
      by (auto simp: Span second_def add_range_eq)
  qed
qed

lemma parse_items:
  assumes "plain_names b" "list_all (item_ok b) items"
  shows "parse_pieces raw b (map show_item items) (values, r) =
    Inr (values \<union> (\<Union>item \<in> set items. item_values b item), r \<or> list_ex item_restricts items)"
  using assms(2)
proof (induction items arbitrary: "values" r)
  case (Cons item items)
  then show ?case by (simp add: parse_item [OF assms(1)] Un_assoc)
qed simp

lemma split_on_join_with:
  assumes "words \<noteq> []" "\<forall>w \<in> set words. c \<notin> set w"
  shows "split_on c (join_with [c] words) = words"
  using assms
proof (induction words)
  case (Cons w words)
  then show ?case by (cases words) (auto simp: split_on_no_sep split_on_snoc_sep)
qed simp

lemma item_values_ne:
  assumes "bn_min b \<le> bn_max b" "item_ok b item"
  shows "item_values b item \<noteq> {}"
proof (cases item)
  case (Star step)
  with assms(1) have "bn_min b \<in> item_values b item" by simp
  then show ?thesis by blast
next
  case (Span a c step)
  with assms(2) have "int a \<in> item_values b item" by (auto simp: in_bound_def)
  then show ?thesis by blast
qed simp

lemma show_item_no_comma: "CHR '','' \<notin> set (show_item item)"
proof -
  have "CHR '','' \<notin> set (show_nat k)" for k by (rule show_nat_no) (simp add: is_digit_def code_def)
  then show ?thesis by (cases item) (auto simp: show_step_def split: option.splits)
qed

subsection \<open>The instants that are due\<close>

text \<open>The minutes from an instant on.\<close>

function minutes :: "time \<Rightarrow> time \<Rightarrow> time list" where
  "minutes cursor end = (if end < cursor then [] else cursor # minutes (cursor + MINUTE_MS) end)"
  by pat_completeness auto
termination
  by (relation "measure (\<lambda>(cursor, end). nat (end + 1 - cursor))") (auto simp: MINUTE_MS_def)

declare minutes.simps [simp del]

lemma set_minutes: "set (minutes cursor end) = {t. cursor \<le> t \<and> t \<le> end \<and> MINUTE_MS dvd t - cursor}"
proof (induction cursor "end" rule: minutes.induct)
  case (1 cursor "end")
  have step: "MINUTE_MS dvd t - cursor \<longleftrightarrow> MINUTE_MS dvd t - (cursor + MINUTE_MS)" for t
    using dvd_diff_left_iff [of MINUTE_MS MINUTE_MS "t - cursor"] by (simp add: algebra_simps)
  have far: "t = cursor \<or> cursor + MINUTE_MS \<le> t" if "MINUTE_MS dvd t - cursor" "cursor \<le> t" for t
    using zdvd_imp_le [OF that(1)] that(2) by force
  show ?case
  proof (cases "end < cursor")
    case False
    with 1 have "set (minutes cursor end) = insert cursor {t. cursor + MINUTE_MS \<le> t \<and> t \<le> end \<and> MINUTE_MS dvd t - (cursor + MINUTE_MS)}"
      by (subst minutes.simps) simp
    with False step far show ?thesis by (auto simp: MINUTE_MS_def)
  qed (subst minutes.simps, auto)
qed

lemma sorted_minutes: "sorted_wrt (<) (minutes cursor end)"
proof (induction cursor "end" rule: minutes.induct)
  case (1 cursor "end")
  then show ?case by (subst minutes.simps) (auto simp: set_minutes MINUTE_MS_def)
qed

lemma due_walk_eq:
  "length found < cap \<Longrightarrow>
   due_walk due cursor end cap found = found @ take (cap - length found) (filter due (minutes cursor end))"
proof (induction due cursor "end" cap found rule: due_walk.induct)
  case (1 due cursor "end" cap found)
  show ?case
  proof (cases "end < cursor")
    case True
    then show ?thesis by (subst due_walk.simps, subst minutes.simps) simp
  next
    case False
    then have m: "minutes cursor end = cursor # minutes (cursor + MINUTE_MS) end" by (subst minutes.simps) simp
    show ?thesis
    proof (cases "due cursor")
      case True
      show ?thesis
      proof (cases "cap \<le> Suc (length found)")
        case full: True
        with 1(3) have "cap - length found = 1" by simp
        with full True False m show ?thesis by (subst due_walk.simps) simp
      next
        case more: False
        then have "cap - length found = Suc (cap - Suc (length found))" using 1(3) by simp
        with 1(1) [OF False True] more True False m show ?thesis by (subst due_walk.simps) simp
      qed
    next
      case no: False
      with 1(2) [OF False no] 1(3) False m show ?thesis by (subst due_walk.simps) simp
    qed
  qed
qed

subsection \<open>Whole expressions\<close>

definition show_field :: "cron_item list \<Rightarrow> string" where
  "show_field items = join_with '','' (map show_item items)"

definition field_values :: "bound \<Rightarrow> cron_item list \<Rightarrow> int set" where
  "field_values b items = (\<Union>item \<in> set items. item_values b item)"

definition field_ok :: "bound \<Rightarrow> cron_item list \<Rightarrow> bool" where
  "field_ok b items \<longleftrightarrow> items \<noteq> [] \<and> list_all (item_ok b) items"

lemma parseField_shown:
  assumes "plain_names b" "bn_min b \<le> bn_max b" "field_ok b items"
  shows "parseField (show_field items) b = Inr (field_values b items, list_ex item_restricts items)"
proof -
  have "split_on CHR '','' (show_field items) = map show_item items"
    unfolding show_field_def
    using assms(3) show_item_no_comma by (intro split_on_join_with) (auto simp: field_ok_def)
  moreover have "field_values b items \<noteq> {}"
    using assms(2,3) item_values_ne by (cases items) (auto simp: field_ok_def field_values_def)
  ultimately show ?thesis
    using parse_items [OF assms(1), of items] assms(3) by (simp add: parseField_def field_ok_def field_values_def)
qed

lemma split_spaces_join:
  assumes "words \<noteq> []" "\<forall>w \<in> set words. w \<noteq> [] \<and> list_all (\<lambda>c. \<not> is_space c) w"
  shows "split_spaces (join_with '' '' words) = words"
  using assms
proof (induction words)
  case (Cons w words)
  have word: "takeWhile (\<lambda>c. \<not> is_space c) (w @ s) = w @ takeWhile (\<lambda>c. \<not> is_space c) s"
    "dropWhile (\<lambda>c. \<not> is_space c) (w @ s) = dropWhile (\<lambda>c. \<not> is_space c) s" for s
    using Cons.prems(2) by (auto simp: list_all_iff takeWhile_append2 dropWhile_append2)
  show ?case
  proof (cases words)
    case Nil
    then show ?thesis using word [of "[]"] by (subst split_spaces.simps) (simp add: Let_def)
  next
    case (Cons v vs)
    have sp: "is_space CHR '' ''" by (simp add: is_space_def code_def)
    obtain c x where v: "v = c # x" "\<not> is_space c" using Cons.prems(2) Cons by (cases v) auto
    have head: "dropWhile is_space (join_with '' '' words) = join_with '' '' words"
      using v Cons by (cases vs) auto
    from Cons.IH Cons.prems Cons have "split_spaces (join_with '' '' words) = words" by simp
    moreover have "join_with '' '' (w # words) = w @ CHR '' '' # join_with '' '' words" using Cons by simp
    ultimately show ?thesis
      using word [of "CHR '' '' # join_with '' '' words"] sp head by (subst split_spaces.simps) (simp add: Let_def)
  qed
qed simp

lemma show_field_chars:
  assumes "items \<noteq> []"
  shows "show_field items \<noteq> []" "list_all (\<lambda>c. \<not> is_space c) (show_field items)"
    "is_digit (hd (show_field items)) \<or> hd (show_field items) = CHR ''*''"
proof -
  have d: "list_all (\<lambda>c. \<not> is_space c) (show_nat k)" "show_nat k \<noteq> []" "is_digit (hd (show_nat k))" for k
    using show_nat_digits [of k] by (auto simp: list_all_iff digit_facts(1))
  have item: "show_item i \<noteq> [] \<and> list_all (\<lambda>c. \<not> is_space c) (show_item i) \<and> (is_digit (hd (show_item i)) \<or> hd (show_item i) = CHR ''*'')" for i
    using d by (cases i) (auto simp: show_step_def is_space_def code_def split: option.splits)
  have "show_field items \<noteq> [] \<and> list_all (\<lambda>c. \<not> is_space c) (show_field items) \<and>
      (is_digit (hd (show_field items)) \<or> hd (show_field items) = CHR ''*'')"
    using assms
  proof (induction items)
    case (Cons i items)
    then show ?case using item [of i] item by (cases items) (auto simp: show_field_def is_space_def code_def)
  qed simp
  then show "show_field items \<noteq> []" "list_all (\<lambda>c. \<not> is_space c) (show_field items)"
    "is_digit (hd (show_field items)) \<or> hd (show_field items) = CHR ''*''" by auto
qed

lemma field_values_bound:
  assumes "field_ok b items" "n \<in> field_values b items"
  shows "bn_min b \<le> n \<and> n \<le> bn_max b"
proof -
  obtain i where i: "i \<in> set items" "n \<in> item_values b i" using assms(2) by (auto simp: field_values_def)
  with assms(1) have "item_ok b i" by (auto simp: field_ok_def list_all_iff)
  with i(2) show ?thesis by (cases i) (auto simp: in_bound_def split: if_splits)
qed

text \<open>Both 0 and 7 are Sunday.\<close>

lemma sunday:
  assumes "\<And>n. n \<in> S \<Longrightarrow> 0 \<le> n \<and> n \<le> 7"
  shows "(if 7 \<in> S then insert 0 S else S) - {7 :: int} = (\<lambda>n. n mod 7) ` S"
proof -
  have m: "n mod 7 = (if n = 7 then 0 else n)" if "n \<in> S" for n using assms [OF that] by auto
  have "(\<lambda>n. n mod 7) ` S = (\<lambda>n. if n = 7 then 0 else n) ` S" using m by (intro image_cong) auto
  then show ?thesis by (auto simp: image_iff)
qed

lemma trim_ends: "s = [] \<or> (\<not> is_space (hd s) \<and> \<not> is_space (last s)) \<Longrightarrow> trim s = s"
  unfolding trim_def by (metis dropWhile_eq_self_iff hd_rev rev_is_Nil_conv rev_rev_ident)

lemma join_with_ends:
  assumes "words \<noteq> []" "\<forall>w \<in> set words. w \<noteq> []"
  shows "hd (join_with sep words) = hd (hd words)" "last (join_with sep words) = last (last words)"
    "join_with sep words \<noteq> []"
proof -
  have "hd (join_with sep words) = hd (hd words) \<and> last (join_with sep words) = last (last words) \<and> join_with sep words \<noteq> []"
    using assms
  proof (induction sep words rule: join_with.induct)
    case (3 sep x y ys)
    then show ?case by auto
  qed auto
  then show "hd (join_with sep words) = hd (hd words)" "last (join_with sep words) = last (last words)"
    "join_with sep words \<noteq> []" by auto
qed

text \<open>An expression that starts like a field is no shorthand.\<close>

lemma no_alias:
  assumes "s \<noteq> []" "is_digit (hd s) \<or> hd s = CHR ''*''"
  shows "to_lower s \<notin> set prototype_names" "map_of ALIASES (to_lower s) = None"
proof -
  obtain c r where s: "s = c # r" using assms(1) by (cases s) auto
  then have "to_lower s = c # to_lower r"
    using assms(2) digit_facts(2) [of c] by (auto simp: to_lower_def to_lower_char_def is_upper_def code_def)
  moreover have "c \<notin> {CHR ''@'', CHR ''c'', CHR ''_''}" using assms(2) s by (auto simp: is_digit_def code_def)
  ultimately show "to_lower s \<notin> set prototype_names" "map_of ALIASES (to_lower s) = None"
    by (auto simp: prototype_names_def ALIASES_def)
qed

text \<open>An expression as it is meant, and when it fires: the five fields hold, except that two restricted day fields
  are alternatives; a weekday is counted modulo seven.\<close>

record cron_spec =
  cs_minute :: "cron_item list"
  cs_hour :: "cron_item list"
  cs_dayOfMonth :: "cron_item list"
  cs_month :: "cron_item list"
  cs_dayOfWeek :: "cron_item list"

definition spec_fields :: "cron_spec \<Rightarrow> cron_item list list" where
  "spec_fields s = [cs_minute s, cs_hour s, cs_dayOfMonth s, cs_month s, cs_dayOfWeek s]"

definition show_cron :: "cron_spec \<Rightarrow> string" where
  "show_cron s = join_with '' '' (map show_field (spec_fields s))"

definition spec_ok :: "cron_spec \<Rightarrow> bool" where
  "spec_ok s \<longleftrightarrow> list_all2 field_ok BOUNDS (spec_fields s)"

definition fires_at :: "cron_spec \<Rightarrow> wall_clock \<Rightarrow> bool" where
  "fires_at s now \<longleftrightarrow>
     wc_minute now \<in> field_values (BOUNDS ! 0) (cs_minute s) \<and> wc_hour now \<in> field_values (BOUNDS ! 1) (cs_hour s) \<and>
     wc_month now \<in> field_values (BOUNDS ! 3) (cs_month s) \<and>
     (let day = wc_dayOfMonth now \<in> field_values (BOUNDS ! 2) (cs_dayOfMonth s);
          weekday = (\<exists>n \<in> field_values (BOUNDS ! 4) (cs_dayOfWeek s). n mod 7 = wc_dayOfWeek now)
      in if list_ex item_restricts (cs_dayOfMonth s) \<and> list_ex item_restricts (cs_dayOfWeek s) then day \<or> weekday
         else day \<and> weekday)"

definition wall_ok :: "wall_clock \<Rightarrow> bool" where
  "wall_ok now \<longleftrightarrow> 1 \<le> wc_dayOfMonth now \<and> wc_dayOfMonth now \<le> 31 \<and> 0 \<le> wc_dayOfWeek now \<and> wc_dayOfWeek now \<le> 6"

lemma parse_fields_shown:
  "list_all2 field_ok bs fs \<Longrightarrow> list_all (\<lambda>b. plain_names b \<and> bn_min b \<le> bn_max b) bs \<Longrightarrow>
   parse_fields (map show_field fs) bs = Inr (map (\<lambda>(b, f). (field_values b f, list_ex item_restricts f)) (zip bs fs))"
proof (induction bs fs rule: list_all2_induct)
  case (Cons b bs f fs)
  then show ?case by (simp add: parseField_shown)
qed simp

lemma parse_shown:
  assumes "spec_ok s"
  shows "parseCron (show_cron s) = Inr
    \<lparr>cf_minute = field_values (BOUNDS ! 0) (cs_minute s), cf_hour = field_values (BOUNDS ! 1) (cs_hour s),
     cf_dayOfMonth = field_values (BOUNDS ! 2) (cs_dayOfMonth s), cf_month = field_values (BOUNDS ! 3) (cs_month s),
     cf_dayOfWeek = (\<lambda>n. n mod 7) ` field_values (BOUNDS ! 4) (cs_dayOfWeek s),
     cf_restrictsDayOfMonth = list_ex item_restricts (cs_dayOfMonth s),
     cf_restrictsDayOfWeek = list_ex item_restricts (cs_dayOfWeek s)\<rparr>"
proof -
  define words where "words = map show_field (spec_fields s)"
  have ne: "\<forall>f \<in> set (spec_fields s). f \<noteq> []"
    using assms by (auto simp: spec_ok_def spec_fields_def BOUNDS_def field_ok_def)
  then have w: "words \<noteq> []" "\<forall>w \<in> set words. w \<noteq> [] \<and> list_all (\<lambda>c. \<not> is_space c) w"
    "is_digit (hd (hd words)) \<or> hd (hd words) = CHR ''*''"
    using show_field_chars by (auto simp: words_def spec_fields_def)
  then have w': "\<forall>w \<in> set words. w \<noteq> []" by blast
  note ends = join_with_ends [OF w(1) w', of "'' ''"]
  have sp: "\<not> is_space (hd (hd words))" "\<not> is_space (last (last words))"
    using w(2) hd_in_set [OF w(1)] last_in_set [OF w(1)] by (metis hd_in_set last_in_set list_all_iff)+
  have show': "show_cron s = join_with '' '' words" by (simp add: show_cron_def words_def)
  have trim': "trim (show_cron s) = show_cron s"
    unfolding show' using ends sp by (intro trim_ends) auto
  have plain: "to_lower (show_cron s) \<notin> set prototype_names" "map_of ALIASES (to_lower (show_cron s)) = None"
    using no_alias [of "show_cron s"] ends w(3) by (auto simp: show')
  have parts: "split_spaces (show_cron s) = words" unfolding show' by (rule split_spaces_join [OF w(1,2)])
  have "list_all (\<lambda>b. plain_names b \<and> bn_min b \<le> bn_max b) BOUNDS" by code_simp
  then have fs: "parse_fields words BOUNDS = Inr (map (\<lambda>(b, f). (field_values b f, list_ex item_restricts f)) (zip BOUNDS (spec_fields s)))"
    unfolding words_def using assms by (intro parse_fields_shown) (auto simp: spec_ok_def)
  have len: "length words = 5" by (simp add: words_def spec_fields_def)
  define dow where "dow = field_values (BOUNDS ! 4) (cs_dayOfWeek s)"
  have "0 \<le> n \<and> n \<le> 7" if "n \<in> dow" for n
    using that field_values_bound [of "BOUNDS ! 4" "cs_dayOfWeek s"] assms
    by (auto simp: dow_def spec_ok_def spec_fields_def BOUNDS_def)
  then have week: "(if 7 \<in> dow then insert 0 dow else dow) - {7} = (\<lambda>n. n mod 7) ` dow" by (rule sunday)
  have "BOUNDS = [BOUNDS ! 0, BOUNDS ! 1, BOUNDS ! 2, BOUNDS ! 3, BOUNDS ! 4]" by (simp add: BOUNDS_def)
  then have nth: "zip BOUNDS (spec_fields s) = [(BOUNDS ! 0, cs_minute s), (BOUNDS ! 1, cs_hour s), (BOUNDS ! 2, cs_dayOfMonth s),
      (BOUNDS ! 3, cs_month s), (BOUNDS ! 4, cs_dayOfWeek s)]"
    unfolding spec_fields_def by (metis zip_Cons_Cons zip_Nil)
  show ?thesis
    unfolding parseCron_def Let_def trim' plain(2) option.case parts fs nth using plain(1) len week [unfolded dow_def]
    by (simp split: if_splits)
qed

lemma star_month: "\<not> list_ex item_restricts f \<Longrightarrow> f \<noteq> [] \<Longrightarrow> field_values b f = {bn_min b..bn_max b}"
proof -
  assume f: "\<not> list_ex item_restricts f" "f \<noteq> []"
  have "item_values b i = {bn_min b..bn_max b}" if "i \<in> set f" for i
    using f(1) that by (cases i) (auto simp: list_ex_iff every_def)
  with f(2) show ?thesis by (auto simp: field_values_def neq_Nil_conv)
qed

text \<open>
  C30. Cron expressions mean what they say. Take any five fields, each a non-empty list of steps, single values and
  spans within the field's bounds (a span may wrap around), and print them as text. The parser accepts the text, and
  a minute matches exactly if its minute, hour and month are values of their fields and its day fits: both day fields
  hold, except that when both are restricted one of them is enough. A weekday counts modulo seven, so 7 is Sunday.
\<close>

theorem cron_means:
  assumes "spec_ok s" "wall_ok now"
  shows "\<exists>cron. parseCron (show_cron s) = Inr cron \<and> cron_matches cron now = fires_at s now"
proof -
  have ne: "cs_dayOfMonth s \<noteq> []" "cs_dayOfWeek s \<noteq> []"
    using assms(1) by (auto simp: spec_ok_def spec_fields_def BOUNDS_def field_ok_def)
  have day: "wc_dayOfMonth now \<in> field_values (BOUNDS ! 2) (cs_dayOfMonth s)" if "\<not> list_ex item_restricts (cs_dayOfMonth s)"
    using assms(2) star_month [OF that ne(1)] by (simp add: wall_ok_def BOUNDS_def)
  have weekday: "\<exists>n \<in> field_values (BOUNDS ! 4) (cs_dayOfWeek s). n mod 7 = wc_dayOfWeek now"
    if "\<not> list_ex item_restricts (cs_dayOfWeek s)"
    using assms(2) star_month [OF that ne(2), of "BOUNDS ! 4"]
    by (intro bexI [of _ "wc_dayOfWeek now"]) (auto simp: wall_ok_def BOUNDS_def)
  show ?thesis
    unfolding parse_shown [OF assms(1)] using day weekday
    by (auto simp: cron_matches_def fires_at_def Let_def image_iff eq_commute [of "wc_dayOfWeek now"])
qed

lemma take_first:
  assumes "sorted_wrt (<) xs" "(t :: int) \<in> set xs"
  shows "t \<in> set (take k xs) \<or> (length (take k xs) = k \<and> (\<forall>u \<in> set (take k xs). u < t))"
proof (cases "t \<in> set (take k xs)")
  case False
  have "set xs = set (take k xs) \<union> set (drop k xs)" by (metis append_take_drop_id set_append)
  with False assms(2) have rest: "t \<in> set (drop k xs)" by blast
  then have "k < length xs" by (metis drop_all empty_iff list.set(1) not_le)
  moreover have "\<forall>u \<in> set (take k xs). \<forall>v \<in> set (drop k xs). u < v"
    using assms(1) sorted_wrt_append [of "(<)" "take k xs" "drop k xs"] by simp
  ultimately show ?thesis using rest by simp
qed simp

lemma minute_floor: "t div MINUTE_MS * MINUTE_MS \<le> t" "t < t div MINUTE_MS * MINUTE_MS + MINUTE_MS"
  by (auto simp: MINUTE_MS_def)

text \<open>
  Which occurrences are due. The list is increasing and no longer than the cap; every entry is a whole minute
  after the last one fired for and not in the future, and matches; and nothing of the last \<open>cap\<close> days is passed over:
  a matching minute is in the list, or the cap was reached with earlier ones.
\<close>

theorem due_exact:
  assumes "0 < cap" "ts = dueBetween cron wall after until cap"
  shows "sorted_wrt (<) ts \<and> length ts \<le> cap \<and>
    set ts \<subseteq> {t. after < t \<and> t \<le> until \<and> MINUTE_MS dvd t \<and> cron_matches cron (wall t)} \<and>
    (\<forall>t. after < t \<and> t \<le> until \<and> MINUTE_MS dvd t \<and> cron_matches cron (wall t) \<and> until - int cap * 24 * 60 * MINUTE_MS \<le> t \<longrightarrow>
      t \<in> set ts \<or> (length ts = cap \<and> (\<forall>u \<in> set ts. u < t)))"
proof -
  define cursor where "cursor = after div MINUTE_MS * MINUTE_MS + MINUTE_MS"
  define stop where "stop = until div MINUTE_MS * MINUTE_MS"
  define earliest where "earliest = stop - int cap * 24 * 60 * MINUTE_MS"
  define start where "start = (if cursor < earliest then earliest div MINUTE_MS * MINUTE_MS else cursor)"
  define due where "due = (\<lambda>t. cron_matches cron (wall t))"
  define all where "all = filter due (minutes start stop)"
  have ts: "ts = take cap all"
    using due_walk_eq [of "[]" cap due start stop] assms(1)
    unfolding assms(2) all_def dueBetween_def Let_def
      cursor_def [symmetric] stop_def [symmetric] earliest_def [symmetric] start_def [symmetric] due_def [symmetric]
    by simp
  have sorted_all: "sorted_wrt (<) all" unfolding all_def by (intro sorted_wrt_filter sorted_minutes)
  have aligned: "MINUTE_MS dvd cursor" "MINUTE_MS dvd stop" "MINUTE_MS dvd earliest"
    by (auto simp: cursor_def stop_def earliest_def)
  then have start: "MINUTE_MS dvd start" "cursor \<le> start" "start = cursor \<or> start = earliest"
    by (auto simp: start_def dvd_div_mult_self)
  have mem: "t \<in> set all \<longleftrightarrow> start \<le> t \<and> t \<le> stop \<and> MINUTE_MS dvd t \<and> due t" for t
    using dvd_diff_left_iff [OF start(1), of t] by (auto simp: all_def set_minutes)
  have below: "t \<le> stop" if "t \<le> until" "MINUTE_MS dvd t" for t
    using that by (metis dvd_div_mult_self stop_def zdiv_mono1 mult_right_mono MINUTE_MS_def zero_le_numeral zero_less_numeral)
  have above: "cursor \<le> t" if "after < t" "MINUTE_MS dvd t" for t
  proof -
    have "after div MINUTE_MS < t div MINUTE_MS" using that by (auto simp: MINUTE_MS_def dvd_def)
    then show ?thesis using that(2) by (auto simp: cursor_def MINUTE_MS_def dvd_def)
  qed
  have "t \<in> set all" if "after < t" "t \<le> until" "MINUTE_MS dvd t" "due t" "until - int cap * 24 * 60 * MINUTE_MS \<le> t" for t
    using that below [of t] above [of t] start(3) minute_floor(1) [of until] unfolding mem earliest_def stop_def by auto
  moreover have "after < t \<and> t \<le> until \<and> MINUTE_MS dvd t \<and> due t" if "t \<in> set all" for t
    using that start(2) minute_floor(1) [of until] minute_floor(2) [of after] unfolding mem cursor_def stop_def by auto
  ultimately show ?thesis
    unfolding ts using take_first [OF sorted_all] sorted_all
    by (auto simp: due_def sorted_wrt_take dest: in_set_takeD)
qed

subsection \<open>What any accepted text parses to\<close>

definition values_within :: "bound \<Rightarrow> int set \<Rightarrow> bool" where
  "values_within b S \<longleftrightarrow> S \<subseteq> {bn_min b..bn_max b}"

lemma cron_resolve_bound: "cron_resolve text b = Inr v \<Longrightarrow> bn_min b \<le> v \<and> v \<le> bn_max b"
  by (auto simp: cron_resolve_def Let_def split: option.splits if_splits)

lemma values_within_range:
  assumes "values_within b S" "bn_min b \<le> lo" "hi \<le> bn_max b" "0 < step"
  shows "values_within b (add_range lo hi step S)"
  using assms by (auto simp: values_within_def add_range_eq)

lemma parse_piece_within:
  assumes "parse_piece raw b piece (S, r) = Inr (S', r')" "values_within b S"
  shows "values_within b S'"
proof -
  from assms(1) obtain step where step: "step_of (second (split_on CHR ''/'' piece)) = Some step" "0 < step"
    by (auto simp: parse_piece_def Let_def split: if_splits option.splits)
  show ?thesis
  proof (cases "hd (split_on CHR ''/'' piece) = ''*''")
    case True
    with assms(1) step have "S' = add_range (bn_min b) (bn_max b) step S" by (auto simp: parse_piece_def Let_def split: if_splits)
    with values_within_range [OF assms(2)] step(2) show ?thesis by simp
  next
    case False
    define rng where "rng = hd (split_on CHR ''/'' piece)"
    obtain lo hi where lh: "cron_resolve (hd (split_on CHR ''-'' rng)) b = Inr lo"
      "(case second (split_on CHR ''-'' rng) of None \<Rightarrow> Inr lo | Some t \<Rightarrow> cron_resolve t b) = Inr hi"
      "S' = (if hi < lo then add_range (bn_min b) hi 1 (add_range lo (bn_max b) 1 S) else add_range lo hi step S)"
      using assms(1) False step unfolding rng_def parse_piece_def
      by (auto simp: Let_def split: if_splits sum.splits option.splits)
    then have "bn_min b \<le> lo" "lo \<le> bn_max b" "bn_min b \<le> hi" "hi \<le> bn_max b"
      using cron_resolve_bound by (auto split: option.splits)
    with lh(3) assms(2) step(2) show ?thesis by (simp add: values_within_range)
  qed
qed

lemma parse_pieces_within:
  "parse_pieces raw b pieces (S, r) = Inr (S', r') \<Longrightarrow> values_within b S \<Longrightarrow> values_within b S'"
proof (induction pieces arbitrary: S r)
  case (Cons piece pieces)
  then obtain S1 r1 where "parse_piece raw b piece (S, r) = Inr (S1, r1)" "parse_pieces raw b pieces (S1, r1) = Inr (S', r')"
    by (auto split: sum.splits)
  with Cons.IH Cons.prems(2) parse_piece_within show ?case by blast
qed simp

lemma parseField_within: "parseField raw b = Inr (S, r) \<Longrightarrow> values_within b S \<and> S \<noteq> {}"
  using parse_pieces_within [of raw b "split_on CHR '','' raw" "{}" False]
  by (auto simp: parseField_def values_within_def split: sum.splits prod.splits if_splits)

lemma parse_fields_within:
  "parse_fields fs bs = Inr ps \<Longrightarrow> length fs = length bs \<Longrightarrow> list_all2 (\<lambda>b p. values_within b (fst p) \<and> fst p \<noteq> {}) bs ps"
proof (induction fs bs arbitrary: ps rule: parse_fields.induct)
  case (1 f fs b bs)
  from 1(2) obtain p ps' where p: "parseField f b = Inr p" "parse_fields fs bs = Inr ps'" "ps = p # ps'"
    by (auto split: sum.splits simp: map_sum_def)
  with 1(1) [OF p(1,2)] 1(3) parseField_within [of f b "fst p" "snd p"] show ?case by simp
qed auto

text \<open>
  C31. What any text parses to. Whatever text the parser accepts, numbers, names, steps, wrapped ranges or a shorthand,
  each of the five fields is a non-empty set of values of its range: minutes below sixty, hours below twenty-four, days
  from 1 to 31, months from 1 to 12, and weekdays from 0 to 6.
\<close>

theorem parsed_in_bounds:
  assumes "parseCron expression = Inr cron"
  shows "cf_minute cron \<subseteq> {0..59} \<and> cf_hour cron \<subseteq> {0..23} \<and> cf_dayOfMonth cron \<subseteq> {1..31} \<and> cf_month cron \<subseteq> {1..12} \<and>
    cf_dayOfWeek cron \<subseteq> {0..6} \<and> cf_minute cron \<noteq> {} \<and> cf_hour cron \<noteq> {} \<and> cf_dayOfMonth cron \<noteq> {} \<and> cf_month cron \<noteq> {} \<and>
    cf_dayOfWeek cron \<noteq> {}"
proof -
  obtain fs ps where fs: "length fs = 5" "parse_fields fs BOUNDS = Inr ps"
    and cron: "cron = \<lparr>cf_minute = fst (ps ! 0), cf_hour = fst (ps ! 1), cf_dayOfMonth = fst (ps ! 2), cf_month = fst (ps ! 3),
      cf_dayOfWeek = (if 7 \<in> fst (ps ! 4) then insert 0 (fst (ps ! 4)) else fst (ps ! 4)) - {7},
      cf_restrictsDayOfMonth = snd (ps ! 2), cf_restrictsDayOfWeek = snd (ps ! 4)\<rparr>"
    using assms unfolding parseCron_def Let_def by (auto split: if_splits sum.splits)
  have len: "length BOUNDS = 5" by (simp add: BOUNDS_def)
  have "values_within (BOUNDS ! i) (fst (ps ! i)) \<and> fst (ps ! i) \<noteq> {}" if "i < 5" for i
    using parse_fields_within [OF fs(2)] fs(1) len that by (simp add: list_all2_conv_all_nth)
  from this [of 0] this [of 1] this [of 2] this [of 3] this [of 4]
  have w: "fst (ps ! 0) \<subseteq> {0..59}" "fst (ps ! 1) \<subseteq> {0..23}" "fst (ps ! 2) \<subseteq> {1..31}" "fst (ps ! 3) \<subseteq> {1..12}" "fst (ps ! 4) \<subseteq> {0..7}"
    "fst (ps ! 0) \<noteq> {}" "fst (ps ! 1) \<noteq> {}" "fst (ps ! 2) \<noteq> {}" "fst (ps ! 3) \<noteq> {}" "fst (ps ! 4) \<noteq> {}"
    by (simp_all add: values_within_def BOUNDS_def)
  define dow where "dow = fst (ps ! 4)"
  have "0 \<le> n \<and> n \<le> 7" if "n \<in> dow" for n using that w(5) by (auto simp: dow_def)
  then have "(if 7 \<in> dow then insert 0 dow else dow) - {7} = (\<lambda>n. n mod 7) ` dow" by (rule sunday)
  moreover have "n mod 7 \<le> 6" for n :: int by presburger
  then have "(\<lambda>n. n mod 7) ` dow \<subseteq> {0..6}" by auto
  moreover have "(\<lambda>n. n mod 7) ` dow \<noteq> {}" using w(10) by (simp add: dow_def)
  ultimately show ?thesis using w(1-4,6-9) unfolding cron dow_def by simp
qed

theorem parsed_in_bounds_witness:
  "isValidCron ''@weekly'' \<and> (\<exists>cron. parseCron ''0 22-2 * jan-mar,12 fri-7'' = Inr cron \<and> cf_dayOfWeek cron \<subseteq> {0..6} \<and> cf_hour cron \<subseteq> {0..23})"
proof -
  have ok: "isValidCron ''@weekly''" "isValidCron ''0 22-2 * jan-mar,12 fri-7''" by code_simp+
  then obtain cron where c: "parseCron ''0 22-2 * jan-mar,12 fri-7'' = Inr cron" by (auto simp: isValidCron_def split: sum.splits)
  from parsed_in_bounds [OF c] ok(1) c show ?thesis by blast
qed

text \<open>The first of the month, and every Friday to Monday, at half past each even hour.\<close>

definition sample_spec :: cron_spec where
  "sample_spec = \<lparr>cs_minute = [One 30 None], cs_hour = [Star (Some 2)], cs_dayOfMonth = [One 1 None], cs_month = [Star None],
     cs_dayOfWeek = [Span 5 1 None]\<rparr>"

definition sample_wall :: wall_clock where
  "sample_wall = \<lparr>wc_minute = 30, wc_hour = 4, wc_dayOfMonth = 12, wc_month = 6, wc_dayOfWeek = 0\<rparr>"

theorem cron_means_witness:
  "show_cron sample_spec = ''30 */2 1 * 5-1'' \<and> fires_at sample_spec sample_wall \<and>
   (\<exists>cron. parseCron ''30 */2 1 * 5-1'' = Inr cron \<and> cron_matches cron sample_wall)"
proof -
  have shown: "show_cron sample_spec = ''30 */2 1 * 5-1''" by code_simp
  have fires: "fires_at sample_spec sample_wall"
    by (simp add: fires_at_def sample_spec_def sample_wall_def field_values_def BOUNDS_def every_def)
      (rule exI [of _ 7], simp)
  have "spec_ok sample_spec" "wall_ok sample_wall" by code_simp+
  from cron_means [OF this] fires shown show ?thesis by simp
qed

text \<open>Catching up on a minutely schedule after a long pause: the cap is reached.\<close>

definition every_minute :: cron_fields where
  "every_minute = \<lparr>cf_minute = {0..59}, cf_hour = {0..23}, cf_dayOfMonth = {1..31}, cf_month = {1..12}, cf_dayOfWeek = {0..6},
     cf_restrictsDayOfMonth = False, cf_restrictsDayOfWeek = False\<rparr>"

theorem due_exact_witness:
  "dueBetween every_minute (\<lambda>t. sample_wall) 0 600000 5 = [60000, 120000, 180000, 240000, 300000] \<and>
   set (dueBetween every_minute (\<lambda>t. sample_wall) 0 600000 5) \<subseteq>
     {t. 0 < t \<and> t \<le> 600000 \<and> MINUTE_MS dvd t \<and> cron_matches every_minute sample_wall}"
proof
  show "dueBetween every_minute (\<lambda>t. sample_wall) 0 600000 5 = [60000, 120000, 180000, 240000, 300000]"
    by (simp add: dueBetween_def Let_def MINUTE_MS_def due_walk.simps cron_matches_def every_minute_def sample_wall_def)
  show "set (dueBetween every_minute (\<lambda>t. sample_wall) 0 600000 5) \<subseteq>
     {t. 0 < t \<and> t \<le> 600000 \<and> MINUTE_MS dvd t \<and> cron_matches every_minute sample_wall}"
    using due_exact [OF _ refl, of 5 every_minute "\<lambda>t. sample_wall" 0 600000] by simp
qed

end
