(* ===== verification/Billing.thy ===== *)
theory Billing
  imports Workspaces Cron
begin

text \<open>
  What a workspace may spend: plans and entitlements (\<^verbatim>\<open>packages/billing/src/entitlements.ts\<close>,
  \<^verbatim>\<open>packages/catalog/src/plans.ts\<close>, \<^verbatim>\<open>apps/web/src/lib/billing.ts\<close>), the usage roll-up
  (\<^verbatim>\<open>packages/db/src/repositories/telemetry.ts\<close>), the gates in front of a run (\<^verbatim>\<open>apps/web/src/lib/limits.ts\<close>), the
  subscription rows (\<^verbatim>\<open>repositories/subscriptions.ts\<close>) and what changes them: the payment processor's webhook
  (\<^verbatim>\<open>packages/billing/src/stripe.ts\<close>, \<^verbatim>\<open>api/billing/webhook\<close>), the cancel route and the free trial.

  Money is an exact number. The keyed hash and the typed reading of a delivery's JSON are arguments, as are the
  processor's replies and the deployment's own model allowance. Refusals are a datatype in place of their sentences.
\<close>

subsection \<open>Dates\<close>

text \<open>\<^verbatim>\<open>date.toISOString().slice(0, 10)\<close>, for the years 0 to 9999: the day of the Gregorian calendar.\<close>

definition DAY_MS :: int where
  "DAY_MS = 86400000"

definition civil :: "int \<Rightarrow> int \<times> int \<times> int" where
  "civil days =
     (let z = days + 719468; era = z div 146097; doe = z mod 146097;
          yoe = (doe - doe div 1460 + doe div 36524 - doe div 146096) div 365;
          doy = doe - (365 * yoe + yoe div 4 - yoe div 100); mp = (5 * doy + 2) div 153;
          m = (if mp < 10 then mp + 3 else mp - 9)
      in (yoe + era * 400 + (if m \<le> 2 then 1 else 0), m, doy - (153 * mp + 2) div 5 + 1))"

definition padded :: "nat \<Rightarrow> int \<Rightarrow> string" where
  "padded width n = (let s = show_nat (nat n) in replicate (width - length s) CHR ''0'' @ s)"

lemma padded_code [code]:
  "padded width i = (let s = show_digits i in replicate (width - length s) CHR ''0'' @ s)"
  by (simp add: padded_def show_nat_digits_int)

definition iso_day :: "time \<Rightarrow> string" where
  "iso_day t = (let (y, m, d) = civil (t div DAY_MS) in padded 4 y @ ''-'' @ padded 2 m @ ''-'' @ padded 2 d)"

definition monthOf :: "time \<Rightarrow> string" where
  "monthOf t = take 7 (iso_day t)"

subsection \<open>Plans and entitlements\<close>

datatype limit_name = Limit_agents | Limit_channels | Limit_mcpServers | Limit_monthlyUsdCap

record plan =
  pl_id :: string
  pl_name :: string
  pl_amountCents :: int
  pl_limits :: "limit_name \<Rightarrow> rat"

fun standard_limits :: "limit_name \<Rightarrow> rat" where
  "standard_limits Limit_agents = 25"
| "standard_limits Limit_channels = 10"
| "standard_limits Limit_mcpServers = 50"
| "standard_limits Limit_monthlyUsdCap = 250"

definition PLANS :: "plan list" where
  "PLANS = [\<lparr>pl_id = ''standard'', pl_name = ''Standard'', pl_amountCents = 6700, pl_limits = standard_limits\<rparr>]"

definition planById :: "string \<Rightarrow> plan option" where
  "planById i = List.find (\<lambda>p. pl_id p = i) PLANS"

definition DEFAULT_PLAN_ID :: string where
  "DEFAULT_PLAN_ID = ''standard''"

definition TRIAL_DAYS :: int where
  "TRIAL_DAYS = 10"

datatype sub_status = Sub_active | Sub_cancelling | Sub_past_due | Sub_ended | Sub_incomplete

record subscription =
  su_externalId :: string
  su_planId :: string
  su_status :: sub_status
  su_currentPeriodEnd :: "time option"
  su_cancelAtPeriodEnd :: bool

datatype entitlement_state = Exempt | Subscribed | On_trial | Trial_ended | No_plan

record entitlement =
  en_planId :: "string option"
  en_active :: bool
  en_limits :: "(limit_name \<Rightarrow> rat) option"
  en_unconfigured :: bool
  en_state :: entitlement_state
  en_trialEndsAt :: "time option"

definition UNCONFIGURED :: entitlement where
  "UNCONFIGURED = \<lparr>en_planId = None, en_active = True, en_limits = None, en_unconfigured = True, en_state = Exempt, en_trialEndsAt = None\<rparr>"

definition NO_PLAN :: entitlement where
  "NO_PLAN = \<lparr>en_planId = None, en_active = False, en_limits = None, en_unconfigured = False, en_state = No_plan, en_trialEndsAt = None\<rparr>"

definition entitlementsOf :: "subscription option \<Rightarrow> entitlement" where
  "entitlementsOf sub =
     (case sub of
        None \<Rightarrow> NO_PLAN
      | Some s \<Rightarrow>
          (let active = su_status s \<in> {Sub_active, Sub_cancelling, Sub_past_due}
           in \<lparr>en_planId = Some (su_planId s), en_active = active, en_limits = map_option pl_limits (planById (su_planId s)),
               en_unconfigured = False, en_state = (if active then Subscribed else No_plan), en_trialEndsAt = None\<rparr>))"

definition trialEntitlements :: "time \<Rightarrow> time \<Rightarrow> entitlement" where
  "trialEntitlements ends now =
     (let live = now < ends
      in \<lparr>en_planId = (if live then Some DEFAULT_PLAN_ID else None), en_active = live,
          en_limits = (if live then map_option pl_limits (planById DEFAULT_PLAN_ID) else None), en_unconfigured = False,
          en_state = (if live then On_trial else Trial_ended), en_trialEndsAt = Some ends\<rparr>)"

subsection \<open>Refusals\<close>

datatype refusal =
    Daily_cap rat
  | Inactive entitlement_state
  | Allowance rat
  | Monthly_cap rat
  | Over_limit limit_name "rat option" int int

datatype gate = Open | Refused refusal bool

definition withinLimit :: "entitlement \<Rightarrow> limit_name \<Rightarrow> int \<Rightarrow> refusal option" where
  "withinLimit en kind current =
     (if en_unconfigured en then None
      else if \<not> en_active en then Some (Inactive (en_state en))
      else (case map_option (\<lambda>ls. ls kind) (en_limits en) of
              None \<Rightarrow> None
            | Some most \<Rightarrow> if of_int current < most then None else Some (Over_limit kind (Some most) current 1)))"

text \<open>The check is of the last of the new ones; the sentence counts them all.\<close>

definition countGateFor :: "entitlement \<Rightarrow> limit_name \<Rightarrow> int \<Rightarrow> int \<Rightarrow> gate" where
  "countGateFor en kind current adding =
     (case withinLimit en kind (current + adding - 1) of
        None \<Rightarrow> Open
      | Some r \<Rightarrow>
          (case map_option (\<lambda>ls. ls kind) (en_limits en) of
             None \<Rightarrow> Refused r False
           | Some most \<Rightarrow> Refused (Over_limit kind (Some most) current adding) False))"

subsection \<open>Rows\<close>

record subscription_doc =
  sd_id :: id
  sd_workspaceId :: id
  sd_processor :: string
  sd_sub :: subscription
  sd_createdAt :: time
  sd_updatedAt :: time

record usage_daily =
  ud_id :: id
  ud_workspaceId :: id
  ud_day :: string
  ud_modelBindingId :: id
  ud_inputTokens :: int
  ud_cacheReadTokens :: int
  ud_cacheWriteTokens :: int
  ud_outputTokens :: int
  ud_costUsd :: rat
  ud_runCount :: int

record provider_config =
  pv_id :: id
  pv_workspaceId :: id
  pv_platform :: bool

record binding_row =
  mb_id :: id
  mb_workspaceId :: id
  mb_providerConfigId :: id
  mb_role :: string
  mb_enabled :: bool

record bill_world =
  bw_ws :: ws_world
  bw_subs :: "subscription_doc list"
  bw_usage :: "usage_daily list"
  bw_providers :: "provider_config list"
  bw_bindings :: "binding_row list"

definition subscription_current :: "id \<Rightarrow> subscription_doc list \<Rightarrow> subscription_doc option" where
  "subscription_current ws subs = List.find (\<lambda>d. sd_workspaceId d = ws) subs"

definition subscription_record :: "id \<Rightarrow> id \<Rightarrow> string \<Rightarrow> subscription \<Rightarrow> time \<Rightarrow> subscription_doc list \<Rightarrow> subscription_doc list" where
  "subscription_record newId ws proc sub now subs =
     (if list_ex (\<lambda>d. sd_workspaceId d = ws) subs
      then update_first (\<lambda>d. sd_workspaceId d = ws) (\<lambda>d. d\<lparr>sd_processor := proc, sd_sub := sub, sd_updatedAt := now\<rparr>) subs
      else subs @ [\<lparr>sd_id = newId, sd_workspaceId = ws, sd_processor = proc, sd_sub = sub, sd_createdAt = now, sd_updatedAt = now\<rparr>])"

definition markEnded :: "id \<Rightarrow> time \<Rightarrow> subscription_doc list \<Rightarrow> subscription_doc list" where
  "markEnded ws now subs =
     update_first (\<lambda>d. sd_workspaceId d = ws) (\<lambda>d. d\<lparr>sd_sub := (sd_sub d)\<lparr>su_status := Sub_ended\<rparr>, sd_updatedAt := now\<rparr>) subs"

text \<open>One row per workspace, day and binding; a run's spend is added to it.\<close>

definition usage_row_id :: "id \<Rightarrow> string \<Rightarrow> id \<Rightarrow> id" where
  "usage_row_id ws day binding = ws @ '':'' @ day @ '':'' @ binding"

definition record_usage :: "id \<Rightarrow> id \<Rightarrow> usage \<Rightarrow> rat \<Rightarrow> time \<Rightarrow> usage_daily list \<Rightarrow> usage_daily list" where
  "record_usage ws binding u cost now rows =
     (let day = iso_day now; P = (\<lambda>d. ud_workspaceId d = ws \<and> ud_id d = usage_row_id ws day binding);
          inc = (\<lambda>d. d\<lparr>ud_inputTokens := ud_inputTokens d + u_inputTokens u, ud_outputTokens := ud_outputTokens d + u_outputTokens u,
            ud_cacheReadTokens := ud_cacheReadTokens d + u_cacheReadTokens u, ud_cacheWriteTokens := ud_cacheWriteTokens d + u_cacheWriteTokens u,
            ud_costUsd := ud_costUsd d + cost, ud_runCount := ud_runCount d + 1\<rparr>)
      in if list_ex P rows then update_first P inc rows
         else rows @ [inc \<lparr>ud_id = usage_row_id ws day binding, ud_workspaceId = ws, ud_day = day, ud_modelBindingId = binding,
           ud_inputTokens = 0, ud_cacheReadTokens = 0, ud_cacheWriteTokens = 0, ud_outputTokens = 0, ud_costUsd = 0, ud_runCount = 0\<rparr>])"

definition cost_where :: "(usage_daily \<Rightarrow> bool) \<Rightarrow> usage_daily list \<Rightarrow> rat" where
  "cost_where P rows = foldl (\<lambda>acc d. acc + ud_costUsd d) 0 (filter P rows)"

definition spendOnDay :: "id \<Rightarrow> string \<Rightarrow> usage_daily list \<Rightarrow> rat" where
  "spendOnDay ws day = cost_where (\<lambda>d. ud_workspaceId d = ws \<and> ud_day d = day)"

definition spendInMonth :: "id \<Rightarrow> string \<Rightarrow> usage_daily list \<Rightarrow> rat" where
  "spendInMonth ws month = cost_where (\<lambda>d. ud_workspaceId d = ws \<and> starts_with (ud_day d) (month @ ''-''))"

definition spendInMonthByBindings :: "id \<Rightarrow> string \<Rightarrow> id list \<Rightarrow> usage_daily list \<Rightarrow> rat" where
  "spendInMonthByBindings ws month ids rows =
     (if ids = [] then 0
      else cost_where (\<lambda>d. ud_workspaceId d = ws \<and> starts_with (ud_day d) (month @ ''-'') \<and> ud_modelBindingId d \<in> set ids) rows)"

definition forRole :: "id \<Rightarrow> string \<Rightarrow> binding_row list \<Rightarrow> binding_row option" where
  "forRole ws role = List.find (\<lambda>b. mb_workspaceId b = ws \<and> mb_role b = role \<and> mb_enabled b)"

definition binding_by_id :: "id \<Rightarrow> id \<Rightarrow> binding_row list \<Rightarrow> binding_row option" where
  "binding_by_id ws i = List.find (\<lambda>b. mb_workspaceId b = ws \<and> mb_id b = i)"

definition platformBindingIds :: "id \<Rightarrow> bill_world \<Rightarrow> id list" where
  "platformBindingIds ws w =
     (let mine = map pv_id (filter pv_platform (filter (\<lambda>p. pv_workspaceId p = ws) (bw_providers w)))
      in if mine = [] then []
         else map mb_id (filter (\<lambda>b. mb_providerConfigId b \<in> set mine) (filter (\<lambda>b. mb_workspaceId b = ws) (bw_bindings w))))"

subsection \<open>The gate in front of a run\<close>

text \<open>The deployment: the workspaces the operator exempts, whether a processor is configured, its own model's allowance.\<close>

record bill_env =
  be_complimentary :: "id list"
  be_processor :: bool
  be_platformCap :: "rat option"

definition entitlements :: "bill_env \<Rightarrow> time \<Rightarrow> id \<Rightarrow> bill_world \<Rightarrow> entitlement" where
  "entitlements env now ws w =
     (if ws \<in> set (be_complimentary env) then UNCONFIGURED
      else
        (let subscribed = (if be_processor env then map_option (\<lambda>d. entitlementsOf (Some (sd_sub d))) (subscription_current ws (bw_subs w)) else None)
         in if subscribed \<noteq> None \<and> en_active (the subscribed) then the subscribed
            else (case Option.bind (workspace_by_id ws (ww_docs (bw_ws w))) wk_trial of
                    Some t \<Rightarrow> trialEntitlements (tri_endsAt t) now
                  | None \<Rightarrow> NO_PLAN)))"

definition spendsIncludedAi :: "id \<Rightarrow> id option \<Rightarrow> bill_world \<Rightarrow> bool" where
  "spendsIncludedAi ws binding w =
     (let ids = platformBindingIds ws w
      in if ids = [] then False
         else (case binding of
                 Some b \<Rightarrow> b \<in> set ids
               | None \<Rightarrow> (case forRole ws ''chat'' (bw_bindings w) of None \<Rightarrow> False | Some b \<Rightarrow> mb_id b \<in> set ids)))"

text \<open>The last part: the plan's own monthly cap.\<close>

definition plan_gate :: "entitlement \<Rightarrow> id \<Rightarrow> time \<Rightarrow> bill_world \<Rightarrow> gate" where
  "plan_gate plan ws now w =
     (if en_unconfigured plan then Open
      else (case map_option (\<lambda>ls. ls Limit_monthlyUsdCap) (en_limits plan) of
              None \<Rightarrow> Open
            | Some cap \<Rightarrow> if cap \<le> spendInMonth ws (monthOf now) (bw_usage w) then Refused (Monthly_cap cap) False else Open))"

definition spendGate :: "bill_env \<Rightarrow> time \<Rightarrow> id \<Rightarrow> id option \<Rightarrow> bill_world \<Rightarrow> gate" where
  "spendGate env now ws binding w =
     (let dailyCap = (case workspace_by_id ws (ww_docs (bw_ws w)) of None \<Rightarrow> 0 | Some d \<Rightarrow> wst_dailyCostCapUsd (wk_settings d))
      in if 0 < dailyCap \<and> dailyCap \<le> spendOnDay ws (iso_day now) (bw_usage w) then Refused (Daily_cap dailyCap) False
         else
           (let plan = entitlements env now ws w
            in if en_unconfigured plan \<and> \<not> spendsIncludedAi ws binding w then Open
               else if \<not> en_unconfigured plan \<and> \<not> en_active plan then Refused (Inactive (en_state plan)) True
               else
                 (case (if spendsIncludedAi ws binding w then be_platformCap env else None) of
                    Some cap \<Rightarrow>
                      (if cap \<le> spendInMonthByBindings ws (monthOf now) (platformBindingIds ws w) (bw_usage w) then Refused (Allowance cap) False
                       else plan_gate plan ws now w)
                  | None \<Rightarrow> plan_gate plan ws now w)))"

subsection \<open>The payment processor\<close>

record stripe_subscription =
  ss_id :: string
  ss_status :: string
  ss_cancel_at_period_end :: "bool option"
  ss_current_period_end :: "int option"
  ss_metadata :: "(string \<times> string) list option"

record stripe_event =
  se_type :: "string option"
  se_object :: "stripe_subscription option"

definition MAX_SKEW_SECONDS :: rat where
  "MAX_SKEW_SECONDS = 300"

definition STRIPE_STATUS :: "(string \<times> sub_status) list" where
  "STRIPE_STATUS = [(''active'', Sub_active), (''trialing'', Sub_active), (''past_due'', Sub_past_due), (''unpaid'', Sub_past_due),
     (''incomplete'', Sub_incomplete), (''incomplete_expired'', Sub_ended), (''canceled'', Sub_ended), (''paused'', Sub_ended)]"

definition toSubscription :: "stripe_subscription \<Rightarrow> string \<Rightarrow> subscription" where
  "toSubscription row planId =
     \<lparr>su_externalId = ss_id row, su_planId = planId,
      su_status = (case map_of STRIPE_STATUS (ss_status row) of Some st \<Rightarrow> st | None \<Rightarrow> Sub_ended),
      su_currentPeriodEnd = map_option (\<lambda>s. s * 1000) (ss_current_period_end row),
      su_cancelAtPeriodEnd = (ss_cancel_at_period_end row = Some True)\<rparr>"

definition plan_of :: "stripe_subscription \<Rightarrow> string" where
  "plan_of row = (case Option.bind (ss_metadata row) (\<lambda>m. map_of m ''planId'') of Some p \<Rightarrow> p | None \<Rightarrow> ''standard'')"

datatype delivery_rejection = Not_signed | Malformed_signature | Too_old | Not_verified | Not_json

datatype billing_event =
    Subscription_changed id subscription
  | Subscription_ended id
  | Ignored
  | Rejected delivery_rejection

text \<open>What the processor is built from: the webhook secret, the keyed hash, and the reading of a delivery.\<close>

record stripe_config =
  sc_webhookSecret :: string
  sc_hmac :: "string \<Rightarrow> string \<Rightarrow> string"
  sc_parse :: "string \<Rightarrow> stripe_event option"

definition signature_parts :: "string \<Rightarrow> string list list" where
  "signature_parts header = map (\<lambda>p. split_on CHR ''='' (trim p)) (split_on CHR '','' header)"

definition header_timestamp :: "string \<Rightarrow> string option" where
  "header_timestamp header = Option.bind (List.find (\<lambda>p. hd p = ''t'') (signature_parts header)) second"

definition header_signatures :: "string \<Rightarrow> string list" where
  "header_signatures header =
     map (\<lambda>p. case second p of Some v \<Rightarrow> v | None \<Rightarrow> []) (filter (\<lambda>p. hd p = ''v1'') (signature_parts header))"

definition event_of :: "stripe_event \<Rightarrow> billing_event" where
  "event_of event =
     (case se_object event of
        None \<Rightarrow> Ignored
      | Some row \<Rightarrow>
          (case Option.bind (ss_metadata row) (\<lambda>m. map_of m ''reference'') of
             None \<Rightarrow> Ignored
           | Some reference \<Rightarrow>
               (if se_type event \<in> {Some ''customer.subscription.created'', Some ''customer.subscription.updated''}
                then Subscription_changed reference (toSubscription row (plan_of row))
                else if se_type event = Some ''customer.subscription.deleted'' then Subscription_ended reference
                else Ignored)))"

definition receive :: "stripe_config \<Rightarrow> time \<Rightarrow> string \<Rightarrow> string option \<Rightarrow> billing_event" where
  "receive cfg now raw signature =
     (case signature of
        None \<Rightarrow> Rejected Not_signed
      | Some header \<Rightarrow>
          (case header_timestamp header of
             None \<Rightarrow> Rejected Malformed_signature
           | Some timestamp \<Rightarrow>
               (if header_signatures header = [] then Rejected Malformed_signature
                else
                  (case js_number timestamp of
                     None \<Rightarrow> Rejected Too_old
                   | Some t \<Rightarrow>
                       (if MAX_SKEW_SECONDS < \<bar>of_int (now div 1000) - t\<bar> then Rejected Too_old
                        else if sc_hmac cfg (sc_webhookSecret cfg) (timestamp @ ''.'' @ raw) \<notin> set (header_signatures header)
                        then Rejected Not_verified
                        else (case sc_parse cfg raw of None \<Rightarrow> Rejected Not_json | Some event \<Rightarrow> event_of event))))))"

subsection \<open>Routes\<close>

datatype bill_error =
    Route workspace_error
  | Not_configured
  | Unauthorized
  | Has_plan entitlement_state
  | Nothing_to_cancel
  | Upstream

text \<open>What the webhook stores of a change.\<close>

definition webhook_status :: "subscription \<Rightarrow> subscription" where
  "webhook_status s = (if su_cancelAtPeriodEnd s \<and> su_status s = Sub_active then s\<lparr>su_status := Sub_cancelling\<rparr> else s)"

definition billing_webhook ::
  "bill_env \<Rightarrow> stripe_config \<Rightarrow> time \<Rightarrow> id \<Rightarrow> string \<Rightarrow> string option \<Rightarrow> bill_world \<Rightarrow> (bill_error + unit) \<times> bill_world" where
  "billing_webhook env cfg now newId raw signature w =
     (if \<not> be_processor env then (Inl Not_configured, w)
      else
        (case receive cfg now raw signature of
           Rejected _ \<Rightarrow> (Inl Unauthorized, w)
         | Ignored \<Rightarrow> (Inr (), w)
         | Subscription_changed reference sub \<Rightarrow>
             (Inr (), w\<lparr>bw_subs := subscription_record newId reference ''stripe'' (webhook_status sub) now (bw_subs w)\<rparr>)
         | Subscription_ended reference \<Rightarrow> (Inr (), w\<lparr>bw_subs := markEnded reference now (bw_subs w)\<rparr>)))"

text \<open>Ending a subscription: \<open>reply\<close> is the processor's answer, \<^const>\<open>None\<close> when it refuses.\<close>

definition cancel_subscription ::
  "bill_env \<Rightarrow> time \<Rightarrow> id \<Rightarrow> id \<Rightarrow> stripe_subscription option \<Rightarrow> bill_world \<Rightarrow> (bill_error + unit) \<times> bill_world" where
  "cancel_subscription env now newId ws reply w =
     (if \<not> be_processor env then (Inl Not_configured, w)
      else
        (case subscription_current ws (bw_subs w) of
           None \<Rightarrow> (Inl Nothing_to_cancel, w)
         | Some row \<Rightarrow>
             (case reply of
                None \<Rightarrow> (Inl Upstream, w)
              | Some answer \<Rightarrow>
                  (let updated = toSubscription answer (plan_of answer);
                       stored = (if su_cancelAtPeriodEnd updated then updated\<lparr>su_status := Sub_cancelling\<rparr> else updated)
                   in (Inr (), w\<lparr>bw_subs := subscription_record newId ws ''stripe'' stored now (bw_subs w)\<rparr>)))))"

definition start_trial :: "bill_env \<Rightarrow> principal \<Rightarrow> id \<Rightarrow> time \<Rightarrow> bill_world \<Rightarrow> (bill_error + unit) \<times> bill_world" where
  "start_trial env p ws now w =
     (let granted = en_state (entitlements env now ws w)
      in if granted \<noteq> No_plan then (Inl (Has_plan granted), w)
         else
           (case startTrial ws (actorIdOf p) TRIAL_DAYS now (ww_docs (bw_ws w)) of
              (None, docs) \<Rightarrow> (Inl (Has_plan Trial_ended), w\<lparr>bw_ws := (bw_ws w)\<lparr>ww_docs := docs\<rparr>\<rparr>)
            | (Some ends, docs) \<Rightarrow>
                (Inr (), w\<lparr>bw_ws := audited ws (actorIdOf p) ''billing.trial_started'' ws ((bw_ws w)\<lparr>ww_docs := docs\<rparr>)\<rparr>)))"

datatype bill_request =
    Webhook string "string option" id
  | Cancel_plan credentials id "stripe_subscription option" id
  | Start_trial credentials id
  | Workspace_request ws_request
  | Usage_recorded id id usage rat

definition for_manager ::
  "route_env \<Rightarrow> credentials \<Rightarrow> id \<Rightarrow> (principal \<Rightarrow> bill_world \<Rightarrow> (bill_error + unit) \<times> bill_world) \<Rightarrow> bill_world \<Rightarrow>
   (bill_error + unit) \<times> bill_world" where
  "for_manager renv creds ws handler w =
     (case workspaceRoute renv Workspace_manage creds ws (ww_docs (bw_ws w)) of Inl e \<Rightarrow> (Inl (Route e), w) | Inr p \<Rightarrow> handler p w)"

record platform =
  pf_bill :: bill_env
  pf_stripe :: stripe_config
  pf_route :: route_env

fun bill_serve :: "platform \<Rightarrow> time \<Rightarrow> bill_request \<Rightarrow> bill_world \<Rightarrow> (bill_error + unit) \<times> bill_world" where
  "bill_serve pf now (Webhook raw signature newId) w = billing_webhook (pf_bill pf) (pf_stripe pf) now newId raw signature w"
| "bill_serve pf now (Cancel_plan creds ws reply newId) w =
     for_manager (pf_route pf) creds ws (\<lambda>p. cancel_subscription (pf_bill pf) now newId ws reply) w"
| "bill_serve pf now (Start_trial creds ws) w = for_manager (pf_route pf) creds ws (\<lambda>p. start_trial (pf_bill pf) p ws now) w"
| "bill_serve pf now (Workspace_request req) w =
     (case serve (pf_route pf) now req (bw_ws w) of
        (Inl e, ws') \<Rightarrow> (Inl (Route e), w\<lparr>bw_ws := ws'\<rparr>)
      | (Inr _, ws') \<Rightarrow> (Inr (), w\<lparr>bw_ws := ws'\<rparr>))"
| "bill_serve pf now (Usage_recorded ws binding u cost) w =
     (Inr (), w\<lparr>bw_usage := record_usage ws binding u cost now (bw_usage w)\<rparr>)"

subsection \<open>When the gate opens\<close>

lemma iso_day_samples: "iso_day 0 = ''1970-01-01''" "iso_day 1709164800000 = ''2024-02-29''" "monthOf 1735689599999 = ''2024-12''"
  by code_simp+

lemma spend_gate_open_iff:
  "spendGate env now ws binding w = Open \<longleftrightarrow>
   (\<forall>d. workspace_by_id ws (ww_docs (bw_ws w)) = Some d \<and> 0 < wst_dailyCostCapUsd (wk_settings d) \<longrightarrow>
      spendOnDay ws (iso_day now) (bw_usage w) < wst_dailyCostCapUsd (wk_settings d)) \<and>
   en_active (entitlements env now ws w) \<and>
   (\<forall>cap. spendsIncludedAi ws binding w \<and> be_platformCap env = Some cap \<longrightarrow>
      spendInMonthByBindings ws (monthOf now) (platformBindingIds ws w) (bw_usage w) < cap) \<and>
   (\<forall>limits. en_limits (entitlements env now ws w) = Some limits \<longrightarrow>
      spendInMonth ws (monthOf now) (bw_usage w) < limits Limit_monthlyUsdCap)"
proof -
  have exempt: "en_unconfigured (entitlements env now ws w) \<Longrightarrow>
      en_active (entitlements env now ws w) \<and> en_limits (entitlements env now ws w) = None"
    by (auto simp: entitlements_def UNCONFIGURED_def NO_PLAN_def trialEntitlements_def entitlementsOf_def Let_def
        split: if_splits option.splits)
  then show ?thesis
    by (cases "workspace_by_id ws (ww_docs (bw_ws w))"; cases "be_platformCap env"; cases "en_limits (entitlements env now ws w)")
      (auto simp: spendGate_def plan_gate_def Let_def)
qed

subsection \<open>Trials\<close>

definition trial_of :: "id \<Rightarrow> workspace_doc list \<Rightarrow> trial option" where
  "trial_of ws docs = Option.bind (workspace_by_id ws docs) wk_trial"

lemma trial_of_update:
  assumes "\<And>d. wk_id (f d) = wk_id d" "\<And>d. wk_workspaceId (f d) = wk_workspaceId d" "\<And>d. wk_trial (f d) = wk_trial d"
  shows "trial_of ws (update_first P f docs) = trial_of ws docs"
proof (induction docs)
  case (Cons d docs)
  then show ?case using assms by (auto simp: trial_of_def workspace_by_id_def at_workspace_def)
qed simp

lemma trial_of_members [simp]:
  "trial_of ws (setMemberRole v u r now docs) = trial_of ws docs"
  "trial_of ws (removeMember v u now docs) = trial_of ws docs"
  "trial_of ws (createInvitation v i now docs) = trial_of ws docs"
  "trial_of ws (revokeInvitation v j now docs) = trial_of ws docs"
  "trial_of ws (workspace_rename v name now docs) = trial_of ws docs"
  "trial_of ws (updateSettings v cap runs effect now docs) = trial_of ws docs"
  by (simp_all add: setMemberRole_def removeMember_def createInvitation_def revokeInvitation_def workspace_rename_def
      updateSettings_def Let_def trial_of_update)

lemma trial_of_addMember: "addMember v m now docs = (r, docs') \<Longrightarrow> trial_of ws docs' = trial_of ws docs"
  by (auto simp: addMember_def trial_of_update split: option.splits if_splits)

lemma trial_of_create: "workspace_create i name slug u now docs = (r, docs') \<Longrightarrow> trial_of ws docs' = trial_of ws docs"
proof -
  assume c: "workspace_create i name slug u now docs = (r, docs')"
  have "find P (xs @ [x]) = (case find P xs of Some y \<Rightarrow> Some y | None \<Rightarrow> if P x then Some x else None)" for P xs and x :: workspace_doc
    by (induction xs) auto
  with c show ?thesis
    by (auto simp: workspace_create_def trial_of_def workspace_by_id_def new_workspace_def Let_def split: if_splits option.splits)
qed

lemma trial_of_accept: "acceptInvitation v i u now docs = (r, docs') \<Longrightarrow> trial_of ws docs' = trial_of ws docs"
proof -
  assume a: "acceptInvitation v i u now docs = (r, docs')"
  obtain r1 docs1 where m: "addMember v \<lparr>wm_userId = u, wm_role = iv_role i, wm_status = Active_member, wm_joinedAt = now,
      wm_invitedBy = Some (iv_invitedBy i)\<rparr> now docs = (r1, docs1)"
    by (metis surj_pair)
  from trial_of_addMember [OF m, of ws] a m show ?thesis by (auto simp: acceptInvitation_def split: sum.splits)
qed

lemma trial_of_serve: "serve env now req w = (r, w') \<Longrightarrow> trial_of ws (ww_docs w') = trial_of ws (ww_docs w)"
  by (cases req)
    (auto elim!: behind_cases patch_member_cases delete_member_cases invite_member_cases redeem_invitation_cases
      simp: withdraw_invitation_def patch_workspace_def trial_of_accept [of _ _ _ _ "ww_docs w" _ _ ws]
        trial_of_create [of _ _ _ _ _ "ww_docs w" _ _ ws] Let_def
      split: option.splits prod.splits sum.splits if_splits)

lemma trial_of_startTrial:
  assumes "startTrial v by_whom days now docs = (r, docs')"
  shows "trial_of ws docs' = trial_of ws docs \<or>
    ws = v \<and> trial_of ws docs = None \<and>
    trial_of ws docs' = Some \<lparr>tri_startedAt = now, tri_endsAt = now + days * 24 * 60 * 60 * 1000, tri_startedBy = by_whom\<rparr>"
proof -
  let ?P = "\<lambda>d. at_workspace v d \<and> wk_trial d = None"
  let ?t = "\<lparr>tri_startedAt = now, tri_endsAt = now + days * 24 * 60 * 60 * 1000, tri_startedBy = by_whom\<rparr>"
  let ?f = "\<lambda>d. d\<lparr>wk_trial := Some ?t, wk_updatedAt := now\<rparr>"
  have "trial_of ws (update_first ?P ?f xs) = trial_of ws xs \<or>
      ws = v \<and> trial_of ws xs = None \<and> trial_of ws (update_first ?P ?f xs) = Some ?t" for xs
    by (induction xs) (auto simp: trial_of_def workspace_by_id_def at_workspace_def)
  with assms show ?thesis by (auto simp: startTrial_def Let_def)
qed

text \<open>A request either leaves the trial of a workspace alone or is the one that starts it.\<close>

lemma trial_of_bill_serve:
  assumes "bill_serve pf now req w = (reply, w')"
  shows "trial_of ws (ww_docs (bw_ws w')) = trial_of ws (ww_docs (bw_ws w)) \<or>
    (\<exists>creds p. req = Start_trial creds ws \<and> workspaceRoute (pf_route pf) Workspace_manage creds ws (ww_docs (bw_ws w)) = Inr p \<and>
      trial_of ws (ww_docs (bw_ws w)) = None \<and>
      trial_of ws (ww_docs (bw_ws w')) = Some \<lparr>tri_startedAt = now, tri_endsAt = now + TRIAL_DAYS * DAY_MS, tri_startedBy = actorIdOf p\<rparr>)"
proof (cases req)
  case (Start_trial creds v)
  have days: "now + TRIAL_DAYS * 24 * 60 * 60 * 1000 = now + TRIAL_DAYS * DAY_MS" by (simp add: DAY_MS_def)
  from Start_trial assms have "w' = w \<or> (\<exists>p. workspaceRoute (pf_route pf) Workspace_manage creds v (ww_docs (bw_ws w)) = Inr p \<and>
      (w' = w \<or> (\<exists>r docs. startTrial v (actorIdOf p) TRIAL_DAYS now (ww_docs (bw_ws w)) = (r, docs) \<and> ww_docs (bw_ws w') = docs)))"
    by (auto simp: for_manager_def start_trial_def Let_def split: sum.splits prod.splits option.splits if_splits)
  then show ?thesis
    using trial_of_startTrial [of v _ TRIAL_DAYS now "ww_docs (bw_ws w)" _ _ ws] Start_trial unfolding days by auto
next
  case (Workspace_request r)
  obtain x ws' where "serve (pf_route pf) now r (bw_ws w) = (x, ws')" by (metis surj_pair)
  with Workspace_request assms trial_of_serve [OF this, of ws] show ?thesis by (auto split: sum.splits)
qed (use assms in \<open>auto simp: billing_webhook_def cancel_subscription_def for_manager_def Let_def
      split: if_splits billing_event.splits sum.splits option.splits\<close>)

subsection \<open>Access\<close>

definition live_status :: "sub_status \<Rightarrow> bool" where
  "live_status st \<longleftrightarrow> st \<in> {Sub_active, Sub_cancelling, Sub_past_due}"

definition paid :: "id \<Rightarrow> bill_world \<Rightarrow> bool" where
  "paid ws w = (case subscription_current ws (bw_subs w) of None \<Rightarrow> False | Some d \<Rightarrow> live_status (su_status (sd_sub d)))"

lemma active_iff:
  "en_active (entitlements env t ws w) \<longleftrightarrow>
   ws \<in> set (be_complimentary env) \<or> be_processor env \<and> paid ws w \<or>
   (\<exists>tr. trial_of ws (ww_docs (bw_ws w)) = Some tr \<and> t < tri_endsAt tr)"
  by (auto simp: entitlements_def paid_def trial_of_def UNCONFIGURED_def NO_PLAN_def entitlementsOf_def trialEntitlements_def
      live_status_def Let_def split: option.splits if_splits)

lemma find_update_first_if:
  assumes "\<And>x. P (f x) = P x"
  shows "find P (update_first P f xs) = map_option f (find P xs)"
  using assms by (induction xs) auto

lemma find_update_first_other:
  assumes "\<And>x. Q x \<Longrightarrow> \<not> P x \<and> \<not> P (f x)"
  shows "find P (update_first Q f xs) = find P xs"
  using assms by (induction xs) auto

lemma find_snoc: "find P (xs @ [x]) = (case find P xs of Some y \<Rightarrow> Some y | None \<Rightarrow> if P x then Some x else None)"
  by (induction xs) auto

lemma find_None_ex: "find P xs = None \<longleftrightarrow> \<not> list_ex P xs"
  by (induction xs) auto

lemma current_record:
  "map_option sd_sub (subscription_current ws (subscription_record i v proc sub now subs)) =
   (if ws = v then Some sub else map_option sd_sub (subscription_current ws subs))"
proof (cases "list_ex (\<lambda>d. sd_workspaceId d = v) subs")
  case True
  let ?P = "\<lambda>d :: subscription_doc. sd_workspaceId d = v"
  let ?f = "\<lambda>d. d\<lparr>sd_processor := proc, sd_sub := sub, sd_updatedAt := now\<rparr>"
  have same: "find ?P (update_first ?P ?f subs) = map_option ?f (find ?P subs)" by (rule find_update_first_if) simp
  have other: "find (\<lambda>d. sd_workspaceId d = ws) (update_first ?P ?f subs) = find (\<lambda>d. sd_workspaceId d = ws) subs" if "ws \<noteq> v"
    by (rule find_update_first_other) (use that in auto)
  from True have "find ?P subs \<noteq> None" by (simp add: find_None_ex)
  with True same other show ?thesis
    by (cases "ws = v") (auto simp: subscription_current_def subscription_record_def)
next
  case False
  then have "find (\<lambda>d. sd_workspaceId d = v) subs = None" by (simp add: find_None_ex)
  with False show ?thesis
    by (auto simp: subscription_current_def subscription_record_def find_snoc split: option.splits)
qed

lemma current_ended:
  "map_option sd_sub (subscription_current ws (markEnded v now subs)) =
   (if ws = v then map_option (\<lambda>d. (sd_sub d)\<lparr>su_status := Sub_ended\<rparr>) (subscription_current ws subs)
    else map_option sd_sub (subscription_current ws subs))"
proof (cases "ws = v")
  case True
  show ?thesis unfolding True subscription_current_def markEnded_def
    by (subst find_update_first_if) (auto simp: option.map_comp o_def)
next
  case False
  then show ?thesis unfolding subscription_current_def markEnded_def
    by (subst find_update_first_other) auto
qed

lemma paid_alt: "paid ws w = case_option False (\<lambda>sub. live_status (su_status sub)) (map_option sd_sub (subscription_current ws (bw_subs w)))"
  by (auto simp: paid_def split: option.splits)

lemma paid_record [simp]:
  "paid ws (w\<lparr>bw_subs := subscription_record i v proc sub now (bw_subs w)\<rparr>) =
   (if ws = v then live_status (su_status sub) else paid ws w)"
  by (simp add: paid_alt current_record)

lemma paid_ended [simp]: "paid ws (w\<lparr>bw_subs := markEnded v now (bw_subs w)\<rparr>) = (ws \<noteq> v \<and> paid ws w)"
proof -
  have "paid ws (w\<lparr>bw_subs := markEnded v now (bw_subs w)\<rparr>) =
      case_option False (\<lambda>sub. live_status (su_status sub)) (map_option sd_sub (subscription_current ws (markEnded v now (bw_subs w))))"
    by (simp add: paid_alt)
  then show ?thesis
    unfolding current_ended
    by (cases "subscription_current ws (bw_subs w)") (auto simp: live_status_def paid_def)
qed

lemma paid_same: "bw_subs w' = bw_subs w \<Longrightarrow> paid ws w' = paid ws w"
  by (simp add: paid_def)

text \<open>A delivery the processor signed: one of the header's signatures is the keyed hash of its time and its body, and the
  time is within five minutes of the clock.\<close>

definition authentic :: "stripe_config \<Rightarrow> time \<Rightarrow> string \<Rightarrow> string \<Rightarrow> bool" where
  "authentic cfg now raw header =
     (case header_timestamp header of
        None \<Rightarrow> False
      | Some ts \<Rightarrow> sc_hmac cfg (sc_webhookSecret cfg) (ts @ ''.'' @ raw) \<in> set (header_signatures header) \<and>
          (case js_number ts of None \<Rightarrow> False | Some t \<Rightarrow> \<bar>of_int (now div 1000) - t\<bar> \<le> 300))"

lemma receive_authentic:
  assumes "receive cfg now raw signature = event" "\<forall>r. event \<noteq> Rejected r"
  obtains header ev where "signature = Some header" "authentic cfg now raw header" "sc_parse cfg raw = Some ev" "event_of ev = event"
  using assms
  by (auto simp: receive_def authentic_def MAX_SKEW_SECONDS_def split: option.splits if_splits)

lemma paid_granted:
  assumes "bill_serve pf now req w = (reply, w')" "\<not> paid ws w" "paid ws w'"
  shows "(\<exists>raw header newId ev sub. req = Webhook raw (Some header) newId \<and> authentic (pf_stripe pf) now raw header \<and>
      sc_parse (pf_stripe pf) raw = Some ev \<and> event_of ev = Subscription_changed ws sub) \<or>
    (\<exists>creds answer newId p. req = Cancel_plan creds ws (Some answer) newId \<and>
      workspaceRoute (pf_route pf) Workspace_manage creds ws (ww_docs (bw_ws w)) = Inr p)"
proof (cases req)
  case (Webhook raw signature newId)
  define event where "event = receive (pf_stripe pf) now raw signature"
  have "\<exists>sub. event = Subscription_changed ws sub"
    using assms Webhook by (cases event) (auto simp: billing_webhook_def event_def split: if_splits)
  then obtain sub where sub: "event = Subscription_changed ws sub" by blast
  then obtain header ev where "signature = Some header" "authentic (pf_stripe pf) now raw header"
    "sc_parse (pf_stripe pf) raw = Some ev" "event_of ev = event"
    using receive_authentic [of "pf_stripe pf" now raw signature event] by (auto simp: event_def)
  with Webhook sub show ?thesis by blast
next
  case (Cancel_plan creds v answer newId)
  with assms show ?thesis
    by (auto simp: for_manager_def cancel_subscription_def Let_def split: sum.splits if_splits option.splits)
next
  case (Start_trial creds v)
  with assms show ?thesis
    by (auto simp: for_manager_def start_trial_def paid_def Let_def split: sum.splits if_splits option.splits prod.splits)
next
  case (Workspace_request r)
  with assms show ?thesis by (auto simp: paid_def split: sum.splits prod.splits)
next
  case (Usage_recorded v binding u cost)
  with assms show ?thesis by (auto simp: paid_def)
qed

text \<open>
  C23. Who may use the platform. A workspace that had no access and has it after a request got it in one of three ways: the
  payment processor reported a change of its subscription in a delivery that is signed with the webhook secret over
  its time and body, and fresh; a manager of the workspace ended a subscription and the processor's answer is what was
  stored; or a manager started the free trial, which had never been started, and then only for ten days from that
  moment. No other request, and no unsigned delivery, grants access.
\<close>

theorem access_granted_by:
  assumes "bill_serve pf now req w = (reply, w')"
    "\<not> en_active (entitlements (pf_bill pf) t ws w)" "en_active (entitlements (pf_bill pf) t ws w')"
  shows "(\<exists>raw header newId ev sub. req = Webhook raw (Some header) newId \<and> authentic (pf_stripe pf) now raw header \<and>
      sc_parse (pf_stripe pf) raw = Some ev \<and> event_of ev = Subscription_changed ws sub) \<or>
    (\<exists>creds answer newId p. req = Cancel_plan creds ws (Some answer) newId \<and>
      workspaceRoute (pf_route pf) Workspace_manage creds ws (ww_docs (bw_ws w)) = Inr p \<and> hasPermission p Workspace_manage) \<or>
    (\<exists>creds p. req = Start_trial creds ws \<and>
      workspaceRoute (pf_route pf) Workspace_manage creds ws (ww_docs (bw_ws w)) = Inr p \<and> hasPermission p Workspace_manage \<and>
      trial_of ws (ww_docs (bw_ws w)) = None \<and> t < now + TRIAL_DAYS * DAY_MS)"
proof -
  have perm: "hasPermission p Workspace_manage" if "workspaceRoute (pf_route pf) Workspace_manage creds ws docs = Inr p" for p creds docs
    using that by (auto simp: workspaceRoute_def requirePermission_def split: sum.splits if_splits)
  show ?thesis
  proof (cases "trial_of ws (ww_docs (bw_ws w')) = trial_of ws (ww_docs (bw_ws w))")
    case False
    with trial_of_bill_serve [OF assms(1), of ws] obtain creds p where s: "req = Start_trial creds ws"
      "workspaceRoute (pf_route pf) Workspace_manage creds ws (ww_docs (bw_ws w)) = Inr p"
      "trial_of ws (ww_docs (bw_ws w)) = None"
      "trial_of ws (ww_docs (bw_ws w')) = Some \<lparr>tri_startedAt = now, tri_endsAt = now + TRIAL_DAYS * DAY_MS, tri_startedBy = actorIdOf p\<rparr>"
      by auto
    have "bw_subs w' = bw_subs w"
      using s(1) assms(1) by (auto simp: for_manager_def start_trial_def Let_def split: sum.splits prod.splits option.splits if_splits)
    then have "paid ws w' = paid ws w" by (simp add: paid_def)
    with assms(2,3) s(3,4) have "t < now + TRIAL_DAYS * DAY_MS" unfolding active_iff by auto
    with s perm [OF s(2)] show ?thesis by blast
  next
    case True
    with assms(2,3) have "\<not> paid ws w" "paid ws w'" unfolding active_iff by auto
    from paid_granted [OF assms(1) this] show ?thesis
    proof (elim disjE)
      assume "\<exists>creds answer newId p. req = Cancel_plan creds ws (Some answer) newId \<and>
        workspaceRoute (pf_route pf) Workspace_manage creds ws (ww_docs (bw_ws w)) = Inr p"
      then obtain creds answer newId p where c: "req = Cancel_plan creds ws (Some answer) newId"
        "workspaceRoute (pf_route pf) Workspace_manage creds ws (ww_docs (bw_ws w)) = Inr p" by blast
      with perm [OF c(2)] show ?thesis by auto
    qed (rule disjI1)
  qed
qed

definition bill_run :: "platform \<Rightarrow> (time \<times> bill_request) list \<Rightarrow> bill_world \<Rightarrow> bill_world" where
  "bill_run pf reqs w = foldl (\<lambda>w (now, req). snd (bill_serve pf now req w)) w reqs"

lemma trial_of_run: "trial_of ws (ww_docs (bw_ws w)) = Some tr \<Longrightarrow> trial_of ws (ww_docs (bw_ws (bill_run pf reqs w))) = Some tr"
proof (induction reqs arbitrary: w)
  case (Cons r reqs)
  obtain now req where r: "r = (now, req)" by (metis surj_pair)
  obtain reply w' where s: "bill_serve pf now req w = (reply, w')" by (metis surj_pair)
  from trial_of_bill_serve [OF s, of ws] Cons.prems have "trial_of ws (ww_docs (bw_ws w')) = Some tr" by auto
  from Cons.IH [OF this] r s show ?case by (simp add: bill_run_def)
qed (simp add: bill_run_def)

text \<open>
  A free trial is had once and ends. Once a workspace has had its trial recorded, no sequence of requests, whoever
  sends them and however often, moves, renews or removes it; and from its end on the workspace is active only if the
  operator exempts it or the processor's last word on its subscription is a live one.
\<close>

theorem trial_once:
  assumes "trial_of ws (ww_docs (bw_ws w)) = Some tr" "w' = bill_run pf reqs w"
  shows "trial_of ws (ww_docs (bw_ws w')) = Some tr \<and>
    (tri_endsAt tr \<le> t \<and> en_active (entitlements (pf_bill pf) t ws w') \<longrightarrow>
      ws \<in> set (be_complimentary (pf_bill pf)) \<or> be_processor (pf_bill pf) \<and> paid ws w')"
  using trial_of_run [OF assms(1), of pf reqs] by (auto simp: assms(2) active_iff)

text \<open>
  A deletion is taken for the deletion of whatever is there. The processor's message that a subscription has ended
  names that subscription, but the handler looks only at the workspace: if the workspace has since taken out another
  one, the late message ends the new one, and without a running trial the workspace loses its access.
\<close>

theorem late_deletion_ends_successor:
  assumes "authentic (pf_stripe pf) now raw header" "sc_parse (pf_stripe pf) raw = Some ev" "event_of ev = Subscription_ended ws"
    "map_option ss_id (se_object ev) = Some old" "subscription_current ws (bw_subs w) = Some d"
    "su_externalId (sd_sub d) \<noteq> old" "be_processor (pf_bill pf)" "ws \<notin> set (be_complimentary (pf_bill pf))"
    "trial_of ws (ww_docs (bw_ws w)) = None"
  shows "\<exists>w' d'. bill_serve pf now (Webhook raw (Some header) newId) w = (Inr (), w') \<and>
    subscription_current ws (bw_subs w') = Some d' \<and> sd_sub d' = (sd_sub d)\<lparr>su_status := Sub_ended\<rparr> \<and>
    \<not> en_active (entitlements (pf_bill pf) t ws w')"
proof -
  have "receive (pf_stripe pf) now raw (Some header) = Subscription_ended ws"
    using assms(1-3) by (auto simp: receive_def authentic_def MAX_SKEW_SECONDS_def split: option.splits)
  with assms(7) have s: "bill_serve pf now (Webhook raw (Some header) newId) w = (Inr (), w\<lparr>bw_subs := markEnded ws now (bw_subs w)\<rparr>)"
    by (simp add: billing_webhook_def)
  have "map_option sd_sub (subscription_current ws (markEnded ws now (bw_subs w))) = Some ((sd_sub d)\<lparr>su_status := Sub_ended\<rparr>)"
    unfolding current_ended using assms(5) by simp
  then obtain d' where "subscription_current ws (markEnded ws now (bw_subs w)) = Some d'" "sd_sub d' = (sd_sub d)\<lparr>su_status := Sub_ended\<rparr>"
    by auto
  with s assms(8,9) show ?thesis by (auto simp: active_iff)
qed

subsection \<open>A sample deployment\<close>

text \<open>Two subscriptions of one workspace, one after the other, and the deletion of the first.\<close>

definition stripe_row :: "string \<Rightarrow> stripe_subscription" where
  "stripe_row i = \<lparr>ss_id = i, ss_status = ''active'', ss_cancel_at_period_end = None, ss_current_period_end = Some 9000,
     ss_metadata = Some [(''reference'', ''w1''), (''planId'', ''standard'')]\<rparr>"

definition sample_parse :: "string \<Rightarrow> stripe_event option" where
  "sample_parse raw =
     (if raw = ''a'' then Some \<lparr>se_type = Some ''customer.subscription.created'', se_object = Some (stripe_row ''sub_A'')\<rparr>
      else if raw = ''b'' then Some \<lparr>se_type = Some ''customer.subscription.created'', se_object = Some (stripe_row ''sub_B'')\<rparr>
      else if raw = ''c'' then Some \<lparr>se_type = Some ''customer.subscription.deleted'', se_object = Some (stripe_row ''sub_A'')\<rparr>
      else None)"

definition sample_platform :: platform where
  "sample_platform = \<lparr>pf_bill = \<lparr>be_complimentary = [], be_processor = True, be_platformCap = None\<rparr>,
     pf_stripe = \<lparr>sc_webhookSecret = ''k'', sc_hmac = (\<lambda>secret m. secret @ m), sc_parse = sample_parse\<rparr>, pf_route = sample_routes\<rparr>"

definition no_billing :: bill_world where
  "no_billing = \<lparr>bw_ws = \<lparr>ww_docs = [], ww_audit = []\<rparr>, bw_subs = [], bw_usage = [], bw_providers = [], bw_bindings = []\<rparr>"

definition one_workspace :: bill_world where
  "one_workspace = snd (bill_serve sample_platform 0 (Workspace_request (Create_workspace (Some ''ann'') ''w1'' ''Home'' ''home'')) no_billing)"

theorem access_granted_by_witness:
  "authentic (pf_stripe sample_platform) 5000 ''a'' ''t=5,v1=k5.a'' \<and>
   \<not> en_active (entitlements (pf_bill sample_platform) 5000 ''w1'' one_workspace) \<and>
   en_active (entitlements (pf_bill sample_platform) 5000 ''w1''
     (snd (bill_serve sample_platform 5000 (Webhook ''a'' (Some ''t=5,v1=k5.a'') ''s1'') one_workspace)))"
proof -
  let ?req = "Webhook ''a'' (Some ''t=5,v1=k5.a'') ''s1''"
  obtain reply w' where s: "bill_serve sample_platform 5000 ?req one_workspace = (reply, w')" by (metis surj_pair)
  have no: "\<not> en_active (entitlements (pf_bill sample_platform) 5000 ''w1'' one_workspace)" by code_simp
  have "en_active (entitlements (pf_bill sample_platform) 5000 ''w1'' (snd (bill_serve sample_platform 5000 ?req one_workspace)))"
    by code_simp
  then have yes: "en_active (entitlements (pf_bill sample_platform) 5000 ''w1'' w')" by (simp only: s snd_conv)
  from access_granted_by [OF s no yes] no yes s show ?thesis by auto
qed

theorem trial_once_witness:
  "trial_of ''w1'' (ww_docs (bw_ws (bill_run sample_platform
      [(9, Start_trial (None, Some ''ann'') ''w1''), (9000000000, Start_trial (None, Some ''ann'') ''w1'')] one_workspace))) =
     Some \<lparr>tri_startedAt = 9, tri_endsAt = 864000009, tri_startedBy = ''ann''\<rparr> \<and>
   \<not> en_active (entitlements (pf_bill sample_platform) 9000000000 ''w1'' (bill_run sample_platform
      [(9, Start_trial (None, Some ''ann'') ''w1''), (9000000000, Start_trial (None, Some ''ann'') ''w1'')] one_workspace))"
proof -
  let ?w = "bill_run sample_platform [(9, Start_trial (None, Some ''ann'') ''w1'')] one_workspace"
  let ?w' = "bill_run sample_platform [(9000000000, Start_trial (None, Some ''ann'') ''w1'')] ?w"
  have "trial_of ''w1'' (ww_docs (bw_ws ?w)) = Some \<lparr>tri_startedAt = 9, tri_endsAt = 864000009, tri_startedBy = ''ann''\<rparr>" by code_simp
  note once = trial_once [OF this refl [of ?w'], of 9000000000]
  have "\<not> paid ''w1'' ?w'" "''w1'' \<notin> set (be_complimentary (pf_bill sample_platform))" by code_simp+
  with once have "trial_of ''w1'' (ww_docs (bw_ws ?w')) = Some \<lparr>tri_startedAt = 9, tri_endsAt = 864000009, tri_startedBy = ''ann''\<rparr> \<and>
      \<not> en_active (entitlements (pf_bill sample_platform) 9000000000 ''w1'' ?w')" by auto
  then show ?thesis by (simp add: bill_run_def)
qed

theorem late_deletion_ends_successor_witness:
  "\<exists>w w'. w = bill_run sample_platform [(5000, Webhook ''a'' (Some ''t=5,v1=k5.a'') ''s1''),
      (6000, Webhook ''b'' (Some ''t=6,v1=k6.b'') ''s2'')] one_workspace \<and>
     en_active (entitlements (pf_bill sample_platform) 7000 ''w1'' w) \<and>
     bill_serve sample_platform 7000 (Webhook ''c'' (Some ''t=7,v1=k7.c'') ''s3'') w = (Inr (), w') \<and>
     \<not> en_active (entitlements (pf_bill sample_platform) 7000 ''w1'' w')"
proof -
  let ?w = "bill_run sample_platform [(5000, Webhook ''a'' (Some ''t=5,v1=k5.a'') ''s1''),
      (6000, Webhook ''b'' (Some ''t=6,v1=k6.b'') ''s2'')] one_workspace"
  have facts: "authentic (pf_stripe sample_platform) 7000 ''c'' ''t=7,v1=k7.c''"
    "event_of \<lparr>se_type = Some ''customer.subscription.deleted'', se_object = Some (stripe_row ''sub_A'')\<rparr> = Subscription_ended ''w1''"
    "subscription_current ''w1'' (bw_subs ?w) = Some (hd (bw_subs ?w))" "su_externalId (sd_sub (hd (bw_subs ?w))) \<noteq> ''sub_A''"
    "be_processor (pf_bill sample_platform)" "''w1'' \<notin> set (be_complimentary (pf_bill sample_platform))"
    "trial_of ''w1'' (ww_docs (bw_ws ?w)) = None" "en_active (entitlements (pf_bill sample_platform) 7000 ''w1'' ?w)"
    by code_simp+
  have ev: "sc_parse (pf_stripe sample_platform) ''c'' = Some \<lparr>se_type = Some ''customer.subscription.deleted'', se_object = Some (stripe_row ''sub_A'')\<rparr>"
    by (simp add: sample_platform_def sample_parse_def)
  have old: "map_option ss_id (se_object \<lparr>se_type = Some ''customer.subscription.deleted'', se_object = Some (stripe_row ''sub_A'')\<rparr>) = Some ''sub_A''"
    by (simp add: stripe_row_def)
  from late_deletion_ends_successor [OF facts(1) ev facts(2) old facts(3-7), of "''s3''" 7000] facts(8) show ?thesis by blast
qed

end
