(* ===== verification/Run_Starts.thy ===== *)
theory Run_Starts
  imports Billing Run_Store Mcp_Binding Tool_Names
begin

text \<open>
  How a run comes to be: a message a person sends (\<^verbatim>\<open>apps/web/src/lib/send-message.ts\<close>), with what every starter of runs
  shares: the agent's current version pinned onto the run (\<^verbatim>\<open>agent-snapshot.ts\<close>), the model it runs on
  (\<^verbatim>\<open>agent-model.ts\<close>), conversations and messages with a caller's key (\<^verbatim>\<open>repositories/conversations.ts\<close>), the gate of
  \<open>Billing\<close> and the queue of \<open>Run_Queue\<close>.

  The counters and the log of a conversation are in the run store's world; what it was created with is its head. Fresh
  ids, the hash behind a derived message id and the visible tool servers are arguments. Waking the executor never
  fails the caller and changes nothing here.
\<close>

subsection \<open>Agents and conversations\<close>

record agent_version =
  av_versionId :: id
  av_version :: int
  av_systemPrompt :: string
  av_modelRole :: string
  av_capabilityBindings :: "agent_capability_binding list"
  av_maxToolCallsPerTurn :: int

record agent_doc =
  ag_id :: id
  ag_workspaceId :: id
  ag_name :: string
  ag_modelBindingId :: "id option"
  ag_currentVersion :: agent_version
  ag_isArchived :: bool

record conv_head =
  ch_id :: id
  ch_workspaceId :: id
  ch_agentId :: id
  ch_modelBindingId :: id
  ch_title :: "string option"
  ch_channelId :: "id option"
  ch_externalRef :: "string option"

record start_world =
  sw_bill :: bill_world
  sw_store :: world
  sw_heads :: "conv_head list"
  sw_agents :: "agent_doc list"
  sw_mcp :: "binding_doc list"

record start_env =
  se_bill :: bill_env
  se_sha :: "string \<Rightarrow> string"
  se_servers :: "id \<Rightarrow> id \<Rightarrow> server_record option"

datatype start_error =
    No_conversation
  | No_agent
  | No_binding
  | No_model
  | Spend_refused refusal bool
  | Duplicate_conversation
  | Conversation_gone id
  | Duplicate_message id
  | Run_refused create_error

record fresh_ids =
  fi_conversation :: id
  fi_message :: id
  fi_run :: id

definition agent_by_id :: "id \<Rightarrow> id \<Rightarrow> start_world \<Rightarrow> agent_doc option" where
  "agent_by_id ws i w = List.find (\<lambda>a. ag_workspaceId a = ws \<and> ag_id a = i) (sw_agents w)"

definition head_by_id :: "id \<Rightarrow> id \<Rightarrow> start_world \<Rightarrow> conv_head option" where
  "head_by_id ws i w = List.find (\<lambda>c. ch_workspaceId c = ws \<and> ch_id c = i) (sw_heads w)"

text \<open>
  The unique index over a conversation's channel and outside reference covers conversations with neither: both fields are
  written as null, and a sparse index leaves out only documents that lack the fields.
\<close>

definition ref_taken :: "conv_head \<Rightarrow> conv_head list \<Rightarrow> bool" where
  "ref_taken head heads = list_ex (\<lambda>c. ch_channelId c = ch_channelId head \<and> ch_externalRef c = ch_externalRef head) heads"

definition conversation_create :: "conv_head \<Rightarrow> time \<Rightarrow> start_world \<Rightarrow> start_world option" where
  "conversation_create head now w =
     (if ref_taken head (sw_heads w) then None
      else Some (w\<lparr>sw_heads := sw_heads w @ [head],
        sw_store := (sw_store w)\<lparr>w_convs := w_convs (sw_store w) @
          [\<lparr>cv_id = ch_id head, cv_nextSeq = 1, cv_messageCount = 0, cv_lastMessage = None, cv_updatedAt = now\<rparr>]\<rparr>\<rparr>))"

definition setModelBinding :: "id \<Rightarrow> id \<Rightarrow> id \<Rightarrow> start_world \<Rightarrow> start_world" where
  "setModelBinding ws convId binding w =
     w\<lparr>sw_heads := update_first (\<lambda>c. ch_workspaceId c = ws \<and> ch_id c = convId) (\<lambda>c. c\<lparr>ch_modelBindingId := binding\<rparr>) (sw_heads w)\<rparr>"

definition messageId :: "(string \<Rightarrow> string) \<Rightarrow> id \<Rightarrow> id \<Rightarrow> string option \<Rightarrow> id" where
  "messageId sha newId convId key =
     (case key of None \<Rightarrow> newId | Some k \<Rightarrow> ''msg_'' @ take 32 (sha (convId @ ''|'' @ k)))"

text \<open>\<^verbatim>\<open>appendMessage\<close> of a caller with a key: the number is taken first; an id that is already in the log refuses the rest.\<close>

definition append_keyed ::
  "(string \<Rightarrow> string) \<Rightarrow> id \<Rightarrow> id \<Rightarrow> string option \<Rightarrow> time \<Rightarrow> append_message \<Rightarrow> start_world \<Rightarrow> (start_error + message) \<times> start_world" where
  "append_keyed sha newId convId key now m w =
     (let i = messageId sha newId convId key; st = sw_store w
      in if i \<in> set (map (msg_id \<circ> snd) (w_messages st)) then
           (case allocateSeq convId st of
              (None, st') \<Rightarrow> (Inl (Conversation_gone convId), w\<lparr>sw_store := st'\<rparr>)
            | (Some _, st') \<Rightarrow> (Inl (Duplicate_message i), w\<lparr>sw_store := st'\<rparr>))
         else
           (case repo_appendMessage i convId None now m st of
              (None, st') \<Rightarrow> (Inl (Conversation_gone convId), w\<lparr>sw_store := st'\<rparr>)
            | (Some doc, st') \<Rightarrow> (Inr doc, w\<lparr>sw_store := st'\<rparr>)))"

definition user_text :: "string \<Rightarrow> append_message" where
  "user_text body = \<lparr>am_role = Role_user, am_content = [Text body], am_artifacts = None, am_tokenEstimate = None\<rparr>"

subsection \<open>What is pinned on a run\<close>

definition whole_binding :: "id \<Rightarrow> agent_capability_binding" where
  "whole_binding i = \<lparr>acb_bindingId = i, acb_mode = All_tools, acb_tools = []\<rparr>"

definition agentSnapshotFor :: "(id \<Rightarrow> server_record option) \<Rightarrow> id \<Rightarrow> id \<Rightarrow> binding_doc list \<Rightarrow> agent_version \<Rightarrow> agent_version" where
  "agentSnapshotFor serverById ws agentId docs v =
     (if av_capabilityBindings v \<noteq> [] then
        (let named = map acb_bindingId (av_capabilityBindings v);
             missing = filter (\<lambda>i. i \<notin> set named) (map (bd_id \<circ> fst) firstPartyBindings)
         in if missing = [] then v
            else v\<lparr>av_capabilityBindings := av_capabilityBindings v @ map whole_binding missing\<rparr>)
      else v\<lparr>av_capabilityBindings := map (\<lambda>(b, s). whole_binding (bd_id b)) (listEnabled ws (Some agentId) serverById docs)\<rparr>)"

fun mode_name :: "binding_mode \<Rightarrow> string" where
  "mode_name All_tools = ''all''"
| "mode_name Allow_listed = ''allow''"
| "mode_name Deny_listed = ''deny''"

definition snapshot_json :: "agent_version \<Rightarrow> jsv" where
  "snapshot_json v = JObj
     [(''versionId'', JStr (av_versionId v)), (''version'', JNum (av_version v)), (''systemPrompt'', JStr (av_systemPrompt v)),
      (''modelRole'', JStr (av_modelRole v)),
      (''capabilityBindings'', JArr (map (\<lambda>b. JObj [(''bindingId'', JStr (acb_bindingId b)), (''mode'', JStr (mode_name (acb_mode b))),
         (''tools'', JArr (map JStr (acb_tools b)))]) (av_capabilityBindings v))),
      (''guardrails'', JObj [(''maxToolCallsPerTurn'', JNum (av_maxToolCallsPerTurn v))])]"

definition modelForAgent :: "id \<Rightarrow> agent_doc \<Rightarrow> binding_row list \<Rightarrow> binding_row option" where
  "modelForAgent ws agent bindings =
     (case Option.bind (ag_modelBindingId agent) (\<lambda>i. binding_by_id ws i bindings) of
        Some chosen \<Rightarrow> if mb_enabled chosen then Some chosen else forRole ws (av_modelRole (ag_currentVersion agent)) bindings
      | None \<Rightarrow> forRole ws (av_modelRole (ag_currentVersion agent)) bindings)"

definition run_create :: "id \<Rightarrow> id \<Rightarrow> time \<Rightarrow> create_run_input \<Rightarrow> start_world \<Rightarrow> (start_error + run_doc) \<times> start_world" where
  "run_create newId ws now inp w =
     (let st = sw_store w; db = w_db st
      in case create newId ws now inp (db_runs db) (db_runs db) of
           (Inl e, docs) \<Rightarrow> (Inl (Run_refused e), w)
         | (Inr run, docs) \<Rightarrow> (Inr run, w\<lparr>sw_store := st\<lparr>w_db := db\<lparr>db_runs := docs\<rparr>\<rparr>\<rparr>))"

text \<open>The input of \<^verbatim>\<open>runs.create\<close> that the starters build.\<close>

definition run_input ::
  "start_env \<Rightarrow> id \<Rightarrow> id \<Rightarrow> agent_doc \<Rightarrow> id \<Rightarrow> string \<times> string option \<Rightarrow> principal \<Rightarrow> run_budget \<Rightarrow> string option \<Rightarrow> start_world \<Rightarrow> create_run_input" where
  "run_input env ws convId agent binding trigger p budget key w =
     \<lparr>cri_conversationId = convId, cri_agentId = ag_id agent, cri_agentVersionId = av_versionId (ag_currentVersion agent),
      cri_agentSnapshot = snapshot_json (agentSnapshotFor (se_servers env ws) ws (ag_id agent) (sw_mcp w) (ag_currentVersion agent)),
      cri_modelBindingId = binding, cri_trigger = trigger, cri_principal = p, cri_budget = budget, cri_idempotencyKey = key,
      cri_parentRunId = None, cri_depth = None, cri_priority = None\<rparr>"

subsection \<open>Sending a message\<close>

definition usable :: "id \<Rightarrow> binding_row list \<Rightarrow> id option \<Rightarrow> id option" where
  "usable ws bindings i =
     (case Option.bind i (\<lambda>b. binding_by_id ws b bindings) of
        None \<Rightarrow> None
      | Some binding \<Rightarrow> if mb_enabled binding then Some (mb_id binding) else None)"

definition first_some :: "'a option list \<Rightarrow> 'a option" where
  "first_some xs = (case List.find (\<lambda>x. x \<noteq> None) xs of None \<Rightarrow> None | Some x \<Rightarrow> x)"

definition usableModel :: "id \<Rightarrow> id \<Rightarrow> id option \<Rightarrow> id \<Rightarrow> agent_doc \<Rightarrow> start_world \<Rightarrow> (start_error + id) \<times> start_world" where
  "usableModel ws convId requested pinned agent w =
     (let bs = bw_bindings (sw_bill w)
      in case first_some [usable ws bs requested, usable ws bs (ag_modelBindingId agent), usable ws bs (Some pinned),
             map_option mb_id (forRole ws (av_modelRole (ag_currentVersion agent)) bs)] of
           None \<Rightarrow> (Inl No_model, w)
         | Some best \<Rightarrow> (Inr best, if best \<noteq> pinned then setModelBinding ws convId best w else w))"

definition latest_run :: "id \<Rightarrow> id \<Rightarrow> runs \<Rightarrow> run_doc option" where
  "latest_run ws convId docs =
     (case sort_key (\<lambda>d. - rd_queuedAt d) (filter (\<lambda>d. rd_workspaceId d = ws \<and> rd_conversationId d = convId) docs) of
        [] \<Rightarrow> None | d # _ \<Rightarrow> Some d)"

definition supersedeWaitingRun :: "id \<Rightarrow> id \<Rightarrow> principal \<Rightarrow> time \<Rightarrow> start_world \<Rightarrow> start_world" where
  "supersedeWaitingRun ws convId p now w =
     (let st = sw_store w; db = w_db st
      in case latest_run ws convId (db_runs db) of
           None \<Rightarrow> w
         | Some latest \<Rightarrow>
             (if \<not> isSuspended (rd_status latest) then w
              else
                (let db1 = (case pendingApprovalForRun ws (rd_id latest) db of
                       None \<Rightarrow> db
                     | Some waiting \<Rightarrow> fst (decideApproval ws (ap_id waiting) Deny_it (actorIdOf p) None now db))
                 in w\<lparr>sw_store := st\<lparr>w_db := db1\<lparr>db_runs := fst (cancel ws (rd_id latest) now (db_runs db1))\<rparr>\<rparr>\<rparr>)))"

record send_input =
  si_content :: string
  si_modelBindingId :: "id option"
  si_budget :: "budget_request option"
  si_idempotencyKey :: "string option"

text \<open>From the gate on: nothing is written before it opens.\<close>

definition send_gated ::
  "start_env \<Rightarrow> fresh_ids \<Rightarrow> id \<Rightarrow> principal \<Rightarrow> id \<Rightarrow> agent_doc \<Rightarrow> id \<Rightarrow> send_input \<Rightarrow> time \<Rightarrow> start_world \<Rightarrow> (start_error + run_doc) \<times> start_world" where
  "send_gated env ids ws p convId agent model inp now w =
     (case spendGate (se_bill env) now ws None (sw_bill w) of
        Refused why pay \<Rightarrow> (Inl (Spend_refused why pay), w)
      | Open \<Rightarrow>
          (case append_keyed (se_sha env) (fi_message ids) convId (si_idempotencyKey inp) now (user_text (si_content inp))
                  (supersedeWaitingRun ws convId p now w) of
             (Inl e, w1) \<Rightarrow> (Inl e, w1)
           | (Inr _, w1) \<Rightarrow>
               run_create (fi_run ids) ws now
                 (run_input env ws convId agent model (''user'', Some (actorIdOf p)) p (clampBudget (si_budget inp) DEFAULT_BUDGET)
                   (si_idempotencyKey inp) w1) w1))"

definition sendUserMessage ::
  "start_env \<Rightarrow> fresh_ids \<Rightarrow> id \<Rightarrow> principal \<Rightarrow> id \<Rightarrow> send_input \<Rightarrow> time \<Rightarrow> start_world \<Rightarrow> (start_error + run_doc) \<times> start_world" where
  "sendUserMessage env ids ws p convId inp now w =
     (case head_by_id ws convId w of
        None \<Rightarrow> (Inl No_conversation, w)
      | Some conversation \<Rightarrow>
          (case agent_by_id ws (ch_agentId conversation) w of
             None \<Rightarrow> (Inl No_agent, w)
           | Some agent \<Rightarrow>
               (let switching = si_modelBindingId inp \<noteq> None \<and> si_modelBindingId inp \<noteq> Some (ch_modelBindingId conversation);
                    wanted = Option.bind (si_modelBindingId inp) (\<lambda>b. binding_by_id ws b (bw_bindings (sw_bill w)))
                in if switching \<and> wanted = None then (Inl No_binding, w)
                   else
                     (let w0 = (if switching then setModelBinding ws convId (the (si_modelBindingId inp)) w else w)
                      in case usableModel ws convId (si_modelBindingId inp) (ch_modelBindingId conversation) agent w0 of
                           (Inl e, w1) \<Rightarrow> (Inl e, w1)
                         | (Inr model, w1) \<Rightarrow> send_gated env ids ws p convId agent model inp now w1))))"

subsection \<open>What a started run is\<close>

lemma run_create_cases:
  assumes "run_create newId ws now inp w = (Inr run, w')"
  obtains (old) k where "cri_idempotencyKey inp = Some k" "run \<in> set (db_runs (w_db (sw_store w)))" "rd_workspaceId run = ws"
      "rd_idempotencyKey run = Some k" "db_runs (w_db (sw_store w')) = db_runs (w_db (sw_store w))"
  | (new) "run = new_run newId ws now inp" "db_runs (w_db (sw_store w')) = db_runs (w_db (sw_store w)) @ [run]"
proof -
  let ?docs = "db_runs (w_db (sw_store w))"
  have key: "d \<in> set ?docs \<and> rd_workspaceId d = ws \<and> rd_idempotencyKey d = Some k" if "find_by_key ws k ?docs = Some d" for d k
    using that by (auto simp: find_by_key_def find_Some_iff in_set_conv_nth)
  obtain r docs where c: "create newId ws now inp ?docs ?docs = (r, docs)" by (metis surj_pair)
  with assms have r: "r = Inr run" "db_runs (w_db (sw_store w')) = docs"
    by (auto simp: run_create_def Let_def split: sum.splits)
  show thesis
  proof (cases "Option.bind (cri_idempotencyKey inp) (\<lambda>k. find_by_key ws k ?docs)")
    case None
    with c r show thesis by (intro new) (auto simp: create_def Let_def split: if_splits)
  next
    case (Some d)
    then obtain k where k: "cri_idempotencyKey inp = Some k" "find_by_key ws k ?docs = Some d" by (cases "cri_idempotencyKey inp") auto
    with c r have "run = d" "docs = ?docs" by (auto simp: create_def)
    with k key [OF k(2)] r(2) show thesis by (intro old) auto
  qed
qed

lemma run_create_rest:
  "run_create newId ws now inp w = (r, w') \<Longrightarrow>
   w_messages (sw_store w') = w_messages (sw_store w) \<and> w_convs (sw_store w') = w_convs (sw_store w) \<and> sw_bill w' = sw_bill w"
  by (auto simp: run_create_def Let_def split: sum.splits prod.splits)

lemma append_keyed_ok:
  assumes "append_keyed sha newId convId key now m w = (Inr doc, w')"
  shows "msg_id doc = messageId sha newId convId key \<and> msg_role doc = am_role m \<and> msg_content doc = am_content m \<and>
    messageId sha newId convId key \<notin> set (map (msg_id \<circ> snd) (w_messages (sw_store w))) \<and>
    w_messages (sw_store w') = w_messages (sw_store w) @ [(convId, doc)] \<and> w_db (sw_store w') = w_db (sw_store w) \<and>
    sw_bill w' = sw_bill w \<and> sw_mcp w' = sw_mcp w"
proof -
  have seq: "w_messages st' = w_messages st \<and> w_db st' = w_db st" if "allocateSeq convId st = (n, st')" for st st' n
    using that by (auto simp: allocateSeq_def split: option.splits)
  obtain n st' where a: "allocateSeq convId (sw_store w) = (n, st')" by (metis surj_pair)
  from assms seq [OF a] a show ?thesis
    by (auto simp: append_keyed_def repo_appendMessage_def Let_def split: if_splits option.splits prod.splits)
qed

lemma supersede_rest:
  "w_messages (sw_store (supersedeWaitingRun ws convId p now w)) = w_messages (sw_store w)"
  "w_convs (sw_store (supersedeWaitingRun ws convId p now w)) = w_convs (sw_store w)"
  "sw_bill (supersedeWaitingRun ws convId p now w) = sw_bill w"
  "sw_mcp (supersedeWaitingRun ws convId p now w) = sw_mcp w"
  by (auto simp: supersedeWaitingRun_def Let_def split: option.splits)

text \<open>What becomes of the runs that were there: at most one is touched, the latest of the conversation, and only from
  waiting to cancelled.\<close>

definition superseded :: "id \<Rightarrow> id \<Rightarrow> time \<Rightarrow> runs \<Rightarrow> runs" where
  "superseded ws convId now docs =
     (case latest_run ws convId docs of
        None \<Rightarrow> docs
      | Some latest \<Rightarrow> if isSuspended (rd_status latest) then fst (cancel ws (rd_id latest) now docs) else docs)"

lemma supersede_runs:
  "db_runs (w_db (sw_store (supersedeWaitingRun ws convId p now w))) = superseded ws convId now (db_runs (w_db (sw_store w)))"
  by (auto simp: supersedeWaitingRun_def superseded_def decideApproval_def Let_def split: option.splits)

lemma setModelBinding_rest [simp]:
  "sw_store (setModelBinding ws convId b w) = sw_store w" "sw_bill (setModelBinding ws convId b w) = sw_bill w"
  "sw_agents (setModelBinding ws convId b w) = sw_agents w" "sw_mcp (setModelBinding ws convId b w) = sw_mcp w"
  by (simp_all add: setModelBinding_def)

lemma usableModel_ok:
  assumes "usableModel ws convId requested pinned agent w = (Inr model, w')"
  shows "(\<exists>b \<in> set (bw_bindings (sw_bill w)). mb_id b = model \<and> mb_workspaceId b = ws \<and> mb_enabled b) \<and>
    sw_store w' = sw_store w \<and> sw_bill w' = sw_bill w \<and> sw_mcp w' = sw_mcp w"
proof -
  let ?bs = "bw_bindings (sw_bill w)"
  have found: "\<exists>b \<in> set ?bs. mb_id b = m \<and> mb_workspaceId b = ws \<and> mb_enabled b" if "usable ws ?bs i = Some m" for i m
  proof -
    from that obtain k b where "i = Some k" "binding_by_id ws k ?bs = Some b" "mb_enabled b" "mb_id b = m"
      by (cases i) (auto simp: usable_def split: option.splits if_splits)
    then show ?thesis using find_Some_in [of _ ?bs b] by (auto simp: binding_by_id_def)
  qed
  have role: "\<exists>b \<in> set ?bs. mb_id b = m \<and> mb_workspaceId b = ws \<and> mb_enabled b" if "map_option mb_id (forRole ws r ?bs) = Some m" for r m
    using that find_Some_in [of _ ?bs] by (fastforce simp: forRole_def)
  have pick: "Some m \<in> set xs" if "first_some xs = Some m" for xs and m :: id
    using that by (induction xs) (auto simp: first_some_def split: option.splits if_splits)
  have "first_some [usable ws ?bs requested, usable ws ?bs (ag_modelBindingId agent), usable ws ?bs (Some pinned),
      map_option mb_id (forRole ws (av_modelRole (ag_currentVersion agent)) ?bs)] = Some model"
    using assms by (auto simp: usableModel_def Let_def split: option.splits)
  from pick [OF this] have "Some model \<in> {usable ws ?bs requested, usable ws ?bs (ag_modelBindingId agent), usable ws ?bs (Some pinned),
      map_option mb_id (forRole ws (av_modelRole (ag_currentVersion agent)) ?bs)}" by simp
  then have "\<exists>b \<in> set ?bs. mb_id b = model \<and> mb_workspaceId b = ws \<and> mb_enabled b"
    using found role by (metis insert_iff singletonD)
  with assms show ?thesis by (auto simp: usableModel_def Let_def split: option.splits if_splits)
qed

text \<open>
  C22. What a message starts. When sending succeeds, the conversation and its assistant are of the workspace, the gate
  was open, the chosen model is an enabled binding of the workspace, and exactly one message was added: the person's
  words, under an id that was not in the log. The run is queued in the sender's own name on that model, pinned to the
  assistant's version as it was at that moment, with a budget no larger than the platform's; of the runs that were
  there only the conversation's latest may have changed, from waiting to cancelled. The one other outcome is an earlier
  run of the workspace that carries the same idempotency key, and then no run is added.
\<close>

theorem send_starts_one_run:
  assumes "sendUserMessage env ids ws p convId inp now w = (Inr run, w')"
  shows "\<exists>conversation agent model doc.
    head_by_id ws convId w = Some conversation \<and> agent_by_id ws (ch_agentId conversation) w = Some agent \<and>
    spendGate (se_bill env) now ws None (sw_bill w) = Open \<and>
    (\<exists>b \<in> set (bw_bindings (sw_bill w)). mb_id b = model \<and> mb_workspaceId b = ws \<and> mb_enabled b) \<and>
    w_messages (sw_store w') = w_messages (sw_store w) @ [(convId, doc)] \<and> msg_role doc = Role_user \<and>
    msg_content doc = [Text (si_content inp)] \<and> msg_id doc \<notin> set (map (msg_id \<circ> snd) (w_messages (sw_store w))) \<and>
    (let before = superseded ws convId now (db_runs (w_db (sw_store w))); after = db_runs (w_db (sw_store w'))
     in (\<exists>k. si_idempotencyKey inp = Some k \<and> rd_idempotencyKey run = Some k \<and> rd_workspaceId run = ws \<and> run \<in> set before \<and> after = before) \<or>
        after = before @ [run] \<and> rd_status run = Queued \<and> rd_workspaceId run = ws \<and> rd_conversationId run = convId \<and>
        rd_principal run = p \<and> rd_modelBindingId run = model \<and> rd_agentVersionId run = av_versionId (ag_currentVersion agent) \<and>
        rd_agentSnapshot run = snapshot_json (agentSnapshotFor (se_servers env ws) ws (ag_id agent) (sw_mcp w) (ag_currentVersion agent)) \<and>
        maxSteps (rd_budget run) \<le> maxSteps DEFAULT_BUDGET \<and> maxCostUsd (rd_budget run) \<le> maxCostUsd DEFAULT_BUDGET)"
proof -
  obtain conversation agent where h: "head_by_id ws convId w = Some conversation" "agent_by_id ws (ch_agentId conversation) w = Some agent"
    using assms by (auto simp: sendUserMessage_def split: option.splits)
  obtain w0 model w1 where m: "usableModel ws convId (si_modelBindingId inp) (ch_modelBindingId conversation) agent w0 = (Inr model, w1)"
    "w0 = w \<or> (\<exists>b. w0 = setModelBinding ws convId b w)" "send_gated env ids ws p convId agent model inp now w1 = (Inr run, w')"
    using assms h by (auto simp: sendUserMessage_def Let_def split: if_splits prod.splits sum.splits)
  then have same: "sw_store w1 = sw_store w" "sw_bill w1 = sw_bill w" "sw_mcp w1 = sw_mcp w"
    and model: "\<exists>b \<in> set (bw_bindings (sw_bill w)). mb_id b = model \<and> mb_workspaceId b = ws \<and> mb_enabled b"
    using usableModel_ok [OF m(1)] by auto
  let ?w2 = "supersedeWaitingRun ws convId p now w1"
  obtain doc w3 where gate: "spendGate (se_bill env) now ws None (sw_bill w) = Open"
    and a: "append_keyed (se_sha env) (fi_message ids) convId (si_idempotencyKey inp) now (user_text (si_content inp)) ?w2 = (Inr doc, w3)"
    and c: "run_create (fi_run ids) ws now (run_input env ws convId agent model (''user'', Some (actorIdOf p)) p
        (clampBudget (si_budget inp) DEFAULT_BUDGET) (si_idempotencyKey inp) w3) w3 = (Inr run, w')"
    using m(3) same by (auto simp: send_gated_def split: gate.splits prod.splits sum.splits)
  note ap = append_keyed_ok [OF a]
  have runs: "db_runs (w_db (sw_store w3)) = superseded ws convId now (db_runs (w_db (sw_store w)))"
    using ap supersede_runs [of ws convId p now w1] same by simp
  have msgs: "w_messages (sw_store w') = w_messages (sw_store w) @ [(convId, doc)]"
    using ap run_create_rest [OF c] supersede_rest [of ws convId p now w1] same by simp
  have mcp: "sw_mcp w3 = sw_mcp w" using ap supersede_rest(4) [of ws convId p now w1] same by simp
  have budget: "maxSteps (clampBudget (si_budget inp) DEFAULT_BUDGET) \<le> maxSteps DEFAULT_BUDGET"
    "maxCostUsd (clampBudget (si_budget inp) DEFAULT_BUDGET) \<le> maxCostUsd DEFAULT_BUDGET"
    by (auto simp: clampBudget_def pick_le)
  have fresh: "msg_id doc \<notin> set (map (msg_id \<circ> snd) (w_messages (sw_store w)))"
    using ap supersede_rest(1) [of ws convId p now w1] same by simp
  have "(\<exists>k. si_idempotencyKey inp = Some k \<and> rd_idempotencyKey run = Some k \<and> rd_workspaceId run = ws \<and>
        run \<in> set (db_runs (w_db (sw_store w3))) \<and> db_runs (w_db (sw_store w')) = db_runs (w_db (sw_store w3))) \<or>
      db_runs (w_db (sw_store w')) = db_runs (w_db (sw_store w3)) @ [run] \<and> run = new_run (fi_run ids) ws now
        (run_input env ws convId agent model (''user'', Some (actorIdOf p)) p (clampBudget (si_budget inp) DEFAULT_BUDGET) (si_idempotencyKey inp) w3)"
    using c by (cases rule: run_create_cases) (auto simp: run_input_def)
  then show ?thesis
    using h gate model msgs ap fresh budget
    unfolding Let_def runs [symmetric] mcp [symmetric]
    by (intro exI [of _ conversation] exI [of _ agent] exI [of _ model] exI [of _ doc])
      (auto simp: new_run_def run_input_def user_text_def)
qed

lemma latest_run_in: "latest_run ws convId docs = Some d \<Longrightarrow> d \<in> set docs \<and> rd_workspaceId d = ws \<and> rd_conversationId d = convId"
proof -
  let ?mine = "filter (\<lambda>d. rd_workspaceId d = ws \<and> rd_conversationId d = convId) docs"
  assume "latest_run ws convId docs = Some d"
  then obtain rest where eq: "sort_key (\<lambda>d. - rd_queuedAt d) ?mine = d # rest"
    by (auto simp: latest_run_def split: list.splits)
  have "d \<in> set (sort_key (\<lambda>d. - rd_queuedAt d) ?mine)" unfolding eq by simp
  then show ?thesis by simp
qed

lemma suspended_not_final: "isSuspended s \<Longrightarrow> s \<notin> {Succeeded, Failed, Cancelled, Expired}"
  by (auto simp: isSuspended_def SUSPENDED_STATUSES_def)

text \<open>
  A repeated submission undoes the first. The idempotency key is meant to make sending safe to repeat. But when the
  first submission's run is waiting for an approval, the repeated one is refused because its message is already in the
  log, and before that it has denied the approval and cancelled the waiting run: the person is left with an error and no
  run that will answer.
\<close>

theorem retry_cancels_waiting_run:
  assumes "sendUserMessage env ids ws p convId inp now w = (r, w')" "si_idempotencyKey inp = Some k" "si_modelBindingId inp = None"
    "head_by_id ws convId w = Some conversation" "agent_by_id ws (ch_agentId conversation) w = Some agent"
    "usable ws (bw_bindings (sw_bill w)) (ag_modelBindingId agent) = Some model"
    "spendGate (se_bill env) now ws None (sw_bill w) = Open"
    "messageId (se_sha env) (fi_message ids) convId (Some k) \<in> set (map (msg_id \<circ> snd) (w_messages (sw_store w)))"
    "convId \<in> set (map cv_id (w_convs (sw_store w)))"
    "latest_run ws convId (db_runs (w_db (sw_store w))) = Some latest" "isSuspended (rd_status latest)"
  shows "r = Inl (Duplicate_message (messageId (se_sha env) (fi_message ids) convId (Some k))) \<and>
    (\<exists>d \<in> set (db_runs (w_db (sw_store w'))). rd_id d = rd_id latest \<and> rd_workspaceId d = ws \<and> rd_status d = Cancelled)"
proof -
  have none: "usable ws bs None = None" for bs by (simp add: usable_def)
  obtain w1 where u: "usableModel ws convId None (ch_modelBindingId conversation) agent w = (Inr model, w1)" "sw_store w1 = sw_store w" "sw_bill w1 = sw_bill w"
    using assms(6) none by (auto simp: usableModel_def first_some_def Let_def)
  let ?w2 = "supersedeWaitingRun ws convId p now w1"
  have "convId \<in> set (map cv_id (w_convs (sw_store ?w2)))" using assms(9) u(2) by (simp add: supersede_rest)
  then have "find (\<lambda>c. cv_id c = convId) (w_convs (sw_store ?w2)) \<noteq> None" by (auto simp: find_None_iff)
  then obtain n st where al: "allocateSeq convId (sw_store ?w2) = (Some n, st)" "w_db st = w_db (sw_store ?w2)"
    by (auto simp: allocateSeq_def)
  from assms(8) have dup: "messageId (se_sha env) (fi_message ids) convId (Some k) \<in> set (map (msg_id \<circ> snd) (w_messages (sw_store ?w2)))"
    by (simp add: supersede_rest u(2))
  have "send_gated env ids ws p convId agent model inp now w1 =
      (Inl (Duplicate_message (messageId (se_sha env) (fi_message ids) convId (Some k))), ?w2\<lparr>sw_store := st\<rparr>)"
    unfolding send_gated_def append_keyed_def Let_def using dup al(1) assms(2,7) u(3) by simp
  with assms(1,3,4,5) u(1) have out: "r = Inl (Duplicate_message (messageId (se_sha env) (fi_message ids) convId (Some k)))"
    "w' = ?w2\<lparr>sw_store := st\<rparr>"
    by (auto simp: sendUserMessage_def Let_def)
  have runs: "db_runs (w_db (sw_store w')) = superseded ws convId now (db_runs (w_db (sw_store w)))"
    using supersede_runs [of ws convId p now w1] al(2) out(2) u(2) by simp
  let ?P = "\<lambda>d. rd_workspaceId d = ws \<and> rd_id d = rd_id latest \<and> rd_status d \<notin> {Succeeded, Failed, Cancelled, Expired}"
  have "latest \<in> set (db_runs (w_db (sw_store w)))" "?P latest"
    using latest_run_in [OF assms(10)] suspended_not_final [OF assms(11)] by auto
  from update_first_hit [of latest _ ?P "cancel_change now", OF this]
  obtain y where "?P y" "cancel_change now y \<in> set (update_first ?P (cancel_change now) (db_runs (w_db (sw_store w))))" by blast
  moreover have "superseded ws convId now (db_runs (w_db (sw_store w))) = update_first ?P (cancel_change now) (db_runs (w_db (sw_store w)))"
    using assms(10,11) by (simp add: superseded_def cancel_def update_one_def)
  ultimately show ?thesis using out(1) runs
    by (intro conjI bexI [of _ "cancel_change now y"]) (auto simp: cancel_change_def)
qed

subsection \<open>A sample workspace\<close>

definition sample_agent :: agent_doc where
  "sample_agent = \<lparr>ag_id = ''a1'', ag_workspaceId = ''w1'', ag_name = ''Helper'', ag_modelBindingId = Some ''b1'',
     ag_currentVersion = \<lparr>av_versionId = ''v1'', av_version = 1, av_systemPrompt = ''Help.'', av_modelRole = ''chat'',
       av_capabilityBindings = [], av_maxToolCallsPerTurn = 6\<rparr>, ag_isArchived = False\<rparr>"

definition sample_start_env :: start_env where
  "sample_start_env = \<lparr>se_bill = \<lparr>be_complimentary = [''w1''], be_processor = False, be_platformCap = None\<rparr>,
     se_sha = (\<lambda>s. s), se_servers = (\<lambda>ws i. None)\<rparr>"

definition empty_store_world :: world where
  "empty_store_world = \<lparr>w_db = \<lparr>db_runs = [], db_steps = [], db_events = [], db_approvals = []\<rparr>, w_convs = [], w_messages = [],
     w_rollup = \<lparr>ru_usage = emptyUsage, ru_costUsd = 0, ru_runCount = 0\<rparr>\<rparr>"

definition empty_start :: start_world where
  "empty_start = \<lparr>sw_bill = one_workspace\<lparr>bw_bindings := [\<lparr>mb_id = ''b1'', mb_workspaceId = ''w1'', mb_providerConfigId = ''p1'', mb_role = ''chat'', mb_enabled = True\<rparr>]\<rparr>,
      sw_store = empty_store_world, sw_heads = [], sw_agents = [sample_agent], sw_mcp = []\<rparr>"

definition sample_start :: start_world where
  "sample_start = the (conversation_create
     \<lparr>ch_id = ''c1'', ch_workspaceId = ''w1'', ch_agentId = ''a1'', ch_modelBindingId = ''b1'', ch_title = None, ch_channelId = None,
      ch_externalRef = None\<rparr> 0 empty_start)"

lemma sample_start_parts:
  "sw_bill sample_start = sw_bill empty_start" "sw_agents sample_start = sw_agents empty_start" "sw_mcp sample_start = sw_mcp empty_start"
  "w_messages (sw_store sample_start) = []" "w_db (sw_store sample_start) = w_db empty_store_world"
  "sw_heads sample_start = [\<lparr>ch_id = ''c1'', ch_workspaceId = ''w1'', ch_agentId = ''a1'', ch_modelBindingId = ''b1'', ch_title = None, ch_channelId = None,
      ch_externalRef = None\<rparr>]"
  "map cv_id (w_convs (sw_store sample_start)) = [''c1'']"
  by (simp_all add: sample_start_def conversation_create_def ref_taken_def empty_start_def empty_store_world_def)

definition sample_ids :: fresh_ids where
  "sample_ids = \<lparr>fi_conversation = ''c9'', fi_message = ''m9'', fi_run = ''r1''\<rparr>"

definition sample_send :: send_input where
  "sample_send = \<lparr>si_content = ''Hello'', si_modelBindingId = None, si_budget = None, si_idempotencyKey = Some ''k''\<rparr>"

definition sample_sent :: "(start_error + run_doc) \<times> start_world" where
  "sample_sent = sendUserMessage sample_start_env sample_ids ''w1'' (User ''ann'' ''w1'' Owner) ''c1'' sample_send 7 sample_start"

definition sent_run :: run_doc where
  "sent_run = (case fst sample_sent of Inr run \<Rightarrow> run | Inl e \<Rightarrow> new_run [] [] 0 (run_input sample_start_env [] [] sample_agent [] ([], None) (System Migration None) DEFAULT_BUDGET None sample_start))"

text \<open>What the same submission finds when the first one's run has come to ask for an approval.\<close>

definition waiting_run :: run_doc where
  "waiting_run = (new_run ''r1'' ''w1'' 7 (run_input sample_start_env ''w1'' ''c1'' sample_agent ''b1'' (''user'', Some ''ann'')
     (User ''ann'' ''w1'' Owner) DEFAULT_BUDGET (Some ''k'') sample_start))\<lparr>rd_status := Waiting_approval\<rparr>"

definition first_message :: message where
  "first_message = \<lparr>msg_id = ''msg_c1|k'', msg_seq = 1, msg_role = Role_user, msg_content = [Text ''Hello''], msg_artifacts = None,
     msg_runId = None, msg_tokenEstimate = None, msg_createdAt = 7, msg_supersededBy = None\<rparr>"

definition sample_waiting :: start_world where
  "sample_waiting = sample_start\<lparr>sw_store := (sw_store sample_start)\<lparr>w_messages := [(''c1'', first_message)],
     w_db := \<lparr>db_runs = [waiting_run], db_steps = [], db_events = [], db_approvals = []\<rparr>\<rparr>\<rparr>"

theorem send_starts_one_run_witness:
  "fst sample_sent = Inr sent_run \<and> rd_principal sent_run = User ''ann'' ''w1'' Owner \<and>
   rd_agentVersionId sent_run = ''v1'' \<and> length (w_messages (sw_store (snd sample_sent))) = 1"
proof -
  have "\<not> isl (fst sample_sent)" by code_simp
  then have ok: "fst sample_sent = Inr sent_run" by (cases "fst sample_sent") (simp_all add: sent_run_def)
  then have s: "sendUserMessage sample_start_env sample_ids ''w1'' (User ''ann'' ''w1'' Owner) ''c1'' sample_send 7 sample_start = (Inr sent_run, snd sample_sent)"
    unfolding sample_sent_def by (metis prod.collapse)
  have none: "superseded ''w1'' ''c1'' 7 (db_runs (w_db (sw_store sample_start))) = []" "w_messages (sw_store sample_start) = []"
    "agent_by_id ''w1'' ''a1'' sample_start = Some sample_agent" "map_option ch_agentId (head_by_id ''w1'' ''c1'' sample_start) = Some ''a1''"
    "av_versionId (ag_currentVersion sample_agent) = ''v1''"
    by code_simp+
  from send_starts_one_run [OF s] ok none show ?thesis by (auto simp: Let_def)
qed

theorem retry_cancels_waiting_run_witness:
  "\<exists>w'. sendUserMessage sample_start_env sample_ids ''w1'' (User ''ann'' ''w1'' Owner) ''c1'' sample_send 9 sample_waiting =
      (Inl (Duplicate_message ''msg_c1|k''), w') \<and>
    (\<exists>d \<in> set (db_runs (w_db (sw_store w'))). rd_id d = ''r1'' \<and> rd_status d = Cancelled)"
proof -
  obtain r w' where s: "sendUserMessage sample_start_env sample_ids ''w1'' (User ''ann'' ''w1'' Owner) ''c1'' sample_send 9 sample_waiting = (r, w')"
    by (metis surj_pair)
  note defs = sample_waiting_def sample_start_parts empty_start_def head_by_id_def agent_by_id_def sample_agent_def
  have bill: "sw_bill sample_waiting = sw_bill sample_start" by (simp add: sample_waiting_def)
  have facts: "si_idempotencyKey sample_send = Some ''k''" "si_modelBindingId sample_send = None"
    "head_by_id ''w1'' ''c1'' sample_waiting = Some (hd (sw_heads sample_waiting))"
    "agent_by_id ''w1'' (ch_agentId (hd (sw_heads sample_waiting))) sample_waiting = Some sample_agent"
    "usable ''w1'' (bw_bindings (sw_bill sample_waiting)) (ag_modelBindingId sample_agent) = Some ''b1''"
    by (simp_all add: defs sample_send_def usable_def binding_by_id_def)
  have gate: "spendGate (se_bill sample_start_env) 9 ''w1'' None (sw_bill sample_waiting) = Open"
    unfolding bill by code_simp
  have key: "messageId (se_sha sample_start_env) (fi_message sample_ids) ''c1'' (Some ''k'') = ''msg_c1|k''" by code_simp
  then have dup: "messageId (se_sha sample_start_env) (fi_message sample_ids) ''c1'' (Some ''k'') \<in> set (map (msg_id \<circ> snd) (w_messages (sw_store sample_waiting)))"
    by (simp add: sample_waiting_def first_message_def)
  have conv: "''c1'' \<in> set (map cv_id (w_convs (sw_store sample_waiting)))"
    by (simp add: sample_waiting_def sample_start_parts)
  have run: "rd_workspaceId waiting_run = ''w1''" "rd_conversationId waiting_run = ''c1''" "rd_status waiting_run = Waiting_approval" "rd_id waiting_run = ''r1''"
    by (simp_all add: waiting_run_def new_run_def run_input_def)
  then have latest: "latest_run ''w1'' ''c1'' (db_runs (w_db (sw_store sample_waiting))) = Some waiting_run" "isSuspended (rd_status waiting_run)"
    by (simp_all add: latest_run_def sample_waiting_def isSuspended_def SUSPENDED_STATUSES_def)
  from retry_cancels_waiting_run [OF s facts gate dup conv latest] s key run(4) show ?thesis by auto
qed

end
