(* ===== verification/Schedules.thy ===== *)
theory Schedules
  imports Run_Starts
begin

text \<open>
  Recurring instructions: the rows (\<^verbatim>\<open>packages/db/src/repositories/schedules.ts\<close>), the tick that fires what is due
  (\<^verbatim>\<open>apps/web/src/lib/schedule-tick.ts\<close>), and the routes that make, pause and delete them
  (\<^verbatim>\<open>api/workspaces/[workspaceId]/schedules\<close>).

  The expressions are those of \<open>Cron\<close>, the runs are started over \<open>Run_Starts\<close>. A failure is kept as a value in place of
  its sentence. Ticks overlap: a step relation interleaves the commands of any number of them with every other write
  of a schedule.
\<close>

subsection \<open>Rows\<close>

datatype tick_error = Bad_expression cron_error | Not_started start_error

record schedule_doc =
  sch_id :: id
  sch_workspaceId :: id
  sch_name :: string
  sch_expression :: string
  sch_timeZone :: string
  sch_agentId :: id
  sch_modelBindingId :: id
  sch_prompt :: string
  sch_createdBy :: string
  sch_enabled :: bool
  sch_lastFiredFor :: "time option"
  sch_lastRunId :: "id option"
  sch_failures :: int
  sch_lastError :: "tick_error option"
  sch_updatedAt :: time

record schedule_input =
  sin_name :: string
  sin_expression :: string
  sin_timeZone :: string
  sin_agentId :: id
  sin_modelBindingId :: id
  sin_prompt :: string

definition FAILURE_LIMIT :: int where
  "FAILURE_LIMIT = 10"

definition CATCH_UP_LIMIT :: nat where
  "CATCH_UP_LIMIT = 5"

definition at_schedule :: "id \<Rightarrow> id \<Rightarrow> schedule_doc \<Rightarrow> bool" where
  "at_schedule ws i d \<longleftrightarrow> sch_workspaceId d = ws \<and> sch_id d = i"

definition schedule_by_id :: "id \<Rightarrow> id \<Rightarrow> schedule_doc list \<Rightarrow> schedule_doc option" where
  "schedule_by_id ws i = List.find (at_schedule ws i)"

definition new_schedule :: "id \<Rightarrow> id \<Rightarrow> schedule_input \<Rightarrow> string \<Rightarrow> time \<Rightarrow> schedule_doc" where
  "new_schedule newId ws inp createdBy now =
     \<lparr>sch_id = newId, sch_workspaceId = ws, sch_name = sin_name inp, sch_expression = sin_expression inp, sch_timeZone = sin_timeZone inp,
      sch_agentId = sin_agentId inp, sch_modelBindingId = sin_modelBindingId inp, sch_prompt = sin_prompt inp, sch_createdBy = createdBy,
      sch_enabled = True, sch_lastFiredFor = Some now, sch_lastRunId = None, sch_failures = 0, sch_lastError = None, sch_updatedAt = now\<rparr>"

definition schedule_setEnabled :: "id \<Rightarrow> id \<Rightarrow> bool \<Rightarrow> time \<Rightarrow> schedule_doc list \<Rightarrow> schedule_doc list" where
  "schedule_setEnabled ws i enabled now =
     update_first (at_schedule ws i) (\<lambda>d. d\<lparr>sch_enabled := enabled, sch_failures := 0, sch_lastError := None, sch_updatedAt := now\<rparr>)"

fun remove_one :: "('a \<Rightarrow> bool) \<Rightarrow> 'a list \<Rightarrow> 'a list" where
  "remove_one P [] = []"
| "remove_one P (x # xs) = (if P x then xs else x # remove_one P xs)"

definition schedule_remove :: "id \<Rightarrow> id \<Rightarrow> schedule_doc list \<Rightarrow> schedule_doc list" where
  "schedule_remove ws i = remove_one (at_schedule ws i)"

text \<open>\<^verbatim>\<open>$lt\<close> holds of no absent date.\<close>

definition claimable_for :: "id \<Rightarrow> id \<Rightarrow> time \<Rightarrow> schedule_doc \<Rightarrow> bool" where
  "claimable_for ws i occurrence d \<longleftrightarrow> at_schedule ws i d \<and> (case sch_lastFiredFor d of None \<Rightarrow> False | Some l \<Rightarrow> l < occurrence)"

definition claimOccurrence :: "id \<Rightarrow> id \<Rightarrow> time \<Rightarrow> time \<Rightarrow> schedule_doc list \<Rightarrow> bool \<times> schedule_doc list" where
  "claimOccurrence ws i occurrence now docs =
     (list_ex (claimable_for ws i occurrence) docs,
      update_first (claimable_for ws i occurrence) (\<lambda>d. d\<lparr>sch_lastFiredFor := Some occurrence, sch_updatedAt := now\<rparr>) docs)"

definition recordRun :: "id \<Rightarrow> id \<Rightarrow> id \<Rightarrow> schedule_doc list \<Rightarrow> schedule_doc list" where
  "recordRun ws i runId =
     update_first (at_schedule ws i) (\<lambda>d. d\<lparr>sch_lastRunId := Some runId, sch_failures := 0, sch_lastError := None\<rparr>)"

text \<open>The write of \<^verbatim>\<open>recordFailure\<close>, with the count it computed from what it read.\<close>

definition write_failure :: "id \<Rightarrow> id \<Rightarrow> int \<Rightarrow> tick_error \<Rightarrow> time \<Rightarrow> schedule_doc list \<Rightarrow> schedule_doc list" where
  "write_failure ws i failures err now =
     update_first (at_schedule ws i)
       (\<lambda>d. d\<lparr>sch_failures := failures, sch_lastError := Some err,
          sch_enabled := (if FAILURE_LIMIT \<le> failures then False else sch_enabled d), sch_updatedAt := now\<rparr>)"

definition schedule_failure :: "id \<Rightarrow> id \<Rightarrow> tick_error \<Rightarrow> time \<Rightarrow> schedule_doc list \<Rightarrow> schedule_doc list" where
  "schedule_failure ws i err now docs =
     (let failures = (case schedule_by_id ws i docs of None \<Rightarrow> 0 | Some d \<Rightarrow> sch_failures d) + 1
      in write_failure ws i failures err now docs)"

definition enabledSchedules :: "nat \<Rightarrow> schedule_doc list \<Rightarrow> schedule_doc list" where
  "enabledSchedules most docs = take most (filter sch_enabled docs)"

subsection \<open>Firing\<close>

text \<open>\<^verbatim>\<open>date.toISOString()\<close>.\<close>

definition iso_string :: "time \<Rightarrow> string" where
  "iso_string t =
     (let s = t mod DAY_MS
      in iso_day t @ ''T'' @ padded 2 (s div 3600000) @ '':'' @ padded 2 (s div 60000 mod 60) @ '':'' @ padded 2 (s div 1000 mod 60) @ ''.'' @
         padded 3 (s mod 1000) @ ''Z'')"

definition occurrence_title :: "schedule_doc \<Rightarrow> time \<Rightarrow> string" where
  "occurrence_title s t = sch_name s @ '' '' @ [char_of (183 :: nat)] @ '' '' @
     map (\<lambda>c. if c = CHR ''T'' then CHR '' '' else c) (take 16 (iso_string t))"

definition occurrence_key :: "schedule_doc \<Rightarrow> time \<Rightarrow> string" where
  "occurrence_key s t = sch_id s @ '':'' @ iso_string t"

definition schedule_startRun ::
  "start_env \<Rightarrow> fresh_ids \<Rightarrow> schedule_doc \<Rightarrow> time \<Rightarrow> time \<Rightarrow> start_world \<Rightarrow> (start_error + run_doc) \<times> start_world" where
  "schedule_startRun env ids s occurrence now w =
     (let ws = sch_workspaceId s
      in case agent_by_id ws (sch_agentId s) w of
           None \<Rightarrow> (Inl No_agent, w)
         | Some agent \<Rightarrow>
             (case spendGate (se_bill env) now ws None (sw_bill w) of
                Refused why pay \<Rightarrow> (Inl (Spend_refused why pay), w)
              | Open \<Rightarrow>
                  (let convId = fi_conversation ids
                   in case conversation_create \<lparr>ch_id = convId, ch_workspaceId = ws, ch_agentId = sch_agentId s,
                             ch_modelBindingId = sch_modelBindingId s, ch_title = Some (occurrence_title s occurrence), ch_channelId = None,
                             ch_externalRef = None\<rparr> now w of
                        None \<Rightarrow> (Inl Duplicate_conversation, w)
                      | Some w1 \<Rightarrow>
                          (case append_keyed (se_sha env) (fi_message ids) convId (Some (occurrence_key s occurrence)) now
                                  (user_text (sch_prompt s)) w1 of
                             (Inl e, w2) \<Rightarrow> (Inl e, w2)
                           | (Inr _, w2) \<Rightarrow>
                               run_create (fi_run ids) ws now
                                 (run_input env ws convId agent (sch_modelBindingId s) (''schedule'', Some (sch_id s))
                                   (User (sch_createdBy s) ws Member) DEFAULT_BUDGET (Some (occurrence_key s occurrence)) w2) w2))))"

record sched_world =
  sx_docs :: "schedule_doc list"
  sx_start :: start_world

fun fire_each ::
  "start_env \<Rightarrow> (time \<Rightarrow> fresh_ids) \<Rightarrow> schedule_doc \<Rightarrow> time \<Rightarrow> time list \<Rightarrow> sched_world \<Rightarrow> (tick_error + nat) \<times> sched_world" where
  "fire_each env ids s now [] w = (Inr 0, w)"
| "fire_each env ids s now (occurrence # rest) w =
     (let ws = sch_workspaceId s; (won, docs) = claimOccurrence ws (sch_id s) occurrence now (sx_docs w); w1 = w\<lparr>sx_docs := docs\<rparr>
      in if \<not> won then fire_each env ids s now rest w1
         else
           (case schedule_startRun env (ids occurrence) s occurrence now (sx_start w1) of
              (Inl e, st) \<Rightarrow> (Inl (Not_started e), w1\<lparr>sx_start := st\<rparr>)
            | (Inr run, st) \<Rightarrow>
                (case fire_each env ids s now rest (w1\<lparr>sx_start := st, sx_docs := recordRun ws (sch_id s) (rd_id run) docs\<rparr>) of
                   (Inl e, w3) \<Rightarrow> (Inl e, w3)
                 | (Inr n, w3) \<Rightarrow> (Inr (Suc n), w3))))"

definition fireDue ::
  "start_env \<Rightarrow> (string \<Rightarrow> time \<Rightarrow> wall_clock) \<Rightarrow> (time \<Rightarrow> fresh_ids) \<Rightarrow> schedule_doc \<Rightarrow> time \<Rightarrow> sched_world \<Rightarrow> (tick_error + nat) \<times> sched_world" where
  "fireDue env wall ids s now w =
     (case parseCron (sch_expression s) of
        Inl e \<Rightarrow> (Inl (Bad_expression e), w)
      | Inr cron \<Rightarrow>
          fire_each env ids s now
            (dueBetween cron (wall (sch_timeZone s)) (case sch_lastFiredFor s of Some t \<Rightarrow> t | None \<Rightarrow> now) now CATCH_UP_LIMIT) w)"

record tick_result =
  tr_considered :: nat
  tr_fired :: nat
  tr_failed :: nat

fun tick_each ::
  "start_env \<Rightarrow> (string \<Rightarrow> time \<Rightarrow> wall_clock) \<Rightarrow> (id \<Rightarrow> time \<Rightarrow> fresh_ids) \<Rightarrow> time \<Rightarrow> schedule_doc list \<Rightarrow> nat \<times> nat \<Rightarrow> sched_world \<Rightarrow>
   (nat \<times> nat) \<times> sched_world" where
  "tick_each env wall ids now [] n w = (n, w)"
| "tick_each env wall ids now (s # rest) (fired, failed) w =
     (case fireDue env wall (ids (sch_id s)) s now w of
        (Inr k, w1) \<Rightarrow> tick_each env wall ids now rest (fired + k, failed) w1
      | (Inl e, w1) \<Rightarrow> tick_each env wall ids now rest (fired, failed + 1)
          (w1\<lparr>sx_docs := schedule_failure (sch_workspaceId s) (sch_id s) e now (sx_docs w1)\<rparr>))"

definition tickSchedules ::
  "start_env \<Rightarrow> (string \<Rightarrow> time \<Rightarrow> wall_clock) \<Rightarrow> (id \<Rightarrow> time \<Rightarrow> fresh_ids) \<Rightarrow> time \<Rightarrow> sched_world \<Rightarrow> tick_result \<times> sched_world" where
  "tickSchedules env wall ids now w =
     (let schedules = enabledSchedules 500 (sx_docs w); ((fired, failed), w') = tick_each env wall ids now schedules (0, 0) w
      in (\<lparr>tr_considered = length schedules, tr_fired = fired, tr_failed = failed\<rparr>, w'))"

subsection \<open>Routes\<close>

datatype schedule_error =
    Schedule_route workspace_error
  | Invalid_expression
  | Invalid_time_zone
  | Missing_agent
  | Missing_binding
  | Missing_schedule

definition PREVIEW_WINDOW_MS :: int where
  "PREVIEW_WINDOW_MS = 400 * 24 * 60 * 60 * 1000"

definition nextRun :: "(string \<Rightarrow> time \<Rightarrow> wall_clock) \<Rightarrow> string \<Rightarrow> string \<Rightarrow> time \<Rightarrow> time option" where
  "nextRun wall expression timeZone now =
     (case parseCron expression of
        Inl _ \<Rightarrow> None
      | Inr cron \<Rightarrow> (case dueBetween cron (wall timeZone) now (now + PREVIEW_WINDOW_MS) 1 of [] \<Rightarrow> None | t # _ \<Rightarrow> Some t))"

definition post_schedule ::
  "route_env \<Rightarrow> (string \<Rightarrow> bool) \<Rightarrow> credentials \<Rightarrow> id \<Rightarrow> id \<Rightarrow> schedule_input \<Rightarrow> time \<Rightarrow> sched_world \<Rightarrow> (schedule_error + schedule_doc) \<times> sched_world" where
  "post_schedule renv validZone creds ws newId inp now w =
     (case workspaceRoute renv Agents_write creds ws (ww_docs (bw_ws (sw_bill (sx_start w)))) of
        Inl e \<Rightarrow> (Inl (Schedule_route e), w)
      | Inr p \<Rightarrow>
          (if \<not> isValidCron (sin_expression inp) then (Inl Invalid_expression, w)
           else if \<not> validZone (sin_timeZone inp) then (Inl Invalid_time_zone, w)
           else if agent_by_id ws (sin_agentId inp) (sx_start w) = None then (Inl Missing_agent, w)
           else if binding_by_id ws (sin_modelBindingId inp) (bw_bindings (sw_bill (sx_start w))) = None then (Inl Missing_binding, w)
           else (let d = new_schedule newId ws inp (actorIdOf p) now in (Inr d, w\<lparr>sx_docs := sx_docs w @ [d]\<rparr>))))"

definition patch_schedule ::
  "route_env \<Rightarrow> credentials \<Rightarrow> id \<Rightarrow> id \<Rightarrow> bool \<Rightarrow> time \<Rightarrow> sched_world \<Rightarrow> (schedule_error + unit) \<times> sched_world" where
  "patch_schedule renv creds ws i enabled now w =
     (case workspaceRoute renv Agents_write creds ws (ww_docs (bw_ws (sw_bill (sx_start w)))) of
        Inl e \<Rightarrow> (Inl (Schedule_route e), w)
      | Inr p \<Rightarrow>
          (if schedule_by_id ws i (sx_docs w) = None then (Inl Missing_schedule, w)
           else (Inr (), w\<lparr>sx_docs := schedule_setEnabled ws i enabled now (sx_docs w)\<rparr>)))"

definition delete_schedule :: "route_env \<Rightarrow> credentials \<Rightarrow> id \<Rightarrow> id \<Rightarrow> sched_world \<Rightarrow> (schedule_error + unit) \<times> sched_world" where
  "delete_schedule renv creds ws i w =
     (case workspaceRoute renv Agents_write creds ws (ww_docs (bw_ws (sw_bill (sx_start w)))) of
        Inl e \<Rightarrow> (Inl (Schedule_route e), w)
      | Inr p \<Rightarrow> (Inr (), w\<lparr>sx_docs := schedule_remove ws i (sx_docs w)\<rparr>))"

subsection \<open>Overlapping ticks\<close>

text \<open>
  The commands of any number of ticks and of the routes, one at a time. A claim that was won is granted until its tick
  has started the run or has failed; \<open>ts_started\<close> lists the occurrences runs were started for.
\<close>

record tick_state =
  ts_docs :: "schedule_doc list"
  ts_granted :: "(id \<times> time) multiset"
  ts_started :: "(id \<times> time) list"
  ts_ids :: "id set"

inductive tick_step :: "tick_state \<Rightarrow> tick_state \<Rightarrow> bool" where
  claim_won: "claimOccurrence ws i occurrence now (ts_docs s) = (True, docs) \<Longrightarrow>
    tick_step s (s\<lparr>ts_docs := docs, ts_granted := add_mset (i, occurrence) (ts_granted s)\<rparr>)"
| claim_lost: "claimOccurrence ws i occurrence now (ts_docs s) = (False, docs) \<Longrightarrow> tick_step s (s\<lparr>ts_docs := docs\<rparr>)"
| run_started: "ts_granted s = add_mset x rest \<Longrightarrow> tick_step s (s\<lparr>ts_granted := rest, ts_started := x # ts_started s\<rparr>)"
| run_lost: "ts_granted s = add_mset x rest \<Longrightarrow> tick_step s (s\<lparr>ts_granted := rest\<rparr>)"
| recorded: "tick_step s (s\<lparr>ts_docs := recordRun ws i runId (ts_docs s)\<rparr>)"
| failed: "tick_step s (s\<lparr>ts_docs := write_failure ws i n err now (ts_docs s)\<rparr>)"
| switched: "tick_step s (s\<lparr>ts_docs := schedule_setEnabled ws i enabled now (ts_docs s)\<rparr>)"
| created: "newId \<notin> ts_ids s \<Longrightarrow>
    tick_step s (s\<lparr>ts_docs := ts_docs s @ [new_schedule newId ws inp by_whom now], ts_ids := insert newId (ts_ids s)\<rparr>)"
| removed: "tick_step s (s\<lparr>ts_docs := schedule_remove ws i (ts_docs s)\<rparr>)"

inductive_cases tick_stepE: "tick_step s t"

definition no_schedules :: "tick_state \<Rightarrow> bool" where
  "no_schedules s \<longleftrightarrow> ts_docs s = [] \<and> ts_granted s = {#} \<and> ts_started s = [] \<and> ts_ids s = {}"

definition fired_up_to :: "schedule_doc list \<Rightarrow> id \<Rightarrow> time \<Rightarrow> bool" where
  "fired_up_to docs i occurrence \<longleftrightarrow> (\<forall>d \<in> set docs. sch_id d = i \<longrightarrow> (case sch_lastFiredFor d of None \<Rightarrow> False | Some l \<Rightarrow> occurrence \<le> l))"

definition claims :: "tick_state \<Rightarrow> (id \<times> time) multiset" where
  "claims s = ts_granted s + mset (ts_started s)"

definition tick_ok :: "tick_state \<Rightarrow> bool" where
  "tick_ok s \<longleftrightarrow> distinct (map sch_id (ts_docs s)) \<and> set (map sch_id (ts_docs s)) \<subseteq> ts_ids s \<and>
     (\<forall>x. count (claims s) x \<le> 1) \<and> (\<forall>(i, occurrence) \<in># claims s. i \<in> ts_ids s \<and> fired_up_to (ts_docs s) i occurrence)"

lemma tick_okD:
  assumes "tick_ok s"
  shows "distinct (map sch_id (ts_docs s))" "set (map sch_id (ts_docs s)) \<subseteq> ts_ids s"
    "(i, u) \<in># claims s \<Longrightarrow> i \<in> ts_ids s \<and> fired_up_to (ts_docs s) i u" "count (claims s) x \<le> 1"
  using assms unfolding tick_ok_def by blast+

lemma tick_ok_mono:
  assumes "tick_ok s" "claims t \<subseteq># claims s" "ts_ids s \<subseteq> ts_ids t" "distinct (map sch_id (ts_docs t))"
    "set (map sch_id (ts_docs t)) \<subseteq> ts_ids t"
    "\<And>i u. i \<in> ts_ids s \<Longrightarrow> fired_up_to (ts_docs s) i u \<Longrightarrow> fired_up_to (ts_docs t) i u"
  shows "tick_ok t"
proof -
  have once: "count (claims t) x \<le> 1" for x
    using tick_okD(4) [OF assms(1), of x] mset_subset_eq_count [OF assms(2), of x] by linarith
  have "i \<in> ts_ids t \<and> fired_up_to (ts_docs t) i u" if "(i, u) \<in># claims t" for i u
  proof -
    have "(i, u) \<in># claims s" using mset_subset_eqD [OF assms(2) that] .
    with assms(1) have "i \<in> ts_ids s" "fired_up_to (ts_docs s) i u" by (auto simp: tick_ok_def)
    with assms(3,6) show ?thesis by blast
  qed
  with once assms(4,5) show ?thesis by (auto simp: tick_ok_def)
qed

text \<open>Writes that keep the ids and what was fired for.\<close>

lemma quiet_tick:
  assumes "tick_ok s" "\<And>d. sch_id (f d) = sch_id d" "\<And>d. sch_lastFiredFor (f d) = sch_lastFiredFor d"
  shows "tick_ok (s\<lparr>ts_docs := update_first P f (ts_docs s)\<rparr>)"
proof (rule tick_ok_mono [OF assms(1)])
  have "map sch_id (update_first P f (ts_docs s)) = map sch_id (ts_docs s)" by (rule map_update_first) (rule assms(2))
  with tick_okD(1,2) [OF assms(1)]
  show "distinct (map sch_id (ts_docs (s\<lparr>ts_docs := update_first P f (ts_docs s)\<rparr>)))"
    "set (map sch_id (ts_docs (s\<lparr>ts_docs := update_first P f (ts_docs s)\<rparr>))) \<subseteq> ts_ids (s\<lparr>ts_docs := update_first P f (ts_docs s)\<rparr>)"
    by simp_all
  fix i u
  assume up: "fired_up_to (ts_docs s) i u"
  show "fired_up_to (ts_docs (s\<lparr>ts_docs := update_first P f (ts_docs s)\<rparr>)) i u"
    unfolding fired_up_to_def
  proof (intro ballI impI)
    fix d
    assume "d \<in> set (ts_docs (s\<lparr>ts_docs := update_first P f (ts_docs s)\<rparr>))" "sch_id d = i"
    with in_set_update_firstD [of d P f "ts_docs s"] assms(2,3) obtain e where "e \<in> set (ts_docs s)" "sch_id e = i" "sch_lastFiredFor d = sch_lastFiredFor e"
      by auto
    with up show "case sch_lastFiredFor d of None \<Rightarrow> False | Some l \<Rightarrow> u \<le> l" by (auto simp: fired_up_to_def)
  qed
qed (simp_all add: claims_def)

lemma set_remove_one: "set (remove_one P xs) \<subseteq> set xs"
  by (induction xs) auto

lemma distinct_remove_one: "distinct (map f xs) \<Longrightarrow> distinct (map f (remove_one P xs))"
  using set_remove_one by (induction xs) (auto, fastforce)

lemma tick_ok_claim:
  assumes "tick_ok s" "claimOccurrence ws i occurrence now (ts_docs s) = (True, docs)"
  shows "tick_ok (s\<lparr>ts_docs := docs, ts_granted := add_mset (i, occurrence) (ts_granted s)\<rparr>)"
proof -
  let ?P = "claimable_for ws i occurrence" and ?f = "\<lambda>d. d\<lparr>sch_lastFiredFor := Some occurrence, sch_updatedAt := now\<rparr>"
  from assms(2) have ex: "list_ex ?P (ts_docs s)" and docs: "docs = update_first ?P ?f (ts_docs s)"
    by (auto simp: claimOccurrence_def)
  obtain ys d zs where split: "ts_docs s = ys @ d # zs" "?P d" "docs = ys @ ?f d # zs"
    using ex docs by (metis update_first_split)
  from split(2) obtain l where d: "sch_id d = i" "sch_lastFiredFor d = Some l" "l < occurrence"
    by (auto simp: claimable_for_def at_schedule_def split: option.splits)
  have others: "sch_id e \<noteq> i" if "e \<in> set ys \<union> set zs" for e
  proof -
    have "i \<notin> sch_id ` (set ys \<union> set zs)" using tick_okD(1) [OF assms(1)] split(1) d(1) by auto
    with that show ?thesis by auto
  qed
  have new: "(i, occurrence) \<notin># claims s"
  proof
    assume "(i, occurrence) \<in># claims s"
    with tick_okD(3) [OF assms(1)] have "fired_up_to (ts_docs s) i occurrence" by blast
    with split(1) d show False by (auto simp: fired_up_to_def)
  qed
  have keep: "fired_up_to docs j t" if "fired_up_to (ts_docs s) j t" for j t
    using that split d others by (auto simp: fired_up_to_def)
  have this': "fired_up_to docs i occurrence" using split(3) others by (auto simp: fired_up_to_def)
  have ids: "map sch_id docs = map sch_id (ts_docs s)" by (simp add: split(1,3))
  have i: "i \<in> ts_ids s" using tick_okD(2) [OF assms(1)] split(1) d(1) by auto
  define t where "t = s\<lparr>ts_docs := docs, ts_granted := add_mset (i, occurrence) (ts_granted s)\<rparr>"
  have claims: "claims t = add_mset (i, occurrence) (claims s)" by (simp add: t_def claims_def)
  have "count (claims t) x \<le> 1" for x
    using tick_okD(4) [OF assms(1), of x] new by (auto simp: claims not_in_iff)
  moreover have "j \<in> ts_ids t \<and> fired_up_to (ts_docs t) j u" if "(j, u) \<in># claims t" for j u
    using that i this' keep tick_okD(3) [OF assms(1), of j u] unfolding claims by (auto simp: t_def)
  ultimately have "tick_ok t" using tick_okD(1,2) [OF assms(1)] ids by (auto simp: tick_ok_def t_def)
  then show ?thesis by (simp add: t_def)
qed

lemma quiet_writes:
  "tick_ok s \<Longrightarrow> tick_ok (s\<lparr>ts_docs := recordRun ws i runId (ts_docs s)\<rparr>)"
  "tick_ok s \<Longrightarrow> tick_ok (s\<lparr>ts_docs := write_failure ws i n err now (ts_docs s)\<rparr>)"
  "tick_ok s \<Longrightarrow> tick_ok (s\<lparr>ts_docs := schedule_setEnabled ws i enabled now (ts_docs s)\<rparr>)"
  unfolding recordRun_def write_failure_def schedule_setEnabled_def by (rule quiet_tick; simp)+

lemma tick_ok_removed:
  assumes "tick_ok s"
  shows "tick_ok (s\<lparr>ts_docs := schedule_remove ws i (ts_docs s)\<rparr>)"
proof (rule tick_ok_mono [OF assms])
  have sub: "set (remove_one P xs) \<subseteq> set xs" for P :: "schedule_doc \<Rightarrow> bool" and xs by (rule set_remove_one)
  show "set (map sch_id (ts_docs (s\<lparr>ts_docs := schedule_remove ws i (ts_docs s)\<rparr>))) \<subseteq> ts_ids (s\<lparr>ts_docs := schedule_remove ws i (ts_docs s)\<rparr>)"
    using tick_okD(2) [OF assms] sub by (fastforce simp: schedule_remove_def)
  show "fired_up_to (ts_docs (s\<lparr>ts_docs := schedule_remove ws i (ts_docs s)\<rparr>)) j u" if "fired_up_to (ts_docs s) j u" for j u
    using that sub unfolding fired_up_to_def schedule_remove_def by fastforce
  show "distinct (map sch_id (ts_docs (s\<lparr>ts_docs := schedule_remove ws i (ts_docs s)\<rparr>)))"
    using distinct_remove_one [OF tick_okD(1) [OF assms]] by (simp add: schedule_remove_def)
qed (simp_all add: claims_def)

lemma tick_ok_created:
  assumes "tick_ok s" "newId \<notin> ts_ids s"
  shows "tick_ok (s\<lparr>ts_docs := ts_docs s @ [new_schedule newId ws inp by_whom now], ts_ids := insert newId (ts_ids s)\<rparr>)"
proof (rule tick_ok_mono [OF assms(1)])
  have id: "sch_id (new_schedule newId ws inp by_whom now) = newId" by (simp add: new_schedule_def)
  show "fired_up_to (ts_docs (s\<lparr>ts_docs := ts_docs s @ [new_schedule newId ws inp by_whom now], ts_ids := insert newId (ts_ids s)\<rparr>)) j u"
    if "j \<in> ts_ids s" "fired_up_to (ts_docs s) j u" for j u
    using that assms(2) id unfolding fired_up_to_def by auto
  show "distinct (map sch_id (ts_docs (s\<lparr>ts_docs := ts_docs s @ [new_schedule newId ws inp by_whom now], ts_ids := insert newId (ts_ids s)\<rparr>)))"
    "set (map sch_id (ts_docs (s\<lparr>ts_docs := ts_docs s @ [new_schedule newId ws inp by_whom now], ts_ids := insert newId (ts_ids s)\<rparr>))) \<subseteq>
     ts_ids (s\<lparr>ts_docs := ts_docs s @ [new_schedule newId ws inp by_whom now], ts_ids := insert newId (ts_ids s)\<rparr>)"
    using tick_okD(1,2) [OF assms(1)] assms(2) id by auto
qed (auto simp: claims_def)

interpretation ticks: invariant_system no_schedules tick_step tick_ok
proof
  fix s t
  assume ok: "tick_ok s" and "tick_step s t"
  from this(2) show "tick_ok t"
  proof cases
    case (claim_lost ws i occurrence now docs)
    then have "docs = ts_docs s" by (auto simp: claimOccurrence_def update_first_none)
    with claim_lost ok show ?thesis by simp
  next
    case (run_started x rest)
    show ?thesis by (rule tick_ok_mono [OF ok]) (use tick_okD(1,2) [OF ok] run_started in \<open>auto simp: claims_def\<close>)
  next
    case (run_lost x rest)
    show ?thesis by (rule tick_ok_mono [OF ok]) (use tick_okD(1,2) [OF ok] run_lost in \<open>auto simp: claims_def\<close>)
  qed (simp_all add: ok tick_ok_claim quiet_writes tick_ok_removed tick_ok_created)
qed (simp add: no_schedules_def tick_ok_def claims_def)

text \<open>A tick that runs by itself is such a sequence of commands.\<close>

lemma fire_each_steps:
  assumes "fire_each env ids sch now occs w = (r, w')" "ts_docs s = sx_docs w"
  shows "\<exists>new. tick_step\<^sup>*\<^sup>* s (s\<lparr>ts_docs := sx_docs w', ts_started := new @ ts_started s\<rparr>) \<and>
    set new \<subseteq> {sch_id sch} \<times> set occs \<and> (\<forall>n. r = Inr n \<longrightarrow> n = length new)"
  using assms
proof (induction occs arbitrary: w s r)
  case Nil
  then have "s\<lparr>ts_docs := sx_docs w', ts_started := [] @ ts_started s\<rparr> = s" by (cases s) auto
  then have "tick_step\<^sup>*\<^sup>* s (s\<lparr>ts_docs := sx_docs w', ts_started := [] @ ts_started s\<rparr>)" by (metis rtranclp.rtrancl_refl)
  then show ?case using Nil(1) by (intro exI [of _ "[]"] conjI) auto
next
  case (Cons u occs)
  obtain won docs where cl: "claimOccurrence (sch_workspaceId sch) (sch_id sch) u now (sx_docs w) = (won, docs)" by (metis surj_pair)
  show ?case
  proof (cases won)
    case False
    let ?s = "s\<lparr>ts_docs := docs\<rparr>"
    have step: "tick_step s ?s" using claim_lost [of _ _ _ _ s docs] cl False Cons.prems(2) by auto
    from cl False Cons.prems have "fire_each env ids sch now occs (w\<lparr>sx_docs := docs\<rparr>) = (r, w')" by simp
    from Cons.IH [OF this, of ?s] obtain new where "tick_step\<^sup>*\<^sup>* ?s (?s\<lparr>ts_docs := sx_docs w', ts_started := new @ ts_started ?s\<rparr>)"
      "set new \<subseteq> {sch_id sch} \<times> set occs" "\<forall>n. r = Inr n \<longrightarrow> n = length new" by auto
    with step show ?thesis by (intro exI [of _ new]) (auto intro: converse_rtranclp_into_rtranclp)
  next
    case True
    let ?g = "s\<lparr>ts_docs := docs, ts_granted := add_mset (sch_id sch, u) (ts_granted s)\<rparr>"
    have g: "tick_step s ?g" using claim_won [of _ _ _ _ s docs] cl True Cons.prems(2) by auto
    obtain q st where st: "schedule_startRun env (ids u) sch u now (sx_start w) = (q, st)" by (metis surj_pair)
    show ?thesis
    proof (cases q)
      case (Inl e)
      have "tick_step ?g (?g\<lparr>ts_granted := ts_granted s\<rparr>)" by (rule run_lost) simp
      moreover have "?g\<lparr>ts_granted := ts_granted s\<rparr> = s\<lparr>ts_docs := docs\<rparr>" by (cases s) simp
      ultimately have "tick_step\<^sup>*\<^sup>* s (s\<lparr>ts_docs := docs\<rparr>)" using g by simp
      moreover have "sx_docs w' = docs" "\<exists>e. r = Inl e" using Cons.prems(1) cl True st Inl by auto
      ultimately show ?thesis by (intro exI [of _ "[]"]) auto
    next
      case (Inr run)
      let ?d2 = "recordRun (sch_workspaceId sch) (sch_id sch) (rd_id run) docs"
      let ?s2 = "s\<lparr>ts_docs := ?d2, ts_started := (sch_id sch, u) # ts_started s\<rparr>"
      have "tick_step ?g (?g\<lparr>ts_granted := ts_granted s, ts_started := (sch_id sch, u) # ts_started ?g\<rparr>)" by (rule run_started) simp
      moreover have "?g\<lparr>ts_granted := ts_granted s, ts_started := (sch_id sch, u) # ts_started ?g\<rparr> =
          s\<lparr>ts_docs := docs, ts_started := (sch_id sch, u) # ts_started s\<rparr>" by (cases s) simp
      moreover have "tick_step (s\<lparr>ts_docs := docs, ts_started := (sch_id sch, u) # ts_started s\<rparr>) ?s2"
        using recorded [of "s\<lparr>ts_docs := docs, ts_started := (sch_id sch, u) # ts_started s\<rparr>" "sch_workspaceId sch" "sch_id sch" "rd_id run"]
        by (cases s) simp
      ultimately have s2: "tick_step\<^sup>*\<^sup>* s ?s2"
        using g by (auto intro: converse_rtranclp_into_rtranclp)
      obtain r' where f: "fire_each env ids sch now occs (w\<lparr>sx_start := st, sx_docs := ?d2\<rparr>) = (r', w')"
        and r': "\<forall>n. r = Inr n \<longrightarrow> (\<exists>m. r' = Inr m \<and> n = Suc m)"
        using Cons.prems(1) cl True st Inr by (auto split: prod.splits sum.splits)
      from Cons.IH [OF f, of ?s2] obtain new where "tick_step\<^sup>*\<^sup>* ?s2 (?s2\<lparr>ts_docs := sx_docs w', ts_started := new @ ts_started ?s2\<rparr>)"
        "set new \<subseteq> {sch_id sch} \<times> set occs" "\<forall>n. r' = Inr n \<longrightarrow> n = length new" by auto
      with s2 r' show ?thesis
        by (intro exI [of _ "new @ [(sch_id sch, u)]"]) (auto intro: rtranclp_trans)
    qed
  qed
qed

lemma tick_each_steps:
  assumes "tick_each env wall ids now schedules n w = (n', w')" "ts_docs s = sx_docs w"
  shows "\<exists>new. tick_step\<^sup>*\<^sup>* s (s\<lparr>ts_docs := sx_docs w', ts_started := new @ ts_started s\<rparr>) \<and> fst n' \<le> fst n + length new"
  using assms
proof (induction schedules arbitrary: w s n)
  case Nil
  then have "s\<lparr>ts_docs := sx_docs w', ts_started := [] @ ts_started s\<rparr> = s" by (cases s) auto
  then have "tick_step\<^sup>*\<^sup>* s (s\<lparr>ts_docs := sx_docs w', ts_started := [] @ ts_started s\<rparr>)" by (metis rtranclp.rtrancl_refl)
  then show ?case using Nil(1) by (intro exI [of _ "[]"] conjI) auto
next
  case (Cons sch rest)
  obtain fired failed where n: "n = (fired, failed)" by (metis surj_pair)
  obtain r w1 where f: "fireDue env wall (ids (sch_id sch)) sch now w = (r, w1)" by (metis surj_pair)
  obtain new where new: "tick_step\<^sup>*\<^sup>* s (s\<lparr>ts_docs := sx_docs w1, ts_started := new @ ts_started s\<rparr>)" "\<forall>k. r = Inr k \<longrightarrow> k = length new"
  proof (cases "parseCron (sch_expression sch)")
    case (Inl e)
    with f have "w1 = w" "r = Inl (Bad_expression e)" by (auto simp: fireDue_def)
    moreover have "s\<lparr>ts_docs := sx_docs w, ts_started := [] @ ts_started s\<rparr> = s" using Cons.prems(2) by (cases s) auto
    ultimately show thesis using that [of "[]"] by auto
  next
    case (Inr cron)
    with f obtain occs where "fire_each env (ids (sch_id sch)) sch now occs w = (r, w1)" by (auto simp: fireDue_def)
    from fire_each_steps [OF this Cons.prems(2)] show thesis using that by auto
  qed
  let ?s1 = "s\<lparr>ts_docs := sx_docs w1, ts_started := new @ ts_started s\<rparr>"
  show ?case
  proof (cases r)
    case (Inr k)
    from Cons.IH [of "(fired + k, failed)" w1 ?s1] Cons.prems n f Inr obtain new2 where
      "tick_step\<^sup>*\<^sup>* ?s1 (?s1\<lparr>ts_docs := sx_docs w', ts_started := new2 @ ts_started ?s1\<rparr>)" "fst n' \<le> fired + k + length new2" by auto
    with new Inr n show ?thesis by (intro exI [of _ "new2 @ new"]) (auto intro: rtranclp_trans)
  next
    case (Inl e)
    let ?w2 = "w1\<lparr>sx_docs := schedule_failure (sch_workspaceId sch) (sch_id sch) e now (sx_docs w1)\<rparr>"
    let ?s2 = "?s1\<lparr>ts_docs := sx_docs ?w2\<rparr>"
    have "tick_step ?s1 ?s2" using failed [of ?s1] by (simp add: schedule_failure_def Let_def)
    moreover from Cons.IH [of "(fired, failed + 1)" ?w2 ?s2] Cons.prems n f Inl obtain new2 where
      "tick_step\<^sup>*\<^sup>* ?s2 (?s2\<lparr>ts_docs := sx_docs w', ts_started := new2 @ ts_started ?s2\<rparr>)" "fst n' \<le> fired + length new2" by auto
    ultimately show ?thesis using new n
      by (intro exI [of _ "new2 @ new"]) (auto intro: rtranclp_trans converse_rtranclp_into_rtranclp)
  qed
qed

text \<open>
  C21. An occurrence fires once. Let any number of ticks overlap, on as many machines, with their commands in any order
  between each other and between every other change of the schedules, and let each of them fail or die at any point.
  No occurrence of a schedule ever has a run started for it twice, nor while another tick still holds the claim on it;
  and a tick that then runs to its end starts runs only for occurrences that had none.
\<close>

theorem schedule_fires_once:
  assumes "reach no_schedules tick_step s" "sx_docs w = ts_docs s" "tickSchedules env wall ids now w = (result, w')"
  shows "distinct (ts_started s) \<and> (\<forall>x \<in> set (ts_started s). x \<notin># ts_granted s) \<and>
    (\<exists>new. reach no_schedules tick_step (s\<lparr>ts_docs := sx_docs w', ts_started := new @ ts_started s\<rparr>) \<and>
      tr_fired result \<le> length new \<and> distinct (new @ ts_started s) \<and> (\<forall>x \<in> set new. x \<notin># ts_granted s))"
proof -
  have once: "distinct (ts_started t) \<and> (\<forall>x \<in> set (ts_started t). x \<notin># ts_granted t)" if "reach no_schedules tick_step t" for t
  proof -
    have le: "count (ts_granted t) x + count (mset (ts_started t)) x \<le> 1" for x
      using tick_okD(4) [OF ticks.inv_reach [OF that], of x] by (simp add: claims_def)
    have pos: "0 < count (mset (ts_started t)) x" if "x \<in> set (ts_started t)" for x
      using that by (simp add: count_greater_zero_iff)
    have "count (mset (ts_started t)) x = (if x \<in> set (ts_started t) then 1 else 0)" for x
    proof (cases "x \<in> set (ts_started t)")
      case True
      with le [of x] pos [OF True] have "count (mset (ts_started t)) x = 1" by linarith
      with True show ?thesis by simp
    next
      case False
      then have "x \<notin># mset (ts_started t)" by simp
      with False show ?thesis by (simp only: not_in_iff if_False)
    qed
    then have "distinct (ts_started t)" by (simp add: distinct_count_atmost_1)
    moreover have "x \<notin># ts_granted t" if "x \<in> set (ts_started t)" for x
    proof -
      have "count (ts_granted t) x = 0" using le [of x] pos [OF that] by linarith
      then show ?thesis by (simp only: not_in_iff)
    qed
    ultimately show ?thesis by blast
  qed
  obtain fired failed where t: "tick_each env wall ids now (enabledSchedules 500 (sx_docs w)) (0, 0) w = ((fired, failed), w')" "fired = tr_fired result"
    using assms(3) by (auto simp: tickSchedules_def Let_def split: prod.splits)
  from tick_each_steps [OF t(1), of s] assms(2) obtain new where
    new: "tick_step\<^sup>*\<^sup>* s (s\<lparr>ts_docs := sx_docs w', ts_started := new @ ts_started s\<rparr>)" "fired \<le> length new" by auto
  have "reach no_schedules tick_step (s\<lparr>ts_docs := sx_docs w', ts_started := new @ ts_started s\<rparr>)"
    by (rule ticks.reach_steps [OF new(1) assms(1)])
  from once [OF assms(1)] once [OF this] this new(2) t(2) show ?thesis by auto
qed

subsection \<open>The preview\<close>

text \<open>Nothing before the last \<open>cap\<close> days of the window is ever looked at.\<close>

lemma due_not_before:
  assumes "t \<in> set (dueBetween cron wall after until cap)" "0 < cap"
  shows "until div MINUTE_MS * MINUTE_MS - int cap * 24 * 60 * MINUTE_MS \<le> t \<and> t \<le> until"
proof -
  define stop where "stop = until div MINUTE_MS * MINUTE_MS"
  define earliest where "earliest = stop - int cap * 24 * 60 * MINUTE_MS"
  define start where "start = (if after div MINUTE_MS * MINUTE_MS + MINUTE_MS < earliest then earliest div MINUTE_MS * MINUTE_MS
    else after div MINUTE_MS * MINUTE_MS + MINUTE_MS)"
  have "MINUTE_MS dvd earliest" by (auto simp: earliest_def stop_def)
  then have "earliest \<le> start" by (auto simp: start_def dvd_div_mult_self)
  moreover have "dueBetween cron wall after until cap = take cap (filter (\<lambda>t. cron_matches cron (wall t)) (minutes start stop))"
    using due_walk_eq [of "[]" cap _ start stop] assms(2)
    unfolding dueBetween_def Let_def stop_def [symmetric] earliest_def [symmetric] start_def [symmetric] by simp
  then have "t \<in> set (minutes start stop)" using assms(1) by (auto dest: in_set_takeD)
  ultimately show ?thesis
    using minute_floor(1) [of until] by (auto simp: set_minutes earliest_def stop_def)
qed

text \<open>
  The date shown for the next run is more than a year away. The preview asks for the first occurrence of the next
  four hundred days, but with a cap of one the walk keeps only the last day of that window. So whatever the schedule,
  the date shown is at least three hundred and ninety-nine days ahead, even for a schedule that fires every minute.
\<close>

theorem next_run_far:
  assumes "nextRun wall expression timeZone now = Some t"
  shows "now + 399 * DAY_MS - MINUTE_MS < t \<and> t \<le> now + 400 * DAY_MS"
proof -
  from assms obtain cron where "t \<in> set (dueBetween cron (wall timeZone) now (now + PREVIEW_WINDOW_MS) 1)"
    by (auto simp: nextRun_def split: sum.splits list.splits) (metis list.set_intros(1))
  from due_not_before [OF this] minute_floor(2) [of "now + PREVIEW_WINDOW_MS"] show ?thesis
    by (simp add: PREVIEW_WINDOW_MS_def DAY_MS_def MINUTE_MS_def)
qed

theorem next_run_far_witness:
  "nextRun (\<lambda>zone t. sample_wall) ''* * * * *'' ''UTC'' 0 = Some (399 * DAY_MS) \<and> 0 + 399 * DAY_MS - MINUTE_MS < 399 * DAY_MS"
proof -
  let ?s = "\<lparr>cs_minute = [Star None], cs_hour = [Star None], cs_dayOfMonth = [Star None], cs_month = [Star None], cs_dayOfWeek = [Star None]\<rparr>"
  have s: "show_cron ?s = ''* * * * *''" "spec_ok ?s" by code_simp+
  have parsed: "parseCron ''* * * * *'' = Inr
      \<lparr>cf_minute = {0..59}, cf_hour = {0..23}, cf_dayOfMonth = {1..31}, cf_month = {1..12}, cf_dayOfWeek = (\<lambda>n. n mod 7) ` {0..7},
       cf_restrictsDayOfMonth = False, cf_restrictsDayOfWeek = False\<rparr>"
    using parse_shown [OF s(2)] s(1) by (auto simp: field_values_def every_def BOUNDS_def atLeastAtMost_def atLeast_def atMost_def Int_def)
  have "nextRun (\<lambda>zone t. sample_wall) ''* * * * *'' ''UTC'' 0 = Some (399 * DAY_MS)"
    by (simp add: nextRun_def parsed dueBetween_def Let_def PREVIEW_WINDOW_MS_def MINUTE_MS_def DAY_MS_def due_walk.simps
        cron_matches_def sample_wall_def)
  with next_run_far [OF this] show ?thesis by simp
qed

subsection \<open>In whose name\<close>

text \<open>
  A schedule outlives its author's membership. The run of an occurrence is started in the name of whoever created the
  schedule, as a member of the workspace, and membership is not looked at again: with the author removed from the
  workspace, their schedule still starts a run that acts with a member's permissions.
\<close>

theorem schedule_outlives_author:
  assumes "agent_by_id (sch_workspaceId s) (sch_agentId s) w = Some agent"
    "spendGate (se_bill env) now (sch_workspaceId s) None (sw_bill w) = Open"
    "membershipOf (ww_docs (bw_ws (sw_bill w))) (sch_workspaceId s) (sch_createdBy s) = None"
    "messageId (se_sha env) (fi_message ids) (fi_conversation ids) (Some (occurrence_key s u)) \<notin> set (map (msg_id \<circ> snd) (w_messages (sw_store w)))"
    "find_by_key (sch_workspaceId s) (occurrence_key s u) (db_runs (w_db (sw_store w))) = None"
    "\<forall>c \<in> set (sw_heads w). ch_channelId c \<noteq> None"
  shows "\<exists>run w'. schedule_startRun env ids s u now w = (Inr run, w') \<and> run \<in> set (db_runs (w_db (sw_store w'))) \<and>
    rd_status run = Queued \<and> rd_principal run = User (sch_createdBy s) (sch_workspaceId s) Member \<and> hasPermission (rd_principal run) Runs_create"
proof -
  let ?ws = "sch_workspaceId s" and ?k = "occurrence_key s u" and ?c = "fi_conversation ids"
  obtain w1 where w1: "conversation_create \<lparr>ch_id = ?c, ch_workspaceId = ?ws, ch_agentId = sch_agentId s,
    ch_modelBindingId = sch_modelBindingId s, ch_title = Some (occurrence_title s u), ch_channelId = None, ch_externalRef = None\<rparr> now w = Some w1"
    using assms(6) by (force simp: conversation_create_def ref_taken_def list_ex_iff)
  then have st: "w_messages (sw_store w1) = w_messages (sw_store w)" "w_db (sw_store w1) = w_db (sw_store w)"
    "?c \<in> set (map cv_id (w_convs (sw_store w1)))"
    by (auto simp: conversation_create_def split: if_splits)
  then have "find (\<lambda>c. cv_id c = ?c) (w_convs (sw_store w1)) \<noteq> None" by (auto simp: find_None_iff)
  with assms(4) st obtain doc w2 where ap: "append_keyed (se_sha env) (fi_message ids) ?c (Some ?k) now (user_text (sch_prompt s)) w1 = (Inr doc, w2)"
    by (auto simp: append_keyed_def repo_appendMessage_def allocateSeq_def Let_def)
  have db: "w_db (sw_store w2) = w_db (sw_store w)" using append_keyed_ok [OF ap] st(2) by simp
  let ?inp = "run_input env ?ws ?c agent (sch_modelBindingId s) (''schedule'', Some (sch_id s)) (User (sch_createdBy s) ?ws Member) DEFAULT_BUDGET (Some ?k) w2"
  have free: "\<not> key_taken ?ws (Some ?k) (db_runs (w_db (sw_store w)))"
    using assms(5) by (auto simp: key_taken_def find_by_key_def find_None_iff list_ex_iff)
  then obtain run w3 where c: "run_create (fi_run ids) ?ws now ?inp w2 = (Inr run, w3)" "run = new_run (fi_run ids) ?ws now ?inp"
    "run \<in> set (db_runs (w_db (sw_store w3)))"
    using assms(5) db by (auto simp: run_create_def create_def run_input_def Let_def)
  have "schedule_startRun env ids s u now w = (Inr run, w3)"
    using assms(1,2) ap c(1) w1 by (simp add: schedule_startRun_def Let_def)
  moreover have "Runs_create \<in> set (ROLE_PERMISSIONS Member)" by code_simp
  ultimately show ?thesis using c(2,3)
    by (auto simp: new_run_def run_input_def hasPermission_def)
qed

text \<open>A schedule of somebody who is no member: every minute, last fired for the start of the day.\<close>

definition bobs_schedule :: schedule_doc where
  "bobs_schedule = new_schedule ''s1'' ''w1'' \<lparr>sin_name = ''News'', sin_expression = ''* * * * *'', sin_timeZone = ''UTC'', sin_agentId = ''a1'',
     sin_modelBindingId = ''b1'', sin_prompt = ''What is new?''\<rparr> ''bob'' 0"

definition sched_sample :: sched_world where
  "sched_sample = \<lparr>sx_docs = [bobs_schedule], sx_start = empty_start\<rparr>"

definition sample_tick :: "tick_result \<times> sched_world" where
  "sample_tick = tickSchedules sample_start_env (\<lambda>zone t. sample_wall) (\<lambda>i t. sample_ids) 60000 sched_sample"

theorem schedule_outlives_author_witness:
  "\<exists>run w'. schedule_startRun sample_start_env sample_ids bobs_schedule 60000 60000 empty_start = (Inr run, w') \<and>
     rd_principal run = User ''bob'' ''w1'' Member \<and> membershipOf (ww_docs (bw_ws (sw_bill empty_start))) ''w1'' ''bob'' = None"
proof -
  have s: "sch_workspaceId bobs_schedule = ''w1''" "sch_agentId bobs_schedule = ''a1''" "sch_createdBy bobs_schedule = ''bob''"
    by (simp_all add: bobs_schedule_def new_schedule_def)
  have facts: "agent_by_id ''w1'' ''a1'' empty_start = Some sample_agent"
    "spendGate (se_bill sample_start_env) 60000 ''w1'' None (sw_bill empty_start) = Open"
    "membershipOf (ww_docs (bw_ws (sw_bill empty_start))) ''w1'' ''bob'' = None"
    by code_simp+
  have empty: "w_messages (sw_store empty_start) = []" "db_runs (w_db (sw_store empty_start)) = []" "sw_heads empty_start = []"
    by (simp_all add: empty_start_def empty_store_world_def)
  from schedule_outlives_author [of bobs_schedule empty_start sample_agent sample_start_env 60000 sample_ids 60000] s facts empty
  show ?thesis by (auto simp: find_by_key_def)
qed

lemma sample_tick_fires: "tr_fired (fst sample_tick) = 1"
  by code_simp

theorem schedule_fires_once_witness:
  "\<exists>new. 1 \<le> length new \<and> distinct new \<and>
     reach no_schedules tick_step \<lparr>ts_docs = sx_docs (snd sample_tick), ts_granted = {#}, ts_started = new, ts_ids = {''s1''}\<rparr>"
proof -
  let ?none = "\<lparr>ts_docs = [], ts_granted = {#}, ts_started = [], ts_ids = {}\<rparr>"
  let ?s = "\<lparr>ts_docs = [bobs_schedule], ts_granted = {#}, ts_started = [], ts_ids = {''s1''}\<rparr>"
  have "tick_step ?none ?s"
    using created [of "''s1''" ?none "''w1''"] unfolding bobs_schedule_def by simp
  then have r: "reach no_schedules tick_step ?s" by (intro reach_step [OF reach_init]) (auto simp: no_schedules_def)
  have t: "tickSchedules sample_start_env (\<lambda>zone t. sample_wall) (\<lambda>i t. sample_ids) 60000 sched_sample = (fst sample_tick, snd sample_tick)"
    by (simp add: sample_tick_def)
  from schedule_fires_once [OF r _ t] sample_tick_fires show ?thesis by (auto simp: sched_sample_def)
qed

text \<open>
  A schedule fires into the first conversation only. Each occurrence opens a conversation of its own without a channel,
  and the index of the database admits one such conversation: with any conversation of the web application or of an
  earlier occurrence there, of whatever workspace, the occurrence is refused and nothing is started.
\<close>

theorem second_occurrence_refused:
  assumes "c \<in> set (sw_heads w)" "ch_channelId c = None" "ch_externalRef c = None"
    "agent_by_id (sch_workspaceId s) (sch_agentId s) w = Some agent"
    "spendGate (se_bill env) now (sch_workspaceId s) None (sw_bill w) = Open"
  shows "schedule_startRun env ids s u now w = (Inl Duplicate_conversation, w)"
proof -
  have "ref_taken \<lparr>ch_id = fi_conversation ids, ch_workspaceId = sch_workspaceId s, ch_agentId = sch_agentId s,
      ch_modelBindingId = sch_modelBindingId s, ch_title = Some (occurrence_title s u), ch_channelId = None, ch_externalRef = None\<rparr> (sw_heads w)"
    using assms(1-3) by (auto simp: ref_taken_def list_ex_iff)
  then show ?thesis using assms(4,5) by (simp add: schedule_startRun_def conversation_create_def Let_def)
qed

end
