(* ===== verification/Tokens.thy ===== *)
theory Tokens
  imports Json Cron
begin

text \<open>
  The credentials of a signed-in person: JSON web tokens (\<^verbatim>\<open>packages/auth/src/jwt.ts\<close>), access tokens and cookies
  (\<^verbatim>\<open>session.ts\<close>), and stored passwords (\<^verbatim>\<open>password.ts\<close>).

  The primitives of the platform (SHA-256, HMAC, RSA, scrypt, \<^verbatim>\<open>JSON.parse\<close>, URI decoding) are the fields of a
  record; a byte string is a \<^typ>\<open>string\<close>. A segment that parses to \<^verbatim>\<open>null\<close> makes the source throw where it is read; here
  it is refused by the check that reads it.
\<close>

record crypto =
  cy_sha256 :: "string \<Rightarrow> string"
  cy_sha256_hex :: "string \<Rightarrow> string"
  cy_hmac :: "string \<Rightarrow> string \<Rightarrow> string"
  cy_parse :: "string \<Rightarrow> jsv option"
  cy_decodeURI :: "string \<Rightarrow> string option"
  cy_nfkc :: "string \<Rightarrow> string"
  cy_scrypt :: "string \<Rightarrow> string \<Rightarrow> nat \<Rightarrow> int \<times> int \<times> int \<Rightarrow> string option"
  cy_rsa :: "string \<Rightarrow> string \<Rightarrow> string \<Rightarrow> bool"

subsection \<open>base64url\<close>

text \<open>\<^verbatim>\<open>toString('base64url')\<close> and \<^verbatim>\<open>Buffer.from(s, 'base64url')\<close>, which skips what is not of the alphabet and stops at padding.\<close>

definition symbols :: string where
  "symbols = ''ABCDEFGHIJKLMNOPQRSTUVWXYZabcdefghijklmnopqrstuvwxyz0123456789-_''"

definition b64_symbol :: "int \<Rightarrow> char" where
  "b64_symbol i = symbols ! nat i"

definition sym_value :: "char \<Rightarrow> int option" where
  "sym_value c =
     (if c = CHR ''+'' then Some 62 else if c = CHR ''/'' then Some 63
      else map_option int (map_of (zip symbols [0..<64]) c))"

fun base64url :: "string \<Rightarrow> string" where
  "base64url [] = []"
| "base64url [a] = [b64_symbol (of_char a div 4), b64_symbol (of_char a mod 4 * 16)]"
| "base64url [a, b] = [b64_symbol (of_char a div 4), b64_symbol (of_char a mod 4 * 16 + of_char b div 16), b64_symbol (of_char b mod 16 * 4)]"
| "base64url (a # b # c # s) =
     [b64_symbol (of_char a div 4), b64_symbol (of_char a mod 4 * 16 + of_char b div 16), b64_symbol (of_char b mod 16 * 4 + of_char c div 64),
      b64_symbol (of_char c mod 64)] @ base64url s"

fun sextets :: "int list \<Rightarrow> string" where
  "sextets (a # b # c # d # r) =
     [char_of (a * 4 + b div 16), char_of (b mod 16 * 16 + c div 4), char_of (c mod 4 * 64 + d)] @ sextets r"
| "sextets [a, b, c] = [char_of (a * 4 + b div 16), char_of (b mod 16 * 16 + c div 4)]"
| "sextets [a, b] = [char_of (a * 4 + b div 16)]"
| "sextets r = []"

definition unbase64url :: "string \<Rightarrow> string" where
  "unbase64url s = sextets (List.map_filter sym_value (takeWhile (\<lambda>c. c \<noteq> CHR ''='') s))"

lemma sym_in:
  assumes "0 \<le> i" "i < 64"
  shows "b64_symbol i \<in> set symbols"
proof -
  have "length symbols = 64" by code_simp
  then show ?thesis unfolding b64_symbol_def using assms by (intro nth_mem) simp
qed

lemma symbols_not: "CHR ''.'' \<notin> set symbols" "CHR ''='' \<notin> set symbols" "CHR ''$'' \<notin> set symbols"
  by code_simp+

lemma sym_value_sym:
  assumes "0 \<le> i" "i < 64"
  shows "sym_value (b64_symbol i) = Some i"
proof -
  have "\<forall>i \<in> {0..<64}. sym_value (symbols ! i) = Some (int i)" by code_simp
  then have "sym_value (symbols ! nat i) = Some (int (nat i))" using assms by (auto simp: nat_less_iff)
  with assms show ?thesis by (simp add: b64_symbol_def)
qed

lemma of_char_range: "0 \<le> (of_char c :: int)" "(of_char c :: int) < 256"
  using pos_mod_sign [of 256 "of_char c :: int"] pos_mod_bound [of 256 "of_char c :: int"] by simp_all

lemma sextet_range:
  fixes a b c :: char
  shows "0 \<le> (of_char a :: int) div 4" "(of_char a :: int) div 4 < 64"
    "0 \<le> of_char a mod 4 * 16 + (of_char b :: int) div 16" "of_char a mod 4 * 16 + (of_char b :: int) div 16 < 64"
    "0 \<le> of_char b mod 16 * 4 + (of_char c :: int) div 64" "of_char b mod 16 * 4 + (of_char c :: int) div 64 < 64"
    "0 \<le> (of_char a :: int) mod 4 * 16" "(of_char a :: int) mod 4 * 16 < 64"
    "0 \<le> (of_char b :: int) mod 16 * 4" "(of_char b :: int) mod 16 * 4 < 64"
    "0 \<le> (of_char c :: int) mod 64" "(of_char c :: int) mod 64 < 64"
  using of_char_range [of a] of_char_range [of b] of_char_range [of c] by linarith+

lemma byte_parts:
  fixes c :: char
  shows "(of_char c :: int) div 16 div 16 = 0" "(of_char c :: int) div 16 mod 16 = of_char c div 16"
    "(of_char c :: int) div 64 div 4 = 0" "(of_char c :: int) div 64 mod 4 = of_char c div 64"
    "char_of ((of_char c :: int) div 64 * 64 + of_char c mod 64) = c" "char_of ((of_char c :: int) div 16 * 16 + of_char c mod 16) = c"
  using of_char_range [of c] by simp_all

lemma base64url_symbols: "set (base64url s) \<subseteq> set symbols"
  by (induction s rule: base64url.induct) (simp_all add: sym_in sextet_range)

lemma base64url_plain: "c \<notin> set symbols \<Longrightarrow> c \<notin> set (base64url s)"
  using base64url_symbols by blast

lemma unbase64url_base64url: "unbase64url (base64url s) = s"
proof -
  have all: "takeWhile (\<lambda>c. c \<noteq> CHR ''='') (base64url s) = base64url s"
    using base64url_plain [OF symbols_not(2)] by (auto simp: takeWhile_eq_all_conv)
  have "sextets (List.map_filter sym_value (base64url s)) = s"
    by (induction s rule: base64url.induct) (simp_all add: map_filter_simps sym_value_sym sextet_range byte_parts)
  then show ?thesis by (simp only: unbase64url_def all)
qed

subsection \<open>JSON web tokens\<close>

datatype jwt_error =
    Malformed_token
  | Wrong_algorithm
  | Wrong_key
  | Bad_signature
  | Wrong_issuer
  | Wrong_audience
  | No_expiry
  | Token_expired
  | Not_yet_valid
  | No_subject
  | Wrong_nonce
  | Missing_claims

text \<open>\<^verbatim>\<open>claims[k]\<close> of a parsed value.\<close>

definition claim_of :: "jsv \<Rightarrow> string \<Rightarrow> jsv" where
  "claim_of v k = (case v of JObj es \<Rightarrow> (case map_of es k of Some x \<Rightarrow> x | None \<Rightarrow> JUndefined) | _ \<Rightarrow> JUndefined)"

text \<open>Assigning to a key of an object: the key keeps its place when it is there.\<close>

definition object_set :: "(string \<times> jsv) list \<Rightarrow> string \<times> jsv \<Rightarrow> (string \<times> jsv) list" where
  "object_set es e = (if fst e \<in> fst ` set es then map (\<lambda>x. if fst x = fst e then e else x) es else es @ [e])"

definition jwt_payload :: "(string \<times> jsv) list \<Rightarrow> string \<Rightarrow> string \<Rightarrow> string \<Rightarrow> int \<Rightarrow> int \<Rightarrow> jsv" where
  "jwt_payload claims iss aud sub issuedAt expiresIn =
     JObj (foldl object_set claims
       [(''iss'', JStr iss), (''aud'', JStr aud), (''sub'', JStr sub), (''iat'', JNum issuedAt), (''exp'', JNum (issuedAt + expiresIn))])"

definition jwt_header :: jsv where
  "jwt_header = JObj [(''alg'', JStr ''HS256''), (''typ'', JStr ''JWT'')]"

definition signHs256 ::
  "crypto \<Rightarrow> string \<Rightarrow> string \<Rightarrow> string \<Rightarrow> string \<Rightarrow> int \<Rightarrow> (string \<times> jsv) list \<Rightarrow> time \<Rightarrow> string" where
  "signHs256 cy secret iss aud sub expiresIn claims now =
     (let payload = jwt_payload claims iss aud sub (now div 1000) expiresIn;
          signingInput = base64url (jsonStringify jwt_header) @ ''.'' @ base64url (jsonStringify payload)
      in signingInput @ ''.'' @ base64url (cy_hmac cy secret signingInput))"

record parsed_jwt =
  pj_header :: jsv
  pj_claims :: jsv
  pj_signingInput :: string
  pj_signature :: string

definition parse_jwt :: "crypto \<Rightarrow> string \<Rightarrow> jwt_error + parsed_jwt" where
  "parse_jwt cy token =
     (case split_on CHR ''.'' token of
        [h, p, s] \<Rightarrow>
          (case (cy_parse cy (unbase64url h), cy_parse cy (unbase64url p)) of
             (Some header, Some claims) \<Rightarrow>
               Inr \<lparr>pj_header = header, pj_claims = claims, pj_signingInput = h @ ''.'' @ p, pj_signature = unbase64url s\<rparr>
           | _ \<Rightarrow> Inl Malformed_token)
      | _ \<Rightarrow> Inl Malformed_token)"

definition unverifiedKeyId :: "crypto \<Rightarrow> string \<Rightarrow> jwt_error + string option" where
  "unverifiedKeyId cy token =
     map_sum id (\<lambda>parsed. case claim_of (pj_header parsed) ''kid'' of JStr kid \<Rightarrow> Some kid | _ \<Rightarrow> None) (parse_jwt cy token)"

record verify_options =
  vo_issuers :: "string list"
  vo_audience :: string
  vo_tolerance :: int
  vo_nonce :: "string option"

definition CLOCK_TOLERANCE :: int where
  "CLOCK_TOLERANCE = 60"

definition audiences :: "jsv \<Rightarrow> jsv list" where
  "audiences aud = (case aud of JArr vs \<Rightarrow> vs | v \<Rightarrow> [v])"

definition checkClaims :: "jsv \<Rightarrow> verify_options \<Rightarrow> time \<Rightarrow> jwt_error option" where
  "checkClaims claims opts now =
     (let seconds = now div 1000
      in if \<not> (\<exists>i \<in> set (vo_issuers opts). claim_of claims ''iss'' = JStr i) then Some Wrong_issuer
         else if JStr (vo_audience opts) \<notin> set (audiences (claim_of claims ''aud'')) then Some Wrong_audience
         else
           (case claim_of claims ''exp'' of
              JNum expires \<Rightarrow>
                (if expires + vo_tolerance opts < seconds then Some Token_expired
                 else if (case claim_of claims ''nbf'' of JNum nbf \<Rightarrow> seconds + vo_tolerance opts < nbf | _ \<Rightarrow> False) then Some Not_yet_valid
                 else
                   (case claim_of claims ''sub'' of
                      JStr sub \<Rightarrow>
                        (if sub = [] then Some No_subject
                         else
                           (case vo_nonce opts of
                              None \<Rightarrow> None
                            | Some nonce \<Rightarrow> if claim_of claims ''nonce'' = JStr nonce then None else Some Wrong_nonce))
                    | _ \<Rightarrow> Some No_subject))
            | _ \<Rightarrow> Some No_expiry))"

definition verifyHs256 :: "crypto \<Rightarrow> string \<Rightarrow> string \<Rightarrow> verify_options \<Rightarrow> time \<Rightarrow> jwt_error + jsv" where
  "verifyHs256 cy token secret opts now =
     (case parse_jwt cy token of
        Inl e \<Rightarrow> Inl e
      | Inr parsed \<Rightarrow>
          (if claim_of (pj_header parsed) ''alg'' \<noteq> JStr ''HS256'' then Inl Wrong_algorithm
           else if pj_signature parsed \<noteq> cy_hmac cy secret (pj_signingInput parsed) then Inl Bad_signature
           else
             (case checkClaims (pj_claims parsed) opts now of
                Some e \<Rightarrow> Inl e
              | None \<Rightarrow> Inr (pj_claims parsed))))"

record jwk =
  jwk_kty :: string
  jwk_kid :: "string option"
  jwk_material :: string

definition verifyRs256 :: "crypto \<Rightarrow> string \<Rightarrow> jwk \<Rightarrow> verify_options \<Rightarrow> time \<Rightarrow> jwt_error + jsv" where
  "verifyRs256 cy token key opts now =
     (case parse_jwt cy token of
        Inl e \<Rightarrow> Inl e
      | Inr parsed \<Rightarrow>
          (if claim_of (pj_header parsed) ''alg'' \<noteq> JStr ''RS256'' then Inl Wrong_algorithm
           else if jwk_kty key \<noteq> ''RSA'' then Inl Wrong_key
           else if \<not> cy_rsa cy (jwk_material key) (pj_signingInput parsed) (pj_signature parsed) then Inl Bad_signature
           else
             (case checkClaims (pj_claims parsed) opts now of
                Some e \<Rightarrow> Inl e
              | None \<Rightarrow> Inr (pj_claims parsed))))"

subsection \<open>Access tokens\<close>

definition ACCESS_TOKEN_TTL_SECONDS :: int where
  "ACCESS_TOKEN_TTL_SECONDS = 15 * 60"

definition AUDIENCE :: string where
  "AUDIENCE = ''salvations''"

record auth_config =
  cf_secret :: string
  cf_issuer :: string

definition issueAccessToken :: "crypto \<Rightarrow> auth_config \<Rightarrow> id \<Rightarrow> id \<Rightarrow> string \<Rightarrow> time \<Rightarrow> string" where
  "issueAccessToken cy cfg userId sessionId email now =
     signHs256 cy (cf_secret cfg) (cf_issuer cfg) AUDIENCE userId ACCESS_TOKEN_TTL_SECONDS
       [(''sid'', JStr sessionId), (''email'', JStr email)] now"

record session_claims =
  scl_sub :: id
  scl_sid :: id
  scl_email :: string

definition access_options :: "auth_config \<Rightarrow> verify_options" where
  "access_options cfg = \<lparr>vo_issuers = [cf_issuer cfg], vo_audience = AUDIENCE, vo_tolerance = CLOCK_TOLERANCE, vo_nonce = None\<rparr>"

definition verifyAccessToken :: "crypto \<Rightarrow> auth_config \<Rightarrow> string \<Rightarrow> time \<Rightarrow> jwt_error + session_claims" where
  "verifyAccessToken cy cfg token now =
     (case verifyHs256 cy token (cf_secret cfg) (access_options cfg) now of
        Inl e \<Rightarrow> Inl e
      | Inr claims \<Rightarrow>
          (case (claim_of claims ''sub'', claim_of claims ''sid'', claim_of claims ''email'') of
             (JStr sub, JStr sid, JStr email) \<Rightarrow> Inr \<lparr>scl_sub = sub, scl_sid = sid, scl_email = email\<rparr>
           | _ \<Rightarrow> Inl Missing_claims))"

subsection \<open>Cookies\<close>

definition ACCESS_COOKIE :: string where
  "ACCESS_COOKIE = ''salv_at''"

definition REFRESH_COOKIE :: string where
  "REFRESH_COOKIE = ''salv_rt''"

datatype cookie = Absent | Undecodable | Cookie string

fun cookie_in :: "crypto \<Rightarrow> string \<Rightarrow> string list \<Rightarrow> cookie" where
  "cookie_in cy name [] = Absent"
| "cookie_in cy name (part # parts) =
     (case index_of ''='' part of
        None \<Rightarrow> cookie_in cy name parts
      | Some n \<Rightarrow>
          (if trim (take n part) = name then
             (case cy_decodeURI cy (trim (drop (Suc n) part)) of None \<Rightarrow> Undecodable | Some v \<Rightarrow> Cookie v)
           else cookie_in cy name parts))"

definition readCookie :: "crypto \<Rightarrow> string option \<Rightarrow> string \<Rightarrow> cookie" where
  "readCookie cy header name =
     (case header of None \<Rightarrow> Absent | Some h \<Rightarrow> cookie_in cy name (split_on CHR '';'' h))"

record caller =
  clr_userId :: id
  clr_sessionId :: id
  clr_email :: string

text \<open>A cookie that cannot be decoded throws (\<^term>\<open>Inl ()\<close>); a token that is refused is nobody.\<close>

definition callerFromCookieHeader :: "crypto \<Rightarrow> auth_config \<Rightarrow> string option \<Rightarrow> time \<Rightarrow> unit + caller option" where
  "callerFromCookieHeader cy cfg header now =
     (case readCookie cy header ACCESS_COOKIE of
        Absent \<Rightarrow> Inr None
      | Undecodable \<Rightarrow> Inl ()
      | Cookie token \<Rightarrow>
          (case verifyAccessToken cy cfg token now of
             Inl e \<Rightarrow> Inr None
           | Inr c \<Rightarrow> Inr (Some \<lparr>clr_userId = scl_sub c, clr_sessionId = scl_sid c, clr_email = scl_email c\<rparr>)))"

subsection \<open>Passwords\<close>

definition SCRYPT_PARAMS :: "int \<times> int \<times> int" where
  "SCRYPT_PARAMS = (32768, 8, 1)"

definition hashPassword :: "crypto \<Rightarrow> string \<Rightarrow> string \<Rightarrow> string option" where
  "hashPassword cy salt plaintext =
     map_option (\<lambda>derived. join_with ''$''
         [''scrypt'', show_int (fst SCRYPT_PARAMS), show_int (fst (snd SCRYPT_PARAMS)), show_int (snd (snd SCRYPT_PARAMS)),
          base64url salt, base64url derived])
       (cy_scrypt cy (cy_nfkc cy plaintext) salt 32 SCRYPT_PARAMS)"

definition verifyPassword :: "crypto \<Rightarrow> string \<Rightarrow> string \<Rightarrow> bool" where
  "verifyPassword cy plaintext stored =
     (case split_on CHR ''$'' stored of
        [scheme, n, r, p, salt, hash] \<Rightarrow>
          scheme = ''scrypt'' \<and>
          (case (js_integer n, js_integer r, js_integer p) of
             (Some N, Some R, Some P) \<Rightarrow>
               \<not> (1048576 < N \<or> 32 < R \<or> 16 < P) \<and>
               (let expected = unbase64url hash
                in expected \<noteq> [] \<and> cy_scrypt cy (cy_nfkc cy plaintext) (unbase64url salt) (length expected) (N, R, P) = Some expected)
           | _ \<Rightarrow> False)
      | _ \<Rightarrow> False)"

text \<open>A cost that is not a number compares as not smaller.\<close>

definition below :: "string \<Rightarrow> int \<Rightarrow> bool" where
  "below text bound = (case js_number text of Some x \<Rightarrow> x < of_int bound | None \<Rightarrow> False)"

definition needsRehash :: "string \<Rightarrow> bool" where
  "needsRehash stored =
     (case split_on CHR ''$'' stored of
        [scheme, n, r, p, salt, hash] \<Rightarrow>
          scheme \<noteq> ''scrypt'' \<or> below n (fst SCRYPT_PARAMS) \<or> below r (fst (snd SCRYPT_PARAMS))
      | _ \<Rightarrow> True)"

subsection \<open>A token that was issued is the one that is accepted\<close>

lemma split_on_append: "c \<notin> set a \<Longrightarrow> split_on c (a @ c # b) = a # split_on c b"
  by (induction a) auto

lemma three_segments:
  assumes "c \<notin> set a" "c \<notin> set b" "c \<notin> set d"
  shows "split_on c (a @ [c] @ b @ [c] @ d) = [a, b, d]"
  using assms by (simp add: split_on_append split_on_no_sep)

lemma parse_signed:
  assumes "cy_parse cy (jsonStringify jwt_header) = Some jwt_header"
    "cy_parse cy (jsonStringify payload) = Some payload"
    "payload = jwt_payload claims iss aud sub (now div 1000) expiresIn"
  shows "\<exists>signingInput. parse_jwt cy (signHs256 cy secret iss aud sub expiresIn claims now) =
    Inr \<lparr>pj_header = jwt_header, pj_claims = payload, pj_signingInput = signingInput, pj_signature = cy_hmac cy secret signingInput\<rparr>"
proof -
  have plain: "CHR ''.'' \<notin> set (base64url s)" for s by (rule base64url_plain [OF symbols_not(1)])
  show ?thesis
    using three_segments [OF plain plain plain] assms
    by (simp add: signHs256_def parse_jwt_def Let_def unbase64url_base64url)
qed

lemma access_payload:
  "claim_of (jwt_payload [(''sid'', JStr s), (''email'', JStr e)] iss aud u t n) k =
     (if k = ''sid'' then JStr s else if k = ''email'' then JStr e else if k = ''iss'' then JStr iss else if k = ''aud'' then JStr aud
      else if k = ''sub'' then JStr u else if k = ''iat'' then JNum t else if k = ''exp'' then JNum (t + n) else JUndefined)"
  by (simp add: claim_of_def jwt_payload_def object_set_def)

text \<open>
  C11. An access token is accepted exactly as long as it was issued for. A token issued to a person for a session is
  verified, by a server with the same secret and issuer, to that person, session and address until a minute after its
  fifteen, and is refused as expired from then on; and whatever token is accepted carries the keyed hash of its own
  first two segments and names a person.
\<close>

theorem access_token_roundtrip:
  assumes "cy_parse cy (jsonStringify jwt_header) = Some jwt_header"
    and "payload = jwt_payload [(''sid'', JStr sid), (''email'', JStr email)] (cf_issuer cfg) AUDIENCE u (t div 1000) ACCESS_TOKEN_TTL_SECONDS"
    and "cy_parse cy (jsonStringify payload) = Some payload"
    and "u \<noteq> []"
  shows "verifyAccessToken cy cfg (issueAccessToken cy cfg u sid email t) now =
      (if now div 1000 \<le> t div 1000 + 960 then Inr \<lparr>scl_sub = u, scl_sid = sid, scl_email = email\<rparr> else Inl Token_expired) \<and>
    (verifyAccessToken cy cfg token now = Inr c \<longrightarrow>
       (\<exists>h p s. split_on CHR ''.'' token = [h, p, s] \<and> unbase64url s = cy_hmac cy (cf_secret cfg) (h @ ''.'' @ p)) \<and> scl_sub c \<noteq> [])"
proof (intro conjI impI)
  obtain signingInput where parsed: "parse_jwt cy (issueAccessToken cy cfg u sid email t) =
      Inr \<lparr>pj_header = jwt_header, pj_claims = payload, pj_signingInput = signingInput, pj_signature = cy_hmac cy (cf_secret cfg) signingInput\<rparr>"
    using parse_signed [OF assms(1,3,2), of "cf_secret cfg"] by (auto simp: issueAccessToken_def)
  have alg: "claim_of jwt_header ''alg'' = JStr ''HS256''" by (simp add: claim_of_def jwt_header_def)
  have checked: "checkClaims payload (access_options cfg) now = (if now div 1000 \<le> t div 1000 + 960 then None else Some Token_expired)"
    using assms(4) by (simp add: checkClaims_def assms(2) access_payload access_options_def audiences_def CLOCK_TOLERANCE_def
        ACCESS_TOKEN_TTL_SECONDS_def Let_def)
  show "verifyAccessToken cy cfg (issueAccessToken cy cfg u sid email t) now =
      (if now div 1000 \<le> t div 1000 + 960 then Inr \<lparr>scl_sub = u, scl_sid = sid, scl_email = email\<rparr> else Inl Token_expired)"
    by (simp add: verifyAccessToken_def verifyHs256_def parsed alg checked) (simp add: assms(2) access_payload)
next
  assume ok: "verifyAccessToken cy cfg token now = Inr c"
  show "\<exists>h p s. split_on CHR ''.'' token = [h, p, s] \<and> unbase64url s = cy_hmac cy (cf_secret cfg) (h @ ''.'' @ p)"
    using ok by (auto simp: verifyAccessToken_def verifyHs256_def parse_jwt_def split: sum.splits list.splits option.splits if_splits)
  show "scl_sub c \<noteq> []"
    using ok by (auto simp: verifyAccessToken_def verifyHs256_def checkClaims_def Let_def access_options_def
        split: sum.splits option.splits if_splits jsv.splits)
qed

definition sample_payload :: jsv where
  "sample_payload = jwt_payload [(''sid'', JStr ''ses_1''), (''email'', JStr ''a@b.c'')] ''https://host'' AUDIENCE ''usr_1'' 5 ACCESS_TOKEN_TTL_SECONDS"

definition sample_crypto :: crypto where
  "sample_crypto = \<lparr>cy_sha256 = (\<lambda>s. CHR ''h'' # s), cy_sha256_hex = (\<lambda>s. CHR ''x'' # s), cy_hmac = (\<lambda>key s. key @ s),
     cy_parse = (\<lambda>s. if s = jsonStringify jwt_header then Some jwt_header else if s = jsonStringify sample_payload then Some sample_payload else None),
     cy_decodeURI = Some, cy_nfkc = (\<lambda>s. s), cy_scrypt = (\<lambda>pw salt n cost. Some (take n (pw @ replicate n CHR ''z''))), cy_rsa = (\<lambda>key s sig. s = sig)\<rparr>"

definition sample_config :: auth_config where
  "sample_config = \<lparr>cf_secret = ''k'', cf_issuer = ''https://host''\<rparr>"

theorem access_token_roundtrip_witness:
  "verifyAccessToken sample_crypto sample_config (issueAccessToken sample_crypto sample_config ''usr_1'' ''ses_1'' ''a@b.c'' 5000) 6000 =
     Inr \<lparr>scl_sub = ''usr_1'', scl_sid = ''ses_1'', scl_email = ''a@b.c''\<rparr>"
proof -
  have differ: "jsonStringify sample_payload \<noteq> jsonStringify jwt_header" by code_simp
  from access_token_roundtrip [of sample_crypto sample_payload "''ses_1''" "''a@b.c''" sample_config "''usr_1''" 5000 6000] differ
  show ?thesis by (simp add: sample_crypto_def sample_config_def sample_payload_def)
qed

subsection \<open>Passwords\<close>

lemma scrypt_costs:
  "js_number (show_int (int n)) = Some (of_nat n)" "js_integer (show_int (int n)) = Some (int n)" "CHR ''$'' \<notin> set (show_int (int n))"
proof -
  have "\<not> is_digit CHR ''$''" by code_simp
  then show "CHR ''$'' \<notin> set (show_int (int n))"
    using show_nat_digits [of n] by (auto simp: show_int_def list_all_iff)
qed (simp_all add: show_int_def js_number_show_nat js_integer_show_nat)

text \<open>A stored password verifies with its own plaintext and needs no new hash; with another plaintext only if scrypt derives the same key.\<close>

theorem password_roundtrip:
  assumes "hashPassword cy salt password = Some stored"
    and "\<And>pw key. cy_scrypt cy pw salt 32 SCRYPT_PARAMS = Some key \<Longrightarrow> length key = 32"
  shows "verifyPassword cy other stored \<longleftrightarrow>
    cy_scrypt cy (cy_nfkc cy other) salt 32 SCRYPT_PARAMS = cy_scrypt cy (cy_nfkc cy password) salt 32 SCRYPT_PARAMS"
    and "\<not> needsRehash stored"
proof -
  from assms(1) obtain key where key: "cy_scrypt cy (cy_nfkc cy password) salt 32 SCRYPT_PARAMS = Some key"
    and stored: "stored = join_with ''$'' [''scrypt'', show_int 32768, show_int 8, show_int 1, base64url salt, base64url key]"
    by (auto simp: hashPassword_def SCRYPT_PARAMS_def)
  have "split_on CHR ''$'' stored = [''scrypt'', show_int 32768, show_int 8, show_int 1, base64url salt, base64url key]"
    unfolding stored
    using base64url_plain [OF symbols_not(3)] scrypt_costs(3) [of 32768] scrypt_costs(3) [of 8] scrypt_costs(3) [of 1]
    by (simp add: split_on_append split_on_no_sep)
  moreover have "length key = 32" by (rule assms(2) [OF key])
  ultimately show "verifyPassword cy other stored \<longleftrightarrow>
      cy_scrypt cy (cy_nfkc cy other) salt 32 SCRYPT_PARAMS = cy_scrypt cy (cy_nfkc cy password) salt 32 SCRYPT_PARAMS"
    and "\<not> needsRehash stored"
    using key scrypt_costs [of 32768] scrypt_costs [of 8] scrypt_costs [of 1]
    by (auto simp: verifyPassword_def needsRehash_def below_def js_integer_def unbase64url_base64url SCRYPT_PARAMS_def Let_def
        split: option.splits if_splits)
qed

end
