(* ===== verification/Sessions.thy ===== *)
theory Sessions
  imports Tokens Workspaces
begin

text \<open>
  People and their sessions: the user repository (\<^verbatim>\<open>packages/db/src/repositories/users.ts\<close>), starting a session
  (\<^verbatim>\<open>apps/web/src/lib/session.ts\<close>), the authentication routes (\<^verbatim>\<open>apps/web/src/app/api/auth\<close>), the codes that verify an
  address (\<^verbatim>\<open>lib/verification.ts\<close>) and the end of a Google sign-in (\<^verbatim>\<open>packages/auth/src/google.ts\<close>).

  A refresh reads the session and rotates it in two commands, so it is split into \<open>refresh_judge\<close> and
  \<open>refresh_commit\<close>; the step relation \<open>auth_step\<close> interleaves them with everything else. The random values of a request
  and the time it is served at are arguments. Mail is an outbox.
\<close>

subsection \<open>Documents\<close>

record user_doc =
  u_id :: id
  u_email :: string
  u_emailDisplay :: string
  u_emailVerifiedAt :: "time option"
  u_name :: "string option"
  u_passwordHash :: "string option"
  u_sessionEpoch :: int
  u_disabledAt :: "time option"
  u_walkthroughSeenAt :: "time option"
  u_createdAt :: time
  u_updatedAt :: time
  u_lastSignedInAt :: "time option"

record auth_session =
  ss_id :: id
  ss_userId :: id
  ss_refreshTokenHash :: string
  ss_sessionEpoch :: int
  ss_rotatedAt :: time
  ss_createdAt :: time
  ss_expiresAt :: time
  ss_idleExpiresAt :: time
  ss_userAgent :: "string option"
  ss_revokedAt :: "time option"
  ss_revokedReason :: "string option"

record identity_doc =
  idn_id :: id
  idn_userId :: id
  idn_subject :: string
  idn_email :: string
  idn_emailVerified :: bool
  idn_hostedDomain :: "string option"
  idn_createdAt :: time
  idn_lastUsedAt :: time

datatype challenge_kind = Email_verification | Password_reset | Chat_link

record auth_challenge =
  cl_id :: id
  cl_userId :: id
  cl_kind :: challenge_kind
  cl_tokenHash :: string
  cl_expiresAt :: time
  cl_consumedAt :: "time option"
  cl_attempts :: int
  cl_createdAt :: time

record auth_world =
  aw_users :: "user_doc list"
  aw_sessions :: "auth_session list"
  aw_identities :: "identity_doc list"
  aw_challenges :: "auth_challenge list"
  aw_mail :: "(string \<times> string) list"

subsection \<open>Users\<close>

definition user_by_id :: "id \<Rightarrow> auth_world \<Rightarrow> user_doc option" where
  "user_by_id u w = List.find (\<lambda>d. u_id d = u) (aw_users w)"

definition findByEmail :: "string \<Rightarrow> auth_world \<Rightarrow> user_doc option" where
  "findByEmail email w = List.find (\<lambda>d. u_email d = normaliseEmail email) (aw_users w)"

text \<open>\<^verbatim>\<open>create\<close>: the unique index over the address refuses a second account (\<^const>\<open>None\<close>).\<close>

definition create_user :: "id \<Rightarrow> string \<Rightarrow> string option \<Rightarrow> string option \<Rightarrow> bool \<Rightarrow> time \<Rightarrow> auth_world \<Rightarrow> (user_doc \<times> auth_world) option" where
  "create_user newId email name hash verified now w =
     (let doc = \<lparr>u_id = newId, u_email = normaliseEmail email, u_emailDisplay = trim email,
            u_emailVerifiedAt = (if verified then Some now else None), u_name = name, u_passwordHash = hash,
            u_sessionEpoch = 1, u_disabledAt = None, u_walkthroughSeenAt = None, u_createdAt = now, u_updatedAt = now,
            u_lastSignedInAt = None\<rparr>
      in if list_ex (\<lambda>d. u_email d = u_email doc \<or> u_id d = newId) (aw_users w) then None
         else Some (doc, w\<lparr>aw_users := aw_users w @ [doc]\<rparr>))"

definition update_user :: "(user_doc \<Rightarrow> bool) \<Rightarrow> (user_doc \<Rightarrow> user_doc) \<Rightarrow> auth_world \<Rightarrow> auth_world" where
  "update_user P f w = w\<lparr>aw_users := update_first P f (aw_users w)\<rparr>"

definition markEmailVerified :: "id \<Rightarrow> time \<Rightarrow> auth_world \<Rightarrow> auth_world" where
  "markEmailVerified u now =
     update_user (\<lambda>d. u_id d = u \<and> u_emailVerifiedAt d = None) (\<lambda>d. d\<lparr>u_emailVerifiedAt := Some now, u_updatedAt := now\<rparr>)"

definition setPassword :: "id \<Rightarrow> string \<Rightarrow> time \<Rightarrow> auth_world \<Rightarrow> auth_world" where
  "setPassword u hash now =
     update_user (\<lambda>d. u_id d = u)
       (\<lambda>d. d\<lparr>u_passwordHash := Some hash, u_updatedAt := now, u_sessionEpoch := u_sessionEpoch d + 1\<rparr>)"

definition markWalkthroughSeen :: "id \<Rightarrow> time \<Rightarrow> auth_world \<Rightarrow> auth_world" where
  "markWalkthroughSeen u now = update_user (\<lambda>d. u_id d = u) (\<lambda>d. d\<lparr>u_walkthroughSeenAt := Some now, u_updatedAt := now\<rparr>)"

definition recordSignIn :: "id \<Rightarrow> time \<Rightarrow> auth_world \<Rightarrow> auth_world" where
  "recordSignIn u now = update_user (\<lambda>d. u_id d = u) (\<lambda>d. d\<lparr>u_lastSignedInAt := Some now\<rparr>)"

subsection \<open>Sessions\<close>

definition revoke_change :: "string \<Rightarrow> time \<Rightarrow> auth_session \<Rightarrow> auth_session" where
  "revoke_change reason now s = s\<lparr>ss_revokedAt := Some now, ss_revokedReason := Some reason\<rparr>"

definition revokeAllSessions :: "id \<Rightarrow> string \<Rightarrow> time \<Rightarrow> auth_world \<Rightarrow> auth_world" where
  "revokeAllSessions u reason now w =
     (let w1 = update_user (\<lambda>d. u_id d = u) (\<lambda>d. d\<lparr>u_sessionEpoch := u_sessionEpoch d + 1, u_updatedAt := now\<rparr>) w
      in w1\<lparr>aw_sessions := map (\<lambda>s. if ss_userId s = u \<and> ss_revokedAt s = None then revoke_change reason now s else s) (aw_sessions w1)\<rparr>)"

text \<open>\<^verbatim>\<open>createSession\<close> and \<^verbatim>\<open>rotateSession\<close> under the unique index over the hash of the refresh token.\<close>

definition hash_taken :: "string \<Rightarrow> auth_world \<Rightarrow> bool" where
  "hash_taken hash w = list_ex (\<lambda>s. ss_refreshTokenHash s = hash) (aw_sessions w)"

definition createSession :: "auth_session \<Rightarrow> auth_world \<Rightarrow> auth_world option" where
  "createSession s w =
     (if hash_taken (ss_refreshTokenHash s) w then None else Some (w\<lparr>aw_sessions := aw_sessions w @ [s]\<rparr>))"

definition findSessionByRefreshHash :: "string \<Rightarrow> auth_world \<Rightarrow> auth_session option" where
  "findSessionByRefreshHash hash w = List.find (\<lambda>s. ss_refreshTokenHash s = hash) (aw_sessions w)"

definition rotatable :: "id \<Rightarrow> string \<Rightarrow> auth_session \<Rightarrow> bool" where
  "rotatable i oldHash s \<longleftrightarrow> ss_id s = i \<and> ss_refreshTokenHash s = oldHash \<and> ss_revokedAt s = None"

definition rotateSession :: "id \<Rightarrow> string \<Rightarrow> string \<Rightarrow> time \<Rightarrow> time \<Rightarrow> auth_world \<Rightarrow> (bool \<times> auth_world) option" where
  "rotateSession i oldHash newHash idle now w =
     (if list_ex (rotatable i oldHash) (aw_sessions w) \<and> newHash \<noteq> oldHash \<and> hash_taken newHash w then None
      else Some (list_ex (rotatable i oldHash) (aw_sessions w),
        w\<lparr>aw_sessions := update_first (rotatable i oldHash)
           (\<lambda>s. s\<lparr>ss_refreshTokenHash := newHash, ss_idleExpiresAt := idle, ss_rotatedAt := now\<rparr>) (aw_sessions w)\<rparr>))"

definition revokeSession :: "id \<Rightarrow> string \<Rightarrow> time \<Rightarrow> auth_world \<Rightarrow> auth_world" where
  "revokeSession i reason now w =
     w\<lparr>aw_sessions := update_first (\<lambda>s. ss_id s = i) (revoke_change reason now) (aw_sessions w)\<rparr>"

subsection \<open>Challenges and identities\<close>

text \<open>The open challenges of a kind are removed before the new one is stored, which the unique index over hashes may refuse.\<close>

definition open_challenge :: "time \<Rightarrow> auth_challenge \<Rightarrow> bool" where
  "open_challenge now c \<longleftrightarrow> cl_consumedAt c = None \<and> now < cl_expiresAt c"

definition issueChallenge ::
  "id \<Rightarrow> id \<Rightarrow> challenge_kind \<Rightarrow> string \<Rightarrow> int \<Rightarrow> time \<Rightarrow> auth_world \<Rightarrow> auth_challenge option \<times> auth_world" where
  "issueChallenge newId u kind tokenHash ttlMs now w =
     (let doc = \<lparr>cl_id = newId, cl_userId = u, cl_kind = kind, cl_tokenHash = tokenHash, cl_expiresAt = now + ttlMs,
            cl_consumedAt = None, cl_attempts = 0, cl_createdAt = now\<rparr>;
          kept = filter (\<lambda>c. \<not> (cl_userId c = u \<and> cl_kind c = kind \<and> cl_consumedAt c = None)) (aw_challenges w)
      in if list_ex (\<lambda>c. cl_tokenHash c = tokenHash) kept then (None, w\<lparr>aw_challenges := kept\<rparr>)
         else (Some doc, w\<lparr>aw_challenges := kept @ [doc]\<rparr>))"

definition openChallenge :: "id \<Rightarrow> challenge_kind \<Rightarrow> time \<Rightarrow> auth_world \<Rightarrow> auth_challenge option" where
  "openChallenge u kind now w =
     List.find (\<lambda>c. cl_userId c = u \<and> cl_kind c = kind \<and> open_challenge now c) (aw_challenges w)"

definition findOpenChallengeByToken :: "challenge_kind \<Rightarrow> string \<Rightarrow> time \<Rightarrow> auth_world \<Rightarrow> auth_challenge option" where
  "findOpenChallengeByToken kind tokenHash now w =
     List.find (\<lambda>c. cl_kind c = kind \<and> cl_tokenHash c = tokenHash \<and> open_challenge now c) (aw_challenges w)"

definition recordChallengeAttempt :: "id \<Rightarrow> auth_world \<Rightarrow> int \<times> auth_world" where
  "recordChallengeAttempt i w =
     (case List.find (\<lambda>c. cl_id c = i) (aw_challenges w) of
        None \<Rightarrow> (0, w)
      | Some c \<Rightarrow> (cl_attempts c + 1,
          w\<lparr>aw_challenges := update_first (\<lambda>c. cl_id c = i) (\<lambda>c. c\<lparr>cl_attempts := cl_attempts c + 1\<rparr>) (aw_challenges w)\<rparr>))"

definition consumeChallenge :: "id \<Rightarrow> time \<Rightarrow> auth_world \<Rightarrow> bool \<times> auth_world" where
  "consumeChallenge i now w =
     (let P = (\<lambda>c. cl_id c = i \<and> cl_consumedAt c = None)
      in (list_ex P (aw_challenges w), w\<lparr>aw_challenges := update_first P (\<lambda>c. c\<lparr>cl_consumedAt := Some now\<rparr>) (aw_challenges w)\<rparr>))"

definition findIdentity :: "string \<Rightarrow> auth_world \<Rightarrow> identity_doc option" where
  "findIdentity subject w = List.find (\<lambda>d. idn_subject d = subject) (aw_identities w)"

definition link_identity :: "identity_doc \<Rightarrow> auth_world \<Rightarrow> auth_world option" where
  "link_identity doc w =
     (if list_ex (\<lambda>d. idn_subject d = idn_subject doc) (aw_identities w) then None
      else Some (w\<lparr>aw_identities := aw_identities w @ [doc]\<rparr>))"

definition touchIdentity :: "id \<Rightarrow> string \<Rightarrow> time \<Rightarrow> auth_world \<Rightarrow> auth_world" where
  "touchIdentity i email now w =
     w\<lparr>aw_identities := update_first (\<lambda>d. idn_id d = i) (\<lambda>d. d\<lparr>idn_lastUsedAt := now, idn_email := normaliseEmail email\<rparr>) (aw_identities w)\<rparr>"

text \<open>The server removes sessions and challenges when they expire.\<close>

definition reap :: "time \<Rightarrow> auth_world \<Rightarrow> auth_world" where
  "reap now w = w\<lparr>aw_sessions := filter (\<lambda>s. now \<le> ss_expiresAt s) (aw_sessions w),
     aw_challenges := filter (\<lambda>c. now \<le> cl_expiresAt c) (aw_challenges w)\<rparr>"

subsection \<open>Starting a session\<close>

definition REFRESH_TOKEN_TTL_MS :: int where
  "REFRESH_TOKEN_TTL_MS = 30 * 24 * 60 * 60 * 1000"

definition REFRESH_IDLE_TTL_MS :: int where
  "REFRESH_IDLE_TTL_MS = 7 * 24 * 60 * 60 * 1000"

definition hashRefreshToken :: "crypto \<Rightarrow> string \<Rightarrow> string" where
  "hashRefreshToken cy token = cy_sha256 cy token"

record fresh =
  fr_user :: id
  fr_session :: id
  fr_identity :: id
  fr_challenge :: id
  fr_refresh :: string
  fr_next :: string
  fr_salt :: string
  fr_code :: string

record issued =
  is_user :: id
  is_session :: id
  is_access :: string
  is_refresh :: string

datatype auth_refusal =
    Bad_input
  | Sign_in_failure
  | Account_disabled
  | Email_taken
  | Session_expired
  | Not_signed_in
  | Wrong_code
  | Sent_a_moment_ago
  | Mail_unsupported
  | Google_refused string
  | Internal_error

definition new_session :: "crypto \<Rightarrow> fresh \<Rightarrow> user_doc \<Rightarrow> string option \<Rightarrow> time \<Rightarrow> auth_session" where
  "new_session cy fr user agent now =
     \<lparr>ss_id = fr_session fr, ss_userId = u_id user, ss_refreshTokenHash = hashRefreshToken cy (fr_refresh fr),
      ss_sessionEpoch = u_sessionEpoch user, ss_rotatedAt = now, ss_createdAt = now, ss_expiresAt = now + REFRESH_TOKEN_TTL_MS,
      ss_idleExpiresAt = now + REFRESH_IDLE_TTL_MS, ss_userAgent = agent, ss_revokedAt = None, ss_revokedReason = None\<rparr>"

definition startSession ::
  "crypto \<Rightarrow> auth_config \<Rightarrow> fresh \<Rightarrow> user_doc \<Rightarrow> string option \<Rightarrow> time \<Rightarrow> auth_world \<Rightarrow> (auth_refusal + issued) \<times> auth_world" where
  "startSession cy cfg fr user agent now w =
     (case createSession (new_session cy fr user agent now) w of
        None \<Rightarrow> (Inl Internal_error, w)
      | Some w1 \<Rightarrow>
          (Inr \<lparr>is_user = u_id user, is_session = fr_session fr,
                is_access = issueAccessToken cy cfg (u_id user) (fr_session fr) (u_email user) now, is_refresh = fr_refresh fr\<rparr>,
           recordSignIn (u_id user) now w1))"

subsection \<open>Signing up, in and out\<close>

record google_env =
  gg_clientId :: string
  gg_exchange :: "string \<Rightarrow> string \<Rightarrow> string option"
  gg_keys :: "jwk list"

record auth_env =
  ev_crypto :: crypto
  ev_config :: auth_config
  ev_validEmail :: "string \<Rightarrow> bool"
  ev_mailConfigured :: bool
  ev_google :: "google_env option"

definition MIN_PASSWORD_LENGTH :: nat where
  "MIN_PASSWORD_LENGTH = 12"

definition credentials_ok :: "auth_env \<Rightarrow> string \<Rightarrow> string \<Rightarrow> bool" where
  "credentials_ok env email password \<longleftrightarrow>
     ev_validEmail env (trim email) \<and> length (trim email) \<le> 320 \<and>
     MIN_PASSWORD_LENGTH \<le> length password \<and> length password \<le> 4096"

definition sign_up ::
  "auth_env \<Rightarrow> fresh \<Rightarrow> string \<Rightarrow> string \<Rightarrow> string option \<Rightarrow> string option \<Rightarrow> time \<Rightarrow> auth_world \<Rightarrow> (auth_refusal + issued) \<times> auth_world" where
  "sign_up env fr email password name agent now w =
     (if \<not> credentials_ok env email password then (Inl Bad_input, w)
      else
        (case hashPassword (ev_crypto env) (fr_salt fr) password of
           None \<Rightarrow> (Inl Internal_error, w)
         | Some hash \<Rightarrow>
             (case create_user (fr_user fr) (trim email) name (Some hash) False now w of
                None \<Rightarrow> (Inl Email_taken, w)
              | Some (user, w1) \<Rightarrow> startSession (ev_crypto env) (ev_config env) fr user agent now w1)))"

text \<open>The session carries the epoch of the account as it was read, before the password may have been stored anew.\<close>

definition sign_in ::
  "auth_env \<Rightarrow> fresh \<Rightarrow> string \<Rightarrow> string \<Rightarrow> string option \<Rightarrow> time \<Rightarrow> auth_world \<Rightarrow> (auth_refusal + issued) \<times> auth_world" where
  "sign_in env fr email password agent now w =
     (if \<not> credentials_ok env email password then (Inl Bad_input, w)
      else
        (case findByEmail (trim email) w of
           None \<Rightarrow> (Inl Sign_in_failure, w)
         | Some user \<Rightarrow>
             (case u_passwordHash user of
                None \<Rightarrow> (Inl Sign_in_failure, w)
              | Some hash \<Rightarrow>
                  (if \<not> verifyPassword (ev_crypto env) password hash then (Inl Sign_in_failure, w)
                   else if u_disabledAt user \<noteq> None then (Inl Account_disabled, w)
                   else if needsRehash hash then
                     (case hashPassword (ev_crypto env) (fr_salt fr) password of
                        None \<Rightarrow> (Inl Internal_error, w)
                      | Some stronger \<Rightarrow>
                          startSession (ev_crypto env) (ev_config env) fr user agent now (setPassword (u_id user) stronger now w))
                   else startSession (ev_crypto env) (ev_config env) fr user agent now w))))"

definition sign_out :: "auth_env \<Rightarrow> string option \<Rightarrow> time \<Rightarrow> auth_world \<Rightarrow> (auth_refusal + unit) \<times> auth_world" where
  "sign_out env header now w =
     (case callerFromCookieHeader (ev_crypto env) (ev_config env) header now of
        Inl _ \<Rightarrow> (Inl Internal_error, w)
      | Inr None \<Rightarrow> (Inr (), w)
      | Inr (Some c) \<Rightarrow> (Inr (), revokeSession (clr_sessionId c) ''signed_out'' now w))"

subsection \<open>Refreshing\<close>

definition session_dead :: "time \<Rightarrow> auth_session \<Rightarrow> bool" where
  "session_dead now s \<longleftrightarrow> ss_revokedAt s \<noteq> None \<or> ss_expiresAt s < now \<or> ss_idleExpiresAt s < now"

datatype refresh_verdict =
    Refresh_refused auth_refusal
  | Epoch_bumped auth_session
  | Refresh_goes_on auth_session user_doc

definition refresh_judge :: "auth_env \<Rightarrow> string option \<Rightarrow> time \<Rightarrow> auth_world \<Rightarrow> refresh_verdict" where
  "refresh_judge env header now w =
     (case readCookie (ev_crypto env) header REFRESH_COOKIE of
        Absent \<Rightarrow> Refresh_refused Session_expired
      | Undecodable \<Rightarrow> Refresh_refused Internal_error
      | Cookie presented \<Rightarrow>
          (case findSessionByRefreshHash (hashRefreshToken (ev_crypto env) presented) w of
             None \<Rightarrow> Refresh_refused Session_expired
           | Some session \<Rightarrow>
               (if session_dead now session then Refresh_refused Session_expired
                else
                  (case user_by_id (ss_userId session) w of
                     None \<Rightarrow> Refresh_refused Session_expired
                   | Some user \<Rightarrow>
                       (if u_disabledAt user \<noteq> None then Refresh_refused Session_expired
                        else if u_sessionEpoch user \<noteq> ss_sessionEpoch session then Epoch_bumped session
                        else Refresh_goes_on session user)))))"

text \<open>The commands after the checks. A rotated row belongs to a token nobody is given; what the caller gets is a new session.\<close>

definition refresh_commit ::
  "auth_env \<Rightarrow> fresh \<Rightarrow> auth_session \<Rightarrow> user_doc \<Rightarrow> string option \<Rightarrow> time \<Rightarrow> auth_world \<Rightarrow> (auth_refusal + issued) \<times> auth_world" where
  "refresh_commit env fr session user agent now w =
     (case rotateSession (ss_id session) (ss_refreshTokenHash session) (hashRefreshToken (ev_crypto env) (fr_next fr))
             (now + REFRESH_IDLE_TTL_MS) now w of
        None \<Rightarrow> (Inl Internal_error, w)
      | Some (False, w1) \<Rightarrow> (Inl Session_expired, revokeSession (ss_id session) ''refresh_reuse'' now w1)
      | Some (True, w1) \<Rightarrow> startSession (ev_crypto env) (ev_config env) fr user agent now w1)"

definition refresh_session ::
  "auth_env \<Rightarrow> fresh \<Rightarrow> string option \<Rightarrow> string option \<Rightarrow> time \<Rightarrow> auth_world \<Rightarrow> (auth_refusal + issued) \<times> auth_world" where
  "refresh_session env fr header agent now w =
     (case refresh_judge env header now w of
        Refresh_refused e \<Rightarrow> (Inl e, w)
      | Epoch_bumped session \<Rightarrow> (Inl Session_expired, revokeSession (ss_id session) ''epoch_bumped'' now w)
      | Refresh_goes_on session user \<Rightarrow> refresh_commit env fr session user agent now w)"

subsection \<open>Verifying an address\<close>

definition VERIFICATION_TTL_MS :: int where
  "VERIFICATION_TTL_MS = 10 * 60000"

definition RESEND_AFTER_MS :: int where
  "RESEND_AFTER_MS = 60000"

definition MAX_ATTEMPTS :: int where
  "MAX_ATTEMPTS = 5"

definition codeHash :: "crypto \<Rightarrow> id \<Rightarrow> string \<Rightarrow> string" where
  "codeHash cy u c = cy_sha256_hex cy (u @ '':'' @ trim c)"

definition isCodeShaped :: "string \<Rightarrow> bool" where
  "isCodeShaped c \<longleftrightarrow> length (trim c) = 6 \<and> list_all is_digit (trim c)"

definition send_code :: "auth_env \<Rightarrow> fresh \<Rightarrow> id \<Rightarrow> time \<Rightarrow> auth_world \<Rightarrow> (auth_refusal + bool) \<times> auth_world" where
  "send_code env fr u now w =
     (case user_by_id u w of
        None \<Rightarrow> (Inl Not_signed_in, w)
      | Some user \<Rightarrow>
          (if u_emailVerifiedAt user \<noteq> None then (Inr False, w)
           else if \<not> ev_mailConfigured env then (Inl Mail_unsupported, w)
           else if (case openChallenge u Email_verification now w of None \<Rightarrow> False | Some c \<Rightarrow> now - cl_createdAt c < RESEND_AFTER_MS)
           then (Inl Sent_a_moment_ago, w)
           else
             (case issueChallenge (fr_challenge fr) u Email_verification (codeHash (ev_crypto env) u (fr_code fr)) VERIFICATION_TTL_MS now w of
                (None, w1) \<Rightarrow> (Inl Internal_error, w1)
              | (Some c, w1) \<Rightarrow> (Inr True, w1\<lparr>aw_mail := aw_mail w1 @ [(u_emailDisplay user, fr_code fr)]\<rparr>))))"

definition confirm_code :: "auth_env \<Rightarrow> id \<Rightarrow> string \<Rightarrow> time \<Rightarrow> auth_world \<Rightarrow> (auth_refusal + unit) \<times> auth_world" where
  "confirm_code env u c now w =
     (if trim c = [] \<or> 12 < length (trim c) then (Inl Bad_input, w)
      else
        (case user_by_id u w of
           None \<Rightarrow> (Inl Not_signed_in, w)
         | Some user \<Rightarrow>
             (if u_emailVerifiedAt user \<noteq> None then (Inr (), w)
              else if \<not> isCodeShaped c then (Inl Bad_input, w)
              else
                (case openChallenge u Email_verification now w of
                   None \<Rightarrow> (Inl Wrong_code, w)
                 | Some ch \<Rightarrow>
                     (if cl_tokenHash ch \<noteq> codeHash (ev_crypto env) u c then
                        (let (attempts, w1) = recordChallengeAttempt (cl_id ch) w
                         in (Inl Wrong_code, if MAX_ATTEMPTS \<le> attempts then snd (consumeChallenge (cl_id ch) now w1) else w1))
                      else
                        (case consumeChallenge (cl_id ch) now w of
                           (False, w1) \<Rightarrow> (Inl Wrong_code, w1)
                         | (True, w1) \<Rightarrow> (Inr (), markEmailVerified u now w1)))))))"

text \<open>Both are behind \<^verbatim>\<open>userRoute\<close>, as is the note that the walkthrough was seen.\<close>

definition userRoute ::
  "auth_env \<Rightarrow> string option \<Rightarrow> time \<Rightarrow> (id \<Rightarrow> auth_world \<Rightarrow> (auth_refusal + 'a) \<times> auth_world) \<Rightarrow> auth_world \<Rightarrow> (auth_refusal + 'a) \<times> auth_world" where
  "userRoute env header now handler w =
     (case callerFromCookieHeader (ev_crypto env) (ev_config env) header now of
        Inl _ \<Rightarrow> (Inl Internal_error, w)
      | Inr None \<Rightarrow> (Inl Not_signed_in, w)
      | Inr (Some c) \<Rightarrow> handler (clr_userId c) w)"

subsection \<open>Signing in with Google\<close>

record pending_sign_in =
  ps_state :: string
  ps_nonce :: string
  ps_codeVerifier :: string
  ps_createdAt :: time
  ps_returnTo :: "string option"

record google_identity =
  gi_subject :: string
  gi_email :: string
  gi_emailVerified :: bool
  gi_name :: "string option"
  gi_hostedDomain :: "string option"

definition GOOGLE_ISSUERS :: "string list" where
  "GOOGLE_ISSUERS = [''https://accounts.google.com'', ''accounts.google.com'']"

definition SIGN_IN_TTL_MS :: int where
  "SIGN_IN_TTL_MS = 10 * 60 * 1000"

definition pick_key :: "jwk list \<Rightarrow> string option \<Rightarrow> jwk option" where
  "pick_key keys kid =
     (case kid of
        Some k \<Rightarrow> List.find (\<lambda>key. jwk_kid key = Some k) keys
      | None \<Rightarrow> (case keys of [key] \<Rightarrow> Some key | _ \<Rightarrow> None))"

definition opt_string :: "jsv \<Rightarrow> string option" where
  "opt_string v = (case v of JStr s \<Rightarrow> Some s | _ \<Rightarrow> None)"

definition completeSignIn ::
  "crypto \<Rightarrow> google_env \<Rightarrow> pending_sign_in \<Rightarrow> string \<Rightarrow> string \<Rightarrow> time \<Rightarrow> google_identity option" where
  "completeSignIn cy g pending code_given state now =
     (if ps_state pending \<noteq> state then None
      else
        (case gg_exchange g code_given (ps_codeVerifier pending) of
           None \<Rightarrow> None
         | Some token \<Rightarrow>
             (case unverifiedKeyId cy token of
                Inl e \<Rightarrow> None
              | Inr kid \<Rightarrow>
                  (case pick_key (gg_keys g) kid of
                     None \<Rightarrow> None
                   | Some key \<Rightarrow>
                       (case verifyRs256 cy token key \<lparr>vo_issuers = GOOGLE_ISSUERS, vo_audience = gg_clientId g,
                               vo_tolerance = CLOCK_TOLERANCE, vo_nonce = Some (ps_nonce pending)\<rparr> now of
                          Inl e \<Rightarrow> None
                        | Inr claims \<Rightarrow>
                            (case (claim_of claims ''sub'', claim_of claims ''email'') of
                               (JStr sub, JStr email) \<Rightarrow>
                                 Some \<lparr>gi_subject = sub, gi_email = email,
                                       gi_emailVerified = (claim_of claims ''email_verified'' = JBool True),
                                       gi_name = opt_string (claim_of claims ''name''), gi_hostedDomain = opt_string (claim_of claims ''hd'')\<rparr>
                             | _ \<Rightarrow> None))))))"

definition signInExpired :: "pending_sign_in \<Rightarrow> time \<Rightarrow> bool" where
  "signInExpired pending now \<longleftrightarrow> SIGN_IN_TTL_MS < now - ps_createdAt pending"

definition safeReturnTo :: "string option \<Rightarrow> string" where
  "safeReturnTo raw =
     (case raw of
        None \<Rightarrow> ''/''
      | Some path \<Rightarrow> if \<not> starts_with path ''/'' \<or> starts_with path ''//'' then ''/'' else path)"

text \<open>The account an identity belongs to: its link, or the account of the address, or a new one.\<close>

definition google_account :: "fresh \<Rightarrow> google_identity \<Rightarrow> time \<Rightarrow> auth_world \<Rightarrow> (string + user_doc) \<times> auth_world" where
  "google_account fr identity now w =
     (case Option.bind (findIdentity (gi_subject identity) w) (\<lambda>l. map_option (Pair l) (user_by_id (idn_userId l) w)) of
        Some (l, user) \<Rightarrow> (Inr user, touchIdentity (idn_id l) (gi_email identity) now w)
      | None \<Rightarrow>
          (if \<not> gi_emailVerified identity then (Inl ''google_unverified'', w)
           else
             (case (case findByEmail (gi_email identity) w of
                      Some user \<Rightarrow> Some (user, if u_emailVerifiedAt user = None then markEmailVerified (u_id user) now w else w)
                    | None \<Rightarrow> create_user (fr_user fr) (gi_email identity) (gi_name identity) None True now w) of
                None \<Rightarrow> (Inl ''google_failed'', w)
              | Some (user, w1) \<Rightarrow>
                  (case link_identity \<lparr>idn_id = fr_identity fr, idn_userId = u_id user, idn_subject = gi_subject identity,
                          idn_email = normaliseEmail (gi_email identity), idn_emailVerified = gi_emailVerified identity,
                          idn_hostedDomain = gi_hostedDomain identity, idn_createdAt = now, idn_lastUsedAt = now\<rparr> w1 of
                     None \<Rightarrow> (Inl ''google_failed'', w1)
                   | Some w2 \<Rightarrow> (Inr user, w2)))))"

definition google_callback ::
  "auth_env \<Rightarrow> fresh \<Rightarrow> bool \<Rightarrow> string option \<Rightarrow> string option \<Rightarrow> pending_sign_in option \<Rightarrow> string option \<Rightarrow> time \<Rightarrow> auth_world
   \<Rightarrow> (auth_refusal + issued) \<times> auth_world" where
  "google_callback env fr denied code_given state cookie agent now w =
     (case ev_google env of
        None \<Rightarrow> (Inl (Google_refused ''unsupported''), w)
      | Some g \<Rightarrow>
          (if denied then (Inl (Google_refused ''google_denied''), w)
           else
             (case (code_given, state) of
                (Some cd, Some st) \<Rightarrow>
                  (case cookie of
                     None \<Rightarrow> (Inl (Google_refused ''google_expired''), w)
                   | Some pending \<Rightarrow>
                       (if signInExpired pending now then (Inl (Google_refused ''google_expired''), w)
                        else
                          (case completeSignIn (ev_crypto env) g pending cd st now of
                             None \<Rightarrow> (Inl (Google_refused ''google_failed''), w)
                           | Some identity \<Rightarrow>
                               (case google_account fr identity now w of
                                  (Inl reason, w1) \<Rightarrow> (Inl (Google_refused reason), w1)
                                | (Inr user, w1) \<Rightarrow>
                                    (if u_disabledAt user \<noteq> None then (Inl (Google_refused ''account_disabled''), w1)
                                     else
                                       (case startSession (ev_crypto env) (ev_config env) fr user agent now w1 of
                                          (Inl e, w2) \<Rightarrow> (Inl (Google_refused ''google_failed''), w2)
                                        | (Inr i, w2) \<Rightarrow> (Inr i, w2)))))))
              | _ \<Rightarrow> (Inl (Google_refused ''google_incomplete''), w))))"

subsection \<open>Everything that happens, interleaved\<close>

text \<open>
  A refresh is pending between its reads and its write. Who a person proved to be by password, at sign-up or through
  Google, and what was renewed for whom, is kept in a log; a refresh token is 256 random bits, so none is minted twice.
\<close>

datatype auth_event = Proved id string | Renewed string id string

record auth_sys =
  sy_world :: auth_world
  sy_pending :: "(string \<times> auth_session \<times> user_doc) list"
  sy_log :: "auth_event list"
  sy_minted :: "string set"

definition unminted :: "fresh \<Rightarrow> auth_sys \<Rightarrow> bool" where
  "unminted fr s \<longleftrightarrow> fr_refresh fr \<notin> sy_minted s \<and> fr_next fr \<notin> sy_minted s \<and> fr_refresh fr \<noteq> fr_next fr"

definition mint :: "fresh \<Rightarrow> auth_sys \<Rightarrow> auth_sys" where
  "mint fr s = s\<lparr>sy_minted := insert (fr_refresh fr) (insert (fr_next fr) (sy_minted s))\<rparr>"

definition proved :: "auth_refusal + issued \<Rightarrow> auth_event list" where
  "proved r = (case r of Inl e \<Rightarrow> [] | Inr i \<Rightarrow> [Proved (is_user i) (is_refresh i)])"

definition renewed :: "string \<Rightarrow> auth_refusal + issued \<Rightarrow> auth_event list" where
  "renewed presented r = (case r of Inl e \<Rightarrow> [] | Inr i \<Rightarrow> [Renewed presented (is_user i) (is_refresh i)])"

inductive auth_step :: "auth_env \<Rightarrow> auth_sys \<Rightarrow> auth_sys \<Rightarrow> bool" for env where
  signed_up: "unminted fr s \<Longrightarrow> sign_up env fr email password name agent now (sy_world s) = (r, w) \<Longrightarrow>
    auth_step env s (mint fr s\<lparr>sy_world := w, sy_log := sy_log s @ proved r\<rparr>)"
| signed_in: "unminted fr s \<Longrightarrow> sign_in env fr email password agent now (sy_world s) = (r, w) \<Longrightarrow>
    auth_step env s (mint fr s\<lparr>sy_world := w, sy_log := sy_log s @ proved r\<rparr>)"
| by_google: "unminted fr s \<Longrightarrow> google_callback env fr denied cd st cookie agent now (sy_world s) = (r, w) \<Longrightarrow>
    auth_step env s (mint fr s\<lparr>sy_world := w, sy_log := sy_log s @ proved r\<rparr>)"
| signed_out: "auth_step env s (s\<lparr>sy_world := snd (sign_out env header now (sy_world s))\<rparr>)"
| refresh_read: "readCookie (ev_crypto env) header REFRESH_COOKIE = Cookie presented \<Longrightarrow>
    refresh_judge env header now (sy_world s) = Refresh_goes_on session user \<Longrightarrow>
    auth_step env s (s\<lparr>sy_pending := (presented, session, user) # sy_pending s\<rparr>)"
| refresh_bumped: "refresh_judge env header now (sy_world s) = Epoch_bumped session \<Longrightarrow>
    auth_step env s (s\<lparr>sy_world := revokeSession (ss_id session) ''epoch_bumped'' now (sy_world s)\<rparr>)"
| refresh_written: "unminted fr s \<Longrightarrow> (presented, session, user) \<in> set (sy_pending s) \<Longrightarrow>
    refresh_commit env fr session user agent now (sy_world s) = (r, w) \<Longrightarrow>
    auth_step env s (mint fr s\<lparr>sy_world := w, sy_pending := remove1 (presented, session, user) (sy_pending s),
      sy_log := sy_log s @ renewed presented r\<rparr>)"
| code_sent: "auth_step env s (s\<lparr>sy_world := snd (userRoute env header now (\<lambda>u. send_code env fr u now) (sy_world s))\<rparr>)"
| code_confirmed: "auth_step env s (s\<lparr>sy_world := snd (userRoute env header now (\<lambda>u. confirm_code env u c now) (sy_world s))\<rparr>)"
| walkthrough_seen: "auth_step env s (s\<lparr>sy_world := markWalkthroughSeen u now (sy_world s)\<rparr>)"
| all_revoked: "auth_step env s (s\<lparr>sy_world := revokeAllSessions u reason now (sy_world s)\<rparr>)"
| reaped: "auth_step env s (s\<lparr>sy_world := reap now (sy_world s)\<rparr>)"

definition nobody :: "auth_sys \<Rightarrow> bool" where
  "nobody s \<longleftrightarrow> aw_sessions (sy_world s) = [] \<and> sy_pending s = [] \<and> sy_log s = []"

text \<open>What matters of a session row: whose it is, and the hash it can be refreshed by.\<close>

definition tickets :: "auth_world \<Rightarrow> (id \<times> string) list" where
  "tickets w = map (\<lambda>s. (ss_userId s, ss_refreshTokenHash s)) (aw_sessions w)"

lemma update_user_tickets [simp]: "tickets (update_user P f w) = tickets w"
  by (simp add: update_user_def tickets_def)

lemma tickets_kept [simp]:
  "tickets (markEmailVerified u now w) = tickets w" "tickets (setPassword u h now w) = tickets w"
  "tickets (markWalkthroughSeen u now w) = tickets w" "tickets (recordSignIn u now w) = tickets w"
  "tickets (touchIdentity i e now w) = tickets w"
  by (simp_all add: markEmailVerified_def setPassword_def markWalkthroughSeen_def recordSignIn_def touchIdentity_def)
    (simp add: tickets_def)

lemma tickets_challenge [simp]: "tickets (w\<lparr>aw_challenges := cs\<rparr>) = tickets w" "tickets (w\<lparr>aw_mail := ms\<rparr>) = tickets w"
  "tickets (w\<lparr>aw_users := us\<rparr>) = tickets w" "tickets (w\<lparr>aw_identities := ds\<rparr>) = tickets w"
  by (simp_all add: tickets_def)

lemma tickets_revoke [simp]: "tickets (revokeSession i reason now w) = tickets w" "tickets (revokeAllSessions u reason now w) = tickets w"
proof -
  show "tickets (revokeSession i reason now w) = tickets w"
    unfolding revokeSession_def tickets_def by (simp add: map_update_first revoke_change_def)
  show "tickets (revokeAllSessions u reason now w) = tickets w"
    unfolding revokeAllSessions_def Let_def tickets_def by (auto simp: update_user_def revoke_change_def)
qed

lemma tickets_create_user: "create_user i email name h v now w = Some (user, w') \<Longrightarrow> tickets w' = tickets w \<and> u_id user = i"
  by (auto simp: create_user_def Let_def split: if_splits)

lemma tickets_google:
  "google_account fr identity now w = (r, w') \<Longrightarrow> tickets w' = tickets w"
  by (auto simp: google_account_def link_identity_def dest!: tickets_create_user [THEN conjunct1] split: option.splits if_splits)

lemma startSession_tickets:
  assumes "startSession cy cfg fr user agent now w = (r, w')"
  shows "(\<exists>e. r = Inl e) \<and> w' = w \<or>
    (\<exists>i. r = Inr i \<and> is_user i = u_id user \<and> is_refresh i = fr_refresh fr) \<and>
      tickets w' = tickets w @ [(u_id user, hashRefreshToken cy (fr_refresh fr))] \<and>
      hashRefreshToken cy (fr_refresh fr) \<notin> snd ` set (tickets w)"
  using assms
  by (auto simp: startSession_def createSession_def hash_taken_def new_session_def list_ex_iff split: if_splits)
    (auto simp: tickets_def)

lemma proof_tickets:
  assumes "sign_up env fr email password name agent now w = (r, w') \<or> sign_in env fr email password agent now w = (r, w') \<or>
    google_callback env fr denied cd st cookie agent now w = (r, w')"
  shows "(\<exists>e. r = Inl e) \<and> tickets w' = tickets w \<or>
    (\<exists>i u. r = Inr i \<and> is_user i = u \<and> is_refresh i = fr_refresh fr \<and>
      tickets w' = tickets w @ [(u, hashRefreshToken (ev_crypto env) (fr_refresh fr))] \<and>
      hashRefreshToken (ev_crypto env) (fr_refresh fr) \<notin> snd ` set (tickets w))"
    (is "?done w")
proof -
  have start: "?done w" if "startSession (ev_crypto env) (ev_config env) fr user agent now w1 = (r', w')" "tickets w1 = tickets w"
    "r' = r \<or> (\<exists>e e'. r' = Inl e \<and> r = Inl e')" for user w1 r'
    using startSession_tickets [OF that(1)] that(2,3) by auto
  from assms show ?thesis
  proof (elim disjE)
    assume up: "sign_up env fr email password name agent now w = (r, w')"
    then consider (no) "\<exists>e. r = Inl e" "w' = w"
      | (yes) user w1 h where "create_user (fr_user fr) (trim email) name (Some h) False now w = Some (user, w1)"
          "startSession (ev_crypto env) (ev_config env) fr user agent now w1 = (r, w')"
      by (auto simp: sign_up_def split: if_splits option.splits prod.splits)
    then show ?thesis by cases (use start tickets_create_user in \<open>blast+\<close>)
  next
    assume "sign_in env fr email password agent now w = (r, w')"
    then consider (no) "\<exists>e. r = Inl e" "w' = w"
      | (yes) user where "startSession (ev_crypto env) (ev_config env) fr user agent now w = (r, w')"
      | (rehashed) user h where "startSession (ev_crypto env) (ev_config env) fr user agent now (setPassword (u_id user) h now w) = (r, w')"
      by (auto simp: sign_in_def split: if_splits option.splits)
    then show ?thesis by cases (use start tickets_kept(2) in blast)+
  next
    assume "google_callback env fr denied cd st cookie agent now w = (r, w')"
    then consider (no) "\<exists>e. r = Inl e" "w' = w"
      | (refused) identity r1 where "google_account fr identity now w = (r1, w')" "\<exists>e. r = Inl e"
      | (yes) identity user w1 r' where "google_account fr identity now w = (Inr user, w1)"
          "startSession (ev_crypto env) (ev_config env) fr user agent now w1 = (r', w')" "r' = r \<or> (\<exists>e e'. r' = Inl e \<and> r = Inl e')"
      by (auto simp: google_callback_def split: if_splits option.splits prod.splits sum.splits)
    then show ?thesis by cases (use start tickets_google in \<open>blast+\<close>)
  qed
qed

lemma rotate_tickets:
  assumes "rotateSession i old new idle now w = Some (True, w')"
  shows "\<exists>xs u ys. tickets w = xs @ (u, old) # ys \<and> tickets w' = xs @ (u, new) # ys \<and> (new = old \<or> new \<notin> snd ` set (tickets w))"
proof -
  let ?P = "rotatable i old"
  let ?f = "\<lambda>s. s\<lparr>ss_refreshTokenHash := new, ss_idleExpiresAt := idle, ss_rotatedAt := now\<rparr>"
  have ex: "list_ex ?P (aw_sessions w)" and w': "w' = w\<lparr>aw_sessions := update_first ?P ?f (aw_sessions w)\<rparr>"
    and new: "new = old \<or> \<not> hash_taken new w"
    using assms by (auto simp: rotateSession_def split: if_splits)
  from ex obtain xs x ys where split: "aw_sessions w = xs @ x # ys" "?P x" "\<forall>f. update_first ?P f (aw_sessions w) = xs @ f x # ys"
    using update_first_split by metis
  let ?key = "\<lambda>s. (ss_userId s, ss_refreshTokenHash s)"
  from split new show ?thesis
    by (intro exI [of _ "map ?key xs"] exI [of _ "ss_userId x"] exI [of _ "map ?key ys"])
      (auto simp: w' tickets_def rotatable_def hash_taken_def list_ex_iff image_iff)
qed

subsection \<open>A refresh token is used once\<close>

fun renewals :: "auth_event list \<Rightarrow> string list" where
  "renewals [] = []"
| "renewals (Renewed t u t' # es) = t # renewals es"
| "renewals (Proved u t # es) = renewals es"

lemma renewals_append [simp]: "renewals (xs @ ys) = renewals xs @ renewals ys"
  by (induction xs rule: renewals.induct) auto

lemma renewals_iff: "t \<in> set (renewals es) \<longleftrightarrow> (\<exists>u t'. Renewed t u t' \<in> set es)"
  by (induction es rule: renewals.induct) auto

fun rooted :: "id set \<Rightarrow> auth_event list \<Rightarrow> bool" where
  "rooted known [] = True"
| "rooted known (Proved u t # es) = rooted (insert u known) es"
| "rooted known (Renewed t u t' # es) = (u \<in> known \<and> rooted known es)"

fun known_users :: "auth_event list \<Rightarrow> id set" where
  "known_users [] = {}"
| "known_users (Proved u t # es) = insert u (known_users es)"
| "known_users (Renewed t u t' # es) = known_users es"

lemma known_users_append [simp]: "known_users (xs @ ys) = known_users xs \<union> known_users ys"
  by (induction xs rule: known_users.induct) auto

lemma rooted_append: "rooted known (xs @ ys) \<longleftrightarrow> rooted known xs \<and> rooted (known \<union> known_users xs) ys"
  by (induction known xs rule: rooted.induct) auto

definition auth_good :: "auth_env \<Rightarrow> auth_sys \<Rightarrow> bool" where
  "auth_good env s \<longleftrightarrow>
     (let sha = hashRefreshToken (ev_crypto env); known = known_users (sy_log s)
      in distinct (map snd (tickets (sy_world s))) \<and>
         (\<forall>(u, h) \<in> set (tickets (sy_world s)). u \<in> known \<and> (\<exists>t \<in> sy_minted s. h = sha t)) \<and>
         (\<forall>t \<in> set (renewals (sy_log s)). t \<in> sy_minted s \<and> sha t \<notin> snd ` set (tickets (sy_world s))) \<and>
         (\<forall>(t, session, user) \<in> set (sy_pending s). ss_refreshTokenHash session = sha t \<and> u_id user \<in> known) \<and>
         distinct (renewals (sy_log s)) \<and> rooted {} (sy_log s))"

text \<open>The invariant, for a hash without collisions.\<close>

definition auth_ok :: "auth_env \<Rightarrow> auth_sys \<Rightarrow> bool" where
  "auth_ok env s \<longleftrightarrow> inj (hashRefreshToken (ev_crypto env)) \<longrightarrow> auth_good env s"

lemma auth_okD:
  assumes "auth_ok env s" "inj (hashRefreshToken (ev_crypto env))"
  shows "distinct (map snd (tickets (sy_world s)))"
    "(u, h) \<in> set (tickets (sy_world s)) \<Longrightarrow> u \<in> known_users (sy_log s) \<and> (\<exists>t \<in> sy_minted s. h = hashRefreshToken (ev_crypto env) t)"
    "t \<in> set (renewals (sy_log s)) \<Longrightarrow> t \<in> sy_minted s \<and> hashRefreshToken (ev_crypto env) t \<notin> snd ` set (tickets (sy_world s))"
    "(t, session, user) \<in> set (sy_pending s) \<Longrightarrow> ss_refreshTokenHash session = hashRefreshToken (ev_crypto env) t \<and> u_id user \<in> known_users (sy_log s)"
    "distinct (renewals (sy_log s))" "rooted {} (sy_log s)"
  using assms by (auto simp: auth_ok_def auth_good_def Let_def)

text \<open>A step that adds no row and logs nothing.\<close>

lemma auth_ok_fewer:
  assumes "auth_ok env s" "set (tickets (sy_world t)) \<subseteq> set (tickets (sy_world s))" "distinct (map snd (tickets (sy_world s))) \<Longrightarrow> distinct (map snd (tickets (sy_world t)))"
    "sy_minted s \<subseteq> sy_minted t" "sy_log t = sy_log s" "set (sy_pending t) \<subseteq> set (sy_pending s)"
  shows "auth_ok env t"
  unfolding auth_ok_def
proof
  assume inj: "inj (hashRefreshToken (ev_crypto env))"
  note ok = auth_okD [OF assms(1) inj]
  show "auth_good env t" unfolding auth_good_def Let_def using ok assms(2-6) by (fastforce simp: image_iff)
qed

lemma same_tickets:
  "auth_ok env s \<Longrightarrow> tickets w = tickets (sy_world s) \<Longrightarrow> auth_ok env (s\<lparr>sy_world := w\<rparr>)"
  by (rule auth_ok_fewer) auto

text \<open>A step in which somebody proves who they are.\<close>

lemma auth_ok_proof:
  assumes "auth_ok env s" "unminted fr s"
    and "(\<exists>e. r = Inl e) \<and> tickets w = tickets (sy_world s) \<or>
      (\<exists>i u. r = Inr i \<and> is_user i = u \<and> is_refresh i = fr_refresh fr \<and>
        tickets w = tickets (sy_world s) @ [(u, hashRefreshToken (ev_crypto env) (fr_refresh fr))] \<and>
        hashRefreshToken (ev_crypto env) (fr_refresh fr) \<notin> snd ` set (tickets (sy_world s)))"
  shows "auth_ok env (mint fr s\<lparr>sy_world := w, sy_log := sy_log s @ proved r\<rparr>)"
  using assms(3)
proof (elim disjE conjE exE)
  fix e assume "r = Inl e" "tickets w = tickets (sy_world s)"
  with assms(1) show ?thesis by (intro auth_ok_fewer [OF assms(1)]) (auto simp: mint_def proved_def)
next
  fix i u assume new: "r = Inr i" "is_user i = u" "is_refresh i = fr_refresh fr"
    "tickets w = tickets (sy_world s) @ [(u, hashRefreshToken (ev_crypto env) (fr_refresh fr))]"
    "hashRefreshToken (ev_crypto env) (fr_refresh fr) \<notin> snd ` set (tickets (sy_world s))"
  show ?thesis
    unfolding auth_ok_def auth_good_def Let_def
  proof (intro impI conjI)
    assume inj: "inj (hashRefreshToken (ev_crypto env))"
    note ok = auth_okD [OF assms(1) inj]
    let ?t = "mint fr s\<lparr>sy_world := w, sy_log := sy_log s @ proved r\<rparr>"
    have t: "sy_world ?t = w" "sy_log ?t = sy_log s @ [Proved u (fr_refresh fr)]" "sy_pending ?t = sy_pending s"
      "sy_minted ?t = insert (fr_refresh fr) (insert (fr_next fr) (sy_minted s))"
      using new by (simp_all add: mint_def proved_def)
    show "distinct (map snd (tickets (sy_world ?t)))" using ok(1) new(4,5) by (auto simp: t)
    show "\<forall>(v, h) \<in> set (tickets (sy_world ?t)). v \<in> known_users (sy_log ?t) \<and> (\<exists>tk \<in> sy_minted ?t. h = hashRefreshToken (ev_crypto env) tk)"
      using ok(2) new(4) by (fastforce simp: t)
    show "\<forall>tk \<in> set (renewals (sy_log ?t)). tk \<in> sy_minted ?t \<and> hashRefreshToken (ev_crypto env) tk \<notin> snd ` set (tickets (sy_world ?t))"
      using ok(3) new(4) assms(2) inj by (auto simp: t unminted_def dest: injD)
    show "\<forall>(tk, session, user) \<in> set (sy_pending ?t). ss_refreshTokenHash session = hashRefreshToken (ev_crypto env) tk \<and> u_id user \<in> known_users (sy_log ?t)"
      using ok(4) by (auto simp: t)
    show "distinct (renewals (sy_log ?t))" "rooted {} (sy_log ?t)" using ok(5,6) by (auto simp: t rooted_append)
  qed
qed

lemma commit_tickets:
  assumes "refresh_commit env fr session user agent now w = (r, w')"
  shows "(\<exists>e. r = Inl e) \<and> tickets w' = tickets w \<or>
    (\<exists>xs u ys. tickets w = xs @ (u, ss_refreshTokenHash session) # ys \<and>
       (let rows = xs @ (u, hashRefreshToken (ev_crypto env) (fr_next fr)) # ys
        in (\<exists>e. r = Inl e) \<and> tickets w' = rows \<or>
           (\<exists>i. r = Inr i \<and> is_user i = u_id user \<and> is_refresh i = fr_refresh fr) \<and>
           tickets w' = rows @ [(u_id user, hashRefreshToken (ev_crypto env) (fr_refresh fr))]))"
proof (cases "rotateSession (ss_id session) (ss_refreshTokenHash session) (hashRefreshToken (ev_crypto env) (fr_next fr))
    (now + REFRESH_IDLE_TTL_MS) now w")
  case None
  with assms show ?thesis by (auto simp: refresh_commit_def)
next
  case (Some res)
  obtain won w1 where res: "res = (won, w1)" by (cases res)
  show ?thesis
  proof (cases won)
    case True
    with Some res assms have "startSession (ev_crypto env) (ev_config env) fr user agent now w1 = (r, w')" by (simp add: refresh_commit_def)
    from Some res True have "rotateSession (ss_id session) (ss_refreshTokenHash session) (hashRefreshToken (ev_crypto env) (fr_next fr))
      (now + REFRESH_IDLE_TTL_MS) now w = Some (True, w1)" by simp
    from rotate_tickets [OF this] obtain xs u ys where rows: "tickets w = xs @ (u, ss_refreshTokenHash session) # ys"
      "tickets w1 = xs @ (u, hashRefreshToken (ev_crypto env) (fr_next fr)) # ys"
      by blast
    from startSession_tickets [OF \<open>startSession _ _ _ _ _ _ _ = _\<close>] rows show ?thesis
      by (intro disjI2 exI [of _ xs] exI [of _ u] exI [of _ ys]) (auto simp: Let_def)
  next
    case False
    with Some res have "w1 = w"
      by (auto simp: rotateSession_def update_first_none split: if_splits)
    with False Some res assms show ?thesis by (auto simp: refresh_commit_def)
  qed
qed

lemma auth_ok_written:
  assumes "auth_ok env s" "unminted fr s" "(presented, session, user) \<in> set (sy_pending s)"
    and "refresh_commit env fr session user agent now (sy_world s) = (r, w)"
  shows "auth_ok env (mint fr s\<lparr>sy_world := w, sy_pending := remove1 (presented, session, user) (sy_pending s), sy_log := sy_log s @ renewed presented r\<rparr>)"
    (is "auth_ok env ?t")
proof (cases "tickets w = tickets (sy_world s) \<and> (\<exists>e. r = Inl e)")
  case True
  then show ?thesis by (intro auth_ok_fewer [OF assms(1)]) (use set_remove1_subset in \<open>force simp: mint_def renewed_def\<close>)+
next
  case False
  let ?sha = "hashRefreshToken (ev_crypto env)"
  from commit_tickets [OF assms(4)] False obtain xs u ys where
    before: "tickets (sy_world s) = xs @ (u, ss_refreshTokenHash session) # ys" and
    after: "(\<exists>e. r = Inl e) \<and> tickets w = xs @ (u, ?sha (fr_next fr)) # ys \<or>
      (\<exists>i. r = Inr i \<and> is_user i = u_id user \<and> is_refresh i = fr_refresh fr) \<and>
      tickets w = xs @ (u, ?sha (fr_next fr)) # ys @ [(u_id user, ?sha (fr_refresh fr))]"
    by (auto simp: Let_def)
  show ?thesis
    unfolding auth_ok_def auth_good_def Let_def
  proof (intro impI conjI)
    assume inj: "inj ?sha"
    note ok = auth_okD [OF assms(1) inj]
    have hash: "ss_refreshTokenHash session = ?sha presented" and known: "u_id user \<in> known_users (sy_log s)"
      using ok(4) [OF assms(3)] by simp_all
    have minted: "presented \<in> sy_minted s" using ok(2) [of u] before hash inj by (auto dest: injD)
    have fresh_next: "fr_next fr \<notin> sy_minted s" "fr_refresh fr \<notin> sy_minted s" "fr_refresh fr \<noteq> fr_next fr"
      using assms(2) by (auto simp: unminted_def)
    have others: "h \<in> ?sha ` sy_minted s" "v \<in> known_users (sy_log s)" if "(v, h) \<in> set xs \<union> set ys \<union> {(u, ?sha presented)}" for v h
      using that ok(2) [of v h] before hash by auto
    have t: "sy_world ?t = w" "sy_minted ?t = insert (fr_refresh fr) (insert (fr_next fr) (sy_minted s))"
      "set (sy_pending ?t) \<subseteq> set (sy_pending s)" "known_users (sy_log ?t) = known_users (sy_log s)"
      "renewals (sy_log ?t) = renewals (sy_log s) @ (if \<exists>e. r = Inl e then [] else [presented])"
      using set_remove1_subset by (force simp: mint_def renewed_def split: sum.splits)+
    have far: "?sha (fr_next fr) \<notin> ?sha ` sy_minted s" "?sha (fr_refresh fr) \<notin> ?sha ` sy_minted s" "?sha (fr_refresh fr) \<noteq> ?sha (fr_next fr)"
      using fresh_next inj by (auto dest: injD)
    have old: "distinct (map snd xs @ ?sha presented # map snd ys)" using ok(1) before hash by simp
    have rows: "set (tickets w) \<subseteq> set xs \<union> set ys \<union> {(u, ?sha (fr_next fr)), (u_id user, ?sha (fr_refresh fr))}" using after by auto
    have in_sha: "snd ` (set xs \<union> set ys) \<subseteq> ?sha ` sy_minted s" using others(1) by fastforce
    have out: "?sha (fr_next fr) \<notin> snd ` set xs" "?sha (fr_next fr) \<notin> snd ` set ys" "?sha (fr_refresh fr) \<notin> snd ` set xs"
      "?sha (fr_refresh fr) \<notin> snd ` set ys"
      using far(1,2) in_sha by blast+
    from after show "distinct (map snd (tickets (sy_world ?t)))"
      unfolding t by (elim disjE conjE) (use old out far(3) in simp_all)
    show "\<forall>(v, h) \<in> set (tickets (sy_world ?t)). v \<in> known_users (sy_log ?t) \<and> (\<exists>tk \<in> sy_minted ?t. h = ?sha tk)"
    proof clarify
      fix v h assume "(v, h) \<in> set (tickets (sy_world ?t))"
      then consider (kept) "(v, h) \<in> set xs \<union> set ys" | (rotated) "v = u" "h = ?sha (fr_next fr)" | (added) "v = u_id user" "h = ?sha (fr_refresh fr)"
        using rows unfolding t by blast
      then show "v \<in> known_users (sy_log ?t) \<and> (\<exists>tk \<in> sy_minted ?t. h = ?sha tk)"
        unfolding t by cases (use others [of v h] others(2) [of u "?sha presented"] known in auto)
    qed
    show "\<forall>tk \<in> set (renewals (sy_log ?t)). tk \<in> sy_minted ?t \<and> ?sha tk \<notin> snd ` set (tickets (sy_world ?t))"
    proof
      fix tk assume tk: "tk \<in> set (renewals (sy_log ?t))"
      then have m: "tk \<in> sy_minted s" and out': "?sha tk \<notin> snd ` (set xs \<union> set ys)"
        using ok(3) [of tk] minted before old unfolding t by (auto split: if_splits)
      have away: "?sha tk \<noteq> ?sha (fr_next fr)" "?sha tk \<noteq> ?sha (fr_refresh fr)" using m far(1,2) by (metis imageI)+
      have "?sha tk \<notin> snd ` set (tickets w)"
      proof
        assume "?sha tk \<in> snd ` set (tickets w)"
        then obtain v where "(v, ?sha tk) \<in> set (tickets w)" by auto
        with rows away have "(v, ?sha tk) \<in> set xs \<union> set ys" by blast
        with out' show False by (metis image_eqI snd_conv)
      qed
      with m show "tk \<in> sy_minted ?t \<and> ?sha tk \<notin> snd ` set (tickets (sy_world ?t))" unfolding t by simp
    qed
    show "\<forall>(tk, session, user) \<in> set (sy_pending ?t). ss_refreshTokenHash session = ?sha tk \<and> u_id user \<in> known_users (sy_log ?t)"
      using ok(4) t(3) unfolding t(4) by blast
    have "presented \<notin> set (renewals (sy_log s))" using ok(3) [of presented] before hash by auto
    then show "distinct (renewals (sy_log ?t))" using ok(5) unfolding t by auto
    show "rooted {} (sy_log ?t)" using ok(6) known after by (auto simp: mint_def renewed_def rooted_append)
  qed
qed

lemma reap_tickets: "set (tickets (reap now w)) \<subseteq> set (tickets w)"
  "distinct (map snd (tickets w)) \<Longrightarrow> distinct (map snd (tickets (reap now w)))"
  by (auto simp: reap_def tickets_def comp_def distinct_map inj_on_def)

lemma tickets_signed_out [simp]: "tickets (snd (sign_out env header now w)) = tickets w"
  by (simp add: sign_out_def split: sum.splits option.splits)

lemma tickets_route: "(\<And>u. tickets (snd (handler u w)) = tickets w) \<Longrightarrow> tickets (snd (userRoute env header now handler w)) = tickets w"
  by (simp add: userRoute_def split: sum.splits option.splits)

lemma tickets_sent: "tickets (snd (send_code env fr u now w)) = tickets w"
  by (simp add: send_code_def issueChallenge_def Let_def split: option.splits)

lemma tickets_confirmed: "tickets (snd (confirm_code env u c now w)) = tickets w"
  by (auto simp: confirm_code_def recordChallengeAttempt_def consumeChallenge_def Let_def split: option.splits bool.splits)

lemma auth_ok_read:
  assumes "auth_ok env s" "readCookie (ev_crypto env) header REFRESH_COOKIE = Cookie presented"
    "refresh_judge env header now (sy_world s) = Refresh_goes_on session user"
  shows "auth_ok env (s\<lparr>sy_pending := (presented, session, user) # sy_pending s\<rparr>)"
  unfolding auth_ok_def
proof
  assume inj: "inj (hashRefreshToken (ev_crypto env))"
  note ok = auth_okD [OF assms(1) inj]
  have found: "findSessionByRefreshHash (hashRefreshToken (ev_crypto env) presented) (sy_world s) = Some session"
    "user_by_id (ss_userId session) (sy_world s) = Some user"
    using assms(2,3) by (auto simp: refresh_judge_def split: option.splits if_splits)
  have "(u_id user, ss_refreshTokenHash session) \<in> set (tickets (sy_world s))"
    "ss_refreshTokenHash session = hashRefreshToken (ev_crypto env) presented"
    using find_Some_in [OF found(1) [unfolded findSessionByRefreshHash_def]] find_Some_in [OF found(2) [unfolded user_by_id_def]]
    by (auto simp: tickets_def)
  then show "auth_good env (s\<lparr>sy_pending := (presented, session, user) # sy_pending s\<rparr>)"
    unfolding auth_good_def Let_def using ok by auto
qed

interpretation sessions: invariant_system nobody "auth_step env" "auth_ok env" for env
proof
  show "auth_ok env s" if "nobody s" for s
    using that by (simp add: auth_ok_def auth_good_def nobody_def tickets_def)
next
  fix s t
  assume ok: "auth_ok env s" and "auth_step env s t"
  from this(2) show "auth_ok env t"
  proof cases
    case (signed_up fr email password name agent now r w)
    then show ?thesis using auth_ok_proof [OF ok signed_up(2) proof_tickets] by blast
  next
    case (signed_in fr email password agent now r w)
    then show ?thesis using auth_ok_proof [OF ok signed_in(2) proof_tickets] by blast
  next
    case (by_google fr denied cd st cookie agent now r w)
    then show ?thesis using auth_ok_proof [OF ok by_google(2) proof_tickets] by blast
  next
    case (refresh_read header presented now session user)
    then show ?thesis using auth_ok_read [OF ok] by blast
  next
    case (refresh_written fr presented session user agent now r w)
    then show ?thesis using auth_ok_written [OF ok] by blast
  next
    case (reaped now)
    then show ?thesis by (intro auth_ok_fewer [OF ok]) (use reap_tickets in auto)
  qed (use ok in \<open>auto intro!: same_tickets tickets_route simp: tickets_sent tickets_confirmed\<close>)
qed

text \<open>
  C12. A refresh token is good for one renewal, and a renewal goes back to a proof of identity. Whatever requests are served,
  and however their reads and writes interleave, no refresh token renews a session twice; every renewal is for a person who
  before it signed in by password, signed up, or came back from Google; and every session in the store belongs to such a
  person.
\<close>

theorem refresh_single_use:
  assumes "reach nobody (auth_step env) s" and "inj (hashRefreshToken (ev_crypto env))"
  shows "distinct (renewals (sy_log s)) \<and> rooted {} (sy_log s) \<and> distinct (map ss_refreshTokenHash (aw_sessions (sy_world s))) \<and>
    (\<forall>row \<in> set (aw_sessions (sy_world s)). ss_userId row \<in> known_users (sy_log s))"
proof -
  note ok = auth_okD [OF sessions.inv_reach [OF assms(1)] assms(2)]
  have "map snd (tickets (sy_world s)) = map ss_refreshTokenHash (aw_sessions (sy_world s))" by (simp add: tickets_def)
  moreover have "ss_userId row \<in> known_users (sy_log s)" if "row \<in> set (aw_sessions (sy_world s))" for row
    using that ok(2) [of "ss_userId row" "ss_refreshTokenHash row"] by (auto simp: tickets_def)
  ultimately show ?thesis using ok(1,5,6) by auto
qed


text \<open>
  A refresh token that was used is refused from then on, and that is all that happens: in every state the requests can
  reach, presenting it again changes nothing, so the session it was renewed into, whoever holds it, lives on.
\<close>

theorem spent_token_refused:
  assumes "reach nobody (auth_step env) s" and "inj (hashRefreshToken (ev_crypto env))"
    and "t \<in> set (renewals (sy_log s))" and "readCookie (ev_crypto env) header REFRESH_COOKIE = Cookie t"
  shows "refresh_session env fr header agent now (sy_world s) = (Inl Session_expired, sy_world s)"
proof -
  have "hashRefreshToken (ev_crypto env) t \<notin> snd ` set (tickets (sy_world s))"
    using auth_okD(3) [OF sessions.inv_reach [OF assms(1)] assms(2,3)] by simp
  then have "findSessionByRefreshHash (hashRefreshToken (ev_crypto env) t) (sy_world s) = None"
    by (auto simp: findSessionByRefreshHash_def find_None_iff tickets_def image_iff)
  then show ?thesis by (simp add: refresh_session_def refresh_judge_def assms(4))
qed

subsection \<open>Stored passwords that are hashed anew\<close>

lemma find_update_first_key:
  assumes "distinct (map key xs)" "List.find Q xs = Some x" "\<And>y. key (f y) = key y"
  shows "List.find (\<lambda>y. key y = key x) (update_first (\<lambda>y. key y = key x) f xs) = Some (f x)"
  using assms
proof (induction xs)
  case (Cons a xs)
  show ?case
  proof (cases "key a = key x")
    case True
    with Cons.prems have "a = x"
      using find_Some_in [OF Cons.prems(2)] by (auto simp: image_iff dest: sym split: if_splits)
    with Cons.prems(3) show ?thesis by simp
  next
    case False
    with Cons show ?thesis by (auto split: if_splits)
  qed
qed simp

text \<open>Signing in with a password under an older cost stores it anew and ends the session it starts at its first refresh.\<close>

theorem rehash_ends_session:
  assumes "sign_in env fr email password agent now w = (Inr i, w')"
    and "findByEmail (trim email) w = Some user" "u_passwordHash user = Some h" "needsRehash h"
    and "distinct (map u_id (aw_users w))"
    and "readCookie (ev_crypto env) header REFRESH_COOKIE = Cookie (is_refresh i)"
  shows "fst (refresh_session env fr' header agent' later w') = Inl Session_expired"
proof -
  let ?cy = "ev_crypto env"
  obtain stronger w1 where start: "startSession ?cy (ev_config env) fr user agent now w1 = (Inr i, w')" "w1 = setPassword (u_id user) stronger now w"
    using assms(1-4) by (auto simp: sign_in_def split: if_splits option.splits)
  have row: "aw_sessions w' = aw_sessions w1 @ [new_session ?cy fr user agent now]" "is_refresh i = fr_refresh fr"
    "\<not> hash_taken (hashRefreshToken ?cy (fr_refresh fr)) w1" "aw_users w' = aw_users (recordSignIn (u_id user) now w1)"
    using start(1) by (auto simp: startSession_def createSession_def new_session_def recordSignIn_def update_user_def split: if_splits)
  have "List.find (\<lambda>s. ss_refreshTokenHash s = hashRefreshToken ?cy (fr_refresh fr)) (aw_sessions w1) = None"
    using row(3) by (auto simp: hash_taken_def list_ex_iff find_None_iff)
  moreover have "List.find P (xs @ [x]) = Some x" if "List.find P xs = None" "P x" for P x and xs :: "auth_session list"
    using that by (induction xs) (auto split: if_splits)
  ultimately have found: "findSessionByRefreshHash (hashRefreshToken ?cy (fr_refresh fr)) w' = Some (new_session ?cy fr user agent now)"
    by (simp add: findSessionByRefreshHash_def row(1) new_session_def)
  let ?bumped = "user\<lparr>u_passwordHash := Some stronger, u_updatedAt := now, u_sessionEpoch := u_sessionEpoch user + 1\<rparr>"
  have "List.find (\<lambda>d. u_id d = u_id user) (aw_users w1) = Some ?bumped"
    using find_update_first_key [of u_id "aw_users w" _ user, OF assms(5) assms(2) [unfolded findByEmail_def]]
    by (simp add: start(2) setPassword_def update_user_def)
  moreover have "map u_id (aw_users w1) = map u_id (aw_users w)"
    by (simp add: start(2) setPassword_def update_user_def map_update_first)
  ultimately have "List.find (\<lambda>d. u_id d = u_id user) (aw_users w') = Some (?bumped\<lparr>u_lastSignedInAt := Some now\<rparr>)"
    using find_update_first_key [of u_id "aw_users w1" "\<lambda>d. u_id d = u_id user" ?bumped] assms(5)
    by (simp add: row(4) recordSignIn_def update_user_def)
  then have user: "user_by_id (u_id user) w' = Some (?bumped\<lparr>u_lastSignedInAt := Some now\<rparr>)" by (simp add: user_by_id_def)
  have "refresh_judge env header later w' \<noteq> Refresh_goes_on session u" for session u
    using found user row(2) by (simp add: refresh_judge_def assms(6) new_session_def)
  moreover have "refresh_judge env header later w' = Refresh_refused e \<Longrightarrow> e = Session_expired" for e
    using found user row(2) by (auto simp: refresh_judge_def assms(6) new_session_def split: if_splits)
  ultimately show ?thesis by (simp add: refresh_session_def split: refresh_verdict.splits)
qed

subsection \<open>Google and accounts that were there before\<close>

text \<open>
  An identity that is new to the host and whose address an account has is joined to that account, whoever made it: the
  password it was made with stays, and still signs in.
\<close>

theorem planted_account_adopted:
  assumes "findIdentity (gi_subject identity) w = None" "gi_emailVerified identity" "findByEmail (gi_email identity) w = Some user"
    and "u_passwordHash user = Some h"
  shows "\<exists>w'. google_account fr identity now w = (Inr user, w') \<and>
    findIdentity (gi_subject identity) w' \<noteq> None \<and> (\<exists>d \<in> set (aw_users w'). u_id d = u_id user \<and> u_passwordHash d = Some h)"
proof -
  let ?w1 = "if u_emailVerifiedAt user = None then markEmailVerified (u_id user) now w else w"
  have user: "user \<in> set (aw_users w)" using find_Some_in [OF assms(3) [unfolded findByEmail_def]] by simp
  have "\<exists>d \<in> set (aw_users ?w1). u_id d = u_id user \<and> u_passwordHash d = Some h"
  proof -
    have "y \<in> set xs \<Longrightarrow> \<exists>d \<in> set (update_first P (\<lambda>d. d\<lparr>u_emailVerifiedAt := Some now, u_updatedAt := now\<rparr>) xs). u_id d = u_id y \<and> u_passwordHash d = u_passwordHash y"
      for P xs and y :: user_doc by (induction xs) auto
    from this [OF user] show ?thesis using user assms(4) by (auto simp: markEmailVerified_def update_user_def)
  qed
  moreover have free: "\<not> list_ex (\<lambda>d. idn_subject d = gi_subject identity) (aw_identities ?w1)"
    using assms(1) by (auto simp: findIdentity_def find_None_iff list_ex_iff markEmailVerified_def update_user_def)
  moreover have "List.find P (xs @ [d]) \<noteq> None" if "P d" for P d and xs :: "identity_doc list"
    using that by (induction xs) auto
  ultimately show ?thesis
    using assms(1-3) by (simp add: google_account_def link_identity_def findIdentity_def del: not_None_eq)
qed

text \<open>A path that begins with a slash and a backslash is honoured, which a browser reads as another host.\<close>

lemma backslash_return: "safeReturnTo (Some (CHR ''/'' # CHR 0x5C # host)) = CHR ''/'' # CHR 0x5C # host"
  by (simp add: safeReturnTo_def)


subsection \<open>Guessing a code\<close>

definition guessed :: "auth_env \<Rightarrow> id \<Rightarrow> (string \<times> time) list \<Rightarrow> auth_world \<Rightarrow> auth_world" where
  "guessed env u gs w = fold (\<lambda>(c, t) w. snd (confirm_code env u c t w)) gs w"

text \<open>The one open challenge of a person who is not verified, after so many wrong guesses.\<close>

definition guessing :: "id \<Rightarrow> auth_challenge \<Rightarrow> nat \<Rightarrow> auth_world \<Rightarrow> bool" where
  "guessing u ch n w \<longleftrightarrow>
     (\<exists>d. user_by_id u w = Some d \<and> u_emailVerifiedAt d = None) \<and> distinct (map cl_id (aw_challenges w)) \<and>
     (\<forall>c \<in> set (aw_challenges w). cl_userId c = u \<and> cl_kind c = Email_verification \<and> cl_consumedAt c = None
        \<longrightarrow> c = ch\<lparr>cl_attempts := int n\<rparr> \<and> n < 5)"

lemma find_by_key: "distinct (map key xs) \<Longrightarrow> x \<in> set xs \<Longrightarrow> List.find (\<lambda>y. key y = key x) xs = Some x"
  by (induction xs) (auto simp: image_iff)

lemma shaped_short: "isCodeShaped g \<Longrightarrow> trim g \<noteq> [] \<and> length (trim g) = 6"
  by (auto simp: isCodeShaped_def)

lemma update_first_elem:
  assumes "distinct (map key xs)" "x \<in> set xs" "P x" "\<And>y. P y \<Longrightarrow> key y = key x" "\<And>y. key (f y) = key y"
  shows "set (update_first P f xs) = insert (f x) (set xs - {x})" "distinct (map key (update_first P f xs))"
proof -
  show "set (update_first P f xs) = insert (f x) (set xs - {x})"
    using assms(1-4)
  proof (induction xs)
    case (Cons a xs)
    show ?case
    proof (cases "P a")
      case True
      then have "key a = key x" by (rule Cons.prems(4))
      with Cons.prems(1,2) have "a = x" "x \<notin> set xs" by (auto simp: image_iff)
      with True show ?thesis by auto
    next
      case False
      with Cons.prems(1-3) Cons.IH [OF _ _ Cons.prems(3,4)] show ?thesis by auto
    qed
  qed simp
  show "distinct (map key (update_first P f xs))" using assms(1,5) by (simp add: map_update_first)
qed

lemma guessing_wrong:
  assumes "guessing u ch n w" "openChallenge u Email_verification t w = Some c" "cl_tokenHash ch \<noteq> codeHash (ev_crypto env) u g" "isCodeShaped g"
  shows "guessing u ch (Suc n) (snd (confirm_code env u g t w))"
proof -
  note find = find_Some_in [OF assms(2) [unfolded openChallenge_def]]
  have c: "c \<in> set (aw_challenges w)" "c = ch\<lparr>cl_attempts := int n\<rparr>" "n < 5" "cl_userId c = u" "cl_kind c = Email_verification" "cl_consumedAt c = None"
    using find assms(1) by (auto simp: guessing_def open_challenge_def)
  have dist: "distinct (map cl_id (aw_challenges w))" using assms(1) by (simp add: guessing_def)
  obtain d where d: "user_by_id u w = Some d" "u_emailVerifiedAt d = None" using assms(1) by (auto simp: guessing_def)
  let ?cs = "update_first (\<lambda>x. cl_id x = cl_id c) (\<lambda>x. x\<lparr>cl_attempts := cl_attempts x + 1\<rparr>) (aw_challenges w)"
  have "List.find (\<lambda>x. cl_id x = cl_id c) (aw_challenges w) = Some c" by (rule find_by_key [OF dist c(1)])
  then have attempt: "recordChallengeAttempt (cl_id c) w = (int n + 1, w\<lparr>aw_challenges := ?cs\<rparr>)"
    by (simp add: recordChallengeAttempt_def c(2))
  let ?c = "ch\<lparr>cl_attempts := int (Suc n)\<rparr>" and ?P = "\<lambda>x. cl_id x = cl_id c \<and> cl_consumedAt x = None"
  let ?ds = "update_first ?P (\<lambda>x. x\<lparr>cl_consumedAt := Some t\<rparr>) ?cs"
  have cs: "set ?cs = insert ?c (set (aw_challenges w) - {c})" "distinct (map cl_id ?cs)"
    using update_first_elem [OF dist c(1), of "\<lambda>x. cl_id x = cl_id c" "\<lambda>x. x\<lparr>cl_attempts := cl_attempts x + 1\<rparr>"]
    by (simp_all add: c(2) ac_simps)
  have ds: "set ?ds = insert (?c\<lparr>cl_consumedAt := Some t\<rparr>) (set ?cs - {?c})" "distinct (map cl_id ?ds)"
    using update_first_elem [OF cs(2), of ?c ?P "\<lambda>x. x\<lparr>cl_consumedAt := Some t\<rparr>"] c(2,6) cs(1) by simp_all
  have others: "x = c" if "x \<in> set (aw_challenges w)" "cl_userId x = u" "cl_kind x = Email_verification" "cl_consumedAt x = None" for x
    using that assms(1) c(2) by (auto simp: guessing_def)
  have "snd (confirm_code env u g t w) = w\<lparr>aw_challenges := if 4 \<le> n then ?ds else ?cs\<rparr>"
    using d assms(2-4) c(2) attempt shaped_short [OF assms(4)]
    by (simp add: confirm_code_def consumeChallenge_def MAX_ATTEMPTS_def Let_def)
  moreover have "guessing u ch (Suc n) (w\<lparr>aw_challenges := ?cs\<rparr>)" if "\<not> 4 \<le> n"
    using that d cs others by (auto simp: guessing_def user_by_id_def)
  moreover have "guessing u ch (Suc n) (w\<lparr>aw_challenges := ?ds\<rparr>)"
    using d ds cs(1) others by (auto simp: guessing_def user_by_id_def)
  ultimately show ?thesis by simp
qed

lemma guessing_other:
  assumes "guessing u ch n w" "\<not> isCodeShaped g \<or> \<not> t < cl_expiresAt ch \<or> 5 \<le> n"
  shows "snd (confirm_code env u g t w) = w"
proof (cases "openChallenge u Email_verification t w")
  case None
  with assms(1) show ?thesis by (auto simp: confirm_code_def guessing_def)
next
  case (Some c)
  with assms find_Some_in [OF Some [unfolded openChallenge_def]] have "\<not> isCodeShaped g" by (auto simp: guessing_def open_challenge_def)
  with assms(1) show ?thesis by (auto simp: confirm_code_def guessing_def)
qed

lemma guessing_guessed:
  assumes "guessing u ch n w"
    and "\<forall>(c, t) \<in> set (take (5 - n) (filter (\<lambda>(c, t). isCodeShaped c \<and> t < cl_expiresAt ch) gs)). cl_tokenHash ch \<noteq> codeHash (ev_crypto env) u c"
  shows "\<exists>d. user_by_id u (guessed env u gs w) = Some d \<and> u_emailVerifiedAt d = None"
  using assms
proof (induction gs arbitrary: n w)
  case Nil
  then show ?case by (auto simp: guessed_def guessing_def)
next
  case (Cons a gs)
  obtain g t where a: "a = (g, t)" by (cases a)
  have first: "guessed env u (a # gs) w = guessed env u gs (snd (confirm_code env u g t w))" by (simp add: guessed_def a)
  show ?case
  proof (cases "isCodeShaped g \<and> t < cl_expiresAt ch \<and> n < 5")
    case False
    then have "snd (confirm_code env u g t w) = w" using guessing_other [OF Cons.prems(1)] by auto
    with Cons.IH [OF Cons.prems(1)] Cons.prems(2) False first show ?thesis by (auto simp: a split: if_splits)
  next
    case True
    then have wrong: "cl_tokenHash ch \<noteq> codeHash (ev_crypto env) u g"
      and rest: "\<forall>(c, t) \<in> set (take (5 - Suc n) (filter (\<lambda>(c, t). isCodeShaped c \<and> t < cl_expiresAt ch) gs)). cl_tokenHash ch \<noteq> codeHash (ev_crypto env) u c"
      using Cons.prems(2) by (auto simp: a take_Cons' split: if_splits)
    show ?thesis
    proof (cases "openChallenge u Email_verification t w")
      case None
      then have same: "snd (confirm_code env u g t w) = w" using Cons.prems(1) by (auto simp: confirm_code_def guessing_def)
      have "guessing u ch (Suc n) w"
        using Cons.prems(1) None True unfolding guessing_def openChallenge_def find_None_iff open_challenge_def by fastforce
      from Cons.IH [OF this rest] show ?thesis by (simp add: first same)
    next
      case (Some c)
      then show ?thesis using Cons.IH [OF guessing_wrong [OF Cons.prems(1) Some wrong] rest] True by (simp add: first)
    qed
  qed
qed



subsection \<open>A run of the host\<close>

text \<open>Somebody signs up and refreshes once; a code is sent to them.\<close>

definition sample_auth :: auth_env where
  "sample_auth = \<lparr>ev_crypto = sample_crypto, ev_config = sample_config, ev_validEmail = (\<lambda>_. True), ev_mailConfigured = True, ev_google = None\<rparr>"

definition sample_fresh :: "string \<Rightarrow> string \<Rightarrow> fresh" where
  "sample_fresh token other = \<lparr>fr_user = ''usr_1'', fr_session = ''ses_'' @ token, fr_identity = ''idn_1'', fr_challenge = ''chl_1'',
     fr_refresh = token, fr_next = other, fr_salt = ''salt'', fr_code = ''123456''\<rparr>"

definition sample_empty :: auth_sys where
  "sample_empty = \<lparr>sy_world = \<lparr>aw_users = [], aw_sessions = [], aw_identities = [], aw_challenges = [], aw_mail = []\<rparr>,
     sy_pending = [], sy_log = [], sy_minted = {}\<rparr>"

definition sample_joining :: "(auth_refusal + issued) \<times> auth_world" where
  "sample_joining = sign_up sample_auth (sample_fresh ''r1'' ''n1'') ''a@b.c'' ''correct horse'' None None 5000 (sy_world sample_empty)"

definition sample_joined :: auth_sys where
  "sample_joined = mint (sample_fresh ''r1'' ''n1'') sample_empty\<lparr>sy_world := snd sample_joining,
     sy_log := sy_log sample_empty @ proved (fst sample_joining)\<rparr>"

definition sample_session :: auth_session where
  "sample_session = \<lparr>ss_id = ''ses_r1'', ss_userId = ''usr_1'', ss_refreshTokenHash = ''hr1'', ss_sessionEpoch = 1, ss_rotatedAt = 5000,
     ss_createdAt = 5000, ss_expiresAt = 2592005000, ss_idleExpiresAt = 604805000, ss_userAgent = None, ss_revokedAt = None, ss_revokedReason = None\<rparr>"

definition sample_person :: user_doc where
  "sample_person = \<lparr>u_id = ''usr_1'', u_email = ''a@b.c'', u_emailDisplay = ''a@b.c'', u_emailVerifiedAt = None, u_name = None,
     u_passwordHash = hashPassword sample_crypto ''salt'' ''correct horse'', u_sessionEpoch = 1, u_disabledAt = None,
     u_walkthroughSeenAt = None, u_createdAt = 5000, u_updatedAt = 5000, u_lastSignedInAt = Some 5000\<rparr>"

definition sample_asked :: auth_sys where
  "sample_asked = sample_joined\<lparr>sy_pending := (''r1'', sample_session, sample_person) # sy_pending sample_joined\<rparr>"

definition sample_renewal :: "(auth_refusal + issued) \<times> auth_world" where
  "sample_renewal = refresh_commit sample_auth (sample_fresh ''r2'' ''n2'') sample_session sample_person None 6000 (sy_world sample_asked)"

definition sample_renewed :: auth_sys where
  "sample_renewed = mint (sample_fresh ''r2'' ''n2'') sample_asked\<lparr>sy_world := snd sample_renewal,
     sy_pending := remove1 (''r1'', sample_session, sample_person) (sy_pending sample_asked),
     sy_log := sy_log sample_asked @ renewed ''r1'' (fst sample_renewal)\<rparr>"

lemma sample_sha: "inj (hashRefreshToken (ev_crypto sample_auth))"
  by (simp add: inj_def hashRefreshToken_def sample_auth_def sample_crypto_def)

lemma sample_joining_eq:
  "\<exists>token. sample_joining = (Inr \<lparr>is_user = ''usr_1'', is_session = ''ses_r1'', is_access = token, is_refresh = ''r1''\<rparr>,
     \<lparr>aw_users = [sample_person], aw_sessions = [sample_session], aw_identities = [], aw_challenges = [], aw_mail = []\<rparr>)"
proof -
  obtain h where h: "hashPassword sample_crypto ''salt'' ''correct horse'' = Some h"
    by (simp add: hashPassword_def sample_crypto_def)
  have address: "trim ''a@b.c'' = ''a@b.c''" "normaliseEmail ''a@b.c'' = ''a@b.c''" by code_simp+
  show ?thesis
    by (simp add: sample_joining_def sign_up_def credentials_ok_def sample_auth_def sample_fresh_def sample_empty_def address h MIN_PASSWORD_LENGTH_def
        create_user_def startSession_def createSession_def hash_taken_def new_session_def recordSignIn_def update_user_def sample_person_def
        sample_session_def REFRESH_TOKEN_TTL_MS_def REFRESH_IDLE_TTL_MS_def hashRefreshToken_def Let_def)
       (simp add: sample_crypto_def)
qed

lemma sample_world: "sy_world sample_joined = \<lparr>aw_users = [sample_person], aw_sessions = [sample_session], aw_identities = [], aw_challenges = [], aw_mail = []\<rparr>"
  "sy_log sample_joined = [Proved ''usr_1'' ''r1'']" "sy_world sample_joined = snd sample_joining"
proof -
  obtain token where "sample_joining = (Inr \<lparr>is_user = ''usr_1'', is_session = ''ses_r1'', is_access = token, is_refresh = ''r1''\<rparr>,
      \<lparr>aw_users = [sample_person], aw_sessions = [sample_session], aw_identities = [], aw_challenges = [], aw_mail = []\<rparr>)"
    using sample_joining_eq by blast
  note [simp] = this
  show "sy_world sample_joined = \<lparr>aw_users = [sample_person], aw_sessions = [sample_session], aw_identities = [], aw_challenges = [], aw_mail = []\<rparr>"
    "sy_log sample_joined = [Proved ''usr_1'' ''r1'']" "sy_world sample_joined = snd sample_joining"
    by (simp_all add: sample_joined_def proved_def sample_empty_def)
qed

lemma sample_cookie: "readCookie (ev_crypto sample_auth) (Some ''salv_rt=r1'') REFRESH_COOKIE = Cookie ''r1''"
  by code_simp

lemma sample_judged:
  "refresh_judge sample_auth (Some ''salv_rt=r1'') 6000 (sy_world sample_joined) = Refresh_goes_on sample_session sample_person"
  by (simp add: refresh_judge_def sample_cookie sample_world findSessionByRefreshHash_def user_by_id_def session_dead_def hashRefreshToken_def)
     (simp add: sample_session_def sample_person_def sample_auth_def sample_crypto_def)

lemma sample_minting: "unminted (sample_fresh ''r1'' ''n1'') sample_empty" "unminted (sample_fresh ''r2'' ''n2'') sample_asked"
  by (simp_all add: unminted_def sample_fresh_def sample_empty_def sample_asked_def sample_joined_def mint_def)

lemma sample_reached: "reach nobody (auth_step sample_auth) sample_renewed"
proof -
  have "reach nobody (auth_step sample_auth) sample_empty" by (rule reach_init) (simp add: nobody_def sample_empty_def)
  then have "reach nobody (auth_step sample_auth) sample_joined"
    unfolding sample_joined_def
    by (rule reach_step) (rule signed_up [OF sample_minting(1)], unfold sample_joining_def, rule surjective_pairing)
  then have "reach nobody (auth_step sample_auth) sample_asked"
    unfolding sample_asked_def by (rule reach_step) (rule refresh_read [OF sample_cookie sample_judged])
  then show ?thesis
    unfolding sample_renewed_def
    by (rule reach_step) (rule refresh_written [OF sample_minting(2)], simp add: sample_asked_def, unfold sample_renewal_def, rule surjective_pairing)
qed

lemma sample_log: "sy_log sample_renewed = [Proved ''usr_1'' ''r1'', Renewed ''r1'' ''usr_1'' ''r2'']"
proof -
  have "\<exists>token. fst sample_renewal = Inr \<lparr>is_user = ''usr_1'', is_session = ''ses_r2'', is_access = token, is_refresh = ''r2''\<rparr>"
    by (simp add: sample_renewal_def refresh_commit_def sample_asked_def sample_world rotateSession_def rotatable_def hash_taken_def
        startSession_def createSession_def new_session_def hashRefreshToken_def sample_fresh_def)
       (simp add: sample_session_def sample_person_def sample_auth_def sample_crypto_def)
  then show ?thesis by (auto simp: sample_renewed_def sample_asked_def sample_world renewed_def)
qed

theorem refresh_single_use_witness:
  "reach nobody (auth_step sample_auth) sample_renewed \<and> distinct (renewals (sy_log sample_renewed)) \<and> renewals (sy_log sample_renewed) = [''r1''] \<and>
    rooted {} (sy_log sample_renewed) \<and> known_users (sy_log sample_renewed) = {''usr_1''} \<and>
    ss_userId ` set (aw_sessions (sy_world sample_renewed)) \<subseteq> known_users (sy_log sample_renewed)"
  using refresh_single_use [OF sample_reached sample_sha] sample_reached by (simp add: sample_log image_subset_iff)

theorem spent_token_refused_witness:
  "refresh_session sample_auth (sample_fresh ''r3'' ''n3'') (Some ''salv_rt=r1'') None 7000 (sy_world sample_renewed) =
    (Inl Session_expired, sy_world sample_renewed)"
  by (rule spent_token_refused [OF sample_reached sample_sha _ sample_cookie]) (simp add: sample_log)

definition sample_guesses :: "(string \<times> time) list" where
  "sample_guesses = map (Pair ''000000'') [6000, 6001, 6002, 6003, 6004] @ [(''123456'', 6005)]"


end
