(* ===== verification/Channel_Adapters.thy ===== *)
theory Channel_Adapters
  imports Tokens
begin

text \<open>
  The chat platforms (\<^verbatim>\<open>packages/channels/src\<close>): what a delivery of Telegram, Slack, Discord, WhatsApp or a Mac turns
  out to be (\<^verbatim>\<open>receive\<close>), who it is for when one application serves many connections (\<^verbatim>\<open>slackTeamOf\<close> and its
  like), how a long answer is split, and the requests an answer becomes.

  A payload is a record with the fields of the source's interface, an absent field \<^const>\<open>None\<close>; reading the JSON of a
  payload, HMAC, Ed25519 and the decoding of a form are fields of \<open>platform_env\<close>. Each platform that signs what it
  delivers interprets the locale \<open>signed_adapter\<close>.
\<close>

subsection \<open>The port\<close>

record inbound_audio =
  ia_fileRef :: string
  ia_mimeType :: string
  ia_durationSeconds :: "rat option"
  ia_sizeBytes :: "int option"

record inbound_message =
  im_chatRef :: string
  im_senderRef :: string
  im_senderLabel :: string
  im_text :: string
  im_audio :: "inbound_audio option"
  im_messageRef :: string

record inbound_choice =
  ic_chatRef :: string
  ic_senderRef :: string
  ic_senderLabel :: string
  ic_data :: string
  ic_callbackRef :: string
  ic_messageRef :: string
  ic_deliveryRef :: string

record choice =
  ch_label :: string
  ch_data :: string

record ack =
  ak_body :: string
  ak_contentType :: string

datatype inbound_result =
    Got_message inbound_message "ack option"
  | Got_choice inbound_choice
  | Ignored string
  | Asked ack
  | Not_genuine string

record verify_context =
  vx_webhookUrl :: string
  vx_webhookSecret :: string

datatype media_kind = Picture | Clip

record outbound_media =
  om_kind :: media_kind
  om_url :: string
  om_caption :: "string option"

type_synonym headers = "string \<Rightarrow> string option"

text \<open>A call of a platform's API: the address below its base, and the body.\<close>

record api_call =
  ac_path :: string
  ac_body :: jsv

subsection \<open>Splitting a long answer\<close>

definition line_feed :: char where
  "line_feed = CHR 0x0A"

fun last_index :: "char \<Rightarrow> string \<Rightarrow> int" where
  "last_index c [] = - 1"
| "last_index c (x # xs) = (let k = last_index c xs in if 0 \<le> k then k + 1 else if x = c then 0 else - 1)"

definition cut_at :: "nat \<Rightarrow> string \<Rightarrow> nat" where
  "cut_at limit rest =
     (let breakAt = last_index line_feed (take limit rest)
      in if 3 * int limit < 4 * breakAt then nat breakAt else limit)"

definition drop_newline :: "string \<Rightarrow> string" where
  "drop_newline s = (case s of c # cs \<Rightarrow> if c = line_feed then cs else s | [] \<Rightarrow> [])"

text \<open>The loop of \<^verbatim>\<open>split\<close> and \<^verbatim>\<open>chunk\<close>. With a limit of zero it never ends, and has no value.\<close>

partial_function (option) split_rest :: "nat \<Rightarrow> string \<Rightarrow> string list option" where
  "split_rest limit rest =
     (if length rest \<le> limit then Some (if rest = [] then [] else [rest])
      else
        Option.bind (split_rest limit (drop_newline (drop (cut_at limit rest) rest)))
          (\<lambda>parts. Some (take (cut_at limit rest) rest # parts)))"

definition split :: "string \<Rightarrow> nat \<Rightarrow> string list option" where
  "split body limit = (if length body \<le> limit then Some [body] else split_rest limit body)"

definition first_part :: "string \<Rightarrow> nat \<Rightarrow> string" where
  "first_part body limit = (case split body limit of Some (p # _) \<Rightarrow> p | _ \<Rightarrow> body)"

text \<open>The parts in order, with a line break or nothing between them.\<close>

fun rejoins :: "string list \<Rightarrow> string \<Rightarrow> bool" where
  "rejoins [] t \<longleftrightarrow> t = []"
| "rejoins (p # ps) t \<longleftrightarrow> take (length p) t = p \<and> (rejoins ps (drop (length p) t) \<or> rejoins ps (drop_newline (drop (length p) t)))"

lemma last_index_bounds: "- 1 \<le> last_index c xs \<and> last_index c xs < int (length xs)"
  by (induction xs) (auto simp: Let_def)

lemma cut_at_bounds:
  assumes "0 < limit" "limit < length rest"
  shows "0 < cut_at limit rest \<and> cut_at limit rest \<le> limit"
  using assms last_index_bounds [of line_feed "take limit rest"] by (auto simp: cut_at_def Let_def)

lemma length_drop_newline: "length (drop_newline s) \<le> length s"
  by (cases s) (auto simp: drop_newline_def)

lemma split_rest_ok:
  assumes "0 < limit"
  shows "\<exists>parts. split_rest limit rest = Some parts \<and> (\<forall>p \<in> set parts. 0 < length p \<and> length p \<le> limit) \<and> rejoins parts rest"
proof (induction "length rest" arbitrary: rest rule: less_induct)
  case less
  show ?case
  proof (cases "length rest \<le> limit")
    case True
    then show ?thesis by (subst split_rest.simps) simp
  next
    case False
    let ?cut = "cut_at limit rest" and ?next = "drop_newline (drop (cut_at limit rest) rest)"
    have cut: "0 < ?cut" "?cut \<le> limit" using cut_at_bounds [of limit rest] assms False by auto
    have "length ?next < length rest" using length_drop_newline [of "drop ?cut rest"] cut False by simp
    then obtain parts where parts: "split_rest limit ?next = Some parts" "\<forall>p \<in> set parts. 0 < length p \<and> length p \<le> limit" "rejoins parts ?next"
      using less by blast
    have "split_rest limit rest = Some (take ?cut rest # parts)"
      using False parts(1) by (subst split_rest.simps) simp
    moreover have "length (take ?cut rest) = ?cut" using cut False by simp
    ultimately show ?thesis using parts(2,3) cut False by auto
  qed
qed

text \<open>
  C38. A long answer is split so that every part fits and nothing is lost. For a positive limit splitting ends; no part
  exceeds the limit and none is empty unless the answer is; and the parts in their order are the answer again, but for
  single line breaks where it was cut.
\<close>

theorem split_fits:
  assumes "0 < limit"
  shows "\<exists>parts. split body limit = Some parts \<and> parts \<noteq> [] \<and> (\<forall>p \<in> set parts. length p \<le> limit \<and> (body \<noteq> [] \<longrightarrow> p \<noteq> [])) \<and> rejoins parts body"
proof (cases "length body \<le> limit")
  case True
  then show ?thesis by (simp add: split_def)
next
  case False
  from split_rest_ok [OF assms, of body] obtain parts where
    parts: "split_rest limit body = Some parts" "\<forall>p \<in> set parts. 0 < length p \<and> length p \<le> limit" "rejoins parts body" by blast
  with False have "parts \<noteq> []" by auto
  with False parts show ?thesis by (auto simp: split_def)
qed

theorem split_fits_witness:
  "\<exists>parts. split (replicate 8 CHR ''a'' @ [line_feed] @ replicate 5 CHR ''b'') 10 = Some parts \<and> list_all (\<lambda>p. length p \<le> 10) parts \<and> rejoins parts (replicate 8 CHR ''a'' @ [line_feed] @ replicate 5 CHR ''b'')"
  using split_fits [of 10 "replicate 8 CHR ''a'' @ [line_feed] @ replicate 5 CHR ''b''"] by (auto simp: list_all_iff)

subsection \<open>What the platforms are asked with\<close>

record telegram_user =
  tgu_id :: int
  tgu_is_bot :: bool
  tgu_first_name :: "string option"
  tgu_username :: "string option"

record telegram_voice =
  tv_file_id :: string
  tv_mime_type :: "string option"
  tv_duration :: "int option"
  tv_file_size :: "int option"

record telegram_message =
  tm_message_id :: int
  tm_from :: "telegram_user option"
  tm_chat :: "int option"
  tm_text :: "string option"
  tm_voice :: "telegram_voice option"
  tm_audio :: "telegram_voice option"
  tm_caption :: "string option"

text \<open>The message a button was under, with the chat it is in.\<close>

record telegram_callback =
  tc_id :: string
  tc_from :: telegram_user
  tc_message :: "(int \<times> int option) option"
  tc_data :: "string option"

record telegram_update =
  tp_message :: "telegram_message option"
  tp_callback :: "telegram_callback option"

record slack_file =
  sf_mimetype :: "string option"
  sf_url_private_download :: "string option"
  sf_url_private :: "string option"
  sf_size :: "int option"
  sf_duration_ms :: "int option"

record slack_event =
  sv_type :: "string option"
  sv_subtype :: "string option"
  sv_channel :: "string option"
  sv_user :: "string option"
  sv_text :: "string option"
  sv_ts :: "string option"
  sv_bot_id :: "string option"
  sv_files :: "slack_file list option"

record slack_body =
  sb_type :: "string option"
  sb_challenge :: "string option"
  sb_event :: "slack_event option"
  sb_user :: "(string option \<times> string option \<times> string option) option"
  sb_channel :: "string option"
  sb_message :: "string option"
  sb_actions :: "string option list option"
  sb_trigger_id :: "string option"
  sb_response_url :: "string option"
  sb_team_id :: "string option"
  sb_team :: "string option"

record discord_user =
  du_id :: string
  du_username :: string

record discord_body =
  db_type :: "int option"
  db_id :: "string option"
  db_channel_id :: "string option"
  db_member_user :: "discord_user option"
  db_user :: "discord_user option"
  db_message :: "string option"
  db_options :: "(string \<times> jsv) list option"
  db_custom_id :: "string option"
  db_guild_id :: "string option"

record whatsapp_message =
  wm_from :: "string option"
  wm_id :: "string option"
  wm_type :: "string option"
  wm_text :: "string option"
  wm_audio :: "(string option \<times> string option) option"
  wm_interactive :: "(string option \<times> string option) option"
  wm_button :: "string option"
  wm_context :: "string option"

record whatsapp_value =
  wv_phone_number_id :: "string option"
  wv_contacts :: "(string option \<times> string option) list option"
  wv_messages :: "whatsapp_message list option"

record whatsapp_change =
  wg_field :: "string option"
  wg_value :: "whatsapp_value option"

record whatsapp_body =
  wb_object :: "string option"
  wb_entry :: "whatsapp_change list option list option"

record mac_attachment =
  ma_guid :: "string option"
  ma_mimeType :: "string option"
  ma_totalBytes :: "int option"

record mac_message =
  mm_guid :: "string option"
  mm_text :: "string option"
  mm_isFromMe :: "bool option"
  mm_handle :: "string option"
  mm_chats :: "string option list option"
  mm_attachments :: "mac_attachment list option"

record mac_event =
  me_type :: "string option"
  me_data :: "mac_message option"

record platform_env =
  pe_telegram :: "string \<Rightarrow> telegram_update option"
  pe_slack :: "string \<Rightarrow> slack_body option"
  pe_discord :: "string \<Rightarrow> discord_body option"
  pe_whatsapp :: "string \<Rightarrow> whatsapp_body option"
  pe_mac :: "string \<Rightarrow> mac_event option"
  pe_form :: "string \<Rightarrow> string option"
  pe_hmac :: "string \<Rightarrow> string \<Rightarrow> string"
  pe_ed25519 :: "string \<Rightarrow> string \<Rightarrow> string \<Rightarrow> bool"

definition ends_with :: "string \<Rightarrow> string \<Rightarrow> bool" where
  "ends_with s suffix = starts_with (rev s) (rev suffix)"

definition MAX_AUDIO_BYTES :: int where
  "MAX_AUDIO_BYTES = 20 * 1024 * 1024"

definition or_else :: "'a option \<Rightarrow> 'a \<Rightarrow> 'a" where
  "or_else x d = (case x of None \<Rightarrow> d | Some v \<Rightarrow> v)"

definition or_option :: "'a option \<Rightarrow> 'a option \<Rightarrow> 'a option" where
  "or_option x y = (case x of None \<Rightarrow> y | Some v \<Rightarrow> Some v)"

subsection \<open>Telegram\<close>

definition TELEGRAM_LIMIT :: nat where
  "TELEGRAM_LIMIT = 4096"

definition SECRET_HEADER :: string where
  "SECRET_HEADER = ''x-telegram-bot-api-secret-token''"

definition telegramChatOf :: "platform_env \<Rightarrow> string \<Rightarrow> string option" where
  "telegramChatOf env raw =
     Option.bind (pe_telegram env raw) (\<lambda>u.
       map_option show_int (or_option (Option.bind (tp_message u) tm_chat)
         (Option.bind (tp_callback u) (\<lambda>c. Option.bind (tc_message c) snd))))"

definition telegram_label :: "telegram_user \<Rightarrow> string" where
  "telegram_label u =
     (case tgu_username u of Some name \<Rightarrow> ''@'' @ name | None \<Rightarrow> or_else (tgu_first_name u) (show_int (tgu_id u)))"

definition telegram_audio :: "telegram_voice \<Rightarrow> inbound_audio" where
  "telegram_audio v = \<lparr>ia_fileRef = tv_file_id v, ia_mimeType = or_else (tv_mime_type v) ''audio/ogg'',
     ia_durationSeconds = map_option of_int (tv_duration v), ia_sizeBytes = tv_file_size v\<rparr>"

definition telegram_press :: "telegram_callback \<Rightarrow> inbound_result" where
  "telegram_press pressed =
     (case (tc_message pressed, tc_data pressed) of
        (Some (message_id, Some chat), Some d) \<Rightarrow>
          Got_choice \<lparr>ic_chatRef = show_int chat, ic_senderRef = show_int (tgu_id (tc_from pressed)),
            ic_senderLabel = telegram_label (tc_from pressed), ic_data = d, ic_callbackRef = tc_id pressed,
            ic_messageRef = show_int message_id, ic_deliveryRef = ''press:'' @ tc_id pressed\<rparr>
      | _ \<Rightarrow> Ignored ''A button press with nothing to act on.'')"

definition telegram_spoken :: "telegram_message \<Rightarrow> int \<Rightarrow> telegram_user \<Rightarrow> inbound_result" where
  "telegram_spoken m chat from =
     (let spoken = or_option (tm_voice m) (tm_audio m); typed = or_else (or_option (tm_text m) (tm_caption m)) []
      in if tgu_is_bot from then Ignored ''Sent by a bot.''
         else if trim typed = [] \<and> spoken = None then Ignored ''Nothing to read: a photo, sticker or file.''
         else if (case spoken of Some v \<Rightarrow> MAX_AUDIO_BYTES < or_else (tv_file_size v) 0 | None \<Rightarrow> False)
         then Ignored ''The recording is too large to fetch.''
         else Got_message \<lparr>im_chatRef = show_int chat, im_senderRef = show_int (tgu_id from), im_senderLabel = telegram_label from,
                im_text = typed, im_audio = map_option telegram_audio spoken, im_messageRef = show_int (tm_message_id m)\<rparr> None)"

definition telegram_receive :: "platform_env \<Rightarrow> string \<Rightarrow> headers \<Rightarrow> verify_context \<Rightarrow> time \<Rightarrow> inbound_result" where
  "telegram_receive env raw hs ctx now =
     (if hs SECRET_HEADER \<noteq> Some (vx_webhookSecret ctx)
      then Not_genuine ''The delivery did not carry the secret of this connection.''
      else
        (case pe_telegram env raw of
           None \<Rightarrow> Not_genuine ''The delivery was not JSON.''
         | Some u \<Rightarrow>
             (case tp_callback u of
                Some pressed \<Rightarrow> telegram_press pressed
              | None \<Rightarrow>
                  (case Option.bind (tp_message u) (\<lambda>m. case (tm_chat m, tm_from m) of (Some c, Some f) \<Rightarrow> Some (m, c, f) | _ \<Rightarrow> None) of
                     Some (m, chat, from) \<Rightarrow> telegram_spoken m chat from
                   | None \<Rightarrow> Ignored ''Not a chat message.''))))"

definition telegram_send :: "string \<Rightarrow> string \<Rightarrow> string \<Rightarrow> api_call list option" where
  "telegram_send token chatRef body =
     map_option (map (\<lambda>part. \<lparr>ac_path = ''/bot'' @ token @ ''/sendMessage'', ac_body = JObj [(''chat_id'', JStr chatRef), (''text'', JStr part)]\<rparr>))
       (split body TELEGRAM_LIMIT)"

definition telegram_sendMedia :: "string \<Rightarrow> string \<Rightarrow> outbound_media \<Rightarrow> api_call" where
  "telegram_sendMedia token chatRef media =
     (let caption = (case om_caption media of Some c \<Rightarrow> if length c \<le> 1024 then [(''caption'', JStr c)] else [] | None \<Rightarrow> [])
      in case om_kind media of
           Clip \<Rightarrow> \<lparr>ac_path = ''/bot'' @ token @ ''/sendVideo'', ac_body = JObj ([(''chat_id'', JStr chatRef), (''video'', JStr (om_url media))] @ caption)\<rparr>
         | Picture \<Rightarrow> \<lparr>ac_path = ''/bot'' @ token @ ''/sendPhoto'', ac_body = JObj ([(''chat_id'', JStr chatRef), (''photo'', JStr (om_url media))] @ caption)\<rparr>)"

definition telegram_sendChoices :: "string \<Rightarrow> string \<Rightarrow> string \<Rightarrow> choice list \<Rightarrow> api_call" where
  "telegram_sendChoices token chatRef body choices =
     \<lparr>ac_path = ''/bot'' @ token @ ''/sendMessage'',
      ac_body = JObj [(''chat_id'', JStr chatRef), (''text'', JStr (first_part body TELEGRAM_LIMIT)),
        (''reply_markup'', JObj [(''inline_keyboard'', JArr [JArr (map (\<lambda>c. JObj [(''text'', JStr (ch_label c)), (''callback_data'', JStr (ch_data c))]) choices)])])]\<rparr>"

definition telegram_edit :: "string \<Rightarrow> string \<Rightarrow> string \<Rightarrow> string \<Rightarrow> api_call" where
  "telegram_edit token chatRef messageRef body =
     \<lparr>ac_path = ''/bot'' @ token @ ''/editMessageText'',
      ac_body = JObj [(''chat_id'', JStr chatRef), (''message_id'', case js_integer messageRef of Some n \<Rightarrow> JNum n | None \<Rightarrow> JNull), (''text'', JStr (first_part body TELEGRAM_LIMIT))]\<rparr>"

definition telegram_settleChoice :: "string \<Rightarrow> inbound_choice \<Rightarrow> string \<Rightarrow> api_call list" where
  "telegram_settleChoice token c body =
     [\<lparr>ac_path = ''/bot'' @ token @ ''/answerCallbackQuery'', ac_body = JObj [(''callback_query_id'', JStr (ic_callbackRef c))]\<rparr>,
      telegram_edit token (ic_chatRef c) (ic_messageRef c) body]"

subsection \<open>Slack\<close>

definition SLACK_LIMIT :: nat where
  "SLACK_LIMIT = 3000"

definition SLACK_SKEW_SECONDS :: int where
  "SLACK_SKEW_SECONDS = 300"

definition slackTeamOf :: "platform_env \<Rightarrow> string \<Rightarrow> string option" where
  "slackTeamOf env raw =
     Option.bind (if starts_with raw ''payload='' then pe_form env raw else Some raw) (\<lambda>t.
       Option.bind (pe_slack env t) (\<lambda>body. or_option (sb_team_id body) (sb_team body)))"

text \<open>The first audio file of a message; it is nothing when that one has no address.\<close>

definition slack_audioIn :: "slack_file list option \<Rightarrow> inbound_audio option" where
  "slack_audioIn files =
     Option.bind (Option.bind files (List.find (\<lambda>f. case sf_mimetype f of Some t \<Rightarrow> starts_with t ''audio/'' | None \<Rightarrow> False))) (\<lambda>file.
       map_option (\<lambda>url. \<lparr>ia_fileRef = url, ia_mimeType = or_else (sf_mimetype file) [],
           ia_durationSeconds = map_option (\<lambda>ms. of_int ms / 1000) (sf_duration_ms file), ia_sizeBytes = sf_size file\<rparr>)
         (or_option (sf_url_private_download file) (sf_url_private file)))"

definition slack_signed :: "platform_env \<Rightarrow> string \<Rightarrow> headers \<Rightarrow> verify_context \<Rightarrow> string option" where
  "slack_signed env raw hs ctx =
     map_option (\<lambda>timestamp. ''v0='' @ pe_hmac env (vx_webhookSecret ctx) (''v0:'' @ timestamp @ '':'' @ raw)) (hs ''x-slack-request-timestamp'')"

definition slack_recent :: "headers \<Rightarrow> time \<Rightarrow> bool" where
  "slack_recent hs now \<longleftrightarrow>
     (case Option.bind (hs ''x-slack-request-timestamp'') js_number of
        None \<Rightarrow> False
      | Some t \<Rightarrow> \<bar>of_int (now div 1000) - t\<bar> \<le> of_int SLACK_SKEW_SECONDS)"

definition slack_press :: "slack_body \<Rightarrow> inbound_result" where
  "slack_press body =
     (case (Option.bind (sb_actions body) (\<lambda>as. case as of a # _ \<Rightarrow> a | [] \<Rightarrow> None), sb_channel body, Option.bind (sb_user body) fst,
            sb_message body, sb_trigger_id body) of
        (Some d, Some chatRef, Some senderRef, Some messageRef, Some trigger) \<Rightarrow>
          Got_choice \<lparr>ic_chatRef = chatRef, ic_senderRef = senderRef,
            ic_senderLabel = (case Option.bind (sb_user body) (fst \<circ> snd) of
               Some username \<Rightarrow> ''@'' @ username | None \<Rightarrow> or_else (Option.bind (sb_user body) (snd \<circ> snd)) senderRef),
            ic_data = d, ic_callbackRef = or_else (sb_response_url body) [], ic_messageRef = messageRef, ic_deliveryRef = ''press:'' @ trigger\<rparr>
      | _ \<Rightarrow> Ignored ''A press with nothing to act on.'')"

definition slack_event_result :: "slack_event option \<Rightarrow> time \<Rightarrow> inbound_result" where
  "slack_event_result event now =
     (case event of
        None \<Rightarrow> Ignored ''Not a message.''
      | Some e \<Rightarrow>
          (if sv_type e \<notin> {Some ''message'', Some ''app_mention''} then Ignored ''Not a message.''
           else if sv_bot_id e \<noteq> None then Ignored ''Sent by a bot.''
           else
             (case (sv_channel e, sv_user e) of
                (Some channel, Some user) \<Rightarrow>
                  (let message = (\<lambda>body audio. Got_message \<lparr>im_chatRef = channel, im_senderRef = user, im_senderLabel = user, im_text = body,
                         im_audio = audio, im_messageRef = or_else (sv_ts e) (channel @ '':'' @ show_int now)\<rparr> None)
                   in case slack_audioIn (sv_files e) of
                        Some audio \<Rightarrow>
                          if MAX_AUDIO_BYTES < or_else (ia_sizeBytes audio) 0 then Ignored ''A recording too large to fetch.''
                          else message (or_else (sv_text e) []) (Some audio)
                      | None \<Rightarrow>
                          (if sv_subtype e \<noteq> None then Ignored ''A message subtype.''
                           else case sv_text e of
                                  Some t \<Rightarrow> if trim t = [] then Ignored ''No text.'' else message t None
                                | None \<Rightarrow> Ignored ''No text.''))
              | _ \<Rightarrow> Ignored ''A message with no channel or sender.'')))"

definition slack_receive :: "platform_env \<Rightarrow> string \<Rightarrow> headers \<Rightarrow> verify_context \<Rightarrow> time \<Rightarrow> inbound_result" where
  "slack_receive env raw hs ctx now =
     (if hs ''x-slack-signature'' = None \<or> hs ''x-slack-request-timestamp'' = None then Not_genuine ''The delivery was not signed.''
      else if \<not> slack_recent hs now then Not_genuine ''The delivery is too old to accept.''
      else if hs ''x-slack-signature'' \<noteq> slack_signed env raw hs ctx then Not_genuine ''The signature did not verify.''
      else
        (case (if starts_with (or_else (hs ''content-type'') []) ''application/x-www-form-urlencoded'' \<or> starts_with raw ''payload=''
               then pe_form env raw else Some raw) of
           None \<Rightarrow> Ignored ''A form with no payload.''
         | Some t \<Rightarrow>
             (case pe_slack env t of
                None \<Rightarrow> Not_genuine ''The delivery was not JSON.''
              | Some body \<Rightarrow>
                  (if sb_type body = Some ''url_verification'' \<and> sb_challenge body \<noteq> None
                   then Asked \<lparr>ak_body = the (sb_challenge body), ak_contentType = ''text/plain''\<rparr>
                   else if sb_type body = Some ''block_actions'' then slack_press body
                   else slack_event_result (sb_event body) now))))"

definition slack_send :: "string \<Rightarrow> string \<Rightarrow> api_call list option" where
  "slack_send chatRef body =
     map_option (map (\<lambda>part. \<lparr>ac_path = ''/chat.postMessage'', ac_body = JObj [(''channel'', JStr chatRef), (''text'', JStr part)]\<rparr>)) (split body SLACK_LIMIT)"

definition slack_words :: "string \<Rightarrow> jsv" where
  "slack_words t = JObj [(''type'', JStr ''plain_text''), (''text'', JStr t), (''emoji'', JBool True)]"

definition blocksFor :: "string \<Rightarrow> choice list \<Rightarrow> jsv" where
  "blocksFor t choices = JArr
     [JObj [(''type'', JStr ''section''), (''text'', slack_words t)],
      JObj [(''type'', JStr ''actions''), (''elements'', JArr (map (\<lambda>(i, c). JObj ([(''type'', JStr ''button''), (''action_id'', JStr (''choice_'' @ show_nat i)),
         (''text'', slack_words (ch_label c)), (''value'', JStr (ch_data c))] @ (if i = 0 then [(''style'', JStr ''primary'')] else [])))
         (enumerate 0 choices)))]]"

definition slack_sendChoices :: "string \<Rightarrow> string \<Rightarrow> choice list \<Rightarrow> api_call" where
  "slack_sendChoices chatRef body choices =
     \<lparr>ac_path = ''/chat.postMessage'', ac_body = JObj [(''channel'', JStr chatRef), (''text'', JStr (first_part body SLACK_LIMIT)),
        (''blocks'', blocksFor (first_part body SLACK_LIMIT) choices)]\<rparr>"

definition slack_settleChoice :: "inbound_choice \<Rightarrow> string \<Rightarrow> api_call" where
  "slack_settleChoice c body =
     \<lparr>ac_path = ''/chat.update'', ac_body = JObj [(''channel'', JStr (ic_chatRef c)), (''ts'', JStr (ic_messageRef c)), (''text'', JStr (first_part body SLACK_LIMIT)),
        (''blocks'', JArr [JObj [(''type'', JStr ''section''), (''text'', slack_words (first_part body SLACK_LIMIT))]])]\<rparr>"

definition slack_editDraft :: "string \<Rightarrow> string \<Rightarrow> string \<Rightarrow> api_call" where
  "slack_editDraft chatRef messageRef body =
     \<lparr>ac_path = ''/chat.update'', ac_body = JObj [(''channel'', JStr chatRef), (''ts'', JStr messageRef), (''text'', JStr (first_part body SLACK_LIMIT))]\<rparr>"

text \<open>The host of an address is an argument: where the bot's token may be sent for a recording.\<close>

definition slack_mayFetch :: "(string \<Rightarrow> string option) \<Rightarrow> inbound_audio \<Rightarrow> bool" where
  "slack_mayFetch hostOf audio \<longleftrightarrow>
     (let host = to_lower (or_else (hostOf (ia_fileRef audio)) []) in host = ''slack.com'' \<or> ends_with host ''.slack.com'')"

subsection \<open>Discord\<close>

definition DISCORD_LIMIT :: nat where
  "DISCORD_LIMIT = 2000"

definition COMMAND_ACK :: string where
  "COMMAND_ACK = ''On it.''"

definition discordGuildOf :: "platform_env \<Rightarrow> string \<Rightarrow> string option" where
  "discordGuildOf env raw = Option.bind (pe_discord env raw) db_guild_id"

definition json_ack :: "jsv \<Rightarrow> ack" where
  "json_ack body = \<lparr>ak_body = jsonStringify body, ak_contentType = ''application/json''\<rparr>"

definition NOT_IN_SERVER :: ack where
  "NOT_IN_SERVER = json_ack (JObj [(''type'', JNum 4), (''data'', JObj
     [(''content'', JStr ''Use /yashayah in a server where the assistant was added. Direct messages are not connected.''), (''flags'', JNum 64)])])"

definition discord_label :: "discord_user \<Rightarrow> string" where
  "discord_label u = ''@'' @ du_username u"

definition discord_press :: "discord_body \<Rightarrow> discord_user option \<Rightarrow> inbound_result" where
  "discord_press body user =
     (case (user, db_channel_id body, db_custom_id body, db_message body, db_id body) of
        (Some u, Some channel, Some d, Some messageRef, Some i) \<Rightarrow>
          Got_choice \<lparr>ic_chatRef = channel, ic_senderRef = du_id u, ic_senderLabel = discord_label u, ic_data = d, ic_callbackRef = i,
            ic_messageRef = messageRef, ic_deliveryRef = ''press:'' @ i\<rparr>
      | _ \<Rightarrow> Ignored ''A press with nothing to act on.'')"

definition discord_command :: "discord_body \<Rightarrow> discord_user option \<Rightarrow> time \<Rightarrow> inbound_result" where
  "discord_command body user now =
     (case (user, db_channel_id body, Option.bind (db_options body) (List.find (\<lambda>(name, v). name = ''message''))) of
        (Some u, Some channel, Some (_, JStr t)) \<Rightarrow>
          Got_message \<lparr>im_chatRef = channel, im_senderRef = du_id u, im_senderLabel = discord_label u, im_text = t, im_audio = None,
              im_messageRef = or_else (db_id body) (channel @ '':'' @ show_int now)\<rparr>
            (Some (json_ack (JObj [(''type'', JNum 4), (''data'', JObj [(''content'', JStr COMMAND_ACK)])])))
      | _ \<Rightarrow> Ignored ''A command with nothing to say.'')"

definition discord_receive :: "platform_env \<Rightarrow> string \<Rightarrow> headers \<Rightarrow> verify_context \<Rightarrow> time \<Rightarrow> inbound_result" where
  "discord_receive env raw hs ctx now =
     (case (hs ''x-signature-ed25519'', hs ''x-signature-timestamp'') of
        (Some signature, Some timestamp) \<Rightarrow>
          (if \<not> pe_ed25519 env (vx_webhookSecret ctx) (timestamp @ raw) signature then Not_genuine ''The signature did not verify.''
           else
             (case pe_discord env raw of
                None \<Rightarrow> Not_genuine ''The delivery was not JSON.''
              | Some body \<Rightarrow>
                  (let user = or_option (db_member_user body) (db_user body)
                   in if db_type body = Some 1 then Asked (json_ack (JObj [(''type'', JNum 1)]))
                      else if db_type body = Some 3 then discord_press body user
                      else if db_type body \<noteq> Some 2 then Ignored ''Not a command.''
                      else discord_command body user now)))
      | _ \<Rightarrow> Not_genuine ''The delivery was not signed.'')"

definition discord_send :: "string \<Rightarrow> string \<Rightarrow> api_call list option" where
  "discord_send chatRef body =
     map_option (map (\<lambda>part. \<lparr>ac_path = ''/channels/'' @ chatRef @ ''/messages'', ac_body = JObj [(''content'', JStr part)]\<rparr>)) (split body DISCORD_LIMIT)"

definition discord_sendMedia :: "string \<Rightarrow> outbound_media \<Rightarrow> api_call" where
  "discord_sendMedia chatRef media =
     (let caption = map_option (\<lambda>c. first_part c DISCORD_LIMIT) (om_caption media)
      in \<lparr>ac_path = ''/channels/'' @ chatRef @ ''/messages'',
          ac_body = (case om_kind media of
             Picture \<Rightarrow> JObj ((case caption of Some c \<Rightarrow> [(''content'', JStr c)] | None \<Rightarrow> []) @ [(''embeds'', JArr [JObj [(''image'', JObj [(''url'', JStr (om_url media))])]])])
           | Clip \<Rightarrow> JObj [(''content'', JStr (case caption of Some c \<Rightarrow> c @ [line_feed] @ om_url media | None \<Rightarrow> om_url media))])\<rparr>)"

definition discord_sendChoices :: "string \<Rightarrow> string \<Rightarrow> choice list \<Rightarrow> api_call" where
  "discord_sendChoices chatRef body choices =
     \<lparr>ac_path = ''/channels/'' @ chatRef @ ''/messages'',
      ac_body = JObj [(''content'', JStr (first_part body DISCORD_LIMIT)),
        (''components'', JArr [JObj [(''type'', JNum 1), (''components'', JArr (map (\<lambda>(i, c). JObj [(''type'', JNum 2),
           (''style'', JNum (if i = 0 then 1 else 2)), (''label'', JStr (ch_label c)), (''custom_id'', JStr (ch_data c))]) (enumerate 0 choices)))]])]\<rparr>"

definition discord_ackChoice :: "inbound_choice \<Rightarrow> string \<Rightarrow> ack" where
  "discord_ackChoice c body =
     json_ack (JObj [(''type'', JNum 7), (''data'', JObj [(''content'', JStr (first_part body DISCORD_LIMIT)), (''components'', JArr [])])])"

subsection \<open>WhatsApp\<close>

definition WHATSAPP_LIMIT :: nat where
  "WHATSAPP_LIMIT = 4096"

definition MAX_CAPTION :: nat where
  "MAX_CAPTION = 1024"

text \<open>The stored token is the phone number's id, a colon, and the access token.\<close>

definition whatsapp_composeToken :: "string \<Rightarrow> string \<Rightarrow> string" where
  "whatsapp_composeToken token extra = trim extra @ '':'' @ trim token"

definition whatsapp_parts :: "string \<Rightarrow> (string \<times> string) option" where
  "whatsapp_parts token =
     (case index_of '':'' token of
        None \<Rightarrow> None
      | Some n \<Rightarrow> if n = 0 then None else Some (take n token, drop (Suc n) token))"

definition verifyTokenOf :: "platform_env \<Rightarrow> verify_context \<Rightarrow> string" where
  "verifyTokenOf env ctx = take 32 (pe_hmac env (vx_webhookSecret ctx) ''hive-whatsapp-verify'')"

definition whatsapp_verify :: "platform_env \<Rightarrow> (string \<Rightarrow> string option) \<Rightarrow> verify_context \<Rightarrow> ack option" where
  "whatsapp_verify env query ctx =
     (case (query ''hub.verify_token'', query ''hub.challenge'') of
        (Some presented, Some challenge) \<Rightarrow>
          (if query ''hub.mode'' = Some ''subscribe'' \<and> presented = verifyTokenOf env ctx
           then Some \<lparr>ak_body = challenge, ak_contentType = ''text/plain''\<rparr> else None)
      | _ \<Rightarrow> None)"

definition whatsapp_changes :: "whatsapp_body \<Rightarrow> whatsapp_change list" where
  "whatsapp_changes body = concat (map (\<lambda>e. or_else e []) (or_else (wb_entry body) []))"

definition whatsapp_tapped :: "whatsapp_message \<Rightarrow> string option" where
  "whatsapp_tapped m =
     (if wm_type m = Some ''interactive'' \<and> Option.bind (wm_interactive m) fst = Some ''button_reply'' then Option.bind (wm_interactive m) snd
      else if wm_type m = Some ''button'' then wm_button m else None)"

definition whatsapp_message_result :: "whatsapp_value \<Rightarrow> whatsapp_message \<Rightarrow> inbound_result" where
  "whatsapp_message_result v m =
     (case (wm_from m, wm_id m) of
        (Some from, Some i) \<Rightarrow>
          (let label = or_else (Option.bind (Option.bind (wv_contacts v) (List.find (\<lambda>(wa_id, name). wa_id = Some from))) snd) (''+'' @ from);
               message = (\<lambda>body audio. Got_message \<lparr>im_chatRef = from, im_senderRef = from, im_senderLabel = label, im_text = body, im_audio = audio, im_messageRef = i\<rparr> None)
           in case whatsapp_tapped m of
                Some d \<Rightarrow> Got_choice \<lparr>ic_chatRef = from, ic_senderRef = from, ic_senderLabel = label, ic_data = d, ic_callbackRef = i,
                    ic_messageRef = or_else (wm_context m) [], ic_deliveryRef = ''press:'' @ i\<rparr>
              | None \<Rightarrow>
                  (case (if wm_type m = Some ''audio'' then Option.bind (wm_audio m) (\<lambda>(ref, mime). map_option (\<lambda>r. (r, mime)) ref) else None) of
                     Some (ref, mime) \<Rightarrow> message [] (Some \<lparr>ia_fileRef = ref, ia_mimeType = or_else mime ''audio/ogg'', ia_durationSeconds = None, ia_sizeBytes = None\<rparr>)
                   | None \<Rightarrow>
                       (case wm_text m of
                          Some t \<Rightarrow> if wm_type m \<noteq> Some ''text'' \<or> trim t = [] then Ignored ''A message which has no words.'' else message t None
                        | None \<Rightarrow> Ignored ''A message which has no words.'')))
      | _ \<Rightarrow> Ignored ''A message with no sender.'')"

definition whatsapp_receive :: "platform_env \<Rightarrow> string \<Rightarrow> headers \<Rightarrow> verify_context \<Rightarrow> time \<Rightarrow> inbound_result" where
  "whatsapp_receive env raw hs ctx now =
     (case hs ''x-hub-signature-256'' of
        None \<Rightarrow> Not_genuine ''The delivery was not signed.''
      | Some signature \<Rightarrow>
          (if \<not> starts_with signature ''sha256='' then Not_genuine ''The delivery was not signed.''
           else if drop 7 signature \<noteq> pe_hmac env (vx_webhookSecret ctx) raw then Not_genuine ''The signature did not verify.''
           else
             (case pe_whatsapp env raw of
                None \<Rightarrow> Not_genuine ''The delivery was not JSON.''
              | Some body \<Rightarrow>
                  (if wb_object body \<noteq> Some ''whatsapp_business_account'' then Ignored ''Not a WhatsApp delivery.''
                   else
                     (case Option.bind (List.find (\<lambda>c. wg_field c = Some ''messages'') (whatsapp_changes body)) wg_value of
                        None \<Rightarrow> Ignored ''A status update, not a message.''
                      | Some v \<Rightarrow>
                          (case or_else (wv_messages v) [] of
                             [] \<Rightarrow> Ignored ''A status update, not a message.''
                           | m # _ \<Rightarrow> whatsapp_message_result v m))))))"

definition whatsappPhoneOf :: "platform_env \<Rightarrow> string \<Rightarrow> string option" where
  "whatsappPhoneOf env raw =
     Option.bind (pe_whatsapp env raw) (\<lambda>body.
       Option.bind (List.find (\<lambda>x. x \<noteq> None) (map (\<lambda>c. Option.bind (wg_value c) wv_phone_number_id) (whatsapp_changes body))) id)"

definition whatsapp_envelope :: "string \<Rightarrow> (string \<times> jsv) list" where
  "whatsapp_envelope to = [(''messaging_product'', JStr ''whatsapp''), (''recipient_type'', JStr ''individual''), (''to'', JStr to)]"

definition whatsapp_send :: "string \<Rightarrow> string \<Rightarrow> string \<Rightarrow> api_call list option" where
  "whatsapp_send token chatRef body =
     Option.bind (whatsapp_parts token) (\<lambda>(phoneId, access).
       map_option (map (\<lambda>part. \<lparr>ac_path = ''/'' @ phoneId @ ''/messages'',
           ac_body = JObj (whatsapp_envelope chatRef @ [(''type'', JStr ''text''), (''text'', JObj [(''body'', JStr part), (''preview_url'', JBool True)])])\<rparr>))
         (split body WHATSAPP_LIMIT))"

definition whatsapp_sendChoices :: "string \<Rightarrow> string \<Rightarrow> string \<Rightarrow> choice list \<Rightarrow> api_call option" where
  "whatsapp_sendChoices token chatRef body choices =
     map_option (\<lambda>(phoneId, access). \<lparr>ac_path = ''/'' @ phoneId @ ''/messages'',
       ac_body = JObj (whatsapp_envelope chatRef @ [(''type'', JStr ''interactive''), (''interactive'', JObj
         [(''type'', JStr ''button''), (''body'', JObj [(''text'', JStr (first_part body MAX_CAPTION))]),
          (''action'', JObj [(''buttons'', JArr (map (\<lambda>c. JObj [(''type'', JStr ''reply''),
             (''reply'', JObj [(''id'', JStr (take 256 (ch_data c))), (''title'', JStr (take 20 (ch_label c)))])]) (take 3 choices)))])])])\<rparr>) (whatsapp_parts token)"

subsection \<open>iMessage, through a Mac\<close>

definition IMESSAGE_LIMIT :: nat where
  "IMESSAGE_LIMIT = 4000"

definition mac_composeToken :: "string \<Rightarrow> string \<Rightarrow> string" where
  "mac_composeToken token extra = trim extra @ '' '' @ trim token"

text \<open>The object replacement character, as its three bytes, stands for an attachment.\<close>

fun without_objects :: "string \<Rightarrow> string" where
  "without_objects (a # b # c # s) =
     (if a = CHR 0xEF \<and> b = CHR 0xBF \<and> c = CHR 0xBC then without_objects s else a # without_objects (b # c # s))"
| "without_objects s = s"

definition mac_words :: "string option \<Rightarrow> string" where
  "mac_words t = trim (without_objects (or_else t []))"

definition mac_audioIn :: "mac_attachment list option \<Rightarrow> inbound_audio option" where
  "mac_audioIn files =
     map_option (\<lambda>file. \<lparr>ia_fileRef = or_else (ma_guid file) [], ia_mimeType = ''audio/mpeg'', ia_durationSeconds = None, ia_sizeBytes = ma_totalBytes file\<rparr>)
       (Option.bind files (List.find (\<lambda>a. (case ma_mimeType a of Some t \<Rightarrow> starts_with t ''audio/'' | None \<Rightarrow> False) \<and> ma_guid a \<noteq> None)))"

definition mac_receive :: "platform_env \<Rightarrow> string \<Rightarrow> headers \<Rightarrow> verify_context \<Rightarrow> time \<Rightarrow> inbound_result" where
  "mac_receive env raw hs ctx now =
     (case pe_mac env raw of
        None \<Rightarrow> Not_genuine ''The delivery was not JSON.''
      | Some event \<Rightarrow>
          (if me_type event \<noteq> Some ''new-message'' then Ignored ''Another event.''
           else
             (case Option.bind (me_data event) (\<lambda>m. map_option (Pair m) (mm_guid m)) of
                None \<Rightarrow> Ignored ''An event with no message.''
              | Some (m, guid) \<Rightarrow>
                  (if mm_isFromMe m = Some True then Ignored ''Sent by this Mac.''
                   else
                     (case (Option.bind (mm_chats m) (\<lambda>cs. case cs of c # _ \<Rightarrow> c | [] \<Rightarrow> None), mm_handle m) of
                        (Some chat, Some from) \<Rightarrow>
                          (let audio = mac_audioIn (mm_attachments m); t = mac_words (mm_text m)
                           in if index_of '';+;'' chat \<noteq> None then Ignored ''A group chat.''
                              else if (case audio of Some a \<Rightarrow> MAX_AUDIO_BYTES < or_else (ia_sizeBytes a) 0 | None \<Rightarrow> False)
                              then Ignored ''A recording too large to fetch.''
                              else if audio = None \<and> t = [] then Ignored ''No text.''
                              else Got_message \<lparr>im_chatRef = chat, im_senderRef = from, im_senderLabel = from, im_text = t, im_audio = audio, im_messageRef = guid\<rparr> None)
                      | _ \<Rightarrow> Ignored ''A message with no chat or sender.'')))))"

text \<open>What the Mac says of a message is an argument: \<^const>\<open>None\<close> when it cannot be asked.\<close>

definition mac_confirm :: "mac_message option \<Rightarrow> inbound_message \<Rightarrow> bool" where
  "mac_confirm found message =
     (case found of
        None \<Rightarrow> False
      | Some m \<Rightarrow>
          mm_guid m = Some (im_messageRef message) \<and> mm_isFromMe m \<noteq> Some True \<and> mm_handle m = Some (im_senderRef message) \<and>
          (mac_words (mm_text m) = im_text message \<or> im_audio message \<noteq> None \<and> mac_words (mm_text m) = []))"

definition mac_send :: "(nat \<Rightarrow> string) \<Rightarrow> string \<Rightarrow> string \<Rightarrow> api_call list option" where
  "mac_send uuid chatRef body =
     map_option (\<lambda>parts. map (\<lambda>(i, part). \<lparr>ac_path = ''message/text'', ac_body = JObj [(''chatGuid'', JStr chatRef), (''tempGuid'', JStr (uuid i)),
         (''message'', JStr part), (''method'', JStr ''apple-script'')]\<rparr>) (enumerate 0 parts)) (split body IMESSAGE_LIMIT)"

subsection \<open>The registry\<close>

datatype channel_kind = Telegram | Whatsapp | Imessage | Slack | Discord

definition channelAdapter :: "string \<Rightarrow> channel_kind option" where
  "channelAdapter channelId =
     map_of [(''telegram'', Telegram), (''whatsapp'', Whatsapp), (''imessage'', Imessage), (''slack'', Slack), (''discord'', Discord)] channelId"

fun receive_delivery :: "platform_env \<Rightarrow> channel_kind \<Rightarrow> string \<Rightarrow> headers \<Rightarrow> verify_context \<Rightarrow> time \<Rightarrow> inbound_result" where
  "receive_delivery env Telegram = telegram_receive env"
| "receive_delivery env Whatsapp = whatsapp_receive env"
| "receive_delivery env Imessage = mac_receive env"
| "receive_delivery env Slack = slack_receive env"
| "receive_delivery env Discord = discord_receive env"

fun text_limit :: "channel_kind \<Rightarrow> nat" where
  "text_limit Telegram = TELEGRAM_LIMIT"
| "text_limit Whatsapp = WHATSAPP_LIMIT"
| "text_limit Imessage = IMESSAGE_LIMIT"
| "text_limit Slack = SLACK_LIMIT"
| "text_limit Discord = DISCORD_LIMIT"

subsection \<open>Genuine deliveries\<close>

text \<open>What proves a delivery, on a platform that can: the secret itself, or a signature over the body with it.\<close>

locale signed_adapter =
  fixes receive_raw :: "string \<Rightarrow> headers \<Rightarrow> verify_context \<Rightarrow> time \<Rightarrow> inbound_result"
    and proven :: "string \<Rightarrow> headers \<Rightarrow> string \<Rightarrow> bool"
  assumes unproven: "\<not> proven raw hs (vx_webhookSecret ctx) \<Longrightarrow> \<exists>why. receive_raw raw hs ctx now = Not_genuine why"
begin

lemma acted_on_proven:
  "receive_raw raw hs ctx now = Got_message m a \<or> receive_raw raw hs ctx now = Got_choice c \<Longrightarrow> proven raw hs (vx_webhookSecret ctx)"
  using unproven [of raw hs ctx now] by fastforce

lemma answered_proven: "receive_raw raw hs ctx now = Asked a \<Longrightarrow> proven raw hs (vx_webhookSecret ctx)"
  using unproven [of raw hs ctx now] by fastforce

end

definition telegram_proven :: "string \<Rightarrow> headers \<Rightarrow> string \<Rightarrow> bool" where
  "telegram_proven raw hs secret \<longleftrightarrow> hs SECRET_HEADER = Some secret"

definition slack_proven :: "platform_env \<Rightarrow> string \<Rightarrow> headers \<Rightarrow> string \<Rightarrow> bool" where
  "slack_proven env raw hs secret \<longleftrightarrow>
     (\<exists>t. hs ''x-slack-request-timestamp'' = Some t \<and> hs ''x-slack-signature'' = Some (''v0='' @ pe_hmac env secret (''v0:'' @ t @ '':'' @ raw)))"

definition discord_proven :: "platform_env \<Rightarrow> string \<Rightarrow> headers \<Rightarrow> string \<Rightarrow> bool" where
  "discord_proven env raw hs secret \<longleftrightarrow>
     (\<exists>t s. hs ''x-signature-timestamp'' = Some t \<and> hs ''x-signature-ed25519'' = Some s \<and> pe_ed25519 env secret (t @ raw) s)"

definition whatsapp_proven :: "platform_env \<Rightarrow> string \<Rightarrow> headers \<Rightarrow> string \<Rightarrow> bool" where
  "whatsapp_proven env raw hs secret \<longleftrightarrow> hs ''x-hub-signature-256'' = Some (''sha256='' @ pe_hmac env secret raw)"

lemma starts_with_eq: "starts_with s p \<longleftrightarrow> (\<exists>rest. s = p @ rest)"
  by (induction s p rule: starts_with.induct) auto

interpretation telegram: signed_adapter "telegram_receive env" telegram_proven for env
  by unfold_locales (auto simp: telegram_receive_def telegram_proven_def)

interpretation slack: signed_adapter "slack_receive env" "slack_proven env" for env
  by unfold_locales (auto simp: slack_receive_def slack_proven_def slack_signed_def)

interpretation discord: signed_adapter "discord_receive env" "discord_proven env" for env
  by unfold_locales (auto simp: discord_receive_def discord_proven_def split: option.splits)

interpretation whatsapp: signed_adapter "whatsapp_receive env" "whatsapp_proven env" for env
proof unfold_locales
  fix raw hs and ctx :: verify_context and now
  assume no: "\<not> whatsapp_proven env raw hs (vx_webhookSecret ctx)"
  show "\<exists>why. whatsapp_receive env raw hs ctx now = Not_genuine why"
  proof (cases "hs ''x-hub-signature-256''")
    case (Some signature)
    with no have "signature \<noteq> ''sha256='' @ pe_hmac env (vx_webhookSecret ctx) raw" by (simp add: whatsapp_proven_def)
    then show ?thesis using Some by (auto simp: whatsapp_receive_def starts_with_eq)
  qed (simp add: whatsapp_receive_def)
qed

fun delivery_proven :: "platform_env \<Rightarrow> channel_kind \<Rightarrow> string \<Rightarrow> headers \<Rightarrow> string \<Rightarrow> bool" where
  "delivery_proven env Telegram = telegram_proven"
| "delivery_proven env Slack = slack_proven env"
| "delivery_proven env Discord = discord_proven env"
| "delivery_proven env Whatsapp = whatsapp_proven env"
| "delivery_proven env Imessage = (\<lambda>raw hs secret. True)"

lemma delivery_acted_on:
  assumes "receive_delivery env k raw hs ctx now = Got_message m a \<or> receive_delivery env k raw hs ctx now = Got_choice c"
  shows "delivery_proven env k raw hs (vx_webhookSecret ctx)"
  using assms by (cases k)
    (auto simp: telegram.acted_on_proven slack.acted_on_proven discord.acted_on_proven whatsapp.acted_on_proven)

text \<open>Two parts of a WhatsApp token come apart as they were put together, unless the id has a colon.\<close>

lemma index_of_char: "c \<notin> set xs \<Longrightarrow> index_of [c] (xs @ c # ys) = Some (length xs)"
  by (induction xs) auto

lemma whatsapp_token_parts:
  assumes "trim extra \<noteq> []" "CHR '':'' \<notin> set (trim extra)"
  shows "whatsapp_parts (whatsapp_composeToken token extra) = Some (trim extra, trim token)"
  using assms index_of_char [of "CHR '':''" "trim extra" "trim token"]
  by (simp add: whatsapp_parts_def whatsapp_composeToken_def)

end
