(* ===== verification/Channels.thy ===== *)
theory Channels
  imports Run_Starts Sessions Channel_Adapters Redaction
begin

text \<open>
  Connected chat platforms: the repository (\<^verbatim>\<open>packages/db/src/repositories/channels.ts\<close>), a delivery from its arrival to
  the run it starts (\<^verbatim>\<open>apps/web/src/lib/channel-inbound.ts\<close>), approvals decided from a chat (\<^verbatim>\<open>channel-approvals.ts\<close>),
  chat accounts tied to people (\<^verbatim>\<open>chat-link.ts\<close>), the addresses bots deliver to (\<^verbatim>\<open>channel-webhook.ts\<close>), the answer sent
  back (\<^verbatim>\<open>channel-delivery.ts\<close>), and the routes that connect and disconnect.

  A delivery claims its record in one command and does its work in others, so \<open>Channel_Steps\<close> interleaves the two. What the
  platforms answer, and what is heard in a recording, are fields of \<open>chat_env\<close>; a reply is an entry of the outbox, since
  the host never looks at whether it arrived.
\<close>

subsection \<open>Documents\<close>

datatype channel_status = Pending_verification | Connected | Channel_error | Channel_disabled

record channel_install =
  in_teamRef :: string
  in_teamName :: string
  in_installerRef :: string
  in_appRef :: string

record channel_doc =
  cn_id :: id
  cn_workspaceId :: id
  cn_type :: string
  cn_agentId :: id
  cn_modelBindingId :: "id option"
  cn_tokenCredentialId :: id
  cn_secretCredentialId :: "id option"
  cn_status :: channel_status
  cn_handle :: string
  cn_connect :: "(string \<times> time) option"
  cn_verifiedChatRef :: "string option"
  cn_install :: "channel_install option"
  cn_webhookUrl :: "string option"
  cn_webhookSpec :: "int option"
  cn_lastOkAt :: "time option"
  cn_lastDeliveryAt :: "time option"
  cn_failures :: int
  cn_lastError :: "string option"
  cn_createdBy :: id
  cn_createdAt :: time
  cn_updatedAt :: time

record channel_identity =
  ci_id :: id
  ci_workspaceId :: id
  ci_channelId :: id
  ci_externalUserId :: string
  ci_chatRef :: string
  ci_conversationId :: id
  ci_label :: string
  ci_userId :: "id option"
  ci_createdAt :: time
  ci_lastSeenAt :: time

record channel_event =
  cx_id :: id
  cx_workspaceId :: id
  cx_channelId :: id
  cx_externalEventId :: string
  cx_runId :: "id option"
  cx_receivedAt :: time

record chat_world =
  cw_channels :: "channel_doc list"
  cw_identities :: "channel_identity list"
  cw_events :: "channel_event list"
  cw_credentials :: "(id \<times> id \<times> string) list"
  cw_start :: start_world
  cw_auth :: auth_world
  cw_outbox :: "(id \<times> string \<times> string) list"
  cw_audit :: "(string \<times> string \<times> id) list"

datatype transcription = No_ear | Not_heard string | Heard string

record chat_env =
  ce_start :: start_env
  ce_platform :: platform_env
  ce_crypto :: crypto
  ce_base :: string
  ce_ownHost :: string
  ce_registers :: "string \<Rightarrow> string \<Rightarrow> bool"
  ce_macMessage :: "string \<Rightarrow> string \<Rightarrow> mac_message option"
  ce_fetchAudio :: "string \<Rightarrow> inbound_audio \<Rightarrow> string + string"
  ce_transcribe :: "id \<Rightarrow> inbound_audio \<Rightarrow> string \<Rightarrow> transcription"
  ce_shared :: "channel_kind \<Rightarrow> (string \<times> string) option"
  ce_errorText :: "start_error \<Rightarrow> string"
  ce_gateText :: "refusal \<Rightarrow> string"

record chat_ids =
  xi_event :: id
  xi_identity :: id
  xi_start :: fresh_ids

subsection \<open>The repository\<close>

definition resolve_credential :: "id \<Rightarrow> id \<Rightarrow> chat_world \<Rightarrow> string option" where
  "resolve_credential ws i w = map_option (snd \<circ> snd) (List.find (\<lambda>(cws, c, _). cws = ws \<and> c = i) (cw_credentials w))"

definition channel_count :: "id \<Rightarrow> chat_world \<Rightarrow> int" where
  "channel_count ws w = int (length (filter (\<lambda>d. cn_workspaceId d = ws) (cw_channels w)))"

definition channel_by_id :: "id \<Rightarrow> id \<Rightarrow> chat_world \<Rightarrow> channel_doc option" where
  "channel_by_id ws i w = List.find (\<lambda>d. cn_workspaceId d = ws \<and> cn_id d = i) (cw_channels w)"

definition update_channel :: "id \<Rightarrow> id \<Rightarrow> (channel_doc \<Rightarrow> channel_doc) \<Rightarrow> chat_world \<Rightarrow> chat_world" where
  "update_channel ws i f w = w\<lparr>cw_channels := update_first (\<lambda>d. cn_workspaceId d = ws \<and> cn_id d = i) f (cw_channels w)\<rparr>"

record create_channel =
  cc_type :: string
  cc_agentId :: id
  cc_modelBindingId :: "id option"
  cc_tokenCredentialId :: id
  cc_secretCredentialId :: "id option"
  cc_handle :: string
  cc_code :: "(string \<times> int) option"
  cc_install :: "channel_install option"
  cc_createdBy :: id

text \<open>The connection that was there for the platform is gone either way; without a code and without an install nothing replaces it.\<close>

definition channel_connect :: "id \<Rightarrow> id \<Rightarrow> create_channel \<Rightarrow> time \<Rightarrow> chat_world \<Rightarrow> channel_doc option \<times> chat_world" where
  "channel_connect newId ws inp now w =
     (let kept = (case List.find (\<lambda>d. cn_workspaceId d = ws \<and> cn_type d = cc_type inp) (cw_channels w) of
              None \<Rightarrow> cw_channels w | Some d \<Rightarrow> remove1 d (cw_channels w));
          installed = cc_install inp \<noteq> None \<and> cc_code inp = None
      in if cc_install inp = None \<and> cc_code inp = None then (None, w\<lparr>cw_channels := kept\<rparr>)
         else
           (let doc = \<lparr>cn_id = newId, cn_workspaceId = ws, cn_type = cc_type inp, cn_agentId = cc_agentId inp, cn_modelBindingId = cc_modelBindingId inp,
                  cn_tokenCredentialId = cc_tokenCredentialId inp, cn_secretCredentialId = cc_secretCredentialId inp,
                  cn_status = (if installed then Connected else Pending_verification), cn_handle = cc_handle inp,
                  cn_connect = (if installed then None else map_option (\<lambda>(c, ttl). (c, now + ttl)) (cc_code inp)), cn_verifiedChatRef = None,
                  cn_install = cc_install inp, cn_webhookUrl = None, cn_webhookSpec = None, cn_lastOkAt = (if installed then Some now else None),
                  cn_lastDeliveryAt = None, cn_failures = 0, cn_lastError = None, cn_createdBy = cc_createdBy inp, cn_createdAt = now, cn_updatedAt = now\<rparr>
            in (Some doc, w\<lparr>cw_channels := kept @ [doc]\<rparr>)))"

definition claimable_by :: "id \<Rightarrow> id \<Rightarrow> string \<Rightarrow> time \<Rightarrow> channel_doc \<Rightarrow> bool" where
  "claimable_by ws i offered now d \<longleftrightarrow>
     cn_workspaceId d = ws \<and> cn_id d = i \<and> (case cn_connect d of None \<Rightarrow> False | Some (c, expires) \<Rightarrow> c = offered \<and> now < expires)"

definition claim_channel :: "id \<Rightarrow> id \<Rightarrow> string \<Rightarrow> string \<Rightarrow> time \<Rightarrow> chat_world \<Rightarrow> bool \<times> chat_world" where
  "claim_channel ws i offered chatRef now w =
     (list_ex (claimable_by ws i offered now) (cw_channels w),
      w\<lparr>cw_channels := update_first (claimable_by ws i offered now)
         (\<lambda>d. d\<lparr>cn_status := Connected, cn_verifiedChatRef := Some chatRef, cn_connect := None, cn_updatedAt := now, cn_lastOkAt := Some now\<rparr>) (cw_channels w)\<rparr>)"

definition channel_disconnect :: "id \<Rightarrow> id \<Rightarrow> chat_world \<Rightarrow> chat_world" where
  "channel_disconnect ws i w =
     w\<lparr>cw_channels := (case List.find (\<lambda>d. cn_workspaceId d = ws \<and> cn_id d = i) (cw_channels w) of
           None \<Rightarrow> cw_channels w | Some d \<Rightarrow> remove1 d (cw_channels w)),
       cw_identities := filter (\<lambda>d. \<not> (ci_workspaceId d = ws \<and> ci_channelId d = i)) (cw_identities w)\<rparr>"

definition reissueCode :: "id \<Rightarrow> id \<Rightarrow> string \<Rightarrow> int \<Rightarrow> time \<Rightarrow> chat_world \<Rightarrow> chat_world" where
  "reissueCode ws i c ttlMs now =
     update_channel ws i (\<lambda>d. d\<lparr>cn_status := Pending_verification, cn_verifiedChatRef := None, cn_connect := Some (c, now + ttlMs), cn_updatedAt := now\<rparr>)"

definition bindInstall :: "id \<Rightarrow> id \<Rightarrow> string \<Rightarrow> string \<Rightarrow> time \<Rightarrow> chat_world \<Rightarrow> chat_world" where
  "bindInstall ws i teamRef teamName now =
     update_channel ws i (\<lambda>d. d\<lparr>cn_install := map_option (\<lambda>x. x\<lparr>in_teamRef := teamRef, in_teamName := teamName\<rparr>) (cn_install d), cn_updatedAt := now\<rparr>)"

definition replaceToken :: "id \<Rightarrow> id \<Rightarrow> id \<Rightarrow> time \<Rightarrow> chat_world \<Rightarrow> chat_world" where
  "replaceToken ws i credential now = update_channel ws i (\<lambda>d. d\<lparr>cn_tokenCredentialId := credential, cn_updatedAt := now\<rparr>)"

definition recordWebhook :: "id \<Rightarrow> id \<Rightarrow> string \<Rightarrow> int \<Rightarrow> time \<Rightarrow> chat_world \<Rightarrow> chat_world" where
  "recordWebhook ws i url spec now = update_channel ws i (\<lambda>d. d\<lparr>cn_webhookUrl := Some url, cn_webhookSpec := Some spec, cn_updatedAt := now\<rparr>)"

definition recordDelivery :: "id \<Rightarrow> id \<Rightarrow> time \<Rightarrow> chat_world \<Rightarrow> chat_world" where
  "recordDelivery ws i now = update_channel ws i (\<lambda>d. d\<lparr>cn_lastDeliveryAt := Some now, cn_failures := 0, cn_lastError := None\<rparr>)"

definition channel_failure :: "id \<Rightarrow> id \<Rightarrow> string \<Rightarrow> time \<Rightarrow> chat_world \<Rightarrow> chat_world" where
  "channel_failure ws i message now =
     update_channel ws i (\<lambda>d. d\<lparr>cn_failures := cn_failures d + 1, cn_lastError := Some (take 500 message), cn_status := Channel_error, cn_updatedAt := now\<rparr>)"

definition claimDelivery :: "id \<Rightarrow> id \<Rightarrow> id \<Rightarrow> string \<Rightarrow> time \<Rightarrow> chat_world \<Rightarrow> bool \<times> chat_world" where
  "claimDelivery newId ws i ref now w =
     (if list_ex (\<lambda>e. cx_channelId e = i \<and> cx_externalEventId e = ref) (cw_events w) then (False, w)
      else (True, w\<lparr>cw_events := cw_events w @ [\<lparr>cx_id = newId, cx_workspaceId = ws, cx_channelId = i, cx_externalEventId = ref,
              cx_runId = None, cx_receivedAt = now\<rparr>]\<rparr>))"

definition releaseDelivery :: "id \<Rightarrow> id \<Rightarrow> string \<Rightarrow> chat_world \<Rightarrow> chat_world" where
  "releaseDelivery ws i ref w =
     (case List.find (\<lambda>e. cx_workspaceId e = ws \<and> cx_channelId e = i \<and> cx_externalEventId e = ref) (cw_events w) of
        None \<Rightarrow> w | Some e \<Rightarrow> w\<lparr>cw_events := remove1 e (cw_events w)\<rparr>)"

definition attachRun :: "id \<Rightarrow> id \<Rightarrow> string \<Rightarrow> id \<Rightarrow> chat_world \<Rightarrow> chat_world" where
  "attachRun ws i ref run w =
     w\<lparr>cw_events := update_first (\<lambda>e. cx_workspaceId e = ws \<and> cx_channelId e = i \<and> cx_externalEventId e = ref) (\<lambda>e. e\<lparr>cx_runId := Some run\<rparr>) (cw_events w)\<rparr>"

definition setIdentityUser :: "id \<Rightarrow> id \<Rightarrow> id option \<Rightarrow> chat_world \<Rightarrow> chat_world" where
  "setIdentityUser ws i user w =
     w\<lparr>cw_identities := update_first (\<lambda>d. ci_workspaceId d = ws \<and> ci_id d = i) (\<lambda>d. d\<lparr>ci_userId := user\<rparr>) (cw_identities w)\<rparr>"

definition chat_identity :: "id \<Rightarrow> id \<Rightarrow> string \<Rightarrow> chat_world \<Rightarrow> channel_identity option" where
  "chat_identity ws i sender w =
     List.find (\<lambda>d. ci_workspaceId d = ws \<and> ci_channelId d = i \<and> ci_externalUserId d = sender) (cw_identities w)"

definition findIdentityByConversation :: "id \<Rightarrow> id \<Rightarrow> chat_world \<Rightarrow> channel_identity option" where
  "findIdentityByConversation ws conv w = List.find (\<lambda>d. ci_workspaceId d = ws \<and> ci_conversationId d = conv) (cw_identities w)"

definition linkIdentity :: "id \<Rightarrow> id \<Rightarrow> id \<Rightarrow> inbound_message \<Rightarrow> id \<Rightarrow> time \<Rightarrow> chat_world \<Rightarrow> channel_identity \<times> chat_world" where
  "linkIdentity newId ws i m conv now w =
     (case chat_identity ws i (im_senderRef m) w of
        Some d \<Rightarrow>
          (let seen = (\<lambda>d. d\<lparr>ci_chatRef := im_chatRef m, ci_label := im_senderLabel m, ci_lastSeenAt := now\<rparr>)
           in (seen d, w\<lparr>cw_identities := update_first (\<lambda>d. ci_workspaceId d = ws \<and> ci_channelId d = i \<and> ci_externalUserId d = im_senderRef m)
                seen (cw_identities w)\<rparr>))
      | None \<Rightarrow>
          (let d = \<lparr>ci_id = newId, ci_workspaceId = ws, ci_channelId = i, ci_externalUserId = im_senderRef m, ci_chatRef = im_chatRef m,
                 ci_conversationId = conv, ci_label = im_senderLabel m, ci_userId = None, ci_createdAt = now, ci_lastSeenAt = now\<rparr>
           in (d, w\<lparr>cw_identities := cw_identities w @ [d]\<rparr>)))"

text \<open>Records of deliveries are removed after seven days.\<close>

definition EVENT_TTL_MS :: int where
  "EVENT_TTL_MS = 7 * 24 * 60 * 60 * 1000"

definition forget_events :: "time \<Rightarrow> chat_world \<Rightarrow> chat_world" where
  "forget_events now w = w\<lparr>cw_events := filter (\<lambda>e. now \<le> cx_receivedAt e + EVENT_TTL_MS) (cw_events w)\<rparr>"

subsection \<open>Where bots deliver\<close>

definition WEBHOOK_SPEC :: int where
  "WEBHOOK_SPEC = 3"

definition drop_slash :: "string \<Rightarrow> string" where
  "drop_slash s = (if ends_with s ''/'' then butlast s else s)"

definition webhookUrl :: "chat_env \<Rightarrow> string \<Rightarrow> id \<Rightarrow> string" where
  "webhookUrl env type i = drop_slash (ce_base env) @ ''/api/channels/'' @ type @ ''/'' @ i"

definition deliveryUrlOf :: "chat_env \<Rightarrow> channel_doc \<Rightarrow> string" where
  "deliveryUrlOf env row =
     (if cn_install row \<noteq> None \<and> cn_type row \<in> {''slack'', ''discord'', ''whatsapp'', ''telegram''}
      then drop_slash (ce_base env) @ ''/api/channels/'' @ cn_type row @ ''/app'' else webhookUrl env (cn_type row) (cn_id row))"

definition deliveredToOldAddress :: "chat_env \<Rightarrow> headers \<Rightarrow> bool" where
  "deliveredToOldAddress env hs =
     (let presented = to_lower (trim (hd (split_on CHR '','' (or_else (or_option (hs ''x-forwarded-host'') (hs ''host'')) []))))
      in presented \<noteq> [] \<and> presented \<noteq> ce_ownHost env)"

definition registerWebhook :: "chat_env \<Rightarrow> channel_doc \<Rightarrow> time \<Rightarrow> chat_world \<Rightarrow> bool \<times> chat_world" where
  "registerWebhook env row now w =
     (case (channelAdapter (cn_type row), resolve_credential (cn_workspaceId row) (cn_tokenCredentialId row) w) of
        (Some k, Some token) \<Rightarrow>
          (let url = deliveryUrlOf env row
           in if ce_registers env token url then (True, recordWebhook (cn_workspaceId row) (cn_id row) url WEBHOOK_SPEC now w) else (False, w))
      | _ \<Rightarrow> (False, w))"

definition stale_webhook :: "chat_env \<Rightarrow> channel_doc \<Rightarrow> bool" where
  "stale_webhook env row \<longleftrightarrow> cn_webhookUrl row \<noteq> Some (deliveryUrlOf env row) \<or> or_else (cn_webhookSpec row) 1 \<noteq> WEBHOOK_SPEC"

text \<open>The sweep over every connection that is not disabled: how many were re-pointed, and how many could not be.\<close>

fun refresh_each :: "chat_env \<Rightarrow> channel_doc list \<Rightarrow> time \<Rightarrow> nat \<times> nat \<times> chat_world \<Rightarrow> nat \<times> nat \<times> chat_world" where
  "refresh_each env [] now acc = acc"
| "refresh_each env (row # rows) now (updated, failed, w) =
     (case registerWebhook env row now w of
        (True, w1) \<Rightarrow> refresh_each env rows now (Suc updated, failed, w1)
      | (False, w1) \<Rightarrow> refresh_each env rows now (updated, Suc failed, w1))"

definition refreshStaleWebhooks :: "chat_env \<Rightarrow> time \<Rightarrow> chat_world \<Rightarrow> nat \<times> nat \<times> chat_world" where
  "refreshStaleWebhooks env now w =
     refresh_each env (filter (stale_webhook env) (filter (\<lambda>d. cn_status d \<noteq> Channel_disabled) (cw_channels w))) now (0, 0, w)"

subsection \<open>Saying something back\<close>

definition reply :: "channel_doc \<Rightarrow> string \<Rightarrow> string \<Rightarrow> chat_world \<Rightarrow> chat_world" where
  "reply row chatRef body w =
     (if channelAdapter (cn_type row) = None \<or> resolve_credential (cn_workspaceId row) (cn_tokenCredentialId row) w = None then w
      else w\<lparr>cw_outbox := cw_outbox w @ [(cn_id row, chatRef, body)]\<rparr>)"

subsection \<open>Tying a chat account to a person\<close>

definition LINK_CODE_TTL_MS :: int where
  "LINK_CODE_TTL_MS = 10 * 60 * 1000"

definition MAX_WRONG_GUESSES :: int where
  "MAX_WRONG_GUESSES = 5"

definition to_upper :: "string \<Rightarrow> string" where
  "to_upper = map to_upper_char"

definition hashLinkCode :: "crypto \<Rightarrow> string \<Rightarrow> string" where
  "hashLinkCode cy c = cy_sha256_hex cy (''chat_link:'' @ to_upper (trim c))"

definition CODE_ALPHABET :: string where
  "CODE_ALPHABET = ''ABCDEFGHJKMNPQRSTUVWXYZ23456789''"

definition issueLinkCode :: "chat_env \<Rightarrow> id \<Rightarrow> string \<Rightarrow> id \<Rightarrow> time \<Rightarrow> chat_world \<Rightarrow> bool \<times> chat_world" where
  "issueLinkCode env newId c user now w =
     (case issueChallenge newId user Chat_link (hashLinkCode (ce_crypto env) c) LINK_CODE_TTL_MS now (cw_auth w) of
        (None, a) \<Rightarrow> (False, w\<lparr>cw_auth := a\<rparr>)
      | (Some _, a) \<Rightarrow> (True, w\<lparr>cw_auth := a\<rparr>))"

definition offeredLinkCode :: "string \<Rightarrow> string option" where
  "offeredLinkCode body =
     (let t = trim body;
          bare = (if starts_with (to_lower t) ''link'' \<and> length t > 4 \<and> is_space (t ! 4) then dropWhile is_space (drop 4 t) else t);
          c = to_upper bare
      in if length bare = 8 \<and> list_all (\<lambda>x. x \<in> set CODE_ALPHABET) c then Some c else None)"

definition person_name :: "user_doc option \<Rightarrow> string" where
  "person_name u = (case u of None \<Rightarrow> ''your account'' | Some d \<Rightarrow> or_else (u_name d) (u_emailDisplay d))"

definition linkFromChat :: "chat_env \<Rightarrow> channel_doc \<Rightarrow> inbound_message \<Rightarrow> time \<Rightarrow> chat_world \<Rightarrow> ((string \<times> bool) \<times> chat_world) option" where
  "linkFromChat env row m now w =
     (case offeredLinkCode (im_text m) of
        None \<Rightarrow> None
      | Some c \<Rightarrow> Some
          (case findOpenChallengeByToken Chat_link (hashLinkCode (ce_crypto env) c) now (cw_auth w) of
             None \<Rightarrow> ((''That code is not right, or it has expired. Ask for a new one on your Settings page.'', False), w)
           | Some challenge \<Rightarrow>
               (if MAX_WRONG_GUESSES \<le> cl_attempts challenge
                then ((''That code has been tried too often. Ask for a new one on your Settings page.'', False), w)
                else if membershipOf (ww_docs (bw_ws (sw_bill (cw_start w)))) (cn_workspaceId row) (cl_userId challenge) = None
                then ((''That code belongs to an account that is not in this workspace.'', False),
                      w\<lparr>cw_auth := snd (recordChallengeAttempt (cl_id challenge) (cw_auth w))\<rparr>)
                else
                  (case chat_identity (cn_workspaceId row) (cn_id row) (im_senderRef m) w of
                     None \<Rightarrow> ((''Say hello first, then send the code again.'', False), w)
                   | Some identity \<Rightarrow>
                       (case consumeChallenge (cl_id challenge) now (cw_auth w) of
                          (False, a) \<Rightarrow> ((''That code was just used. Ask for a new one if you need it.'', False), w\<lparr>cw_auth := a\<rparr>)
                        | (True, a) \<Rightarrow>
                            ((''Linked. This chat is now '' @ person_name (user_by_id (cl_userId challenge) a) @ ''. I will treat what you ask as coming from you.'', True),
                             setIdentityUser (cn_workspaceId row) (ci_id identity) (Some (cl_userId challenge)) (w\<lparr>cw_auth := a\<rparr>)))))))"

subsection \<open>The handshake\<close>

definition offeredCode :: "string \<Rightarrow> string" where
  "offeredCode body = to_upper (last (split_spaces (trim body)))"

definition completeHandshake :: "channel_doc \<Rightarrow> inbound_message \<Rightarrow> time \<Rightarrow> chat_world \<Rightarrow> chat_world" where
  "completeHandshake row m now w =
     (case claim_channel (cn_workspaceId row) (cn_id row) (offeredCode (im_text m)) (im_chatRef m) now w of
        (False, w1) \<Rightarrow> reply row (im_chatRef m) ''That code is not right, or it has expired. Open the integrations page for a new one.'' w1
      | (True, w1) \<Rightarrow> reply row (im_chatRef m) (''Connected. This chat is yours now '' @ [CHR 0xE2, CHR 0x80, CHR 0x94] @ '' say anything and your agent will answer.'') w1)"

subsection \<open>Hearing a message\<close>

definition NO_EAR :: string where
  "NO_EAR = ''You can'' @ [CHR 0xE2, CHR 0x80, CHR 0x99] @ ''t use voice notes here: the model this assistant can use does not support them.''"

definition hear :: "chat_env \<Rightarrow> channel_doc \<Rightarrow> inbound_message \<Rightarrow> chat_world \<Rightarrow> inbound_message option \<times> chat_world" where
  "hear env row m w =
     (case im_audio m of
        None \<Rightarrow> (Some m, w)
      | Some audio \<Rightarrow>
          (if channelAdapter (cn_type row) \<in> {None, Some Discord}
           then (None, reply row (im_chatRef m) ''I cannot fetch recordings on this platform yet.'' w)
           else
             (case resolve_credential (cn_workspaceId row) (cn_tokenCredentialId row) w of
                None \<Rightarrow> (None, reply row (im_chatRef m) ''I could not reach that recording.'' w)
              | Some token \<Rightarrow>
                  (case ce_fetchAudio env token audio of
                     Inl why \<Rightarrow> (None, reply row (im_chatRef m) why w)
                   | Inr bytes \<Rightarrow>
                       (case ce_transcribe env (cn_workspaceId row) audio bytes of
                          No_ear \<Rightarrow> (None, reply row (im_chatRef m) NO_EAR w)
                        | Not_heard why \<Rightarrow> (None, reply row (im_chatRef m) why w)
                        | Heard t \<Rightarrow>
                            (let typed = trim (im_text m)
                             in (Some (m\<lparr>im_text := if typed = [] then t else typed @ [line_feed, line_feed] @ t\<rparr>),
                                 reply row (im_chatRef m) ([CHR 0xE2, CHR 0x80, CHR 0x9C] @ t @ [CHR 0xE2, CHR 0x80, CHR 0x9D]) w)))))))"

subsection \<open>Starting the run\<close>

definition identity_principal :: "id \<Rightarrow> channel_identity \<Rightarrow> principal" where
  "identity_principal ws d = Channel_identity (ci_id d) ws (ci_userId d) (if ci_userId d = None then Unlinked else Linked)"

definition chat_conversation :: "chat_env \<Rightarrow> chat_ids \<Rightarrow> channel_doc \<Rightarrow> inbound_message \<Rightarrow> id \<Rightarrow> time \<Rightarrow> chat_world \<Rightarrow> (start_error + id) \<times> chat_world" where
  "chat_conversation env ids row m binding now w =
     (case chat_identity (cn_workspaceId row) (cn_id row) (im_senderRef m) w of
        Some d \<Rightarrow> (Inr (ci_conversationId d), w)
      | None \<Rightarrow>
          (case conversation_create \<lparr>ch_id = fi_conversation (xi_start ids), ch_workspaceId = cn_workspaceId row, ch_agentId = cn_agentId row,
                  ch_modelBindingId = binding, ch_title = Some (im_senderLabel m @ '' on '' @ cn_type row), ch_channelId = Some (cn_id row),
                  ch_externalRef = Some (im_chatRef m)\<rparr> now (cw_start w) of
             None \<Rightarrow> (Inl Duplicate_conversation, w)
           | Some st \<Rightarrow> (Inr (fi_conversation (xi_start ids)), w\<lparr>cw_start := st\<rparr>)))"

text \<open>From the open gate on.\<close>

definition chat_run :: "chat_env \<Rightarrow> chat_ids \<Rightarrow> channel_doc \<Rightarrow> inbound_message \<Rightarrow> agent_doc \<Rightarrow> id \<Rightarrow> time \<Rightarrow> chat_world \<Rightarrow> (start_error + run_doc) \<times> chat_world" where
  "chat_run env ids row m agent binding now w =
     (case chat_conversation env ids row m binding now w of
        (Inl e, w1) \<Rightarrow> (Inl e, w1)
      | (Inr conv, w1) \<Rightarrow>
          (let ws = cn_workspaceId row; (identity, w2) = linkIdentity (xi_identity ids) ws (cn_id row) m conv now w1
           in case append_keyed (se_sha (ce_start env)) (fi_message (xi_start ids)) conv (Some (cn_id row @ '':'' @ im_messageRef m)) now
                     (user_text (im_text m)) (cw_start w2) of
                (Inl e, st) \<Rightarrow> (Inl e, w2\<lparr>cw_start := st\<rparr>)
              | (Inr _, st) \<Rightarrow>
                  (case run_create (fi_run (xi_start ids)) ws now
                          (run_input (ce_start env) ws conv agent binding (''channel'', Some (cn_type row @ '':'' @ im_senderRef m))
                            (identity_principal ws identity) DEFAULT_BUDGET None st) st of
                     (Inl e, st') \<Rightarrow> (Inl e, w2\<lparr>cw_start := st'\<rparr>)
                   | (Inr run, st') \<Rightarrow> (Inr run, w2\<lparr>cw_start := st'\<rparr>))))"

definition channel_binding :: "channel_doc \<Rightarrow> agent_doc \<Rightarrow> bill_world \<Rightarrow> binding_row option" where
  "channel_binding row agent bill =
     (case cn_modelBindingId row of
        Some b \<Rightarrow> binding_by_id (cn_workspaceId row) b (bw_bindings bill)
      | None \<Rightarrow> modelForAgent (cn_workspaceId row) agent (bw_bindings bill))"

definition channel_startRun :: "chat_env \<Rightarrow> chat_ids \<Rightarrow> channel_doc \<Rightarrow> inbound_message \<Rightarrow> time \<Rightarrow> chat_world \<Rightarrow> (start_error + run_doc option) \<times> chat_world" where
  "channel_startRun env ids row m now w =
     (let ws = cn_workspaceId row; bill = sw_bill (cw_start w); say = (\<lambda>t. (Inr None, reply row (im_chatRef m) t w))
      in case agent_by_id ws (cn_agentId row) (cw_start w) of
           None \<Rightarrow> say ''This connection has no agent any more.''
         | Some agent \<Rightarrow>
             (case channel_binding row agent bill of
                None \<Rightarrow> say ''I am connected, but no model is set up for me to think with yet. Add one on the Models page and try again.''
              | Some binding \<Rightarrow>
                  (case spendGate (se_bill (ce_start env)) now ws (Some (mb_id binding)) bill of
                     Refused why pay \<Rightarrow> say (trim (''I can'' @ [CHR 0x27] @ ''t take this on right now. '' @ ce_gateText env why))
                   | Open \<Rightarrow>
                       (case chat_run env ids row m agent (mb_id binding) now w of
                          (Inl e, w1) \<Rightarrow> (Inl e, w1)
                        | (Inr run, w1) \<Rightarrow> (Inr (Some run), w1)))))"

subsection \<open>Approvals decided in a chat\<close>

definition encodeDecision :: "id \<Rightarrow> approval_decision \<Rightarrow> string" where
  "encodeDecision approvalId decision = ''a:'' @ approvalId @ '':'' @ (if decision = Approve then ''y'' else ''n'')"

definition id_char :: "char \<Rightarrow> bool" where
  "id_char c \<longleftrightarrow> is_alnum c \<or> c = CHR ''_'' \<or> c = CHR ''-''"

definition decodeDecision :: "string \<Rightarrow> (id \<times> approval_decision) option" where
  "decodeDecision d =
     (case split_on CHR '':'' d of
        [a, i, v] \<Rightarrow>
          (if a = ''a'' \<and> 3 \<le> length i \<and> length i \<le> 80 \<and> list_all id_char i \<and> (v = ''y'' \<or> v = ''n'')
           then Some (i, if v = ''y'' then Approve else Deny_it) else None)
      | _ \<Rightarrow> None)"

definition in_chat_db :: "(run_db \<Rightarrow> run_db) \<Rightarrow> chat_world \<Rightarrow> chat_world" where
  "in_chat_db f w = w\<lparr>cw_start := (cw_start w)\<lparr>sw_store := (sw_store (cw_start w))\<lparr>w_db := f (w_db (sw_store (cw_start w)))\<rparr>\<rparr>\<rparr>"

abbreviation chat_db :: "chat_world \<Rightarrow> run_db" where
  "chat_db w \<equiv> w_db (sw_store (cw_start w))"

definition run_by_id :: "id \<Rightarrow> id \<Rightarrow> run_db \<Rightarrow> run_doc option" where
  "run_by_id ws i db = List.find (\<lambda>d. rd_workspaceId d = ws \<and> rd_id d = i) (db_runs db)"

definition decideFromChat :: "channel_doc \<Rightarrow> inbound_choice \<Rightarrow> time \<Rightarrow> chat_world \<Rightarrow> (string \<times> bool) \<times> chat_world" where
  "decideFromChat row c now w =
     (let ws = cn_workspaceId row; channelId = cn_id row; no = (\<lambda>t. ((t, False), w))
      in case decodeDecision (ic_data c) of
           None \<Rightarrow> no ''That button is from something I no longer have.''
         | Some (approvalId, decision) \<Rightarrow>
             (case findApproval ws approvalId (chat_db w) of
                None \<Rightarrow> no ''That question is gone.''
              | Some approval \<Rightarrow>
                  (case run_by_id ws (ap_runId approval) (chat_db w) of
                     None \<Rightarrow> no ''That run is gone.''
                   | Some run \<Rightarrow>
                       (if \<not> isSuspended (rd_status run)
                        then no ''That moment has passed; I moved on with what you said next. Ask me again if you still want it.''
                        else if (case findIdentityByConversation ws (rd_conversationId run) w of
                                   None \<Rightarrow> True
                                 | Some d \<Rightarrow> ci_channelId d \<noteq> channelId \<or> ci_externalUserId d \<noteq> ic_senderRef c)
                        then no ''Only the person who asked can decide this.''
                        else if ap_decision approval \<noteq> None
                        then no (if ap_decision approval = Some Approve then ''Already approved.'' else ''Already declined.'')
                        else if ap_expiresAt approval < now then no ''That question expired. Ask me again and I will start over.''
                        else
                          (case decideApproval ws approvalId decision (''channel:'' @ channelId @ '':'' @ ic_senderRef c) None now (chat_db w) of
                             (db, False) \<Rightarrow> no ''Someone answered that a moment ago.''
                           | (db, True) \<Rightarrow>
                               ((if decision = Approve then ''Approved. Carrying on.'' else ''Understood. I will not do that.'', True),
                                in_chat_db (\<lambda>_. db\<lparr>db_runs := fst (enqueue (ap_runId approval) None None now (db_runs db))\<rparr>)
                                  (w\<lparr>cw_audit := cw_audit w @ [(channelId @ '':'' @ ic_senderRef c,
                                      if decision = Approve then ''approval.approved'' else ''approval.denied'', approvalId)]\<rparr>)))))))"

subsection \<open>A delivery\<close>

record delivery_outcome =
  do_status :: int
  do_body :: string
  do_contentType :: string

definition plain_outcome :: "int \<Rightarrow> string \<Rightarrow> delivery_outcome" where
  "plain_outcome status body = \<lparr>do_status = status, do_body = body, do_contentType = ''text/plain''\<rparr>"

definition ack_outcome :: "ack \<Rightarrow> delivery_outcome" where
  "ack_outcome a = \<lparr>do_status = 200, do_body = ak_body a, do_contentType = ak_contentType a\<rparr>"

text \<open>What is done with a claimed message: the run it started, if any.\<close>

definition channel_work :: "chat_env \<Rightarrow> chat_ids \<Rightarrow> channel_doc \<Rightarrow> inbound_message \<Rightarrow> time \<Rightarrow> chat_world \<Rightarrow> (start_error + run_doc option) \<times> chat_world" where
  "channel_work env ids row m now w =
     (if cn_status row \<noteq> Connected then (Inr None, completeHandshake row m now w)
      else if cn_verifiedChatRef row \<noteq> None \<and> cn_verifiedChatRef row \<noteq> Some (im_chatRef m)
      then (Inr None, reply row (im_chatRef m) ''This bot is already connected to another chat.'' w)
      else
        (case linkFromChat env row m now w of
           Some ((body, linked), w1) \<Rightarrow> (Inr None, reply row (im_chatRef m) body w1)
         | None \<Rightarrow>
             (case hear env row m w of
                (None, w1) \<Rightarrow> (Inr None, w1)
              | (Some heard, w1) \<Rightarrow>
                  (case channel_startRun env ids row heard now w1 of
                     (Inl e, w2) \<Rightarrow> (Inl e, w2)
                   | (Inr None, w2) \<Rightarrow> (Inr None, w2)
                   | (Inr (Some run), w2) \<Rightarrow> (Inr (Some run), attachRun (cn_workspaceId row) (cn_id row) (im_messageRef m) (rd_id run) w2)))))"

definition finish_work :: "chat_env \<Rightarrow> chat_ids \<Rightarrow> channel_doc \<Rightarrow> inbound_message \<Rightarrow> time \<Rightarrow> chat_world \<Rightarrow> (start_error + run_doc option) \<times> chat_world" where
  "finish_work env ids row m now w =
     (case channel_work env ids row m now w of
        (Inl e, w1) \<Rightarrow>
          (Inl e, channel_failure (cn_workspaceId row) (cn_id row) (ce_errorText env e) now
             (releaseDelivery (cn_workspaceId row) (cn_id row) (im_messageRef m) w1))
      | (Inr r, w1) \<Rightarrow> (Inr r, w1))"

definition confirmed :: "chat_env \<Rightarrow> channel_doc \<Rightarrow> inbound_message \<Rightarrow> chat_world \<Rightarrow> bool" where
  "confirmed env row m w \<longleftrightarrow>
     channelAdapter (cn_type row) \<noteq> Some Imessage \<or>
     (case resolve_credential (cn_workspaceId row) (cn_tokenCredentialId row) w of
        None \<Rightarrow> False | Some token \<Rightarrow> mac_confirm (ce_macMessage env token (im_messageRef m)) m)"

definition act_message :: "chat_env \<Rightarrow> chat_ids \<Rightarrow> channel_doc \<Rightarrow> inbound_message \<Rightarrow> ack option \<Rightarrow> time \<Rightarrow> chat_world \<Rightarrow> (start_error + delivery_outcome) \<times> chat_world" where
  "act_message env ids row m a now w =
     (if \<not> confirmed env row m w then (Inr (plain_outcome 401 ''unauthorized''), w)
      else
        (let over = (case a of None \<Rightarrow> plain_outcome 200 ''ok'' | Some k \<Rightarrow> ack_outcome k)
         in case claimDelivery (xi_event ids) (cn_workspaceId row) (cn_id row) (im_messageRef m) now w of
              (False, w1) \<Rightarrow> (Inr over, w1)
            | (True, w1) \<Rightarrow>
                (case finish_work env ids row m now (recordDelivery (cn_workspaceId row) (cn_id row) now w1) of
                   (Inl e, w2) \<Rightarrow> (Inl e, w2)
                 | (Inr r, w2) \<Rightarrow> (Inr over, w2))))"

definition act_choice :: "chat_env \<Rightarrow> chat_ids \<Rightarrow> channel_doc \<Rightarrow> inbound_choice \<Rightarrow> time \<Rightarrow> chat_world \<Rightarrow> delivery_outcome \<times> chat_world" where
  "act_choice env ids row c now w =
     (case claimDelivery (xi_event ids) (cn_workspaceId row) (cn_id row) (ic_deliveryRef c) now w of
        (False, w1) \<Rightarrow> (plain_outcome 200 ''ok'', w1)
      | (True, w1) \<Rightarrow>
          (if cn_status row \<noteq> Connected then (plain_outcome 200 ''ok'', w1)
           else
             (case decideFromChat row c now w1 of
                ((body, decided), w2) \<Rightarrow>
                  (if channelAdapter (cn_type row) = Some Discord then (ack_outcome (discord_ackChoice c body), w2)
                   else (plain_outcome 200 ''ok'', reply row (ic_chatRef c) body w2)))))"

definition act :: "chat_env \<Rightarrow> chat_ids \<Rightarrow> channel_doc \<Rightarrow> inbound_result \<Rightarrow> time \<Rightarrow> chat_world \<Rightarrow> (start_error + delivery_outcome) \<times> chat_world" where
  "act env ids row judged now w =
     (case judged of
        Not_genuine _ \<Rightarrow> (Inr (plain_outcome 401 ''unauthorized''), w)
      | Asked a \<Rightarrow> (Inr (ack_outcome a), w)
      | Ignored _ \<Rightarrow> (Inr (plain_outcome 200 ''ok''), w)
      | Got_choice c \<Rightarrow> (case act_choice env ids row c now w of (r, w1) \<Rightarrow> (Inr r, w1))
      | Got_message m a \<Rightarrow> act_message env ids row m a now w)"

definition context_of :: "chat_env \<Rightarrow> channel_doc \<Rightarrow> chat_world \<Rightarrow> verify_context" where
  "context_of env row w =
     \<lparr>vx_webhookUrl = webhookUrl env (cn_type row) (cn_id row),
      vx_webhookSecret = or_else (Option.bind (cn_secretCredentialId row) (\<lambda>i. resolve_credential (cn_workspaceId row) i w)) []\<rparr>"

definition handleDelivery :: "chat_env \<Rightarrow> chat_ids \<Rightarrow> string \<Rightarrow> id \<Rightarrow> string \<Rightarrow> headers \<Rightarrow> time \<Rightarrow> chat_world \<Rightarrow> (start_error + delivery_outcome) \<times> chat_world" where
  "handleDelivery env ids type docId raw hs now w =
     (case (channelAdapter type, List.find (\<lambda>d. cn_id d = docId \<and> cn_type d = type) (cw_channels w)) of
        (Some k, Some row) \<Rightarrow>
          (let judged = receive_delivery (ce_platform env) k raw hs (context_of env row w) now;
               stale = deliveredToOldAddress env hs \<or> or_else (cn_webhookSpec row) 1 \<noteq> WEBHOOK_SPEC;
               w1 = (case judged of Not_genuine _ \<Rightarrow> w | _ \<Rightarrow> if stale then snd (registerWebhook env row now w) else w)
           in act env ids row judged now w1)
      | _ \<Rightarrow> (Inr (plain_outcome 404 ''unknown channel''), w))"

text \<open>The probe with which a platform tries an address before it is saved; only WhatsApp sends one.\<close>

definition handleProbe :: "chat_env \<Rightarrow> string \<Rightarrow> id \<Rightarrow> (string \<Rightarrow> string option) \<Rightarrow> chat_world \<Rightarrow> delivery_outcome" where
  "handleProbe env type docId query w =
     (case channelAdapter type of
        None \<Rightarrow> plain_outcome 404 ''unknown channel''
      | Some k \<Rightarrow>
          (if k \<noteq> Whatsapp then plain_outcome 200 ''ok''
           else
             (case List.find (\<lambda>d. cn_id d = docId \<and> cn_type d = type) (cw_channels w) of
                None \<Rightarrow> plain_outcome 404 ''unknown channel''
              | Some row \<Rightarrow>
                  (case whatsapp_verify (ce_platform env) query (context_of env row w) of
                     None \<Rightarrow> plain_outcome 403 ''forbidden''
                   | Some a \<Rightarrow> ack_outcome a))))"

subsection \<open>The shared address\<close>

fun teamOf :: "platform_env \<Rightarrow> channel_kind \<Rightarrow> string \<Rightarrow> string option" where
  "teamOf env Slack = slackTeamOf env"
| "teamOf env Discord = discordGuildOf env"
| "teamOf env Whatsapp = whatsappPhoneOf env"
| "teamOf env Telegram = telegramChatOf env"
| "teamOf env Imessage = (\<lambda>raw. None)"

definition code_shaped :: "string \<Rightarrow> bool" where
  "code_shaped c \<longleftrightarrow> 6 \<le> length c \<and> length c \<le> 12 \<and> list_all (\<lambda>x. is_upper x \<or> is_digit x) c"

text \<open>The shared Telegram bot has a token of its own, so what it says goes out under no connection.\<close>

definition bot_says :: "string \<Rightarrow> string \<Rightarrow> chat_world \<Rightarrow> chat_world" where
  "bot_says chatRef body w = w\<lparr>cw_outbox := cw_outbox w @ [([], chatRef, body)]\<rparr>"

definition claimTelegramChat :: "chat_env \<Rightarrow> string \<Rightarrow> inbound_message \<Rightarrow> time \<Rightarrow> chat_world \<Rightarrow> delivery_outcome \<times> chat_world" where
  "claimTelegramChat env chatRef m now w =
     (let offered = offeredCode (im_text m)
      in case (if code_shaped offered
               then List.find (\<lambda>d. cn_type d = ''telegram'' \<and> cn_install d \<noteq> None \<and>
                      (case cn_connect d of None \<Rightarrow> False | Some (c, expires) \<Rightarrow> c = offered \<and> now < expires)) (cw_channels w)
               else None) of
           None \<Rightarrow> (plain_outcome 200 ''ok'',
             bot_says chatRef ''Hello. I am an assistant on YASHAYAH. To connect this chat, press Connect Telegram in YASHAYAH and send me the code it shows.'' w)
         | Some waiting \<Rightarrow>
             (case claim_channel (cn_workspaceId waiting) (cn_id waiting) offered chatRef now w of
                (False, w1) \<Rightarrow> (plain_outcome 200 ''ok'', bot_says chatRef ''That code is not right, or it has expired. Open YASHAYAH for a new one.'' w1)
              | (True, w1) \<Rightarrow>
                  (plain_outcome 200 ''ok'',
                   bot_says chatRef ''Connected. This chat is yours now. Say anything and your assistant will answer.''
                     (recordWebhook (cn_workspaceId waiting) (cn_id waiting) (drop_slash (ce_base env) @ ''/api/channels/telegram/app'') WEBHOOK_SPEC now
                       (bindInstall (cn_workspaceId waiting) (cn_id waiting) chatRef (im_senderLabel m) now w1)))))"

definition handleSharedDelivery :: "chat_env \<Rightarrow> chat_ids \<Rightarrow> string \<Rightarrow> string \<Rightarrow> headers \<Rightarrow> time \<Rightarrow> chat_world \<Rightarrow> (start_error + delivery_outcome) \<times> chat_world" where
  "handleSharedDelivery env ids type raw hs now w =
     (case Option.bind (channelAdapter type) (\<lambda>k. map_option (Pair k) (ce_shared env k)) of
        None \<Rightarrow> (Inr (plain_outcome 404 ''unknown channel''), w)
      | Some (k, url, secret) \<Rightarrow>
          (let judged = receive_delivery (ce_platform env) k raw hs \<lparr>vx_webhookUrl = url, vx_webhookSecret = secret\<rparr> now
           in case judged of
                Not_genuine _ \<Rightarrow> (Inr (plain_outcome 401 ''unauthorized''), w)
              | Asked a \<Rightarrow> (Inr (ack_outcome a), w)
              | Ignored _ \<Rightarrow> (Inr (plain_outcome 200 ''ok''), w)
              | _ \<Rightarrow>
                  (case teamOf (ce_platform env) k raw of
                     None \<Rightarrow> (Inr (if k = Discord then ack_outcome NOT_IN_SERVER else plain_outcome 200 ''ok''), w)
                   | Some team \<Rightarrow>
                       (case List.find (\<lambda>d. cn_type d = type \<and> map_option in_teamRef (cn_install d) = Some team \<and> cn_status d \<noteq> Channel_disabled) (cw_channels w) of
                          Some row \<Rightarrow> act env ids row judged now w
                        | None \<Rightarrow>
                            (case (k, judged) of
                               (Telegram, Got_message m a) \<Rightarrow> (case claimTelegramChat env team m now w of (r, w1) \<Rightarrow> (Inr r, w1))
                             | _ \<Rightarrow> (Inr (plain_outcome 200 ''ok''), w))))))"

subsection \<open>Sending an answer back\<close>

datatype delivery_result = Sent | Skipped string

record channel_target =
  ct_run :: run_doc
  ct_head :: conv_head
  ct_row :: channel_doc
  ct_chatRef :: string
  ct_kind :: channel_kind
  ct_token :: string

definition status_name :: "channel_status \<Rightarrow> string" where
  "status_name s = (case s of Pending_verification \<Rightarrow> ''pending_verification'' | Connected \<Rightarrow> ''connected'' | Channel_error \<Rightarrow> ''error'' | Channel_disabled \<Rightarrow> ''disabled'')"

definition channelTargetOf :: "id \<Rightarrow> chat_world \<Rightarrow> string + channel_target" where
  "channelTargetOf runId w =
     (case List.find (\<lambda>d. rd_id d = runId) (db_runs (chat_db w)) of
        None \<Rightarrow> Inl ''no such run''
      | Some run \<Rightarrow>
          (let ws = rd_workspaceId run
           in case Option.bind (head_by_id ws (rd_conversationId run) (cw_start w)) (\<lambda>h. map_option (Pair h) (ch_channelId h)) of
                None \<Rightarrow> Inl ''not a channel conversation''
              | Some (head, channelId) \<Rightarrow>
                  (case channel_by_id ws channelId w of
                     None \<Rightarrow> Inl ''channel row missing''
                   | Some row \<Rightarrow>
                       (if cn_status row \<noteq> Connected then Inl (''channel is '' @ status_name (cn_status row))
                        else
                          (case or_option (map_option ci_chatRef (findIdentityByConversation ws (ch_id head) w)) (ch_externalRef head) of
                             None \<Rightarrow> Inl ''no chat to send to''
                           | Some chatRef \<Rightarrow>
                               (case channelAdapter (cn_type row) of
                                  None \<Rightarrow> Inl (''no adapter for '' @ cn_type row)
                                | Some k \<Rightarrow>
                                    (case resolve_credential ws (cn_tokenCredentialId row) w of
                                       None \<Rightarrow> Inl ''bot token missing or revoked''
                                     | Some token \<Rightarrow> Inr \<lparr>ct_run = run, ct_head = head, ct_row = row, ct_chatRef = chatRef, ct_kind = k, ct_token = token\<rparr>)))))))"

fun block_texts :: "content_block list \<Rightarrow> string list" where
  "block_texts [] = []"
| "block_texts (Text t # bs) = t # block_texts bs"
| "block_texts (_ # bs) = block_texts bs"

definition answerOf :: "(string \<Rightarrow> string) \<Rightarrow> id \<Rightarrow> run_doc \<Rightarrow> world \<Rightarrow> string option" where
  "answerOf sentence convId run st =
     (let body = trim (join_with [line_feed] (block_texts (concat (map msg_content
            (filter (\<lambda>m. msg_runId m = Some (rd_id run) \<and> msg_role m = Role_assistant) (recentMessages convId 10 st))))))
      in if body \<noteq> [] then Some body
         else if rd_status run = Succeeded then None
         else if rd_status run = Cancelled then Some ''That was cancelled before it finished.''
         else (case rd_error run of
                 Some (_, failure) \<Rightarrow> if trim failure \<noteq> [] then Some (''I could not answer that: '' @ sentence failure)
                   else Some ''Something went wrong on my end and I could not finish that. Try again?''
               | None \<Rightarrow> Some ''Something went wrong on my end and I could not finish that. Try again?''))"

text \<open>What did not fit into the draft is computed with the limit of Telegram, whichever platform it goes to.\<close>

definition remainderBeyondFirst :: "string \<Rightarrow> string option" where
  "remainderBeyondFirst body =
     (case split body TELEGRAM_LIMIT of
        Some (p # q # ps) \<Rightarrow> Some (join_with [line_feed] (q # ps))
      | _ \<Rightarrow> None)"

fun edits_drafts :: "channel_kind \<Rightarrow> bool" where
  "edits_drafts Telegram = True"
| "edits_drafts Slack = True"
| "edits_drafts Discord = True"
| "edits_drafts _ = False"

text \<open>The texts a person is left with, in order: the draft rewritten, then further messages.\<close>

definition shown_texts :: "channel_kind \<Rightarrow> bool \<Rightarrow> string \<Rightarrow> string list" where
  "shown_texts k draft body =
     (let parts = (\<lambda>t. case split t (text_limit k) of Some ps \<Rightarrow> ps | None \<Rightarrow> [])
      in if draft \<and> edits_drafts k
         then first_part body (text_limit k) # (case remainderBeyondFirst body of None \<Rightarrow> [] | Some rest \<Rightarrow> parts rest)
         else parts body)"

definition deliver :: "(string \<Rightarrow> string) \<Rightarrow> id \<Rightarrow> bool \<Rightarrow> string option \<Rightarrow> time \<Rightarrow> chat_world \<Rightarrow> delivery_result \<times> chat_world" where
  "deliver sentence runId draft refused now w =
     (case channelTargetOf runId w of
        Inl why \<Rightarrow> (Skipped why, w)
      | Inr t \<Rightarrow>
          (case answerOf sentence (ch_id (ct_head t)) (ct_run t) (sw_store (cw_start w)) of
             None \<Rightarrow> (Skipped ''nothing to say (run succeeded, no assistant text for this run)'', w)
           | Some body \<Rightarrow>
               (let ws = cn_workspaceId (ct_row t); i = cn_id (ct_row t)
                in case refused of
                     Some message \<Rightarrow> (Skipped (''send failed: '' @ message), channel_failure ws i message now w)
                   | None \<Rightarrow> (Sent, recordDelivery ws i now
                       (w\<lparr>cw_outbox := cw_outbox w @ map (\<lambda>p. (i, ct_chatRef t, p)) (shown_texts (ct_kind t) draft body)\<rparr>)))))"

subsection \<open>Asking for an approval in the chat\<close>

definition can_press :: "channel_kind \<Rightarrow> approval_doc \<Rightarrow> bool" where
  "can_press k a \<longleftrightarrow> ap_kind a = ''tool_call'' \<and> k \<noteq> Imessage"

definition announcePendingApproval ::
  "chat_env \<Rightarrow> (approval_doc \<Rightarrow> bool \<Rightarrow> string) \<Rightarrow> id \<Rightarrow> (string + string) \<Rightarrow> time \<Rightarrow> chat_world \<Rightarrow> delivery_result \<times> chat_world" where
  "announcePendingApproval env questionOf runId answer now w =
     (case channelTargetOf runId w of
        Inl why \<Rightarrow> (Skipped why, w)
      | Inr t \<Rightarrow>
          (let row = ct_row t; ws = cn_workspaceId row
           in case pendingApprovalForRun ws runId (chat_db w) of
                None \<Rightarrow> (Skipped ''nothing pending'', w)
              | Some a \<Rightarrow>
                  (if ap_announced a \<noteq> None then (Skipped ''already asked'', w)
                   else
                     (let press = can_press (ct_kind t) a;
                          w1 = (if press \<and> or_else (cn_webhookSpec row) 1 \<noteq> WEBHOOK_SPEC then snd (registerWebhook env row now w) else w)
                      in case answer of
                           Inl message \<Rightarrow> (Skipped (''threw: '' @ message), w1)
                         | Inr messageRef \<Rightarrow>
                             (Sent, recordDelivery ws (cn_id row) now
                               (in_chat_db (\<lambda>db. fst (markAnnounced ws (ap_id a) (cn_id row) (if press then messageRef else []) db))
                                 (w1\<lparr>cw_outbox := cw_outbox w1 @ [(cn_id row, ct_chatRef t, questionOf a press)]\<rparr>)))))))"

subsection \<open>Connecting and disconnecting\<close>

definition CONNECT_CODE_TTL_MS :: int where
  "CONNECT_CODE_TTL_MS = 30 * 60 * 1000"

datatype connect_refusal = No_channel | Needs_secret | Needs_extra | Unknown_agent | No_room refusal | Unknown_binding | Token_refused | No_connection | Not_a_person | Not_linked

record connect_input =
  xc_channel :: string
  xc_token :: string
  xc_signingSecret :: "string option"
  xc_extra :: "string option"
  xc_agentId :: id
  xc_modelBindingId :: "id option"

record connect_fresh =
  xf_channel :: id
  xf_tokenCredential :: id
  xf_secretCredential :: id
  xf_secret :: string
  xf_code :: string

fun needs_secret :: "channel_kind \<Rightarrow> bool" where
  "needs_secret Slack = True"
| "needs_secret Discord = True"
| "needs_secret Whatsapp = True"
| "needs_secret _ = False"

fun compose_token :: "channel_kind \<Rightarrow> string \<Rightarrow> string option \<Rightarrow> string" where
  "compose_token Whatsapp token (Some extra) = whatsapp_composeToken token extra"
| "compose_token Imessage token (Some extra) = mac_composeToken token extra"
| "compose_token k token extra = token"

text \<open>The platform's answer to who the token belongs to, \<open>identify\<close>, is an argument: the bot's handle.\<close>

definition post_channel ::
  "chat_env \<Rightarrow> (channel_kind \<Rightarrow> string \<Rightarrow> string option) \<Rightarrow> connect_fresh \<Rightarrow> id \<Rightarrow> id \<Rightarrow> connect_input \<Rightarrow> time \<Rightarrow> chat_world \<Rightarrow> (connect_refusal + channel_doc) \<times> chat_world" where
  "post_channel env identify fr ws actor inp now w =
     (case channelAdapter (xc_channel inp) of
        None \<Rightarrow> (Inl No_channel, w)
      | Some k \<Rightarrow>
          (if needs_secret k \<and> xc_signingSecret inp = None then (Inl Needs_secret, w)
           else if k \<in> {Whatsapp, Imessage} \<and> xc_extra inp = None then (Inl Needs_extra, w)
           else if agent_by_id ws (xc_agentId inp) (cw_start w) = None then (Inl Unknown_agent, w)
           else
             (case countGateFor (entitlements (se_bill (ce_start env)) now ws (sw_bill (cw_start w))) Limit_channels (channel_count ws w) 1 of
                Refused why pay \<Rightarrow> (Inl (No_room why), w)
              | Open \<Rightarrow>
                  (let token = compose_token k (xc_token inp) (xc_extra inp)
                   in if (case xc_modelBindingId inp of Some b \<Rightarrow> binding_by_id ws b (bw_bindings (sw_bill (cw_start w))) = None | None \<Rightarrow> False)
                      then (Inl Unknown_binding, w)
                      else
                        (case identify k token of
                           None \<Rightarrow> (Inl Token_refused, w)
                         | Some handle \<Rightarrow>
                             (let secret = or_else (xc_signingSecret inp) (xf_secret fr);
                                  w1 = w\<lparr>cw_credentials := cw_credentials w @ [(ws, xf_tokenCredential fr, token), (ws, xf_secretCredential fr, secret)]\<rparr>
                              in case channel_connect (xf_channel fr) ws \<lparr>cc_type = xc_channel inp, cc_agentId = xc_agentId inp,
                                        cc_modelBindingId = xc_modelBindingId inp, cc_tokenCredentialId = xf_tokenCredential fr,
                                        cc_secretCredentialId = Some (xf_secretCredential fr), cc_handle = handle,
                                        cc_code = Some (xf_code fr, CONNECT_CODE_TTL_MS), cc_install = None, cc_createdBy = actor\<rparr> now w1 of
                                   (None, w2) \<Rightarrow> (Inl No_connection, w2)
                                 | (Some row, w2) \<Rightarrow>
                                     (let url = webhookUrl env (cn_type row) (cn_id row)
                                      in (Inr row, if ce_registers env token url then recordWebhook ws (cn_id row) url WEBHOOK_SPEC now w2
                                                   else channel_failure ws (cn_id row) ''register'' now w2)))))))) "

definition revoke_credential :: "id \<Rightarrow> id \<Rightarrow> chat_world \<Rightarrow> chat_world" where
  "revoke_credential ws i w = w\<lparr>cw_credentials := filter (\<lambda>(cws, c, _). \<not> (cws = ws \<and> c = i)) (cw_credentials w)\<rparr>"

definition delete_channel :: "id \<Rightarrow> id \<Rightarrow> chat_world \<Rightarrow> (connect_refusal + unit) \<times> chat_world" where
  "delete_channel ws i w =
     (case channel_by_id ws i w of
        None \<Rightarrow> (Inl No_connection, w)
      | Some row \<Rightarrow>
          (let w1 = revoke_credential ws (cn_tokenCredentialId row) (channel_disconnect ws i w)
           in (Inr (), case cn_secretCredentialId row of None \<Rightarrow> w1 | Some c \<Rightarrow> revoke_credential ws c w1)))"

definition reissue_route :: "string \<Rightarrow> id \<Rightarrow> id \<Rightarrow> time \<Rightarrow> chat_world \<Rightarrow> (connect_refusal + unit) \<times> chat_world" where
  "reissue_route c ws i now w =
     (if channel_by_id ws i w = None then (Inl No_connection, w) else (Inr (), reissueCode ws i c CONNECT_CODE_TTL_MS now w))"

definition webhook_route :: "chat_env \<Rightarrow> string \<Rightarrow> id \<Rightarrow> id \<Rightarrow> time \<Rightarrow> chat_world \<Rightarrow> (connect_refusal + unit) \<times> chat_world" where
  "webhook_route env message ws i now w =
     (case channel_by_id ws i w of
        None \<Rightarrow> (Inl No_connection, w)
      | Some row \<Rightarrow>
          (case registerWebhook env row now w of
             (True, w1) \<Rightarrow> (Inr (), w1)
           | (False, w1) \<Rightarrow> (Inl Token_refused, channel_failure ws i message now w1)))"

definition unlink_route :: "principal \<Rightarrow> id \<Rightarrow> id \<Rightarrow> chat_world \<Rightarrow> (connect_refusal + unit) \<times> chat_world" where
  "unlink_route p ws i w =
     (case p of
        User u _ _ \<Rightarrow>
          (case List.find (\<lambda>d. ci_workspaceId d = ws \<and> ci_id d = i) (cw_identities w) of
             None \<Rightarrow> (Inl Not_linked, w)
           | Some d \<Rightarrow> if ci_userId d \<noteq> Some u then (Inl Not_linked, w) else (Inr (), setIdentityUser ws i None w))
      | _ \<Rightarrow> (Inl Not_a_person, w))"

end
