(* ===== verification/Channel_Properties.thy ===== *)
theory Channel_Properties
  imports Channels
begin

text \<open>
  What the deliveries of chat platforms may do, over the definitions of \<open>Channels\<close>: which of them start a run and in whose
  name, that a delivery starts one at most, whose press decides an approval, and what a failure does to a connection.
\<close>

subsection \<open>What the repository leaves alone\<close>

lemma chat_start_kept [simp]:
  "cw_start (update_channel ws i f w) = cw_start w" "cw_start (reply row chat body w) = cw_start w"
  "cw_start (releaseDelivery ws i ref w) = cw_start w" "cw_start (attachRun ws i ref run w) = cw_start w"
  "cw_start (setIdentityUser ws j u w) = cw_start w" "cw_start (bot_says chat body w) = cw_start w"
  by (simp_all add: update_channel_def reply_def releaseDelivery_def attachRun_def setIdentityUser_def bot_says_def split: option.splits)

lemma chat_start_records [simp]:
  "cw_start (recordDelivery ws i now w) = cw_start w" "cw_start (channel_failure ws i msg now w) = cw_start w"
  "cw_start (recordWebhook ws i url spec now w) = cw_start w" "cw_start (bindInstall ws i team name now w) = cw_start w"
  by (simp_all add: recordDelivery_def channel_failure_def recordWebhook_def bindInstall_def)

lemma chat_start_claims:
  "claim_channel ws i c chat now w = (won, w') \<Longrightarrow> cw_start w' = cw_start w"
  "claimDelivery newId ws i ref now w = (won, w') \<Longrightarrow> cw_start w' = cw_start w"
  "linkIdentity newId ws i m conv now w = (d, w') \<Longrightarrow> cw_start w' = cw_start w"
  by (auto simp: claim_channel_def claimDelivery_def linkIdentity_def Let_def split: if_splits option.splits)

lemma chat_start_handshake [simp]: "cw_start (completeHandshake row m now w) = cw_start w"
  by (simp add: completeHandshake_def claim_channel_def split: bool.splits)

lemma chat_start_link: "linkFromChat env row m now w = Some (r, w') \<Longrightarrow> cw_start w' = cw_start w"
  by (auto simp: linkFromChat_def split: option.splits if_splits prod.splits bool.splits)

lemma chat_start_hear: "hear env row m w = (r, w') \<Longrightarrow> cw_start w' = cw_start w"
  by (auto simp: hear_def Let_def split: option.splits if_splits sum.splits transcription.splits)

lemma chat_start_register [simp]: "cw_start (snd (registerWebhook env row now w)) = cw_start w"
  by (simp add: registerWebhook_def Let_def split: option.splits)

lemma chat_start_bot: "claimTelegramChat env chat m now w = (r, w') \<Longrightarrow> cw_start w' = cw_start w"
  by (auto simp: claimTelegramChat_def Let_def claim_channel_def split: option.splits if_splits bool.splits)

subsection \<open>The run a message starts\<close>

lemma conversation_create_db: "conversation_create head now w = Some w' \<Longrightarrow> w_db (sw_store w') = w_db (sw_store w) \<and> sw_bill w' = sw_bill w \<and> sw_mcp w' = sw_mcp w"
  by (auto simp: conversation_create_def split: if_splits)

lemma append_keyed_db: "append_keyed sha newId conv key now m w = (r, w') \<Longrightarrow> w_db (sw_store w') = w_db (sw_store w)"
proof -
  assume a: "append_keyed sha newId conv key now m w = (r, w')"
  have seq: "w_db st' = w_db st" if "allocateSeq conv st = (n, st')" for st st' n
    using that by (auto simp: allocateSeq_def split: option.splits)
  obtain n st' where s: "allocateSeq conv (sw_store w) = (n, st')" by (metis surj_pair)
  from a seq [OF s] s show ?thesis
    by (auto simp: append_keyed_def repo_appendMessage_def Let_def split: if_splits option.splits prod.splits)
qed

text \<open>A run the channel queued: in the name of the chat account, with the platform's budget.\<close>

definition chat_run_ok :: "chat_env \<Rightarrow> channel_doc \<Rightarrow> inbound_message \<Rightarrow> run_doc \<Rightarrow> bool" where
  "chat_run_ok env row m run \<longleftrightarrow>
     rd_workspaceId run = cn_workspaceId row \<and> rd_status run = Queued \<and> rd_budget run = DEFAULT_BUDGET \<and>
     rd_trigger run = (''channel'', Some (cn_type row @ '':'' @ im_senderRef m)) \<and>
     (\<exists>i u. rd_principal run = Channel_identity i (cn_workspaceId row) u (if u = None then Unlinked else Linked))"

lemma chat_run_cases:
  assumes "chat_run env ids row m agent binding now w = (r, w')"
  shows "db_approvals (chat_db w') = db_approvals (chat_db w) \<and> (case r of Inl e \<Rightarrow> db_runs (chat_db w') = db_runs (chat_db w)
    | Inr run \<Rightarrow> db_runs (chat_db w') = db_runs (chat_db w) @ [run] \<and> chat_run_ok env row m run \<and> rd_modelBindingId run = binding)"
proof -
  obtain c w1 where conv: "chat_conversation env ids row m binding now w = (c, w1)" by (metis surj_pair)
  then have db1: "chat_db w1 = chat_db w"
    by (auto simp: chat_conversation_def dest!: conversation_create_db split: option.splits)
  show ?thesis
  proof (cases c)
    case (Inl e)
    with assms conv db1 show ?thesis by (auto simp: chat_run_def)
  next
    case (Inr conv_id)
    let ?ws = "cn_workspaceId row"
    obtain identity w2 where link: "linkIdentity (xi_identity ids) ?ws (cn_id row) m conv_id now w1 = (identity, w2)" by (metis surj_pair)
    obtain a st where app: "append_keyed (se_sha (ce_start env)) (fi_message (xi_start ids)) conv_id (Some (cn_id row @ '':'' @ im_messageRef m)) now
        (user_text (im_text m)) (cw_start w2) = (a, st)" by (metis surj_pair)
    have db2: "w_db (sw_store st) = chat_db w"
      using append_keyed_db [OF app] chat_start_claims(3) [OF link] db1 by simp
    let ?inp = "run_input (ce_start env) ?ws conv_id agent binding (''channel'', Some (cn_type row @ '':'' @ im_senderRef m)) (identity_principal ?ws identity) DEFAULT_BUDGET None st"
    obtain c2 st' where create: "run_create (fi_run (xi_start ids)) ?ws now ?inp st = (c2, st')" by (metis surj_pair)
    have out: "db_approvals (w_db (sw_store st')) = db_approvals (chat_db w)" "case c2 of Inl e \<Rightarrow> db_runs (w_db (sw_store st')) = db_runs (chat_db w)
        | Inr run \<Rightarrow> db_runs (w_db (sw_store st')) = db_runs (chat_db w) @ [run] \<and> run = new_run (fi_run (xi_start ids)) ?ws now ?inp"
      using create db2 by (auto simp: run_create_def create_def run_input_def Let_def split: sum.splits if_splits prod.splits)
    have "chat_run_ok env row m (new_run (fi_run (xi_start ids)) ?ws now ?inp)" "rd_modelBindingId (new_run (fi_run (xi_start ids)) ?ws now ?inp) = binding"
      by (auto simp: chat_run_ok_def new_run_def run_input_def identity_principal_def)
    moreover have "(r, w') = (case a of Inl e \<Rightarrow> (Inl e, w2\<lparr>cw_start := st\<rparr>)
        | Inr _ \<Rightarrow> (case c2 of Inl e \<Rightarrow> (Inl e, w2\<lparr>cw_start := st'\<rparr>) | Inr run \<Rightarrow> (Inr run, w2\<lparr>cw_start := st'\<rparr>)))"
      using assms unfolding chat_run_def conv Inr by (simp add: Let_def link app [simplified] create [simplified] split: sum.splits)
    ultimately show ?thesis using db2 out by (auto split: sum.splits)
  qed
qed

lemma startRun_cases:
  assumes "channel_startRun env ids row m now w = (r, w')"
  shows "db_approvals (chat_db w') = db_approvals (chat_db w) \<and> (case r of
      Inr (Some run) \<Rightarrow> db_runs (chat_db w') = db_runs (chat_db w) @ [run] \<and> chat_run_ok env row m run \<and>
        spendGate (se_bill (ce_start env)) now (cn_workspaceId row) (Some (rd_modelBindingId run)) (sw_bill (cw_start w)) = Open
    | _ \<Rightarrow> db_runs (chat_db w') = db_runs (chat_db w))"
  using assms
  by (auto simp: channel_startRun_def Let_def dest!: chat_run_cases split: option.splits gate.splits sum.splits prod.splits)

lemma chat_run_ok_sender: "im_senderRef m' = im_senderRef m \<Longrightarrow> chat_run_ok env row m' run = chat_run_ok env row m run"
  by (simp add: chat_run_ok_def)

text \<open>A delivered message that may start a run: a live connection, the right chat, a record of its own.\<close>

definition open_for :: "channel_doc \<Rightarrow> inbound_message \<Rightarrow> bool" where
  "open_for row m \<longleftrightarrow> cn_status row = Connected \<and> (cn_verifiedChatRef row = None \<or> cn_verifiedChatRef row = Some (im_chatRef m)) \<and>
     offeredLinkCode (im_text m) = None"

lemma work_cases:
  assumes "channel_work env ids row m now w = (r, w')"
  shows "db_approvals (chat_db w') = db_approvals (chat_db w) \<and> (case r of
      Inr (Some run) \<Rightarrow> db_runs (chat_db w') = db_runs (chat_db w) @ [run] \<and> chat_run_ok env row m run \<and> open_for row m \<and>
        spendGate (se_bill (ce_start env)) now (cn_workspaceId row) (Some (rd_modelBindingId run)) (sw_bill (cw_start w)) = Open
    | _ \<Rightarrow> db_runs (chat_db w') = db_runs (chat_db w))"
proof (cases "cn_status row = Connected \<and> (cn_verifiedChatRef row = None \<or> cn_verifiedChatRef row = Some (im_chatRef m)) \<and> linkFromChat env row m now w = None")
  case False
  with assms show ?thesis
    by (auto simp: channel_work_def dest: chat_start_link split: if_splits option.splits prod.splits)
next
  case True
  then have ok: "open_for row m" by (auto simp: open_for_def linkFromChat_def split: option.splits)
  obtain heard w1 where h: "hear env row m w = (heard, w1)" by (metis surj_pair)
  show ?thesis
  proof (cases heard)
    case None
    with assms True h chat_start_hear [OF h] show ?thesis by (auto simp: channel_work_def)
  next
    case (Some m')
    then have sender: "im_senderRef m' = im_senderRef m"
      using h by (auto simp: hear_def Let_def split: option.splits if_splits sum.splits transcription.splits)
    obtain c w2 where s: "channel_startRun env ids row m' now w1 = (c, w2)" by (metis surj_pair)
    with assms True h Some have out: "r = c" "cw_start w' = cw_start w2"
      by (auto simp: channel_work_def split: sum.splits option.splits)
    from startRun_cases [OF s] chat_start_hear [OF h] ok show ?thesis
      unfolding out chat_run_ok_sender [OF sender] by (auto split: sum.splits option.splits)
  qed
qed

text \<open>What a claimed record looks like, and when there is one already.\<close>

definition delivery_seen :: "id \<Rightarrow> string \<Rightarrow> chat_world \<Rightarrow> bool" where
  "delivery_seen i ref w \<longleftrightarrow> list_ex (\<lambda>e. cx_channelId e = i \<and> cx_externalEventId e = ref) (cw_events w)"

lemma claimDelivery_seen: "claimDelivery newId ws i ref now w = (won, w') \<Longrightarrow> won \<longleftrightarrow> \<not> delivery_seen i ref w"
  by (auto simp: claimDelivery_def delivery_seen_def split: if_splits)

lemma act_message_cases:
  assumes "act_message env ids row m a now w = (r, w')"
  shows "db_approvals (chat_db w') = db_approvals (chat_db w) \<and> (db_runs (chat_db w') = db_runs (chat_db w) \<or>
    (\<exists>run. db_runs (chat_db w') = db_runs (chat_db w) @ [run] \<and> chat_run_ok env row m run \<and> open_for row m \<and> confirmed env row m w \<and>
      \<not> delivery_seen (cn_id row) (im_messageRef m) w \<and>
      spendGate (se_bill (ce_start env)) now (cn_workspaceId row) (Some (rd_modelBindingId run)) (sw_bill (cw_start w)) = Open))"
proof (cases "confirmed env row m w")
  case False
  with assms show ?thesis by (simp add: act_message_def)
next
  case True
  obtain won w1 where c: "claimDelivery (xi_event ids) (cn_workspaceId row) (cn_id row) (im_messageRef m) now w = (won, w1)" by (metis surj_pair)
  note kept = chat_start_claims(2) [OF c]
  show ?thesis
  proof (cases won)
    case False
    with assms True c kept show ?thesis by (simp add: act_message_def)
  next
    case won: True
    let ?w2 = "recordDelivery (cn_workspaceId row) (cn_id row) now w1"
    obtain x w3 where f: "channel_work env ids row m now ?w2 = (x, w3)" by (metis surj_pair)
    with assms True c won have same: "cw_start w' = cw_start w3"
      by (auto simp: act_message_def finish_work_def Let_def split: sum.splits prod.splits)
    from work_cases [OF f] won claimDelivery_seen [OF c] True kept show ?thesis
      unfolding same by (auto split: sum.splits option.splits)
  qed
qed

subsection \<open>What a press decides\<close>

text \<open>The press of a person on a question of theirs that is still open.\<close>

definition press_ok :: "channel_doc \<Rightarrow> inbound_choice \<Rightarrow> time \<Rightarrow> chat_world \<Rightarrow> id \<Rightarrow> approval_decision \<Rightarrow> bool" where
  "press_ok row c now w approvalId decision \<longleftrightarrow>
     decodeDecision (ic_data c) = Some (approvalId, decision) \<and> cn_status row = Connected \<and>
     (\<exists>approval run d. findApproval (cn_workspaceId row) approvalId (chat_db w) = Some approval \<and> ap_decision approval = None \<and> now \<le> ap_expiresAt approval \<and>
        run_by_id (cn_workspaceId row) (ap_runId approval) (chat_db w) = Some run \<and> isSuspended (rd_status run) \<and>
        findIdentityByConversation (cn_workspaceId row) (rd_conversationId run) w = Some d \<and> ci_channelId d = cn_id row \<and> ci_externalUserId d = ic_senderRef c)"

definition decided_by :: "channel_doc \<Rightarrow> inbound_choice \<Rightarrow> time \<Rightarrow> id \<Rightarrow> approval_decision \<Rightarrow> approval_doc list \<Rightarrow> approval_doc list" where
  "decided_by row c now approvalId decision docs =
     update_first (undecided (cn_workspaceId row) approvalId)
       (decide_change decision (''channel:'' @ cn_id row @ '':'' @ ic_senderRef c) None now) docs"

lemma decide_cases:
  assumes "decideFromChat row c now w = (r, w')" "cn_status row = Connected"
  shows "w' = w \<and> \<not> snd r \<or>
    (\<exists>approvalId decision. press_ok row c now w approvalId decision \<and> snd r \<and>
       db_approvals (chat_db w') = decided_by row c now approvalId decision (db_approvals (chat_db w)) \<and>
       map rd_id (db_runs (chat_db w')) = map rd_id (db_runs (chat_db w)) \<and> map rd_trigger (db_runs (chat_db w')) = map rd_trigger (db_runs (chat_db w)) \<and> cw_channels w' = cw_channels w \<and> cw_events w' = cw_events w)"
proof (cases "decodeDecision (ic_data c)")
  case None
  with assms show ?thesis by (auto simp: decideFromChat_def)
next
  case (Some p)
  obtain i decision where p: "p = (i, decision)" by (cases p)
  let ?ws = "cn_workspaceId row"
  show ?thesis
  proof (cases "press_ok row c now w i decision \<and> list_ex (undecided ?ws i) (db_approvals (chat_db w))")
    case False
    then have "w' = w \<and> \<not> snd r"
      using assms Some p
      by (auto simp: decideFromChat_def Let_def press_ok_def decideApproval_def split: option.splits if_splits)
    then show ?thesis by simp
  next
    case True
    then obtain approval run d where ok: "findApproval ?ws i (chat_db w) = Some approval" "ap_decision approval = None" "now \<le> ap_expiresAt approval"
      "run_by_id ?ws (ap_runId approval) (chat_db w) = Some run" "isSuspended (rd_status run)"
      "findIdentityByConversation ?ws (rd_conversationId run) w = Some d" "ci_channelId d = cn_id row" "ci_externalUserId d = ic_senderRef c"
      by (auto simp: press_ok_def)
    then have "press_ok row c now w i decision \<and> snd r \<and>
       db_approvals (chat_db w') = decided_by row c now i decision (db_approvals (chat_db w)) \<and>
       map rd_id (db_runs (chat_db w')) = map rd_id (db_runs (chat_db w)) \<and> map rd_trigger (db_runs (chat_db w')) = map rd_trigger (db_runs (chat_db w)) \<and> cw_channels w' = cw_channels w \<and> cw_events w' = cw_events w"
      using assms Some p True
      by (auto simp: decideFromChat_def Let_def decideApproval_def in_chat_db_def decided_by_def enqueue_change_def map_update_first)
    then show ?thesis by blast
  qed
qed

lemma act_choice_cases:
  assumes "act_choice env ids row c now w = (r, w')"
  shows "map rd_id (db_runs (chat_db w')) = map rd_id (db_runs (chat_db w)) \<and> map rd_trigger (db_runs (chat_db w')) = map rd_trigger (db_runs (chat_db w)) \<and>
    (db_approvals (chat_db w') = db_approvals (chat_db w) \<or>
     (\<exists>approvalId decision. press_ok row c now w approvalId decision \<and> \<not> delivery_seen (cn_id row) (ic_deliveryRef c) w \<and>
       db_approvals (chat_db w') = decided_by row c now approvalId decision (db_approvals (chat_db w))))"
proof -
  obtain won w1 where cl: "claimDelivery (xi_event ids) (cn_workspaceId row) (cn_id row) (ic_deliveryRef c) now w = (won, w1)" by (metis surj_pair)
  note kept = chat_start_claims(2) [OF cl]
  have same: "findIdentityByConversation ws conv w1 = findIdentityByConversation ws conv w" for ws conv
    using cl by (auto simp: claimDelivery_def findIdentityByConversation_def split: if_splits)
  show ?thesis
  proof (cases "won \<and> cn_status row = Connected")
    case False
    with assms cl kept show ?thesis by (auto simp: act_choice_def split: bool.splits if_splits)
  next
    case True
    obtain x w2 where d: "decideFromChat row c now w1 = (x, w2)" by (metis surj_pair)
    with assms cl True have "cw_start w' = cw_start w2" by (auto simp: act_choice_def split: if_splits prod.splits)
    moreover have "\<not> delivery_seen (cn_id row) (ic_deliveryRef c) w" using claimDelivery_seen [OF cl] True by simp
    ultimately show ?thesis using decide_cases [OF d] True kept same by (auto simp: press_ok_def)
  qed
qed

subsection \<open>Served deliveries\<close>

text \<open>A delivery to the address of one connection, or to the one that the connections of an application share.\<close>

datatype delivery = Own_address string id string headers | Shared_address string string headers

fun serve_delivery :: "chat_env \<Rightarrow> chat_ids \<Rightarrow> delivery \<Rightarrow> time \<Rightarrow> chat_world \<Rightarrow> (start_error + delivery_outcome) \<times> chat_world" where
  "serve_delivery env ids (Own_address type i raw hs) now w = handleDelivery env ids type i raw hs now w"
| "serve_delivery env ids (Shared_address type raw hs) now w = handleSharedDelivery env ids type raw hs now w"

text \<open>
  That a delivery is genuine and for a connection: by the secret of the connection, or by that of the shared application
  when the platform's workspace it names is the connection's.
\<close>

fun genuine_for :: "chat_env \<Rightarrow> delivery \<Rightarrow> channel_doc \<Rightarrow> chat_world \<Rightarrow> bool" where
  "genuine_for env (Own_address type i raw hs) row w \<longleftrightarrow>
     cn_id row = i \<and> cn_type row = type \<and>
     (\<exists>k. channelAdapter type = Some k \<and> delivery_proven (ce_platform env) k raw hs (vx_webhookSecret (context_of env row w)))"
| "genuine_for env (Shared_address type raw hs) row w \<longleftrightarrow>
     cn_type row = type \<and>
     (\<exists>k url secret x. channelAdapter type = Some k \<and> ce_shared env k = Some (url, secret) \<and> delivery_proven (ce_platform env) k raw hs secret \<and>
        cn_install row = Some x \<and> teamOf (ce_platform env) k raw = Some (in_teamRef x))"

text \<open>What the platform's adapter makes of it.\<close>

fun judged :: "chat_env \<Rightarrow> delivery \<Rightarrow> channel_doc \<Rightarrow> time \<Rightarrow> chat_world \<Rightarrow> inbound_result" where
  "judged env (Own_address type i raw hs) row now w =
     (case channelAdapter type of None \<Rightarrow> Ignored [] | Some k \<Rightarrow> receive_delivery (ce_platform env) k raw hs (context_of env row w) now)"
| "judged env (Shared_address type raw hs) row now w =
     (case Option.bind (channelAdapter type) (\<lambda>k. map_option (Pair k) (ce_shared env k)) of
        None \<Rightarrow> Ignored []
      | Some (k, url, secret) \<Rightarrow> receive_delivery (ce_platform env) k raw hs \<lparr>vx_webhookUrl = url, vx_webhookSecret = secret\<rparr> now)"

lemma serve_cases:
  assumes "serve_delivery env ids d now w = (r, w')"
  obtains (idle) "cw_start w' = cw_start w"
  | (message) row m a w1 where "row \<in> set (cw_channels w)" "genuine_for env d row w" "judged env d row now w = Got_message m a" "act_message env ids row m a now w1 = (r, w')" "w1 = w \<or> w1 = snd (registerWebhook env row now w)"
  | (press) row c x w1 where "row \<in> set (cw_channels w)" "genuine_for env d row w" "judged env d row now w = Got_choice c" "act_choice env ids row c now w1 = (x, w')" "w1 = w \<or> w1 = snd (registerWebhook env row now w)"
proof (cases d)
  case (Own_address type i raw hs)
  show thesis
  proof (cases "channelAdapter type = None \<or> List.find (\<lambda>d. cn_id d = i \<and> cn_type d = type) (cw_channels w) = None")
    case True
    with assms Own_address show thesis by (intro idle) (auto simp: handleDelivery_def split: option.splits)
  next
    case False
    then obtain k row where f: "channelAdapter type = Some k" "List.find (\<lambda>d. cn_id d = i \<and> cn_type d = type) (cw_channels w) = Some row" by auto
    have row: "row \<in> set (cw_channels w)" "cn_id row = i" "cn_type row = type" using find_Some_in [OF f(2)] by auto
    let ?judged = "receive_delivery (ce_platform env) k raw hs (context_of env row w) now"
    let ?stale = "deliveredToOldAddress env hs \<or> or_else (cn_webhookSpec row) 1 \<noteq> WEBHOOK_SPEC"
    define w1 where "w1 = (if ?stale then snd (registerWebhook env row now w) else w)"
    have proven: "delivery_proven (ce_platform env) k raw hs (vx_webhookSecret (context_of env row w))"
      if "?judged = Got_message m a \<or> ?judged = Got_choice c" for m a c using delivery_acted_on [OF that] .
    show thesis
    proof (cases ?judged)
      case (Got_message m a)
      with assms Own_address f have "act_message env ids row m a now w1 = (r, w')" by (simp add: handleDelivery_def act_def w1_def)
      then show thesis using row Own_address f(1) proven [of m a] Got_message by (intro message [of row m a w1]) (auto simp: w1_def)
    next
      case (Got_choice c)
      with assms Own_address f obtain x where "act_choice env ids row c now w1 = (x, w')"
        by (auto simp: handleDelivery_def act_def w1_def split: prod.splits)
      then show thesis using row Own_address f(1) proven [of _ _ c] Got_choice by (intro press [of row c w1 x]) (auto simp: w1_def)
    qed (use assms Own_address f in \<open>auto simp: handleDelivery_def act_def intro!: idle\<close>)
  qed
next
  case (Shared_address type raw hs)
  show thesis
  proof (cases "Option.bind (channelAdapter type) (\<lambda>k. map_option (Pair k) (ce_shared env k))")
    case None
    with assms Shared_address show thesis by (intro idle) (auto simp: handleSharedDelivery_def)
  next
    case (Some p)
    then obtain k url secret where k: "channelAdapter type = Some k" "ce_shared env k = Some (url, secret)" "p = (k, url, secret)"
      by (cases "channelAdapter type") auto
    let ?judged = "receive_delivery (ce_platform env) k raw hs \<lparr>vx_webhookUrl = url, vx_webhookSecret = secret\<rparr> now"
    let ?row = "\<lambda>team. List.find (\<lambda>d. cn_type d = type \<and> map_option in_teamRef (cn_install d) = Some team \<and> cn_status d \<noteq> Channel_disabled) (cw_channels w)"
    show thesis
    proof (cases "Option.bind (teamOf (ce_platform env) k raw) ?row")
      case None
      with assms Shared_address k show thesis
        by (intro idle)
          (auto simp: handleSharedDelivery_def Let_def dest: chat_start_bot split: inbound_result.splits option.splits channel_kind.splits prod.splits)
    next
      case (Some row)
      then obtain team where team: "teamOf (ce_platform env) k raw = Some team" "?row team = Some row"
        by (cases "teamOf (ce_platform env) k raw") auto
      have row: "row \<in> set (cw_channels w)" "cn_type row = type" "map_option in_teamRef (cn_install row) = Some team"
        using find_Some_in [OF team(2)] by auto
      have gen: "genuine_for env d row w" if "?judged = Got_message m a \<or> ?judged = Got_choice c" for m a c
        using delivery_acted_on [OF that] row k team Shared_address by auto
      show thesis
      proof (cases ?judged)
        case (Got_message m a)
        with assms Shared_address k team have "act_message env ids row m a now w = (r, w')"
          by (simp add: handleSharedDelivery_def act_def)
        then show thesis using row gen [of m a] Got_message k Shared_address by (intro message [of row m a w]) auto
      next
        case (Got_choice c)
        with assms Shared_address k team obtain x where "act_choice env ids row c now w = (x, w')"
          by (auto simp: handleSharedDelivery_def act_def split: prod.splits)
        then show thesis using row gen [of _ _ c] Got_choice k Shared_address by (intro press [of row c w x]) auto
      qed (use assms Shared_address k team in \<open>auto simp: handleSharedDelivery_def act_def intro!: idle\<close>)
    qed
  qed
qed

lemma register_kept:
  "w1 = w \<or> w1 = snd (registerWebhook env row now w) \<Longrightarrow>
   cw_start w1 = cw_start w \<and> cw_events w1 = cw_events w \<and> cw_identities w1 = cw_identities w \<and> cw_credentials w1 = cw_credentials w"
  by (auto simp: registerWebhook_def Let_def recordWebhook_def update_channel_def split: option.splits if_splits)

lemma confirmed_cong: "cw_credentials w1 = cw_credentials w \<Longrightarrow> confirmed env row m w1 = confirmed env row m w"
  by (simp add: confirmed_def resolve_credential_def)

lemma delivery_seen_cong: "cw_events w1 = cw_events w \<Longrightarrow> delivery_seen i ref w1 = delivery_seen i ref w"
  by (simp add: delivery_seen_def)


text \<open>
  C17. Only the person who was asked decides, and only once. Whatever is delivered, if the recorded answers to approvals change,
  then the delivery was a press on one of the host's buttons, genuine and not seen before, on a live connection; the
  approval it names is of that workspace, unanswered and not expired; its run is still waiting; and whoever pressed is, on this
  very connection, the chat account the run's conversation belongs to. The one change is the answer of that approval, in
  the name of that account.
\<close>

theorem press_authorised:
  assumes "serve_delivery env ids d now w = (r, w')" and "db_approvals (chat_db w') \<noteq> db_approvals (chat_db w)"
  shows "\<exists>row c approvalId decision. row \<in> set (cw_channels w) \<and> judged env d row now w = Got_choice c \<and> genuine_for env d row w \<and>
    press_ok row c now w approvalId decision \<and> \<not> delivery_seen (cn_id row) (ic_deliveryRef c) w \<and>
    db_approvals (chat_db w') = decided_by row c now approvalId decision (db_approvals (chat_db w))"
  using assms(1)
proof (cases rule: serve_cases)
  case idle
  with assms(2) show ?thesis by auto
next
  case (press row c x w1)
  note kept = register_kept [OF press(5)]
  have same: "press_ok row c now w1 i dec = press_ok row c now w i dec" for i dec
    using kept by (simp add: press_ok_def findIdentityByConversation_def)
  from act_choice_cases [OF press(4)] kept assms(2) show ?thesis
    using press(1-3) delivery_seen_cong [of w1 w] unfolding same by auto
next
  case (message row m a w1)
  have "db_approvals (chat_db w') = db_approvals (chat_db w1)" using act_message_cases [OF message(4)] by simp
  with register_kept [OF message(5)] assms(2) show ?thesis by simp
qed

subsection \<open>A sample connection\<close>

definition sample_bots :: platform_env where
  "sample_bots = \<lparr>pe_telegram = (\<lambda>raw.
       if raw = ''press'' then Some \<lparr>tp_message = None, tp_callback = Some \<lparr>tc_id = ''q1'', tc_from = \<lparr>tgu_id = 42, tgu_is_bot = False, tgu_first_name = Some ''Ann'', tgu_username = None\<rparr>,
         tc_message = Some (9, Some 7), tc_data = Some ''a:ap1:y''\<rparr>\<rparr>
       else Some \<lparr>tp_message = Some \<lparr>tm_message_id = 1, tm_from = Some \<lparr>tgu_id = 42, tgu_is_bot = False, tgu_first_name = Some ''Ann'', tgu_username = None\<rparr>,
         tm_chat = Some 7, tm_text = Some raw, tm_voice = None, tm_audio = None, tm_caption = None\<rparr>, tp_callback = None\<rparr>),
     pe_slack = (\<lambda>_. None), pe_discord = (\<lambda>_. None), pe_whatsapp = (\<lambda>_. None), pe_mac = (\<lambda>_. None), pe_form = Some,
     pe_hmac = (@), pe_ed25519 = (\<lambda>_ _ _. False)\<rparr>"

definition sample_chat :: chat_env where
  "sample_chat = \<lparr>ce_start = sample_start_env, ce_platform = sample_bots, ce_crypto = sample_crypto, ce_base = ''https://a.b'', ce_ownHost = ''a.b'',
     ce_registers = (\<lambda>_ _. True), ce_macMessage = (\<lambda>_ _. None), ce_fetchAudio = (\<lambda>_ _. Inl ''gone''), ce_transcribe = (\<lambda>_ _ _. No_ear),
     ce_shared = (\<lambda>_. None), ce_errorText = (\<lambda>_. ''failed''), ce_gateText = (\<lambda>_. ''no'')\<rparr>"

definition sample_connection :: channel_doc where
  "sample_connection = \<lparr>cn_id = ''ch1'', cn_workspaceId = ''w1'', cn_type = ''telegram'', cn_agentId = ''a1'', cn_modelBindingId = None, cn_tokenCredentialId = ''t1'',
     cn_secretCredentialId = Some ''s1'', cn_status = Connected, cn_handle = ''bot'', cn_connect = None, cn_verifiedChatRef = Some ''7'', cn_install = None,
     cn_webhookUrl = None, cn_webhookSpec = Some 3, cn_lastOkAt = None, cn_lastDeliveryAt = None, cn_failures = 0, cn_lastError = None,
     cn_createdBy = ''ann'', cn_createdAt = 0, cn_updatedAt = 0\<rparr>"

definition sample_chats :: chat_world where
  "sample_chats = \<lparr>cw_channels = [sample_connection], cw_identities = [], cw_events = [], cw_credentials = [(''w1'', ''t1'', ''tok''), (''w1'', ''s1'', ''sec'')],
     cw_start = empty_start, cw_auth = sy_world sample_empty, cw_outbox = [], cw_audit = []\<rparr>"

definition sample_chat_ids :: chat_ids where
  "sample_chat_ids = \<lparr>xi_event = ''e1'', xi_identity = ''i1'', xi_start = sample_ids\<rparr>"

definition sample_headers :: headers where
  "sample_headers = (\<lambda>h. if h = SECRET_HEADER then Some ''sec'' else None)"

abbreviation sample_note :: delivery where
  "sample_note \<equiv> Own_address ''telegram'' ''ch1'' ''hi'' sample_headers"

abbreviation sample_press :: delivery where
  "sample_press \<equiv> Own_address ''telegram'' ''ch1'' ''press'' sample_headers"

text \<open>The same connection later: a conversation whose run waits for an answer to a question.\<close>

definition sample_question :: approval_doc where
  "sample_question = \<lparr>ap_id = ''ap1'', ap_workspaceId = ''w1'', ap_runId = ''r1'', ap_kind = ''tool_call'', ap_payload = JNull, ap_requestedAt = 8, ap_expiresAt = 90,
     ap_decision = None, ap_decidedBy = None, ap_decidedAt = None, ap_response = None, ap_announced = None\<rparr>"

definition sample_talk :: chat_world where
  "sample_talk = sample_chats\<lparr>
     cw_identities := [\<lparr>ci_id = ''i1'', ci_workspaceId = ''w1'', ci_channelId = ''ch1'', ci_externalUserId = ''42'', ci_chatRef = ''7'', ci_conversationId = ''c1'',
       ci_label = ''Ann'', ci_userId = None, ci_createdAt = 1, ci_lastSeenAt = 1\<rparr>],
     cw_start := empty_start\<lparr>sw_heads := [\<lparr>ch_id = ''c1'', ch_workspaceId = ''w1'', ch_agentId = ''a1'', ch_modelBindingId = ''b1'', ch_title = None,
         ch_channelId = Some ''ch1'', ch_externalRef = Some ''7''\<rparr>],
       sw_store := (sw_store empty_start)\<lparr>w_db := \<lparr>db_runs = [waiting_run], db_steps = [], db_events = [], db_approvals = [sample_question]\<rparr>\<rparr>\<rparr>\<rparr>"


theorem press_authorised_witness:
  "db_approvals (chat_db (snd (serve_delivery sample_chat sample_chat_ids sample_press 20 sample_talk))) \<noteq> db_approvals (chat_db sample_talk) \<and>
   (\<exists>row c. judged sample_chat sample_press row 20 sample_talk = Got_choice c \<and> genuine_for sample_chat sample_press row sample_talk \<and>
     press_ok row c 20 sample_talk ''ap1'' Approve)"
proof -
  obtain r w' where s: "serve_delivery sample_chat sample_chat_ids sample_press 20 sample_talk = (r, w')" by (metis surj_pair)
  have "map ap_decision (db_approvals (chat_db (snd (serve_delivery sample_chat sample_chat_ids sample_press 20 sample_talk)))) = [Some Approve]" by code_simp
  then have decided: "map ap_decision (db_approvals (chat_db w')) = [Some Approve]" unfolding s by simp
  have before: "db_approvals (chat_db sample_talk) = [sample_question]" by (simp add: sample_talk_def)
  with decided have changed: "db_approvals (chat_db w') \<noteq> db_approvals (chat_db sample_talk)" by (auto simp: sample_question_def)
  from press_authorised [OF s changed] obtain row c i d where
    p: "judged sample_chat sample_press row 20 sample_talk = Got_choice c" "genuine_for sample_chat sample_press row sample_talk" "press_ok row c 20 sample_talk i d"
       "db_approvals (chat_db w') = decided_by row c 20 i d [sample_question]" using before by auto
  have "i = ''ap1''" using p(4) changed before by (auto simp: decided_by_def undecided_def sample_question_def split: if_splits)
  moreover have "d = Approve" using p(4) decided by (auto simp: decided_by_def decide_change_def undecided_def sample_question_def split: if_splits)
  ultimately show ?thesis using p s changed by auto
qed

end
