(* ===== verification/Channel_Steps.thy ===== *)
theory Channel_Steps
  imports Channel_Properties
begin

text \<open>
  Deliveries that overlap: the record of a delivery is claimed in one command, its work is done later, and records are
  removed after seven days. A platform repeats what it was not thanked for in time, so the same delivery may be claimed again
  while its work is under way; \<open>chat_step\<close> interleaves all of that with whatever else the host does. Then: what a failure
  does to a connection, and what an edited draft leaves out.
\<close>

subsection \<open>Claims and their work\<close>

datatype claim_phase = Working | Over "id option"

record delivery_claim =
  dc_row :: channel_doc
  dc_message :: inbound_message
  dc_at :: time
  dc_phase :: claim_phase

record chat_state =
  cs_world :: chat_world
  cs_clock :: time
  cs_claims :: "delivery_claim list"

definition claim_key :: "delivery_claim \<Rightarrow> id \<times> string" where
  "claim_key c = (cn_id (dc_row c), im_messageRef (dc_message c))"

fun started :: "delivery_claim \<Rightarrow> bool" where
  "started c \<longleftrightarrow> (case dc_phase c of Over (Some run) \<Rightarrow> True | _ \<Rightarrow> False)"

definition from_channel :: "run_doc \<Rightarrow> bool" where
  "from_channel d \<longleftrightarrow> fst (rd_trigger d) = ''channel''"

definition channel_runs :: "chat_world \<Rightarrow> nat" where
  "channel_runs w = length (filter from_channel (db_runs (chat_db w)))"

text \<open>
  The work of a claim ends within the seven days its record is kept, or never: a request does not live that long. What the
  rest of the host does leaves the records alone and starts no run of a channel.
\<close>

inductive chat_step :: "chat_env \<Rightarrow> chat_state \<Rightarrow> chat_state \<Rightarrow> bool" for env :: chat_env where
  delivery_claimed: "cs_clock s \<le> now \<Longrightarrow> row \<in> set (cw_channels (cs_world s)) \<Longrightarrow> confirmed env row m (cs_world s) \<Longrightarrow>
    claimDelivery newId (cn_workspaceId row) (cn_id row) (im_messageRef m) now (cs_world s) = (True, w1) \<Longrightarrow>
    chat_step env s (s\<lparr>cs_world := recordDelivery (cn_workspaceId row) (cn_id row) now w1, cs_clock := now,
      cs_claims := cs_claims s @ [\<lparr>dc_row = row, dc_message = m, dc_at = now, dc_phase = Working\<rparr>]\<rparr>)"
| work_done: "cs_clock s \<le> now \<Longrightarrow> cs_claims s = before @ c # after \<Longrightarrow> dc_phase c = Working \<Longrightarrow> now \<le> dc_at c + EVENT_TTL_MS \<Longrightarrow>
    finish_work env ids (dc_row c) (dc_message c) now (cs_world s) = (Inr r, w') \<Longrightarrow>
    chat_step env s (s\<lparr>cs_world := w', cs_clock := now, cs_claims := before @ c\<lparr>dc_phase := Over (map_option rd_id r)\<rparr> # after\<rparr>)"
| work_failed: "cs_clock s \<le> now \<Longrightarrow> cs_claims s = before @ c # after \<Longrightarrow> dc_phase c = Working \<Longrightarrow> now \<le> dc_at c + EVENT_TTL_MS \<Longrightarrow>
    finish_work env ids (dc_row c) (dc_message c) now (cs_world s) = (Inl e, w') \<Longrightarrow>
    chat_step env s (s\<lparr>cs_world := w', cs_clock := now, cs_claims := before @ after\<rparr>)"
| pressed: "cs_clock s \<le> now \<Longrightarrow> row \<in> set (cw_channels (cs_world s)) \<Longrightarrow> act_choice env ids row p now (cs_world s) = (x, w') \<Longrightarrow>
    chat_step env s (s\<lparr>cs_world := w', cs_clock := now\<rparr>)"
| forgotten: "cs_clock s \<le> now \<Longrightarrow> chat_step env s (s\<lparr>cs_world := forget_events now (cs_world s), cs_clock := now\<rparr>)"
| elsewhere: "cs_clock s \<le> now \<Longrightarrow> cw_events w' = cw_events (cs_world s) \<Longrightarrow> channel_runs w' = channel_runs (cs_world s) \<Longrightarrow>
    chat_step env s (s\<lparr>cs_world := w', cs_clock := now\<rparr>)"

definition no_chats :: "chat_state \<Rightarrow> bool" where
  "no_chats s \<longleftrightarrow> cs_claims s = [] \<and> channel_runs (cs_world s) = 0"

subsection \<open>What happens to the records\<close>

definition event_sig :: "channel_event \<Rightarrow> id \<times> string \<times> time" where
  "event_sig e = (cx_channelId e, cx_externalEventId e, cx_receivedAt e)"

definition event_sigs :: "chat_world \<Rightarrow> (id \<times> string \<times> time) set" where
  "event_sigs w = event_sig ` set (cw_events w)"

lemma events_kept [simp]:
  "cw_events (update_channel ws i f w) = cw_events w" "cw_events (reply row chat body w) = cw_events w" "cw_channels (reply row chat body w) = cw_channels w"
  "cw_events (setIdentityUser ws j u w) = cw_events w" "cw_channels (setIdentityUser ws j u w) = cw_channels w" "cw_channels (attachRun ws i ref run w) = cw_channels w"
  "cw_channels (releaseDelivery ws i ref w) = cw_channels w" "cw_channels (bot_says chat body w) = cw_channels w"
  by (simp_all add: update_channel_def reply_def setIdentityUser_def attachRun_def releaseDelivery_def bot_says_def split: option.splits)

lemma events_records [simp]:
  "cw_events (recordDelivery ws i now w) = cw_events w" "cw_events (channel_failure ws i msg now w) = cw_events w"
  by (simp_all add: recordDelivery_def channel_failure_def)

lemma events_attach [simp]: "event_sigs (attachRun ws i ref run w) = event_sigs w"
proof -
  have "map event_sig (update_first P (\<lambda>e. e\<lparr>cx_runId := Some run\<rparr>) es) = map event_sig es" for P es
    by (induction es) (auto simp: event_sig_def)
  then show ?thesis by (simp add: event_sigs_def attachRun_def flip: set_map)
qed

text \<open>Starting a run, linking and hearing touch neither the records nor the connections.\<close>

definition apart_from :: "chat_world \<Rightarrow> chat_world \<Rightarrow> bool" where
  "apart_from w w' \<longleftrightarrow> cw_events w' = cw_events w \<and> cw_channels w' = cw_channels w"

lemma apart_chat_run: "chat_run env ids row m agent binding now w = (r, w') \<Longrightarrow> apart_from w w'"
  by (auto simp: apart_from_def chat_run_def chat_conversation_def linkIdentity_def Let_def split: option.splits sum.splits prod.splits)

lemma apart_startRun: "channel_startRun env ids row m now w = (r, w') \<Longrightarrow> apart_from w w'"
  by (auto simp: channel_startRun_def Let_def dest!: apart_chat_run split: option.splits gate.splits sum.splits prod.splits)
    (auto simp: apart_from_def)

lemma apart_link: "linkFromChat env row m now w = Some (r, w') \<Longrightarrow> apart_from w w'"
  by (auto simp: apart_from_def linkFromChat_def split: option.splits if_splits prod.splits bool.splits)

lemma apart_hear: "hear env row m w = (r, w') \<Longrightarrow> apart_from w w'"
  by (auto simp: apart_from_def hear_def Let_def split: option.splits if_splits sum.splits transcription.splits)

text \<open>What the work does to the connections: a handshake, or nothing.\<close>

lemma work_apart:
  assumes "channel_work env ids row m now w = (r, w')"
  shows "event_sigs w' = event_sigs w" and "cw_channels w' = cw_channels w \<or> (\<exists>c. cw_channels w' = cw_channels (snd (claim_channel (cn_workspaceId row) (cn_id row) c (im_chatRef m) now w)))"
proof -
  have "event_sigs w' = event_sigs w \<and> (cw_channels w' = cw_channels w \<or> (\<exists>c. cw_channels w' = cw_channels (snd (claim_channel (cn_workspaceId row) (cn_id row) c (im_chatRef m) now w))))"
  proof (cases "cn_status row = Connected")
    case False
    with assms show ?thesis by (auto simp: channel_work_def completeHandshake_def claim_channel_def event_sigs_def split: bool.splits)
  next
    case True
    with assms show ?thesis
      by (auto simp: channel_work_def apart_from_def event_sigs_def [of "reply _ _ _ _"] dest!: apart_startRun apart_link apart_hear
          split: if_splits option.splits prod.splits sum.splits) (auto simp: event_sigs_def)
  qed
  then show "event_sigs w' = event_sigs w" "cw_channels w' = cw_channels w \<or> (\<exists>c. cw_channels w' = cw_channels (snd (claim_channel (cn_workspaceId row) (cn_id row) c (im_chatRef m) now w)))" by auto
qed

lemma events_release:
  "(i, ref, t) \<in> event_sigs w \<Longrightarrow> (i, ref) \<noteq> (j, other) \<Longrightarrow> (i, ref, t) \<in> event_sigs (releaseDelivery ws j other w)"
  by (auto simp: releaseDelivery_def event_sigs_def event_sig_def image_iff dest!: find_Some_in split: option.splits)
    (metis in_set_remove1)+

lemma events_claim:
  assumes "claimDelivery newId ws i ref now w = (won, w')"
  shows "event_sigs w \<subseteq> event_sigs w'" and "won \<Longrightarrow> (i, ref, now) \<in> event_sigs w' \<and> (\<forall>t. (i, ref, t) \<notin> event_sigs w)"
  using assms by (auto simp: claimDelivery_def event_sigs_def event_sig_def list_ex_iff split: if_splits)

lemma finish_work_cases:
  assumes "finish_work env ids row m now w = (r, w')"
  obtains (ended) x where "r = Inr x" "event_sigs w' = event_sigs w" "channel_runs w' = channel_runs w + (if x = None then 0 else 1)"
  | (broken) e w1 where "r = Inl e" "event_sigs w1 = event_sigs w" "cw_events w' = cw_events (releaseDelivery (cn_workspaceId row) (cn_id row) (im_messageRef m) w1)"
      "channel_runs w' = channel_runs w"
proof -
  obtain x w1 where x: "channel_work env ids row m now w = (x, w1)" by (metis surj_pair)
  note out = work_cases [OF x] work_apart(1) [OF x]
  show thesis
  proof (cases x)
    case (Inl e)
    with assms x out show thesis by (intro broken [of e w1]) (auto simp: finish_work_def channel_runs_def)
  next
    case (Inr y)
    with assms x out show thesis
      by (intro ended [of y]) (auto simp: finish_work_def channel_runs_def chat_run_ok_def from_channel_def split: option.splits)
  qed
qed

lemma choice_kept:
  assumes "act_choice env ids row p now w = (x, w')"
  shows "event_sigs w \<subseteq> event_sigs w'" and "channel_runs w' = channel_runs w"
proof -
  obtain won w1 where cl: "claimDelivery (xi_event ids) (cn_workspaceId row) (cn_id row) (ic_deliveryRef p) now w = (won, w1)" by (metis surj_pair)
  obtain y w2 where d: "decideFromChat row p now w1 = (y, w2)" by (metis surj_pair)
  have "cw_events w' = cw_events w1"
    using assms cl d decide_cases [OF d] by (auto simp: act_choice_def split: bool.splits if_splits prod.splits)
  then show "event_sigs w \<subseteq> event_sigs w'" using events_claim(1) [OF cl] by (simp add: event_sigs_def)
  have "length (filter (\<lambda>t. fst t = ''channel'') (map rd_trigger ds)) = length (filter from_channel ds)" for ds
    by (induction ds) (auto simp: from_channel_def)
  then show "channel_runs w' = channel_runs w"
    using act_choice_cases [OF assms] unfolding channel_runs_def by metis
qed

subsection \<open>One run for a delivery\<close>

text \<open>Two claims of the same delivery: the later one comes after the record of the earlier is gone.\<close>

definition week_apart :: "delivery_claim \<Rightarrow> delivery_claim \<Rightarrow> bool" where
  "week_apart a b \<longleftrightarrow> claim_key a = claim_key b \<longrightarrow> dc_at a + EVENT_TTL_MS < dc_at b"

definition on_record :: "time \<Rightarrow> chat_world \<Rightarrow> delivery_claim \<Rightarrow> bool" where
  "on_record now w c \<longleftrightarrow> dc_at c \<le> now \<and> (now \<le> dc_at c + EVENT_TTL_MS \<longrightarrow> (fst (claim_key c), snd (claim_key c), dc_at c) \<in> event_sigs w)"

definition chat_inv :: "chat_state \<Rightarrow> bool" where
  "chat_inv s \<longleftrightarrow> sorted_wrt week_apart (cs_claims s) \<and> (\<forall>c \<in> set (cs_claims s). on_record (cs_clock s) (cs_world s) c) \<and>
     channel_runs (cs_world s) = length (filter started (cs_claims s))"

lemma on_record_mono: "on_record t w c \<Longrightarrow> t \<le> now \<Longrightarrow> event_sigs w \<subseteq> event_sigs w' \<Longrightarrow> on_record now w' c"
  by (auto simp: on_record_def)

lemma on_record_forget: "on_record t w c \<Longrightarrow> t \<le> now \<Longrightarrow> on_record now (forget_events now w) c"
  by (auto simp: on_record_def forget_events_def event_sigs_def event_sig_def)

lemma on_record_release:
  assumes "on_record t w a" "t \<le> now" "event_sigs w1 = event_sigs w" "cw_events w' = cw_events (releaseDelivery ws i ref w1)"
    and "claim_key a \<noteq> (i, ref) \<or> \<not> now \<le> dc_at a + EVENT_TTL_MS"
  shows "on_record now w' a"
proof -
  have "event_sigs w' = event_sigs (releaseDelivery ws i ref w1)" using assms(4) by (simp add: event_sigs_def)
  then show ?thesis
    using assms events_release [of "fst (claim_key a)" "snd (claim_key a)" "dc_at a" w1 i ref ws] by (auto simp: on_record_def)
qed

lemma week_apart_phase [simp]:
  "week_apart (a\<lparr>dc_phase := x\<rparr>) b = week_apart a b" "week_apart a (b\<lparr>dc_phase := x\<rparr>) = week_apart a b" "on_record t w (a\<lparr>dc_phase := x\<rparr>) = on_record t w a"
  by (simp_all add: week_apart_def on_record_def claim_key_def)

lemma chat_inv_step:
  assumes "chat_inv s" "chat_step env s t"
  shows "chat_inv t"
  using assms(2)
proof cases
  case (delivery_claimed now row m newId w1)
  let ?c = "\<lparr>dc_row = row, dc_message = m, dc_at = now, dc_phase = Working\<rparr>"
  note ev = events_claim [OF delivery_claimed(5)]
  have "week_apart a ?c" if "a \<in> set (cs_claims s)" for a
    using that assms(1) ev(2) delivery_claimed(2) by (auto simp: chat_inv_def on_record_def week_apart_def claim_key_def)
  moreover have "on_record now (recordDelivery (cn_workspaceId row) (cn_id row) now w1) a" if "a \<in> set (cs_claims s)" for a
    using that assms(1) ev(1) delivery_claimed(2) on_record_mono [of "cs_clock s" "cs_world s" a now]
    by (simp add: chat_inv_def event_sigs_def)
  moreover have "on_record now (recordDelivery (cn_workspaceId row) (cn_id row) now w1) ?c"
    using ev(2) by (auto simp: on_record_def claim_key_def event_sigs_def)
  moreover have "channel_runs (recordDelivery (cn_workspaceId row) (cn_id row) now w1) = channel_runs (cs_world s)"
    using chat_start_claims(2) [OF delivery_claimed(5)] by (simp add: channel_runs_def)
  ultimately show ?thesis using assms(1) delivery_claimed(1) by (auto simp: chat_inv_def sorted_wrt_append)
next
  case (work_done now before c after ids r w')
  have sigs: "event_sigs w' = event_sigs (cs_world s)" and runs: "channel_runs w' = channel_runs (cs_world s) + (if r = None then 0 else 1)"
    using work_done(6) by (cases rule: finish_work_cases; simp)+
  have "\<forall>a \<in> set (before @ c # after). on_record now w' a"
    using assms(1) work_done(2,3) sigs by (auto simp: chat_inv_def intro: on_record_mono)
  with assms(1) work_done(1,3,4) runs show ?thesis
    by (auto simp: chat_inv_def sorted_wrt_append split: option.splits)
next
  case (work_failed now before c after ids e w')
  have inv: "sorted_wrt week_apart (before @ c # after)" "\<forall>a \<in> set (before @ c # after). on_record (cs_clock s) (cs_world s) a"
    using assms(1) work_failed(3) by (simp_all add: chat_inv_def)
  obtain w1 where w1: "event_sigs w1 = event_sigs (cs_world s)" "channel_runs w' = channel_runs (cs_world s)"
    "cw_events w' = cw_events (releaseDelivery (cn_workspaceId (dc_row c)) (cn_id (dc_row c)) (im_messageRef (dc_message c)) w1)"
    using work_failed(6) by (cases rule: finish_work_cases) auto
  have "on_record now w' a" if a: "a \<in> set (before @ after)" for a
  proof (cases "claim_key a = claim_key c \<and> now \<le> dc_at a + EVENT_TTL_MS")
    case True
    have "week_apart a c \<or> week_apart c a" using a inv(1) by (auto simp: sorted_wrt_append)
    moreover have "\<forall>b \<in> set (before @ c # after). dc_at b \<le> now" using inv(2) work_failed(2) by (force simp: on_record_def)
    then have "dc_at a \<le> now" "dc_at c \<le> now" using a by auto
    ultimately show ?thesis using True work_failed(5) by (auto simp: week_apart_def)
  next
    case False
    have "on_record (cs_clock s) (cs_world s) a" using a inv(2) by auto
    then show ?thesis by (rule on_record_release [OF _ work_failed(2) w1(1,3)]) (use False in \<open>simp add: claim_key_def\<close>)
  qed
  with assms(1) work_failed(1,3,4) w1(2) show ?thesis by (auto simp: chat_inv_def sorted_wrt_append)
next
  case (pressed now row ids p x w')
  with assms(1) choice_kept [OF pressed(4)] show ?thesis by (auto simp: chat_inv_def intro: on_record_mono)
next
  case (forgotten now)
  have "channel_runs (forget_events now (cs_world s)) = channel_runs (cs_world s)" by (simp add: channel_runs_def forget_events_def)
  with assms(1) forgotten show ?thesis by (auto simp: chat_inv_def intro: on_record_forget)
next
  case (elsewhere now w')
  with assms(1) show ?thesis by (auto simp: chat_inv_def event_sigs_def intro: on_record_mono)
qed

interpretation chats: invariant_system no_chats "chat_step env" chat_inv
  by unfold_locales (simp add: no_chats_def chat_inv_def, rule chat_inv_step)

text \<open>
  C19. A delivery starts one run, however often and however closely it is repeated. In every state that claims, their work,
  failures, presses, the removal of old records and the rest of the host lead to, as many runs of channels were started as there are
  claims whose work started one; and of two claims of the same message of the same connection that were not given back,
  the later was made more than seven days after the earlier.
\<close>

theorem delivery_starts_one_run:
  assumes "reach no_chats (chat_step env) s"
  shows "channel_runs (cs_world s) = length (filter started (cs_claims s)) \<and>
    (\<forall>i j. i < j \<and> j < length (cs_claims s) \<and> claim_key (cs_claims s ! i) = claim_key (cs_claims s ! j) \<longrightarrow>
      dc_at (cs_claims s ! i) + EVENT_TTL_MS < dc_at (cs_claims s ! j))"
  using chats.inv_reach [OF assms] by (auto simp: chat_inv_def sorted_wrt_iff_nth_less week_apart_def)

subsection \<open>A failure and after\<close>

text \<open>What happens to a connection while nobody asks for a new code and nobody connects it anew.\<close>

datatype host_event =
    Delivered chat_ids delivery
  | Answered id bool "string option"
  | Question_put id "string + string"
  | Webhooks_swept
  | Webhook_asked string id id

fun host_step :: "chat_env \<Rightarrow> (string \<Rightarrow> string) \<Rightarrow> (approval_doc \<Rightarrow> bool \<Rightarrow> string) \<Rightarrow> time \<times> host_event \<Rightarrow> chat_world \<Rightarrow> chat_world" where
  "host_step env sentence question (now, Delivered ids d) w = snd (serve_delivery env ids d now w)"
| "host_step env sentence question (now, Answered runId draft refused) w = snd (deliver sentence runId draft refused now w)"
| "host_step env sentence question (now, Question_put runId answer) w = snd (announcePendingApproval env question runId answer now w)"
| "host_step env sentence question (now, Webhooks_swept) w = snd (snd (refreshStaleWebhooks env now w))"
| "host_step env sentence question (now, Webhook_asked message ws i) w = snd (webhook_route env message ws i now w)"

definition out_of_order :: "channel_doc \<Rightarrow> bool" where
  "out_of_order d \<longleftrightarrow> cn_status d = Channel_error \<and> cn_connect d = None"

definition muted :: "id \<Rightarrow> channel_doc list \<Rightarrow> bool" where
  "muted i ds \<longleftrightarrow> list_all (\<lambda>d. cn_id d = i \<longrightarrow> out_of_order d) ds"

text \<open>The identifiers of connections are unique, and a live connection has no code.\<close>

definition connections_ok :: "chat_world \<Rightarrow> bool" where
  "connections_ok w \<longleftrightarrow> distinct (map cn_id (cw_channels w)) \<and> list_all (\<lambda>d. cn_status d = Connected \<longrightarrow> cn_connect d = None) (cw_channels w)"

lemma muted_update_first:
  "\<forall>d. cn_id (f d) = cn_id d \<and> (P d \<and> out_of_order d \<longrightarrow> out_of_order (f d)) \<Longrightarrow> muted i ds \<Longrightarrow> muted i (update_first P f ds)"
  by (induction ds) (auto simp: muted_def)

lemma muted_update: "\<forall>d. cn_id (f d) = cn_id d \<and> (out_of_order d \<longrightarrow> out_of_order (f d)) \<Longrightarrow> muted i (cw_channels w) \<Longrightarrow> muted i (cw_channels (update_channel ws j f w))"
  by (simp add: update_channel_def muted_update_first)

lemma muted_records:
  "muted i (cw_channels w) \<Longrightarrow> muted i (cw_channels (recordDelivery ws j now w))" "muted i (cw_channels w) \<Longrightarrow> muted i (cw_channels (channel_failure ws j msg now w))"
  "muted i (cw_channels w) \<Longrightarrow> muted i (cw_channels (recordWebhook ws j url spec now w))" "muted i (cw_channels w) \<Longrightarrow> muted i (cw_channels (bindInstall ws j team name now w))"
  unfolding recordDelivery_def channel_failure_def recordWebhook_def bindInstall_def by (rule muted_update; simp add: out_of_order_def)+

lemma muted_claim: "muted i (cw_channels w) \<Longrightarrow> muted i (cw_channels (snd (claim_channel ws j c chat now w)))"
  by (auto simp: claim_channel_def claimable_by_def out_of_order_def intro!: muted_update_first)

lemma muted_register: "muted i (cw_channels w) \<Longrightarrow> muted i (cw_channels (snd (registerWebhook env row now w)))"
  by (auto simp: registerWebhook_def Let_def intro: muted_records split: option.splits)

lemma muted_refresh: "muted i (cw_channels (snd (snd acc))) \<Longrightarrow> muted i (cw_channels (snd (snd (refresh_each env rows now acc))))"
proof (induction rows arbitrary: acc)
  case (Cons row rows)
  obtain n m w where acc: "acc = (n, m, w)" by (metis surj_pair)
  with Cons.prems muted_register [of i w env row now] Cons.IH show ?case by (auto split: prod.splits bool.splits)
qed simp

lemma muted_work:
  assumes "channel_work env ids row m now w = (r, w')" "muted i (cw_channels w)"
  shows "muted i (cw_channels w')"
  using work_apart(2) [OF assms(1)] muted_claim [OF assms(2)] assms(2) by auto

lemma muted_act_message:
  assumes "act_message env ids row m a now w = (r, w')" "muted i (cw_channels w)"
  shows "muted i (cw_channels w')"
proof -
  obtain won w1 where c: "claimDelivery (xi_event ids) (cn_workspaceId row) (cn_id row) (im_messageRef m) now w = (won, w1)" by (metis surj_pair)
  obtain x w3 where f: "channel_work env ids row m now (recordDelivery (cn_workspaceId row) (cn_id row) now w1) = (x, w3)" by (metis surj_pair)
  have 1: "muted i (cw_channels w1)" using c assms(2) by (auto simp: claimDelivery_def split: if_splits)
  then have 3: "muted i (cw_channels w3)" using muted_work [OF f] muted_records(1) by blast
  with 1 assms c f show ?thesis
    by (auto simp: act_message_def finish_work_def Let_def intro!: muted_records(2) split: if_splits bool.splits sum.splits)
qed

lemma muted_act_choice:
  assumes "act_choice env ids row p now w = (x, w')" "muted i (cw_channels w)"
  shows "muted i (cw_channels w')"
proof -
  obtain won w1 where c: "claimDelivery (xi_event ids) (cn_workspaceId row) (cn_id row) (ic_deliveryRef p) now w = (won, w1)" by (metis surj_pair)
  obtain y w2 where d: "decideFromChat row p now w1 = (y, w2)" by (metis surj_pair)
  have "cw_channels w1 = cw_channels w" using c by (auto simp: claimDelivery_def split: if_splits)
  then have "cw_channels w' = cw_channels w"
    using assms(1) c d decide_cases [OF d] by (auto simp: act_choice_def split: bool.splits if_splits prod.splits)
  with assms(2) show ?thesis by simp
qed

lemma muted_bot: "claimTelegramChat env chat m now w = (r, w') \<Longrightarrow> muted i (cw_channels w) \<Longrightarrow> muted i (cw_channels w')"
  using muted_claim [of i w]
  by (auto simp: claimTelegramChat_def Let_def claim_channel_def intro!: muted_records split: option.splits if_splits bool.splits)

lemma muted_act:
  assumes "act env ids row res now w = (r, w')" "muted i (cw_channels w)"
  shows "muted i (cw_channels w')"
  using assms muted_act_message [of env ids row _ _ now w r w' i] muted_act_choice [of env ids row _ now w _ w' i]
  by (auto simp: act_def split: inbound_result.splits prod.splits)

lemma muted_serve: "muted i (cw_channels w) \<Longrightarrow> muted i (cw_channels (snd (serve_delivery env ids d now w)))"
proof (cases d)
  case (Own_address type j raw hs)
  assume "muted i (cw_channels w)"
  with Own_address muted_act [of env ids] muted_register show ?thesis
    by (auto simp: handleDelivery_def Let_def split: option.splits inbound_result.splits if_splits) (metis prod.collapse)+
next
  case (Shared_address type raw hs)
  assume "muted i (cw_channels w)"
  with Shared_address muted_act [of env ids] muted_bot [of env] show ?thesis
    by (auto simp: handleSharedDelivery_def Let_def split: option.splits inbound_result.splits if_splits channel_kind.splits prod.splits) (metis prod.collapse)+
qed

lemma muted_step: "muted i (cw_channels w) \<Longrightarrow> muted i (cw_channels (host_step env sentence question e w))"
proof (induction env sentence question e w rule: host_step.induct)
  case (2 env sentence question now runId draft refused w)
  then show ?case by (auto simp: deliver_def Let_def intro!: muted_records split: sum.splits option.splits)
next
  case (3 env sentence question now runId answer w)
  then show ?case
    by (auto simp: announcePendingApproval_def Let_def in_chat_db_def intro!: muted_records intro: muted_register split: sum.splits option.splits)
next
  case (5 env sentence question now message ws j w)
  then show ?case
    using muted_register [of i w env _ now] by (auto simp: webhook_route_def intro: muted_records split: option.splits prod.splits bool.splits)
      (metis snd_conv muted_records(2))+
qed (auto simp: muted_serve refreshStaleWebhooks_def intro!: muted_refresh)

lemma muted_steps: "muted i (cw_channels w) \<Longrightarrow> muted i (cw_channels (fold (host_step env sentence question) es w))"
  by (induction es arbitrary: w) (auto intro: muted_step)

lemma muted_silent:
  assumes "muted i (cw_channels w)"
  shows "let w' = snd (serve_delivery env ids (Own_address type i raw hs) now w)
    in map rd_id (db_runs (chat_db w')) = map rd_id (db_runs (chat_db w)) \<and> db_approvals (chat_db w') = db_approvals (chat_db w)"
proof -
  obtain r w' where s: "serve_delivery env ids (Own_address type i raw hs) now w = (r, w')" by (metis surj_pair)
  have broken: "cn_status row \<noteq> Connected" if "row \<in> set (cw_channels w)" "cn_id row = i" for row
    using that assms by (auto simp: muted_def list_all_iff out_of_order_def)
  from s have "map rd_id (db_runs (chat_db w')) = map rd_id (db_runs (chat_db w)) \<and> db_approvals (chat_db w') = db_approvals (chat_db w)"
  proof (cases rule: serve_cases)
    case idle
    then show ?thesis by simp
  next
    case (message row m a w1)
    with broken [of row] act_message_cases [OF message(4)] register_kept [OF message(5)] show ?thesis by (auto simp: open_for_def)
  next
    case (press row c x w1)
    with broken [of row] act_choice_cases [OF press(4)] register_kept [OF press(5)] show ?thesis by (auto simp: press_ok_def)
  qed
  with s show ?thesis by simp
qed

lemma update_first_other: "(\<forall>x \<in> set ds. \<not> P x) \<Longrightarrow> update_first P f ds = ds"
  by (induction ds) auto

lemma update_first_distinct:
  assumes "distinct (map cn_id ds)" "d \<in> set ds" "P d" "\<forall>x. P x \<longrightarrow> cn_id x = cn_id d" "x \<in> set (update_first P f ds)" "cn_id x = cn_id d"
  shows "x = f d"
  using assms
proof (induction ds)
  case (Cons y ds)
  show ?case
  proof (cases "P y")
    case True
    then have "cn_id y = cn_id d" using Cons.prems(4) by blast
    then have "cn_id d \<notin> cn_id ` set ds" "y = d" using Cons.prems(1,2) by (auto intro: image_eqI)
    moreover from this have "x \<notin> set ds" using Cons.prems(6) by (metis imageI)
    ultimately show ?thesis using Cons.prems(5) True by simp
  next
    case False
    then have "d \<in> set ds" using Cons.prems(2,3) by auto
    then have "x \<noteq> y" using Cons.prems(1,6) by (auto dest: imageI [of d _ cn_id])
    with Cons.prems(5) False have "x \<in> set (update_first P f ds)" by simp
    moreover have "distinct (map cn_id ds)" using Cons.prems(1) by simp
    ultimately show ?thesis using Cons.IH [OF _ \<open>d \<in> set ds\<close> Cons.prems(3,4) _ Cons.prems(6)] by blast
  qed
next
  case Nil
  from Nil.prems(2) show ?case by simp
qed

lemma update_first_reaches: "d \<in> set ds \<Longrightarrow> P d \<Longrightarrow> \<exists>x \<in> set ds. P x \<and> f x \<in> set (update_first P f ds)"
  by (induction ds) auto

lemma failure_mutes:
  assumes "distinct (map cn_id (cw_channels w))" "d \<in> set (cw_channels w)" "cn_connect d = None"
  shows "muted (cn_id d) (cw_channels (channel_failure (cn_workspaceId d) (cn_id d) msg now w))"
proof -
  have "x = d\<lparr>cn_failures := cn_failures d + 1, cn_lastError := Some (take 500 msg), cn_status := Channel_error, cn_updatedAt := now\<rparr>"
    if "x \<in> set (cw_channels (channel_failure (cn_workspaceId d) (cn_id d) msg now w))" "cn_id x = cn_id d" for x
    using that assms(1,2) unfolding channel_failure_def update_channel_def
    by (intro update_first_distinct [of "cw_channels w" d "\<lambda>x. cn_workspaceId x = cn_workspaceId d \<and> cn_id x = cn_id d"]) auto
  with assms(3) show ?thesis by (force simp: muted_def list_all_iff out_of_order_def)
qed

text \<open>
  C39. One answer that cannot be sent silences a connection for good. If the platform refuses an answer once, then, whatever
  is delivered, answered, asked or swept afterwards, and however often the connection's address is registered again, no delivery
  to its address starts a run or decides an approval: the failure takes the connection out of service, and only a new code or
  a new connection puts it back.
\<close>

theorem failed_send_mutes:
  assumes "connections_ok w" "channelTargetOf runId w = Inr t"
    and "deliver sentence runId draft (Some message) now w = (Skipped (''send failed: '' @ message), w1)"
  shows "let w2 = fold (host_step env sentence question) es w1; w3 = snd (serve_delivery env ids (Own_address type (cn_id (ct_row t)) raw hs) later w2)
    in muted (cn_id (ct_row t)) (cw_channels w2) \<and> map rd_id (db_runs (chat_db w3)) = map rd_id (db_runs (chat_db w2)) \<and> db_approvals (chat_db w3) = db_approvals (chat_db w2)"
proof -
  let ?row = "ct_row t"
  have row: "?row \<in> set (cw_channels w)" "cn_status ?row = Connected"
    using assms(2) by (auto simp: channelTargetOf_def channel_by_id_def Let_def dest!: find_Some_in split: option.splits if_splits)
  have "w1 = channel_failure (cn_workspaceId ?row) (cn_id ?row) message now w"
    using assms(2,3) by (auto simp: deliver_def Let_def split: option.splits)
  then have "muted (cn_id ?row) (cw_channels (fold (host_step env sentence question) es w1))"
    using assms(1) row failure_mutes [of w ?row] muted_steps by (auto simp: connections_ok_def list_all_iff)
  with muted_silent [OF this, of env ids type raw hs later] show ?thesis by (simp add: Let_def)
qed


subsection \<open>A second person in a chat\<close>

lemma refused_start:
  assumes "agent_by_id (cn_workspaceId row) (cn_agentId row) (cw_start w) = Some agent"
    and "channel_binding row agent (sw_bill (cw_start w)) = Some binding"
    and "spendGate (se_bill (ce_start env)) now (cn_workspaceId row) (Some (mb_id binding)) (sw_bill (cw_start w)) = Open"
    and "chat_identity (cn_workspaceId row) (cn_id row) (im_senderRef m) w = None"
    and "h \<in> set (sw_heads (cw_start w))" "ch_channelId h = Some (cn_id row)" "ch_externalRef h = Some (im_chatRef m)"
  shows "channel_startRun env ids row m now w = (Inl Duplicate_conversation, w)"
proof -
  have "conversation_create head now (cw_start w) = None" if "ch_channelId head = Some (cn_id row)" "ch_externalRef head = Some (im_chatRef m)" for head
    using that assms(5-7) by (auto simp: conversation_create_def ref_taken_def list_ex_iff)
  with assms(1-4) show ?thesis by (simp add: channel_startRun_def Let_def chat_run_def chat_conversation_def)
qed

text \<open>
  C40. A second person who speaks in a chat of the assistant silences it for the first. On a live connection whose conversation
  for this chat exists, a message of somebody the connection has not met yet fails, since a chat has one conversation only and
  theirs cannot be created; and the failure takes the connection out of service for everybody.
\<close>

theorem second_person_mutes:
  assumes "connections_ok w" "row \<in> set (cw_channels w)" "open_for row m" "confirmed env row m w" "im_audio m = None"
    and "\<not> delivery_seen (cn_id row) (im_messageRef m) w" "chat_identity (cn_workspaceId row) (cn_id row) (im_senderRef m) w = None"
    and "h \<in> set (sw_heads (cw_start w))" "ch_channelId h = Some (cn_id row)" "ch_externalRef h = Some (im_chatRef m)"
    and "agent_by_id (cn_workspaceId row) (cn_agentId row) (cw_start w) = Some agent"
    and "channel_binding row agent (sw_bill (cw_start w)) = Some binding"
    and "spendGate (se_bill (ce_start env)) now (cn_workspaceId row) (Some (mb_id binding)) (sw_bill (cw_start w)) = Open"
  shows "\<exists>w'. act_message env ids row m a now w = (Inl Duplicate_conversation, w') \<and> muted (cn_id row) (cw_channels w')"
proof -
  let ?ws = "cn_workspaceId row" and ?i = "cn_id row" and ?ref = "im_messageRef m"
  define w1 where "w1 = snd (claimDelivery (xi_event ids) ?ws ?i ?ref now w)"
  have claim: "claimDelivery (xi_event ids) ?ws ?i ?ref now w = (True, w1)" and same: "cw_start w1 = cw_start w" "cw_channels w1 = cw_channels w" "cw_identities w1 = cw_identities w"
    using assms(6) by (simp_all add: w1_def claimDelivery_def delivery_seen_def)
  define w2 where "w2 = recordDelivery ?ws ?i now w1"
  have start: "cw_start w2 = cw_start w" "cw_identities w2 = cw_identities w" using same by (simp_all add: w2_def recordDelivery_def update_channel_def)
  have "channel_startRun env ids row m now w2 = (Inl Duplicate_conversation, w2)"
    using assms(7-13) start by (intro refused_start [of row w2 agent binding env now m h]) (simp_all add: chat_identity_def)
  moreover have "hear env row m w2 = (Some m, w2)" using assms(5) by (simp add: hear_def)
  ultimately have "channel_work env ids row m now w2 = (Inl Duplicate_conversation, w2)"
    using assms(3) by (auto simp: channel_work_def open_for_def linkFromChat_def)
  then have "act_message env ids row m a now w = (Inl Duplicate_conversation, channel_failure ?ws ?i (ce_errorText env Duplicate_conversation) now (releaseDelivery ?ws ?i ?ref w2))"
    using assms(4) claim by (simp add: act_message_def finish_work_def w2_def)
  moreover have "muted ?i (cw_channels (channel_failure ?ws ?i (ce_errorText env Duplicate_conversation) now (releaseDelivery ?ws ?i ?ref w2)))"
  proof -
    let ?P = "\<lambda>d. cn_workspaceId d = ?ws \<and> cn_id d = ?i" and ?f = "\<lambda>d. d\<lparr>cn_lastDeliveryAt := Some now, cn_failures := 0, cn_lastError := None\<rparr>"
    have w2: "cw_channels w2 = update_first ?P ?f (cw_channels w)" using same by (simp add: w2_def recordDelivery_def update_channel_def)
    obtain x where x: "x \<in> set (cw_channels w)" "?P x" "?f x \<in> set (cw_channels w2)"
      using update_first_reaches [of row "cw_channels w" ?P ?f] assms(2) w2 by auto
    then have "x = row" using assms(1,2) by (auto simp: connections_ok_def distinct_map dest: inj_onD)
    then have "cn_connect (?f x) = None" using assms(1-3) by (auto simp: connections_ok_def open_for_def list_all_iff)
    moreover have "distinct (map cn_id (cw_channels w2))" using assms(1) w2 by (simp add: connections_ok_def map_update_first)
    ultimately show ?thesis using failure_mutes [of "releaseDelivery ?ws ?i ?ref w2" "?f x"] x by simp
  qed
  ultimately show ?thesis by blast
qed

subsection \<open>An answer in place of a draft\<close>

text \<open>
  On Slack and Discord an answer that replaces a draft loses its end. When the answer is longer than one message of the
  platform but would fit into one of Telegram, the draft is rewritten with the first part and nothing else is sent.
\<close>

theorem draft_drops_text:
  assumes "k = Slack \<or> k = Discord" "text_limit k < length body" "length body \<le> TELEGRAM_LIMIT"
  shows "shown_texts k True body = [first_part body (text_limit k)] \<and> length (first_part body (text_limit k)) < length body"
proof -
  have "0 < text_limit k" using assms(1) by (auto simp: SLACK_LIMIT_def DISCORD_LIMIT_def)
  then obtain parts where parts: "split_rest (text_limit k) body = Some parts" "\<forall>p \<in> set parts. 0 < length p \<and> length p \<le> text_limit k" "rejoins parts body"
    using split_rest_ok by blast
  with assms(2) have "parts \<noteq> []" by auto
  then have "length (first_part body (text_limit k)) < length body"
    using parts assms(2) by (cases parts) (auto simp: first_part_def split_def)
  moreover have "remainderBeyondFirst body = None" using assms(3) by (simp add: remainderBeyondFirst_def split_def)
  ultimately show ?thesis using assms(1) by (auto simp: shown_texts_def)
qed

theorem draft_drops_text_witness:
  "length (concat (shown_texts Discord True (replicate 2500 CHR ''a''))) < 2500"
  using draft_drops_text [of Discord "replicate 2500 CHR ''a''"] by (simp add: DISCORD_LIMIT_def TELEGRAM_LIMIT_def)

subsection \<open>Witnesses\<close>

definition sample_hello :: inbound_message where
  "sample_hello = \<lparr>im_chatRef = ''7'', im_senderRef = ''42'', im_senderLabel = ''Ann'', im_text = ''hi'', im_audio = None, im_messageRef = ''1''\<rparr>"

definition sample_claimed :: chat_state where
  "sample_claimed = \<lparr>cs_world = recordDelivery ''w1'' ''ch1'' 5 (snd (claimDelivery ''e1'' ''w1'' ''ch1'' ''1'' 5 sample_chats)), cs_clock = 5,
     cs_claims = [\<lparr>dc_row = sample_connection, dc_message = sample_hello, dc_at = 5, dc_phase = Working\<rparr>]\<rparr>"

lemma sample_claimed_reached: "reach no_chats (chat_step sample_chat) sample_claimed"
proof -
  let ?s = "\<lparr>cs_world = sample_chats, cs_clock = 0, cs_claims = []\<rparr>"
  have "no_chats ?s" by (simp add: no_chats_def channel_runs_def sample_chats_def empty_start_def empty_store_world_def)
  then have "reach no_chats (chat_step sample_chat) ?s" by (rule reach_init)
  moreover have "claimDelivery ''e1'' ''w1'' ''ch1'' ''1'' 5 sample_chats = (True, snd (claimDelivery ''e1'' ''w1'' ''ch1'' ''1'' 5 sample_chats))"
    by (simp add: claimDelivery_def sample_chats_def)
  then have "chat_step sample_chat ?s sample_claimed"
    using delivery_claimed [of ?s 5 sample_connection sample_chat sample_hello "''e1''" "snd (claimDelivery ''e1'' ''w1'' ''ch1'' ''1'' 5 sample_chats)"]
    by (simp add: sample_claimed_def sample_hello_def sample_connection_def sample_chats_def confirmed_def channelAdapter_def)
  ultimately show ?thesis by (rule reach_step)
qed

theorem delivery_starts_one_run_witness:
  "\<exists>s. reach no_chats (chat_step sample_chat) s \<and> length (cs_claims s) = 1 \<and> channel_runs (cs_world s) = 1"
proof -
  let ?work = "finish_work sample_chat sample_chat_ids sample_connection sample_hello 6 (cs_world sample_claimed)"
  have "(case fst ?work of Inr (Some run) \<Rightarrow> True | _ \<Rightarrow> False)" by code_simp
  then obtain run w' where work: "?work = (Inr (Some run), w')" by (metis (no_types, lifting) option.exhaust option.simps(4) old.sum.exhaust sum.case prod.collapse)
  let ?c = "\<lparr>dc_row = sample_connection, dc_message = sample_hello, dc_at = 5, dc_phase = Working\<rparr>"
  let ?t = "sample_claimed\<lparr>cs_world := w', cs_clock := 6, cs_claims := [?c\<lparr>dc_phase := Over (Some (rd_id run))\<rparr>]\<rparr>"
  have "chat_step sample_chat sample_claimed ?t"
    using work_done [of sample_claimed 6 "[]" ?c "[]" sample_chat sample_chat_ids "Some run" w'] work
    by (simp add: sample_claimed_def EVENT_TTL_MS_def)
  with sample_claimed_reached have t: "reach no_chats (chat_step sample_chat) ?t" by (rule reach_step)
  with delivery_starts_one_run [OF t] show ?thesis by (intro exI [of _ ?t]) simp
qed

definition sample_failed :: chat_world where
  "sample_failed = sample_talk\<lparr>cw_start := (cw_start sample_talk)\<lparr>sw_store := (sw_store (cw_start sample_talk))\<lparr>w_db :=
     \<lparr>db_runs = [waiting_run\<lparr>rd_status := Failed\<rparr>], db_steps = [], db_events = [], db_approvals = []\<rparr>\<rparr>\<rparr>\<rparr>"

theorem failed_send_mutes_witness:
  "\<exists>w1. deliver id ''r1'' False (Some ''busy'') 9 sample_failed = (Skipped (''send failed: '' @ ''busy''), w1) \<and> muted ''ch1'' (cw_channels w1)"
proof -
  have "(case channelTargetOf ''r1'' sample_failed of Inr t \<Rightarrow> cn_id (ct_row t) = ''ch1'' | Inl _ \<Rightarrow> False)" by code_simp
  then obtain t where t: "channelTargetOf ''r1'' sample_failed = Inr t" "cn_id (ct_row t) = ''ch1''" by (auto split: sum.splits)
  have "fst (deliver id ''r1'' False (Some ''busy'') 9 sample_failed) = Skipped (''send failed: '' @ ''busy'')" by code_simp
  then obtain w1 where d: "deliver id ''r1'' False (Some ''busy'') 9 sample_failed = (Skipped (''send failed: '' @ ''busy''), w1)" by (metis prod.collapse)
  have "connections_ok sample_failed" by (simp add: connections_ok_def sample_failed_def sample_talk_def sample_chats_def sample_connection_def)
  from failed_send_mutes [OF this t(1) d, where es = "[]"] t(2) d show ?thesis by (auto simp: Let_def)
qed

theorem second_person_mutes_witness:
  "\<exists>w'. act_message sample_chat sample_chat_ids sample_connection (sample_hello\<lparr>im_senderRef := ''43''\<rparr>) None 20 sample_talk = (Inl Duplicate_conversation, w') \<and>
     muted ''ch1'' (cw_channels w')"
proof -
  let ?m = "sample_hello\<lparr>im_senderRef := ''43''\<rparr>"
  have row: "cn_id sample_connection = ''ch1''" "cn_workspaceId sample_connection = ''w1''" "cn_agentId sample_connection = ''a1''" by (simp_all add: sample_connection_def)
  have world: "connections_ok sample_talk" "sample_connection \<in> set (cw_channels sample_talk)" "confirmed sample_chat sample_connection ?m sample_talk"
    by (simp_all add: connections_ok_def sample_talk_def sample_chats_def sample_connection_def confirmed_def channelAdapter_def)
  have said: "open_for sample_connection ?m" by code_simp
  have new: "\<not> delivery_seen ''ch1'' (im_messageRef ?m) sample_talk" "chat_identity ''w1'' ''ch1'' (im_senderRef ?m) sample_talk = None" "im_audio ?m = None"
    by (simp_all add: delivery_seen_def chat_identity_def sample_talk_def sample_chats_def sample_hello_def)
  have head: "hd (sw_heads (cw_start sample_talk)) \<in> set (sw_heads (cw_start sample_talk))"
    "ch_channelId (hd (sw_heads (cw_start sample_talk))) = Some ''ch1''" "ch_externalRef (hd (sw_heads (cw_start sample_talk))) = Some (im_chatRef ?m)"
    by (simp_all add: sample_talk_def sample_hello_def)
  have agent: "agent_by_id ''w1'' ''a1'' (cw_start sample_talk) = Some sample_agent"
    by (simp add: agent_by_id_def sample_talk_def empty_start_def sample_agent_def)
  have "(case channel_binding sample_connection sample_agent (sw_bill (cw_start sample_talk)) of Some b \<Rightarrow> mb_id b = ''b1'' | None \<Rightarrow> False)" by code_simp
  then obtain b where b: "channel_binding sample_connection sample_agent (sw_bill (cw_start sample_talk)) = Some b" "mb_id b = ''b1''" by (auto split: option.splits)
  have gate: "spendGate (se_bill (ce_start sample_chat)) 20 ''w1'' (Some ''b1'') (sw_bill (cw_start sample_talk)) = Open" by code_simp
  from second_person_mutes [OF world(1,2) said world(3) new(3) _ _ head(1) _ head(3) _ b(1), of 20 sample_chat_ids None] new head(2) agent gate b(2)
  show ?thesis by (simp add: row)
qed

end
