(* ===== verification/Spec2Isabelle.thy ===== *)
theory Spec2Isabelle
  imports Permission Principal Approvals Executor Redaction Resilience Gateway_Adapter Tenancy
    Oauth_Server Schedules Channel_Steps
begin

text \<open>
  A verification of the agent host: the program that takes a message for an assistant, runs a model
  over the conversation in slices, lets the model call tools of MCP servers under the policies of the
  workspace, and keeps everything it does in a database shared by many workspaces.

  \<^bold>\<open>The parts and how they interact.\<close> A message creates a \<^emph>\<open>run\<close> in the run queue
  (\<^verbatim>\<open>packages/db/src/run-queue.ts\<close>, \<^verbatim>\<open>repositories/runs.ts\<close>). The sliced executor
  (\<^verbatim>\<open>packages/runtime/src/sliced-executor.ts\<close>) claims it under a lease and calls the agent runtime
  (\<^verbatim>\<open>agent-runtime.ts\<close>) step after step until the run stops, suspends or the slice's time is up, and then
  hands it back. A step loads the conversation through the run state store (\<^verbatim>\<open>apps/web/src/lib/run-store.ts\<close>),
  and does one of: a compaction, a model call, or a tool phase. A tool phase calls the gateway adapter
  (\<^verbatim>\<open>gateway-adapter.ts\<close>), whose gateway (\<^verbatim>\<open>packages/mcp/src/gateway.ts\<close>) resolves the capability, asks the
  permission broker, validates the arguments, resolves the binding of the server, makes the call, answers
  the requests the server makes on the way, and writes the audit log. All collections are reached through
  the tenancy layer (\<^verbatim>\<open>packages/db/src/scoped.ts\<close>, \<^verbatim>\<open>guard.ts\<close>).
  Runs are started by people (\<^verbatim>\<open>apps/web/src/lib/send-message.ts\<close>), by schedules
  (\<^verbatim>\<open>lib/schedule-tick.ts\<close> over \<^verbatim>\<open>packages/schedule/src/cron.ts\<close>) and by messages of chat platforms
  (\<^verbatim>\<open>lib/channel-inbound.ts\<close> over \<^verbatim>\<open>packages/channels\<close>); all ask the spend gate
  (\<^verbatim>\<open>lib/limits.ts\<close>), which reads the workspace's plan (\<^verbatim>\<open>packages/billing\<close>) and its usage, before anything is
  written. People sign in to sessions (\<^verbatim>\<open>packages/auth\<close>, \<^verbatim>\<open>app/api/auth\<close>); who may act in a workspace is its
  list of members (\<^verbatim>\<open>repositories/workspaces.ts\<close>), and outside clients act for a member through tokens of the OAuth server (\<^verbatim>\<open>repositories/oauth-server.ts\<close>).

  \<^bold>\<open>Conventions.\<close> A definition has the name of the function it translates where HOL allows it. Records
  have the fields of the interfaces, under a short prefix. A thrown error is the left of a sum, an
  undefined result the \<^term>\<open>None\<close> of an option. A collection of the database is a list of documents in
  insertion order; a single update touches the first document its filter selects (\<^term>\<open>update_first\<close>).
  Stateful operations take the state and return it updated. JavaScript values are the type
  \<^typ>\<open>jsv\<close> of theory Json. Numbers are \<^typ>\<open>int\<close> where the code computes with integers below
  $2^{53}$, and \<^typ>\<open>rat\<close> for money and ratios; the one place with machine arithmetic is the 32-bit
  hash of the fingerprint and of the tool names, at its width. What the code takes from outside (the clock, random ids,
  SHA-256, the model provider, the MCP server behind a connection, the JSON-schema validator, the blob
  store) is an argument of the definitions, and what a property needs of it is a hypothesis of that property.

  \<^bold>\<open>Theories.\<close>
  \<^item> \<open>Prelude\<close>: list, option and string operations of the language, update of a collection; the simp
    collections of the development.
  \<^item> \<open>Json\<close>: \<^verbatim>\<open>packages/core/src/canonical.ts\<close>; canonical JSON does not depend on the order of keys.
  \<^item> \<open>Capability\<close>, \<open>Permission\<close>, \<open>Principal\<close>: \<^verbatim>\<open>packages/core/src/entities/mcp.ts\<close>, \<^verbatim>\<open>policy/\<close>, \<^verbatim>\<open>entities/principal.ts\<close>.
    The permission engine is compared with an abstract specification (deny is absolute, the most specific
    rule wins, ties ask, the floor tightens), and delegation never widens what its root may do.
  \<^item> \<open>Budget\<close>: run status, budgets, usage, meter, deadlines; the timeouts of nested calls fit into each other.
  \<^item> \<open>Conversation\<close>, \<open>Context\<close>, \<open>Compaction\<close>, \<open>Loop_Detection\<close>, \<open>Tool_Names\<close>, \<open>Redaction\<close>:
    the pure functions a step is made of. Every call in an assembled prompt is answered, the cached prefix stays,
    compaction cuts no call from its answer, wire names can be translated back, secrets in arguments are hidden.
  \<^item> \<open>Run_Queue\<close>, \<open>Run_Invariants\<close>, \<open>Run_Store\<close>, \<open>Approvals\<close>: the writes of the
    queue and of the repositories, and the queue as the step relation \<open>db_step\<close> with its invariant: one lease per
    token, sequence numbers without gaps, runs that finished stay finished; a lost lease writes nothing.
  \<^item> \<open>Model_Call\<close>, \<open>Tool_Phase\<close>, \<open>Agent_Runtime\<close>, \<open>Step_Properties\<close>, \<open>Executor\<close>:
    the runtime. The effect of a step on the conversation is a frame rule, stated as locales
    (what a runtime port must spare) that the model's ports interpret; a slice ends, hands its run back, and a
    continuation is asked for whenever there is more to do.
  \<^item> \<open>Capability_Store\<close>, \<open>Mcp_Binding\<close>, \<open>Broker\<close>, \<open>Resilience\<close>, \<open>Tool_Results\<close>,
    \<open>Gateway\<close>, \<open>Secret_Redaction\<close>, \<open>Gateway_Adapter\<close>: the path of a tool call. Definitions are pinned by
    hash until somebody approves a change; cached responses stay with the person they were fetched for; the
    gateway's dependencies are the \<open>fixes\<close> of three locales (\<open>gateway_quiet\<close>, \<open>gateway_keeps\<close>,
    \<open>gateway_meter\<close>), interpreted on the adapter, from which the end-to-end properties follow: a call reaches a server
    at most once per round and only past every guard, and every call is answered and recorded.
  \<^item> \<open>Tenancy\<close>: the collection registry, the scoped collections and the command guard over a model of what a
    filter selects; no operation of a scoped collection sees or changes another workspace's document.
  \<^item> \<open>Workspaces\<close>: workspaces, members, invitations, with the routes that change them; a served sequence of
    requests keeps an owner and lets nobody change the members without the role for it.
  \<^item> \<open>Oauth_Server\<close>: clients, codes and tokens as a step relation over the single commands of concurrent
    requests; an accepted token goes back to a consent, a code or refresh token is spent once.
  \<^item> \<open>Tokens\<close>, \<open>Sessions\<close>: access tokens down to their base64url segments, cookies and password hashes; people, sessions
    and the routes that sign them in, as a step relation in which a refresh is split between its reads and its write. A refresh
    token renews once, and every session goes back to a proof of identity.
  \<^item> \<open>Cron\<close>: the parser, the matcher and the walk over a window, against what the fields mean.
  \<^item> \<open>Billing\<close>: plans, entitlements, the processor's webhook, the daily roll-up and the gates.
  \<^item> \<open>Run_Starts\<close>, \<open>Schedules\<close>: how a message and how an occurrence of a schedule become a run; ticks that
    overlap are interleaved command by command.
  \<^item> \<open>Channel_Adapters\<close>, \<open>Channels\<close>, \<open>Channel_Properties\<close>, \<open>Channel_Steps\<close>: chat platforms. What a delivery of each
    platform is (the ones that sign interpret the locale \<open>signed_adapter\<close>), connections, chat accounts and the records of deliveries,
    a delivery from its arrival to the run it starts or the approval it decides, and the answer sent back. A run needs a genuine
    delivery to a live connection, a press decides only for the person who was asked; deliveries that overlap are the step relation
    \<open>chat_step\<close>, in which a delivery starts one run. Two theorems show how a connection goes out of service by itself.

  \<^bold>\<open>Bounds and fuel.\<close> The executor's loop is recursive in a fuel that stands for the number of steps of a slice;
  \<open>Executor.slice_terminates\<close> shows that once the clock passes the deadline by iteration \<open>N\<close> any fuel above
  \<open>N\<close> gives the slice's result. The rounds of a tool call recurse on the
  rounds left of the policy (\<open>maxRounds\<close>), the attempts of a model call on the attempts left. Splitting an answer is a partial
  function, and \<open>Channel_Adapters.split_fits\<close> shows that it has a value for every positive limit. Everything else is
  structural or has a termination proof. The entropy test of the write-path redaction is
  decided by exact integer arithmetic where the source compares floating point logarithms.

  \<^bold>\<open>Not modelled.\<close> The web client (pages, components, hooks), the adapters to vendors (model providers,
  Google, Shopify, Meta, voice), which mostly translate to and from a remote API this
  development cannot see; of the chat platforms the live draft of a reply, the installs of shared applications, and media; the host's own OAuth towards servers; documents, search and
  memory; metrics and tracing; and scripts that seed or migrate a database. The manifest lists each of them.
\<close>

end
